(* ===== verification/Prelude.thy ===== *)
theory Prelude
  imports Main "HOL-Library.Char_ord" "HOL-Library.List_Lexorder" "HOL-Library.Sublist"
begin

text \<open>
  What every component shares: the result type of fallible code with the combinators the
  source chains (\<open>?\<close>, \<open>map_err\<close>, \<open>ok_or_else\<close>), checked and saturating machine arithmetic,
  and the few string operations the source calls.

  Signed and unsigned machine integers are HOL integers and naturals. An operation of the
  source that can leave the type's range is written with the range test (\<open>checked_\<close> or
  \<open>saturating_\<close>), so that overflow is a branch of the model.

  A text is a list of Unicode scalar values below 256, one \<open>char\<close> each. On this range the
  whitespace, control and lower-case classes below are those of Rust's \<open>char\<close>, and comparing
  lists of characters lexicographically is Rust's comparison of the UTF-8 encodings.
\<close>

named_theorems result_simps "unfolding rules of the result combinators"
named_theorems arith_defs "definitions of the checked and saturating operations"
named_theorems text_defs "definitions of the string operations"

section \<open>Results\<close>

text \<open>
  An \<open>anyhow\<close> error is its chain of messages, outermost context first. Formatting it with
  \<open>{error:#}\<close> joins the chain with colons; formatting it with \<open>{error}\<close> shows its head.
\<close>

type_synonym anyhow = "string list"
type_synonym 'a result = "anyhow + 'a"

definition bail :: "string \<Rightarrow> 'a result" where
  "bail msg = Inl [msg]"

definition and_then :: "'e + 'a \<Rightarrow> ('a \<Rightarrow> 'e + 'b) \<Rightarrow> 'e + 'b" where
  "and_then r f = (case r of Inl e \<Rightarrow> Inl e | Inr x \<Rightarrow> f x)"

definition map_ok :: "('a \<Rightarrow> 'b) \<Rightarrow> 'e + 'a \<Rightarrow> 'e + 'b" where
  "map_ok f r = (case r of Inl e \<Rightarrow> Inl e | Inr x \<Rightarrow> Inr (f x))"

definition map_err :: "('e \<Rightarrow> 'f) \<Rightarrow> 'e + 'a \<Rightarrow> 'f + 'a" where
  "map_err f r = (case r of Inl e \<Rightarrow> Inl (f e) | Inr x \<Rightarrow> Inr x)"

definition with_context :: "string \<Rightarrow> 'a result \<Rightarrow> 'a result" where
  "with_context c = map_err (\<lambda>e. c # e)"

definition ok_or :: "'e \<Rightarrow> 'a option \<Rightarrow> 'e + 'a" where
  "ok_or e x = (case x of None \<Rightarrow> Inl e | Some y \<Rightarrow> Inr y)"

definition is_ok :: "'e + 'a \<Rightarrow> bool" where
  "is_ok r = (case r of Inl _ \<Rightarrow> False | Inr _ \<Rightarrow> True)"

definition ok_opt :: "'e + 'a \<Rightarrow> 'a option" where
  "ok_opt r = (case r of Inl _ \<Rightarrow> None | Inr x \<Rightarrow> Some x)"

text \<open>Mapping a fallible function over a list stops at the first error (\<open>collect\<close>).\<close>

fun collect_results :: "('a \<Rightarrow> 'e + 'b) \<Rightarrow> 'a list \<Rightarrow> 'e + 'b list" where
  "collect_results f [] = Inr []"
| "collect_results f (x # xs) =
     (case f x of
        Inl e \<Rightarrow> Inl e
      | Inr y \<Rightarrow> (case collect_results f xs of Inl e \<Rightarrow> Inl e | Inr ys \<Rightarrow> Inr (y # ys)))"

lemma and_then_simps [simp, result_simps]:
  "and_then (Inl e) f = Inl e" "and_then (Inr x) f = f x"
  by (simp_all add: and_then_def)

lemma map_ok_simps [simp, result_simps]:
  "map_ok g (Inl e) = Inl e" "map_ok g (Inr x) = Inr (g x)"
  by (simp_all add: map_ok_def)

lemma map_err_simps [simp, result_simps]:
  "map_err g (Inl e) = Inl (g e)" "map_err g (Inr x) = Inr x"
  by (simp_all add: map_err_def)

lemma with_context_simps [simp, result_simps]:
  "with_context c (Inl e) = Inl (c # e)" "with_context c (Inr x) = Inr x"
  by (simp_all add: with_context_def)

lemma ok_or_simps [simp, result_simps]:
  "ok_or e None = Inl e" "ok_or e (Some x) = Inr x"
  by (simp_all add: ok_or_def)

lemma is_ok_simps [simp, result_simps]:
  "is_ok (Inl e) = False" "is_ok (Inr x) = True"
  by (simp_all add: is_ok_def)

lemma ok_opt_simps [simp, result_simps]:
  "ok_opt (Inl e) = None" "ok_opt (Inr x) = Some x"
  by (simp_all add: ok_opt_def)

lemma bail_simps [simp, result_simps]:
  "\<not> is_ok (bail m)" "bail m \<noteq> Inr x" "and_then (bail m) f = bail m"
  "with_context c (bail m) = Inl [c, m]"
  by (simp_all add: bail_def)

lemma and_then_eq_Inr:
  "and_then r f = Inr y \<longleftrightarrow> (\<exists>x. r = Inr x \<and> f x = Inr y)"
  by (cases r) auto

lemma map_ok_eq_Inr: "map_ok f r = Inr y \<longleftrightarrow> (\<exists>x. r = Inr x \<and> y = f x)"
  by (cases r) auto

lemma map_err_eq_Inr: "map_err f r = Inr y \<longleftrightarrow> r = Inr y"
  by (cases r) auto

lemma with_context_eq_Inr: "with_context c r = Inr y \<longleftrightarrow> r = Inr y"
  by (simp add: with_context_def map_err_eq_Inr)

lemma ok_or_eq_Inr: "ok_or e x = Inr y \<longleftrightarrow> x = Some y"
  by (cases x) auto

lemmas result_eq_Inr =
  and_then_eq_Inr map_ok_eq_Inr map_err_eq_Inr with_context_eq_Inr ok_or_eq_Inr

lemma is_ok_iff: "is_ok r \<longleftrightarrow> (\<exists>x. r = Inr x)"
  by (cases r) simp_all

lemma is_ok_preserved [simp]:
  "is_ok (map_ok f r) = is_ok r" "is_ok (map_err g s) = is_ok s"
  "is_ok (with_context c t) = is_ok t"
  by (cases r, simp_all) (cases s, simp_all, cases t, simp_all)

lemma collect_results_eq_Inr:
  "collect_results f xs = Inr ys \<longleftrightarrow> list_all2 (\<lambda>x y. f x = Inr y) xs ys"
proof (induction xs arbitrary: ys)
  case Nil
  then show ?case by auto
next
  case (Cons x xs)
  show ?case
    by (auto simp: list_all2_Cons1 Cons.IH [symmetric] split: sum.splits)
qed

lemma collect_results_length: "collect_results f xs = Inr ys \<Longrightarrow> length ys = length xs"
  by (auto simp: collect_results_eq_Inr dest: list_all2_lengthD)

lemma collect_results_is_ok: "is_ok (collect_results f xs) \<longleftrightarrow> (\<forall>x\<in>set xs. is_ok (f x))"
  by (induction xs) (auto split: sum.splits simp: is_ok_def)

section \<open>Machine integers\<close>

type_synonym i64 = int
type_synonym u64 = nat
type_synonym u32 = nat
type_synonym u16 = nat

definition i64_min :: i64 where "i64_min = - (2 ^ 63)"
definition i64_max :: i64 where "i64_max = 2 ^ 63 - 1"
definition u64_max :: u64 where "u64_max = 2 ^ 64 - 1"
definition u32_max :: u32 where "u32_max = 2 ^ 32 - 1"
definition u16_max :: u16 where "u16_max = 65535"

definition in_i64 :: "int \<Rightarrow> bool" where
  "in_i64 n \<longleftrightarrow> i64_min \<le> n \<and> n \<le> i64_max"

definition checked_sub :: "i64 \<Rightarrow> i64 \<Rightarrow> i64 option" where
  "checked_sub a b = (if in_i64 (a - b) then Some (a - b) else None)"

definition checked_add :: "i64 \<Rightarrow> i64 \<Rightarrow> i64 option" where
  "checked_add a b = (if in_i64 (a + b) then Some (a + b) else None)"

definition checked_mul :: "i64 \<Rightarrow> i64 \<Rightarrow> i64 option" where
  "checked_mul a b = (if in_i64 (a * b) then Some (a * b) else None)"

definition saturating_mul :: "i64 \<Rightarrow> i64 \<Rightarrow> i64" where
  "saturating_mul a b = max i64_min (min i64_max (a * b))"

definition checked_mul_u64 :: "u64 \<Rightarrow> u64 \<Rightarrow> u64 option" where
  "checked_mul_u64 a b = (if a * b \<le> u64_max then Some (a * b) else None)"

definition checked_sub_u64 :: "u64 \<Rightarrow> u64 \<Rightarrow> u64 option" where
  "checked_sub_u64 a b = (if b \<le> a then Some (a - b) else None)"

definition saturating_add_u64 :: "u64 \<Rightarrow> u64 \<Rightarrow> u64" where
  "saturating_add_u64 a b = min u64_max (a + b)"

definition saturating_pow_u64 :: "u64 \<Rightarrow> nat \<Rightarrow> u64" where
  "saturating_pow_u64 a n = min u64_max (a ^ n)"

definition saturating_add_u16 :: "u16 \<Rightarrow> u16 \<Rightarrow> u16" where
  "saturating_add_u16 a b = min u16_max (a + b)"

definition u64_of_i64 :: "i64 \<Rightarrow> u64 option" where
  "u64_of_i64 n = (if 0 \<le> n then Some (nat n) else None)"

definition i64_of_u64 :: "u64 \<Rightarrow> i64 option" where
  "i64_of_u64 n = (if int n \<le> i64_max then Some (int n) else None)"

lemmas int_bounds = i64_min_def i64_max_def u64_max_def u32_max_def u16_max_def in_i64_def

lemma checked_sub_Some [simp]:
  "checked_sub a b = Some c \<longleftrightarrow> in_i64 (a - b) \<and> c = a - b"
  by (auto simp: checked_sub_def)

lemma checked_mul_Some [simp]:
  "checked_mul a b = Some c \<longleftrightarrow> in_i64 (a * b) \<and> c = a * b"
  by (auto simp: checked_mul_def)

lemma checked_add_Some [simp]:
  "checked_add a b = Some c \<longleftrightarrow> in_i64 (a + b) \<and> c = a + b"
  by (auto simp: checked_add_def)

section \<open>Text\<close>

definition is_whitespace :: "char \<Rightarrow> bool" where
  "is_whitespace c = (let n = (of_char c :: nat) in
     (9 \<le> n \<and> n \<le> 13) \<or> n = 32 \<or> n = 133 \<or> n = 160)"

definition is_control :: "char \<Rightarrow> bool" where
  "is_control c = (let n = (of_char c :: nat) in n < 32 \<or> (127 \<le> n \<and> n < 160))"

definition lower_char :: "char \<Rightarrow> char" where
  "lower_char c = (let n = (of_char c :: nat) in
     if (65 \<le> n \<and> n \<le> 90) \<or> (192 \<le> n \<and> n \<le> 222 \<and> n \<noteq> 215) then char_of (n + 32) else c)"

definition to_lowercase :: "string \<Rightarrow> string" where
  "to_lowercase s = map lower_char s"

definition trim :: "string \<Rightarrow> string" where
  "trim s = rev (dropWhile is_whitespace (rev (dropWhile is_whitespace s)))"

definition blank :: "string \<Rightarrow> bool" where
  "blank s \<longleftrightarrow> trim s = []"

fun split_on :: "char \<Rightarrow> string \<Rightarrow> string list" where
  "split_on c [] = [[]]"
| "split_on c (x # xs) =
     (if x = c then [] # split_on c xs
      else (case split_on c xs of [] \<Rightarrow> [[x]] | p # ps \<Rightarrow> (x # p) # ps))"

fun join :: "string \<Rightarrow> string list \<Rightarrow> string" where
  "join sep [] = []"
| "join sep [s] = s"
| "join sep (s # t # ts) = s @ sep @ join sep (t # ts)"

definition quoted :: "string \<Rightarrow> string" where
  "quoted s = CHR 0x27 # s @ [CHR 0x27]"

definition digit_char :: "nat \<Rightarrow> char" where
  "digit_char d = char_of (48 + d)"

fun show_nat :: "nat \<Rightarrow> string" where
  "show_nat n = (if n < 10 then [digit_char n] else show_nat (n div 10) @ [digit_char (n mod 10)])"

declare show_nat.simps [simp del]

definition show_int :: "int \<Rightarrow> string" where
  "show_int n = (if n < 0 then ''-'' @ show_nat (nat (- n)) else show_nat (nat n))"

definition digit_value :: "char \<Rightarrow> nat option" where
  "digit_value c = (let n = (of_char c :: nat) in
     if 48 \<le> n \<and> n \<le> 57 then Some (n - 48) else None)"

fun digits_value :: "nat \<Rightarrow> string \<Rightarrow> nat option" where
  "digits_value acc [] = Some acc"
| "digits_value acc (c # cs) =
     (case digit_value c of None \<Rightarrow> None | Some d \<Rightarrow> digits_value (10 * acc + d) cs)"

text \<open>\<open>str::parse::<u64>\<close>: an optional plus sign, at least one digit, no overflow.\<close>

definition parse_u64 :: "string \<Rightarrow> u64 option" where
  "parse_u64 s =
     (let ds = (case s of c # cs \<Rightarrow> if c = CHR ''+'' then cs else s | [] \<Rightarrow> s)
      in if ds = [] then None
         else (case digits_value 0 ds of
                 None \<Rightarrow> None
               | Some n \<Rightarrow> if n \<le> u64_max then Some n else None))"

text \<open>The chain of an error as \<open>{error:#}\<close> prints it.\<close>

definition show_chain :: "anyhow \<Rightarrow> string" where
  "show_chain e = join '': '' e"

lemma trim_Nil [simp]: "trim [] = []"
  by (simp add: trim_def)

lemma digit_value_digit_char [simp]: "d < 10 \<Longrightarrow> digit_value (digit_char d) = Some d"
  by (simp add: digit_value_def digit_char_def)

lemma digits_value_append:
  "digits_value acc (xs @ ys) =
     (case digits_value acc xs of None \<Rightarrow> None | Some n \<Rightarrow> digits_value n ys)"
  by (induction xs arbitrary: acc) (auto split: option.splits)

lemma show_nat_nonempty [simp]: "show_nat n \<noteq> []"
  by (subst show_nat.simps) simp

lemma digits_value_show_nat: "digits_value 0 (show_nat n) = Some n"
proof (induction n rule: show_nat.induct)
  case (1 n)
  show ?case
  proof (cases "n < 10")
    case True
    then show ?thesis by (simp add: show_nat.simps [of n])
  next
    case False
    with "1.IH" show ?thesis by (simp add: show_nat.simps [of n] digits_value_append)
  qed
qed

lemma digit_char_not_plus: "d < 10 \<Longrightarrow> digit_char d \<noteq> CHR ''+''"
proof
  assume "d < 10" and "digit_char d = CHR ''+''"
  then have "(of_char (digit_char d) :: nat) = of_char CHR ''+''" by simp
  with \<open>d < 10\<close> show False by (simp add: digit_char_def)
qed

lemma hd_show_nat: "\<exists>d rest. show_nat n = digit_char d # rest \<and> d < 10"
proof (induction n rule: show_nat.induct)
  case (1 n)
  then show ?case
    by (cases "n < 10") (auto simp: show_nat.simps [of n])
qed

lemma parse_u64_show_nat: "n \<le> u64_max \<Longrightarrow> parse_u64 (show_nat n) = Some n"
proof -
  assume n: "n \<le> u64_max"
  obtain d rest where "show_nat n = digit_char d # rest" "d < 10"
    using hd_show_nat by blast
  with n show ?thesis
    using digits_value_show_nat [of n] digit_char_not_plus [of d]
    by (simp add: parse_u64_def)
qed

section \<open>Lists\<close>

text \<open>\<open>Iterator::min_by_key\<close> keeps the first of several minimal elements.\<close>

fun min_by_key :: "('a \<Rightarrow> 'k::linorder) \<Rightarrow> 'a list \<Rightarrow> 'a option" where
  "min_by_key f [] = None"
| "min_by_key f (x # xs) =
     (case min_by_key f xs of
        None \<Rightarrow> Some x
      | Some y \<Rightarrow> if f x \<le> f y then Some x else Some y)"

lemma min_by_key_None [simp]: "min_by_key f xs = None \<longleftrightarrow> xs = []"
  by (cases xs) (auto split: option.splits if_splits)

lemma min_by_key_Some:
  "min_by_key f xs = Some m \<Longrightarrow> m \<in> set xs \<and> (\<forall>x\<in>set xs. f m \<le> f x)"
proof (induction xs arbitrary: m)
  case Nil
  then show ?case by simp
next
  case (Cons x xs)
  then show ?case
    by (cases "min_by_key f xs") (fastforce split: if_splits)+
qed

lemma min_by_key_first:
  "min_by_key f xs = Some m \<Longrightarrow>
     \<exists>ys zs. xs = ys @ m # zs \<and> (\<forall>y\<in>set ys. f m < f y)"
proof (induction xs arbitrary: m)
  case Nil
  then show ?case by simp
next
  case (Cons x xs)
  show ?case
  proof (cases "min_by_key f xs")
    case None
    with Cons.prems have "x # xs = [] @ m # xs" by simp
    then show ?thesis by fastforce
  next
    case (Some y)
    show ?thesis
    proof (cases "f x \<le> f y")
      case True
      with Some Cons.prems have "x # xs = [] @ m # xs" by simp
      then show ?thesis by fastforce
    next
      case False
      with Some Cons.prems have m: "m = y" by simp
      with Cons.IH Some obtain ys zs where "xs = ys @ m # zs" "\<forall>z\<in>set ys. f m < f z"
        by blast
      with False m show ?thesis by (intro exI [of _ "x # ys"] exI [of _ zs]) auto
    qed
  qed
qed

text \<open>\<open>sort_by\<close> is stable, as the library's \<open>sort_key\<close> is; both keep the elements.\<close>

definition the_or :: "'a \<Rightarrow> 'a option \<Rightarrow> 'a" where
  "the_or d x = (case x of None \<Rightarrow> d | Some y \<Rightarrow> y)"

definition or_else :: "'a option \<Rightarrow> 'a option \<Rightarrow> 'a option" where
  "or_else x y = (case x of None \<Rightarrow> y | Some z \<Rightarrow> Some z)"

definition filter_opt :: "('a \<Rightarrow> bool) \<Rightarrow> 'a option \<Rightarrow> 'a option" where
  "filter_opt p x = (case x of None \<Rightarrow> None | Some y \<Rightarrow> if p y then Some y else None)"

definition is_some_and :: "('a \<Rightarrow> bool) \<Rightarrow> 'a option \<Rightarrow> bool" where
  "is_some_and p x = (case x of None \<Rightarrow> False | Some y \<Rightarrow> p y)"

definition is_none_or :: "('a \<Rightarrow> bool) \<Rightarrow> 'a option \<Rightarrow> bool" where
  "is_none_or p x = (case x of None \<Rightarrow> True | Some y \<Rightarrow> p y)"

lemma the_or_simps [simp]: "the_or d None = d" "the_or d (Some x) = x"
  by (simp_all add: the_or_def)

lemma or_else_simps [simp]: "or_else None y = y" "or_else (Some z) y = Some z"
  by (simp_all add: or_else_def)

lemma filter_opt_simps [simp]:
  "filter_opt p None = None" "filter_opt p (Some y) = (if p y then Some y else None)"
  by (simp_all add: filter_opt_def)

lemma filter_opt_eq_Some [simp]: "filter_opt p x = Some y \<longleftrightarrow> x = Some y \<and> p y"
  by (cases x) auto

lemma is_some_and_simps [simp]: "is_some_and p None = False" "is_some_and p (Some y) = p y"
  by (simp_all add: is_some_and_def)

lemma is_none_or_simps [simp]: "is_none_or p None = True" "is_none_or p (Some y) = p y"
  by (simp_all add: is_none_or_def)

section \<open>Rankings\<close>

text \<open>
  The loop \<open>if best.is_none_or(|b| b < x) { best = Some(x) }\<close>: the first of the maximal elements.
\<close>

fun first_best_from :: "('k \<Rightarrow> 'k \<Rightarrow> bool) \<Rightarrow> ('a \<Rightarrow> 'k) \<Rightarrow> 'a option \<Rightarrow> 'a list \<Rightarrow> 'a option" where
  "first_best_from lt key best [] = best"
| "first_best_from lt key best (x # xs) =
     first_best_from lt key (if is_none_or (\<lambda>b. lt (key b) (key x)) best then Some x else best) xs"

definition first_best :: "('k \<Rightarrow> 'k \<Rightarrow> bool) \<Rightarrow> ('a \<Rightarrow> 'k) \<Rightarrow> 'a list \<Rightarrow> 'a option" where
  "first_best lt key xs = first_best_from lt key None xs"

lemma first_best_from_Some: "\<exists>m. first_best_from lt key (Some b) xs = Some m"
  by (induction xs arbitrary: b) auto

lemma first_best_None [simp]: "first_best lt key xs = None \<longleftrightarrow> xs = []"
  using first_best_from_Some [of lt key] by (cases xs) (auto simp: first_best_def)

lemma first_best_Nil [simp]: "first_best lt key [] = None"
  by simp

text \<open>What the loop needs of its comparison: a transitive relation, total or not.\<close>

locale ranking =
  fixes lt :: "'k \<Rightarrow> 'k \<Rightarrow> bool"
  assumes lt_irrefl: "\<not> lt k k"
    and lt_trans: "lt a b \<Longrightarrow> lt b c \<Longrightarrow> lt a c"
begin

lemma first_best_from_spec:
  "first_best_from lt key best xs = Some m \<Longrightarrow>
     (best = Some m \<or> m \<in> set xs) \<and> (\<forall>x\<in>set xs. \<not> lt (key m) (key x))
       \<and> (\<forall>b. best = Some b \<longrightarrow> b = m \<or> lt (key b) (key m))"
proof (induction xs arbitrary: best)
  case Nil
  then show ?case by simp
next
  case (Cons x xs)
  show ?case
    using Cons.IH Cons.prems
    by (auto simp: is_none_or_def split: option.splits if_splits dest: lt_trans)
      (metis lt_irrefl lt_trans)+
qed

lemma first_best_spec:
  "first_best lt key xs = Some m \<Longrightarrow> m \<in> set xs \<and> (\<forall>x\<in>set xs. \<not> lt (key m) (key x))"
  using first_best_from_spec [of key None xs m] by (simp add: first_best_def)

end

end
