(* ===== verification/Float64.thy ===== *)
theory Float64
  imports Prelude Complex_Main "HOL-Library.Log_Nat"
begin

text \<open>
  The type \<open>f64\<close> of the source: IEEE 754 binary64 with round to nearest, ties to even.
  A finite value is the rational it denotes; the two zeros are not distinguished (no
  operation the source performs on an \<open>f64\<close> can observe the sign of a zero: it never
  divides by a negative zero and never prints one). Every operation computes the exact
  rational result and rounds it once, with gradual underflow and overflow to infinity, so
  the definitions evaluate and the rounding errors of the source are part of the model.

  The lemmas reduce bounds on rounded results to bounds on exact ones: rounding is monotone
  and fixes every integer of magnitude at most \<open>2 ^ 53\<close>.
\<close>

section \<open>Rounding\<close>

definition pow2 :: "int \<Rightarrow> rat" where
  "pow2 k = (if 0 \<le> k then 2 ^ nat k else 1 / 2 ^ nat (- k))"

lemma pow2_pos [simp]: "0 < pow2 k"
  by (simp add: pow2_def)

lemma pow2_nonneg [simp]: "0 \<le> pow2 k"
  using pow2_pos [of k] by linarith

lemma pow2_nonzero [simp]: "pow2 k \<noteq> 0"
  using pow2_pos [of k] by linarith

lemma pow2_eq_powi: "pow2 k = 2 powi k"
  by (simp add: pow2_def power_int_def field_simps)

lemma pow2_add: "pow2 (a + b) = pow2 a * pow2 b"
  by (simp add: pow2_eq_powi power_int_add)

lemma pow2_diff: "pow2 (a - b) = pow2 a / pow2 b"
  by (simp add: pow2_eq_powi power_int_diff)

lemma pow2_mono: "a \<le> b \<Longrightarrow> pow2 a \<le> pow2 b"
  unfolding pow2_eq_powi by (rule power_int_increasing) auto

lemma pow2_less: "a < b \<Longrightarrow> pow2 a < pow2 b"
  unfolding pow2_eq_powi by (rule power_int_strict_increasing) auto

lemma pow2_less_iff [simp]: "pow2 a < pow2 b \<longleftrightarrow> a < b"
  using pow2_less [of a b] pow2_mono [of b a] by (cases "a < b") auto

lemma pow2_le_iff [simp]: "pow2 a \<le> pow2 b \<longleftrightarrow> a \<le> b"
  using pow2_less_iff [of b a] by linarith

lemma pow2_nat: "pow2 (int n) = 2 ^ n"
  by (simp add: pow2_def)

lemma pow2_Ints: "0 \<le> k \<Longrightarrow> \<exists>n::int. pow2 k = of_int n"
  by (rule exI [of _ "2 ^ nat k"]) (simp add: pow2_def)

text \<open>The exponent of the leading binary digit of a positive rational.\<close>

definition ilog2 :: "rat \<Rightarrow> int" where
  "ilog2 x = (let (p, q) = quotient_of x;
                  k = bitlen p - bitlen q
              in if pow2 k \<le> x then k else k - 1)"

definition round_half_even :: "rat \<Rightarrow> int" where
  "round_half_even x =
     (let f = \<lfloor>x\<rfloor>; d = x - of_int f in
      if d < 1 / 2 then f
      else if 1 / 2 < d then f + 1
      else if even f then f else f + 1)"

definition quantum :: "rat \<Rightarrow> int" where
  "quantum x = max (ilog2 x - 52) (- 1074)"

definition round_pos :: "rat \<Rightarrow> rat" where
  "round_pos x = (let e = quantum x in of_int (round_half_even (x / pow2 e)) * pow2 e)"

definition rnd :: "rat \<Rightarrow> rat" where
  "rnd x = (if x = 0 then 0 else if 0 < x then round_pos x else - round_pos (- x))"

lemma floorlog2_bounds: "0 < n \<Longrightarrow> 2 ^ (floorlog 2 n - 1) \<le> n \<and> n < 2 ^ floorlog 2 n"
  using floorlog_bounds [of n 2] by simp

lemma floorlog2_pos: "0 < n \<Longrightarrow> 0 < floorlog 2 n"
  by (simp add: floorlog_def)

lemma ilog2_bounds:
  assumes "0 < x"
  shows "pow2 (ilog2 x) \<le> x \<and> x < pow2 (ilog2 x + 1)"
proof -
  obtain p q where pq: "quotient_of x = (p, q)" by fastforce
  have x: "x = of_int p / of_int q" by (rule quotient_of_div [OF pq])
  have q: "0 < q" by (rule quotient_of_denom_pos [OF pq])
  have p: "0 < p" using assms x q by (simp add: zero_less_divide_iff)
  define a where "a = floorlog 2 (nat p)"
  define b where "b = floorlog 2 (nat q)"
  have ap: "0 < a" "0 < b" unfolding a_def b_def using p q by (simp_all add: floorlog2_pos)
  have bounds: "2 ^ (a - 1) \<le> nat p" "nat p < 2 ^ a" "2 ^ (b - 1) \<le> nat q" "nat q < 2 ^ b"
    unfolding a_def b_def using floorlog2_bounds [of "nat p"] floorlog2_bounds [of "nat q"] p q
    by auto
  have P: "of_int p = (of_nat (nat p) :: rat)" and Q: "of_int q = (of_nat (nat q) :: rat)"
    using p q by simp_all
  have b1: "pow2 (int a - 1) \<le> of_int p"
  proof -
    have "(of_nat (2 ^ (a - 1)) :: rat) \<le> of_nat (nat p)" using bounds(1) by (simp only: of_nat_le_iff)
    moreover have "pow2 (int a - 1) = of_nat (2 ^ (a - 1))"
      using ap pow2_nat [of "a - 1"] by (simp add: of_nat_diff)
    ultimately show ?thesis by (simp only: P)
  qed
  have b2: "of_int p < pow2 (int a)"
  proof -
    have "(of_nat (nat p) :: rat) < of_nat (2 ^ a)" using bounds(2) by (simp only: of_nat_less_iff)
    then show ?thesis by (simp add: P pow2_nat del: of_nat_nat)
  qed
  have b3: "pow2 (int b - 1) \<le> of_int q"
  proof -
    have "(of_nat (2 ^ (b - 1)) :: rat) \<le> of_nat (nat q)" using bounds(3) by (simp only: of_nat_le_iff)
    moreover have "pow2 (int b - 1) = of_nat (2 ^ (b - 1))"
      using ap pow2_nat [of "b - 1"] by (simp add: of_nat_diff)
    ultimately show ?thesis by (simp only: Q)
  qed
  have b4: "of_int q < pow2 (int b)"
  proof -
    have "(of_nat (nat q) :: rat) < of_nat (2 ^ b)" using bounds(4) by (simp only: of_nat_less_iff)
    then show ?thesis by (simp add: Q pow2_nat del: of_nat_nat)
  qed
  define k where "k = int a - int b"
  have qpos: "(0::rat) < of_int q" using q by simp
  have up: "x < pow2 (k + 1)"
  proof -
    have "pow2 (k + 1) * of_int q \<ge> pow2 (k + 1) * pow2 (int b - 1)"
      using b3 by (simp add: mult_left_mono)
    moreover have "pow2 (k + 1) * pow2 (int b - 1) = pow2 (int a)"
      unfolding k_def pow2_add [symmetric] by simp
    ultimately have "of_int p < pow2 (k + 1) * of_int q" using b2 by linarith
    then show ?thesis unfolding x using qpos by (simp add: divide_less_eq)
  qed
  have low: "pow2 (k - 1) \<le> x"
  proof -
    have "pow2 (k - 1) * of_int q \<le> pow2 (k - 1) * pow2 (int b)"
      using b4 by (simp add: mult_left_mono)
    moreover have "pow2 (k - 1) * pow2 (int b) = pow2 (int a - 1)"
      unfolding k_def pow2_add [symmetric] by simp
    ultimately have "pow2 (k - 1) * of_int q \<le> of_int p" using b1 by linarith
    then show ?thesis unfolding x using qpos by (simp add: le_divide_eq)
  qed
  have "ilog2 x = (if pow2 k \<le> x then k else k - 1)"
    unfolding ilog2_def pq k_def a_def b_def by (simp add: Let_def bitlen_def)
  with up low show ?thesis by auto
qed

lemma ilog2_mono:
  assumes "0 < x" "x \<le> y"
  shows "ilog2 x \<le> ilog2 y"
proof (rule ccontr)
  assume "\<not> ilog2 x \<le> ilog2 y"
  then have "pow2 (ilog2 y + 1) \<le> pow2 (ilog2 x)" by (intro pow2_mono) simp
  with ilog2_bounds [of x] ilog2_bounds [of y] assms show False by linarith
qed

lemma round_half_even_of_int [simp]: "round_half_even (of_int n) = n"
  by (simp add: round_half_even_def)

lemma round_half_even_near: "\<lfloor>x\<rfloor> \<le> round_half_even x \<and> round_half_even x \<le> \<lfloor>x\<rfloor> + 1"
  by (simp add: round_half_even_def Let_def)

lemma round_half_even_mono:
  assumes "x \<le> y"
  shows "round_half_even x \<le> round_half_even y"
proof (cases "\<lfloor>x\<rfloor> = \<lfloor>y\<rfloor>")
  case True
  then show ?thesis using assms by (auto simp: round_half_even_def Let_def)
next
  case False
  with floor_mono [OF assms] have "\<lfloor>x\<rfloor> + 1 \<le> \<lfloor>y\<rfloor>" by linarith
  with round_half_even_near [of x] round_half_even_near [of y] show ?thesis by linarith
qed

lemma round_half_even_error: "\<bar>of_int (round_half_even x) - x\<bar> \<le> 1 / 2"
  unfolding round_half_even_def Let_def using floor_correct [of x] by (auto split: if_splits)

text \<open>A multiple of the quantum of a number bounds the rounded number as it bounds the number.\<close>

lemma round_pos_le_multiple:
  assumes "x \<le> of_int n * pow2 (quantum x)"
  shows "round_pos x \<le> of_int n * pow2 (quantum x)"
proof -
  have "x / pow2 (quantum x) \<le> of_int n" using assms by (simp add: divide_le_eq)
  then have "round_half_even (x / pow2 (quantum x)) \<le> n"
    using round_half_even_mono by fastforce
  then show ?thesis unfolding round_pos_def Let_def by (simp add: mult_right_mono)
qed

lemma round_pos_ge_multiple:
  assumes "of_int n * pow2 (quantum x) \<le> x"
  shows "of_int n * pow2 (quantum x) \<le> round_pos x"
proof -
  have "of_int n \<le> x / pow2 (quantum x)" using assms by (simp add: le_divide_eq)
  then have "n \<le> round_half_even (x / pow2 (quantum x))"
    using round_half_even_mono by fastforce
  then show ?thesis unfolding round_pos_def Let_def by (simp add: mult_right_mono)
qed

lemma pow2_multiple:
  assumes "quantum x \<le> k"
  shows "\<exists>n::int. pow2 k = of_int n * pow2 (quantum x)"
proof -
  obtain n :: int where "pow2 (k - quantum x) = of_int n"
    using pow2_Ints [of "k - quantum x"] assms by auto
  then have "pow2 k = of_int n * pow2 (quantum x)"
    using pow2_add [of "k - quantum x" "quantum x"] by simp
  then show ?thesis by blast
qed

lemma round_pos_nonneg: "0 < x \<Longrightarrow> 0 \<le> round_pos x"
  using round_pos_ge_multiple [of 0 x] by simp

lemma round_pos_mono:
  assumes "0 < x" "x \<le> y"
  shows "round_pos x \<le> round_pos y"
proof (cases "quantum x = quantum y")
  case True
  have "round_half_even (x / pow2 (quantum x)) \<le> round_half_even (y / pow2 (quantum x))"
    using assms by (intro round_half_even_mono divide_right_mono) auto
  with True show ?thesis by (simp add: round_pos_def Let_def mult_right_mono)
next
  case False
  have mono: "ilog2 x \<le> ilog2 y" using assms by (rule ilog2_mono)
  with False have lt: "ilog2 x < ilog2 y" and qy: "quantum y = ilog2 y - 52"
    unfolding quantum_def by (auto simp: max_def split: if_splits)
  have qx: "quantum x \<le> ilog2 y" using lt qy mono unfolding quantum_def by auto
  have "x \<le> pow2 (ilog2 y)"
    using ilog2_bounds [OF assms(1)] pow2_mono [of "ilog2 x + 1" "ilog2 y"] lt by linarith
  moreover obtain n :: int where n: "pow2 (ilog2 y) = of_int n * pow2 (quantum x)"
    using pow2_multiple [OF qx] by blast
  ultimately have 1: "round_pos x \<le> pow2 (ilog2 y)"
    using round_pos_le_multiple [of x n] by simp
  obtain m :: int where m: "pow2 (ilog2 y) = of_int m * pow2 (quantum y)"
    using pow2_multiple [of y "ilog2 y"] qy by auto
  have "pow2 (ilog2 y) \<le> y" using ilog2_bounds [of y] assms by auto
  then have "pow2 (ilog2 y) \<le> round_pos y"
    using round_pos_ge_multiple [of m y] m by simp
  with 1 show ?thesis by linarith
qed

lemma rnd_0 [simp]: "rnd 0 = 0"
  by (simp add: rnd_def)

lemma rnd_minus: "rnd (- x) = - rnd x"
  by (simp add: rnd_def)

lemma rnd_nonneg: "0 \<le> x \<Longrightarrow> 0 \<le> rnd x"
  by (auto simp: rnd_def round_pos_nonneg)

lemma rnd_mono: "x \<le> y \<Longrightarrow> rnd x \<le> rnd y"
proof -
  assume xy: "x \<le> y"
  consider "0 < x" | "x \<le> 0" "0 \<le> y" | "y < 0" by linarith
  then show ?thesis
  proof cases
    case 1
    with xy show ?thesis by (simp add: rnd_def round_pos_mono)
  next
    case 2
    then have "0 \<le> rnd y" and "0 \<le> rnd (- x)" by (simp_all add: rnd_nonneg)
    then show ?thesis by (simp add: rnd_minus)
  next
    case 3
    with xy have "round_pos (- y) \<le> round_pos (- x)" by (intro round_pos_mono) auto
    with 3 xy show ?thesis by (simp add: rnd_def)
  qed
qed

text \<open>Values that rounding leaves unchanged.\<close>

definition representable :: "rat \<Rightarrow> bool" where
  "representable x \<longleftrightarrow> rnd x = x"

lemma representable_minus: "representable x \<Longrightarrow> representable (- x)"
  by (simp add: representable_def rnd_minus)

lemma round_pos_multiple:
  assumes "x = of_int n * pow2 (quantum x)"
  shows "round_pos x = x"
  using round_pos_le_multiple [of x n] round_pos_ge_multiple [of n x] assms by simp

lemma representable_nat:
  assumes "n \<le> 2 ^ 53"
  shows "representable (of_nat n)"
proof (cases "n = 0")
  case True
  then show ?thesis by (simp add: representable_def)
next
  case False
  let ?x = "of_nat n :: rat"
  have pos: "0 < ?x" using False by simp
  have "?x \<le> of_nat (2 ^ 53)" using assms by (simp only: of_nat_le_iff)
  then have le: "?x \<le> pow2 53" by (simp add: pow2_def)
  have lo: "pow2 (ilog2 ?x) \<le> ?x" using ilog2_bounds [OF pos] by simp
  have "round_pos ?x = ?x"
  proof (cases "quantum ?x \<le> 0")
    case True
    then obtain m :: int where "pow2 (0 - quantum ?x) = of_int m"
      using pow2_Ints [of "0 - quantum ?x"] by auto
    then have "1 = of_int m * pow2 (quantum ?x)"
      using pow2_add [of "0 - quantum ?x" "quantum ?x"] by (simp add: pow2_def)
    then have "?x * 1 = ?x * (of_int m * pow2 (quantum ?x))" by (rule arg_cong)
    then have "?x = of_int (int n * m) * pow2 (quantum ?x)" by (simp add: mult.assoc)
    then show ?thesis by (rule round_pos_multiple)
  next
    case False
    then have q: "quantum ?x = ilog2 ?x - 52" and ge: "53 \<le> ilog2 ?x"
      by (auto simp: quantum_def max_def split: if_splits)
    from ge have "pow2 53 \<le> pow2 (ilog2 ?x)" by (rule pow2_mono)
    with lo le have x: "?x = pow2 53" and "pow2 (ilog2 ?x) \<le> pow2 53" by linarith+
    then have i: "ilog2 ?x = 53"
      using ge pow2_mono [of 54 "ilog2 ?x"] by (cases "ilog2 ?x = 53") (auto simp: pow2_def)
    have "?x = of_int (2 ^ 52) * pow2 (quantum ?x)" using x q i by (simp add: pow2_def)
    then show ?thesis by (rule round_pos_multiple)
  qed
  with pos show ?thesis by (simp add: representable_def rnd_def)
qed

lemma representable_int:
  assumes "\<bar>n\<bar> \<le> 2 ^ 53"
  shows "representable (of_int n)"
proof (cases "0 \<le> n")
  case True
  with assms have "nat n \<le> 2 ^ 53" by (simp add: nat_le_iff)
  from representable_nat [OF this] True show ?thesis by simp
next
  case False
  with assms have "nat (- n) \<le> 2 ^ 53" by (simp add: nat_le_iff)
  from representable_minus [OF representable_nat [OF this]] False show ?thesis by simp
qed

lemma representable_simps [simp]:
  "representable 0" "representable 1" "representable (numeral k) \<longleftrightarrow> rnd (numeral k) = numeral k"
  using representable_nat [of 0] representable_nat [of 1] by (simp_all add: representable_def)

lemma rnd_le: "x \<le> b \<Longrightarrow> representable b \<Longrightarrow> rnd x \<le> b"
  using rnd_mono [of x b] by (simp add: representable_def)

lemma rnd_ge: "a \<le> x \<Longrightarrow> representable a \<Longrightarrow> a \<le> rnd x"
  using rnd_mono [of a x] by (simp add: representable_def)

section \<open>The type and its operations\<close>

datatype f64 = Fin rat | PosInf | NegInf | NaN

definition f64_limit :: rat where
  "f64_limit = 2 ^ 1024"

text \<open>Rounding an exact result: a rounded magnitude past the largest finite value overflows.\<close>

definition f64_of_rat :: "rat \<Rightarrow> f64" where
  "f64_of_rat q =
     (let r = rnd q in
      if f64_limit \<le> r then PosInf else if r \<le> - f64_limit then NegInf else Fin r)"

definition f64_of_int :: "int \<Rightarrow> f64" where
  "f64_of_int n = f64_of_rat (of_int n)"

definition is_finite :: "f64 \<Rightarrow> bool" where
  "is_finite x = (case x of Fin _ \<Rightarrow> True | _ \<Rightarrow> False)"

fun f64_neg :: "f64 \<Rightarrow> f64" where
  "f64_neg (Fin a) = Fin (- a)"
| "f64_neg PosInf = NegInf"
| "f64_neg NegInf = PosInf"
| "f64_neg NaN = NaN"

fun f64_add :: "f64 \<Rightarrow> f64 \<Rightarrow> f64" where
  "f64_add (Fin a) (Fin b) = f64_of_rat (a + b)"
| "f64_add NaN _ = NaN"
| "f64_add _ NaN = NaN"
| "f64_add PosInf NegInf = NaN"
| "f64_add NegInf PosInf = NaN"
| "f64_add PosInf _ = PosInf"
| "f64_add _ PosInf = PosInf"
| "f64_add NegInf _ = NegInf"
| "f64_add _ NegInf = NegInf"

definition f64_sub :: "f64 \<Rightarrow> f64 \<Rightarrow> f64" where
  "f64_sub x y = f64_add x (f64_neg y)"

definition f64_sgn :: "f64 \<Rightarrow> int" where
  "f64_sgn x = (case x of Fin a \<Rightarrow> if 0 < a then 1 else if a < 0 then - 1 else 0
                 | PosInf \<Rightarrow> 1 | NegInf \<Rightarrow> - 1 | NaN \<Rightarrow> 0)"

definition f64_inf :: "int \<Rightarrow> f64" where
  "f64_inf s = (if 0 < s then PosInf else if s < 0 then NegInf else NaN)"

definition f64_mul :: "f64 \<Rightarrow> f64 \<Rightarrow> f64" where
  "f64_mul x y =
     (case (x, y) of
        (Fin a, Fin b) \<Rightarrow> f64_of_rat (a * b)
      | (NaN, _) \<Rightarrow> NaN
      | (_, NaN) \<Rightarrow> NaN
      | _ \<Rightarrow> f64_inf (f64_sgn x * f64_sgn y))"

text \<open>Division by zero takes the divisor to be the positive zero.\<close>

definition f64_div :: "f64 \<Rightarrow> f64 \<Rightarrow> f64" where
  "f64_div x y =
     (case (x, y) of
        (NaN, _) \<Rightarrow> NaN
      | (_, NaN) \<Rightarrow> NaN
      | (Fin a, Fin b) \<Rightarrow> if b = 0 then f64_inf (f64_sgn x) else f64_of_rat (a / b)
      | (Fin a, _) \<Rightarrow> Fin 0
      | (_, Fin b) \<Rightarrow> f64_inf (f64_sgn x * (if b < 0 then - 1 else 1))
      | _ \<Rightarrow> NaN)"

text \<open>Comparisons with a NaN are false.\<close>

fun f64_lt :: "f64 \<Rightarrow> f64 \<Rightarrow> bool" where
  "f64_lt (Fin a) (Fin b) \<longleftrightarrow> a < b"
| "f64_lt NegInf (Fin _) \<longleftrightarrow> True"
| "f64_lt NegInf PosInf \<longleftrightarrow> True"
| "f64_lt (Fin _) PosInf \<longleftrightarrow> True"
| "f64_lt _ _ \<longleftrightarrow> False"

definition f64_le :: "f64 \<Rightarrow> f64 \<Rightarrow> bool" where
  "f64_le x y \<longleftrightarrow> f64_lt x y \<or> (x = y \<and> x \<noteq> NaN)"

definition f64_max :: "f64 \<Rightarrow> f64 \<Rightarrow> f64" where
  "f64_max x y = (if x = NaN then y else if y = NaN then x else if f64_lt x y then y else x)"

definition f64_min :: "f64 \<Rightarrow> f64 \<Rightarrow> f64" where
  "f64_min x y = (if x = NaN then y else if y = NaN then x else if f64_lt y x then y else x)"

text \<open>\<open>f64::clamp\<close> with bounds that are numbers in order, as everywhere in the source.\<close>

definition f64_clamp :: "f64 \<Rightarrow> f64 \<Rightarrow> f64 \<Rightarrow> f64" where
  "f64_clamp lo hi x = (if f64_lt x lo then lo else if f64_lt hi x then hi else x)"

text \<open>\<open>(lo..=hi).contains(&x)\<close>.\<close>

definition in_range :: "f64 \<Rightarrow> f64 \<Rightarrow> f64 \<Rightarrow> bool" where
  "in_range lo hi x \<longleftrightarrow> f64_le lo x \<and> f64_le x hi"

text \<open>\<open>f64::round\<close> (ties away from zero), \<open>f64::ceil\<close>, and the saturating cast to \<open>u16\<close>.\<close>

definition round_away :: "rat \<Rightarrow> int" where
  "round_away q = (if 0 \<le> q then \<lfloor>q + 1 / 2\<rfloor> else - \<lfloor>- q + 1 / 2\<rfloor>)"

definition f64_round :: "f64 \<Rightarrow> f64" where
  "f64_round x = (case x of Fin q \<Rightarrow> Fin (of_int (round_away q)) | _ \<Rightarrow> x)"

definition f64_ceil :: "f64 \<Rightarrow> f64" where
  "f64_ceil x = (case x of Fin q \<Rightarrow> Fin (of_int \<lceil>q\<rceil>) | _ \<Rightarrow> x)"

definition f64_to_u16 :: "f64 \<Rightarrow> u16" where
  "f64_to_u16 x = (case x of
       Fin q \<Rightarrow> if q \<le> 0 then 0 else min u16_max (nat \<lfloor>q\<rfloor>)
     | PosInf \<Rightarrow> u16_max | NegInf \<Rightarrow> 0 | NaN \<Rightarrow> 0)"

text \<open>\<open>Iterator::sum\<close> and \<open>fold\<close> over addition, from the left.\<close>

definition f64_sum :: "f64 list \<Rightarrow> f64" where
  "f64_sum xs = foldl f64_add (Fin 0) xs"

section \<open>Bounds\<close>

lemma f64_limit_pos [simp]: "0 < f64_limit"
  by (simp add: f64_limit_def)

lemma f64_limit_big: "2 ^ 53 < f64_limit"
  unfolding f64_limit_def by (rule power_strict_increasing) auto

lemma ilog2_ge_iff: "0 < x \<Longrightarrow> k \<le> ilog2 x \<longleftrightarrow> pow2 k \<le> x"
proof -
  assume "0 < x"
  then have b: "pow2 (ilog2 x) \<le> x" "x < pow2 (ilog2 x + 1)" using ilog2_bounds [of x] by auto
  show ?thesis
  proof
    assume "k \<le> ilog2 x"
    with b(1) show "pow2 k \<le> x" using pow2_mono order_trans by blast
  next
    assume "pow2 k \<le> x"
    with b(2) have "pow2 k < pow2 (ilog2 x + 1)" by (rule le_less_trans [rotated])
    then show "k \<le> ilog2 x" by simp
  qed
qed

lemma f64_limit_pow2: "f64_limit = pow2 1024"
  by (simp add: f64_limit_def pow2_def)

text \<open>The overflow test on the exponent: cheaper to evaluate than on the value.\<close>

lemma f64_of_rat_code [code]:
  "f64_of_rat q =
     (let r = rnd q in
      if r = 0 then Fin 0
      else if 1024 \<le> ilog2 \<bar>r\<bar> then (if 0 < r then PosInf else NegInf)
      else Fin r)"
proof -
  have "rnd q \<noteq> 0 \<Longrightarrow> 1024 \<le> ilog2 \<bar>rnd q\<bar> \<longleftrightarrow> f64_limit \<le> \<bar>rnd q\<bar>"
    using ilog2_ge_iff [of "\<bar>rnd q\<bar>" 1024] by (simp add: f64_limit_pow2)
  moreover have "f64_limit \<le> a \<Longrightarrow> 0 < a" and "a \<le> - f64_limit \<Longrightarrow> a < 0" for a
    using f64_limit_pos by linarith+
  ultimately show ?thesis
    by (fastforce simp: f64_of_rat_def Let_def abs_if split: if_splits)
qed

lemma is_finite_simps [simp]:
  "is_finite (Fin a)" "\<not> is_finite PosInf" "\<not> is_finite NegInf" "\<not> is_finite NaN"
  by (simp_all add: is_finite_def)

lemma is_finite_iff: "is_finite x \<longleftrightarrow> (\<exists>a. x = Fin a)"
  by (cases x) auto

lemma f64_le_simps [simp]:
  "f64_le (Fin a) (Fin b) \<longleftrightarrow> a \<le> b" "\<not> f64_le NaN y" "\<not> f64_le x NaN"
  "f64_le PosInf (Fin b) \<longleftrightarrow> False" "f64_le (Fin b) NegInf \<longleftrightarrow> False"
  "f64_le NegInf (Fin b)" "f64_le (Fin b) PosInf" "f64_le PosInf PosInf" "f64_le NegInf NegInf"
  "f64_le NegInf PosInf" "\<not> f64_le PosInf NegInf"
  by (cases x; cases y; auto simp: f64_le_def)+

text \<open>\<open>x\<close> is a finite number between two rationals.\<close>

definition between :: "rat \<Rightarrow> rat \<Rightarrow> f64 \<Rightarrow> bool" where
  "between lo hi x \<longleftrightarrow> (\<exists>q. x = Fin q \<and> lo \<le> q \<and> q \<le> hi)"

lemma between_Fin [simp]: "between lo hi (Fin q) \<longleftrightarrow> lo \<le> q \<and> q \<le> hi"
  by (simp add: between_def)

lemma between_nonfinite [simp]:
  "\<not> between lo hi PosInf" "\<not> between lo hi NegInf" "\<not> between lo hi NaN"
  by (simp_all add: between_def)

lemma between_code [code]:
  "between lo hi x = (case x of Fin q \<Rightarrow> lo \<le> q \<and> q \<le> hi | _ \<Rightarrow> False)"
  by (cases x) simp_all

lemma betweenE:
  assumes "between lo hi x"
  obtains q where "x = Fin q" "lo \<le> q" "q \<le> hi"
  using assms by (auto simp: between_def)

lemma between_weaken: "between lo hi x \<Longrightarrow> lo' \<le> lo \<Longrightarrow> hi \<le> hi' \<Longrightarrow> between lo' hi' x"
  by (auto simp: between_def)

lemma between_finite: "between lo hi x \<Longrightarrow> is_finite x"
  by (auto simp: between_def)

lemma in_range_Fin [simp]: "in_range (Fin lo) (Fin hi) x \<longleftrightarrow> between lo hi x"
  by (cases x) (auto simp: in_range_def)

text \<open>
  A bound survives rounding when it is itself a finite double: integers of magnitude at most
  \<open>2 ^ 53\<close> and the powers of two within the exponent range are.
\<close>

definition good :: "rat \<Rightarrow> bool" where
  "good b \<longleftrightarrow> representable b \<and> \<bar>b\<bar> < f64_limit"

lemma good_minus: "good b \<Longrightarrow> good (- b)"
  by (simp add: good_def representable_minus)

lemma good_of_int: "\<bar>n\<bar> \<le> 2 ^ 53 \<Longrightarrow> good (of_int n)"
proof -
  assume n: "\<bar>n\<bar> \<le> 2 ^ 53"
  then have "(of_int \<bar>n\<bar> :: rat) \<le> of_int (2 ^ 53)" by (simp only: of_int_le_iff)
  then have "\<bar>of_int n :: rat\<bar> < f64_limit" using f64_limit_big by simp
  with representable_int [OF n] show "good (of_int n)" by (simp add: good_def)
qed

lemma good_of_nat: "n \<le> 2 ^ 53 \<Longrightarrow> good (of_nat n)"
  using good_of_int [of "int n"] by simp

lemma good_consts [simp]:
  "good 0" "good 1"
  "(numeral k :: int) \<le> 2 ^ 53 \<Longrightarrow> good (numeral k)"
  "(numeral k :: int) \<le> 2 ^ 53 \<Longrightarrow> good (- numeral k)"
  using good_of_int [of 0] good_of_int [of 1] good_of_int [of "numeral k"]
    good_of_int [of "- numeral k"] by simp_all

lemma ilog2_pow2 [simp]: "ilog2 (pow2 k) = k"
  using ilog2_bounds [of "pow2 k"] by simp

lemma good_pow2:
  assumes "- 1074 \<le> k" "k < 1024"
  shows "good (pow2 k)"
proof -
  have "quantum (pow2 k) \<le> k" using assms by (simp add: quantum_def)
  then obtain n :: int where "pow2 k = of_int n * pow2 (quantum (pow2 k))"
    using pow2_multiple by blast
  then have "round_pos (pow2 k) = pow2 k" by (rule round_pos_multiple)
  moreover have "pow2 k < f64_limit"
    using assms by (simp add: f64_limit_pow2)
  ultimately show ?thesis by (simp add: good_def representable_def rnd_def)
qed

text \<open>The least double that bounds every \<open>i64\<close>.\<close>

definition i64_top :: rat where
  "i64_top = pow2 63"

lemma good_fractions [simp]:
  "good (1 / 64)" "good (1 / 1024)" "good (1 / 4096)" "good i64_top" "good (- i64_top)"
  "good (pow2 75)"
  using good_pow2 [of "- 6"] good_pow2 [of "- 12"] good_pow2 [of 75] good_pow2 [of "- 10"] good_pow2 [of 63] good_minus [of "pow2 63"]
  by (simp_all add: pow2_def i64_top_def)

lemma i64_top_ge [simp]: "1 \<le> i64_top" "0 \<le> i64_top" "0 < i64_top"
  by (simp_all add: i64_top_def pow2_def)

lemma between_of_rat:
  assumes "lo \<le> q" "q \<le> hi" "good lo" "good hi"
  shows "between lo hi (f64_of_rat q)"
proof -
  have "lo \<le> rnd q" "rnd q \<le> hi" using assms by (auto simp: good_def intro: rnd_le rnd_ge)
  with assms(3,4) show ?thesis by (auto simp: f64_of_rat_def Let_def good_def)
qed

lemma f64_of_rat_good: "good q \<Longrightarrow> f64_of_rat q = Fin q"
  using between_of_rat [of q q q] by (auto simp: between_def)

lemma f64_of_int_small [simp]: "\<bar>n\<bar> \<le> 2 ^ 53 \<Longrightarrow> f64_of_int n = Fin (of_int n)"
  by (simp add: f64_of_int_def f64_of_rat_good good_of_int)

lemma between_of_int:
  assumes "in_i64 n" "lo \<le> of_int n" "good lo"
  shows "between lo i64_top (f64_of_int n)"
proof -
  have "(of_int n :: rat) \<le> of_int (2 ^ 63)"
    using assms(1) by (simp only: of_int_le_iff) (simp add: int_bounds)
  then have "of_int n \<le> i64_top" by (simp add: i64_top_def pow2_def)
  then show ?thesis using assms by (simp add: f64_of_int_def between_of_rat)
qed

lemma between_add:
  assumes "between a b x" "between c d y" "lo \<le> a + c" "b + d \<le> hi" "good lo" "good hi"
  shows "between lo hi (f64_add x y)"
proof -
  from assms(1,2) obtain p q where "x = Fin p" "y = Fin q" "a \<le> p" "p \<le> b" "c \<le> q" "q \<le> d"
    by (auto elim!: betweenE)
  then show ?thesis using between_of_rat [of lo "p + q" hi] assms by simp
qed

lemma between_neg: "between a b x \<Longrightarrow> between (- b) (- a) (f64_neg x)"
  by (auto simp: between_def)

lemma between_sub:
  assumes "between a b x" "between c d y" "lo \<le> a - d" "b - c \<le> hi" "good lo" "good hi"
  shows "between lo hi (f64_sub x y)"
  unfolding f64_sub_def
  by (rule between_add [OF assms(1) between_neg [OF assms(2)]]) (use assms in simp_all)

lemma between_mul:
  assumes "between 0 b x" "between 0 d y" "b * d \<le> hi" "good hi"
  shows "between 0 hi (f64_mul x y)"
proof -
  from assms(1,2) obtain p q where pq: "x = Fin p" "y = Fin q" "0 \<le> p" "p \<le> b" "0 \<le> q" "q \<le> d"
    by (auto elim!: betweenE)
  then have "0 \<le> p * q" "p * q \<le> b * d" by (auto intro: mult_mono)
  then show ?thesis using between_of_rat [of 0 "p * q" hi] assms(3,4) pq
    by (simp add: f64_mul_def)
qed

lemma between_mul_neg:
  assumes "between (- b) 0 x" "between 0 d y" "- lo \<ge> b * d" "good lo"
  shows "between lo 0 (f64_mul x y)"
proof -
  from assms(1,2) obtain p q where pq: "x = Fin p" "y = Fin q" "- b \<le> p" "p \<le> 0" "0 \<le> q" "q \<le> d"
    by (auto elim!: betweenE)
  have "- p * q \<le> b * d" using pq by (intro mult_mono) auto
  moreover have "p * q \<le> 0" using pq by (simp add: mult_nonpos_nonneg)
  ultimately have "lo \<le> p * q" "p * q \<le> 0" using assms(3) by simp_all
  then show ?thesis using between_of_rat [of lo "p * q" 0] assms(4) pq
    by (simp add: f64_mul_def)
qed

lemma between_div:
  assumes "between a b x" "between c d y" "0 \<le> a" "0 < c" "b / c \<le> hi" "lo \<le> a / d"
    "good lo" "good hi"
  shows "between lo hi (f64_div x y)"
proof -
  from assms(1,2) obtain p q where pq: "x = Fin p" "y = Fin q" "a \<le> p" "p \<le> b" "c \<le> q" "q \<le> d"
    by (auto elim!: betweenE)
  have "p / q \<le> b / c" using pq assms(3,4) by (intro frac_le) auto
  moreover have "a / d \<le> p / q" using pq assms(3,4) by (intro frac_le) auto
  ultimately show ?thesis using between_of_rat [of lo "p / q" hi] assms pq
    by (simp add: f64_div_def)
qed

lemma between_max: "between a b x \<Longrightarrow> between c d y \<Longrightarrow> between (max a c) (max b d) (f64_max x y)"
  by (auto simp: between_def f64_max_def)

lemma between_min: "between a b x \<Longrightarrow> between c d y \<Longrightarrow> between (min a c) (min b d) (f64_min x y)"
  by (auto simp: between_def f64_min_def)

lemma between_clamp:
  assumes "x \<noteq> NaN" "lo \<le> hi"
  shows "between lo hi (f64_clamp (Fin lo) (Fin hi) x)"
  using assms by (cases x) (auto simp: f64_clamp_def)

lemma between_clamp_div:
  assumes "between a b x" "between c d y" "0 < c" "lo \<le> hi"
  shows "between lo hi (f64_clamp (Fin lo) (Fin hi) (f64_div x y))"
proof -
  from assms obtain p q where "x = Fin p" "y = Fin q" "0 < q" by (auto elim!: betweenE)
  then have "f64_div x y \<noteq> NaN" by (simp add: f64_div_def f64_of_rat_def Let_def)
  with assms(4) show ?thesis by (rule between_clamp [rotated])
qed

lemma clamp_NaN_iff: "f64_clamp (Fin lo) (Fin hi) x = NaN \<longleftrightarrow> x = NaN"
  by (cases x) (auto simp: f64_clamp_def)

text \<open>Rounded subtraction and addition keep the order of their arguments.\<close>

lemma f64_of_rat_mono: "p \<le> q \<Longrightarrow> f64_le (f64_of_rat p) (f64_of_rat q)"
  using rnd_mono [of p q] f64_limit_pos by (auto simp: f64_of_rat_def Let_def f64_le_def)

lemma f64_le_trans: "f64_le x y \<Longrightarrow> f64_le y z \<Longrightarrow> f64_le x z"
  by (cases x; cases y; cases z) (auto simp: f64_le_def)

lemma f64_le_lt_trans: "f64_le x y \<Longrightarrow> f64_lt y z \<Longrightarrow> f64_lt x z"
  by (cases x; cases y; cases z) (auto simp: f64_le_def)

lemma f64_lt_le_trans: "f64_lt x y \<Longrightarrow> f64_le y z \<Longrightarrow> f64_lt x z"
  by (cases x; cases y; cases z) (auto simp: f64_le_def)

lemma f64_lt_irrefl [simp]: "\<not> f64_lt x x"
  by (cases x) auto

lemma f64_not_le: "x \<noteq> NaN \<Longrightarrow> y \<noteq> NaN \<Longrightarrow> \<not> f64_le x y \<longleftrightarrow> f64_lt y x"
  by (cases x; cases y) (auto simp: f64_le_def)

lemma f64_lt_trans: "f64_lt x y \<Longrightarrow> f64_lt y z \<Longrightarrow> f64_lt x z"
  by (cases x; cases y; cases z) auto

text \<open>The comparison of doubles ranks: NaN is below and above nothing.\<close>

interpretation f64_rank: ranking f64_lt
  by unfold_locales (auto intro: f64_lt_trans)

lemma f64_sub_antimono: "f64_le x y \<Longrightarrow> between a b x \<Longrightarrow> between c d y
  \<Longrightarrow> f64_le (f64_sub (Fin t) y) (f64_sub (Fin t) x)"
  by (auto elim!: betweenE simp: f64_sub_def intro!: f64_of_rat_mono)

end
