(* ===== verification/Json_Value.thy ===== *)
theory Json_Value
  imports Float64
begin

text \<open>
  JSON values as the source matches on them (the constructors of \<open>serde_json::Value\<close>), and
  the projections it calls. A number is known to the source only through its three views
  (\<open>as_u64\<close>, \<open>as_i64\<close>, \<open>as_f64\<close>), so it is the record of those views and nothing is said of
  how the JSON library computes them. An object is its list of members, read by key.
\<close>

record number =
  n_u64 :: "u64 option"
  n_i64 :: "i64 option"
  n_f64 :: "f64 option"

datatype json =
    JNull
  | JBool bool
  | JNumber number
  | JString string
  | JArray "json list"
  | JObject "(string \<times> json) list"

type_synonym json_object = "(string \<times> json) list"

definition jget :: "json \<Rightarrow> string \<Rightarrow> json option" where
  "jget v k = (case v of JObject o' \<Rightarrow> map_of o' k | _ \<Rightarrow> None)"

fun pointer :: "json \<Rightarrow> string list \<Rightarrow> json option" where
  "pointer v [] = Some v"
| "pointer v (k # ks) = (case jget v k of None \<Rightarrow> None | Some w \<Rightarrow> pointer w ks)"

definition as_object :: "json \<Rightarrow> json_object option" where
  "as_object v = (case v of JObject o' \<Rightarrow> Some o' | _ \<Rightarrow> None)"

definition as_array :: "json \<Rightarrow> json list option" where
  "as_array v = (case v of JArray xs \<Rightarrow> Some xs | _ \<Rightarrow> None)"

definition as_str :: "json \<Rightarrow> string option" where
  "as_str v = (case v of JString s \<Rightarrow> Some s | _ \<Rightarrow> None)"

definition as_bool :: "json \<Rightarrow> bool option" where
  "as_bool v = (case v of JBool b \<Rightarrow> Some b | _ \<Rightarrow> None)"

definition as_i64 :: "json \<Rightarrow> i64 option" where
  "as_i64 v = (case v of JNumber n \<Rightarrow> n_i64 n | _ \<Rightarrow> None)"

definition as_u64 :: "json \<Rightarrow> u64 option" where
  "as_u64 v = (case v of JNumber n \<Rightarrow> n_u64 n | _ \<Rightarrow> None)"

definition as_f64 :: "json \<Rightarrow> f64 option" where
  "as_f64 v = (case v of JNumber n \<Rightarrow> n_f64 n | _ \<Rightarrow> None)"

definition non_null :: "json option \<Rightarrow> json option" where
  "non_null v = filter_opt (\<lambda>x. x \<noteq> JNull) v"

lemmas json_projections =
  as_object_def as_array_def as_str_def as_bool_def as_i64_def as_u64_def as_f64_def

lemma as_object_Some [simp]: "as_object v = Some m \<longleftrightarrow> v = JObject m"
  by (cases v) (auto simp: as_object_def)

lemma as_str_Some [simp]: "as_str v = Some s \<longleftrightarrow> v = JString s"
  by (cases v) (auto simp: as_str_def)

lemma as_bool_Some [simp]: "as_bool v = Some s \<longleftrightarrow> v = JBool s"
  by (cases v) (auto simp: as_bool_def)

lemma jget_JObject [simp]: "jget (JObject m) k = map_of m k"
  by (simp add: jget_def)

lemma jget_Some: "jget v k = Some w \<longleftrightarrow> (\<exists>m. v = JObject m \<and> map_of m k = Some w)"
  by (cases v) (auto simp: jget_def)

text \<open>The integer views of a number are in the range of their type.\<close>

definition number_ok :: "number \<Rightarrow> bool" where
  "number_ok n \<longleftrightarrow> is_none_or in_i64 (n_i64 n) \<and> is_none_or (\<lambda>u. u \<le> u64_max) (n_u64 n)"

fun json_ok :: "json \<Rightarrow> bool" where
  "json_ok (JNumber n) = number_ok n"
| "json_ok (JArray xs) = list_all json_ok xs"
| "json_ok (JObject kvs) = list_all (\<lambda>(_, v). json_ok v) kvs"
| "json_ok _ = True"

lemma json_ok_field: "json_ok (JObject m) \<Longrightarrow> map_of m k = Some v \<Longrightarrow> json_ok v"
  by (auto simp: list_all_iff dest!: map_of_SomeD)

lemma json_ok_jget: "json_ok v \<Longrightarrow> jget v k = Some w \<Longrightarrow> json_ok w"
  by (auto simp: jget_Some json_ok_field)

lemma json_ok_pointer: "json_ok v \<Longrightarrow> pointer v ks = Some w \<Longrightarrow> json_ok w"
  by (induction ks arbitrary: v) (auto split: option.splits dest: json_ok_jget)

lemma json_ok_i64: "json_ok v \<Longrightarrow> as_i64 v = Some n \<Longrightarrow> in_i64 n"
  by (cases v) (auto simp: as_i64_def number_ok_def)

section \<open>Numbers written as text\<close>

text \<open>
  \<open>str::parse::<f64>\<close>: an optional sign, then \<open>inf\<close>, \<open>infinity\<close> or \<open>nan\<close> in any case, or
  digits with at most one point and an optional exponent. The decimal value is rounded once.
\<close>

definition is_digit :: "char \<Rightarrow> bool" where
  "is_digit c \<longleftrightarrow> digit_value c \<noteq> None"

definition digits_nat :: "string \<Rightarrow> nat" where
  "digits_nat ds = the_or 0 (digits_value 0 ds)"

definition split_sign :: "string \<Rightarrow> bool \<times> string" where
  "split_sign s = (case s of
       [] \<Rightarrow> (False, [])
     | c # cs \<Rightarrow> if c = CHR ''-'' then (True, cs) else if c = CHR ''+'' then (False, cs)
                else (False, s))"

definition parse_exponent :: "string \<Rightarrow> int option" where
  "parse_exponent s = (case s of
       [] \<Rightarrow> Some 0
     | c # cs \<Rightarrow>
         if c = CHR ''e'' \<or> c = CHR ''E'' then
           (let (neg, ds) = split_sign cs in
            if ds \<noteq> [] \<and> list_all is_digit ds
            then Some (if neg then - int (digits_nat ds) else int (digits_nat ds))
            else None)
         else None)"

definition pow10 :: "int \<Rightarrow> rat" where
  "pow10 k = (if 0 \<le> k then 10 ^ nat k else 1 / 10 ^ nat (- k))"

definition parse_f64 :: "string \<Rightarrow> f64 option" where
  "parse_f64 s =
     (let (neg, body) = split_sign s; word = to_lowercase body;
          signed = (\<lambda>x. if neg then f64_neg x else x)
      in if word = ''inf'' \<or> word = ''infinity'' then Some (signed PosInf)
         else if word = ''nan'' then Some NaN
         else
           let ip = takeWhile is_digit body; r = dropWhile is_digit body;
               (fp, r') = (case r of
                   c # cs \<Rightarrow> if c = CHR ''.''
                             then (takeWhile is_digit cs, dropWhile is_digit cs) else ([], r)
                 | [] \<Rightarrow> ([], r))
           in if ip = [] \<and> fp = [] then None
              else (case parse_exponent r' of
                      None \<Rightarrow> None
                    | Some e \<Rightarrow>
                        Some (signed (f64_of_rat
                          (of_nat (digits_nat (ip @ fp)) * pow10 (e - int (length fp)))))))"

end
