(* ===== verification/Account_Info.thy ===== *)
theory Account_Info
  imports Json_Value
begin

text \<open>
  The account identity and plan read from a credential file (\<open>src/src/jwt.rs\<close>). Decoding a
  token needs base64 and a JSON parser, which are not part of the repository: they are the
  parameters \<open>b64\<close> (token segment to bytes) and \<open>from_json\<close> (bytes to a JSON value).
\<close>

section \<open>Plans\<close>

datatype plan_kind =
    PlanFree | PlanGo | PlanPlus | PlanProLite | PlanPro | PlanTeam | PlanBusiness
  | PlanEnterprise | PlanEdu | PlanUnknown

definition plan_from_wire :: "string option \<Rightarrow> plan_kind" where
  "plan_from_wire plan_type = (case plan_type of
       None \<Rightarrow> PlanUnknown
     | Some s \<Rightarrow>
         if s = ''free'' then PlanFree
         else if s = ''go'' then PlanGo
         else if s = ''plus'' then PlanPlus
         else if s = ''prolite'' then PlanProLite
         else if s = ''pro'' then PlanPro
         else if s = ''team'' then PlanTeam
         else if s \<in> {''self_serve_business_prolite'', ''self_serve_business_usage_based'',
                      ''business''} then PlanBusiness
         else if s \<in> {''ent26'', ''enterprise_cbp_automation'', ''enterprise_cbp_usage_based'',
                      ''enterprise''} then PlanEnterprise
         else if s \<in> {''education'', ''edu'', ''edu_plus'', ''edu_pro''} then PlanEdu
         else PlanUnknown)"

definition plan_display_name :: "plan_kind \<Rightarrow> string option \<Rightarrow> string" where
  "plan_display_name k raw = (case k of
       PlanFree \<Rightarrow> ''Free''
     | PlanGo \<Rightarrow> ''Go''
     | PlanPlus \<Rightarrow> ''Plus''
     | PlanProLite \<Rightarrow> ''Pro 5'' @ [CHR 0xD7]
     | PlanPro \<Rightarrow> ''Pro 20'' @ [CHR 0xD7]
     | PlanTeam \<Rightarrow> ''Team''
     | PlanBusiness \<Rightarrow> ''Business''
     | PlanEnterprise \<Rightarrow> ''Enterprise''
     | PlanEdu \<Rightarrow> ''Edu''
     | PlanUnknown \<Rightarrow> the_or ''?'' raw)"

section \<open>Accounts\<close>

record org_info =
  org_id :: string
  org_title :: string
  org_role :: string
  org_is_default :: bool

record account_info =
  ai_email :: "string option"
  ai_plan_type :: "string option"
  ai_account_id :: "string option"
  ai_is_fedramp :: bool
  ai_user_id :: "string option"
  ai_workspace_name :: "string option"
  ai_organizations :: "org_info list"

record strict_account_binding =
  sb_account_id :: string
  sb_email :: string

definition strict_binding :: "account_info \<Rightarrow> strict_account_binding option" where
  "strict_binding info =
     (case ai_account_id info of
        None \<Rightarrow> None
      | Some raw_id \<Rightarrow>
          (case ai_email info of
             None \<Rightarrow> None
           | Some raw_email \<Rightarrow>
               let account_id = trim raw_id; email = trim raw_email in
               if account_id = [] \<or> email = [] then None
               else Some \<lparr>sb_account_id = account_id, sb_email = to_lowercase email\<rparr>))"

definition plan_label_with :: "account_info \<Rightarrow> string option \<Rightarrow> string" where
  "plan_label_with info plan_type =
     (let base = plan_display_name (plan_from_wire plan_type) plan_type in
      case ai_workspace_name info of
        Some name \<Rightarrow> if name \<noteq> [] then base @ '' - '' @ name else base
      | None \<Rightarrow> base)"

definition plan_label :: "account_info \<Rightarrow> string" where
  "plan_label info = plan_label_with info (ai_plan_type info)"

definition info_is_free :: "account_info \<Rightarrow> bool" where
  "info_is_free info \<longleftrightarrow> ai_plan_type info = Some ''free'' \<or> ai_plan_type info = None"

definition info_is_team :: "account_info \<Rightarrow> bool" where
  "info_is_team info \<longleftrightarrow>
     ai_plan_type info = Some ''team'' \<or> ai_organizations info \<noteq> []
       \<or> ai_workspace_name info \<noteq> None"

section \<open>Claims\<close>

definition auth_claim_key :: string where
  "auth_claim_key = ''https://api.openai.com/auth''"

definition profile_claim_key :: string where
  "profile_claim_key = ''https://api.openai.com/profile''"

definition opt_get :: "json option \<Rightarrow> string \<Rightarrow> json option" where
  "opt_get v k = Option.bind v (\<lambda>x. jget x k)"

definition decode_jwt_payload ::
  "(string \<Rightarrow> string option) \<Rightarrow> (string \<Rightarrow> json option) \<Rightarrow> string \<Rightarrow> json option" where
  "decode_jwt_payload b64 from_json token =
     (case split_on CHR ''.'' token of
        _ # payload # _ \<Rightarrow> Option.bind (b64 payload) from_json
      | _ \<Rightarrow> None)"

definition organization_of :: "json \<Rightarrow> org_info option" where
  "organization_of o' =
     Option.bind (jget o' ''id'') (\<lambda>v. Option.bind (as_str v) (\<lambda>s.
       let i = trim s in
       if i = [] then None
       else Some \<lparr>
         org_id = i,
         org_title = trim (the_or [] (Option.bind (jget o' ''title'') as_str)),
         org_role = trim (the_or [] (Option.bind (jget o' ''role'') as_str)),
         org_is_default = the_or False (Option.bind (jget o' ''is_default'') as_bool)\<rparr>))"

definition extract_organizations :: "json \<Rightarrow> org_info list" where
  "extract_organizations claims =
     (case jget claims auth_claim_key of
        None \<Rightarrow> []
      | Some a \<Rightarrow>
          (case Option.bind (jget a ''organizations'') as_array of
             None \<Rightarrow> []
           | Some orgs \<Rightarrow> List.map_filter organization_of orgs))"

definition parse_account_info ::
  "(string \<Rightarrow> string option) \<Rightarrow> (string \<Rightarrow> json option) \<Rightarrow> json \<Rightarrow> account_info" where
  "parse_account_info b64 from_json auth =
     (let id_token = the_or [] (Option.bind (pointer auth [''tokens'', ''id_token'']) as_str);
          account_id_from_tokens =
            filter_opt (\<lambda>s. \<not> blank s)
              (Option.bind (pointer auth [''tokens'', ''account_id'']) as_str);
          claims = the_or JNull (decode_jwt_payload b64 from_json id_token);
          email =
            or_else (Option.bind (jget claims ''email'') as_str)
              (Option.bind (opt_get (jget claims profile_claim_key) ''email'') as_str);
          auth_claims = jget claims auth_claim_key;
          plan_type = Option.bind (opt_get auth_claims ''chatgpt_plan_type'') as_str;
          user_id =
            Option.bind
              (Option.bind auth_claims
                 (\<lambda>a. or_else (jget a ''chatgpt_user_id'') (jget a ''user_id''))) as_str;
          account_id =
            or_else
              (filter_opt (\<lambda>s. \<not> blank s)
                 (Option.bind (opt_get auth_claims ''chatgpt_account_id'') as_str))
              account_id_from_tokens;
          is_fedramp =
            the_or False
              (Option.bind (opt_get auth_claims ''chatgpt_account_is_fedramp'') as_bool);
          organizations = extract_organizations claims;
          workspace_name =
            Option.bind account_id (\<lambda>a.
              map_option org_title
                (List.find (\<lambda>g. org_id g = a \<and> org_title g \<noteq> []) organizations))
      in \<lparr>ai_email = email, ai_plan_type = plan_type, ai_account_id = account_id,
          ai_is_fedramp = is_fedramp, ai_user_id = user_id,
          ai_workspace_name = workspace_name, ai_organizations = organizations\<rparr>)"

definition token_expires_at ::
  "(string \<Rightarrow> string option) \<Rightarrow> (string \<Rightarrow> json option) \<Rightarrow> string \<Rightarrow> i64 option" where
  "token_expires_at b64 from_json token =
     Option.bind (decode_jwt_payload b64 from_json token) (\<lambda>payload.
       Option.bind (jget payload ''exp'') as_i64)"

definition is_token_expiring ::
  "(string \<Rightarrow> string option) \<Rightarrow> (string \<Rightarrow> json option) \<Rightarrow> i64 result \<Rightarrow> string \<Rightarrow> i64
     \<Rightarrow> bool option result" where
  "is_token_expiring b64 from_json clock token margin_secs =
     (case decode_jwt_payload b64 from_json token of
        None \<Rightarrow> Inr None
      | Some payload \<Rightarrow>
          (case Option.bind (jget payload ''exp'') as_i64 of
             None \<Rightarrow> Inr None
           | Some expiry \<Rightarrow>
               and_then clock (\<lambda>now.
                 and_then
                   (ok_or [''token-expiry margin overflows the supported timestamp range'']
                      (checked_add now margin_secs))
                   (\<lambda>refresh_at. Inr (Some (expiry \<le> refresh_at))))))"

section \<open>Properties\<close>

lemma trim_ends:
  assumes "trim s \<noteq> []"
  shows "\<not> is_whitespace (hd (trim s)) \<and> \<not> is_whitespace (last (trim s))"
proof -
  let ?d = "dropWhile is_whitespace s"
  let ?e = "dropWhile is_whitespace (rev ?d)"
  have t: "trim s = rev ?e" by (simp add: trim_def)
  with assms have ne: "?e \<noteq> []" by simp
  then have l: "\<not> is_whitespace (hd ?e)" by (rule hd_dropWhile)
  have "rev ?d = takeWhile is_whitespace (rev ?d) @ ?e" by simp
  then have d: "?d = trim s @ rev (takeWhile is_whitespace (rev ?d))"
    unfolding t by (metis rev_append rev_rev_ident)
  with assms have "?d \<noteq> []" and "hd ?d = hd (trim s)" by (metis append_is_Nil_conv, metis hd_append)
  moreover from this(1) have "\<not> is_whitespace (hd ?d)" by (rule hd_dropWhile)
  ultimately show ?thesis using l ne t by (simp add: last_rev)
qed

lemma strict_binding_Some:
  "strict_binding info = Some b \<longleftrightarrow>
     (\<exists>i e. ai_account_id info = Some i \<and> ai_email info = Some e \<and> \<not> blank i \<and> \<not> blank e
        \<and> b = \<lparr>sb_account_id = trim i, sb_email = to_lowercase (trim e)\<rparr>)"
  by (auto simp: strict_binding_def blank_def Let_def split: option.splits)

lemma parse_account_info_account_id:
  "ai_account_id (parse_account_info b64 from_json auth) = Some i \<Longrightarrow> \<not> blank i"
  by (auto simp: parse_account_info_def Let_def or_else_def split: option.splits)

lemma find_organization:
  "List.find (\<lambda>g. org_id g = a \<and> org_title g \<noteq> []) orgs = Some g \<Longrightarrow>
     g \<in> set orgs \<and> org_id g = a \<and> org_title g \<noteq> []"
  by (induction orgs) (auto split: if_splits)

lemma parse_account_info_workspace:
  "ai_workspace_name (parse_account_info b64 from_json auth) = Some n \<Longrightarrow>
     \<exists>g \<in> set (ai_organizations (parse_account_info b64 from_json auth)).
        ai_account_id (parse_account_info b64 from_json auth) = Some (org_id g)
          \<and> org_title g = n \<and> n \<noteq> []"
  by (auto simp: parse_account_info_def Let_def bind_eq_Some_conv dest!: find_organization)

lemma organization_of_id: "organization_of v = Some g \<Longrightarrow> org_id g \<noteq> []"
  by (auto simp: organization_of_def bind_eq_Some_conv Let_def split: if_splits)

lemma extract_organizations_ids: "g \<in> set (extract_organizations claims) \<Longrightarrow> org_id g \<noteq> []"
  by (auto simp: extract_organizations_def List.map_filter_def organization_of_id
      split: option.splits)

lemma is_token_expiring_Ok:
  "is_token_expiring b64 from_json (Inr now) token margin = Inr (Some e) \<longleftrightarrow>
     (\<exists>expiry. token_expires_at b64 from_json token = Some expiry
        \<and> in_i64 (now + margin) \<and> e = (expiry \<le> now + margin))"
  by (auto simp: is_token_expiring_def token_expires_at_def bind_eq_Some_conv checked_add_def
      split: option.splits)

lemma is_token_expiring_undecidable:
  "is_token_expiring b64 from_json clock token margin = Inr None \<longleftrightarrow>
     token_expires_at b64 from_json token = None"
  by (cases clock)
    (auto simp: is_token_expiring_def token_expires_at_def bind_eq_Some_conv checked_add_def
      split: option.splits)

end
