(* ===== verification/Usage_Types.thy ===== *)
theory Usage_Types
  imports Account_Info
begin

text \<open>
  The shared usage domain (\<open>src/src/usage/mod.rs\<close>): quota windows and their validation, the
  account blockers and ordinary limits derived from a usage sample, and the candidates that
  automatic selection scores.
\<close>

section \<open>Quota windows\<close>

record window_usage =
  used_percent :: "f64 option"
  resets_at :: "i64 option"
  window_minutes :: "i64 option"

definition window_5h_secs :: i64 where "window_5h_secs = 5 * 3600"
definition window_7d_secs :: i64 where "window_7d_secs = 7 * 86400"
definition free_floor_pct :: f64 where "free_floor_pct = Fin 35"
definition min_warmup_elapsed_secs :: i64 where "min_warmup_elapsed_secs = 5 * 60"
definition max_retries :: nat where "max_retries = 3"
definition access_token_refresh_margin_secs :: i64 where
  "access_token_refresh_margin_secs = 60"

lemmas window_consts =
  window_5h_secs_def window_7d_secs_def min_warmup_elapsed_secs_def

definition quota_window_duration_secs :: "window_usage \<Rightarrow> i64 \<Rightarrow> i64 option" where
  "quota_window_duration_secs w default_secs =
     (case window_minutes w of
        Some minutes \<Rightarrow> filter_opt (\<lambda>seconds. 0 < seconds) (checked_mul minutes 60)
      | None \<Rightarrow> if 0 < default_secs then Some default_secs else None)"

definition percent_in_range :: "f64 \<Rightarrow> bool" where
  "percent_in_range used \<longleftrightarrow> is_finite used \<and> in_range (Fin 0) (Fin 100) used"

definition validated_quota_window :: "window_usage \<Rightarrow> i64 \<Rightarrow> (f64 \<times> i64) option" where
  "validated_quota_window w default_secs =
     Option.bind (filter_opt percent_in_range (used_percent w)) (\<lambda>used.
       Option.bind (quota_window_duration_secs w default_secs) (\<lambda>duration.
         Some (used, duration)))"

definition quota_window_spec :: "window_usage \<Rightarrow> string \<Rightarrow> i64 \<Rightarrow> string \<times> i64 option" where
  "quota_window_spec w default_label default_secs =
     (let duration_secs = quota_window_duration_secs w default_secs in
      case window_minutes w of
        Some minutes \<Rightarrow>
          if 0 < minutes \<and> minutes mod 1440 = 0
          then (show_int (minutes div 1440) @ ''d'', duration_secs)
          else if 0 < minutes \<and> minutes mod 60 = 0
          then (show_int (minutes div 60) @ ''h'', duration_secs)
          else (show_int minutes @ ''m'', duration_secs)
      | None \<Rightarrow> (default_label, duration_secs))"

section \<open>Usage samples\<close>

record spend_control_limit =
  sc_source :: "string option"
  sc_limit :: "string option"
  sc_used :: "string option"
  sc_remaining :: "string option"
  sc_remaining_percent :: "f64 option"
  sc_resets_at :: "i64 option"

record additional_rate_limit =
  al_limit_name :: "string option"
  al_metered_feature :: "string option"
  al_allowed :: "bool option"
  al_limit_reached :: "bool option"
  al_primary :: "window_usage option"
  al_secondary :: "window_usage option"

record reset_credit =
  rc_id :: string
  rc_granted_at :: "string option"
  rc_expires_at :: "string option"

datatype usage_parse_issue =
    InvalidPrimaryWindow string
  | InvalidSecondaryWindow string
  | InvalidRateLimitReachedType string string
  | InvalidAdditionalRateLimits string
  | InvalidCodeReviewRateLimit string
  | InvalidPlanType string
  | InvalidRateLimit string
  | InvalidCredits string
  | InvalidSpendControl string

fun show_parse_issue :: "usage_parse_issue \<Rightarrow> string" where
  "show_parse_issue (InvalidPrimaryWindow detail) = ''primary_window: '' @ detail"
| "show_parse_issue (InvalidSecondaryWindow detail) = ''secondary_window: '' @ detail"
| "show_parse_issue (InvalidRateLimitReachedType _ detail) = ''rate_limit_reached_type: '' @ detail"
| "show_parse_issue (InvalidAdditionalRateLimits detail) = ''additional_rate_limits: '' @ detail"
| "show_parse_issue (InvalidCodeReviewRateLimit detail) = ''code_review_rate_limit: '' @ detail"
| "show_parse_issue (InvalidPlanType detail) = ''plan_type: '' @ detail"
| "show_parse_issue (InvalidRateLimit detail) = ''rate_limit: '' @ detail"
| "show_parse_issue (InvalidCredits detail) = ''credits: '' @ detail"
| "show_parse_issue (InvalidSpendControl detail) = ''spend_control: '' @ detail"

record usage_info =
  u_cache_revision :: "string option"
  u_fetched_at :: "i64 option"
  u_primary :: "window_usage option"
  u_secondary :: "window_usage option"
  u_credits_balance :: "f64 option"
  u_unlimited_credits :: "bool option"
  u_plan_type :: "string option"
  u_reset_credits_available_count :: "u64 option"
  u_reset_credits :: "reset_credit list"
  u_reset_credits_error :: "string option"
  u_account_limited :: bool
  u_spend_control_reached :: bool
  u_rate_limit_reached_type :: "string option"
  u_individual_limit :: "spend_control_limit option"
  u_additional_limits :: "additional_rate_limit list"
  u_parse_issues :: "usage_parse_issue list"

text \<open>The value \<open>UsageInfo::default()\<close>.\<close>

definition default_usage :: usage_info where
  "default_usage = \<lparr>u_cache_revision = None, u_fetched_at = None, u_primary = None,
     u_secondary = None, u_credits_balance = None, u_unlimited_credits = None,
     u_plan_type = None, u_reset_credits_available_count = None, u_reset_credits = [],
     u_reset_credits_error = None, u_account_limited = False, u_spend_control_reached = False,
     u_rate_limit_reached_type = None, u_individual_limit = None, u_additional_limits = [],
     u_parse_issues = []\<rparr>"

record pool_row =
  pr_limit_name :: string
  pr_unavailable :: bool
  pr_primary :: "window_usage option"
  pr_secondary :: "window_usage option"

definition additional_pool_rows :: "additional_rate_limit list \<Rightarrow> pool_row list" where
  "additional_pool_rows limits =
     map (\<lambda>l. \<lparr>pr_limit_name = the_or ''pool'' (al_limit_name l),
               pr_unavailable = (al_limit_reached l = Some True \<or> al_allowed l = Some False),
               pr_primary = al_primary l, pr_secondary = al_secondary l\<rparr>) limits"

section \<open>Account restrictions\<close>

datatype account_blocker =
    SpendControlReached
  | WorkspaceOwnerCreditsDepleted
  | WorkspaceMemberCreditsDepleted
  | WorkspaceOwnerUsageLimitReached
  | WorkspaceMemberUsageLimitReached
  | UnrecognizedRateLimitReason string
  | MalformedUsageResponse string

fun wire_reason :: "account_blocker \<Rightarrow> string" where
  "wire_reason SpendControlReached = ''spend_control_reached''"
| "wire_reason WorkspaceOwnerCreditsDepleted = ''workspace_owner_credits_depleted''"
| "wire_reason WorkspaceMemberCreditsDepleted = ''workspace_member_credits_depleted''"
| "wire_reason WorkspaceOwnerUsageLimitReached = ''workspace_owner_usage_limit_reached''"
| "wire_reason WorkspaceMemberUsageLimitReached = ''workspace_member_usage_limit_reached''"
| "wire_reason (UnrecognizedRateLimitReason reason) = reason"
| "wire_reason (MalformedUsageResponse issue) = issue"

definition blocker_of_reason :: "string option \<Rightarrow> account_blocker option" where
  "blocker_of_reason r = (case r of
       None \<Rightarrow> None
     | Some s \<Rightarrow>
         if s = ''workspace_owner_credits_depleted'' then Some WorkspaceOwnerCreditsDepleted
         else if s = ''workspace_member_credits_depleted'' then Some WorkspaceMemberCreditsDepleted
         else if s = ''workspace_owner_usage_limit_reached'' then Some WorkspaceOwnerUsageLimitReached
         else if s = ''workspace_member_usage_limit_reached''
           then Some WorkspaceMemberUsageLimitReached
         else if s = ''rate_limit_reached'' then None
         else Some (UnrecognizedRateLimitReason s))"

definition explicit_account_blocker :: "usage_info \<Rightarrow> account_blocker option" where
  "explicit_account_blocker u =
     (if u_spend_control_reached u then Some SpendControlReached
      else
        let reason_blocker = blocker_of_reason (u_rate_limit_reached_type u) in
        if reason_blocker \<noteq> None then reason_blocker
        else (case u_parse_issues u of
                [] \<Rightarrow> None
              | issue # _ \<Rightarrow> Some (MalformedUsageResponse (show_parse_issue issue))))"

datatype account_limit = UntilReset i64 | ResetUnknown

fun limit_is_active :: "account_limit \<Rightarrow> i64 \<Rightarrow> bool" where
  "limit_is_active (UntilReset t) now \<longleftrightarrow> now < t"
| "limit_is_active ResetUnknown now \<longleftrightarrow> True"

definition opt_list :: "'a option \<Rightarrow> 'a list" where
  "opt_list x = (case x of None \<Rightarrow> [] | Some y \<Rightarrow> [y])"

definition list_max :: "i64 list \<Rightarrow> i64 option" where
  "list_max ts = (case ts of [] \<Rightarrow> None | t # ts' \<Rightarrow> Some (foldl max t ts'))"

definition window_exhausted :: "window_usage \<Rightarrow> bool" where
  "window_exhausted w \<longleftrightarrow> is_some_and (\<lambda>used. f64_le (Fin 100) used) (used_percent w)"

definition ordinary_account_limit :: "usage_info \<Rightarrow> account_limit option" where
  "ordinary_account_limit u =
     (if \<not> u_account_limited u \<or> explicit_account_blocker u \<noteq> None then None
      else
        let present = opt_list (u_primary u) @ opt_list (u_secondary u) in
        if present = [] then Some ResetUnknown
        else
          let exhausted = filter window_exhausted present;
              relevant = (if exhausted = [] then present else exhausted)
          in if list_ex (\<lambda>w. resets_at w = None) relevant then Some ResetUnknown
             else (case list_max (List.map_filter resets_at relevant) of
                     None \<Rightarrow> Some ResetUnknown
                   | Some t \<Rightarrow> Some (UntilReset t)))"

section \<open>Candidates\<close>

record candidate_window =
  cw_used_percent :: f64
  cw_resets_at :: "i64 option"
  cw_duration_secs :: i64

definition candidate_window_from_usage ::
  "window_usage \<Rightarrow> i64 \<Rightarrow> i64 \<Rightarrow> candidate_window option" where
  "candidate_window_from_usage w default_secs now =
     (case validated_quota_window w default_secs of
        None \<Rightarrow> None
      | Some (used, duration) \<Rightarrow>
          let cw = \<lparr>cw_used_percent = used, cw_resets_at = resets_at w,
                    cw_duration_secs = duration\<rparr> in
          (case resets_at w of
             Some t \<Rightarrow>
               if now < t
               then (case checked_sub t now of
                       None \<Rightarrow> None
                     | Some left \<Rightarrow> if duration < left then None else Some cw)
               else Some cw
           | None \<Rightarrow> Some cw))"

definition effective_used :: "candidate_window \<Rightarrow> i64 \<Rightarrow> f64" where
  "effective_used w now =
     (if is_some_and (\<lambda>t. t \<le> now) (cw_resets_at w) then Fin 0 else cw_used_percent w)"

record candidate =
  c_alias :: string
  c_primary :: "candidate_window option"
  c_weekly :: "candidate_window option"
  c_explicit_account_blocker :: "account_blocker option"
  c_ordinary_account_limit :: "account_limit option"
  c_plan_kind :: plan_kind
  c_last_used :: i64
  c_now :: i64
  c_pool_size :: nat
  c_pool_exhausted :: nat
  c_team_priority :: bool

definition candidate_from_usage ::
  "string \<Rightarrow> usage_info \<Rightarrow> plan_kind \<Rightarrow> i64 \<Rightarrow> i64 \<Rightarrow> candidate" where
  "candidate_from_usage alias u plan last_used now =
     \<lparr>c_alias = alias,
      c_primary = Option.bind (u_primary u)
        (\<lambda>w. candidate_window_from_usage w window_5h_secs now),
      c_weekly = Option.bind (u_secondary u)
        (\<lambda>w. candidate_window_from_usage w window_7d_secs now),
      c_explicit_account_blocker = explicit_account_blocker u,
      c_ordinary_account_limit = ordinary_account_limit u,
      c_plan_kind = plan,
      c_last_used = last_used,
      c_now = now,
      c_pool_size = 1,
      c_pool_exhausted = 0,
      c_team_priority = False\<rparr>"

definition main_weekly_quota_available :: "'a option \<Rightarrow> bool" where
  "main_weekly_quota_available weekly \<longleftrightarrow> weekly \<noteq> None"

definition has_required_quota_data :: "candidate \<Rightarrow> bool" where
  "has_required_quota_data c \<longleftrightarrow> main_weekly_quota_available (c_weekly c)"

definition candidate_is_team :: "candidate \<Rightarrow> bool" where
  "candidate_is_team c \<longleftrightarrow> c_plan_kind c = PlanTeam"

definition candidate_is_free :: "candidate \<Rightarrow> bool" where
  "candidate_is_free c \<longleftrightarrow> c_plan_kind c = PlanFree"

definition effective_used_5h :: "candidate \<Rightarrow> f64 option" where
  "effective_used_5h c = map_option (\<lambda>w. effective_used w (c_now c)) (c_primary c)"

definition effective_used_7d :: "candidate \<Rightarrow> f64 option" where
  "effective_used_7d c = map_option (\<lambda>w. effective_used w (c_now c)) (c_weekly c)"

definition account_limit_active :: "candidate \<Rightarrow> bool" where
  "account_limit_active c \<longleftrightarrow>
     c_explicit_account_blocker c \<noteq> None
       \<or> is_some_and (\<lambda>l. limit_is_active l (c_now c)) (c_ordinary_account_limit c)"

section \<open>Refresh modes and errors\<close>

datatype refresh = Cached | Unattended | Forced

definition skips_usage_cache :: "refresh \<Rightarrow> bool" where
  "skips_usage_cache r \<longleftrightarrow> r \<noteq> Cached"

definition may_re_present_a_rejected_credential :: "refresh \<Rightarrow> bool" where
  "may_re_present_a_rejected_credential r \<longleftrightarrow> r = Forced"

record usage_error =
  ue_summary :: string
  ue_detail :: string

section \<open>Properties\<close>

lemma percent_in_range_iff: "percent_in_range x \<longleftrightarrow> between 0 100 x"
  by (auto simp: percent_in_range_def dest: between_finite)

lemma quota_window_duration_pos:
  "quota_window_duration_secs w d = Some s \<Longrightarrow> 0 < s"
  by (auto simp: quota_window_duration_secs_def split: option.splits if_splits)

lemma quota_window_duration_i64:
  "quota_window_duration_secs w d = Some s \<Longrightarrow> in_i64 d \<Longrightarrow> in_i64 s"
  by (auto simp: quota_window_duration_secs_def split: option.splits if_splits)

lemma validated_quota_window_Some:
  "validated_quota_window w d = Some (used, s) \<longleftrightarrow>
     used_percent w = Some used \<and> between 0 100 used \<and> quota_window_duration_secs w d = Some s"
  by (auto simp: validated_quota_window_def bind_eq_Some_conv percent_in_range_iff)

text \<open>What construction guarantees of a candidate's windows.\<close>

definition candidate_window_ok :: "i64 \<Rightarrow> candidate_window \<Rightarrow> bool" where
  "candidate_window_ok now w \<longleftrightarrow>
     between 0 100 (cw_used_percent w) \<and> 0 < cw_duration_secs w \<and> in_i64 (cw_duration_secs w)
       \<and> is_none_or (\<lambda>t. t \<le> now \<or> t - now \<le> cw_duration_secs w) (cw_resets_at w)"

definition candidate_ok :: "candidate \<Rightarrow> bool" where
  "candidate_ok c \<longleftrightarrow>
     is_none_or (candidate_window_ok (c_now c)) (c_primary c)
       \<and> is_none_or (candidate_window_ok (c_now c)) (c_weekly c)"

lemma candidate_window_from_usage_ok:
  "candidate_window_from_usage w d now = Some cw \<Longrightarrow> in_i64 d \<Longrightarrow> candidate_window_ok now cw"
  by (auto simp: candidate_window_from_usage_def candidate_window_ok_def Let_def
      validated_quota_window_Some quota_window_duration_pos quota_window_duration_i64 checked_sub_def
      split: option.splits prod.splits if_splits)

lemma window_consts_i64 [simp]: "in_i64 window_5h_secs" "in_i64 window_7d_secs"
  by (simp_all add: window_consts int_bounds)

lemma candidate_from_usage_ok: "candidate_ok (candidate_from_usage alias u plan last_used now)"
  by (auto simp: candidate_ok_def candidate_from_usage_def is_none_or_def
      split: option.splits bind_splits dest: candidate_window_from_usage_ok)

lemma effective_used_between:
  "candidate_window_ok now w \<Longrightarrow> between 0 100 (effective_used w t)"
  by (auto simp: effective_used_def candidate_window_ok_def)

lemma candidate_used_5h:
  "candidate_ok c \<Longrightarrow> effective_used_5h c = Some u \<Longrightarrow> between 0 100 u"
  by (auto simp: candidate_ok_def effective_used_5h_def effective_used_between is_none_or_def
      split: option.splits)

lemma candidate_used_7d:
  "candidate_ok c \<Longrightarrow> effective_used_7d c = Some u \<Longrightarrow> between 0 100 u"
  by (auto simp: candidate_ok_def effective_used_7d_def effective_used_between is_none_or_def
      split: option.splits)

lemma foldl_max:
  "t \<le> foldl max (t::int) ts \<and> (\<forall>t'\<in>set ts. t' \<le> foldl max t ts)
     \<and> foldl max t ts \<in> insert t (set ts)"
proof (induction ts arbitrary: t)
  case Nil
  then show ?case by simp
next
  case (Cons a ts)
  show ?case using Cons.IH [of "max t a"] by (auto simp: max_def split: if_splits)
qed

lemma list_max_upper: "list_max ts = Some m \<Longrightarrow> t \<in> set ts \<Longrightarrow> t \<le> m"
  by (cases ts) (auto simp: list_max_def foldl_max)

lemma list_max_in: "list_max ts = Some m \<Longrightarrow> m \<in> set ts"
proof (cases ts)
  case Nil
  then show "list_max ts = Some m \<Longrightarrow> m \<in> set ts" by (simp add: list_max_def)
next
  case (Cons a as)
  then show "list_max ts = Some m \<Longrightarrow> m \<in> set ts"
    using foldl_max [of a as] by (auto simp: list_max_def)
qed

lemma list_max_None [simp]: "list_max ts = None \<longleftrightarrow> ts = []"
  by (cases ts) (auto simp: list_max_def)

lemma explicit_account_blocker_None:
  "explicit_account_blocker u = None \<longleftrightarrow>
     \<not> u_spend_control_reached u \<and> u_parse_issues u = []
       \<and> (u_rate_limit_reached_type u = None \<or> u_rate_limit_reached_type u = Some ''rate_limit_reached'')"
  by (auto simp: explicit_account_blocker_def blocker_of_reason_def Let_def
      split: option.splits list.splits if_splits)

end
