(* ===== verification/Scoring.thy ===== *)
theory Scoring
  imports Usage_Types
begin

text \<open>
  Eligibility, pace and the adaptive score of automatic selection
  (\<open>src/src/usage/scoring.rs\<close>). The score is one function in the source; here each of its
  five components is a definition of its own, and \<open>score_unified\<close> adds them in the source's
  order. Its arithmetic is the binary64 arithmetic of \<open>Float64\<close>.
\<close>

section \<open>Pace and warmup\<close>

definition seconds_until :: "i64 \<Rightarrow> i64 \<Rightarrow> i64 option" where
  "seconds_until timestamp now = (if timestamp \<le> now then Some 0 else checked_sub timestamp now)"

definition warmup_window_active :: "window_usage \<Rightarrow> i64 \<Rightarrow> i64 \<Rightarrow> bool" where
  "warmup_window_active w window_secs now =
     (case filter_opt (\<lambda>t. now < t) (resets_at w) of
        None \<Rightarrow> False
      | Some t \<Rightarrow>
          if \<not> is_some_and (\<lambda>used. is_finite used \<and> f64_lt (Fin 0) used \<and> f64_le used (Fin 100))
                 (used_percent w)
          then False
          else (case checked_sub t now of
                  None \<Rightarrow> False
                | Some remaining \<Rightarrow>
                    if window_secs \<le> 0 \<or> window_secs < remaining then False
                    else min_warmup_elapsed_secs \<le> window_secs - remaining))"

definition slot_warmup_active :: "window_usage option \<Rightarrow> window_usage option \<Rightarrow> i64 \<Rightarrow> bool" where
  "slot_warmup_active primary secondary now =
     (case primary of
        Some w \<Rightarrow>
          is_some_and (\<lambda>duration. warmup_window_active w duration now)
            (quota_window_duration_secs w window_5h_secs)
      | None \<Rightarrow>
          (case secondary of
             None \<Rightarrow> False
           | Some w \<Rightarrow>
               is_some_and (\<lambda>duration. warmup_window_active w duration now)
                 (quota_window_duration_secs w window_7d_secs)))"

definition usage_has_active_warmup_window :: "usage_info \<Rightarrow> i64 \<Rightarrow> bool" where
  "usage_has_active_warmup_window u now =
     (let main_active = slot_warmup_active (u_primary u) (u_secondary u) now;
          additional_active =
            list_all
              (\<lambda>limit.
                 if al_allowed limit = Some False \<or> al_limit_reached limit = Some True then True
                 else slot_warmup_active (al_primary limit) (al_secondary limit) now)
              (filter (\<lambda>limit. is_some_and (\<lambda>feature. prefix ''codex_'' feature)
                                 (al_metered_feature limit))
                 (u_additional_limits u))
      in main_active \<and> additional_active)"

definition pace_percent_at :: "window_usage \<Rightarrow> i64 \<Rightarrow> i64 \<Rightarrow> f64 option" where
  "pace_percent_at w window_secs now =
     (if window_secs \<le> 0 then None
      else (case resets_at w of
              None \<Rightarrow> None
            | Some t \<Rightarrow>
                (case checked_sub t now of
                   None \<Rightarrow> None
                 | Some remaining_secs \<Rightarrow>
                     if remaining_secs \<le> 0 \<or> window_secs < remaining_secs then None
                     else
                       let elapsed_secs = window_secs - remaining_secs in
                       Some (f64_mul (f64_div (f64_of_int elapsed_secs) (f64_of_int window_secs))
                               (Fin 100)))))"

datatype pace_state = UsageAhead | PaceAheadOrEqual | PaceUnavailable

definition normalized_quota_usage :: "f64 option \<Rightarrow> f64 option" where
  "normalized_quota_usage used =
     map_option (\<lambda>u. f64_min u (Fin 100))
       (filter_opt (\<lambda>u. is_finite u \<and> f64_le (Fin 0) u) used)"

definition quota_pace_state :: "f64 option \<Rightarrow> f64 option \<Rightarrow> pace_state" where
  "quota_pace_state used pace =
     (case normalized_quota_usage used of
        None \<Rightarrow> PaceUnavailable
      | Some u \<Rightarrow>
          (case filter_opt percent_in_range pace of
             None \<Rightarrow> PaceUnavailable
           | Some p \<Rightarrow> if f64_lt p u then UsageAhead else PaceAheadOrEqual))"

definition visible_pace_marker :: "f64 option \<Rightarrow> f64 option \<Rightarrow> f64 option" where
  "visible_pace_marker used pace =
     (case normalized_quota_usage used of
        None \<Rightarrow> None
      | Some _ \<Rightarrow> filter_opt percent_in_range pace)"

definition visible_pace_percent_at :: "window_usage \<Rightarrow> i64 \<Rightarrow> i64 \<Rightarrow> f64 option" where
  "visible_pace_percent_at w window_secs now =
     visible_pace_marker (used_percent w) (pace_percent_at w window_secs now)"

datatype availability = Available | Limited | Unavailable

definition usage_availability :: "usage_info \<Rightarrow> availability" where
  "usage_availability u =
     (if u_parse_issues u \<noteq> [] then Unavailable
      else if explicit_account_blocker u \<noteq> None then Limited
      else
        let primary = map_option fst (Option.bind (u_primary u)
                        (\<lambda>w. validated_quota_window w window_5h_secs));
            weekly = map_option fst (Option.bind (u_secondary u)
                        (\<lambda>w. validated_quota_window w window_7d_secs))
        in if \<not> main_weekly_quota_available weekly then Unavailable
           else if u_account_limited u then Limited
           else if list_ex (\<lambda>used. f64_le (Fin 100) used) (opt_list primary @ opt_list weekly)
           then Limited
           else Available)"

definition is_available :: "usage_info \<Rightarrow> bool" where
  "is_available u \<longleftrightarrow> usage_availability u = Available"

section \<open>Eligibility\<close>

definition is_candidate_eligible :: "candidate \<Rightarrow> f64 \<Rightarrow> bool" where
  "is_candidate_eligible c safety_margin_7d =
     (if account_limit_active c \<or> \<not> has_required_quota_data c then False
      else
        let used_5h = effective_used_5h c in
        case effective_used_7d c of
          None \<Rightarrow> False
        | Some used_7d \<Rightarrow>
            if is_some_and (\<lambda>used. f64_le (Fin 100) used) used_5h then False
            else if f64_le (Fin 100) used_7d then False
            else if (case c_weekly c of
                       None \<Rightarrow> False
                     | Some weekly \<Rightarrow>
                         let remaining_7d = f64_sub (Fin 100) used_7d;
                             critical_pct =
                               f64_max (f64_mul safety_margin_7d (Fin (1 / 4))) (Fin 1)
                         in f64_lt remaining_7d critical_pct
                              \<and> (case cw_resets_at weekly of
                                   Some timestamp \<Rightarrow>
                                     is_none_or
                                       (\<lambda>seconds. f64_lt (Fin 48)
                                          (f64_div (f64_of_int seconds) (Fin 3600)))
                                       (seconds_until timestamp (c_now c))
                                 | None \<Rightarrow> True)) then False
            else if candidate_is_free c
                      \<and> is_some_and
                          (\<lambda>used. f64_lt (f64_sub (Fin 100) used) free_floor_pct) used_5h
            then False
            else True)"

section \<open>The score\<close>

definition tier_bonus :: "candidate \<Rightarrow> f64" where
  "tier_bonus c = (if candidate_is_team c \<and> c_team_priority c then Fin 500 else Fin 0)"

definition active_headroom :: "candidate_window \<Rightarrow> f64 \<Rightarrow> i64 \<Rightarrow> f64" where
  "active_headroom primary used now =
     (let remaining_pct = f64_sub (Fin 100) used in
      case cw_resets_at primary of
        Some reset_ts \<Rightarrow>
          (case seconds_until reset_ts now of
             None \<Rightarrow> Fin 0
           | Some remaining \<Rightarrow>
               let remaining_secs = f64_of_int remaining;
                   duration_secs = f64_of_int (cw_duration_secs primary);
                   elapsed_secs = f64_max (f64_sub duration_secs remaining_secs) (Fin 1);
                   burn_rate = f64_div used elapsed_secs
               in if f64_lt (f64_of_rat (1 / 1000)) burn_rate then
                    let projected_min = f64_div (f64_div remaining_pct burn_rate) (Fin 60);
                        duration_min = f64_div duration_secs (Fin 60)
                    in f64_add (Fin 1000)
                         (f64_mul (f64_div (f64_min projected_min duration_min) duration_min)
                            (Fin 100))
                  else f64_add (Fin 1000) remaining_pct)
      | None \<Rightarrow> f64_add (Fin 1000) remaining_pct)"

definition exhausted_headroom :: "candidate_window \<Rightarrow> i64 \<Rightarrow> f64" where
  "exhausted_headroom primary now =
     (case cw_resets_at primary of
        None \<Rightarrow> Fin 0
      | Some reset_ts \<Rightarrow>
          (case seconds_until reset_ts now of
             None \<Rightarrow> Fin 0
           | Some remaining \<Rightarrow>
               f64_max (f64_sub (Fin 500) (f64_div (f64_of_int remaining) (Fin 60))) (Fin 0)))"

definition headroom :: "candidate \<Rightarrow> f64" where
  "headroom c =
     (case (c_primary c, effective_used_5h c) of
        (Some primary, Some used) \<Rightarrow>
          if f64_le (Fin 100) used then exhausted_headroom primary (c_now c)
          else active_headroom primary used (c_now c)
      | _ \<Rightarrow> Fin 50)"

definition exhausted_sustain :: "candidate_window \<Rightarrow> i64 \<Rightarrow> f64" where
  "exhausted_sustain weekly now =
     (case cw_resets_at weekly of
        None \<Rightarrow> Fin (- 800)
      | Some reset_ts \<Rightarrow>
          (case seconds_until reset_ts now of
             None \<Rightarrow> Fin (- 800)
           | Some remaining_secs \<Rightarrow>
               let remaining_fraction =
                     f64_div (f64_of_int remaining_secs) (f64_of_int (cw_duration_secs weekly));
                   relief = f64_clamp (Fin 0) (Fin 1) (f64_sub (Fin 1) remaining_fraction)
               in f64_mul (Fin (- 800)) (f64_sub (Fin 1) relief)))"

definition budget_penalty ::
  "candidate_window \<Rightarrow> candidate_window option \<Rightarrow> f64 \<Rightarrow> f64 \<Rightarrow> i64 \<Rightarrow> f64" where
  "budget_penalty weekly primary_opt remaining_7d safety now =
     (case (cw_resets_at weekly, primary_opt) of
        (Some reset_ts_7d, Some primary) \<Rightarrow>
          let hours_to_7d_reset =
                map_option (\<lambda>seconds. f64_div (f64_of_int seconds) (Fin 3600))
                  (seconds_until reset_ts_7d now);
              primary_hours = f64_div (f64_of_int (cw_duration_secs primary)) (Fin 3600)
          in (case hours_to_7d_reset of
                Some hours \<Rightarrow>
                  let remaining_windows = f64_max (f64_div hours primary_hours) (Fin 1);
                      budget_per_window = f64_div remaining_7d remaining_windows
                  in if f64_le safety budget_per_window then Fin 0
                     else f64_clamp (Fin 0) (Fin 1)
                            (f64_div (f64_sub safety budget_per_window) safety)
              | None \<Rightarrow> Fin 1)
      | _ \<Rightarrow>
          if f64_lt (Fin 0) safety
          then f64_clamp (Fin 0) (Fin 1) (f64_div (f64_sub safety remaining_7d) safety)
          else Fin 1)"

definition time_relief :: "candidate_window \<Rightarrow> i64 \<Rightarrow> f64" where
  "time_relief weekly now =
     (case cw_resets_at weekly of
        Some ts \<Rightarrow>
          (case seconds_until ts now of
             Some seconds \<Rightarrow>
               let hours = f64_div (f64_of_int seconds) (Fin 3600) in
               if f64_lt hours (Fin 48)
               then f64_clamp (Fin 0) (Fin 1) (f64_sub (Fin 1) (f64_div hours (Fin 48)))
               else Fin 0
           | None \<Rightarrow> Fin 0)
      | None \<Rightarrow> Fin 0)"

definition sustain :: "candidate \<Rightarrow> f64 \<Rightarrow> f64" where
  "sustain c safety_margin_7d =
     (case (c_weekly c, effective_used_7d c) of
        (Some weekly, Some used) \<Rightarrow>
          if f64_le (Fin 100) used then exhausted_sustain weekly (c_now c)
          else
            let remaining_7d = f64_sub (Fin 100) used in
            if f64_le safety_margin_7d remaining_7d then Fin 0
            else
              let penalty =
                    budget_penalty weekly (c_primary c) remaining_7d safety_margin_7d (c_now c);
                  relief = time_relief weekly (c_now c);
                  effective =
                    f64_mul penalty
                      (f64_sub (Fin 1) (f64_mul relief (f64_of_rat (8 / 10))))
              in f64_mul (Fin (- 800)) effective
      | _ \<Rightarrow> Fin (- 50))"

definition raw_drain :: "candidate \<Rightarrow> f64" where
  "raw_drain c =
     (case (c_primary c, effective_used_5h c) of
        (Some primary, Some used) \<Rightarrow>
          if f64_lt used (Fin 100) then
            (case filter_opt (\<lambda>reset_ts. c_now c < reset_ts) (cw_resets_at primary) of
               Some reset_ts \<Rightarrow>
                 (case seconds_until reset_ts (c_now c) of
                    Some remaining_secs \<Rightarrow>
                      let remaining_min = f64_div (f64_of_int remaining_secs) (Fin 60) in
                      if f64_le remaining_min (Fin 60) then
                        let remaining_pct = f64_sub (Fin 100) used;
                            urgency = f64_clamp (Fin 0) (Fin 1)
                                        (f64_div (f64_sub (Fin 60) remaining_min) (Fin 60))
                        in f64_min (f64_mul (f64_mul remaining_pct urgency) (Fin 3)) (Fin 300)
                      else Fin 0
                  | None \<Rightarrow> Fin 0)
             | None \<Rightarrow> Fin 0)
          else Fin 0
      | _ \<Rightarrow> Fin 0)"

definition drain_weight :: "candidate \<Rightarrow> f64" where
  "drain_weight c =
     (if c_pool_size c \<le> 2 then Fin (1 / 2)
      else
        let exhausted_ratio = f64_div (f64_of_int (int (c_pool_exhausted c)))
                                (f64_of_int (int (c_pool_size c)))
        in if f64_lt (f64_of_rat (7 / 10)) exhausted_ratio then f64_of_rat (3 / 10)
           else if 5 \<le> c_pool_size c \<and> f64_lt exhausted_ratio (f64_of_rat (3 / 10))
           then Fin (3 / 2)
           else Fin 1)"

definition drain_value :: "candidate \<Rightarrow> f64" where
  "drain_value c = f64_mul (raw_drain c) (drain_weight c)"

definition recency :: "candidate \<Rightarrow> f64" where
  "recency c =
     (if c_last_used c = 0 then Fin 0
      else
        let seconds_ago =
              (case checked_sub (c_now c) (c_last_used c) of
                 Some seconds \<Rightarrow> f64_of_int (max seconds 0)
               | None \<Rightarrow> if c_last_used c < c_now c then PosInf else Fin 0)
        in f64_neg (f64_clamp (Fin 0) (Fin 60)
                      (f64_sub (Fin 60) (f64_div seconds_ago (Fin 30)))))"

definition score_unified :: "candidate \<Rightarrow> f64 \<Rightarrow> f64" where
  "score_unified c safety_margin_7d =
     f64_add (f64_add (f64_add (f64_add (tier_bonus c) (headroom c))
       (sustain c safety_margin_7d)) (drain_value c)) (recency c)"

section \<open>Building and choosing candidates\<close>

definition normalized_plan_kind :: "usage_info \<Rightarrow> account_info \<Rightarrow> plan_kind" where
  "normalized_plan_kind u info =
     (case u_plan_type u of
        Some api_plan \<Rightarrow> plan_from_wire (Some api_plan)
      | None \<Rightarrow>
          (case ai_plan_type info of
             Some jwt_plan \<Rightarrow> plan_from_wire (Some jwt_plan)
           | None \<Rightarrow> if info_is_team info then PlanTeam else PlanFree))"

record scored_candidate =
  s_candidate :: candidate
  s_usage :: usage_info
  s_score :: f64

definition build_candidate ::
  "nat \<Rightarrow> i64 \<Rightarrow> bool \<Rightarrow> string \<times> usage_info \<times> account_info \<times> i64 \<Rightarrow> candidate \<times> usage_info" where
  "build_candidate pool_size now team_priority item =
     (let (alias, u, info, last_used) = item;
          c = candidate_from_usage alias u (normalized_plan_kind u info) last_used now
      in (c\<lparr>c_pool_size := pool_size, c_team_priority := team_priority\<rparr>, u))"

definition score_candidates ::
  "(string \<times> usage_info \<times> account_info \<times> i64) list \<Rightarrow> i64 \<Rightarrow> f64 \<Rightarrow> bool
     \<Rightarrow> scored_candidate list" where
  "score_candidates fetched now safety_7d team_priority =
     (let candidates = map (build_candidate (length fetched) now team_priority) fetched;
          pool_exhausted =
            length (filter (\<lambda>(c, _). \<not> is_candidate_eligible c safety_7d) candidates)
      in map (\<lambda>(c, u).
            let c' = c\<lparr>c_pool_exhausted := pool_exhausted\<rparr> in
            \<lparr>s_candidate = c', s_usage = u, s_score = score_unified c' safety_7d\<rparr>) candidates)"

text \<open>The loop of \<open>pick_switch_target\<close> over its three accumulators.\<close>

record pick_state =
  best_eligible :: "(string \<times> f64) option"
  best_ineligible :: "(string \<times> f64) option"
  any_eligible :: bool

definition unselectable :: "scored_candidate \<Rightarrow> bool" where
  "unselectable s \<longleftrightarrow>
     c_explicit_account_blocker (s_candidate s) \<noteq> None
       \<or> \<not> has_required_quota_data (s_candidate s)"

definition pick_step ::
  "scored_candidate \<Rightarrow> f64 \<Rightarrow> pick_state \<Rightarrow> scored_candidate \<Rightarrow> pick_state" where
  "pick_step current safety_7d st s =
     (if unselectable s then st
      else
        let entry = (c_alias (s_candidate s), s_score s);
            improves = (\<lambda>best. is_none_or (\<lambda>(_, bs). f64_lt bs (s_score s)) best);
            beats_current = f64_lt (s_score current) (s_score s)
        in if is_candidate_eligible (s_candidate s) safety_7d then
             (let st' = st\<lparr>any_eligible := True\<rparr> in
              if (\<not> is_candidate_eligible (s_candidate current) safety_7d \<or> beats_current)
                   \<and> improves (best_eligible st)
              then st'\<lparr>best_eligible := Some entry\<rparr> else st')
           else if (unselectable current \<or> beats_current) \<and> improves (best_ineligible st)
           then st\<lparr>best_ineligible := Some entry\<rparr>
           else st)"

definition pick_switch_target ::
  "scored_candidate \<Rightarrow> scored_candidate list \<Rightarrow> f64 \<Rightarrow> (string \<times> f64) option" where
  "pick_switch_target current others safety_7d =
     (let st = foldl (pick_step current safety_7d)
                 \<lparr>best_eligible = None, best_ineligible = None, any_eligible = False\<rparr> others
      in case best_eligible st of
           Some best \<Rightarrow> Some best
         | None \<Rightarrow>
             if any_eligible st \<or> is_candidate_eligible (s_candidate current) safety_7d then None
             else best_ineligible st)"

section \<open>Bounds of the components\<close>

lemma seconds_until_Some:
  "seconds_until t now = Some r \<longleftrightarrow> (if t \<le> now then r = 0 else r = t - now \<and> in_i64 r)"
  by (auto simp: seconds_until_def)

lemma seconds_until_nonneg:
  "seconds_until t now = Some r \<Longrightarrow> 0 \<le> r \<and> in_i64 r"
  by (auto simp: seconds_until_Some int_bounds split: if_splits)

lemma between_seconds:
  "seconds_until t now = Some r \<Longrightarrow> between 0 i64_top (f64_of_int r)"
  using seconds_until_nonneg [of t now r] by (intro between_of_int) auto

lemma pace_percent_at_Some:
  "pace_percent_at w secs now = Some p \<longleftrightarrow>
     (\<exists>t. resets_at w = Some t \<and> in_i64 (t - now) \<and> 0 < t - now \<and> t - now \<le> secs
        \<and> p = f64_mul (f64_div (f64_of_int (secs - (t - now))) (f64_of_int secs)) (Fin 100))"
  by (auto simp: pace_percent_at_def Let_def checked_sub_def split: option.splits)

lemma pace_percent_at_between:
  "pace_percent_at w secs now = Some p \<Longrightarrow> in_i64 secs \<Longrightarrow> between 0 100 p"
proof -
  assume p: "pace_percent_at w secs now = Some p" and secs: "in_i64 secs"
  from p obtain t where t: "0 < t - now" "t - now \<le> secs"
    "p = f64_mul (f64_div (f64_of_int (secs - (t - now))) (f64_of_int secs)) (Fin 100)"
    unfolding pace_percent_at_Some by blast
  define e where "e = secs - (t - now)"
  with t have e: "0 \<le> e" "e < secs"
    "p = f64_mul (f64_div (f64_of_int e) (f64_of_int secs)) (Fin 100)" by simp_all
  have e64: "in_i64 e" using e secs by (simp add: int_bounds)
  obtain x where x: "f64_of_int e = Fin x" "0 \<le> x" 
    using between_of_int [OF e64, of 0] e by (auto elim: betweenE)
  obtain y where y: "f64_of_int secs = Fin y" "1 \<le> y"
    using between_of_int [OF secs, of 1] e by (auto elim: betweenE)
  have "f64_le (f64_of_int e) (f64_of_int secs)"
    using e by (simp add: f64_of_int_def f64_of_rat_mono)
  with x y have "between 0 1 (f64_div (f64_of_int e) (f64_of_int secs))"
    by (simp add: f64_div_def between_of_rat)
  then show ?thesis using e(3) by (auto intro: between_mul [where b = 1 and d = 100])
qed

lemma tier_bonus_between: "between 0 500 (tier_bonus c)"
  by (simp add: tier_bonus_def)

lemma between_remaining: "between 0 100 u \<Longrightarrow> between 0 100 (f64_sub (Fin 100) u)"
  by (rule between_sub [where a = 100 and b = 100 and c = 0 and d = 100]) auto

lemma exhausted_headroom_between: "between 0 500 (exhausted_headroom primary now)"
proof -
  have "between 0 500 (f64_max (f64_sub (Fin 500) (f64_div (f64_of_int r) (Fin 60))) (Fin 0))"
    if "seconds_until t now = Some r" for t r
  proof -
    have "between 0 i64_top (f64_div (f64_of_int r) (Fin 60))"
      using between_seconds [OF that]
      by (rule between_div [where c = 60 and d = 60]) (auto simp: divide_le_eq)
    then have "between (- i64_top) 500 (f64_sub (Fin 500) (f64_div (f64_of_int r) (Fin 60)))"
      by (rule between_sub [of 500 500, rotated]) auto
    then show ?thesis by (auto dest: between_max [where y = "Fin 0" and c = 0 and d = 0])
  qed
  then show ?thesis by (auto simp: exhausted_headroom_def Let_def split: option.splits)
qed

lemma between_used_rate:
  assumes "between 0 100 used" "between 1 i64_top elapsed"
  shows "between 0 100 (f64_div used elapsed)"
  using assms by (rule between_div) auto

lemma active_headroom_between:
  assumes w: "candidate_window_ok now' w" and used: "between 0 100 used"
  shows "between 1000 1100 (active_headroom w used now)
     \<or> (\<exists>t. cw_resets_at w = Some t \<and> seconds_until t now = None \<and> active_headroom w used now = Fin 0)"
proof -
  let ?rem = "f64_sub (Fin 100) used"
  let ?dur = "f64_of_int (cw_duration_secs w)"
  have rem: "between 0 100 ?rem" by (rule between_remaining [OF used])
  have plain: "between 1000 1100 (f64_add (Fin 1000) ?rem)"
    by (rule between_add [where a = 1000 and b = 1000 and c = 0 and d = 100]) (use rem in auto)
  have dur: "between 1 i64_top ?dur"
    using w by (intro between_of_int) (auto simp: candidate_window_ok_def)
  have durm: "between (1 / 64) i64_top (f64_div ?dur (Fin 60))"
    by (rule between_div [OF dur, of 60 60]) (auto simp: divide_le_eq)
  have scaled: "between 1000 1100 (f64_add (Fin 1000)
      (f64_mul (f64_div (f64_min (f64_div (f64_div ?rem b) (Fin 60)) (f64_div ?dur (Fin 60)))
        (f64_div ?dur (Fin 60))) (Fin 100)))"
    if b: "between 0 100 b" "f64_lt (f64_of_rat (1 / 1000)) b" for b
  proof -
    have "between (1 / 1024) 1 (f64_of_rat (1 / 1000))" by (rule between_of_rat) auto
    with b have b': "between (1 / 1024) 100 b" by (auto elim!: betweenE)
    have "between 0 102400 (f64_div ?rem b)"
      by (rule between_div [OF rem b']) auto
    then have "between 0 102400 (f64_div (f64_div ?rem b) (Fin 60))"
      by (rule between_div [where c = 60 and d = 60]) auto
    with durm obtain p q where pq: "f64_div ?dur (Fin 60) = Fin p" "1 / 64 \<le> p"
      "f64_div (f64_div ?rem b) (Fin 60) = Fin q" "0 \<le> q" by (auto elim!: betweenE)
    then have "between 0 1 (f64_div (f64_min (Fin q) (Fin p)) (Fin p))"
      by (auto simp: f64_min_def f64_div_def intro!: between_of_rat)
    then have "between 0 100 (f64_mul (f64_div (f64_min (Fin q) (Fin p)) (Fin p)) (Fin 100))"
      by (rule between_mul [where d = 100]) auto
    then show ?thesis unfolding pq
      by (rule between_add [where a = 1000 and b = 1000, rotated]) auto
  qed
  have rate: "between 0 100 (f64_div used
      (f64_max (f64_sub ?dur (f64_of_int r)) (Fin 1)))" if "seconds_until t now = Some r" for t r
  proof (rule between_used_rate [OF used])
    have "between (- i64_top) i64_top (f64_sub ?dur (f64_of_int r))"
      by (rule between_sub [OF dur between_seconds [OF that]]) auto
    then show "between 1 i64_top (f64_max (f64_sub ?dur (f64_of_int r)) (Fin 1))"
      by (auto elim!: betweenE simp: f64_max_def)
  qed
  show ?thesis
    using plain scaled rate
    by (auto simp: active_headroom_def Let_def split: option.splits)
qed

lemma headroom_between:
  assumes "candidate_ok c" shows "between 0 1100 (headroom c)"
proof (cases "c_primary c")
  case None
  then show ?thesis by (simp add: headroom_def)
next
  case (Some w)
  then obtain u where u: "effective_used_5h c = Some u" by (simp add: effective_used_5h_def)
  from assms Some have w: "candidate_window_ok (c_now c) w" by (simp add: candidate_ok_def)
  from active_headroom_between [OF w candidate_used_5h [OF assms u], of "c_now c"]
  have "between 0 1100 (active_headroom w u (c_now c))" by (auto intro: between_weaken)
  moreover have "between 0 1100 (exhausted_headroom w (c_now c))"
    using exhausted_headroom_between [of w "c_now c"] by (auto intro: between_weaken)
  ultimately show ?thesis using Some u by (simp add: headroom_def)
qed

lemma unit_complement: "between 0 1 x \<Longrightarrow> between 0 1 (f64_sub (Fin 1) x)"
  by (rule between_sub [where a = 1 and b = 1 and c = 0 and d = 1]) auto

lemma penalty_scaled: "between 0 1 x \<Longrightarrow> between (- 800) 0 (f64_mul (Fin (- 800)) x)"
  by (rule between_mul_neg [where b = 800 and d = 1]) auto

lemma exhausted_sustain_between:
  assumes "candidate_window_ok now' w" shows "between (- 800) 0 (exhausted_sustain w now)"
proof -
  have dur: "between 1 i64_top (f64_of_int (cw_duration_secs w))"
    using assms by (intro between_of_int) (auto simp: candidate_window_ok_def)
  have "between (- 800) 0 (f64_mul (Fin (- 800)) (f64_sub (Fin 1) (f64_clamp (Fin 0) (Fin 1)
      (f64_sub (Fin 1) (f64_div (f64_of_int r) (f64_of_int (cw_duration_secs w)))))))"
    if "seconds_until t now = Some r" for t r
  proof -
    have "between 0 i64_top (f64_div (f64_of_int r) (f64_of_int (cw_duration_secs w)))"
      by (rule between_div [OF between_seconds [OF that] dur]) auto
    then have "between (- i64_top) 1
        (f64_sub (Fin 1) (f64_div (f64_of_int r) (f64_of_int (cw_duration_secs w))))"
      by (rule between_sub [of 1 1, rotated]) auto
    then have "between 0 1 (f64_clamp (Fin 0) (Fin 1)
        (f64_sub (Fin 1) (f64_div (f64_of_int r) (f64_of_int (cw_duration_secs w)))))"
      by (intro between_clamp) auto
    then show ?thesis by (intro penalty_scaled unit_complement)
  qed
  then show ?thesis by (auto simp: exhausted_sustain_def Let_def split: option.splits)
qed

lemma budget_penalty_between:
  assumes rem: "between 0 100 rem" and s: "between 0 100 s"
    and w: "is_none_or (candidate_window_ok now') primary_opt"
  shows "between 0 1 (budget_penalty weekly primary_opt rem s now)"
proof -
  have share: "between 0 1 (f64_clamp (Fin 0) (Fin 1) (f64_div (f64_sub s b) s))"
    if b: "between 0 100 b" and lt: "f64_lt b s" for b
  proof -
    from b s lt obtain p q where "b = Fin p" "s = Fin q" "0 < q" "q \<le> 100"
      by (auto elim!: betweenE)
    then have "between q 100 s" "0 < q" by simp_all
    moreover have "between (- 100) 100 (f64_sub s b)"
      by (rule between_sub [OF s b]) auto
    ultimately show ?thesis by (intro between_clamp_div) auto
  qed
  have plain: "between 0 1 (f64_clamp (Fin 0) (Fin 1) (f64_div (f64_sub s rem) s))"
    if "f64_lt (Fin 0) s"
  proof -
    from s that obtain q where "s = Fin q" "0 < q" "q \<le> 100" by (auto elim!: betweenE)
    then have "between q 100 s" "0 < q" by simp_all
    moreover have "between (- 100) 100 (f64_sub s rem)"
      by (rule between_sub [OF s rem]) auto
    ultimately show ?thesis by (intro between_clamp_div) auto
  qed
  have top: "i64_top * 4096 = pow2 75" by (simp add: i64_top_def pow2_def)
  have budget: "between 0 100 (f64_div rem (f64_max (f64_div (f64_div (f64_of_int r) (Fin 3600))
      (f64_div (f64_of_int (cw_duration_secs p)) (Fin 3600))) (Fin 1)))"
    if r: "seconds_until t now = Some r" and p: "primary_opt = Some p" for t r p
  proof -
    have "between 1 i64_top (f64_of_int (cw_duration_secs p))"
      using w p by (intro between_of_int) (auto simp: candidate_window_ok_def)
    then have ph: "between (1 / 4096) i64_top (f64_div (f64_of_int (cw_duration_secs p)) (Fin 3600))"
      by (rule between_div [where c = 3600 and d = 3600]) (auto simp: divide_le_eq)
    have "between 0 i64_top (f64_div (f64_of_int r) (Fin 3600))"
      using between_seconds [OF r]
      by (rule between_div [where c = 3600 and d = 3600]) (auto simp: divide_le_eq)
    then have "between 0 (pow2 75) (f64_div (f64_div (f64_of_int r) (Fin 3600))
        (f64_div (f64_of_int (cw_duration_secs p)) (Fin 3600)))"
      using ph by (rule between_div) (auto simp: top)
    then have "between 1 (pow2 75) (f64_max (f64_div (f64_div (f64_of_int r) (Fin 3600))
        (f64_div (f64_of_int (cw_duration_secs p)) (Fin 3600))) (Fin 1))"
      by (auto elim!: betweenE simp: f64_max_def pow2_def)
    with rem show ?thesis by (rule between_div) auto
  qed
  have le: "f64_lt b s" if "between 0 100 b" "\<not> f64_le s b" for b
    using that s by (auto elim!: betweenE)
  show ?thesis
    using plain share budget le
    by (auto simp: budget_penalty_def Let_def split: option.splits)
qed

lemma time_relief_between: "between 0 1 (time_relief weekly now)"
proof -
  have "between 0 1 (f64_clamp (Fin 0) (Fin 1)
      (f64_sub (Fin 1) (f64_div (f64_div (f64_of_int r) (Fin 3600)) (Fin 48))))"
    if r: "seconds_until t now = Some r" for t r
  proof -
    have "between 0 i64_top (f64_div (f64_of_int r) (Fin 3600))"
      using between_seconds [OF r]
      by (rule between_div [where c = 3600 and d = 3600]) (auto simp: divide_le_eq)
    then have "between 0 i64_top (f64_div (f64_div (f64_of_int r) (Fin 3600)) (Fin 48))"
      by (rule between_div [where c = 48 and d = 48]) (auto simp: divide_le_eq)
    then have "between (- i64_top) 1
        (f64_sub (Fin 1) (f64_div (f64_div (f64_of_int r) (Fin 3600)) (Fin 48)))"
      by (rule between_sub [of 1 1, rotated]) auto
    then show ?thesis by (intro between_clamp) auto
  qed
  then show ?thesis by (auto simp: time_relief_def Let_def split: option.splits)
qed

lemma sustain_between:
  assumes c: "candidate_ok c" and s: "between 0 100 safety"
  shows "between (- 800) 0 (sustain c safety)"
proof (cases "c_weekly c")
  case None
  then show ?thesis by (simp add: sustain_def)
next
  case (Some w)
  then obtain u where u: "effective_used_7d c = Some u" by (simp add: effective_used_7d_def)
  have rem: "between 0 100 (f64_sub (Fin 100) u)"
    by (rule between_remaining [OF candidate_used_7d [OF c u]])
  let ?p = "budget_penalty w (c_primary c) (f64_sub (Fin 100) u) safety (c_now c)"
  let ?r = "f64_mul (time_relief w (c_now c)) (f64_of_rat (8 / 10))"
  have "between 0 1 (f64_of_rat (8 / 10))" by (rule between_of_rat) auto
  with time_relief_between have "between 0 1 ?r" by (rule between_mul) auto
  then have "between 0 1 (f64_sub (Fin 1) ?r)" by (rule unit_complement)
  moreover have "between 0 1 ?p"
    using c by (intro budget_penalty_between [OF rem s]) (auto simp: candidate_ok_def)
  ultimately have "between 0 1 (f64_mul ?p (f64_sub (Fin 1) ?r))"
    by (intro between_mul) auto
  then have "between (- 800) 0 (f64_mul (Fin (- 800)) (f64_mul ?p (f64_sub (Fin 1) ?r)))"
    by (rule penalty_scaled)
  moreover have "between (- 800) 0 (exhausted_sustain w (c_now c))"
    using c Some by (intro exhausted_sustain_between) (auto simp: candidate_ok_def)
  ultimately show ?thesis using Some u by (simp add: sustain_def Let_def)
qed

lemma raw_drain_between:
  assumes "candidate_ok c" shows "between 0 300 (raw_drain c)"
proof -
  have "between 0 300 (f64_min (f64_mul (f64_mul (f64_sub (Fin 100) u)
      (f64_clamp (Fin 0) (Fin 1) (f64_div (f64_sub (Fin 60)
        (f64_div (f64_of_int r) (Fin 60))) (Fin 60)))) (Fin 3)) (Fin 300))"
    if u: "between 0 100 u" and r: "seconds_until t now = Some r" for u t now r
  proof -
    have "between 0 i64_top (f64_div (f64_of_int r) (Fin 60))"
      using between_seconds [OF r]
      by (rule between_div [where c = 60 and d = 60]) (auto simp: divide_le_eq)
    then have "between (- i64_top) 60 (f64_sub (Fin 60) (f64_div (f64_of_int r) (Fin 60)))"
      by (rule between_sub [of 60 60, rotated]) auto
    then have "between 0 1 (f64_clamp (Fin 0) (Fin 1) (f64_div (f64_sub (Fin 60)
        (f64_div (f64_of_int r) (Fin 60))) (Fin 60)))"
      by (rule between_clamp_div [where c = 60 and d = 60]) auto
    with between_remaining [OF u] have "between 0 100 (f64_mul (f64_sub (Fin 100) u)
        (f64_clamp (Fin 0) (Fin 1) (f64_div (f64_sub (Fin 60)
          (f64_div (f64_of_int r) (Fin 60))) (Fin 60))))"
      by (rule between_mul) auto
    then have "between 0 300 (f64_mul (f64_mul (f64_sub (Fin 100) u)
        (f64_clamp (Fin 0) (Fin 1) (f64_div (f64_sub (Fin 60)
          (f64_div (f64_of_int r) (Fin 60))) (Fin 60)))) (Fin 3))"
      by (rule between_mul [where d = 3]) auto
    then show ?thesis by (auto elim!: betweenE simp: f64_min_def)
  qed
  then show ?thesis using candidate_used_5h [OF assms]
    by (auto simp: raw_drain_def Let_def split: option.splits)
qed

lemma drain_weight_between: "between 0 (3 / 2) (drain_weight c)"
proof -
  have "between 0 1 (f64_of_rat (3 / 10))" by (rule between_of_rat) auto
  then have "between 0 (3 / 2) (f64_of_rat (3 / 10))" by (rule between_weaken) auto
  then show ?thesis by (simp add: drain_weight_def Let_def)
qed

lemma drain_value_between: "candidate_ok c \<Longrightarrow> between 0 450 (drain_value c)"
  unfolding drain_value_def
  by (rule between_mul [OF raw_drain_between drain_weight_between]) auto

lemma recency_between: "between (- 60) 0 (recency c)"
proof -
  have "between 0 60 (f64_clamp (Fin 0) (Fin 60) (f64_sub (Fin 60) (f64_div (f64_of_int n) (Fin 30))))"
    if "in_i64 n" "0 \<le> n" for n
  proof -
    have "between 0 i64_top (f64_of_int n)" using that by (intro between_of_int) auto
    then have "between 0 i64_top (f64_div (f64_of_int n) (Fin 30))"
      by (rule between_div [where c = 30 and d = 30]) (auto simp: divide_le_eq)
    then have "between (- i64_top) 60 (f64_sub (Fin 60) (f64_div (f64_of_int n) (Fin 30)))"
      by (rule between_sub [of 60 60, rotated]) auto
    then show ?thesis by (intro between_clamp) auto
  qed
  moreover from this [of 0]
  have "between 0 60 (f64_clamp (Fin 0) (Fin 60) (f64_sub (Fin 60) (f64_div (Fin 0) (Fin 30))))"
    by (simp add: int_bounds)
  moreover have "between 0 60 (f64_clamp (Fin 0) (Fin 60) (f64_sub (Fin 60) (f64_div PosInf (Fin 30))))"
    by (intro between_clamp) (auto simp: f64_div_def f64_sgn_def f64_inf_def f64_sub_def)
  moreover have "in_i64 (max (c_now c - c_last_used c) 0)" if "in_i64 (c_now c - c_last_used c)"
    using that by (auto simp: int_bounds)
  ultimately show ?thesis
    unfolding recency_def
    by (auto simp: checked_sub_def Let_def dest: between_neg [where a = 0 and b = 60, simplified]
        intro!: between_neg [where a = 0 and b = 60, simplified])
qed

end
