(* ===== verification/Selection.thy ===== *)
theory Selection
  imports Scoring
begin

text \<open>
  What scoring and selection guarantee (\<open>src/src/usage/scoring.rs\<close>): the range of the score,
  what eligibility promises about the sample a candidate was built from, what
  \<open>score_candidates\<close> computes for the pool, and the choice of \<open>pick_switch_target\<close> as the
  first maximum over the accounts its comments describe.
\<close>

section \<open>The range of the score\<close>

lemma score_unified_between:
  assumes "candidate_ok c" "between 0 100 safety"
  shows "between (- 860) 2050 (score_unified c safety)"
proof -
  have "between 0 1600 (f64_add (tier_bonus c) (headroom c))"
    by (rule between_add [OF tier_bonus_between headroom_between [OF assms(1)]]) auto
  then have "between (- 800) 1600 (f64_add (f64_add (tier_bonus c) (headroom c)) (sustain c safety))"
    by (rule between_add [OF _ sustain_between [OF assms]]) auto
  then have "between (- 800) 2050 (f64_add (f64_add (f64_add (tier_bonus c) (headroom c))
      (sustain c safety)) (drain_value c))"
    by (rule between_add [OF _ drain_value_between [OF assms(1)]]) auto
  then show ?thesis unfolding score_unified_def
    by (rule between_add [OF _ recency_between]) auto
qed

lemma candidate_ok_update [simp]:
  "candidate_ok (c\<lparr>c_pool_size := n\<rparr>) = candidate_ok c"
  "candidate_ok (c\<lparr>c_pool_exhausted := n\<rparr>) = candidate_ok c"
  "candidate_ok (c\<lparr>c_team_priority := b\<rparr>) = candidate_ok c"
  by (simp_all add: candidate_ok_def)

lemma build_candidate_ok: "candidate_ok (fst (build_candidate n now team item))"
  by (cases item) (simp add: build_candidate_def Let_def candidate_from_usage_ok)

lemma build_candidate_fields [simp]:
  "c_alias (fst (build_candidate n now team item)) = fst item"
  "c_pool_size (fst (build_candidate n now team item)) = n"
  "c_now (fst (build_candidate n now team item)) = now"
  "c_team_priority (fst (build_candidate n now team item)) = team"
  by (simp_all add: build_candidate_def candidate_from_usage_def split_beta Let_def)

section \<open>The pool\<close>

text \<open>The weekly quota is nearly gone and no reset is near.\<close>

definition weekly_critical :: "candidate_window \<Rightarrow> i64 \<Rightarrow> f64 \<Rightarrow> bool" where
  "weekly_critical w now m \<longleftrightarrow>
     f64_lt (f64_sub (Fin 100) (effective_used w now)) (f64_max (f64_mul m (Fin (1 / 4))) (Fin 1))
       \<and> (\<forall>t r. cw_resets_at w = Some t \<longrightarrow> seconds_until t now = Some r
             \<longrightarrow> f64_lt (Fin 48) (f64_div (f64_of_int r) (Fin 3600)))"

lemma eligible_iff:
  "is_candidate_eligible c m \<longleftrightarrow>
     \<not> account_limit_active c
       \<and> (\<exists>w. c_weekly c = Some w \<and> \<not> f64_le (Fin 100) (effective_used w (c_now c))
             \<and> \<not> weekly_critical w (c_now c) m)
       \<and> (\<forall>p. c_primary c = Some p \<longrightarrow> \<not> f64_le (Fin 100) (effective_used p (c_now c))
             \<and> (candidate_is_free c \<longrightarrow>
                  \<not> f64_lt (f64_sub (Fin 100) (effective_used p (c_now c))) free_floor_pct))"
  by (auto simp: is_candidate_eligible_def has_required_quota_data_def effective_used_5h_def
      main_weekly_quota_available_def effective_used_7d_def weekly_critical_def Let_def
      is_some_and_def is_none_or_def split: option.splits if_splits)

lemma eligible_ignores_pool [simp]:
  "is_candidate_eligible (c\<lparr>c_pool_exhausted := n\<rparr>) m = is_candidate_eligible c m"
  by (simp add: eligible_iff account_limit_active_def candidate_is_free_def)

lemma score_candidates_eq:
  "score_candidates fetched now safety team =
     (let n = length (filter (\<lambda>item. \<not> is_candidate_eligible
                (fst (build_candidate (length fetched) now team item)) safety) fetched)
      in map (\<lambda>item.
           let c = (fst (build_candidate (length fetched) now team item))\<lparr>c_pool_exhausted := n\<rparr>
           in \<lparr>s_candidate = c, s_usage = fst (snd item), s_score = score_unified c safety\<rparr>) fetched)"
  by (auto simp: score_candidates_def build_candidate_def Let_def split_beta filter_map comp_def)

lemma score_candidates_member:
  "s \<in> set (score_candidates fetched now safety team) \<Longrightarrow>
     \<exists>item\<in>set fetched. \<exists>n. s_candidate s
        = (fst (build_candidate (length fetched) now team item))\<lparr>c_pool_exhausted := n\<rparr>
        \<and> s_score s = score_unified (s_candidate s) safety"
proof -
  assume "s \<in> set (score_candidates fetched now safety team)"
  then obtain item n where "item \<in> set fetched" "s = (let c = (fst (build_candidate (length fetched)
      now team item))\<lparr>c_pool_exhausted := n\<rparr>
    in \<lparr>s_candidate = c, s_usage = fst (snd item), s_score = score_unified c safety\<rparr>)"
    unfolding score_candidates_eq Let_def set_map by blast
  then show ?thesis by (intro bexI [of _ item] exI [of _ n]) (simp_all add: Let_def)
qed

section \<open>The choice\<close>

definition beats :: "scored_candidate \<Rightarrow> scored_candidate \<Rightarrow> bool" where
  "beats s current \<longleftrightarrow> f64_lt (s_score current) (s_score s)"

text \<open>The accounts worth switching to, and those worth it when nothing is eligible.\<close>

definition better_eligible :: "scored_candidate \<Rightarrow> f64 \<Rightarrow> scored_candidate \<Rightarrow> bool" where
  "better_eligible current m s \<longleftrightarrow>
     \<not> unselectable s \<and> is_candidate_eligible (s_candidate s) m
       \<and> (\<not> is_candidate_eligible (s_candidate current) m \<or> beats s current)"

definition better_fallback :: "scored_candidate \<Rightarrow> f64 \<Rightarrow> scored_candidate \<Rightarrow> bool" where
  "better_fallback current m s \<longleftrightarrow>
     \<not> unselectable s \<and> \<not> is_candidate_eligible (s_candidate s) m
       \<and> (unselectable current \<or> beats s current)"

definition entry_of :: "scored_candidate \<Rightarrow> string \<times> f64" where
  "entry_of s = (c_alias (s_candidate s), s_score s)"

lemma eligible_selectable: "is_candidate_eligible (s_candidate s) m \<Longrightarrow> \<not> unselectable s"
  by (auto simp: eligible_iff unselectable_def account_limit_active_def
      has_required_quota_data_def main_weekly_quota_available_def)

lemma pick_fold:
  "foldl (pick_step cur m)
     \<lparr>best_eligible = map_option entry_of e, best_ineligible = map_option entry_of i,
      any_eligible = a\<rparr> others
   = \<lparr>best_eligible = map_option entry_of
        (first_best_from f64_lt s_score e (filter (better_eligible cur m) others)),
      best_ineligible = map_option entry_of
        (first_best_from f64_lt s_score i (filter (better_fallback cur m) others)),
      any_eligible = (a \<or> (\<exists>s\<in>set others. is_candidate_eligible (s_candidate s) m))\<rparr>"
proof (induction others arbitrary: e i a)
  case Nil
  then show ?case by simp
next
  case (Cons s others)
  have improves: "is_none_or (\<lambda>(_, bs). f64_lt bs (s_score s)) (map_option entry_of b)
      = is_none_or (\<lambda>b. f64_lt (s_score b) (s_score s)) b" for b
    by (cases b) (simp_all add: entry_of_def)
  have "pick_step cur m
     \<lparr>best_eligible = map_option entry_of e, best_ineligible = map_option entry_of i,
      any_eligible = a\<rparr> s
   = \<lparr>best_eligible = map_option entry_of
        (if better_eligible cur m s \<and> is_none_or (\<lambda>b. f64_lt (s_score b) (s_score s)) e then Some s else e),
      best_ineligible = map_option entry_of
        (if better_fallback cur m s \<and> is_none_or (\<lambda>b. f64_lt (s_score b) (s_score s)) i then Some s else i),
      any_eligible = (a \<or> is_candidate_eligible (s_candidate s) m)\<rparr>"
    using eligible_selectable [of s m]
    by (simp add: pick_step_def Let_def improves better_eligible_def better_fallback_def beats_def
        entry_of_def)
  then show ?case by (simp only: foldl.simps Cons.IH) (simp add: disj_assoc)
qed

lemma pick_choice:
  "pick_switch_target cur others m =
     (case first_best f64_lt s_score (filter (better_eligible cur m) others) of
        Some s \<Rightarrow> Some (entry_of s)
      | None \<Rightarrow>
          if \<exists>s\<in>set (cur # others). is_candidate_eligible (s_candidate s) m then None
          else map_option entry_of
                 (first_best f64_lt s_score (filter (better_fallback cur m) others)))"
  unfolding pick_switch_target_def
    pick_fold [of cur m None None False others, unfolded option.map]
  by (auto simp: Let_def first_best_def split: option.splits)

lemma pick_member:
  "pick_switch_target cur others m = Some (name, score) \<Longrightarrow>
     \<exists>s\<in>set others. c_alias (s_candidate s) = name \<and> s_score s = score \<and> \<not> unselectable s"
  unfolding pick_choice
  by (auto simp: entry_of_def better_eligible_def better_fallback_def
      split: option.splits if_splits dest!: f64_rank.first_best_spec)

lemma scored_between:
  assumes "between 0 100 safety" "s \<in> set (score_candidates fetched now safety team)"
  shows "between (- 860) 2050 (s_score s)"
proof -
  obtain item n where "s_score s = score_unified (s_candidate s) safety"
    "s_candidate s = (fst (build_candidate (length fetched) now team item))\<lparr>c_pool_exhausted := n\<rparr>"
    using score_candidates_member [OF assms(2)] by blast
  then show ?thesis
    using score_unified_between [OF _ assms(1)] build_candidate_ok by simp
qed

lemma scored_item:
  "s \<in> set (score_candidates fetched now safety team) \<Longrightarrow>
     \<exists>item\<in>set fetched. c_alias (s_candidate s) = fst item \<and> s_usage s = fst (snd item)"
  unfolding score_candidates_eq Let_def by force

text \<open>
  C24. Every score of a pool is a finite double between -860 and 2050, whatever the samples,
  the clock and the history say: no NaN and no infinity reaches the comparisons of selection.
  A usage percentage outside 0 to 100 or a reset beyond its window's length is not scored,
  and every ratio of the score is clamped.
\<close>

theorem scores_are_finite:
  assumes "between 0 100 safety" "s \<in> set (score_candidates fetched now safety team)"
  shows "between (- 860) 2050 (s_score s)"
  using scored_between [OF assms] .

text \<open>A pool of two accounts at time 1000: one with quota left, one with none this week.\<close>

definition demo_account :: account_info where
  "demo_account = \<lparr>ai_email = None, ai_plan_type = Some ''plus'', ai_account_id = None,
     ai_is_fedramp = False, ai_user_id = None, ai_workspace_name = None, ai_organizations = []\<rparr>"

definition demo_window :: "rat \<Rightarrow> i64 \<Rightarrow> i64 \<Rightarrow> window_usage" where
  "demo_window used t minutes =
     \<lparr>used_percent = Some (Fin used), resets_at = Some t, window_minutes = Some minutes\<rparr>"

definition demo_usage :: "rat \<Rightarrow> usage_info" where
  "demo_usage weekly = default_usage\<lparr>u_primary := Some (demo_window 30 10000 300),
     u_secondary := Some (demo_window weekly 300000 10080), u_plan_type := Some ''plus''\<rparr>"

definition demo_pool :: "(string \<times> usage_info \<times> account_info \<times> i64) list" where
  "demo_pool = [(''a'', demo_usage 20, demo_account, 0), (''b'', demo_usage 100, demo_account, 900)]"

definition demo_candidate :: "string \<Rightarrow> rat \<Rightarrow> candidate" where
  "demo_candidate alias weekly = candidate_from_usage alias (demo_usage weekly) PlanPlus 0 1000"

text \<open>
  The bound 450 of the drain component is not slack: a pool of five with one exhausted account
  weighs a reset that is a quarter of an hour away by more than 300.
\<close>

lemma drain_value_exceeds_300:
  "drain_value \<lparr>c_alias = ''a'',
     c_primary = Some \<lparr>cw_used_percent = Fin 0, cw_resets_at = Some 1900, cw_duration_secs = 18000\<rparr>,
     c_weekly = None, c_explicit_account_blocker = None, c_ordinary_account_limit = None,
     c_plan_kind = PlanPlus, c_last_used = 0, c_now = 1000, c_pool_size = 5,
     c_pool_exhausted = 1, c_team_priority = False\<rparr> = Fin (675 / 2)"
  by code_simp

definition demo_scored :: "string \<Rightarrow> rat \<Rightarrow> rat \<Rightarrow> scored_candidate" where
  "demo_scored alias weekly score = \<lparr>s_candidate = demo_candidate alias weekly,
     s_usage = demo_usage weekly, s_score = Fin score\<rparr>"

lemma scores_are_finite_witness:
  "between (- 860) 2050 (s_score (hd (score_candidates demo_pool 1000 (Fin 20) False)))"
  by (rule scores_are_finite [where safety = "Fin 20" and fetched = demo_pool and now = 1000
        and team = False], simp) (simp add: score_candidates_def demo_pool_def Let_def split_beta)

text \<open>
  C18. The switch target is the first best of a definite list. When some account can win over
  the current one (it is selectable and eligible, and the current one is not eligible or
  scores strictly less), the answer is the first of those with the highest score. Otherwise
  there is no switch as long as any account, the current one included, is eligible; and when
  none is, the answer is the first best of the ineligible accounts that are selectable and
  score higher than the current one, or any of them when the current one is unselectable.
\<close>

theorem pick_switch_target_choice:
  "pick_switch_target cur others m =
     (let winners = filter (better_eligible cur m) others in
      if winners \<noteq> [] then map_option entry_of (first_best f64_lt s_score winners)
      else if \<exists>s\<in>set (cur # others). is_candidate_eligible (s_candidate s) m then None
      else map_option entry_of (first_best f64_lt s_score (filter (better_fallback cur m) others)))"
  by (cases "first_best f64_lt s_score (filter (better_eligible cur m) others)")
    (auto simp: pick_choice Let_def)

text \<open>
  Selection never settles for less: when \<open>pick_switch_target\<close> answers, the answer names one
  of the other accounts with its own score, one with readable weekly quota and no explicit
  blocker. If any account of the pool is eligible, the chosen one is eligible and no eligible
  account scores higher; and the current account, when eligible, scores less than the choice.
\<close>

theorem pick_switch_target_safe:
  assumes "pick_switch_target cur others m = Some (alias, score)"
  shows "\<exists>s\<in>set others. c_alias (s_candidate s) = alias \<and> s_score s = score \<and> \<not> unselectable s
     \<and> ((\<exists>e\<in>set (cur # others). is_candidate_eligible (s_candidate e) m) \<longrightarrow>
          is_candidate_eligible (s_candidate s) m
          \<and> (\<forall>e\<in>set others. is_candidate_eligible (s_candidate e) m \<longrightarrow> \<not> f64_lt score (s_score e))
          \<and> (is_candidate_eligible (s_candidate cur) m \<longrightarrow> f64_lt (s_score cur) score))"
proof -
  let ?w = "filter (better_eligible cur m) others"
  let ?f = "filter (better_fallback cur m) others"
  let ?any = "\<exists>e\<in>set (cur # others). is_candidate_eligible (s_candidate e) m"
  from assms consider
      (won) s where "first_best f64_lt s_score ?w = Some s" "entry_of s = (alias, score)"
    | (fell) s where "\<not> ?any" "first_best f64_lt s_score ?f = Some s" "entry_of s = (alias, score)"
    unfolding pick_choice by (auto split: option.splits if_splits)
  then show ?thesis
  proof cases
    case won
    from f64_rank.first_best_spec [OF won(1)]
    have s: "s \<in> set others" "better_eligible cur m s"
      and best: "\<And>e. e \<in> set others \<Longrightarrow> better_eligible cur m e \<Longrightarrow> \<not> f64_lt (s_score s) (s_score e)"
      by auto
    have "\<not> f64_lt (s_score s) (s_score e)"
      if "e \<in> set others" "is_candidate_eligible (s_candidate e) m" for e
      using best [OF that(1)] that(2) s(2) eligible_selectable [OF that(2)]
      by (auto simp: better_eligible_def beats_def dest: f64_lt_trans)
    with s won(2) show ?thesis
      by (intro bexI [of _ s]) (auto simp: entry_of_def better_eligible_def beats_def)
  next
    case fell
    from f64_rank.first_best_spec [OF fell(2)] fell(1,3) show ?thesis
      by (intro bexI [of _ s]) (auto simp: entry_of_def better_fallback_def)
  qed
qed

lemma pick_switch_target_safe_witness:
  "\<exists>s\<in>set [demo_scored ''b'' 20 90, demo_scored ''c'' 20 90].
     c_alias (s_candidate s) = ''b'' \<and> s_score s = Fin 90 \<and> \<not> unselectable s
     \<and> ((\<exists>e\<in>set (demo_scored ''a'' 100 5 # [demo_scored ''b'' 20 90, demo_scored ''c'' 20 90]).
           is_candidate_eligible (s_candidate e) (Fin 20)) \<longrightarrow>
          is_candidate_eligible (s_candidate s) (Fin 20)
          \<and> (\<forall>e\<in>set [demo_scored ''b'' 20 90, demo_scored ''c'' 20 90].
                is_candidate_eligible (s_candidate e) (Fin 20) \<longrightarrow> \<not> f64_lt (Fin 90) (s_score e))
          \<and> (is_candidate_eligible (s_candidate (demo_scored ''a'' 100 5)) (Fin 20) \<longrightarrow>
                f64_lt (s_score (demo_scored ''a'' 100 5)) (Fin 90)))"
  by (rule pick_switch_target_safe) code_simp

definition window_open :: "i64 \<Rightarrow> window_usage \<Rightarrow> bool" where
  "window_open now w \<longleftrightarrow>
     (\<exists>x. used_percent w = Some (Fin x) \<and> 0 \<le> x \<and> x \<le> 100
        \<and> (x < 100 \<or> (\<exists>t. resets_at w = Some t \<and> t \<le> now)))"

lemma open_window:
  "candidate_window_from_usage w d now = Some cw \<Longrightarrow>
     \<not> f64_le (Fin 100) (effective_used cw now) \<Longrightarrow> window_open now w"
  by (auto simp: candidate_window_from_usage_def validated_quota_window_Some Let_def
      effective_used_def is_some_and_def window_open_def elim!: betweenE
      split: option.splits prod.splits if_splits)

text \<open>
  Eligibility is a promise about the sample. An account built from a usage sample and found
  eligible had no parse issue and no explicit blocker; its ordinary account limit, if reported,
  has a known reset that has passed; its weekly window is present and open (a percentage between
  0 and 100, below 100 unless the window has reset since), and so is its primary window
  whenever that window is usable at all.
\<close>

theorem eligible_sample_usable:
  assumes "is_candidate_eligible (candidate_from_usage alias u plan last_used now) m"
  shows "u_parse_issues u = [] \<and> explicit_account_blocker u = None
     \<and> (\<forall>l. ordinary_account_limit u = Some l \<longrightarrow> (\<exists>t. l = UntilReset t \<and> t \<le> now))
     \<and> (\<exists>w. u_secondary u = Some w \<and> window_open now w)
     \<and> (\<forall>w. u_primary u = Some w \<longrightarrow> candidate_window_from_usage w window_5h_secs now \<noteq> None
            \<longrightarrow> window_open now w)"
proof -
  let ?c = "candidate_from_usage alias u plan last_used now"
  from assms have limit: "\<not> account_limit_active ?c"
    and weekly: "\<exists>w. c_weekly ?c = Some w \<and> \<not> f64_le (Fin 100) (effective_used w now)"
    and primary: "\<forall>p. c_primary ?c = Some p \<longrightarrow> \<not> f64_le (Fin 100) (effective_used p now)"
    unfolding eligible_iff by (auto simp: candidate_from_usage_def)
  have "l = UntilReset t \<Longrightarrow> \<not> limit_is_active l now \<Longrightarrow> t \<le> now" for l t by simp
  moreover have "\<not> limit_is_active l now \<Longrightarrow> \<exists>t. l = UntilReset t" for l by (cases l) auto
  ultimately show ?thesis
    using limit weekly primary
    by (fastforce simp: account_limit_active_def candidate_from_usage_def is_some_and_def
        explicit_account_blocker_None bind_eq_Some_conv split: option.splits dest: open_window)
qed

lemma eligible_sample_usable_witness:
  "u_parse_issues (demo_usage 20) = [] \<and> explicit_account_blocker (demo_usage 20) = None
     \<and> window_open 1000 (demo_window 20 300000 10080) \<and> window_open 1000 (demo_window 30 10000 300)"
proof -
  have "is_candidate_eligible (candidate_from_usage ''a'' (demo_usage 20) PlanPlus 0 1000) (Fin 20)"
    by code_simp
  moreover have "candidate_window_from_usage (demo_window 30 10000 300) window_5h_secs 1000 \<noteq> None"
    by code_simp
  ultimately show ?thesis
    using eligible_sample_usable [of "''a''" "demo_usage 20" PlanPlus 0 1000 "Fin 20"]
    by (auto simp: demo_usage_def)
qed

text \<open>
  A sample that the status display calls unavailable is never eligible, whatever the plan,
  the history and the safety margin: the display and automatic selection agree on which
  samples cannot be read.
\<close>

theorem unavailable_never_eligible:
  assumes "usage_availability u = Unavailable"
  shows "\<not> is_candidate_eligible (candidate_from_usage alias u plan last_used now) m"
proof
  assume "is_candidate_eligible (candidate_from_usage alias u plan last_used now) m"
  then obtain cw where blocker: "explicit_account_blocker u = None"
    and cw: "Option.bind (u_secondary u) (\<lambda>w. candidate_window_from_usage w window_7d_secs now) = Some cw"
    unfolding eligible_iff by (auto simp: candidate_from_usage_def account_limit_active_def)
  from cw have "Option.bind (u_secondary u) (\<lambda>w. validated_quota_window w window_7d_secs) \<noteq> None"
    by (auto simp: bind_eq_Some_conv candidate_window_from_usage_def split: option.splits)
  with blocker assms show False
    by (auto simp: usage_availability_def main_weekly_quota_available_def Let_def
        explicit_account_blocker_None split: if_splits)
qed

lemma unavailable_never_eligible_witness:
  "\<not> is_candidate_eligible (candidate_from_usage ''a'' default_usage PlanPlus 0 1000) (Fin 20)"
  by (rule unavailable_never_eligible) code_simp

lemma effective_used_lower:
  "f64_le u (cw_used_percent w) \<Longrightarrow>
     f64_le (effective_used (w\<lparr>cw_used_percent := u\<rparr>) now) (effective_used w now)"
  by (simp add: effective_used_def)

lemma remaining_grows:
  assumes "candidate_window_ok now w" "between 0 100 u" "f64_le u (cw_used_percent w)"
  shows "f64_le (f64_sub (Fin 100) (effective_used w t))
           (f64_sub (Fin 100) (effective_used (w\<lparr>cw_used_percent := u\<rparr>) t))"
proof -
  have "between 0 100 (effective_used (w\<lparr>cw_used_percent := u\<rparr>) t)"
    using assms by (intro effective_used_between [of now]) (simp add: candidate_window_ok_def)
  then show ?thesis
    using f64_sub_antimono [OF effective_used_lower [OF assms(3)] _ effective_used_between [OF assms(1)]]
    by blast
qed

text \<open>
  Eligibility is monotone in usage. Lower the used percentages of an eligible candidate's
  weekly and primary windows, resets and everything else unchanged, and it stays eligible: the
  rounding of the subtractions behind the thresholds never turns a better account away.
\<close>

theorem eligible_monotone:
  assumes "is_candidate_eligible c m" "candidate_ok c"
    and w: "c_weekly c = Some w" "between 0 100 u" "f64_le u (cw_used_percent w)"
    and p: "c_primary c = Some p" "between 0 100 v" "f64_le v (cw_used_percent p)"
  shows "is_candidate_eligible (c\<lparr>c_weekly := Some (w\<lparr>cw_used_percent := u\<rparr>),
           c_primary := Some (p\<lparr>cw_used_percent := v\<rparr>)\<rparr>) m"
proof -
  from assms(2) w(1) p(1) have ok: "candidate_window_ok (c_now c) w" "candidate_window_ok (c_now c) p"
    by (simp_all add: candidate_ok_def)
  note lower = f64_le_trans [OF _ effective_used_lower [OF w(3)]]
    f64_le_trans [OF _ effective_used_lower [OF p(3)]]
  note grows = f64_le_lt_trans [OF remaining_grows [OF ok(1) w(2,3)]]
    f64_le_lt_trans [OF remaining_grows [OF ok(2) p(2,3)]]
  show ?thesis
    using assms(1) w(1) p(1)
    by (auto simp: eligible_iff account_limit_active_def candidate_is_free_def weekly_critical_def
        dest: lower grows)
qed

lemma eligible_monotone_witness:
  "is_candidate_eligible ((demo_candidate ''a'' 97)
     \<lparr>c_weekly := Some ((the (c_weekly (demo_candidate ''a'' 97)))\<lparr>cw_used_percent := Fin 10\<rparr>),
      c_primary := Some ((the (c_primary (demo_candidate ''a'' 97)))\<lparr>cw_used_percent := Fin 30\<rparr>)\<rparr>)
     (Fin 4)"
  by (rule eligible_monotone) (code_simp, simp add: demo_candidate_def candidate_from_usage_ok, code_simp+)

text \<open>
  Scoring keeps the pool as it was fetched: one scored candidate per account, in the order
  given, each with its alias and its own sample, each told the true pool size and the true
  number of candidates that are not eligible, so that the drain weight of every account is
  computed from the same count.
\<close>

theorem score_candidates_pool:
  "map (\<lambda>s. c_alias (s_candidate s)) (score_candidates fetched now m team) = map fst fetched
     \<and> map s_usage (score_candidates fetched now m team) = map (fst \<circ> snd) fetched
     \<and> list_all (\<lambda>s. c_pool_size (s_candidate s) = length fetched
          \<and> c_now (s_candidate s) = now \<and> c_team_priority (s_candidate s) = team
          \<and> c_pool_exhausted (s_candidate s) = length (filter
               (\<lambda>s. \<not> is_candidate_eligible (s_candidate s) m) (score_candidates fetched now m team)))
        (score_candidates fetched now m team)"
  by (simp add: score_candidates_eq Let_def filter_map comp_def list_all_iff)

end
