(* ===== verification/Global_Pace.thy ===== *)
theory Global_Pace
  imports Usage_Types "HOL-Library.Product_Lexorder"
begin

text \<open>
  The pool-wide weekly pace (\<open>src/src/usage/global_pace.rs\<close>): the weekly window of each
  registered profile, validated at a caller-supplied time, and the equal- or capacity-weighted
  aggregate over the valid ones.
\<close>

section \<open>One account\<close>

definition window_7d_minutes :: i64 where
  "window_7d_minutes = window_7d_secs div 60"

record pace_input =
  gi_alias :: string
  gi_used_percent :: "f64 option"
  gi_resets_at :: "i64 option"
  gi_window_duration_secs :: "i64 option"
  gi_capacity :: "f64 option"

definition pace_unavailable :: "string \<Rightarrow> pace_input" where
  "pace_unavailable alias = \<lparr>gi_alias = alias, gi_used_percent = None, gi_resets_at = None,
     gi_window_duration_secs = None, gi_capacity = None\<rparr>"

definition main_weekly_window :: "usage_info \<Rightarrow> window_usage option" where
  "main_weekly_window u =
     or_else (u_secondary u)
       (filter_opt (\<lambda>w. is_some_and (\<lambda>minutes. window_7d_minutes \<le> minutes) (window_minutes w))
         (u_primary u))"

definition pace_input_from_usage :: "string \<Rightarrow> usage_info \<Rightarrow> pace_input" where
  "pace_input_from_usage alias u =
     (if explicit_account_blocker u \<noteq> None then pace_unavailable alias
      else (case main_weekly_window u of
              None \<Rightarrow> pace_unavailable alias
            | Some w \<Rightarrow>
                \<lparr>gi_alias = alias, gi_used_percent = used_percent w, gi_resets_at = resets_at w,
                 gi_window_duration_secs = quota_window_duration_secs w window_7d_secs,
                 gi_capacity = None\<rparr>))"

record account_pace =
  ap_alias :: string
  ap_used_percent :: f64
  ap_elapsed_percent :: f64
  ap_remaining_percent :: f64
  ap_effective_capacity :: f64
  ap_reserve_percent_points :: f64
  ap_resets_at :: i64
  ap_capacity :: "f64 option"

definition calculate_effective_capacity :: "f64 \<Rightarrow> f64 \<Rightarrow> f64" where
  "calculate_effective_capacity used elapsed = f64_add (f64_sub (Fin 100) used) elapsed"

definition calculate_account_weekly_pace :: "pace_input \<Rightarrow> i64 \<Rightarrow> account_pace option" where
  "calculate_account_weekly_pace input now =
     Option.bind (gi_used_percent input) (\<lambda>used.
       if \<not> is_finite used \<or> \<not> in_range (Fin 0) (Fin 100) used then None
       else Option.bind (gi_resets_at input) (\<lambda>reset.
         if reset \<le> now then None
         else Option.bind (gi_window_duration_secs input) (\<lambda>secs.
           if secs \<le> 0 then None
           else Option.bind (checked_sub reset now) (\<lambda>until_reset.
             if secs < until_reset then None
             else
               let duration = f64_of_int secs;
                   elapsed_secs =
                     f64_clamp (Fin 0) duration (f64_sub duration (f64_of_int until_reset));
                   elapsed = f64_clamp (Fin 0) (Fin 100)
                               (f64_mul (f64_div elapsed_secs duration) (Fin 100))
               in Some \<lparr>ap_alias = gi_alias input, ap_used_percent = used,
                        ap_elapsed_percent = elapsed,
                        ap_remaining_percent = f64_sub (Fin 100) used,
                        ap_effective_capacity = calculate_effective_capacity used elapsed,
                        ap_reserve_percent_points = f64_sub elapsed used,
                        ap_resets_at = reset,
                        ap_capacity = filter_opt (\<lambda>v. is_finite v \<and> f64_lt (Fin 0) v)
                                        (gi_capacity input)\<rparr>))))"

section \<open>The pool\<close>

datatype pace_weighting = EqualWeights | CapacityWeights

fun weighting_str :: "pace_weighting \<Rightarrow> string" where
  "weighting_str EqualWeights = ''equal''"
| "weighting_str CapacityWeights = ''capacity''"

record weekly_summary =
  gw_pace_percent :: "f64 option"
  gw_reserve_percent_points :: "f64 option"
  gw_aggregate_used_percent :: "f64 option"
  gw_aggregate_elapsed_percent :: "f64 option"
  gw_effective_capacity :: f64
  gw_normal_capacity :: f64
  gw_included_accounts :: nat
  gw_excluded_accounts :: nat
  gw_weighting :: pace_weighting
  gw_next_reset_at :: "i64 option"
  gw_next_reset_alias :: "string option"

text \<open>The \<open>try_fold\<close> over weighted totals: \<open>None\<close> as soon as one capacity is missing.\<close>

fun capacity_fold :: "f64 \<times> f64 \<times> f64 \<times> f64 \<Rightarrow> account_pace list \<Rightarrow> (f64 \<times> f64 \<times> f64 \<times> f64) option" where
  "capacity_fold totals [] = Some totals"
| "capacity_fold (effective, normal, used, elapsed) (a # as) =
     (case ap_capacity a of
        None \<Rightarrow> None
      | Some weight \<Rightarrow>
          capacity_fold
            (f64_add effective (f64_mul weight (ap_effective_capacity a)),
             f64_add normal (f64_mul weight (Fin 100)),
             f64_add used (f64_mul weight (ap_used_percent a)),
             f64_add elapsed (f64_mul weight (ap_elapsed_percent a))) as)"

definition capacity_totals :: "account_pace list \<Rightarrow> (f64 \<times> f64 \<times> f64 \<times> f64) option" where
  "capacity_totals accounts =
     (if accounts = [] then None
      else filter_opt
        (\<lambda>(effective, normal, used, elapsed).
           is_finite effective \<and> is_finite normal \<and> is_finite used \<and> is_finite elapsed
             \<and> f64_lt (Fin 0) normal)
        (capacity_fold (Fin 0, Fin 0, Fin 0, Fin 0) accounts))"

definition equal_totals :: "account_pace list \<Rightarrow> f64 \<times> f64 \<times> f64 option \<times> f64 option" where
  "equal_totals accounts =
     (let count = f64_of_int (int (length accounts));
          averages =
            (if accounts \<noteq> []
             then Some (f64_div (f64_sum (map ap_used_percent accounts)) count,
                        f64_div (f64_sum (map ap_elapsed_percent accounts)) count)
             else None)
      in (f64_sum (map ap_effective_capacity accounts), f64_mul count (Fin 100),
          map_option fst averages, map_option snd averages))"

definition calculate_global_weekly_summary :: "pace_input list \<Rightarrow> i64 \<Rightarrow> weekly_summary" where
  "calculate_global_weekly_summary inputs now =
     (let accounts = List.map_filter (\<lambda>input. calculate_account_weekly_pace input now) inputs;
          next_reset = min_by_key (\<lambda>a. (ap_resets_at a, ap_alias a)) accounts;
          (weighting, effective, normal, agg_used, agg_elapsed) =
            (case capacity_totals accounts of
               Some (effective, normal, used, elapsed) \<Rightarrow>
                 (CapacityWeights, effective, normal,
                  Some (f64_mul (f64_div used normal) (Fin 100)),
                  Some (f64_mul (f64_div elapsed normal) (Fin 100)))
             | None \<Rightarrow> (EqualWeights, equal_totals accounts));
          pace = (if f64_lt (Fin 0) normal
                  then Some (f64_mul (f64_div effective normal) (Fin 100)) else None)
      in \<lparr>gw_pace_percent = pace,
          gw_reserve_percent_points = map_option (\<lambda>p. f64_sub p (Fin 100)) pace,
          gw_aggregate_used_percent = agg_used,
          gw_aggregate_elapsed_percent = agg_elapsed,
          gw_effective_capacity = effective,
          gw_normal_capacity = normal,
          gw_included_accounts = length accounts,
          gw_excluded_accounts = length inputs - length accounts,
          gw_weighting = weighting,
          gw_next_reset_at = map_option ap_resets_at next_reset,
          gw_next_reset_alias = map_option ap_alias next_reset\<rparr>)"

section \<open>Properties\<close>

text \<open>What validation gives for one account.\<close>

definition account_pace_ok :: "i64 \<Rightarrow> account_pace \<Rightarrow> bool" where
  "account_pace_ok now a \<longleftrightarrow>
     between 0 100 (ap_used_percent a) \<and> between 0 100 (ap_elapsed_percent a)
       \<and> between 0 100 (ap_remaining_percent a) \<and> between 0 200 (ap_effective_capacity a)
       \<and> between (- 100) 100 (ap_reserve_percent_points a) \<and> now < ap_resets_at a
       \<and> is_none_or (f64_lt (Fin 0)) (ap_capacity a)"

definition pace_input_i64 :: "pace_input \<Rightarrow> bool" where
  "pace_input_i64 input \<longleftrightarrow> is_none_or in_i64 (gi_window_duration_secs input)"

lemma pace_input_from_usage_i64: "pace_input_i64 (pace_input_from_usage alias u)"
  by (auto simp: pace_input_i64_def pace_input_from_usage_def pace_unavailable_def is_none_or_def
      quota_window_duration_i64 split: option.splits)

lemma account_pace_Some:
  assumes "calculate_account_weekly_pace input now = Some a" "pace_input_i64 input"
  shows "account_pace_ok now a"
proof -
  from assms obtain used reset secs where
    used: "between 0 100 used" "ap_used_percent a = used" and "now < reset" "ap_resets_at a = reset"
    and secs: "gi_window_duration_secs input = Some secs" "0 < secs" "in_i64 (reset - now)"
      "reset - now \<le> secs"
    and elapsed: "ap_elapsed_percent a = f64_clamp (Fin 0) (Fin 100) (f64_mul (f64_div
        (f64_clamp (Fin 0) (f64_of_int secs) (f64_sub (f64_of_int secs) (f64_of_int (reset - now))))
        (f64_of_int secs)) (Fin 100))"
    and rest: "ap_remaining_percent a = f64_sub (Fin 100) used"
      "ap_effective_capacity a = calculate_effective_capacity used (ap_elapsed_percent a)"
      "ap_reserve_percent_points a = f64_sub (ap_elapsed_percent a) used"
      "ap_capacity a = filter_opt (\<lambda>v. is_finite v \<and> f64_lt (Fin 0) v) (gi_capacity input)"
    by (auto simp: calculate_account_weekly_pace_def bind_eq_Some_conv Let_def split: if_splits)
  from secs assms(2) have "between 1 i64_top (f64_of_int secs)"
    by (intro between_of_int) (auto simp: pace_input_i64_def)
  then obtain d where d: "f64_of_int secs = Fin d" "1 \<le> d" "d \<le> i64_top" by (auto elim: betweenE)
  have "between 1 i64_top (f64_of_int (reset - now))"
    using secs \<open>now < reset\<close> by (intro between_of_int) auto
  then have "between (- i64_top) i64_top (f64_sub (Fin d) (f64_of_int (reset - now)))"
    using d by (intro between_sub [of d d]) auto
  then have "between 0 d (f64_clamp (Fin 0) (Fin d) (f64_sub (Fin d) (f64_of_int (reset - now))))"
    using d by (intro between_clamp) auto
  then have "between 0 1 (f64_div
      (f64_clamp (Fin 0) (Fin d) (f64_sub (Fin d) (f64_of_int (reset - now)))) (Fin d))"
    by (rule between_div [of 0 d _ d d]) (use d in auto)
  from between_mul [OF this, of 100 "Fin 100" 100] have e: "between 0 100 (ap_elapsed_percent a)"
    unfolding elapsed d by (intro between_clamp) auto
  have r: "between 0 100 (f64_sub (Fin 100) used)"
    by (rule between_sub [OF _ used(1), of 100 100]) auto
  have "between 0 200 (f64_add (f64_sub (Fin 100) used) (ap_elapsed_percent a))"
    by (rule between_add [OF r e]) auto
  moreover have "between (- 100) 100 (f64_sub (ap_elapsed_percent a) used)"
    by (rule between_sub [OF e used(1)]) auto
  moreover have "is_none_or (f64_lt (Fin 0)) (ap_capacity a)"
    using rest by (simp add: is_none_or_def split: option.splits)
  ultimately show ?thesis
    using used e r rest \<open>now < reset\<close> \<open>ap_resets_at a = reset\<close>
    by (simp add: account_pace_ok_def calculate_effective_capacity_def)
qed

lemma f64_sum_between:
  "list_all (between 0 (of_nat b)) xs \<Longrightarrow> length xs * b \<le> 2 ^ 53 \<Longrightarrow>
     between 0 (of_nat (length xs * b)) (f64_sum xs)"
proof (induction xs rule: rev_induct)
  case Nil
  then show ?case by (simp add: f64_sum_def)
next
  case (snoc x xs)
  have good: "good (of_nat (length (xs @ [x]) * b))"
    using snoc.prems(2) by (rule good_of_nat)
  have "between 0 (of_nat (length xs * b)) (f64_sum xs)"
    using snoc by (intro snoc.IH) auto
  then have "between 0 (of_nat (length (xs @ [x]) * b)) (f64_add (f64_sum xs) x)"
    using snoc.prems(1) good by (intro between_add [where c = 0 and d = "of_nat b"]) auto
  then show ?case by (simp add: f64_sum_def)
qed

definition pool_accounts :: "pace_input list \<Rightarrow> i64 \<Rightarrow> account_pace list" where
  "pool_accounts inputs now =
     List.map_filter (\<lambda>input. calculate_account_weekly_pace input now) inputs"

lemma pool_accounts_set:
  "a \<in> set (pool_accounts inputs now) \<longleftrightarrow>
     (\<exists>input\<in>set inputs. calculate_account_weekly_pace input now = Some a)"
  by (force simp: pool_accounts_def List.map_filter_def image_iff)

lemma pool_accounts_length: "length (pool_accounts inputs now) \<le> length inputs"
  by (simp add: pool_accounts_def List.map_filter_def le_trans [OF length_filter_le])

lemma capacity_totals_normal:
  "capacity_totals accounts = Some (e, n, u, l) \<Longrightarrow> accounts \<noteq> [] \<and> f64_lt (Fin 0) n"
  by (auto simp: capacity_totals_def split: if_splits)

lemma equal_totals_normal:
  "f64_lt (Fin 0) (f64_mul (f64_of_int (int n)) (Fin 100)) \<longleftrightarrow> n \<noteq> 0"
proof (cases "n = 0")
  case True
  then show ?thesis by (simp add: f64_mul_def f64_of_rat_good)
next
  case False
  have n1: "1 \<le> rnd (of_int (int n))" using False by (intro rnd_ge) auto
  have "1 \<le> rnd (q * 100)" if "1 \<le> q" for q using that by (intro rnd_ge) auto
  moreover have "0 < (q::rat)" if "1 \<le> q" for q using that by simp
  moreover have "\<not> q \<le> - f64_limit" if "1 \<le> q" for q using that f64_limit_pos by linarith
  ultimately show ?thesis
    using n1 False
    by (fastforce simp: f64_of_int_def f64_of_rat_def Let_def f64_mul_def f64_sgn_def f64_inf_def)
qed

lemma capacity_fold_Some_capacities:
  "capacity_fold t accounts = Some r \<Longrightarrow> a \<in> set accounts \<Longrightarrow> ap_capacity a \<noteq> None"
  by (induction t accounts rule: capacity_fold.induct) (auto split: option.splits)

lemma summary_parts:
  fixes inputs now
  defines "as \<equiv> pool_accounts inputs now" and "s \<equiv> calculate_global_weekly_summary inputs now"
  shows "gw_included_accounts s = length as"
    and "gw_excluded_accounts s = length inputs - length as"
    and "gw_next_reset_at s = map_option ap_resets_at (min_by_key (\<lambda>a. (ap_resets_at a, ap_alias a)) as)"
    and "gw_next_reset_alias s = map_option ap_alias (min_by_key (\<lambda>a. (ap_resets_at a, ap_alias a)) as)"
    and "gw_pace_percent s = None \<longleftrightarrow> as = []"
    and "gw_aggregate_used_percent s = None \<longleftrightarrow> as = []"
    and "gw_aggregate_elapsed_percent s = None \<longleftrightarrow> as = []"
proof -
  note defs = as_def s_def calculate_global_weekly_summary_def pool_accounts_def Let_def split_beta
  show "gw_included_accounts s = length as"
    and "gw_excluded_accounts s = length inputs - length as"
    and "gw_next_reset_at s = map_option ap_resets_at (min_by_key (\<lambda>a. (ap_resets_at a, ap_alias a)) as)"
    and "gw_next_reset_alias s = map_option ap_alias (min_by_key (\<lambda>a. (ap_resets_at a, ap_alias a)) as)"
    by (simp_all add: defs)
  show "gw_pace_percent s = None \<longleftrightarrow> as = []"
    and "gw_aggregate_used_percent s = None \<longleftrightarrow> as = []"
    and "gw_aggregate_elapsed_percent s = None \<longleftrightarrow> as = []"
    using equal_totals_normal [of "length as"] capacity_totals_normal [of as]
    by (auto simp: defs equal_totals_def split: option.splits)
qed

text \<open>
  C31. The summary accounts for every registered profile: included and excluded profiles add up
  to the profiles given, and a pace, a weighted usage, a weighted elapsed time and a next reset
  are reported exactly when at least one profile has a valid current weekly window. The next
  reset lies in the future, belongs to an included profile under the alias reported, and no
  included profile resets earlier.
\<close>

theorem summary_accounts_for_all:
  "let s = calculate_global_weekly_summary inputs now;
       valid = filter (\<lambda>i. calculate_account_weekly_pace i now \<noteq> None) inputs
   in gw_included_accounts s = length valid
      \<and> gw_included_accounts s + gw_excluded_accounts s = length inputs
      \<and> (gw_pace_percent s = None) = (valid = [])
      \<and> (gw_aggregate_used_percent s = None) = (valid = [])
      \<and> (gw_aggregate_elapsed_percent s = None) = (valid = [])
      \<and> (case (gw_next_reset_at s, gw_next_reset_alias s) of
            (Some t, Some name) \<Rightarrow> now < t
              \<and> list_ex (\<lambda>i. gi_alias i = name \<and> gi_resets_at i = Some t) valid
              \<and> list_all (\<lambda>i. t \<le> the (gi_resets_at i)) valid
          | (None, None) \<Rightarrow> valid = []
          | _ \<Rightarrow> False)"
proof -
  let ?as = "pool_accounts inputs now"
  let ?valid = "filter (\<lambda>i. calculate_account_weekly_pace i now \<noteq> None) inputs"
  have as: "?as = map (\<lambda>i. the (calculate_account_weekly_pace i now)) ?valid"
    by (simp add: pool_accounts_def List.map_filter_def comp_def)
  have field: "gi_alias i = ap_alias a \<and> gi_resets_at i = Some (ap_resets_at a) \<and> now < ap_resets_at a"
    if "calculate_account_weekly_pace i now = Some a" for i a
    using that by (auto simp: calculate_account_weekly_pace_def bind_eq_Some_conv Let_def
        split: if_splits)
  have len: "length ?valid \<le> length inputs" by simp
  show ?thesis
  proof (cases "min_by_key (\<lambda>a. (ap_resets_at a, ap_alias a)) ?as")
    case None
    then show ?thesis using summary_parts [of inputs now] as len by (simp add: Let_def)
  next
    case (Some m)
    from min_by_key_Some [OF Some]
    have m: "m \<in> set ?as" "\<And>a. a \<in> set ?as \<Longrightarrow> ap_resets_at m \<le> ap_resets_at a" by auto
    from m(1) obtain i where i: "i \<in> set inputs" "calculate_account_weekly_pace i now = Some m"
      by (auto simp: pool_accounts_set)
    have "?valid \<noteq> []" using i by (auto simp: filter_empty_conv)
    moreover have "list_all (\<lambda>i. ap_resets_at m \<le> the (gi_resets_at i)) ?valid"
      using m(2) field by (force simp: list_all_iff pool_accounts_set)
    moreover have "list_ex (\<lambda>j. gi_alias j = ap_alias m \<and> gi_resets_at j = Some (ap_resets_at m)) ?valid"
      using i field [OF i(2)] by (auto simp: list_ex_iff)
    ultimately show ?thesis
      using summary_parts [of inputs now] as len field [OF i(2)] Some by (simp add: Let_def)
  qed
qed

lemma ratio_between:
  assumes "between 0 (of_nat (n * b)) x" "1 \<le> n" "n \<le> 1000000" "b \<le> 200"
  shows "between 0 (of_nat b) (f64_div x (f64_of_int (int n)))"
proof -
  have n: "f64_of_int (int n) = Fin (of_nat n)" using assms(3) by simp
  have "good (of_nat b)" using assms(4) by (intro good_of_nat) simp
  then show ?thesis unfolding n
    using assms by (intro between_div [of 0 "of_nat (n * b)" _ "of_nat n" "of_nat n"]) auto
qed

lemma equal_totals_bounds:
  assumes "accounts \<noteq> []" "length accounts \<le> 1000000" "list_all (account_pace_ok now) accounts"
  shows "\<exists>e n u l. equal_totals accounts = (e, n, Some u, Some l) \<and> between 0 100 u \<and> between 0 100 l
     \<and> f64_lt (Fin 0) n \<and> between 0 200 (f64_mul (f64_div e n) (Fin 100))"
proof -
  let ?n = "length accounts"
  have n: "1 \<le> ?n" using assms(1) by (cases accounts) auto
  have u: "between 0 (of_nat (?n * 100)) (f64_sum (map ap_used_percent accounts))"
    and l: "between 0 (of_nat (?n * 100)) (f64_sum (map ap_elapsed_percent accounts))"
    and e: "between 0 (of_nat (?n * 200)) (f64_sum (map ap_effective_capacity accounts))"
    using f64_sum_between [of 100 "map ap_used_percent accounts"]
      f64_sum_between [of 100 "map ap_elapsed_percent accounts"]
      f64_sum_between [of 200 "map ap_effective_capacity accounts"] assms(2,3)
    by (simp_all add: list_all_iff account_pace_ok_def)
  have normal: "f64_mul (f64_of_int (int ?n)) (Fin 100) = Fin (of_nat (?n * 100))"
    using assms(2) f64_of_rat_good [OF good_of_nat [of "?n * 100"]] by (simp add: f64_mul_def)
  have "between 0 2 (f64_div (f64_sum (map ap_effective_capacity accounts)) (Fin (of_nat (?n * 100))))"
    using n assms(1) by (intro between_div [OF e, of "of_nat (?n * 100)" "of_nat (?n * 100)"]) auto
  then have "between 0 200 (f64_mul (f64_div (f64_sum (map ap_effective_capacity accounts))
      (Fin (of_nat (?n * 100)))) (Fin 100))"
    by (intro between_mul [of 2 _ 100]) auto
  moreover have "f64_lt (Fin 0) (Fin (of_nat (?n * 100)))" using assms(1) by simp
  moreover have "between 0 (of_nat 100) (f64_div (f64_sum (map ap_used_percent accounts)) (f64_of_int (int ?n)))"
    and "between 0 (of_nat 100) (f64_div (f64_sum (map ap_elapsed_percent accounts)) (f64_of_int (int ?n)))"
    using ratio_between [OF u n assms(2)] ratio_between [OF l n assms(2)] by simp_all
  ultimately show ?thesis
    using assms(1) by (simp add: equal_totals_def Let_def normal)
qed

text \<open>
  C30. The equal-weighted pool of production is bounded: over inputs built from usage samples
  (fewer than a million of them) the weighting is equal, the pace lies between 0 and 200
  percent, the aggregate usage and the aggregate elapsed time between 0 and 100, and the reserve
  between -100 and 100, rounding included.
\<close>

theorem summary_bounds:
  assumes "length samples < 1000000"
  shows "let s = calculate_global_weekly_summary
               (map (\<lambda>(name, u). pace_input_from_usage name u) samples) now
    in gw_weighting s = EqualWeights
       \<and> list_all (between 0 200) (opt_list (gw_pace_percent s))
       \<and> list_all (between (- 100) 100) (opt_list (gw_reserve_percent_points s))
       \<and> list_all (between 0 100) (opt_list (gw_aggregate_used_percent s))
       \<and> list_all (between 0 100) (opt_list (gw_aggregate_elapsed_percent s))"
proof -
  let ?inputs = "map (\<lambda>(name, u). pace_input_from_usage name u) samples"
  let ?as = "pool_accounts ?inputs now"
  have ok: "list_all (account_pace_ok now) ?as"
    by (auto simp: list_all_iff pool_accounts_set pace_input_from_usage_i64
        dest!: account_pace_Some)
  have none: "ap_capacity a = None" if "a \<in> set ?as" for a
    using that by (auto simp: pool_accounts_set calculate_account_weekly_pace_def bind_eq_Some_conv
        pace_input_from_usage_def pace_unavailable_def Let_def split: if_splits option.splits)
  have equal: "capacity_totals ?as = None"
  proof (cases ?as)
    case (Cons a as)
    then show ?thesis using none [of a] by (simp add: capacity_totals_def)
  qed (simp add: capacity_totals_def)
  have len: "length ?as \<le> 1000000" using pool_accounts_length [of ?inputs now] assms by simp
  have reserve: "between (- 100) 100 (f64_sub p (Fin 100))" if "between 0 200 p" for p
    by (rule between_sub [OF that, of 100 100]) auto
  show ?thesis
  proof (cases "?as = []")
    case True
    then show ?thesis
      using equal by (simp add: calculate_global_weekly_summary_def pool_accounts_def Let_def
          equal_totals_def opt_list_def f64_mul_def f64_of_rat_good)
  next
    case False
    from equal_totals_bounds [OF this len ok] obtain e n u l where
      "equal_totals ?as = (e, n, Some u, Some l)" "between 0 100 u" "between 0 100 l"
      "f64_lt (Fin 0) n" "between 0 200 (f64_mul (f64_div e n) (Fin 100))" by blast
    with equal reserve show ?thesis
      by (simp add: calculate_global_weekly_summary_def pool_accounts_def Let_def opt_list_def)
  qed
qed

lemma summary_bounds_witness:
  "let s = calculate_global_weekly_summary (map (\<lambda>(name, u). pace_input_from_usage name u)
       [(''a'', default_usage\<lparr>u_secondary := Some \<lparr>used_percent = Some (Fin 40),
          resets_at = Some 302400, window_minutes = Some 10080\<rparr>\<rparr>)]) 0
    in gw_weighting s = EqualWeights
       \<and> list_all (between 0 200) (opt_list (gw_pace_percent s))
       \<and> list_all (between (- 100) 100) (opt_list (gw_reserve_percent_points s))
       \<and> list_all (between 0 100) (opt_list (gw_aggregate_used_percent s))
       \<and> list_all (between 0 100) (opt_list (gw_aggregate_elapsed_percent s))"
  by (rule summary_bounds) simp

end
