(* ===== verification/Reset_Credits.thy ===== *)
theory Reset_Credits
  imports Usage_Types "HOL-Library.Word"
begin

text \<open>
  Reset cards (\<open>src/src/usage/reset_credits.rs\<close>): parsing the card list of the service, the
  check made before a card is spent, and the redemption loop, which classifies every failure as
  certainly not redeemed or of unknown outcome. The network is an argument: for each attempt,
  the outcome of the permit and of the exchange.

  Parameters for code outside the repository: \<open>rfc3339\<close>, chrono's date parser;
  \<open>status_text\<close>, the display of an HTTP status.
\<close>

section \<open>Parsing\<close>

definition parse_optional_u64 :: "json option \<Rightarrow> u64 option" where
  "parse_optional_u64 value =
     (case value of
        Some (JNumber n) \<Rightarrow> n_u64 n
      | Some (JString s) \<Rightarrow> parse_u64 (trim s)
      | _ \<Rightarrow> None)"

definition either_key :: "json_object \<Rightarrow> string \<Rightarrow> string \<Rightarrow> string \<Rightarrow> json option result" where
  "either_key obj snake camel message =
     (case (map_of obj snake, map_of obj camel) of
        (Some _, Some _) \<Rightarrow> bail message
      | (Some v, None) \<Rightarrow> Inr (Some v)
      | (None, Some v) \<Rightarrow> Inr (Some v)
      | (None, None) \<Rightarrow> Inr None)"

definition optional_reset_credit_string ::
  "json_object \<Rightarrow> string \<Rightarrow> string \<Rightarrow> string option result" where
  "optional_reset_credit_string obj snake camel =
     and_then
       (either_key obj snake camel
         (''reset credit must not contain both '' @ snake @ '' and '' @ camel))
       (\<lambda>value. case value of
          None \<Rightarrow> Inr None
        | Some JNull \<Rightarrow> Inr None
        | Some (JString s) \<Rightarrow> Inr (Some (trim s))
        | Some _ \<Rightarrow> bail (''reset credit '' @ snake @ '' must be a string or null''))"

definition nonempty_opt :: "string option \<Rightarrow> string option" where
  "nonempty_opt s = filter_opt (\<lambda>s. s \<noteq> []) s"

definition reset_credit_status :: "json_object \<Rightarrow> string option result" where
  "reset_credit_status obj =
     (case map_of obj ''status'' of
        None \<Rightarrow> Inr None
      | Some JNull \<Rightarrow> Inr None
      | Some (JString s) \<Rightarrow> Inr (Some (trim s))
      | Some _ \<Rightarrow> bail ''reset credit status must be a string or null'')"

definition reset_credit_id :: "json_object \<Rightarrow> string result" where
  "reset_credit_id obj =
     ok_or [''available reset credit id must be a non-empty string'']
       (nonempty_opt (map_option trim (Option.bind (map_of obj ''id'') as_str)))"

definition parse_reset_credit :: "json \<Rightarrow> reset_credit option result" where
  "parse_reset_credit value =
     and_then (ok_or [''each reset credit must be a JSON object''] (as_object value)) (\<lambda>obj.
     and_then (optional_reset_credit_string obj ''reset_type'' ''resetType'') (\<lambda>reset_type.
       if is_some_and (\<lambda>t. t \<noteq> ''codex_rate_limits'') reset_type then Inr None
       else and_then (reset_credit_status obj) (\<lambda>status.
         if is_some_and (\<lambda>s. s \<noteq> ''available'') status then Inr None
         else and_then (reset_credit_id obj) (\<lambda>credit_id.
           and_then (optional_reset_credit_string obj ''granted_at'' ''grantedAt'') (\<lambda>granted.
           and_then (optional_reset_credit_string obj ''expires_at'' ''expiresAt'') (\<lambda>expires.
             Inr (Some \<lparr>rc_id = credit_id, rc_granted_at = nonempty_opt granted,
                        rc_expires_at = nonempty_opt expires\<rparr>)))))))"

record reset_credits_summary =
  rs_available_count :: "u64 option"
  rs_credits :: "reset_credit list option"

definition merge_reset_credits :: "usage_info \<Rightarrow> reset_credits_summary \<Rightarrow> usage_info" where
  "merge_reset_credits u summary =
     (let u1 = (if rs_available_count summary \<noteq> None
                then u\<lparr>u_reset_credits_available_count := rs_available_count summary\<rparr> else u)
      in case rs_credits summary of
           Some credits \<Rightarrow> u1\<lparr>u_reset_credits := credits\<rparr>
         | None \<Rightarrow> if rs_available_count summary = Some 0 then u1\<lparr>u_reset_credits := []\<rparr> else u1)"

definition credit_at :: "nat \<times> json \<Rightarrow> reset_credit option result" where
  "credit_at item = (case item of (index, value) \<Rightarrow>
     with_context (''invalid reset credit at index '' @ show_nat index) (parse_reset_credit value))"

definition somes :: "'a option list \<Rightarrow> 'a list" where
  "somes xs = List.map_filter (\<lambda>x. x) xs"

definition credits_field :: "json_object \<Rightarrow> reset_credit list option result" where
  "credits_field obj =
     (case map_of obj ''credits'' of
        Some (JArray items) \<Rightarrow>
          map_ok (\<lambda>cs. Some (somes cs)) (collect_results credit_at (List.enumerate 0 items))
      | None \<Rightarrow> Inr None
      | Some JNull \<Rightarrow> Inr None
      | Some _ \<Rightarrow> bail ''reset credits credits field must be an array'')"

definition parse_reset_credits_summary :: "json \<Rightarrow> reset_credits_summary result" where
  "parse_reset_credits_summary body =
     and_then (ok_or [''reset credits summary must be a JSON object''] (as_object body)) (\<lambda>obj.
     and_then
       (either_key obj ''available_count'' ''availableCount''
         ''reset credits summary must not contain both available_count and availableCount'')
       (\<lambda>count_value. case count_value of
          None \<Rightarrow> bail ''reset credits summary missing available_count''
        | Some _ \<Rightarrow>
            and_then
              (ok_or [''reset credits available_count must be a non-negative integer or numeric string'']
                (parse_optional_u64 count_value)) (\<lambda>available_count.
            and_then (credits_field obj) (\<lambda>credits.
              Inr \<lparr>rs_available_count = Some available_count, rs_credits = credits\<rparr>))))"

definition parse_reset_credits_details :: "json \<Rightarrow> reset_credits_summary result" where
  "parse_reset_credits_details body =
     and_then (parse_reset_credits_summary body) (\<lambda>summary.
       if rs_credits summary = None
       then bail ''reset credits details response credits field must be an array''
       else Inr summary)"

section \<open>Expiry\<close>

datatype expiry = NoExpiry | ExpiresAt i64 | BadExpiry

definition reset_credit_expiry_timestamp :: "(string \<Rightarrow> i64 option) \<Rightarrow> reset_credit \<Rightarrow> expiry" where
  "reset_credit_expiry_timestamp rfc3339 credit =
     (case rc_expires_at credit of
        None \<Rightarrow> NoExpiry
      | Some s \<Rightarrow> (case rfc3339 s of Some t \<Rightarrow> ExpiresAt t | None \<Rightarrow> BadExpiry))"

definition reset_credit_expiry_sort_key :: "(string \<Rightarrow> i64 option) \<Rightarrow> reset_credit \<Rightarrow> i64" where
  "reset_credit_expiry_sort_key rfc3339 credit =
     (case reset_credit_expiry_timestamp rfc3339 credit of ExpiresAt t \<Rightarrow> t | _ \<Rightarrow> i64_max)"

definition earliest_reset_credit ::
  "(string \<Rightarrow> i64 option) \<Rightarrow> reset_credit list \<Rightarrow> reset_credit option" where
  "earliest_reset_credit rfc3339 credits =
     min_by_key (reset_credit_expiry_sort_key rfc3339) credits"

section \<open>The check before a card is spent\<close>

definition same_credit :: "reset_credit \<Rightarrow> reset_credit \<Rightarrow> bool" where
  "same_credit current confirmed \<longleftrightarrow>
     rc_id current = rc_id confirmed \<and> rc_granted_at current = rc_granted_at confirmed
       \<and> rc_expires_at current = rc_expires_at confirmed"

definition validate_reset_credit_preflight ::
  "string \<Rightarrow> usage_info \<Rightarrow> reset_credit \<Rightarrow> unit result" where
  "validate_reset_credit_preflight alias u confirmed =
     (case explicit_account_blocker u of
        Some blocker \<Rightarrow>
          bail (alias @ '': reset card cannot clear the account/workspace restriction (''
                @ wire_reason blocker @ ''); no reset card was requested'')
      | None \<Rightarrow>
          (case u_reset_credits_error u of
             Some error \<Rightarrow>
               bail (alias @ '': reset-card ownership could not be revalidated (''
                     @ error @ ''); no reset card was requested'')
           | None \<Rightarrow>
               if length (filter (\<lambda>c. same_credit c confirmed) (u_reset_credits u)) \<noteq> 1
               then bail (alias @ '': the exact reset card approved by the user changed or ''
                          @ ''disappeared; no reset card was requested'')
               else Inr ()))"

definition validate_consume_request ::
  "string \<Rightarrow> reset_credit \<Rightarrow> string \<Rightarrow> unit result" where
  "validate_consume_request alias credit lease_alias =
     (if blank (rc_id credit) then bail (alias @ '': reset card is missing its id'')
      else if lease_alias \<noteq> alias
      then bail (''reset-card use for '' @ quoted alias @ '' received profile lease for ''
                 @ quoted lease_alias)
      else Inr ())"

section \<open>Redemption\<close>

datatype consume_error = NotConsumed anyhow | OutcomeUnknown anyhow

fun definitely_not_consumed :: "consume_error \<Rightarrow> bool" where
  "definitely_not_consumed (NotConsumed _) = True"
| "definitely_not_consumed (OutcomeUnknown _) = False"

fun outcome_unknown_after_request :: "consume_error \<Rightarrow> bool" where
  "outcome_unknown_after_request (NotConsumed _) = False"
| "outcome_unknown_after_request (OutcomeUnknown _) = True"

definition user_facing_unknown_message :: "string \<Rightarrow> string" where
  "user_facing_unknown_message alias =
     alias @ '': reset-card consumption may have occurred; verify before retry''"

record consumed_reset_credit =
  cc_credit :: reset_credit
  cc_code :: "string option"
  cc_windows_reset :: "u64 option"
  cc_redeemed_at :: "string option"

definition parse_consumed_reset_credit :: "json \<Rightarrow> reset_credit \<Rightarrow> consumed_reset_credit result" where
  "parse_consumed_reset_credit body credit =
     and_then (ok_or [''reset credit consume response missing code'']
         (Option.bind (jget body ''code'') as_str)) (\<lambda>code.
       if code \<noteq> ''reset'' then bail (''reset credit was not consumed: '' @ code)
       else Inr \<lparr>cc_credit = credit, cc_code = Some code,
                 cc_windows_reset = parse_optional_u64 (jget body ''windows_reset''),
                 cc_redeemed_at =
                   Option.bind (Option.bind (jget body ''credit'') as_object) (\<lambda>obj.
                     Option.bind (or_else (map_of obj ''redeemed_at'') (map_of obj ''redeemedAt''))
                       as_str)\<rparr>)"

text \<open>The redemption identifier: sixteen random bytes with the version and variant bits set.\<close>

definition hex_digit :: "nat \<Rightarrow> char" where
  "hex_digit n = (if n < 10 then char_of (48 + n) else char_of (87 + n))"

definition hex_byte :: "8 word \<Rightarrow> string" where
  "hex_byte b = [hex_digit (unat b div 16), hex_digit (unat b mod 16)]"

definition slice :: "nat \<Rightarrow> nat \<Rightarrow> 'a list \<Rightarrow> 'a list" where
  "slice i j xs = take (j - i) (drop i xs)"

definition redeem_request_id :: "8 word list \<Rightarrow> string" where
  "redeem_request_id random =
     (let bytes6 = random[6 := or (and (random ! 6) 0x0f) 0x40];
          bytes = bytes6[8 := or (and (bytes6 ! 8) 0x3f) 0x80];
          value = concat (map hex_byte bytes)
      in slice 0 8 value @ ''-'' @ slice 8 12 value @ ''-'' @ slice 12 16 value @ ''-''
           @ slice 16 20 value @ ''-'' @ slice 20 32 value)"

text \<open>
  One attempt as the network answers it. A permit may be refused before anything is sent; an
  exchange ends without a response, or with a status and, for a success status, the outcome of
  reading the body as JSON.
\<close>

datatype exchange = NoResponse anyhow | Response nat "string + json"

record attempt_event =
  ev_permit :: "unit result"
  ev_exchange :: exchange

definition is_success :: "nat \<Rightarrow> bool" where "is_success s \<longleftrightarrow> 200 \<le> s \<and> s < 300"
definition is_client_error :: "nat \<Rightarrow> bool" where "is_client_error s \<longleftrightarrow> 400 \<le> s \<and> s < 500"
definition is_server_error :: "nat \<Rightarrow> bool" where "is_server_error s \<longleftrightarrow> 500 \<le> s \<and> s < 600"

text \<open>What a request carries, and how the loop ended.\<close>

record consume_request =
  rq_credit_id :: string
  rq_redeem_request_id :: string

datatype consume_end = Ended "consume_error + consumed_reset_credit" | RetryLoopFellThrough

text \<open>
  The body of the loop: it returns before the request goes out, returns after it, or
  continues. \<open>attempts_left\<close> is the source's test \<open>attempt + 1 < MAX_RETRIES\<close>.
\<close>

datatype attempt_result =
    ReturnUnsent consume_error
  | ReturnSent "consume_error + consumed_reset_credit"
  | ContinueSent

definition consume_attempt ::
  "(nat \<Rightarrow> string) \<Rightarrow> reset_credit \<Rightarrow> bool \<Rightarrow> bool \<Rightarrow> attempt_event \<Rightarrow> attempt_result" where
  "consume_attempt status_text credit attempts_left may_have_changed ev =
     (case ev_permit ev of
        Inl error \<Rightarrow>
          ReturnUnsent (if may_have_changed then OutcomeUnknown error else NotConsumed error)
      | Inr _ \<Rightarrow>
          (case ev_exchange ev of
             NoResponse error \<Rightarrow>
               if attempts_left then ContinueSent else ReturnSent (Inl (OutcomeUnknown error))
           | Response status body \<Rightarrow>
               if \<not> is_success status then
                 if (is_server_error status \<or> status = 429) \<and> attempts_left then ContinueSent
                 else
                   let error = [''reset credit consume request failed (HTTP ''
                                  @ status_text status @ '')'']
                   in if is_client_error status \<and> status \<noteq> 429 \<and> \<not> may_have_changed
                      then ReturnSent (Inl (NotConsumed error))
                      else ReturnSent (Inl (OutcomeUnknown error))
               else
                 (case body of
                    Inr json \<Rightarrow>
                      ReturnSent (map_err OutcomeUnknown (parse_consumed_reset_credit json credit))
                  | Inl error \<Rightarrow>
                      if attempts_left then ContinueSent
                      else ReturnSent (Inl (OutcomeUnknown
                             [''failed to parse reset credit consume response: '' @ error])))))"

definition request_of :: "reset_credit \<Rightarrow> string \<Rightarrow> consume_request" where
  "request_of credit rid = \<lparr>rq_credit_id = rc_id credit, rq_redeem_request_id = rid\<rparr>"

text \<open>
  The loop \<open>for attempt in 0..MAX_RETRIES\<close>, with the requests sent so far.
\<close>

function consume_from ::
  "(nat \<Rightarrow> string) \<Rightarrow> (nat \<Rightarrow> attempt_event) \<Rightarrow> reset_credit \<Rightarrow> string \<Rightarrow> nat \<Rightarrow> bool
     \<Rightarrow> consume_request list \<Rightarrow> consume_request list \<times> consume_end" where
  "consume_from status_text net credit rid attempt may_have_changed sent =
     (if max_retries \<le> attempt then (sent, RetryLoopFellThrough)
      else
        case consume_attempt status_text credit (attempt + 1 < max_retries) may_have_changed
               (net attempt) of
          ReturnUnsent error \<Rightarrow> (sent, Ended (Inl error))
        | ReturnSent r \<Rightarrow> (sent @ [request_of credit rid], Ended r)
        | ContinueSent \<Rightarrow>
            consume_from status_text net credit rid (attempt + 1) True
              (sent @ [request_of credit rid]))"
  by pat_completeness auto

termination consume_from
  by (relation "measure (\<lambda>(_, _, _, _, attempt, _, _). max_retries - attempt)") auto

declare consume_from.simps [simp del]

definition consume_reset_credit_at_url_with_network ::
  "(nat \<Rightarrow> string) \<Rightarrow> 8 word list \<Rightarrow> (nat \<Rightarrow> attempt_event) \<Rightarrow> reset_credit
     \<Rightarrow> consume_request list \<times> consume_end" where
  "consume_reset_credit_at_url_with_network status_text random net credit =
     consume_from status_text net credit (redeem_request_id random) 0 False []"

section \<open>What a redemption promises\<close>

text \<open>A request the service may have acted on: anything but a definite client rejection.\<close>

fun may_have_redeemed :: "exchange \<Rightarrow> bool" where
  "may_have_redeemed (NoResponse _) = True"
| "may_have_redeemed (Response status _) = (\<not> (is_client_error status \<and> status \<noteq> 429))"

lemma consumed_credit_Inr:
  "parse_consumed_reset_credit body credit = Inr c \<Longrightarrow>
     cc_credit c = credit \<and> cc_code c = Some ''reset''"
  by (auto simp: parse_consumed_reset_credit_def result_eq_Inr split: if_splits)

lemma map_err_Unknown [simp]: "map_err OutcomeUnknown r \<noteq> Inl (NotConsumed e)"
  by (cases r) simp_all

lemma attempt_unsent:
  "consume_attempt st credit left may ev = ReturnUnsent (NotConsumed e) \<Longrightarrow> \<not> may"
  by (auto simp: consume_attempt_def Let_def split: sum.splits exchange.splits if_splits)

lemma attempt_sent_not_consumed:
  "consume_attempt st credit left may ev = ReturnSent (Inl (NotConsumed e)) \<Longrightarrow>
     \<not> may \<and> \<not> may_have_redeemed (ev_exchange ev)"
  by (auto simp: consume_attempt_def Let_def split: sum.splits exchange.splits if_splits)

lemma attempt_sent_consumed:
  "consume_attempt st credit left may ev = ReturnSent (Inr c) \<Longrightarrow>
     cc_credit c = credit \<and> cc_code c = Some ''reset''
       \<and> (\<exists>s b. ev_exchange ev = Response s (Inr b) \<and> is_success s)"
  by (auto simp: consume_attempt_def Let_def result_eq_Inr consumed_credit_Inr
      split: sum.splits exchange.splits if_splits)

lemma attempt_continues:
  "consume_attempt st credit left may ev = ContinueSent \<Longrightarrow> left"
  by (auto simp: consume_attempt_def Let_def split: sum.splits exchange.splits if_splits)

definition redemption_ok ::
  "(nat \<Rightarrow> attempt_event) \<Rightarrow> reset_credit \<Rightarrow> nat \<Rightarrow> bool \<Rightarrow> nat \<Rightarrow> consume_end \<Rightarrow> bool" where
  "redemption_ok net credit attempt may n end' \<longleftrightarrow>
     (case end' of
        RetryLoopFellThrough \<Rightarrow> False
      | Ended (Inl (NotConsumed _)) \<Rightarrow>
          \<not> may \<and> (n = 0 \<or> n = 1 \<and> \<not> may_have_redeemed (ev_exchange (net attempt)))
      | Ended (Inl (OutcomeUnknown _)) \<Rightarrow> True
      | Ended (Inr c) \<Rightarrow>
          0 < n \<and> cc_credit c = credit \<and> cc_code c = Some ''reset''
            \<and> (\<exists>s b. ev_exchange (net (attempt + n - 1)) = Response s (Inr b) \<and> is_success s))"

lemma redemption_ok_later:
  "redemption_ok net credit (attempt + 1) True n end' \<Longrightarrow> redemption_ok net credit attempt may (n + 1) end'"
  by (auto simp: redemption_ok_def split: consume_end.splits sum.splits consume_error.splits)

lemma consume_from_ok:
  "attempt < max_retries \<Longrightarrow>
     \<exists>n end'. consume_from st net credit rid attempt may sent
         = (sent @ replicate n (request_of credit rid), end')
       \<and> attempt + n \<le> max_retries \<and> redemption_ok net credit attempt may n end'"
proof (induction st net credit rid attempt may sent rule: consume_from.induct)
  case (1 st net credit rid attempt may sent)
  note unfold = consume_from.simps [of st net credit rid attempt may sent]
  show ?case
  proof (cases "consume_attempt st credit (attempt + 1 < max_retries) may (net attempt)")
    case (ReturnUnsent e)
    with 1(2) have "consume_from st net credit rid attempt may sent
        = (sent @ replicate 0 (request_of credit rid), Ended (Inl e))"
      by (simp add: unfold)
    moreover have "redemption_ok net credit attempt may 0 (Ended (Inl e))"
      using ReturnUnsent
      by (auto simp: redemption_ok_def split: consume_error.splits dest: attempt_unsent)
    ultimately show ?thesis using 1(2) by (intro exI conjI) auto
  next
    case (ReturnSent r)
    with 1(2) have "consume_from st net credit rid attempt may sent
        = (sent @ replicate 1 (request_of credit rid), Ended r)"
      by (simp add: unfold)
    moreover have "redemption_ok net credit attempt may 1 (Ended r)"
      using ReturnSent
      by (auto simp: redemption_ok_def split: consume_error.splits sum.splits
          dest: attempt_sent_not_consumed attempt_sent_consumed)
    ultimately show ?thesis using 1(2) by (intro exI conjI) auto
  next
    case ContinueSent
    then have next_attempt: "attempt + 1 < max_retries" by (rule attempt_continues)
    with 1(1) [OF _ ContinueSent] 1(2) obtain n end' where
      "consume_from st net credit rid (attempt + 1) True (sent @ [request_of credit rid])
        = ((sent @ [request_of credit rid]) @ replicate n (request_of credit rid), end')"
      "attempt + 1 + n \<le> max_retries" "redemption_ok net credit (attempt + 1) True n end'"
      by auto
    then show ?thesis
      using ContinueSent 1(2) redemption_ok_later
      by (intro exI [of _ "n + 1"] exI [of _ end'])
        (simp add: unfold replicate_app_Cons_same)
  qed
qed

lemma consume_run:
  obtains n end' where
    "consume_reset_credit_at_url_with_network st random net credit
       = (replicate n (request_of credit (redeem_request_id random)), end')"
    "n \<le> max_retries" "redemption_ok net credit 0 False n end'"
  using consume_from_ok [of 0 st net credit "redeem_request_id random" False "[]"]
  by (auto simp: consume_reset_credit_at_url_with_network_def max_retries_def)

text \<open>
  C19. The verdict that a card was certainly not redeemed is true. When the redemption ends with
  \<open>DefinitelyNotConsumed\<close>, every request that went out was answered with a definite client
  rejection (a 4xx other than 429), so no request the service may have acted on, such as a
  timeout, a 5xx, a 429 or an unreadable success, was ever sent.
\<close>

theorem not_consumed_is_certain:
  assumes "consume_reset_credit_at_url_with_network st random net credit
             = (sent, Ended (Inl (NotConsumed e)))"
  shows "list_all (\<lambda>i. \<not> may_have_redeemed (ev_exchange (net i))) [0..<length sent]"
proof -
  obtain n end' where run: "consume_reset_credit_at_url_with_network st random net credit
       = (replicate n (request_of credit (redeem_request_id random)), end')"
    and ok: "redemption_ok net credit 0 False n end'"
    by (rule consume_run)
  with assms have "n = length sent" "end' = Ended (Inl (NotConsumed e))" by auto
  with ok show ?thesis by (auto simp: redemption_ok_def)
qed

definition demo_net :: "attempt_event list \<Rightarrow> nat \<Rightarrow> attempt_event" where
  "demo_net evs i = evs ! i"

definition demo_credit :: reset_credit where
  "demo_credit = \<lparr>rc_id = ''card'', rc_granted_at = None, rc_expires_at = None\<rparr>"

lemma not_consumed_is_certain_witness:
  "list_all (\<lambda>i. \<not> may_have_redeemed (ev_exchange
       (demo_net [\<lparr>ev_permit = Inr (), ev_exchange = Response 404 (Inl [])\<rparr>] i))) [0..<1]"
  using not_consumed_is_certain [of "\<lambda>s. show_nat s" "replicate 16 0"
      "demo_net [\<lparr>ev_permit = Inr (), ev_exchange = Response 404 (Inl [])\<rparr>]" demo_credit
      "[request_of demo_credit (redeem_request_id (replicate 16 0))]"
      "[''reset credit consume request failed (HTTP 404)'']"]
  by (simp add: consume_reset_credit_at_url_with_network_def consume_from.simps [of _ _ _ _ 0]
      consume_attempt_def demo_net_def is_success_def is_server_error_def is_client_error_def
      max_retries_def show_nat.simps digit_char_def)

text \<open>
  C27. One user action is one logical redemption: whatever the network does, the loop returns
  after at most three requests, and all of them name the card the user confirmed and carry the
  same redemption identifier, so a retry after an ambiguous failure cannot spend a second card.
\<close>

theorem one_logical_redemption:
  "let run = consume_reset_credit_at_url_with_network st random net credit in
     snd run \<noteq> RetryLoopFellThrough \<and> length (fst run) \<le> 3
     \<and> set (fst run) \<subseteq> {\<lparr>rq_credit_id = rc_id credit,
                             rq_redeem_request_id = redeem_request_id random\<rparr>}"
proof -
  obtain n end' where "consume_reset_credit_at_url_with_network st random net credit
       = (replicate n (request_of credit (redeem_request_id random)), end')"
    "n \<le> max_retries" "redemption_ok net credit 0 False n end'"
    by (rule consume_run)
  then show ?thesis by (auto simp: redemption_ok_def request_of_def max_retries_def)
qed

text \<open>
  A redemption reported as done was done by the service: the answer is the card the user
  confirmed, with the code \<open>reset\<close>, and the last request was answered with a success status and
  a readable body. An earlier attempt's ambiguity is never reported as success.
\<close>

theorem consumed_is_confirmed:
  assumes "consume_reset_credit_at_url_with_network st random net credit = (sent, Ended (Inr c))"
  shows "cc_credit c = credit \<and> cc_code c = Some ''reset'' \<and> sent \<noteq> []
     \<and> (\<exists>s b. ev_exchange (net (length sent - 1)) = Response s (Inr b) \<and> is_success s)"
proof -
  obtain n end' where "consume_reset_credit_at_url_with_network st random net credit
       = (replicate n (request_of credit (redeem_request_id random)), end')"
    and ok: "redemption_ok net credit 0 False n end'"
    by (rule consume_run)
  with assms have "n = length sent" "end' = Ended (Inr c)" by auto
  with ok show ?thesis by (auto simp: redemption_ok_def)
qed

lemma consumed_is_confirmed_witness:
  "let ok = JObject [(''code'', JString ''reset'')];
       net = demo_net [\<lparr>ev_permit = Inr (), ev_exchange = NoResponse [''timeout'']\<rparr>,
                       \<lparr>ev_permit = Inr (), ev_exchange = Response 200 (Inr ok)\<rparr>];
       sent = replicate 2 (request_of demo_credit (redeem_request_id (replicate 16 0)));
       c = \<lparr>cc_credit = demo_credit, cc_code = Some ''reset'', cc_windows_reset = None,
            cc_redeemed_at = None\<rparr>
   in cc_credit c = demo_credit \<and> cc_code c = Some ''reset'' \<and> sent \<noteq> []
      \<and> (\<exists>s b. ev_exchange (net (length sent - 1)) = Response s (Inr b) \<and> is_success s)"
  unfolding Let_def
  by (rule consumed_is_confirmed [of "\<lambda>s. show_nat s" "replicate 16 0"])
    (simp add: consume_reset_credit_at_url_with_network_def consume_from.simps [of _ _ _ _ 0]
      consume_from.simps [of _ _ _ _ "Suc 0"] numeral_2_eq_2 parse_consumed_reset_credit_def
      as_str_def jget_def parse_optional_u64_def consume_attempt_def demo_net_def is_success_def
      max_retries_def)

section \<open>The redemption identifier\<close>

lemma unat_byte: "unat (b :: 8 word) < 256"
proof -
  have "unat b < 2 ^ LENGTH(8)" by (rule unsigned_less)
  then show ?thesis by simp
qed

lemma byte_cases:
  fixes b :: "8 word"
  assumes "list_all (\<lambda>n. P (word_of_nat n :: 8 word)) [0..<256]"
  shows "P b"
proof -
  have "unat b < 256" by (rule unat_byte)
  moreover from assms have "\<forall>n\<in>set [0..<256]. P (word_of_nat n)" unfolding list_all_iff .
  ultimately have "P (word_of_nat (unat b))" by (metis atLeastLessThan_iff le0 set_upt)
  then show ?thesis by simp
qed

lemma version_nibble: "unat (or (and b 0x0f) 0x40 :: 8 word) div 16 = 4"
  by (rule byte_cases [of _ b]) code_simp

lemma variant_nibble: "unat (or (and b 0x3f) 0x80 :: 8 word) div 16 \<in> {8, 9, 10, 11}"
  by (rule byte_cases [of _ b]) code_simp

lemma hex_digit_ok: "n < 16 \<Longrightarrow> hex_digit n \<in> set ''0123456789abcdef''"
proof -
  have "list_all (\<lambda>n. hex_digit n \<in> set ''0123456789abcdef'') [0..<16]" by code_simp
  then show "n < 16 \<Longrightarrow> hex_digit n \<in> set ''0123456789abcdef''" by (simp add: list_all_iff)
qed

lemma hex_byte_ok: "set (hex_byte b) \<subseteq> set ''0123456789abcdef''"
proof -
  have "unat b < 256" by (rule unat_byte)
  then have "unat b div 16 < 16" by simp
  then show ?thesis
    using hex_digit_ok [of "unat b div 16"] hex_digit_ok [of "unat b mod 16"]
    unfolding hex_byte_def by (simp only: list.set insert_subset) simp
qed

lemma concat_hex_length: "length (concat (map hex_byte bs)) = 2 * length bs"
  by (induction bs) (simp_all add: hex_byte_def)

lemma concat_hex_nth:
  "i < length bs \<Longrightarrow> concat (map hex_byte bs) ! (2 * i) = hex_digit (unat (bs ! i) div 16)"
  by (induction bs arbitrary: i)
    (auto simp: hex_byte_def nth_Cons less_Suc_eq_0_disj split: nat.splits)

lemma concat_hex_set: "set (concat (map hex_byte bs)) \<subseteq> set ''0123456789abcdef''"
  using hex_byte_ok by fastforce

lemma uuid_layout:
  assumes v: "length v = 32" "set v \<subseteq> set ''0123456789abcdef''"
    and rid: "rid = slice 0 8 v @ ''-'' @ slice 8 12 v @ ''-'' @ slice 12 16 v @ ''-''
       @ slice 16 20 v @ ''-'' @ slice 20 32 v"
  shows "length rid = 36"
    and "list_all (\<lambda>i. (rid ! i = CHR ''-'') = (i \<in> {8, 13, 18, 23})) [0..<36]"
    and "set rid \<subseteq> set ''-0123456789abcdef''"
    and "rid ! 14 = v ! 12" "rid ! 19 = v ! 16"
proof -
  have [simp]: "length (slice i j v) = j - i" if "i \<le> j" "j \<le> 32" for i j
    using that v(1) by (simp add: slice_def)
  have [simp]: "slice i j v ! k = v ! (i + k)" if "k < j - i" "j \<le> 32" for i j k
    using that v(1) by (simp add: slice_def)
  have hex: "v ! k \<noteq> CHR ''-''" if "k < 32" for k
  proof -
    have "v ! k \<in> set v" using that v(1) by simp
    then have "v ! k \<in> set ''0123456789abcdef''" by (rule subsetD [OF v(2)])
    then show ?thesis by auto
  qed
  show "length rid = 36" by (simp add: rid)
  show "list_all (\<lambda>i. (rid ! i = CHR ''-'') = (i \<in> {8, 13, 18, 23})) [0..<36]"
    unfolding list_all_iff rid by (auto simp: nth_append nth_Cons' hex)
  have "set (slice i j v) \<subseteq> set v" for i j
    by (auto simp: slice_def dest: in_set_takeD in_set_dropD)
  then have "set (slice i j v) \<subseteq> set ''0123456789abcdef''" for i j
    using v(2) by blast
  then show "set rid \<subseteq> set ''-0123456789abcdef''" unfolding rid by (simp add: subset_iff)
  show "rid ! 14 = v ! 12" "rid ! 19 = v ! 16" by (simp_all add: rid nth_append)
qed

text \<open>
  The redemption identifier is a version 4 UUID for every sixteen random bytes: thirty-six
  characters in five groups, lower-case hexadecimal apart from the dashes, with the version
  digit 4 and a variant digit of 8, 9, a or b.
\<close>

theorem redeem_request_id_shape:
  assumes "length random = 16"
  shows "length (redeem_request_id random) = 36
     \<and> list_all (\<lambda>i. (redeem_request_id random ! i = CHR ''-'') = (i \<in> {8, 13, 18, 23})) [0..<36]
     \<and> set (redeem_request_id random) \<subseteq> set ''-0123456789abcdef''
     \<and> redeem_request_id random ! 14 = CHR ''4''
     \<and> redeem_request_id random ! 19 \<in> set ''89ab''"
proof -
  define bytes6 where "bytes6 = random[6 := or (and (random ! 6) 0x0f) 0x40]"
  define bytes where "bytes = bytes6[8 := or (and (bytes6 ! 8) 0x3f) 0x80]"
  define v where "v = concat (map hex_byte bytes)"
  have len: "length bytes = 16" by (simp add: bytes_def bytes6_def assms)
  have v: "length v = 32" "set v \<subseteq> set ''0123456789abcdef''"
    using len concat_hex_set unfolding v_def by (simp add: concat_hex_length, blast)
  have rid: "redeem_request_id random = slice 0 8 v @ ''-'' @ slice 8 12 v @ ''-'' @ slice 12 16 v
      @ ''-'' @ slice 16 20 v @ ''-'' @ slice 20 32 v"
    by (simp only: redeem_request_id_def Let_def bytes6_def bytes_def v_def)
  have "v ! 12 = hex_digit (unat (bytes ! 6) div 16)" "v ! 16 = hex_digit (unat (bytes ! 8) div 16)"
    using concat_hex_nth [of 6 bytes] concat_hex_nth [of 8 bytes] len by (simp_all add: v_def)
  moreover have "unat (bytes ! 6) div 16 = 4"
    using version_nibble [of "random ! 6"] assms by (simp add: bytes_def bytes6_def)
  moreover have "unat (bytes ! 8) div 16 \<in> {8, 9, 10, 11}"
    using variant_nibble [of "bytes6 ! 8"] assms by (simp add: bytes_def bytes6_def)
  moreover have "hex_digit 4 = CHR ''4''" "hex_digit 8 = CHR ''8''" "hex_digit 9 = CHR ''9''"
    "hex_digit 10 = CHR ''a''" "hex_digit 11 = CHR ''b''" by code_simp+
  ultimately have "v ! 12 = CHR ''4''" "v ! 16 \<in> set ''89ab''" by auto
  then show ?thesis using uuid_layout [OF v rid] by simp
qed

lemma redeem_request_id_shape_witness:
  "redeem_request_id (replicate 16 0) ! 14 = CHR ''4''"
  using redeem_request_id_shape [of "replicate 16 0"] by simp

section \<open>Parsed cards\<close>

lemma parse_reset_credit_id:
  "parse_reset_credit value = Inr (Some c) \<Longrightarrow> \<exists>s. rc_id c = trim s \<and> trim s \<noteq> []"
  by (auto simp: parse_reset_credit_def reset_credit_id_def nonempty_opt_def result_eq_Inr
      bind_eq_Some_conv split: if_splits)

lemma credits_field_ids:
  "credits_field obj = Inr (Some cs) \<Longrightarrow> c \<in> set cs \<Longrightarrow> \<exists>s. rc_id c = trim s \<and> trim s \<noteq> []"
proof -
  assume cs: "credits_field obj = Inr (Some cs)" and c: "c \<in> set cs"
  from cs obtain items rs where "collect_results credit_at (List.enumerate 0 items) = Inr rs"
    and rs: "cs = somes rs"
    by (auto simp: credits_field_def result_eq_Inr split: option.splits json.splits)
  then have all: "list_all2 (\<lambda>x y. credit_at x = Inr y) (List.enumerate 0 items) rs"
    by (simp add: collect_results_eq_Inr)
  from c rs have "Some c \<in> set rs" by (auto simp: somes_def List.map_filter_def)
  then obtain i where i: "i < length rs" "rs ! i = Some c" by (auto simp: in_set_conv_nth)
  then have "credit_at (List.enumerate 0 items ! i) = Inr (Some c)"
    using list_all2_nthD2 [OF all, of i] by simp
  then show ?thesis
    by (auto simp: credit_at_def with_context_eq_Inr split: prod.splits dest: parse_reset_credit_id)
qed

lemma parsed_summary:
  "parse_reset_credits_summary body = Inr summary \<Longrightarrow>
     \<exists>n. rs_available_count summary = Some n
       \<and> (\<exists>obj. body = JObject obj \<and> credits_field obj = Inr (rs_credits summary))"
  by (auto simp: parse_reset_credits_summary_def result_eq_Inr split: option.splits)

lemma trim_trim [simp]: "trim (trim s) = trim s"
proof (cases "trim s = []")
  case False
  from trim_ends [OF this] False have "dropWhile is_whitespace (trim s) = trim s"
    by (cases "trim s") simp_all
  moreover have "dropWhile is_whitespace (rev (trim s)) = rev (trim s)"
    using trim_ends [OF False] False by (cases "trim s" rule: rev_cases) simp_all
  ultimately show ?thesis unfolding trim_def [of "trim s"] by simp
qed simp

text \<open>
  Every card the parser lets through can be redeemed and checked again: over an accepted
  summary the count is known, every listed card has a trimmed, non-empty identifier, so that
  the request validation of the redemption accepts it under its own profile lease.
\<close>

theorem parsed_cards_redeemable:
  assumes "parse_reset_credits_details body = Inr summary"
  shows "rs_available_count summary \<noteq> None \<and> rs_credits summary \<noteq> None
     \<and> list_all (\<lambda>c. rc_id c \<noteq> [] \<and> trim (rc_id c) = rc_id c
          \<and> validate_consume_request alias c alias = Inr ()) (the (rs_credits summary))"
proof -
  from assms have summary: "parse_reset_credits_summary body = Inr summary"
    and credits: "rs_credits summary \<noteq> None"
    by (auto simp: parse_reset_credits_details_def result_eq_Inr split: if_splits)
  from parsed_summary [OF summary] credits obtain n obj cs where
    "rs_available_count summary = Some n" and cs: "rs_credits summary = Some cs"
    and field: "credits_field obj = Inr (Some cs)" by auto
  have "rc_id c \<noteq> [] \<and> trim (rc_id c) = rc_id c \<and> validate_consume_request alias c alias = Inr ()"
    if "c \<in> set cs" for c
    using credits_field_ids [OF field that] by (auto simp: validate_consume_request_def blank_def)
  then show ?thesis using \<open>rs_available_count summary = Some n\<close> cs by (simp add: list_all_iff)
qed

definition demo_details :: json where
  "demo_details = JObject [(''availableCount'', JString '' 2 ''),
     (''credits'', JArray [JObject [(''id'', JString '' card ''), (''status'', JString ''available'')],
                           JObject [(''id'', JString ''x''), (''status'', JString ''used'')]])]"

lemma demo_details_parsed:
  "parse_reset_credits_details demo_details
     = Inr \<lparr>rs_available_count = Some 2, rs_credits = Some [demo_credit]\<rparr>"
  by (simp add: demo_details_def demo_credit_def parse_reset_credits_details_def somes_def
      parse_reset_credits_summary_def as_object_def either_key_def parse_optional_u64_def trim_def
      is_whitespace_def parse_u64_def digit_value_def u64_max_def credits_field_def credit_at_def
      parse_reset_credit_def optional_reset_credit_string_def reset_credit_status_def
      reset_credit_id_def nonempty_opt_def as_str_def List.map_filter_def)

lemma parsed_cards_redeemable_witness:
  "let summary = \<lparr>rs_available_count = Some 2, rs_credits = Some [demo_credit]\<rparr> in
     rs_available_count summary \<noteq> None \<and> rs_credits summary \<noteq> None
     \<and> list_all (\<lambda>c. rc_id c \<noteq> [] \<and> trim (rc_id c) = rc_id c
          \<and> validate_consume_request ''a'' c ''a'' = Inr ()) (the (rs_credits summary))"
  unfolding Let_def by (rule parsed_cards_redeemable [OF demo_details_parsed])

text \<open>
  The check before a card is spent binds consent to the exact card: when the service's fresh
  card list is merged and the check passes, no explicit account blocker is in force and exactly
  one listed card has the confirmed identifier, grant time and expiry. A card that has
  disappeared, changed or been duplicated stops the redemption.
\<close>

theorem preflight_binds_card:
  assumes "parse_reset_credits_details body = Inr summary"
    and "validate_reset_credit_preflight alias (merge_reset_credits u summary) confirmed = Inr ()"
  shows "explicit_account_blocker u = None
     \<and> length (filter (\<lambda>c. c = confirmed) (the (rs_credits summary))) = 1"
proof -
  from assms(1) obtain cs where cs: "rs_credits summary = Some cs"
    by (auto simp: parse_reset_credits_details_def result_eq_Inr split: if_splits)
  have same: "same_credit c confirmed \<longleftrightarrow> c = confirmed" for c
    by (cases c; cases confirmed) (auto simp: same_credit_def)
  have blocker: "explicit_account_blocker (merge_reset_credits u summary) = explicit_account_blocker u"
    by (simp add: merge_reset_credits_def explicit_account_blocker_def Let_def cs)
  have "u_reset_credits (merge_reset_credits u summary) = cs"
    by (simp add: merge_reset_credits_def Let_def cs)
  with assms(2) blocker show ?thesis
    by (auto simp: validate_reset_credit_preflight_def same cs bail_def
        split: option.splits if_splits)
qed

lemma preflight_binds_card_witness:
  "explicit_account_blocker default_usage = None
     \<and> length (filter (\<lambda>c. c = demo_credit) (the (rs_credits
          \<lparr>rs_available_count = Some 2, rs_credits = Some [demo_credit]\<rparr>))) = 1"
  by (rule preflight_binds_card [OF demo_details_parsed, of "''a''"])
    (simp add: validate_reset_credit_preflight_def merge_reset_credits_def same_credit_def
      explicit_account_blocker_def blocker_of_reason_def default_usage_def)

text \<open>
  The card offered first is the one that expires first: the choice is a listed card, no
  listed card expires earlier, cards whose expiry is missing or unreadable are chosen only when
  every card is such (or expires at the end of time), and among equals the first listed wins.
\<close>

theorem earliest_card:
  assumes "earliest_reset_credit rfc3339 credits = Some c"
  shows "\<exists>before after. credits = before @ c # after
     \<and> list_all (\<lambda>d. reset_credit_expiry_sort_key rfc3339 c < reset_credit_expiry_sort_key rfc3339 d) before
     \<and> list_all (\<lambda>d. reset_credit_expiry_sort_key rfc3339 c \<le> reset_credit_expiry_sort_key rfc3339 d) after
     \<and> list_all (\<lambda>d. \<forall>t. reset_credit_expiry_timestamp rfc3339 d = ExpiresAt t \<longrightarrow> t < i64_max \<longrightarrow>
          (\<exists>t'. reset_credit_expiry_timestamp rfc3339 c = ExpiresAt t' \<and> t' \<le> t)) credits"
proof -
  let ?k = "reset_credit_expiry_sort_key rfc3339"
  from assms have m: "min_by_key ?k credits = Some c" by (simp add: earliest_reset_credit_def)
  obtain before after where split: "credits = before @ c # after" "\<forall>d\<in>set before. ?k c < ?k d"
    using min_by_key_first [OF m] by blast
  have least: "\<forall>d\<in>set credits. ?k c \<le> ?k d" using min_by_key_Some [OF m] by blast
  have "\<exists>t'. reset_credit_expiry_timestamp rfc3339 c = ExpiresAt t' \<and> t' \<le> t"
    if "d \<in> set credits" "reset_credit_expiry_timestamp rfc3339 d = ExpiresAt t" "t < i64_max" for d t
    using least that by (force simp: reset_credit_expiry_sort_key_def split: expiry.splits)
  with split least show ?thesis by (auto simp: list_all_iff)
qed

lemma earliest_card_witness:
  "\<exists>before after. [demo_credit, demo_credit\<lparr>rc_expires_at := Some ''x''\<rparr>]
       = before @ demo_credit\<lparr>rc_expires_at := Some ''x''\<rparr> # after
     \<and> list_all (\<lambda>d. reset_credit_expiry_sort_key (\<lambda>_. Some 7) (demo_credit\<lparr>rc_expires_at := Some ''x''\<rparr>)
          < reset_credit_expiry_sort_key (\<lambda>_. Some 7) d) before
     \<and> list_all (\<lambda>d. reset_credit_expiry_sort_key (\<lambda>_. Some 7) (demo_credit\<lparr>rc_expires_at := Some ''x''\<rparr>)
          \<le> reset_credit_expiry_sort_key (\<lambda>_. Some 7) d) after
     \<and> list_all (\<lambda>d. \<forall>t. reset_credit_expiry_timestamp (\<lambda>_. Some 7) d = ExpiresAt t \<longrightarrow> t < i64_max \<longrightarrow>
          (\<exists>t'. reset_credit_expiry_timestamp (\<lambda>_. Some 7) (demo_credit\<lparr>rc_expires_at := Some ''x''\<rparr>)
                 = ExpiresAt t' \<and> t' \<le> t))
        [demo_credit, demo_credit\<lparr>rc_expires_at := Some ''x''\<rparr>]"
  by (rule earliest_card)
    (simp add: earliest_reset_credit_def reset_credit_expiry_sort_key_def
      reset_credit_expiry_timestamp_def demo_credit_def int_bounds)

end
