(* ===== verification/Reset_Enrichment.thy ===== *)
theory Reset_Enrichment
  imports Reset_Credits
begin

text \<open>
  The reset-card lookup of the terminal interface (\<open>src/src/usage/reset_credits.rs\<close>): the
  request prepared under a profile lease, the lookup itself, and the single credential rotation
  it may make when the access token is about to expire or the endpoint rejects it. Every use of
  a credential is recorded as an effect, so that what is sent, and in which order, can be stated.
\<close>

section \<open>Errors\<close>

datatype credit_error =
    AccessRejected nat anyhow
  | LimiterClosed
  | TerminalAuth string anyhow
  | RefreshUnknown anyhow
  | OtherError anyhow

fun error_chain :: "credit_error \<Rightarrow> anyhow" where
  "error_chain (AccessRejected _ e) = e"
| "error_chain LimiterClosed = [''network limiter closed'']"
| "error_chain (TerminalAuth _ e) = e"
| "error_chain (RefreshUnknown e) = e"
| "error_chain (OtherError e) = e"

text \<open>The rest of a text from the first occurrence of a pattern.\<close>

fun find_from :: "string \<Rightarrow> string \<Rightarrow> string option" where
  "find_from pat [] = (if pat = [] then Some [] else None)"
| "find_from pat (c # cs) = (if prefix pat (c # cs) then Some (c # cs) else find_from pat cs)"

definition first_line :: "string \<Rightarrow> string" where
  "first_line s =
     (let l = takeWhile (\<lambda>c. c \<noteq> CHR 0x0A) s
      in if length l < length s \<and> l \<noteq> [] \<and> last l = CHR 0x0D then butlast l else l)"

definition extract_error_summary :: "string \<Rightarrow> string" where
  "extract_error_summary err =
     (case find_from ''HTTP '' err of
        Some rest \<Rightarrow> takeWhile (\<lambda>c. c \<noteq> CHR '','' \<and> c \<noteq> CHR '')'') rest
      | None \<Rightarrow>
          let line = first_line err
          in if 60 < length line then take 60 line @ ''...'' else line)"

definition in_brackets :: "string \<Rightarrow> string" where
  "in_brackets alias = ''['' @ alias @ '']''"

definition terminal_summary :: "string \<Rightarrow> string" where
  "terminal_summary code = ''re-login required ('' @ code @ '')''"

definition refresh_outcome_unknown :: "string \<Rightarrow> anyhow \<Rightarrow> usage_error" where
  "refresh_outcome_unknown alias cause =
     \<lparr>ue_summary = ''token refresh outcome unknown'',
      ue_detail = in_brackets alias @ '' '' @ show_chain cause
        @ ''. The refresh request may have reached the server, so whether its single-use token ''
        @ ''was consumed or rotated cannot be confirmed. The existing profile and live Codex ''
        @ ''auth were left unchanged; do not retry this credential before inspecting it, and ''
        @ ''sign in again if necessary.''\<rparr>"

definition refresh_authorization_failed :: "string \<Rightarrow> anyhow \<Rightarrow> usage_error" where
  "refresh_authorization_failed alias cause =
     \<lparr>ue_summary = ''token refresh not started'',
      ue_detail = in_brackets alias
        @ '' token refresh was not started because the exact live-auth state could ''
        @ ''not be authorized for a safe conditional update: '' @ show_chain cause
        @ ''. No credential was sent to the refresh endpoint.''\<rparr>"

definition reset_credit_usage_error :: "string \<Rightarrow> credit_error \<Rightarrow> usage_error" where
  "reset_credit_usage_error alias error =
     (let detail = in_brackets alias @ '' '' @ show_chain (error_chain error) in
      case error of
        LimiterClosed \<Rightarrow>
          \<lparr>ue_summary = ''usage limiter closed'',
           ue_detail = in_brackets alias @ '' reset-card request could not reserve network capacity''\<rparr>
      | TerminalAuth code _ \<Rightarrow> \<lparr>ue_summary = terminal_summary code, ue_detail = detail\<rparr>
      | RefreshUnknown e \<Rightarrow> refresh_outcome_unknown alias e
      | _ \<Rightarrow> \<lparr>ue_summary = extract_error_summary detail, ue_detail = detail\<rparr>)"

definition memorable_auth_codes :: "string list" where
  "memorable_auth_codes = [''refresh_token_reused'', ''refresh_token_invalidated'']"

definition is_memorable_auth_verdict :: "string \<Rightarrow> bool" where
  "is_memorable_auth_verdict code \<longleftrightarrow> code \<in> set memorable_auth_codes"

section \<open>Effects and the outside world\<close>

text \<open>
  A rotation as the world answers it: whether the live state could be authorised, what the
  refresh endpoint said, and what became of the new credentials when they were saved.
\<close>

record rotation_event =
  re_authorize :: "unit result"
  re_refresh :: "credit_error + unit"
  re_persist :: "usage_error + string"

datatype credential_effect =
    PresentedRefresh string
  | RememberedVerdict string string
  | FetchedWith string

record lookup_event =
  le_permit :: "credit_error + unit"
  le_exchange :: exchange

section \<open>Lookup and rotation\<close>

definition fetch_reset_credits ::
  "(nat \<Rightarrow> string) \<Rightarrow> lookup_event \<Rightarrow> string
     \<Rightarrow> credential_effect list \<times> (credit_error + reset_credits_summary)" where
  "fetch_reset_credits status_text ev access_token =
     (case le_permit ev of
        Inl e \<Rightarrow> ([], Inl e)
      | Inr _ \<Rightarrow>
          ([FetchedWith access_token],
           case le_exchange ev of
             NoResponse e \<Rightarrow> Inl (OtherError e)
           | Response status body \<Rightarrow>
               let failed = [''reset credits request failed (HTTP '' @ status_text status @ '')''] in
               if is_success status then
                 (case body of
                    Inl e \<Rightarrow> Inl (OtherError [''failed to parse reset credits response: '' @ e])
                  | Inr json \<Rightarrow>
                      map_err OtherError
                        (with_context
                          ''reset credits response does not match the expected details shape''
                          (parse_reset_credits_details json)))
               else if status = 401 \<or> status = 403 then Inl (AccessRejected status failed)
               else Inl (OtherError failed)))"

definition enrich_reset_credits_checked ::
  "(nat \<Rightarrow> string) \<Rightarrow> lookup_event \<Rightarrow> string \<Rightarrow> usage_info
     \<Rightarrow> credential_effect list \<times> (credit_error + usage_info)" where
  "enrich_reset_credits_checked status_text ev access_token u =
     (case fetch_reset_credits status_text ev access_token of (effects, r) \<Rightarrow>
        (effects,
         map_ok (\<lambda>summary. (merge_reset_credits u summary)\<lparr>u_reset_credits_error := None\<rparr>) r))"

text \<open>The inline variant never fails: the error is recorded on the sample.\<close>

definition enrich_reset_credits ::
  "(nat \<Rightarrow> string) \<Rightarrow> lookup_event \<Rightarrow> string \<Rightarrow> usage_info \<Rightarrow> usage_info" where
  "enrich_reset_credits status_text ev access_token u =
     (case snd (enrich_reset_credits_checked status_text ev access_token u) of
        Inr u' \<Rightarrow> u'\<lparr>u_reset_credits_error := None\<rparr>
      | Inl err \<Rightarrow>
          u\<lparr>u_reset_credits_error := Some (extract_error_summary (hd (error_chain err)))\<rparr>)"

definition remember_terminal_verdict :: "string \<Rightarrow> string \<Rightarrow> credential_effect list" where
  "remember_terminal_verdict code refresh_token =
     (if is_memorable_auth_verdict code then [RememberedVerdict code refresh_token] else [])"

definition rotate_reset_credit_credentials ::
  "string \<Rightarrow> rotation_event \<Rightarrow> string \<Rightarrow> credential_effect list \<times> (usage_error + string)" where
  "rotate_reset_credit_credentials alias ev refresh_token =
     (case re_authorize ev of
        Inl e \<Rightarrow> ([], Inl (refresh_authorization_failed alias e))
      | Inr _ \<Rightarrow>
          (case re_refresh ev of
             Inl error \<Rightarrow>
               (PresentedRefresh refresh_token #
                  (case error of
                     TerminalAuth code _ \<Rightarrow> remember_terminal_verdict code refresh_token
                   | _ \<Rightarrow> []),
                Inl (reset_credit_usage_error alias error))
           | Inr _ \<Rightarrow> ([PresentedRefresh refresh_token], re_persist ev)))"

section \<open>Preparation\<close>

record prepared_enrichment =
  pe_alias :: string
  pe_account_id :: "string option"
  pe_is_fedramp :: bool
  pe_id_token :: "string option"
  pe_access_token :: string
  pe_refresh_token :: "string option"
  pe_known_refresh_verdict :: "usage_error option"
  pe_needs_proactive_rotation :: bool

definition extract_tokens :: "json \<Rightarrow> string option \<times> string option" where
  "extract_tokens v =
     (Option.bind (pointer v [''tokens'', ''access_token'']) as_str,
      Option.bind (pointer v [''tokens'', ''refresh_token'']) as_str)"

definition extract_id_token :: "json \<Rightarrow> string option" where
  "extract_id_token v = Option.bind (pointer v [''tokens'', ''id_token'']) as_str"

definition usage_err :: "string \<Rightarrow> string \<Rightarrow> usage_error + 'a" where
  "usage_err summary detail = Inl \<lparr>ue_summary = summary, ue_detail = detail\<rparr>"

text \<open>What preparation reads: the profile's auth file, the endpoint policy, the clock and the
  verdict cache; \<open>b64\<close> and \<open>from_json\<close> decode a token's payload.\<close>

record preparation_world =
  pw_auth :: "json result"
  pw_endpoints :: "unit result"
  pw_clock :: "i64 result"
  pw_verdict :: "string \<Rightarrow> usage_error + usage_error option"

definition prepare_reset_credit_enrichment ::
  "(string \<Rightarrow> string option) \<Rightarrow> (string \<Rightarrow> json option) \<Rightarrow> preparation_world \<Rightarrow> string \<Rightarrow> string
     \<Rightarrow> strict_account_binding \<Rightarrow> usage_error + prepared_enrichment" where
  "prepare_reset_credit_enrichment b64 from_json w alias lease_alias expected =
     (if lease_alias \<noteq> alias
      then usage_err ''profile lock mismatch''
             (''reset-card request for '' @ quoted alias @ '' received lease for '' @ quoted lease_alias)
      else
        case pw_auth w of
          Inl e \<Rightarrow> usage_err ''auth file unreadable'' (in_brackets alias
                     @ '' could not read profile auth for reset-card details: '' @ show_chain e)
        | Inr auth \<Rightarrow>
            let info = parse_account_info b64 from_json auth in
            case strict_binding info of
              None \<Rightarrow> usage_err ''account identity incomplete'' (in_brackets alias
                        @ '' reset-card details require a verified account id and email identity'')
            | Some actual \<Rightarrow>
                if actual \<noteq> expected
                then usage_err ''profile identity changed'' (in_brackets alias
                       @ '' profile changed account identity while the reset-card request was queued'')
                else
                  case filter_opt (\<lambda>t. \<not> blank t) (fst (extract_tokens auth)) of
                    None \<Rightarrow> usage_err ''no access_token'' (in_brackets alias
                              @ '' profile auth has no access_token for reset-card details'')
                  | Some access \<Rightarrow>
                      let refresh = filter_opt (\<lambda>t. \<not> blank t) (snd (extract_tokens auth)) in
                      case pw_endpoints w of
                        Inl e \<Rightarrow> usage_err ''service endpoint policy invalid'' (in_brackets alias
                                   @ '' could not resolve reset-card endpoints: '' @ show_chain e)
                      | Inr _ \<Rightarrow>
                          case is_token_expiring b64 from_json (pw_clock w) access
                                 access_token_refresh_margin_secs of
                            Inl e \<Rightarrow> usage_err ''access token unreadable'' (in_brackets alias
                                       @ '' could not inspect access-token expiry for reset-card details: ''
                                       @ show_chain e)
                          | Inr expiring \<Rightarrow>
                              let needs_rotation = (expiring = Some True) in
                              case (case refresh of Some t \<Rightarrow> pw_verdict w t | None \<Rightarrow> Inr None) of
                                Inl e \<Rightarrow> Inl e
                              | Inr known \<Rightarrow>
                                  if needs_rotation \<and> refresh = None
                                  then usage_err ''no refresh_token'' (in_brackets alias
                                         @ '' access token is expiring and profile auth has no ''
                                         @ ''refresh_token for reset-card details'')
                                  else if needs_rotation \<and> known \<noteq> None then Inl (the known)
                                  else Inr \<lparr>pe_alias = alias, pe_account_id = ai_account_id info,
                                            pe_is_fedramp = ai_is_fedramp info,
                                            pe_id_token = extract_id_token auth,
                                            pe_access_token = access, pe_refresh_token = refresh,
                                            pe_known_refresh_verdict = known,
                                            pe_needs_proactive_rotation = needs_rotation\<rparr>)"

section \<open>Execution\<close>

record execution_world =
  ew_rotation :: rotation_event
  ew_first :: lookup_event
  ew_second :: lookup_event

definition execute_prepared_reset_credit_enrichment ::
  "(nat \<Rightarrow> string) \<Rightarrow> execution_world \<Rightarrow> prepared_enrichment \<Rightarrow> string \<Rightarrow> usage_info
     \<Rightarrow> credential_effect list \<times> (usage_error + usage_info)" where
  "execute_prepared_reset_credit_enrichment status_text w p lease_alias u =
     (let alias = pe_alias p in
      if lease_alias \<noteq> alias
      then ([], usage_err ''profile lock mismatch''
                  (''prepared reset-card request for '' @ quoted alias @ '' received lease for ''
                   @ quoted lease_alias))
      else
        let proactive =
              (if pe_needs_proactive_rotation p then
                 (case pe_refresh_token p of
                    None \<Rightarrow> ([], usage_err ''no refresh_token'' (in_brackets alias
                              @ '' prepared reset-card rotation has no refresh_token; no credential was sent''))
                  | Some presented \<Rightarrow>
                      rotate_reset_credit_credentials alias (ew_rotation w) presented)
               else ([], Inr (pe_access_token p)))
        in case proactive of
             (effects, Inl e) \<Rightarrow> (effects, Inl e)
           | (effects, Inr access) \<Rightarrow>
               (case enrich_reset_credits_checked status_text (ew_first w) access u of
                  (fetched, Inr u') \<Rightarrow> (effects @ fetched, Inr u')
                | (fetched, Inl first_error) \<Rightarrow>
                    (case first_error of
                       AccessRejected _ _ \<Rightarrow>
                         if pe_needs_proactive_rotation p
                         then (effects @ fetched, Inl (reset_credit_usage_error alias first_error))
                         else (case pe_known_refresh_verdict p of
                                 Some known \<Rightarrow> (effects @ fetched, Inl known)
                               | None \<Rightarrow>
                                   (case pe_refresh_token p of
                                      None \<Rightarrow> (effects @ fetched, usage_err ''no refresh_token''
                                        (in_brackets alias
                                         @ '' reset-card endpoint rejected the access token and ''
                                         @ ''profile auth has no refresh_token''))
                                    | Some presented \<Rightarrow>
                                        (case rotate_reset_credit_credentials alias (ew_rotation w)
                                                presented of
                                           (rotated, Inl e) \<Rightarrow> (effects @ fetched @ rotated, Inl e)
                                         | (rotated, Inr access') \<Rightarrow>
                                             (case enrich_reset_credits_checked status_text
                                                     (ew_second w) access' u of (again, r) \<Rightarrow>
                                                (effects @ fetched @ rotated @ again,
                                                 map_err (reset_credit_usage_error alias) r)))))
                     | _ \<Rightarrow> (effects @ fetched, Inl (reset_credit_usage_error alias first_error)))))"

section \<open>What is sent\<close>

definition presented :: "credential_effect list \<Rightarrow> string list" where
  "presented effects = List.map_filter (\<lambda>e. case e of PresentedRefresh t \<Rightarrow> Some t | _ \<Rightarrow> None) effects"

definition fetches :: "credential_effect list \<Rightarrow> string list" where
  "fetches effects = List.map_filter (\<lambda>e. case e of FetchedWith t \<Rightarrow> Some t | _ \<Rightarrow> None) effects"

lemma presented_simps [simp]:
  "presented [] = []" "presented (xs @ ys) = presented xs @ presented ys"
  "presented (PresentedRefresh t # xs) = t # presented xs"
  "presented (RememberedVerdict c t # xs) = presented xs" "presented (FetchedWith t # xs) = presented xs"
  by (simp_all add: presented_def List.map_filter_def)

lemma fetches_simps [simp]:
  "fetches [] = []" "fetches (xs @ ys) = fetches xs @ fetches ys"
  "fetches (PresentedRefresh t # xs) = fetches xs"
  "fetches (RememberedVerdict c t # xs) = fetches xs" "fetches (FetchedWith t # xs) = t # fetches xs"
  by (simp_all add: fetches_def List.map_filter_def)

lemma remembered_effects [simp]:
  "presented (remember_terminal_verdict code t) = []" "fetches (remember_terminal_verdict code t) = []"
  by (simp_all add: remember_terminal_verdict_def)

lemma rotate_effects:
  "rotate_reset_credit_credentials alias ev t = (effects, r) \<Longrightarrow>
     fetches effects = [] \<and> (presented effects = [] \<or> presented effects = [t])
       \<and> (is_ok r \<longrightarrow> presented effects = [t])"
  by (auto simp: rotate_reset_credit_credentials_def split: sum.splits credit_error.splits)

lemma checked_effects:
  "enrich_reset_credits_checked st ev access u = (effects, r) \<Longrightarrow>
     presented effects = [] \<and> (fetches effects = [] \<or> fetches effects = [access])"
  by (auto simp: enrich_reset_credits_checked_def fetch_reset_credits_def
      split: sum.splits prod.splits)

lemma prepared_facts:
  assumes "prepare_reset_credit_enrichment b64 from_json w alias lease expected = Inr p"
  shows "lease = alias" "pe_alias p = alias" "\<not> blank (pe_access_token p)"
    and "\<And>t. pe_refresh_token p = Some t \<Longrightarrow>
           \<not> blank t \<and> pw_verdict w t = Inr (pe_known_refresh_verdict p)"
    and "pe_needs_proactive_rotation p \<Longrightarrow>
           pe_refresh_token p \<noteq> None \<and> pe_known_refresh_verdict p = None"
    and "\<exists>auth. pw_auth w = Inr auth
           \<and> strict_binding (parse_account_info b64 from_json auth) = Some expected"
  using assms
  by (auto simp: prepare_reset_credit_enrichment_def usage_err_def Let_def
      split: if_splits sum.splits option.splits)

lemma execute_effects:
  assumes "execute_prepared_reset_credit_enrichment st w p lease u = (effects, r)"
  shows "presented effects = [] \<or> (\<exists>t. presented effects = [t] \<and> pe_refresh_token p = Some t
           \<and> (pe_needs_proactive_rotation p \<or> pe_known_refresh_verdict p = None))"
    and "length (fetches effects) \<le> 2"
    and "lease \<noteq> pe_alias p \<Longrightarrow> effects = []"
proof -
  have "(presented effects = [] \<or> (\<exists>t. presented effects = [t] \<and> pe_refresh_token p = Some t
           \<and> (pe_needs_proactive_rotation p \<or> pe_known_refresh_verdict p = None)))
     \<and> length (fetches effects) \<le> 2 \<and> (lease \<noteq> pe_alias p \<longrightarrow> effects = [])"
    using assms
    unfolding execute_prepared_reset_credit_enrichment_def Let_def
    by (auto split: if_splits prod.splits sum.splits option.splits credit_error.splits
        dest!: rotate_effects checked_effects)
  then show "presented effects = [] \<or> (\<exists>t. presented effects = [t] \<and> pe_refresh_token p = Some t
           \<and> (pe_needs_proactive_rotation p \<or> pe_known_refresh_verdict p = None))"
    and "length (fetches effects) \<le> 2"
    and "lease \<noteq> pe_alias p \<Longrightarrow> effects = []" by blast+
qed

text \<open>
  C21. A single-use refresh token is presented at most once and never after a standing rejection.
  Over a prepared lookup, whatever the service answers, at most one refresh is sent; the token
  sent is the prepared profile's own, not blank, and one for which the verdict cache holds no
  rejection; the profile still had the account identity the request was queued for; at most two
  lookups are made; and a lease for another profile sends nothing.
\<close>

theorem rotation_at_most_once:
  assumes "prepare_reset_credit_enrichment b64 from_json w alias lease expected = Inr p"
    and "execute_prepared_reset_credit_enrichment st w' p lease' u = (effects, r)"
  shows "length (presented effects) \<le> 1 \<and> length (fetches effects) \<le> 2
     \<and> list_all (\<lambda>t. pe_refresh_token p = Some t \<and> \<not> blank t \<and> pw_verdict w t = Inr None)
          (presented effects)
     \<and> (\<exists>auth. pw_auth w = Inr auth
          \<and> strict_binding (parse_account_info b64 from_json auth) = Some expected)
     \<and> (lease' = alias \<or> effects = [])"
  using prepared_facts [OF assms(1)] execute_effects [OF assms(2)] by fastforce

definition demo_auth :: json where
  "demo_auth = JObject [(''tokens'', JObject [(''id_token'', JString ''h.p.s''),
     (''account_id'', JString ''acc''), (''access_token'', JString ''at''),
     (''refresh_token'', JString ''rt'')])]"

definition demo_preparation :: preparation_world where
  "demo_preparation = \<lparr>pw_auth = Inr demo_auth, pw_endpoints = Inr (), pw_clock = Inr 0,
     pw_verdict = (\<lambda>_. Inr None)\<rparr>"

definition demo_prepared :: prepared_enrichment where
  "demo_prepared = \<lparr>pe_alias = ''a'', pe_account_id = Some ''acc'', pe_is_fedramp = False,
     pe_id_token = Some ''h.p.s'', pe_access_token = ''at'', pe_refresh_token = Some ''rt'',
     pe_known_refresh_verdict = None, pe_needs_proactive_rotation = False\<rparr>"

text \<open>The access token is rejected, the rotation succeeds, the second lookup is answered.\<close>

definition demo_execution :: execution_world where
  "demo_execution =
     \<lparr>ew_rotation = \<lparr>re_authorize = Inr (), re_refresh = Inr (), re_persist = Inr ''at2''\<rparr>,
      ew_first = \<lparr>le_permit = Inr (), le_exchange = Response 401 (Inl [])\<rparr>,
      ew_second = \<lparr>le_permit = Inr (), le_exchange = Response 200 (Inr demo_details)\<rparr>\<rparr>"

lemma demo_prepared_ok:
  "prepare_reset_credit_enrichment Some (\<lambda>_. Some (JObject [(''email'', JString ''e'')]))
     demo_preparation ''a'' ''a'' \<lparr>sb_account_id = ''acc'', sb_email = ''e''\<rparr> = Inr demo_prepared"
  by code_simp

lemma demo_execution_run:
  "fst (execute_prepared_reset_credit_enrichment show_nat demo_execution demo_prepared ''a'' default_usage)
     = [FetchedWith ''at'', PresentedRefresh ''rt'', FetchedWith ''at2'']"
  by (simp add: execute_prepared_reset_credit_enrichment_def demo_prepared_def demo_execution_def
      enrich_reset_credits_checked_def fetch_reset_credits_def rotate_reset_credit_credentials_def
      is_success_def demo_details_parsed)

lemma rotation_at_most_once_witness:
  "list_all (\<lambda>t. pe_refresh_token demo_prepared = Some t \<and> \<not> blank t
        \<and> pw_verdict demo_preparation t = Inr None)
     (presented [FetchedWith ''at'', PresentedRefresh ''rt'', FetchedWith ''at2''])"
proof -
  obtain r where "execute_prepared_reset_credit_enrichment show_nat demo_execution demo_prepared ''a''
      default_usage = ([FetchedWith ''at'', PresentedRefresh ''rt'', FetchedWith ''at2''], r)"
    using demo_execution_run by (metis prod.collapse)
  from rotation_at_most_once [OF demo_prepared_ok this] show ?thesis by blast
qed

end
