(* ===== verification/Usage_Parse.thy ===== *)
theory Usage_Parse
  imports Reset_Credits Global_Pace Scoring
begin

text \<open>
  Parsing the usage response (\<open>src/src/usage/parse.rs\<close>). Two readers share the field parsers:
  the lenient one keeps every defect as a parse issue of the sample, the checked one refuses
  the response. Parameters for library code: \<open>render\<close>, the text of a JSON value, and
  \<open>show_f64\<close>, the text of a double.
\<close>

section \<open>Windows\<close>

definition secs_7d :: i64 where "secs_7d = 7 * 86400"

definition parse_window_minutes :: "json option \<Rightarrow> i64 option option" where
  "parse_window_minutes value =
     (case value of
        None \<Rightarrow> Some None
      | Some JNull \<Rightarrow> Some None
      | Some v \<Rightarrow>
          Option.bind (as_i64 v) (\<lambda>seconds.
            if seconds < 60 then None
            else map_option Some (filter_opt (\<lambda>minutes. 0 < minutes) (Some (seconds div 60)))))"

definition parse_reset_at :: "json_object \<Rightarrow> string \<Rightarrow> i64 option result" where
  "parse_reset_at obj path =
     (case map_of obj ''reset_at'' of
        None \<Rightarrow> Inr None
      | Some JNull \<Rightarrow> Inr None
      | Some v \<Rightarrow>
          map_ok Some (ok_or [path @ ''.reset_at must be an integer or null''] (as_i64 v)))"

definition parse_window_checked :: "json \<Rightarrow> string \<Rightarrow> window_usage result" where
  "parse_window_checked value path =
     and_then (ok_or [path @ '' must be an object''] (as_object value)) (\<lambda>obj.
     and_then
       (ok_or [path @ ''.used_percent must be a number from 0 through 100'']
         (filter_opt (\<lambda>used. is_finite used \<and> in_range (Fin 0) (Fin 100) used)
           (Option.bind (map_of obj ''used_percent'') as_f64))) (\<lambda>used.
     and_then (parse_reset_at obj path) (\<lambda>reset.
     and_then
       (ok_or [path @ ''.limit_window_seconds must be an integer of at least 60 seconds or null'']
         (parse_window_minutes (map_of obj ''limit_window_seconds''))) (\<lambda>minutes.
       Inr \<lparr>used_percent = Some used, resets_at = reset, window_minutes = minutes\<rparr>))))"

text \<open>A window that is absent, or present and invalid: then nothing is kept but the issue.\<close>

definition parse_window_retaining_issue ::
  "json option \<Rightarrow> string \<Rightarrow> (string \<Rightarrow> usage_parse_issue)
     \<Rightarrow> window_usage option \<times> usage_parse_issue list" where
  "parse_window_retaining_issue value path issue =
     (case value of
        None \<Rightarrow> (None, [])
      | Some v \<Rightarrow>
          (case parse_window_checked v path of
             Inr w \<Rightarrow> (Some w, [])
           | Inl e \<Rightarrow> (None, [issue (show_chain e)])))"

section \<open>Scalars\<close>

definition optional_string :: "json_object \<Rightarrow> string \<Rightarrow> string \<Rightarrow> string option result" where
  "optional_string obj key path =
     (case map_of obj key of
        None \<Rightarrow> Inr None
      | Some (JString s) \<Rightarrow> Inr (Some s)
      | Some _ \<Rightarrow> bail (path @ ''.'' @ key @ '' must be a string when present''))"

definition optional_bool :: "json_object \<Rightarrow> string \<Rightarrow> string \<Rightarrow> bool option result" where
  "optional_bool obj key path =
     (case map_of obj key of
        None \<Rightarrow> Inr None
      | Some (JBool b) \<Rightarrow> Inr (Some b)
      | Some _ \<Rightarrow> bail (path @ ''.'' @ key @ '' must be a boolean when present''))"

record rate_limit_flags =
  rf_allowed :: "bool option"
  rf_limit_reached :: "bool option"

definition default_flags :: rate_limit_flags where
  "default_flags = \<lparr>rf_allowed = None, rf_limit_reached = None\<rparr>"

definition parse_plan_type :: "json \<Rightarrow> usage_parse_issue + string option" where
  "parse_plan_type body =
     (case jget body ''plan_type'' of
        None \<Rightarrow> Inr None
      | Some (JString p) \<Rightarrow> Inr (Some p)
      | Some _ \<Rightarrow> Inl (InvalidPlanType ''must be a string when present''))"

definition parse_rate_limit_flags :: "json \<Rightarrow> usage_parse_issue + rate_limit_flags" where
  "parse_rate_limit_flags body =
     (case jget body ''rate_limit'' of
        None \<Rightarrow> Inr default_flags
      | Some JNull \<Rightarrow> Inr default_flags
      | Some (JObject obj) \<Rightarrow>
          map_err (\<lambda>e. InvalidRateLimit (show_chain e))
            (and_then (optional_bool obj ''allowed'' ''rate_limit'') (\<lambda>allowed.
             and_then (optional_bool obj ''limit_reached'' ''rate_limit'') (\<lambda>reached.
               Inr \<lparr>rf_allowed = allowed, rf_limit_reached = reached\<rparr>)))
      | Some _ \<Rightarrow> Inl (InvalidRateLimit ''must be an object or null when present''))"

definition parse_spend_control_reached :: "json \<Rightarrow> usage_parse_issue + bool option" where
  "parse_spend_control_reached body =
     (case jget body ''spend_control'' of
        None \<Rightarrow> Inr None
      | Some JNull \<Rightarrow> Inr None
      | Some (JObject obj) \<Rightarrow>
          and_then
            (map_err (\<lambda>e. InvalidSpendControl (show_chain e))
              (optional_bool obj ''reached'' ''spend_control'')) (\<lambda>reached.
          (case map_of obj ''individual_limit'' of
             None \<Rightarrow> Inr reached
           | Some JNull \<Rightarrow> Inr reached
           | Some (JObject _) \<Rightarrow> Inr reached
           | Some _ \<Rightarrow> Inl (InvalidSpendControl
               ''spend_control.individual_limit must be an object or null when present'')))
      | Some _ \<Rightarrow> Inl (InvalidSpendControl ''must be an object or null when present''))"

definition array_or_null :: "json_object \<Rightarrow> string \<Rightarrow> unit result" where
  "array_or_null credits key =
     (case map_of credits key of
        None \<Rightarrow> Inr ()
      | Some JNull \<Rightarrow> Inr ()
      | Some (JArray _) \<Rightarrow> Inr ()
      | Some _ \<Rightarrow> bail (''credits.'' @ key @ '' must be an array or null when present''))"

definition valid_balance :: "json_object \<Rightarrow> unit result" where
  "valid_balance credits =
     (let invalid = bail ''credits.balance must be a finite number, numeric string, or null'' in
      case map_of credits ''balance'' of
        None \<Rightarrow> Inr ()
      | Some JNull \<Rightarrow> Inr ()
      | Some (JNumber n) \<Rightarrow> if is_some_and is_finite (n_f64 n) then Inr () else invalid
      | Some (JString s) \<Rightarrow> if is_some_and is_finite (parse_f64 s) then Inr () else invalid
      | Some _ \<Rightarrow> invalid)"

definition validate_credits :: "json \<Rightarrow> unit result" where
  "validate_credits body =
     (case jget body ''credits'' of
        None \<Rightarrow> Inr ()
      | Some JNull \<Rightarrow> Inr ()
      | Some (JObject credits) \<Rightarrow>
          and_then (optional_bool credits ''has_credits'' ''credits'') (\<lambda>_.
          and_then (optional_bool credits ''unlimited'' ''credits'') (\<lambda>_.
          and_then (valid_balance credits) (\<lambda>_.
          and_then (array_or_null credits ''approx_local_messages'') (\<lambda>_.
            array_or_null credits ''approx_cloud_messages''))))
      | Some _ \<Rightarrow> bail ''credits must be an object or null when present'')"

section \<open>Additional limits\<close>

definition optional_window :: "json_object \<Rightarrow> string \<Rightarrow> string \<Rightarrow> window_usage option result" where
  "optional_window obj key path =
     (case map_of obj key of
        None \<Rightarrow> Inr None
      | Some JNull \<Rightarrow> Inr None
      | Some v \<Rightarrow> map_ok Some (parse_window_checked v (path @ ''.'' @ key)))"

text \<open>A seven-day window alone in the primary slot is the weekly one.\<close>

definition weekly_first ::
  "window_usage option \<Rightarrow> window_usage option \<Rightarrow> window_usage option \<times> window_usage option" where
  "weekly_first primary secondary =
     (if is_some_and (\<lambda>minutes. secs_7d \<le> saturating_mul minutes 60)
           (Option.bind primary window_minutes) \<and> secondary = None
      then (None, primary) else (primary, secondary))"

definition limit_body ::
  "json \<Rightarrow> json_object \<Rightarrow> string \<Rightarrow> bool \<Rightarrow> json option \<times> string" where
  "limit_body item obj path allow_direct =
     (if allow_direct then
        (case map_of obj ''rate_limit'' of
           None \<Rightarrow> (Some item, path)
         | Some v \<Rightarrow> (Some v, path @ ''.rate_limit''))
      else
        (case map_of obj ''rate_limit'' of
           None \<Rightarrow> (None, path @ ''.rate_limit'')
         | Some JNull \<Rightarrow> (None, path @ ''.rate_limit'')
         | Some v \<Rightarrow> (Some v, path @ ''.rate_limit'')))"

definition parse_limit_windows ::
  "json \<Rightarrow> string \<Rightarrow> string option \<Rightarrow> string option \<Rightarrow> additional_rate_limit result" where
  "parse_limit_windows rate_limit rpath name feature =
     and_then (ok_or [rpath @ '' must be an object''] (as_object rate_limit)) (\<lambda>obj.
     and_then (optional_window obj ''primary_window'' rpath) (\<lambda>primary0.
     and_then (optional_window obj ''secondary_window'' rpath) (\<lambda>secondary0.
     let (primary, secondary) = weekly_first primary0 secondary0 in
     and_then (optional_bool obj ''allowed'' rpath) (\<lambda>allowed.
     and_then (optional_bool obj ''limit_reached'' rpath) (\<lambda>reached.
       if allowed = None \<and> reached = None \<and> primary = None \<and> secondary = None
       then bail (rpath
              @ '' must contain allowed, limit_reached, primary_window, or secondary_window'')
       else Inr \<lparr>al_limit_name = name, al_metered_feature = feature, al_allowed = allowed,
                 al_limit_reached = reached, al_primary = primary, al_secondary = secondary\<rparr>)))))"

definition parse_additional_rate_limit_item ::
  "json \<Rightarrow> string \<Rightarrow> bool \<Rightarrow> additional_rate_limit result" where
  "parse_additional_rate_limit_item item path allow_direct =
     and_then (ok_or [path @ '' must be an object''] (as_object item)) (\<lambda>obj.
     and_then (optional_string obj ''limit_name'' path) (\<lambda>name.
     and_then (optional_string obj ''metered_feature'' path) (\<lambda>feature.
       if \<not> allow_direct \<and> (name = None \<or> feature = None)
       then bail (path @ '' must contain string limit_name and metered_feature'')
       else
         case limit_body item obj path allow_direct of
           (None, _) \<Rightarrow>
             Inr \<lparr>al_limit_name = name, al_metered_feature = feature, al_allowed = None,
                  al_limit_reached = None, al_primary = None, al_secondary = None\<rparr>
         | (Some rate_limit, rpath) \<Rightarrow> parse_limit_windows rate_limit rpath name feature)))"

definition parse_additional_rate_limits :: "json \<Rightarrow> additional_rate_limit list result" where
  "parse_additional_rate_limits body =
     (case jget body ''additional_rate_limits'' of
        None \<Rightarrow> Inr []
      | Some JNull \<Rightarrow> Inr []
      | Some (JArray items) \<Rightarrow>
          collect_results
            (\<lambda>(index, item). parse_additional_rate_limit_item item
               (''additional_rate_limits['' @ show_nat index @ '']'') False)
            (List.enumerate 0 items)
      | Some _ \<Rightarrow> bail ''must be an array or null when present'')"

definition parse_code_review_rate_limit :: "json \<Rightarrow> additional_rate_limit option result" where
  "parse_code_review_rate_limit body =
     (case jget body ''code_review_rate_limit'' of
        None \<Rightarrow> Inr None
      | Some JNull \<Rightarrow> Inr None
      | Some review \<Rightarrow>
          map_ok (\<lambda>limit. Some (limit\<lparr>al_limit_name := Some ''Code review'',
                                       al_metered_feature := Some ''code_review''\<rparr>))
            (parse_additional_rate_limit_item review ''code_review_rate_limit'' True))"

section \<open>The restriction reason\<close>

definition invalid_rate_limit_reason ::
  "(json \<Rightarrow> string) \<Rightarrow> json \<Rightarrow> string \<Rightarrow> usage_parse_issue" where
  "invalid_rate_limit_reason render value detail =
     InvalidRateLimitReachedType (the_or (render value) (as_str value)) detail"

definition rate_limit_reached_type ::
  "(json \<Rightarrow> string) \<Rightarrow> json \<Rightarrow> usage_parse_issue + string option" where
  "rate_limit_reached_type render body =
     (case jget body ''rate_limit_reached_type'' of
        None \<Rightarrow> Inr None
      | Some JNull \<Rightarrow> Inr None
      | Some value \<Rightarrow>
          let accept = (\<lambda>reason. if blank reason
                then Inl (invalid_rate_limit_reason render value ''reason must not be empty'')
                else Inr (Some reason))
          in case value of
               JString reason \<Rightarrow> accept reason
             | JObject obj \<Rightarrow>
                 (case Option.bind (map_of obj ''type'') as_str of
                    Some reason \<Rightarrow> accept reason
                  | None \<Rightarrow> Inl (invalid_rate_limit_reason render value
                              ''object must contain a string `type`''))
             | _ \<Rightarrow> Inl (invalid_rate_limit_reason render value
                     ''must be a non-empty string or an object containing string `type`''))"

definition reset_credits_summary_value :: "json \<Rightarrow> json option" where
  "reset_credits_summary_value body =
     non_null (case jget body ''rate_limit_reset_credits'' of
                 Some v \<Rightarrow> Some v
               | None \<Rightarrow> jget body ''rateLimitResetCredits'')"

section \<open>The two readings\<close>

definition issue_anyhow :: "usage_parse_issue \<Rightarrow> anyhow" where
  "issue_anyhow issue = [show_parse_issue issue]"

definition validate_window_at :: "json \<Rightarrow> string \<Rightarrow> unit result" where
  "validate_window_at body name =
     (case non_null (pointer body [''rate_limit'', name]) of
        None \<Rightarrow> Inr ()
      | Some window \<Rightarrow>
          map_ok (\<lambda>_. ()) (with_context (''usage response contains invalid '' @ name)
            (parse_window_checked window name)))"

definition validate_usage_response_schema :: "(json \<Rightarrow> string) \<Rightarrow> json \<Rightarrow> unit result" where
  "validate_usage_response_schema render body =
     and_then (map_err issue_anyhow (parse_plan_type body)) (\<lambda>plan.
     if plan = None then bail ''plan_type: is required''
     else
     and_then (validate_window_at body ''primary_window'') (\<lambda>_.
     and_then (validate_window_at body ''secondary_window'') (\<lambda>_.
     and_then (map_err issue_anyhow (parse_rate_limit_flags body)) (\<lambda>_.
     and_then (with_context ''usage response contains invalid credits'' (validate_credits body)) (\<lambda>_.
     and_then (map_err issue_anyhow (parse_spend_control_reached body)) (\<lambda>_.
     and_then (map_err issue_anyhow (rate_limit_reached_type render body)) (\<lambda>_.
     and_then (with_context ''usage response contains invalid additional_rate_limits''
       (parse_additional_rate_limits body)) (\<lambda>_.
     and_then (with_context ''usage response contains invalid code_review_rate_limit''
       (parse_code_review_rate_limit body)) (\<lambda>_.
       (case reset_credits_summary_value body of
          None \<Rightarrow> Inr ()
        | Some summary \<Rightarrow>
            map_ok (\<lambda>_. ()) (with_context ''usage response contains an invalid reset credits summary''
              (parse_reset_credits_summary summary))))))))))))"

text \<open>A field's value or its default, and the issue it leaves.\<close>

definition issue_list :: "usage_parse_issue + 'a \<Rightarrow> usage_parse_issue list" where
  "issue_list r = (case r of Inl issue \<Rightarrow> [issue] | Inr _ \<Rightarrow> [])"

definition parsed_or :: "'a \<Rightarrow> 'e + 'a \<Rightarrow> 'a" where
  "parsed_or d r = (case r of Inl _ \<Rightarrow> d | Inr x \<Rightarrow> x)"

definition reason_or_raw :: "usage_parse_issue + string option \<Rightarrow> string option" where
  "reason_or_raw r = (case r of
       Inr reason \<Rightarrow> reason
     | Inl (InvalidRateLimitReachedType raw _) \<Rightarrow> Some raw
     | Inl _ \<Rightarrow> None)"

definition credits_balance_of :: "json \<Rightarrow> f64 option" where
  "credits_balance_of body =
     (if the_or True (Option.bind (pointer body [''credits'', ''has_credits'']) as_bool)
      then Option.bind (pointer body [''credits'', ''balance''])
             (\<lambda>v. or_else (as_f64 v) (Option.bind (as_str v) parse_f64))
      else None)"

definition individual_limit_of :: "(f64 \<Rightarrow> string) \<Rightarrow> json \<Rightarrow> spend_control_limit option" where
  "individual_limit_of show_f64 body =
     map_option
       (\<lambda>limit.
          let string_value = (\<lambda>key. Option.bind (map_of limit key)
                (\<lambda>v. or_else (as_str v) (map_option show_f64 (as_f64 v))))
          in \<lparr>sc_source = string_value ''source'', sc_limit = string_value ''limit'',
              sc_used = string_value ''used'', sc_remaining = string_value ''remaining'',
              sc_remaining_percent = Option.bind (map_of limit ''remaining_percent'') as_f64,
              sc_resets_at = Option.bind (map_of limit ''reset_at'') as_i64\<rparr>)
       (Option.bind (non_null (pointer body [''spend_control'', ''individual_limit''])) as_object)"

definition parse_usage_at ::
  "(json \<Rightarrow> string) \<Rightarrow> (f64 \<Rightarrow> string) \<Rightarrow> json \<Rightarrow> i64 \<Rightarrow> usage_info" where
  "parse_usage_at render show_f64 body fetched_at =
     (let primary_raw = non_null (pointer body [''rate_limit'', ''primary_window'']);
          secondary_raw = non_null (pointer body [''rate_limit'', ''secondary_window'']);
          primary_window_secs =
            the_or 0 (Option.bind (Option.bind primary_raw
              (\<lambda>v. jget v ''limit_window_seconds'')) as_i64);
          (primary_parsed, primary_issues) =
            parse_window_retaining_issue primary_raw ''primary_window'' InvalidPrimaryWindow;
          (secondary_parsed, secondary_issues) =
            parse_window_retaining_issue secondary_raw ''secondary_window'' InvalidSecondaryWindow;
          (primary, secondary) =
            (if secs_7d \<le> primary_window_secs \<and> secondary_parsed = None
             then (None, primary_parsed) else (primary_parsed, secondary_parsed));
          plan_r = parse_plan_type body;
          flags_r = parse_rate_limit_flags body;
          credits_r = map_err (\<lambda>e. InvalidCredits (show_chain e)) (validate_credits body);
          spend_r = parse_spend_control_reached body;
          reason_r = rate_limit_reached_type render body;
          flags = parsed_or default_flags flags_r;
          spend_reached = the_or False (parsed_or None spend_r);
          reason = reason_or_raw reason_r;
          limited0 = (reason \<noteq> None \<or> spend_reached \<or> rf_allowed flags = Some False
                        \<or> rf_limit_reached flags = Some True);
          summary_r = map_option parse_reset_credits_summary (reset_credits_summary_value body);
          summary = Option.bind summary_r ok_opt;
          credits_error =
            (case summary_r of
               Some (Inl e) \<Rightarrow> Some (''invalid embedded reset credits summary: '' @ show_chain e)
             | _ \<Rightarrow> None);
          additional_r = map_err (\<lambda>e. InvalidAdditionalRateLimits (show_chain e))
                           (parse_additional_rate_limits body);
          review_r = map_err (\<lambda>e. InvalidCodeReviewRateLimit (show_chain e))
                       (parse_code_review_rate_limit body);
          issues = primary_issues @ secondary_issues @ issue_list plan_r @ issue_list flags_r
                     @ issue_list credits_r @ issue_list spend_r @ issue_list reason_r
                     @ issue_list additional_r @ issue_list review_r
      in \<lparr>u_cache_revision = None,
          u_fetched_at = Some fetched_at,
          u_primary = primary,
          u_secondary = secondary,
          u_credits_balance = credits_balance_of body,
          u_unlimited_credits = Option.bind (pointer body [''credits'', ''unlimited'']) as_bool,
          u_plan_type = parsed_or None plan_r,
          u_reset_credits_available_count = Option.bind summary rs_available_count,
          u_reset_credits = the_or [] (Option.bind summary rs_credits),
          u_reset_credits_error = credits_error,
          u_account_limited = (limited0 \<or> issues \<noteq> []),
          u_spend_control_reached = spend_reached,
          u_rate_limit_reached_type = reason,
          u_individual_limit = individual_limit_of show_f64 body,
          u_additional_limits = parsed_or [] additional_r @ opt_list (parsed_or None review_r),
          u_parse_issues = issues\<rparr>)"

definition parse_usage ::
  "(json \<Rightarrow> string) \<Rightarrow> (f64 \<Rightarrow> string) \<Rightarrow> i64 result \<Rightarrow> json \<Rightarrow> usage_info result" where
  "parse_usage render show_f64 clock body =
     and_then clock (\<lambda>now. Inr (parse_usage_at render show_f64 body now))"

definition parse_usage_checked ::
  "(json \<Rightarrow> string) \<Rightarrow> (f64 \<Rightarrow> string) \<Rightarrow> i64 result \<Rightarrow> json \<Rightarrow> usage_info result" where
  "parse_usage_checked render show_f64 clock body =
     and_then (validate_usage_response_schema render body) (\<lambda>_.
       parse_usage render show_f64 clock body)"

section \<open>The readings agree\<close>

lemma issue_list_Nil [simp]: "issue_list r = [] \<longleftrightarrow> is_ok r"
  by (cases r) (simp_all add: issue_list_def)

lemma retained_issues_Nil [simp]:
  "snd (parse_window_retaining_issue v path c) = [] \<longleftrightarrow>
     is_none_or (\<lambda>w. is_ok (parse_window_checked w path)) v"
  by (auto simp: parse_window_retaining_issue_def is_ok_def split: option.splits sum.splits)

lemma is_ok_seq [simp]: "is_ok (and_then r (\<lambda>_. q)) \<longleftrightarrow> is_ok r \<and> is_ok q"
  by (cases r) simp_all

lemma is_ok_if [simp]: "is_ok (if b then bail m else r) \<longleftrightarrow> \<not> b \<and> is_ok r"
  by simp

lemma is_ok_validate_window [simp]:
  "is_ok (validate_window_at body name) \<longleftrightarrow>
     is_none_or (\<lambda>w. is_ok (parse_window_checked w name)) (non_null (pointer body [''rate_limit'', name]))"
  by (auto simp: validate_window_at_def split: option.splits)

lemma parse_issues_eq:
  "u_parse_issues (parse_usage_at render show_f64 body t) =
     snd (parse_window_retaining_issue (non_null (pointer body [''rate_limit'', ''primary_window'']))
            ''primary_window'' InvalidPrimaryWindow)
     @ snd (parse_window_retaining_issue (non_null (pointer body [''rate_limit'', ''secondary_window'']))
            ''secondary_window'' InvalidSecondaryWindow)
     @ issue_list (parse_plan_type body) @ issue_list (parse_rate_limit_flags body)
     @ issue_list (map_err (\<lambda>e. InvalidCredits (show_chain e)) (validate_credits body))
     @ issue_list (parse_spend_control_reached body) @ issue_list (rate_limit_reached_type render body)
     @ issue_list (map_err (\<lambda>e. InvalidAdditionalRateLimits (show_chain e))
                     (parse_additional_rate_limits body))
     @ issue_list (map_err (\<lambda>e. InvalidCodeReviewRateLimit (show_chain e))
                     (parse_code_review_rate_limit body))"
  by (simp add: parse_usage_at_def Let_def split_beta)

lemma reset_error_None:
  "u_reset_credits_error (parse_usage_at render show_f64 body t) = None \<longleftrightarrow>
     is_none_or (\<lambda>s. is_ok (parse_reset_credits_summary s)) (reset_credits_summary_value body)"
  by (auto simp: parse_usage_at_def Let_def split_beta split: option.splits sum.splits)

lemma plan_type_eq:
  "u_plan_type (parse_usage_at render show_f64 body t) = parsed_or None (parse_plan_type body)"
  by (simp add: parse_usage_at_def Let_def split_beta)

lemma validate_is_ok:
  "is_ok (validate_usage_response_schema render body) \<longleftrightarrow>
     parsed_or None (parse_plan_type body) \<noteq> None \<and> is_ok (parse_plan_type body)
       \<and> is_none_or (\<lambda>w. is_ok (parse_window_checked w ''primary_window''))
            (non_null (pointer body [''rate_limit'', ''primary_window'']))
       \<and> is_none_or (\<lambda>w. is_ok (parse_window_checked w ''secondary_window''))
            (non_null (pointer body [''rate_limit'', ''secondary_window'']))
       \<and> is_ok (parse_rate_limit_flags body) \<and> is_ok (validate_credits body)
       \<and> is_ok (parse_spend_control_reached body) \<and> is_ok (rate_limit_reached_type render body)
       \<and> is_ok (parse_additional_rate_limits body) \<and> is_ok (parse_code_review_rate_limit body)
       \<and> is_none_or (\<lambda>s. is_ok (parse_reset_credits_summary s)) (reset_credits_summary_value body)"
proof -
  have case_ok: "is_ok (case v of None \<Rightarrow> Inr () | Some s \<Rightarrow> map_ok (\<lambda>_. ()) (with_context c (f s)))
      \<longleftrightarrow> is_none_or (\<lambda>s. is_ok (f s)) v" for v c and f :: "json \<Rightarrow> reset_credits_summary result"
    by (cases v) simp_all
  show ?thesis
  proof (cases "parse_plan_type body")
    case (Inr plan)
    then show ?thesis
      by (simp add: validate_usage_response_schema_def case_ok parsed_or_def del: bail_simps)
  qed (simp add: validate_usage_response_schema_def)
qed

text \<open>
  C25. The checked reading refuses exactly what the lenient reading reports. A response passes
  the schema validation if and only if the lenient parse of the same response names a plan,
  keeps no parse issue and reports no reset-card error: no defect is silently repaired by one
  reader and refused by the other.
\<close>

theorem readings_agree:
  "is_ok (validate_usage_response_schema render body) =
     (let u = parse_usage_at render show_f64 body t in
      u_plan_type u \<noteq> None \<and> u_parse_issues u = [] \<and> u_reset_credits_error u = None)"
  unfolding parse_issues_eq reset_error_None plan_type_eq Let_def validate_is_ok by auto

section \<open>Windows that reach the sample\<close>

definition window_sound :: "window_usage \<Rightarrow> bool" where
  "window_sound w \<longleftrightarrow>
     is_some_and (between 0 100) (used_percent w)
       \<and> is_none_or (\<lambda>m. 1 \<le> m \<and> in_i64 (m * 60)) (window_minutes w)"

lemma parse_window_minutes_Some:
  "parse_window_minutes v = Some m \<Longrightarrow>
     m = None \<or> (\<exists>j s. v = Some j \<and> as_i64 j = Some s \<and> 60 \<le> s \<and> m = Some (s div 60))"
  by (auto simp: parse_window_minutes_def bind_eq_Some_conv
      split: option.splits json.splits if_splits)

lemma parse_window_minutes_sound:
  "parse_window_minutes v = Some m \<Longrightarrow> is_none_or json_ok v \<Longrightarrow>
     is_none_or (\<lambda>m. 1 \<le> m \<and> in_i64 (m * 60)) m"
proof -
  have minutes: "1 \<le> s div 60 \<and> in_i64 (s div 60 * 60)" if "60 \<le> s" "in_i64 s" for s :: int
  proof -
    have "s div 60 * 60 \<le> s" "1 \<le> s div 60" using that(1) by presburger+
    then show ?thesis using that by (simp add: int_bounds)
  qed
  assume "parse_window_minutes v = Some m" "is_none_or json_ok v"
  then show ?thesis
    using minutes json_ok_i64 by (fastforce dest!: parse_window_minutes_Some)
qed

lemma parse_window_checked_sound:
  "parse_window_checked v path = Inr w \<Longrightarrow> json_ok v \<Longrightarrow> window_sound w"
  by (auto simp: parse_window_checked_def result_eq_Inr window_sound_def is_none_or_def
      percent_in_range_iff [unfolded percent_in_range_def]
      simp del: json_ok.simps split: option.splits
      dest!: parse_window_minutes_sound dest: json_ok_field)

lemma opt_list_set: "x \<in> set (opt_list y) \<longleftrightarrow> y = Some x"
  by (cases y) (auto simp: opt_list_def)

definition usage_windows :: "usage_info \<Rightarrow> window_usage list" where
  "usage_windows u = opt_list (u_primary u) @ opt_list (u_secondary u)
     @ concat (map (\<lambda>l. opt_list (al_primary l) @ opt_list (al_secondary l)) (u_additional_limits u))"

definition limit_sound :: "additional_rate_limit \<Rightarrow> bool" where
  "limit_sound l \<longleftrightarrow>
     is_none_or window_sound (al_primary l) \<and> is_none_or window_sound (al_secondary l)"

lemma retained_sound:
  "is_none_or json_ok v \<Longrightarrow> is_none_or window_sound (fst (parse_window_retaining_issue v path c))"
  by (auto simp: parse_window_retaining_issue_def is_none_or_def parse_window_checked_sound
      split: option.splits sum.splits)

lemma optional_window_sound:
  "optional_window m key path = Inr w \<Longrightarrow> json_ok (JObject m) \<Longrightarrow> is_none_or window_sound w"
  by (auto simp: optional_window_def result_eq_Inr is_none_or_def simp del: json_ok.simps
      split: option.splits json.splits
      intro: parse_window_checked_sound json_ok_field)

lemma parse_limit_windows_sound:
  "parse_limit_windows v rpath name feature = Inr l \<Longrightarrow> json_ok v \<Longrightarrow> limit_sound l"
  by (auto simp: parse_limit_windows_def result_eq_Inr limit_sound_def weekly_first_def Let_def
      simp del: json_ok.simps split: if_splits prod.splits dest!: optional_window_sound)

lemma additional_item_sound:
  "parse_additional_rate_limit_item item path direct = Inr l \<Longrightarrow> json_ok item \<Longrightarrow> limit_sound l"
  by (auto simp: parse_additional_rate_limit_item_def result_eq_Inr limit_body_def limit_sound_def
      simp del: json_ok.simps
      split: if_splits option.splits prod.splits json.splits
      dest: parse_limit_windows_sound json_ok_field)

lemma additional_limits_sound:
  assumes "parse_additional_rate_limits body = Inr ls" "json_ok body" "l \<in> set ls"
  shows "limit_sound l"
proof (cases "jget body ''additional_rate_limits''")
  case None
  then show ?thesis using assms by (simp add: parse_additional_rate_limits_def)
next
  case (Some v)
  from json_ok_jget [OF assms(2) Some] have v: "json_ok v" .
  show ?thesis
  proof (cases v)
    case (JArray items)
    with Some assms(1) have all: "list_all2 (\<lambda>x y. parse_additional_rate_limit_item (snd x)
        (''additional_rate_limits['' @ show_nat (fst x) @ '']'') False = Inr y)
        (List.enumerate 0 items) ls"
      by (simp add: parse_additional_rate_limits_def collect_results_eq_Inr split_beta)
    from assms(3) obtain i where i: "i < length ls" "ls ! i = l" by (auto simp: in_set_conv_nth)
    with list_all2_nthD2 [OF all i(1)] list_all2_lengthD [OF all] obtain path where
      "parse_additional_rate_limit_item (items ! i) path False = Inr l" "i < length items"
      by (auto simp: nth_enumerate_eq)
    with v JArray show ?thesis by (auto simp: list_all_length intro: additional_item_sound)
  qed (use Some assms in \<open>auto simp: parse_additional_rate_limits_def bail_def\<close>)
qed

lemma code_review_sound:
  "parse_code_review_rate_limit body = Inr r \<Longrightarrow> json_ok body \<Longrightarrow> is_none_or limit_sound r"
  by (auto simp: parse_code_review_rate_limit_def result_eq_Inr is_none_or_def limit_sound_def
      simp del: json_ok.simps
      split: option.splits json.splits dest!: additional_item_sound dest: json_ok_jget)

lemma main_windows:
  fixes body
  defines "p \<equiv> fst (parse_window_retaining_issue (non_null (pointer body [''rate_limit'', ''primary_window'']))
             ''primary_window'' InvalidPrimaryWindow)"
    and "s \<equiv> fst (parse_window_retaining_issue (non_null (pointer body [''rate_limit'', ''secondary_window'']))
             ''secondary_window'' InvalidSecondaryWindow)"
    and "secs \<equiv> the_or 0 (Option.bind (Option.bind (non_null (pointer body [''rate_limit'', ''primary_window'']))
            (\<lambda>v. jget v ''limit_window_seconds'')) as_i64)"
  shows "u_primary (parse_usage_at render show_f64 body t) = (if secs_7d \<le> secs \<and> s = None then None else p)"
    and "u_secondary (parse_usage_at render show_f64 body t) = (if secs_7d \<le> secs \<and> s = None then p else s)"
  by (simp_all add: parse_usage_at_def p_def s_def secs_def Let_def split_beta)

lemma additional_limits_eq:
  "u_additional_limits (parse_usage_at render show_f64 body t) =
     parsed_or [] (parse_additional_rate_limits body)
       @ opt_list (parsed_or None (parse_code_review_rate_limit body))"
  by (auto simp: parse_usage_at_def Let_def split_beta parsed_or_def map_err_def split: sum.splits)

lemma json_ok_non_null:
  "json_ok v \<Longrightarrow> is_none_or json_ok (non_null (pointer v ks))"
  by (auto simp: is_none_or_def non_null_def dest: json_ok_pointer split: option.splits)

text \<open>
  No unusable window reaches a sample. Every window of a parsed response, main, additional
  or code review, carries a finite percentage between 0 and 100 and a duration of at least one
  minute whose seconds fit an \<open>i64\<close>, so the validation that scoring and the display perform
  accepts it: a window the program shows is never one it would later refuse to score.
\<close>

theorem parsed_windows_usable:
  assumes "json_ok body" "0 < d"
  shows "list_all (\<lambda>w. validated_quota_window w d \<noteq> None)
           (usage_windows (parse_usage_at render show_f64 body t))"
proof -
  let ?u = "parse_usage_at render show_f64 body t"
  have main: "is_none_or window_sound (u_primary ?u)" "is_none_or window_sound (u_secondary ?u)"
    unfolding main_windows using retained_sound [OF json_ok_non_null [OF assms(1)]]
    by (simp_all del: pointer.simps)
  have "limit_sound l" if "l \<in> set (u_additional_limits ?u)" for l
    using that additional_limits_sound [OF _ assms(1)] code_review_sound [OF _ assms(1)]
    by (force simp: additional_limits_eq parsed_or_def opt_list_def split: sum.splits option.splits)
  then have "window_sound w" if "w \<in> set (usage_windows ?u)" for w
    using that main
    by (auto simp: usage_windows_def opt_list_set limit_sound_def) fastforce+
  moreover have "validated_quota_window w d \<noteq> None" if "window_sound w" for w
    using that assms(2)
    by (auto simp: window_sound_def validated_quota_window_def quota_window_duration_secs_def
        percent_in_range_iff is_some_and_def is_none_or_def checked_mul_def
        split: option.splits)
  ultimately show ?thesis by (simp add: list_all_iff)
qed

definition json_int :: "int \<Rightarrow> json" where
  "json_int n = JNumber \<lparr>n_u64 = u64_of_i64 n, n_i64 = Some n, n_f64 = Some (f64_of_int n)\<rparr>"

definition demo_window_json :: "int \<Rightarrow> int \<Rightarrow> json" where
  "demo_window_json used secs = JObject [(''used_percent'', json_int used), (''reset_at'', json_int 1000),
     (''limit_window_seconds'', json_int secs)]"

definition demo_body :: json where
  "demo_body = JObject [(''plan_type'', JString ''plus''),
     (''rate_limit'', JObject [(''primary_window'', demo_window_json 30 604800)])]"

lemma demo_body_ok: "json_ok demo_body"
  by (simp add: demo_body_def demo_window_json_def json_int_def number_ok_def u64_of_i64_def int_bounds)

lemma parsed_windows_usable_witness:
  "list_all (\<lambda>w. validated_quota_window w 604800 \<noteq> None)
     (usage_windows (parse_usage_at (\<lambda>_. []) (\<lambda>_. []) demo_body 0))"
  by (rule parsed_windows_usable [OF demo_body_ok]) simp

text \<open>
  The weekly quota is always in the secondary slot: after parsing, a primary window of seven
  days or more is kept as primary only beside a secondary window. Hence the fallback of the
  global pace, which would look for a weekly window in the primary slot, never changes anything
  for a parsed sample.
\<close>

theorem weekly_window_in_secondary:
  "main_weekly_window (parse_usage_at render show_f64 body t)
           = u_secondary (parse_usage_at render show_f64 body t)"
proof -
  let ?u = "parse_usage_at render show_f64 body t"
  have short: "\<not> is_some_and (\<lambda>m. window_7d_minutes \<le> m) (window_minutes w)"
    if "u_secondary ?u = None" "u_primary ?u = Some w" for w
  proof -
    let ?raw = "non_null (pointer body [''rate_limit'', ''primary_window''])"
    from that have secs: "the_or 0 (Option.bind (Option.bind ?raw
          (\<lambda>v. jget v ''limit_window_seconds'')) as_i64) < secs_7d"
      and w: "fst (parse_window_retaining_issue ?raw ''primary_window'' InvalidPrimaryWindow) = Some w"
      unfolding main_windows by (auto split: if_splits)
    from w obtain v where v: "?raw = Some v" "parse_window_checked v ''primary_window'' = Inr w"
      by (auto simp: parse_window_retaining_issue_def split: option.splits sum.splits)
    then obtain m where m: "v = JObject m"
      "parse_window_minutes (map_of m ''limit_window_seconds'') = Some (window_minutes w)"
      by (auto simp: parse_window_checked_def result_eq_Inr)
    from parse_window_minutes_Some [OF m(2)] show ?thesis
    proof (elim disjE exE conjE)
      fix j s
      assume "map_of m ''limit_window_seconds'' = Some j" "as_i64 j = Some s" "60 \<le> s"
        "window_minutes w = Some (s div 60)"
      with secs v m show ?thesis
        by (simp add: window_7d_minutes_def window_consts secs_7d_def)
    qed simp
  qed
  show ?thesis
    by (cases "u_secondary ?u"; cases "u_primary ?u") (use short in \<open>auto simp: main_weekly_window_def\<close>)
qed

lemma parse_usage_limited:
  fixes body render show_f64 t
  defines "u \<equiv> parse_usage_at render show_f64 body t"
  shows "u_parse_issues u \<noteq> [] \<or> u_spend_control_reached u \<or> u_rate_limit_reached_type u \<noteq> None
    \<Longrightarrow> u_account_limited u"
  by (auto simp: u_def parse_usage_at_def Let_def split_beta)

text \<open>
  C22. Parsing fails closed. Whatever the response says or hides, a sample that keeps a parse
  issue, reports spend control, or names any restriction other than the ordinary rate limit is
  marked as limited, carries an explicit blocker, and no candidate built from it is eligible for
  automatic selection.
\<close>

theorem parsing_fails_closed:
  assumes "u = parse_usage_at render show_f64 body t"
    and "u_parse_issues u \<noteq> [] \<or> u_spend_control_reached u
         \<or> (\<exists>reason. u_rate_limit_reached_type u = Some reason \<and> reason \<noteq> ''rate_limit_reached'')"
  shows "u_account_limited u \<and> explicit_account_blocker u \<noteq> None
     \<and> \<not> is_candidate_eligible (candidate_from_usage alias u plan last_used now) m"
proof -
  have "u_account_limited u" using assms parse_usage_limited by blast
  moreover have blocker: "explicit_account_blocker u \<noteq> None"
    using assms(2) by (auto simp: explicit_account_blocker_None)
  moreover have "\<not> is_candidate_eligible (candidate_from_usage alias u plan last_used now) m"
    using blocker by (simp add: is_candidate_eligible_def account_limit_active_def candidate_from_usage_def)
  ultimately show ?thesis by blast
qed

lemma parsing_fails_closed_witness:
  "explicit_account_blocker (parse_usage_at (\<lambda>_. []) (\<lambda>_. [])
     (JObject [(''plan_type'', json_int 3)]) 0) \<noteq> None"
  using parsing_fails_closed [OF refl, of "\<lambda>_. []" "\<lambda>_. []" "JObject [(''plan_type'', json_int 3)]" 0]
  by (simp add: parse_issues_eq parse_plan_type_def json_int_def issue_list_def)

end
