(* ===== verification/Safe_Text.thy ===== *)
theory Safe_Text
  imports Prelude
begin

text \<open>
  Untrusted text made safe for a terminal (\<open>src/src/safe_text.rs\<close>): control characters removed,
  and a bound on what is kept on disk.
\<close>

definition terminal_text :: "string \<Rightarrow> string" where
  "terminal_text value =
     (if list_ex is_control value then filter (\<lambda>c. \<not> is_control c) value else value)"

definition bounded_terminal_text :: "string \<Rightarrow> nat \<Rightarrow> string" where
  "bounded_terminal_text value max_chars = take max_chars (terminal_text value)"

lemma terminal_text_eq: "terminal_text s = filter (\<lambda>c. \<not> is_control c) s"
proof (cases "list_ex is_control s")
  case False
  then have "\<forall>c\<in>set s. \<not> is_control c" by (simp add: list_ex_iff)
  then show ?thesis using False by (simp add: terminal_text_def)
qed (simp add: terminal_text_def)

lemma bounded_terminal_text_clean: "\<forall>c\<in>set (bounded_terminal_text s n). \<not> is_control c"
  by (auto simp: bounded_terminal_text_def terminal_text_eq dest: in_set_takeD)

lemma bounded_terminal_text_length: "length (bounded_terminal_text s n) \<le> n"
  by (simp add: bounded_terminal_text_def)

lemma bounded_terminal_text_idem:
  "bounded_terminal_text (bounded_terminal_text s n) n = bounded_terminal_text s n"
proof -
  have "filter (\<lambda>c. \<not> is_control c) (bounded_terminal_text s n) = bounded_terminal_text s n"
    using bounded_terminal_text_clean by (simp add: filter_id_conv)
  then show ?thesis
    unfolding bounded_terminal_text_def [of "bounded_terminal_text s n"] terminal_text_eq
    using bounded_terminal_text_length [of s n] by simp
qed

end
