(* ===== verification/Cache.thy ===== *)
theory Cache
  imports Usage_Types Safe_Text
begin

text \<open>
  The derived cache (\<open>src/src/cache.rs\<close>): usage observations bound to a strict account identity,
  standing refusals of the auth server, selection history and workspace names, all keyed maps of
  one file. Every operation on the file is a function of the file; the random identities it
  draws are arguments. Parameters for library code: \<open>ser\<close>, the serialisation of an entry, and
  \<open>fingerprint\<close>, the hexadecimal SHA-256 of a token.
\<close>

section \<open>State\<close>

definition workspace_resolution_ttl :: u64 where
  "workspace_resolution_ttl = 24 * 60 * 60"

record cache_entry =
  ce_revision :: "string option"
  ce_account_id :: "string option"
  ce_email :: "string option"
  ce_ts :: u64
  ce_primary_used :: "f64 option"
  ce_primary_reset :: "i64 option"
  ce_primary_window_minutes :: "i64 option"
  ce_secondary_used :: "f64 option"
  ce_secondary_reset :: "i64 option"
  ce_secondary_window_minutes :: "i64 option"
  ce_credits_balance :: "f64 option"
  ce_unlimited_credits :: "bool option"
  ce_plan_type :: "string option"
  ce_reset_credits_available_count :: "u64 option"
  ce_reset_credits :: "reset_credit list"
  ce_reset_credits_error :: "string option"
  ce_reset_metadata_complete :: bool
  ce_account_limited :: bool
  ce_spend_control_reached :: bool
  ce_rate_limit_reached_type :: "string option"
  ce_individual_limit :: "spend_control_limit option"
  ce_additional_limits :: "additional_rate_limit list"
  ce_parse_issues :: "usage_parse_issue list"

record auth_failure_entry =
  af_ts :: u64
  af_credential :: string
  af_summary :: string
  af_detail :: string

record workspace_cache_entry =
  wc_ts :: u64
  wc_name :: "string option"

datatype workspace_state = WsUnresolved | WsNamed string | WsAbsent

record cache_file =
  cf_entries :: "string \<Rightarrow> cache_entry option"
  cf_usage_mutations :: "string \<Rightarrow> string option"
  cf_last_used :: "string \<Rightarrow> i64 option"
  cf_workspaces :: "string \<Rightarrow> workspace_cache_entry option"
  cf_workspace_names :: "string \<Rightarrow> string option"
  cf_workspace_names_absent :: "string \<Rightarrow> u64 option"
  cf_auth_failures :: "string \<Rightarrow> auth_failure_entry option"

definition empty_cache :: cache_file where
  "empty_cache = \<lparr>cf_entries = Map.empty, cf_usage_mutations = Map.empty,
     cf_last_used = Map.empty, cf_workspaces = Map.empty, cf_workspace_names = Map.empty,
     cf_workspace_names_absent = Map.empty, cf_auth_failures = Map.empty\<rparr>"

record usage_cache_baseline =
  bl_alias :: string
  bl_serialized_entry :: "string option"
  bl_mutation :: "string option"

definition timestamp_is_fresh :: "u64 \<Rightarrow> u64 \<Rightarrow> u64 \<Rightarrow> bool" where
  "timestamp_is_fresh now recorded_at ttl =
     is_some_and (\<lambda>age. age \<le> ttl) (checked_sub_u64 now recorded_at)"

section \<open>Entries\<close>

definition to_entry_with_binding ::
  "usage_info \<Rightarrow> u64 \<Rightarrow> strict_account_binding option \<Rightarrow> cache_entry" where
  "to_entry_with_binding u recorded_at binding =
     \<lparr>ce_revision = u_cache_revision u,
      ce_account_id = map_option sb_account_id binding,
      ce_email = map_option sb_email binding,
      ce_ts = recorded_at,
      ce_primary_used = Option.bind (u_primary u) used_percent,
      ce_primary_reset = Option.bind (u_primary u) resets_at,
      ce_primary_window_minutes = Option.bind (u_primary u) window_minutes,
      ce_secondary_used = Option.bind (u_secondary u) used_percent,
      ce_secondary_reset = Option.bind (u_secondary u) resets_at,
      ce_secondary_window_minutes = Option.bind (u_secondary u) window_minutes,
      ce_credits_balance = u_credits_balance u,
      ce_unlimited_credits = u_unlimited_credits u,
      ce_plan_type = u_plan_type u,
      ce_reset_credits_available_count = u_reset_credits_available_count u,
      ce_reset_credits = u_reset_credits u,
      ce_reset_credits_error = u_reset_credits_error u,
      ce_reset_metadata_complete = True,
      ce_account_limited = u_account_limited u,
      ce_spend_control_reached = u_spend_control_reached u,
      ce_rate_limit_reached_type = u_rate_limit_reached_type u,
      ce_individual_limit = u_individual_limit u,
      ce_additional_limits = u_additional_limits u,
      ce_parse_issues = u_parse_issues u\<rparr>"

definition entry_window ::
  "f64 option \<Rightarrow> i64 option \<Rightarrow> i64 option \<Rightarrow> window_usage option" where
  "entry_window used reset minutes =
     (if used \<noteq> None \<or> reset \<noteq> None
      then Some \<lparr>used_percent = used, resets_at = reset, window_minutes = minutes\<rparr> else None)"

definition from_entry :: "cache_entry \<Rightarrow> usage_info option" where
  "from_entry e =
     (case i64_of_u64 (ce_ts e) of
        None \<Rightarrow> None
      | Some fetched \<Rightarrow>
          Some \<lparr>u_cache_revision = ce_revision e,
                u_fetched_at = Some fetched,
                u_primary =
                  entry_window (ce_primary_used e) (ce_primary_reset e) (ce_primary_window_minutes e),
                u_secondary =
                  entry_window (ce_secondary_used e) (ce_secondary_reset e)
                    (ce_secondary_window_minutes e),
                u_credits_balance = ce_credits_balance e,
                u_unlimited_credits = ce_unlimited_credits e,
                u_plan_type = ce_plan_type e,
                u_reset_credits_available_count = ce_reset_credits_available_count e,
                u_reset_credits = ce_reset_credits e,
                u_reset_credits_error = ce_reset_credits_error e,
                u_account_limited = ce_account_limited e,
                u_spend_control_reached = ce_spend_control_reached e,
                u_rate_limit_reached_type = ce_rate_limit_reached_type e,
                u_individual_limit = ce_individual_limit e,
                u_additional_limits = ce_additional_limits e,
                u_parse_issues = ce_parse_issues e\<rparr>)"

definition belongs_to :: "cache_entry \<Rightarrow> strict_account_binding \<Rightarrow> bool" where
  "belongs_to e binding \<longleftrightarrow>
     ce_account_id e = Some (sb_account_id binding) \<and> ce_email e = Some (sb_email binding)"

definition fresh_usage :: "cache_file \<Rightarrow> string \<Rightarrow> u64 \<Rightarrow> u64 \<Rightarrow> usage_info option" where
  "fresh_usage cache alias now ttl =
     Option.bind (cf_entries cache alias) (\<lambda>e.
       if \<not> ce_reset_metadata_complete e then None
       else if timestamp_is_fresh now (ce_ts e) ttl then from_entry e else None)"

definition fresh_usage_bound ::
  "cache_file \<Rightarrow> string \<Rightarrow> strict_account_binding \<Rightarrow> u64 \<Rightarrow> u64 \<Rightarrow> usage_info option" where
  "fresh_usage_bound cache alias binding now ttl =
     Option.bind (cf_entries cache alias) (\<lambda>e.
       if \<not> belongs_to e binding \<or> \<not> ce_reset_metadata_complete e then None
       else if timestamp_is_fresh now (ce_ts e) ttl then from_entry e else None)"

section \<open>Snapshots\<close>

definition usage_cache_baseline_of ::
  "(cache_entry \<Rightarrow> string) \<Rightarrow> cache_file \<Rightarrow> string \<Rightarrow> usage_cache_baseline" where
  "usage_cache_baseline_of ser cache alias =
     \<lparr>bl_alias = alias, bl_serialized_entry = map_option ser (cf_entries cache alias),
      bl_mutation = cf_usage_mutations cache alias\<rparr>"

record auto_select_lookup =
  lk_usage :: "usage_info option"
  lk_reset_metadata_complete :: bool
  lk_baseline :: usage_cache_baseline

definition auto_select_lookup_of ::
  "(cache_entry \<Rightarrow> string) \<Rightarrow> cache_file \<Rightarrow> u64 \<Rightarrow> u64 \<Rightarrow> string \<Rightarrow> strict_account_binding
     \<Rightarrow> auto_select_lookup" where
  "auto_select_lookup_of ser cache now ttl alias binding =
     (let entry = cf_entries cache alias;
          usage = Option.bind
            (filter_opt (\<lambda>e. belongs_to e binding \<and> timestamp_is_fresh now (ce_ts e) ttl) entry)
            from_entry
      in \<lparr>lk_usage = usage,
          lk_reset_metadata_complete =
            (usage \<noteq> None \<and> is_some_and ce_reset_metadata_complete entry),
          lk_baseline = usage_cache_baseline_of ser cache alias\<rparr>)"

definition auto_select_usage_snapshot_from_cache ::
  "(cache_entry \<Rightarrow> string) \<Rightarrow> cache_file \<Rightarrow> (string \<Rightarrow> strict_account_binding option) \<Rightarrow> u64 \<Rightarrow> u64
     \<Rightarrow> string \<Rightarrow> auto_select_lookup option" where
  "auto_select_usage_snapshot_from_cache ser cache bindings now ttl alias =
     map_option (auto_select_lookup_of ser cache now ttl alias) (bindings alias)"

definition workspace_state_of :: "cache_file \<Rightarrow> string \<Rightarrow> u64 \<Rightarrow> workspace_state" where
  "workspace_state_of cache account_id now =
     (case filter_opt (\<lambda>e. timestamp_is_fresh now (wc_ts e) workspace_resolution_ttl)
             (cf_workspaces cache account_id) of
        None \<Rightarrow> WsUnresolved
      | Some e \<Rightarrow> (case wc_name e of Some name \<Rightarrow> WsNamed name | None \<Rightarrow> WsAbsent))"

text \<open>How long a resolved workspace stays fresh, in seconds.\<close>

definition workspace_fresh_for :: "cache_file \<Rightarrow> string \<Rightarrow> u64 \<Rightarrow> u64 option" where
  "workspace_fresh_for cache account_id now =
     (if workspace_state_of cache account_id now = WsUnresolved then None
      else map_option
             (\<lambda>e. saturating_add_u64 (wc_ts e) workspace_resolution_ttl - now)
             (cf_workspaces cache account_id))"

record cache_snapshot =
  sn_usage :: "string \<Rightarrow> usage_info option"
  sn_workspaces :: "string \<Rightarrow> workspace_state option"
  sn_workspace_fresh_for :: "string \<Rightarrow> u64 option"

definition workspace_snapshot ::
  "cache_file \<Rightarrow> string list \<Rightarrow> u64 \<Rightarrow> (string \<Rightarrow> workspace_state option) \<times> (string \<Rightarrow> u64 option)" where
  "workspace_snapshot cache account_ids now =
     ((\<lambda>i. if i \<in> set account_ids then Some (workspace_state_of cache i now) else None),
      (\<lambda>i. if i \<in> set account_ids then workspace_fresh_for cache i now else None))"

definition snapshot_from_cache_bound ::
  "cache_file \<Rightarrow> (string \<Rightarrow> strict_account_binding option) \<Rightarrow> string list \<Rightarrow> u64 \<Rightarrow> u64
     \<Rightarrow> cache_snapshot" where
  "snapshot_from_cache_bound cache bindings account_ids now ttl =
     \<lparr>sn_usage = (\<lambda>alias. Option.bind (bindings alias)
                     (\<lambda>b. fresh_usage_bound cache alias b now ttl)),
      sn_workspaces = fst (workspace_snapshot cache account_ids now),
      sn_workspace_fresh_for = snd (workspace_snapshot cache account_ids now)\<rparr>"

definition snapshot_from_cache ::
  "cache_file \<Rightarrow> string list \<Rightarrow> string list \<Rightarrow> u64 \<Rightarrow> u64 \<Rightarrow> cache_snapshot" where
  "snapshot_from_cache cache aliases account_ids now ttl =
     \<lparr>sn_usage = (\<lambda>alias. if alias \<in> set aliases then fresh_usage cache alias now ttl else None),
      sn_workspaces = fst (workspace_snapshot cache account_ids now),
      sn_workspace_fresh_for = snd (workspace_snapshot cache account_ids now)\<rparr>"

section \<open>Mutations\<close>

definition mark_usage_mutation :: "string \<Rightarrow> string \<Rightarrow> cache_file \<Rightarrow> cache_file" where
  "mark_usage_mutation fresh alias cache =
     cache\<lparr>cf_usage_mutations := (cf_usage_mutations cache)(alias \<mapsto> fresh)\<rparr>"

definition put_entry :: "string \<Rightarrow> cache_entry \<Rightarrow> cache_file \<Rightarrow> cache_file" where
  "put_entry alias e cache = cache\<lparr>cf_entries := (cf_entries cache)(alias \<mapsto> e)\<rparr>"

definition replace_bound_usage_at ::
  "string \<Rightarrow> string \<Rightarrow> string \<Rightarrow> strict_account_binding \<Rightarrow> usage_info \<Rightarrow> u64 \<Rightarrow> cache_file
     \<Rightarrow> usage_info \<times> cache_file" where
  "replace_bound_usage_at revision fresh alias binding u recorded_at cache =
     (let versioned = u\<lparr>u_cache_revision := Some revision\<rparr> in
      (versioned,
       mark_usage_mutation fresh alias
         (put_entry alias (to_entry_with_binding versioned recorded_at (Some binding)) cache)))"

datatype reset_metadata_mode = PreserveExisting | Complete

definition replace_core_probe_usage_at ::
  "string \<Rightarrow> string \<Rightarrow> string \<Rightarrow> strict_account_binding \<Rightarrow> usage_info \<Rightarrow> reset_metadata_mode
     \<Rightarrow> u64 \<Rightarrow> cache_file \<Rightarrow> usage_info \<times> cache_file" where
  "replace_core_probe_usage_at revision fresh alias binding u mode recorded_at cache =
     (let preserved =
            map_option
              (\<lambda>e. (ce_reset_credits_available_count e, ce_reset_credits e,
                    ce_reset_credits_error e, ce_reset_metadata_complete e))
              (filter_opt (\<lambda>e. belongs_to e binding) (cf_entries cache alias));
          (versioned0, whole) =
            (case mode of
               Complete \<Rightarrow> (u, True)
             | PreserveExisting \<Rightarrow>
                 (case the_or (None, [], None, False) preserved of
                    (count, credits, error, whole) \<Rightarrow>
                      (u\<lparr>u_reset_credits_available_count := count, u_reset_credits := credits,
                         u_reset_credits_error := error\<rparr>, whole)));
          versioned = versioned0\<lparr>u_cache_revision := Some revision\<rparr>;
          entry = (to_entry_with_binding versioned recorded_at (Some binding))
                    \<lparr>ce_reset_metadata_complete := whole\<rparr>
      in (versioned, mark_usage_mutation fresh alias (put_entry alias entry cache)))"

definition complete_core_probe_bound_at ::
  "(cache_entry \<Rightarrow> string) \<Rightarrow> string \<Rightarrow> string \<Rightarrow> string \<Rightarrow> strict_account_binding
     \<Rightarrow> usage_cache_baseline \<Rightarrow> usage_info \<Rightarrow> reset_metadata_mode \<Rightarrow> u64 \<Rightarrow> cache_file
     \<Rightarrow> (usage_info \<times> bool \<times> cache_file) result" where
  "complete_core_probe_bound_at ser revision fresh alias binding baseline u mode recorded_at cache =
     (if bl_alias baseline \<noteq> alias
      then bail (''core-probe cache baseline for '' @ quoted (bl_alias baseline)
                 @ '' cannot complete profile '' @ quoted alias)
      else if map_option ser (cf_entries cache alias) = bl_serialized_entry baseline
                \<and> cf_usage_mutations cache alias = bl_mutation baseline
      then (case replace_core_probe_usage_at revision fresh alias binding u mode recorded_at cache of
              (versioned, cache') \<Rightarrow> Inr (versioned, True, cache'))
      else if is_some_and (\<lambda>e. belongs_to e binding) (cf_entries cache alias)
      then (case Option.bind (cf_entries cache alias) from_entry of
              Some current \<Rightarrow> Inr (current, False, cache)
            | None \<Rightarrow> bail (''intervening usage-cache generation for '' @ quoted alias
                            @ '' has an invalid timestamp''))
      else bail (''usage-cache generation for '' @ quoted alias
                 @ '' was invalidated or rebound while its core probe was being completed''))"

definition merge_reset_credit_enrichment ::
  "string \<Rightarrow> string \<Rightarrow> strict_account_binding \<Rightarrow> usage_info \<Rightarrow> cache_file \<Rightarrow> bool \<times> cache_file" where
  "merge_reset_credit_enrichment fresh alias binding u cache =
     (case u_cache_revision u of
        None \<Rightarrow> (False, cache)
      | Some expected_revision \<Rightarrow>
          (case cf_entries cache alias of
             None \<Rightarrow> (False, cache)
           | Some e \<Rightarrow>
               if \<not> belongs_to e binding \<or> ce_revision e \<noteq> Some expected_revision then (False, cache)
               else (True,
                     mark_usage_mutation fresh alias
                       (put_entry alias
                         (e\<lparr>ce_reset_credits_available_count := u_reset_credits_available_count u,
                            ce_reset_credits := u_reset_credits u,
                            ce_reset_credits_error := u_reset_credits_error u,
                            ce_reset_metadata_complete := True\<rparr>) cache))))"

definition stored_text_max :: nat where "stored_text_max = 512"

definition sanitize_for_storage :: "string \<Rightarrow> string" where
  "sanitize_for_storage t = bounded_terminal_text t stored_text_max"

definition record_auth_failure ::
  "(string \<Rightarrow> string) \<Rightarrow> string \<Rightarrow> string \<Rightarrow> string \<Rightarrow> string \<Rightarrow> u64 \<Rightarrow> cache_file \<Rightarrow> cache_file" where
  "record_auth_failure fingerprint alias refresh_token summary detail recorded_at cache =
     cache\<lparr>cf_auth_failures := (cf_auth_failures cache)(alias \<mapsto>
       \<lparr>af_ts = recorded_at, af_credential = fingerprint refresh_token,
        af_summary = sanitize_for_storage summary, af_detail = sanitize_for_storage detail\<rparr>)\<rparr>"

definition drop_fetch_state :: "string \<Rightarrow> string \<Rightarrow> cache_file \<Rightarrow> bool \<times> cache_file" where
  "drop_fetch_state fresh alias cache =
     (cf_entries cache alias \<noteq> None \<or> cf_auth_failures cache alias \<noteq> None,
      mark_usage_mutation fresh alias
        (cache\<lparr>cf_entries := (cf_entries cache)(alias := None),
               cf_auth_failures := (cf_auth_failures cache)(alias := None)\<rparr>))"

definition drop_fetch_state_bound ::
  "string \<Rightarrow> string \<Rightarrow> strict_account_binding \<Rightarrow> cache_file \<Rightarrow> bool \<times> cache_file" where
  "drop_fetch_state_bound fresh alias binding cache =
     (if is_some_and (\<lambda>e. \<not> belongs_to e binding) (cf_entries cache alias) then (False, cache)
      else (True, snd (drop_fetch_state fresh alias cache)))"

definition drop_profile_state :: "string \<Rightarrow> string \<Rightarrow> cache_file \<Rightarrow> bool \<times> cache_file" where
  "drop_profile_state fresh alias cache =
     (case drop_fetch_state fresh alias cache of (dropped, cache') \<Rightarrow>
        (dropped \<or> cf_last_used cache' alias \<noteq> None,
         cache'\<lparr>cf_last_used := (cf_last_used cache')(alias := None)\<rparr>))"

definition auth_failure_for ::
  "(string \<Rightarrow> string) \<Rightarrow> cache_file \<Rightarrow> string \<Rightarrow> string \<Rightarrow> auth_failure_entry option" where
  "auth_failure_for fingerprint cache alias refresh_token =
     filter_opt (\<lambda>e. af_credential e = fingerprint refresh_token) (cf_auth_failures cache alias)"

definition auth_failure_to_usage_error :: "auth_failure_entry \<Rightarrow> usage_error" where
  "auth_failure_to_usage_error e = \<lparr>ue_summary = af_summary e, ue_detail = af_detail e\<rparr>"

definition auth_failures_for ::
  "(string \<Rightarrow> string) \<Rightarrow> cache_file \<Rightarrow> (string \<Rightarrow> string option) \<Rightarrow> string \<Rightarrow> usage_error option" where
  "auth_failures_for fingerprint cache credentials alias =
     Option.bind (credentials alias) (\<lambda>token.
       map_option auth_failure_to_usage_error (auth_failure_for fingerprint cache alias token))"

definition move_key :: "string \<Rightarrow> string \<Rightarrow> (string \<Rightarrow> 'v option) \<Rightarrow> string \<Rightarrow> 'v option" where
  "move_key old new m =
     (case m old of None \<Rightarrow> m | Some v \<Rightarrow> (m(old := None))(new \<mapsto> v))"

text \<open>\<open>fresh1\<close> marks the cleared destination, \<open>fresh2\<close> and \<open>fresh3\<close> the two names at the end.\<close>

definition migrate_alias ::
  "string \<Rightarrow> string \<Rightarrow> string \<Rightarrow> string \<Rightarrow> string \<Rightarrow> cache_file \<Rightarrow> bool \<times> cache_file" where
  "migrate_alias fresh1 fresh2 fresh3 old new cache =
     (if old = new then (False, cache)
      else
        let c1 = snd (drop_profile_state fresh1 new cache);
            c2 = c1\<lparr>cf_entries := move_key old new (cf_entries c1)\<rparr>;
            c3 = c2\<lparr>cf_last_used := move_key old new (cf_last_used c2)\<rparr>;
            c4 = c3\<lparr>cf_auth_failures := move_key old new (cf_auth_failures c3)\<rparr>
        in (True, mark_usage_mutation fresh3 new (mark_usage_mutation fresh2 old c4)))"

definition update_workspace_name ::
  "string \<Rightarrow> string option \<Rightarrow> u64 \<Rightarrow> cache_file \<Rightarrow> bool \<times> cache_file" where
  "update_workspace_name account_id name recorded_at cache =
     (let e = \<lparr>wc_ts = recorded_at, wc_name = name\<rparr> in
      if cf_workspaces cache account_id = Some e then (False, cache)
      else (True, cache\<lparr>cf_workspaces := (cf_workspaces cache)(account_id \<mapsto> e)\<rparr>))"

definition set_last_used :: "string \<Rightarrow> i64 \<Rightarrow> cache_file \<Rightarrow> cache_file" where
  "set_last_used alias now cache =
     cache\<lparr>cf_last_used := (cf_last_used cache)(alias \<mapsto> now)\<rparr>"

definition apply_workspace_state :: "account_info \<Rightarrow> workspace_state \<Rightarrow> account_info" where
  "apply_workspace_state info state =
     (case state of
        WsUnresolved \<Rightarrow> info
      | WsNamed name \<Rightarrow> info\<lparr>ai_workspace_name := Some name\<rparr>
      | WsAbsent \<Rightarrow> info\<lparr>ai_workspace_name := None\<rparr>)"

definition migrate_legacy_workspaces :: "cache_file \<Rightarrow> cache_file" where
  "migrate_legacy_workspaces cache =
     cache\<lparr>cf_workspaces := (\<lambda>i. or_else (cf_workspaces cache i)
              (map_option (\<lambda>ts. \<lparr>wc_ts = ts, wc_name = None\<rparr>) (cf_workspace_names_absent cache i))),
           cf_workspace_names_absent := Map.empty,
           cf_workspace_names := Map.empty\<rparr>"

section \<open>Reading back what was written\<close>

text \<open>A window with neither a percentage nor a reset carries nothing and is not stored.\<close>

definition storable :: "usage_info \<Rightarrow> bool" where
  "storable u \<longleftrightarrow>
     is_none_or (\<lambda>w. used_percent w \<noteq> None \<or> resets_at w \<noteq> None) (u_primary u)
       \<and> is_none_or (\<lambda>w. used_percent w \<noteq> None \<or> resets_at w \<noteq> None) (u_secondary u)"

lemma entry_window_of:
  "is_none_or (\<lambda>w. used_percent w \<noteq> None \<or> resets_at w \<noteq> None) w \<Longrightarrow>
     entry_window (Option.bind w used_percent) (Option.bind w resets_at) (Option.bind w window_minutes) = w"
  by (cases w) (auto simp: entry_window_def)

lemma from_to_entry:
  "storable u \<Longrightarrow> int ts \<le> i64_max \<Longrightarrow>
     from_entry (to_entry_with_binding u ts b) = Some (u\<lparr>u_fetched_at := Some (int ts)\<rparr>)"
  by (simp add: from_entry_def to_entry_with_binding_def storable_def entry_window_of
      i64_of_u64_def)

lemma from_to_entry_complete [simp]:
  "from_entry (e\<lparr>ce_reset_metadata_complete := x\<rparr>) = from_entry e"
  by (simp add: from_entry_def split: option.split)

lemma put_entry_simps [simp]:
  "cf_entries (put_entry alias e c) = (cf_entries c)(alias \<mapsto> e)"
  "cf_usage_mutations (put_entry alias e c) = cf_usage_mutations c"
  "cf_last_used (put_entry alias e c) = cf_last_used c"
  "cf_workspaces (put_entry alias e c) = cf_workspaces c"
  "cf_auth_failures (put_entry alias e c) = cf_auth_failures c"
  by (simp_all add: put_entry_def)

lemma mark_usage_mutation_simps [simp]:
  "cf_entries (mark_usage_mutation m alias c) = cf_entries c"
  "cf_usage_mutations (mark_usage_mutation m alias c) = (cf_usage_mutations c)(alias \<mapsto> m)"
  "cf_last_used (mark_usage_mutation m alias c) = cf_last_used c"
  "cf_workspaces (mark_usage_mutation m alias c) = cf_workspaces c"
  "cf_auth_failures (mark_usage_mutation m alias c) = cf_auth_failures c"
  by (simp_all add: mark_usage_mutation_def)

lemma drop_fetch_state_simps [simp]:
  "cf_entries (snd (drop_fetch_state m alias c)) = (cf_entries c)(alias := None)"
  "cf_auth_failures (snd (drop_fetch_state m alias c)) = (cf_auth_failures c)(alias := None)"
  "cf_usage_mutations (snd (drop_fetch_state m alias c)) = (cf_usage_mutations c)(alias \<mapsto> m)"
  "cf_last_used (snd (drop_fetch_state m alias c)) = cf_last_used c"
  "cf_workspaces (snd (drop_fetch_state m alias c)) = cf_workspaces c"
  by (simp_all add: drop_fetch_state_def)

lemma drop_profile_state_simps [simp]:
  "cf_entries (snd (drop_profile_state m alias c)) = (cf_entries c)(alias := None)"
  "cf_auth_failures (snd (drop_profile_state m alias c)) = (cf_auth_failures c)(alias := None)"
  "cf_usage_mutations (snd (drop_profile_state m alias c)) = (cf_usage_mutations c)(alias \<mapsto> m)"
  "cf_last_used (snd (drop_profile_state m alias c)) = (cf_last_used c)(alias := None)"
  "cf_workspaces (snd (drop_profile_state m alias c)) = cf_workspaces c"
  by (simp_all add: drop_profile_state_def split_beta)

lemma belongs_to_entry [simp]:
  "belongs_to (to_entry_with_binding u ts (Some b)) b' \<longleftrightarrow> b = b'"
  by (cases b; cases b') (auto simp: belongs_to_def to_entry_with_binding_def)

text \<open>
  C26. A bound write is read back exactly, and only by its owner. After a usage sample is stored
  for an alias under a strict account identity, a read within the lifetime under the same
  identity returns the sample as written, with its new revision and the time it was recorded; a
  read under any other identity, or after the lifetime, or before the recording time, is a miss;
  and no other alias changes.
\<close>

theorem bound_write_read:
  assumes "storable u" "int ts \<le> i64_max"
    and put: "replace_bound_usage_at revision fresh alias b u ts cache = (v, cache')"
  shows "fresh_usage_bound cache' alias b' now ttl =
      (if b' = b \<and> ts \<le> now \<and> now - ts \<le> ttl
       then Some (u\<lparr>u_cache_revision := Some revision, u_fetched_at := Some (int ts)\<rparr>) else None)
    \<and> (other \<noteq> alias \<longrightarrow>
         fresh_usage_bound cache' other b' now ttl = fresh_usage_bound cache other b' now ttl)"
proof -
  have cache': "cache' = mark_usage_mutation fresh alias (put_entry alias
      (to_entry_with_binding (u\<lparr>u_cache_revision := Some revision\<rparr>) ts (Some b)) cache)"
    using put by (auto simp: replace_bound_usage_at_def Let_def)
  have ts: "ce_ts (to_entry_with_binding u' ts b'') = ts"
    "ce_reset_metadata_complete (to_entry_with_binding u' ts b'')" for u' b''
    by (simp_all add: to_entry_with_binding_def)
  have "storable (u\<lparr>u_cache_revision := Some revision\<rparr>)" using assms(1) by (simp add: storable_def)
  from from_to_entry [OF this assms(2)] show ?thesis
    by (auto simp: cache' fresh_usage_bound_def ts timestamp_is_fresh_def checked_sub_u64_def)
qed

definition demo_binding :: strict_account_binding where
  "demo_binding = \<lparr>sb_account_id = ''acc'', sb_email = ''e''\<rparr>"

lemma bound_write_read_witness:
  "fresh_usage_bound (snd (replace_bound_usage_at ''r'' ''m'' ''a'' demo_binding default_usage 100 empty_cache))
     ''a'' demo_binding 150 60
     = Some (default_usage\<lparr>u_cache_revision := Some ''r'', u_fetched_at := Some 100\<rparr>)"
  using bound_write_read [of default_usage 100 "''r''" "''m''" "''a''" demo_binding empty_cache
      "fst (replace_bound_usage_at ''r'' ''m'' ''a'' demo_binding default_usage 100 empty_cache)"
      "snd (replace_bound_usage_at ''r'' ''m'' ''a'' demo_binding default_usage 100 empty_cache)"
      demo_binding 150 60 "''b''"]
  by (simp add: storable_def default_usage_def int_bounds)

lemma move_key_apply:
  "old \<noteq> new \<Longrightarrow> m new = None \<Longrightarrow>
     move_key old new m = (\<lambda>k. if k = new then m old else if k = old then None else m k)"
  by (auto simp: move_key_def split: option.splits)

text \<open>
  C29. Renaming a profile moves its whole cache generation. The new name owns exactly what the old
  name owned (usage, standing refusal, selection history), nothing of a profile that had the new
  name before survives, the old name owns nothing, both names get new mutation identities, and
  every other profile and every workspace name is untouched.
\<close>

theorem rename_moves_generation:
  assumes "old \<noteq> new" "migrate_alias f1 f2 f3 old new cache = (changed, cache')"
  shows "changed
     \<and> cf_entries cache' = (cf_entries cache)(old := None, new := cf_entries cache old)
     \<and> cf_auth_failures cache' = (cf_auth_failures cache)(old := None, new := cf_auth_failures cache old)
     \<and> cf_last_used cache' = (cf_last_used cache)(old := None, new := cf_last_used cache old)
     \<and> cf_usage_mutations cache' = (cf_usage_mutations cache)(old \<mapsto> f2, new \<mapsto> f3)
     \<and> cf_workspaces cache' = cf_workspaces cache"
proof -
  have [simp]: "move_key old new (m(new := None)) = m(old := None, new := m old)" for m :: "string \<Rightarrow> 'v option"
    using assms(1) by (simp add: move_key_apply fun_eq_iff)
  show ?thesis using assms by (auto simp: migrate_alias_def Let_def fun_upd_twist)
qed

lemma rename_moves_generation_witness:
  "cf_last_used (snd (migrate_alias ''1'' ''2'' ''3'' ''a'' ''b'' (set_last_used ''a'' 7 empty_cache))) ''b'' = Some 7"
  using rename_moves_generation [of "''a''" "''b''" "''1''" "''2''" "''3''" "set_last_used ''a'' 7 empty_cache"
      "fst (migrate_alias ''1'' ''2'' ''3'' ''a'' ''b'' (set_last_used ''a'' 7 empty_cache))"
      "snd (migrate_alias ''1'' ''2'' ''3'' ''a'' ''b'' (set_last_used ''a'' 7 empty_cache))"]
  by (simp add: set_last_used_def)

end
