(* ===== verification/Cache_Store.thy ===== *)
theory Cache_Store
  imports Cache
begin

text \<open>
  The cache as the program uses it (\<open>src/src/cache.rs\<close>): each public operation takes the lock, loads the
  file, applies a mutation and publishes the result. The interleaving of operations by several
  tasks and processes is a sequence of such transactions, and the compare-and-swap of automatic
  selection is proved against every such sequence through the interface \<open>stamped_store\<close>.
\<close>

section \<open>The file\<close>

datatype disk = Missing | Unreadable anyhow | Stored cache_file

text \<open>
  How a write ends: durable, visible with its durability unconfirmed, or not done. The second
  carries the error that \<open>require_durable_private_write\<close> makes of it.
\<close>

datatype write_outcome = DurablyPublished | VisibleUnconfirmed anyhow | WriteFailed anyhow

definition load_cache_checked :: "disk \<Rightarrow> cache_file result" where
  "load_cache_checked d =
     (case d of
        Missing \<Rightarrow> Inr empty_cache
      | Unreadable e \<Rightarrow> Inl e
      | Stored c \<Rightarrow> Inr (migrate_legacy_workspaces c))"

definition save_cache :: "write_outcome \<Rightarrow> cache_file \<Rightarrow> disk \<Rightarrow> unit result \<times> disk" where
  "save_cache w c d =
     (case w of
        DurablyPublished \<Rightarrow> (Inr (), Stored c)
      | VisibleUnconfirmed e \<Rightarrow> (Inl e, Stored c)
      | WriteFailed e \<Rightarrow> (Inl e, d))"

text \<open>
  One transaction under the lock: the mutation returns its answer, whether the file changed, and
  the new file. An error before the write leaves the disk as it was; \<open>ctx\<close> is the context that
  some operations add to the error of the write.
\<close>

definition with_cache ::
  "unit result \<Rightarrow> write_outcome \<Rightarrow> anyhow \<Rightarrow> (cache_file \<Rightarrow> ('a \<times> bool \<times> cache_file) result)
     \<Rightarrow> disk \<Rightarrow> 'a result \<times> disk" where
  "with_cache lock w ctx mutation d =
     (case lock of
        Inl e \<Rightarrow> (Inl e, d)
      | Inr _ \<Rightarrow>
          (case and_then (load_cache_checked d) mutation of
             Inl e \<Rightarrow> (Inl e, d)
           | Inr (x, changed, c) \<Rightarrow>
               if changed then
                 (case save_cache w c d of (r, d') \<Rightarrow> (map_ok (\<lambda>_. x) (map_err (\<lambda>e. ctx @ e) r), d'))
               else (Inr x, d)))"

definition u64_clock :: "string \<Rightarrow> i64 result \<Rightarrow> u64 result" where
  "u64_clock what clock =
     and_then clock (\<lambda>now.
       with_context what
         (ok_or [''out of range integral type conversion attempted''] (u64_of_i64 now)))"

section \<open>Reads\<close>

definition read_cache :: "unit result \<Rightarrow> disk \<Rightarrow> (cache_file \<Rightarrow> 'a result) \<Rightarrow> 'a result" where
  "read_cache lock d f = and_then lock (\<lambda>_. and_then (load_cache_checked d) f)"

definition get_bound ::
  "unit result \<Rightarrow> u64 result \<Rightarrow> i64 result \<Rightarrow> disk \<Rightarrow> string \<Rightarrow> strict_account_binding
     \<Rightarrow> usage_info option result" where
  "get_bound lock ttl clock d alias binding =
     read_cache lock d (\<lambda>cache. and_then ttl (\<lambda>ttl.
       and_then (u64_clock ''converting usage-cache timestamp'' clock) (\<lambda>now.
         Inr (fresh_usage_bound cache alias binding now ttl))))"

definition get_auto_select_usage_snapshot ::
  "(cache_entry \<Rightarrow> string) \<Rightarrow> unit result \<Rightarrow> u64 result \<Rightarrow> i64 result \<Rightarrow> disk
     \<Rightarrow> (string \<Rightarrow> strict_account_binding option) \<Rightarrow> (string \<Rightarrow> auto_select_lookup option) result" where
  "get_auto_select_usage_snapshot ser lock ttl clock d bindings =
     read_cache lock d (\<lambda>cache. and_then ttl (\<lambda>ttl.
       and_then (u64_clock ''converting usage-cache timestamp'' clock) (\<lambda>now.
         Inr (auto_select_usage_snapshot_from_cache ser cache bindings now ttl))))"

definition get_snapshot_bound ::
  "unit result \<Rightarrow> u64 result \<Rightarrow> i64 result \<Rightarrow> disk \<Rightarrow> (string \<Rightarrow> strict_account_binding option)
     \<Rightarrow> string list \<Rightarrow> cache_snapshot result" where
  "get_snapshot_bound lock ttl clock d bindings account_ids =
     read_cache lock d (\<lambda>cache. and_then ttl (\<lambda>ttl.
       and_then (u64_clock ''converting usage-cache timestamp'' clock) (\<lambda>now.
         Inr (snapshot_from_cache_bound cache bindings account_ids now ttl))))"

definition get_snapshot ::
  "unit result \<Rightarrow> u64 result \<Rightarrow> i64 result \<Rightarrow> disk \<Rightarrow> string list \<Rightarrow> string list
     \<Rightarrow> cache_snapshot result" where
  "get_snapshot lock ttl clock d aliases account_ids =
     read_cache lock d (\<lambda>cache. and_then ttl (\<lambda>ttl.
       and_then (u64_clock ''converting usage-cache timestamp'' clock) (\<lambda>now.
         Inr (snapshot_from_cache cache aliases account_ids now ttl))))"

definition get_auth_failure ::
  "(string \<Rightarrow> string) \<Rightarrow> unit result \<Rightarrow> disk \<Rightarrow> string \<Rightarrow> string \<Rightarrow> usage_error option result" where
  "get_auth_failure fingerprint lock d alias refresh_token =
     read_cache lock d (\<lambda>cache.
       Inr (map_option auth_failure_to_usage_error
              (auth_failure_for fingerprint cache alias refresh_token)))"

definition last_used_snapshot_checked :: "unit result \<Rightarrow> disk \<Rightarrow> (string \<Rightarrow> i64 option) result" where
  "last_used_snapshot_checked lock d = read_cache lock d (\<lambda>cache. Inr (cf_last_used cache))"

definition apply_workspace_name ::
  "unit result \<Rightarrow> u64 result \<Rightarrow> i64 result \<Rightarrow> disk \<Rightarrow> account_info \<Rightarrow> account_info result" where
  "apply_workspace_name lock ttl clock d info =
     (case ai_account_id info of
        None \<Rightarrow> Inr info
      | Some account_id \<Rightarrow>
          map_ok (\<lambda>snapshot. apply_workspace_state info
                    (the_or WsUnresolved (sn_workspaces snapshot account_id)))
            (get_snapshot lock ttl clock d [] [account_id]))"

section \<open>Writes\<close>

definition put_bound_versioned ::
  "unit result \<Rightarrow> write_outcome \<Rightarrow> i64 result \<Rightarrow> string \<Rightarrow> string \<Rightarrow> string
     \<Rightarrow> strict_account_binding \<Rightarrow> usage_info \<Rightarrow> disk \<Rightarrow> usage_info result \<times> disk" where
  "put_bound_versioned lock w clock revision fresh alias binding u =
     with_cache lock w [] (\<lambda>cache.
       and_then (u64_clock ''converting usage-cache timestamp'' clock) (\<lambda>now.
         case replace_bound_usage_at revision fresh alias binding u now cache of
           (versioned, cache') \<Rightarrow> Inr (versioned, True, cache')))"

record core_probe_update =
  cu_alias :: string
  cu_binding :: strict_account_binding
  cu_baseline :: usage_cache_baseline
  cu_usage :: usage_info
  cu_reset_metadata :: reset_metadata_mode
  cu_revision :: string
  cu_fresh :: string

record core_probe_outcome =
  co_alias :: string
  co_usage :: usage_info
  co_baseline :: usage_cache_baseline
  co_reset_metadata_complete :: bool

text \<open>The checks before the lock: each baseline is the profile's own, and no profile comes twice.\<close>

fun check_probe_aliases :: "string list \<Rightarrow> core_probe_update list \<Rightarrow> unit result" where
  "check_probe_aliases seen [] = Inr ()"
| "check_probe_aliases seen (update # updates) =
     (if bl_alias (cu_baseline update) \<noteq> cu_alias update
      then bail (''core-probe cache baseline for '' @ quoted (bl_alias (cu_baseline update))
                 @ '' cannot complete profile '' @ quoted (cu_alias update))
      else if cu_alias update \<in> set seen
      then bail (''automatic-selection cache batch contains duplicate profile ''
                 @ quoted (cu_alias update))
      else check_probe_aliases (cu_alias update # seen) updates)"

fun complete_probes ::
  "(cache_entry \<Rightarrow> string) \<Rightarrow> u64 \<Rightarrow> core_probe_update list \<Rightarrow> cache_file
     \<Rightarrow> (core_probe_outcome list \<times> bool \<times> cache_file) result" where
  "complete_probes ser recorded_at [] cache = Inr ([], False, cache)"
| "complete_probes ser recorded_at (update # updates) cache =
     (case complete_core_probe_bound_at ser (cu_revision update) (cu_fresh update) (cu_alias update)
             (cu_binding update) (cu_baseline update) (cu_usage update) (cu_reset_metadata update)
             recorded_at cache of
        Inl e \<Rightarrow> Inl e
      | Inr (u, changed, cache') \<Rightarrow>
          (case cf_entries cache' (cu_alias update) of
             None \<Rightarrow> bail (''completed core probe for '' @ quoted (cu_alias update)
                           @ '' has no cache entry'')
           | Some e \<Rightarrow>
               (case complete_probes ser recorded_at updates cache' of
                  Inl err \<Rightarrow> Inl err
                | Inr (outcomes, later, cache'') \<Rightarrow>
                    Inr (\<lparr>co_alias = cu_alias update, co_usage = u,
                          co_baseline = usage_cache_baseline_of ser cache' (cu_alias update),
                          co_reset_metadata_complete = ce_reset_metadata_complete e\<rparr> # outcomes,
                         changed \<or> later, cache''))))"

definition complete_core_probes_bound ::
  "(cache_entry \<Rightarrow> string) \<Rightarrow> unit result \<Rightarrow> write_outcome \<Rightarrow> i64 result \<Rightarrow> core_probe_update list
     \<Rightarrow> disk \<Rightarrow> core_probe_outcome list result \<times> disk" where
  "complete_core_probes_bound ser lock w clock updates d =
     (case check_probe_aliases [] updates of
        Inl e \<Rightarrow> (Inl e, d)
      | Inr _ \<Rightarrow>
          with_cache lock w [] (\<lambda>cache.
            and_then (u64_clock ''converting usage-cache timestamp'' clock) (\<lambda>now.
              complete_probes ser now updates cache)) d)"

definition put_auth_failure ::
  "(string \<Rightarrow> string) \<Rightarrow> unit result \<Rightarrow> write_outcome \<Rightarrow> i64 result \<Rightarrow> string \<Rightarrow> string
     \<Rightarrow> usage_error \<Rightarrow> disk \<Rightarrow> unit result \<times> disk" where
  "put_auth_failure fingerprint lock w clock alias refresh_token error =
     with_cache lock w [] (\<lambda>cache.
       and_then (u64_clock ''converting auth-failure cache timestamp'' clock) (\<lambda>now.
         Inr ((), True, record_auth_failure fingerprint alias refresh_token (ue_summary error)
                          (ue_detail error) now cache)))"

definition set_workspace_name ::
  "unit result \<Rightarrow> write_outcome \<Rightarrow> i64 result \<Rightarrow> string \<Rightarrow> string option \<Rightarrow> disk
     \<Rightarrow> unit result \<times> disk" where
  "set_workspace_name lock w clock account_id name d =
     (let account_id = trim account_id; name = filter_opt (\<lambda>n. n \<noteq> []) (map_option trim name) in
      if account_id = [] then (Inr (), d)
      else with_cache lock w [] (\<lambda>cache.
        and_then (u64_clock ''converting workspace-cache timestamp'' clock) (\<lambda>now.
          case update_workspace_name account_id name now cache of
            (changed, cache') \<Rightarrow> Inr ((), changed, cache'))) d)"

definition invalidate ::
  "unit result \<Rightarrow> write_outcome \<Rightarrow> string \<Rightarrow> string \<Rightarrow> disk \<Rightarrow> unit result \<times> disk" where
  "invalidate lock w fresh alias =
     with_cache lock w [''writing usage cache invalidation''] (\<lambda>cache.
       Inr ((), True, snd (drop_fetch_state fresh alias cache)))"

definition invalidate_bound ::
  "unit result \<Rightarrow> write_outcome \<Rightarrow> string \<Rightarrow> string \<Rightarrow> strict_account_binding \<Rightarrow> disk
     \<Rightarrow> bool result \<times> disk" where
  "invalidate_bound lock w fresh alias binding =
     with_cache lock w [''writing identity-bound usage cache invalidation''] (\<lambda>cache.
       case drop_fetch_state_bound fresh alias binding cache of
         (dropped, cache') \<Rightarrow> Inr (dropped, dropped, cache'))"

definition purge_profile ::
  "unit result \<Rightarrow> write_outcome \<Rightarrow> string \<Rightarrow> string \<Rightarrow> disk \<Rightarrow> unit result \<times> disk" where
  "purge_profile lock w fresh alias =
     with_cache lock w [''writing deleted-profile cache cleanup''] (\<lambda>cache.
       Inr ((), True, snd (drop_profile_state fresh alias cache)))"

definition merge_reset_credit_enrichment_bound ::
  "unit result \<Rightarrow> write_outcome \<Rightarrow> string \<Rightarrow> string \<Rightarrow> strict_account_binding \<Rightarrow> usage_info \<Rightarrow> disk
     \<Rightarrow> bool result \<times> disk" where
  "merge_reset_credit_enrichment_bound lock w fresh alias binding u =
     with_cache lock w [] (\<lambda>cache.
       case merge_reset_credit_enrichment fresh alias binding u cache of
         (changed, cache') \<Rightarrow> Inr (changed, changed, cache'))"

definition try_set_last_used ::
  "unit result \<Rightarrow> write_outcome \<Rightarrow> i64 result \<Rightarrow> string \<Rightarrow> disk \<Rightarrow> unit result \<times> disk" where
  "try_set_last_used lock w clock alias =
     with_cache lock w [''writing last_used cache''] (\<lambda>cache.
       and_then clock (\<lambda>now. Inr ((), True, set_last_used alias now cache)))"

datatype rename_outcome = Unchanged | DurablyRenamed | RenamedUnconfirmed anyhow

definition rename_profile ::
  "unit result \<Rightarrow> write_outcome \<Rightarrow> string \<times> string \<times> string \<Rightarrow> string \<Rightarrow> string \<Rightarrow> disk
     \<Rightarrow> rename_outcome result \<times> disk" where
  "rename_profile lock w drawn old new d =
     (case and_then lock (\<lambda>_. load_cache_checked d) of
        Inl e \<Rightarrow> (Inl e, d)
      | Inr cache \<Rightarrow>
          (case drawn of (f1, f2, f3) \<Rightarrow>
             case migrate_alias f1 f2 f3 old new cache of
               (False, _) \<Rightarrow> (Inr Unchanged, d)
             | (True, cache') \<Rightarrow>
                 (case w of
                    DurablyPublished \<Rightarrow> (Inr DurablyRenamed, Stored cache')
                  | VisibleUnconfirmed e \<Rightarrow> (Inr (RenamedUnconfirmed e), Stored cache')
                  | WriteFailed e \<Rightarrow> (Inl e, d))))"

section \<open>Transactions\<close>

lemma with_cache_Inl:
  "with_cache lock w ctx f d = (Inl e, d') \<Longrightarrow>
     d' = d \<or> (\<exists>cause c. w = VisibleUnconfirmed cause \<and> d' = Stored c)"
  by (auto simp: with_cache_def save_cache_def split: sum.splits if_splits write_outcome.splits)

lemma with_cache_Inr:
  "with_cache lock w ctx f d = (Inr x, d') \<longleftrightarrow>
     (\<exists>cache c changed. is_ok lock \<and> load_cache_checked d = Inr cache \<and> f cache = Inr (x, changed, c)
        \<and> (if changed then w = DurablyPublished \<and> d' = Stored c else d' = d))"
  by (cases lock; cases "load_cache_checked d")
    (auto simp: with_cache_def save_cache_def split: sum.splits if_splits write_outcome.splits prod.splits)

section \<open>Interleaving\<close>

text \<open>
  A store whose records carry a stamp. The law: an operation that changes the record or the stamp
  of a key leaves there a stamp it drew itself.
\<close>

locale stamped_store =
  fixes content :: "'s \<Rightarrow> 'k \<Rightarrow> 'e option"
    and stamp :: "'s \<Rightarrow> 'k \<Rightarrow> 'm option"
    and run_op :: "'op \<Rightarrow> 's \<Rightarrow> 's"
    and drawn :: "'op \<Rightarrow> 'm set"
  assumes stamped: "content (run_op a s) k \<noteq> content s k \<or> stamp (run_op a s) k \<noteq> stamp s k
      \<Longrightarrow> \<exists>m\<in>drawn a. stamp (run_op a s) k = Some m"
begin

lemma drawn_or_untouched:
  "(content (fold run_op ops s) k = content s k \<and> stamp (fold run_op ops s) k = stamp s k)
     \<or> (\<exists>a\<in>set ops. \<exists>m\<in>drawn a. stamp (fold run_op ops s) k = Some m)"
proof (induction ops rule: rev_induct)
  case Nil
  then show ?case by simp
next
  case (snoc a ops)
  show ?case using snoc stamped [of a "fold run_op ops s" k] by auto
qed

lemma stamp_returns:
  assumes fresh: "\<forall>a\<in>set ops. \<forall>m\<in>drawn a. stamp s k \<noteq> Some m"
    and same: "stamp (fold run_op ops s) k = stamp s k"
  shows "content (fold run_op (take n ops) s) k = content s k
    \<and> stamp (fold run_op (take n ops) s) k = stamp s k"
proof (rule ccontr)
  let ?mid = "fold run_op (take n ops) s"
  assume "\<not> ?thesis"
  with drawn_or_untouched [of "take n ops" s k] obtain a m where
    am: "a \<in> set (take n ops)" "m \<in> drawn a" "stamp ?mid k = Some m" by blast
  have final: "fold run_op ops s = fold run_op (drop n ops) ?mid"
    by (metis append_take_drop_id fold_append comp_apply)
  from drawn_or_untouched [of "drop n ops" ?mid k]
  have "\<exists>a\<in>set ops. \<exists>m\<in>drawn a. stamp (fold run_op ops s) k = Some m"
    unfolding final using am by (auto dest: in_set_takeD in_set_dropD)
  with fresh same show False by auto
qed

end

text \<open>The mutations of one file, with the identities each draws.\<close>

datatype cache_op =
    PutUsage string strict_account_binding usage_info u64 string string
  | CompleteProbe core_probe_update u64
  | MergeCredits string strict_account_binding usage_info string
  | RecordFailure string string string string u64
  | Invalidate string string
  | InvalidateBound string strict_account_binding string
  | Purge string string
  | Rename string string string string string
  | TouchLastUsed string i64
  | SetWorkspace string "string option" u64

definition completed_cache ::
  "(usage_info \<times> bool \<times> cache_file) result \<Rightarrow> cache_file \<Rightarrow> cache_file" where
  "completed_cache r cache = (case r of Inl _ \<Rightarrow> cache | Inr (_, _, cache') \<Rightarrow> cache')"

fun run_cache_op ::
  "(cache_entry \<Rightarrow> string) \<Rightarrow> (string \<Rightarrow> string) \<Rightarrow> cache_op \<Rightarrow> cache_file \<Rightarrow> cache_file" where
  "run_cache_op ser fp (PutUsage alias b u ts revision fresh) c =
     snd (replace_bound_usage_at revision fresh alias b u ts c)"
| "run_cache_op ser fp (CompleteProbe update ts) c =
     completed_cache (complete_core_probe_bound_at ser (cu_revision update) (cu_fresh update)
       (cu_alias update) (cu_binding update) (cu_baseline update) (cu_usage update)
       (cu_reset_metadata update) ts c) c"
| "run_cache_op ser fp (MergeCredits alias b u fresh) c =
     snd (merge_reset_credit_enrichment fresh alias b u c)"
| "run_cache_op ser fp (RecordFailure alias token summary detail ts) c =
     record_auth_failure fp alias token summary detail ts c"
| "run_cache_op ser fp (Invalidate alias fresh) c = snd (drop_fetch_state fresh alias c)"
| "run_cache_op ser fp (InvalidateBound alias b fresh) c = snd (drop_fetch_state_bound fresh alias b c)"
| "run_cache_op ser fp (Purge alias fresh) c = snd (drop_profile_state fresh alias c)"
| "run_cache_op ser fp (Rename old new f1 f2 f3) c = snd (migrate_alias f1 f2 f3 old new c)"
| "run_cache_op ser fp (TouchLastUsed alias now) c = set_last_used alias now c"
| "run_cache_op ser fp (SetWorkspace account_id name ts) c = snd (update_workspace_name account_id name ts c)"

fun drawn_stamps :: "cache_op \<Rightarrow> string set" where
  "drawn_stamps (PutUsage _ _ _ _ _ fresh) = {fresh}"
| "drawn_stamps (CompleteProbe update _) = {cu_fresh update}"
| "drawn_stamps (MergeCredits _ _ _ fresh) = {fresh}"
| "drawn_stamps (RecordFailure _ _ _ _ _) = {}"
| "drawn_stamps (Invalidate _ fresh) = {fresh}"
| "drawn_stamps (InvalidateBound _ _ fresh) = {fresh}"
| "drawn_stamps (Purge _ fresh) = {fresh}"
| "drawn_stamps (Rename _ _ f1 f2 f3) = {f1, f2, f3}"
| "drawn_stamps (TouchLastUsed _ _) = {}"
| "drawn_stamps (SetWorkspace _ _ _) = {}"

lemma replace_bound_usage_stamp:
  "cf_entries (snd (replace_bound_usage_at revision fresh alias b u ts c)) k =
     (if k = alias then Some (to_entry_with_binding (u\<lparr>u_cache_revision := Some revision\<rparr>) ts (Some b))
      else cf_entries c k)"
  "cf_usage_mutations (snd (replace_bound_usage_at revision fresh alias b u ts c)) k =
     (if k = alias then Some fresh else cf_usage_mutations c k)"
  by (simp_all add: replace_bound_usage_at_def Let_def)

lemma replace_core_probe_stamp:
  "k \<noteq> alias \<Longrightarrow>
     cf_entries (snd (replace_core_probe_usage_at revision fresh alias b u mode ts c)) k = cf_entries c k"
  "cf_usage_mutations (snd (replace_core_probe_usage_at revision fresh alias b u mode ts c)) k =
     (if k = alias then Some fresh else cf_usage_mutations c k)"
  by (simp_all add: replace_core_probe_usage_at_def Let_def split_beta)

lemma complete_core_probe_cases:
  "completed_cache (complete_core_probe_bound_at ser revision fresh alias b bl u mode ts c) c = c
   \<or> completed_cache (complete_core_probe_bound_at ser revision fresh alias b bl u mode ts c) c
       = snd (replace_core_probe_usage_at revision fresh alias b u mode ts c)"
  by (auto simp: completed_cache_def complete_core_probe_bound_at_def bail_def
      split: option.splits prod.splits)

lemma merge_stamp:
  "k \<noteq> alias \<Longrightarrow> cf_entries (snd (merge_reset_credit_enrichment fresh alias b u c)) k = cf_entries c k"
  "snd (merge_reset_credit_enrichment fresh alias b u c) = c
     \<or> cf_usage_mutations (snd (merge_reset_credit_enrichment fresh alias b u c)) k =
         (if k = alias then Some fresh else cf_usage_mutations c k)"
  by (auto simp: merge_reset_credit_enrichment_def split: option.splits if_splits)

lemma migrate_stamp:
  "k \<noteq> old \<Longrightarrow> k \<noteq> new \<Longrightarrow> cf_entries (snd (migrate_alias f1 f2 f3 old new c)) k = cf_entries c k"
  "old \<noteq> new \<Longrightarrow> cf_usage_mutations (snd (migrate_alias f1 f2 f3 old new c)) k =
     (if k = new then Some f3 else if k = old then Some f2 else cf_usage_mutations c k)"
  by (auto simp: migrate_alias_def Let_def move_key_def split: option.splits)

lemma migrate_same [simp]: "migrate_alias f1 f2 f3 old old c = (False, c)"
  by (simp add: migrate_alias_def)

interpretation usage_store: stamped_store cf_entries cf_usage_mutations "run_cache_op ser fp" drawn_stamps
  for ser fp
proof unfold_locales
  fix a s k
  assume changed: "cf_entries (run_cache_op ser fp a s) k \<noteq> cf_entries s k
    \<or> cf_usage_mutations (run_cache_op ser fp a s) k \<noteq> cf_usage_mutations s k"
  show "\<exists>m\<in>drawn_stamps a. cf_usage_mutations (run_cache_op ser fp a s) k = Some m"
  proof (cases a)
    case (CompleteProbe update ts)
    with changed show ?thesis
      using complete_core_probe_cases [of ser "cu_revision update" "cu_fresh update" "cu_alias update"
          "cu_binding update" "cu_baseline update" "cu_usage update" "cu_reset_metadata update" ts s]
      by (auto simp: replace_core_probe_stamp split: if_splits)
  next
    case (MergeCredits name b u fresh)
    with changed show ?thesis
      using merge_stamp(1) [of k name fresh b u s] merge_stamp(2) [of fresh name b u s k]
      by (cases "k = name") auto
  next
    case (Rename old new f1 f2 f3)
    with changed show ?thesis
      using migrate_stamp [where c = s and k = k] by (cases "old = new") (auto split: if_splits)
  qed (use changed in
      \<open>auto simp: replace_bound_usage_stamp drop_fetch_state_bound_def record_auth_failure_def
        set_last_used_def update_workspace_name_def Let_def split: if_splits\<close>)
qed

text \<open>
  C20. A probe is published only over the exact generation it started from. Take the baseline of a
  profile, let any sequence of cache operations by anyone run (writes, probes, enrichments,
  refusals, invalidations, purges, renames), none of which draws the baseline's mutation
  identity again, and then complete the probe: if it is published, then at every moment in
  between the profile's entry and its mutation identity were those of the baseline. No
  intervening change is overwritten, not even one that restored the same entry or the same
  absence.
\<close>

theorem probe_publishes_over_baseline:
  assumes fresh: "list_all (\<lambda>a. cf_usage_mutations cache alias \<notin> Some ` drawn_stamps a) ops"
    and published: "complete_core_probe_bound_at ser revision fresh alias b
          (usage_cache_baseline_of ser cache alias) u mode ts (fold (run_cache_op ser fp) ops cache)
        = Inr (v, True, cache')"
  shows "list_all (\<lambda>n. let mid = fold (run_cache_op ser fp) (take n ops) cache in
      cf_entries mid alias = cf_entries cache alias
      \<and> cf_usage_mutations mid alias = cf_usage_mutations cache alias) [0..<Suc (length ops)]"
proof -
  from published have "cf_usage_mutations (fold (run_cache_op ser fp) ops cache) alias
      = cf_usage_mutations cache alias"
    by (auto simp: complete_core_probe_bound_at_def usage_cache_baseline_of_def bail_def
        split: if_splits option.splits prod.splits)
  moreover have "\<forall>a\<in>set ops. \<forall>m\<in>drawn_stamps a. cf_usage_mutations cache alias \<noteq> Some m"
    using fresh by (auto simp: list_all_iff)
  ultimately show ?thesis
    using usage_store.stamp_returns [of ops cache "alias" ser fp] by (simp add: list_all_iff Let_def)
qed

definition demo_baseline :: usage_cache_baseline where
  "demo_baseline = \<lparr>bl_alias = ''a'', bl_serialized_entry = None, bl_mutation = None\<rparr>"

lemma probe_publishes_over_baseline_witness:
  "list_all (\<lambda>n. let mid = fold (run_cache_op (\<lambda>_. []) id) (take n
        [PutUsage ''b'' demo_binding default_usage 5 ''r'' ''m'', TouchLastUsed ''a'' 9]) empty_cache in
      cf_entries mid ''a'' = cf_entries empty_cache ''a''
      \<and> cf_usage_mutations mid ''a'' = cf_usage_mutations empty_cache ''a'') [0..<Suc 2]"
proof -
  let ?ops = "[PutUsage ''b'' demo_binding default_usage 5 ''r'' ''m'', TouchLastUsed ''a'' 9]"
  let ?c = "fold (run_cache_op (\<lambda>_. []) id) ?ops empty_cache"
  have fresh: "list_all (\<lambda>a. cf_usage_mutations empty_cache ''a'' \<notin> Some ` drawn_stamps a) ?ops"
    by (simp add: empty_cache_def)
  have "\<exists>v c'. complete_core_probe_bound_at (\<lambda>_. []) ''r2'' ''m2'' ''a'' demo_binding
      (usage_cache_baseline_of (\<lambda>_. []) empty_cache ''a'') default_usage Complete 7 ?c = Inr (v, True, c')"
    by (simp add: complete_core_probe_bound_at_def usage_cache_baseline_of_def empty_cache_def
        replace_bound_usage_at_def set_last_used_def split_beta Let_def)
  then obtain v c' where "complete_core_probe_bound_at (\<lambda>_. []) ''r2'' ''m2'' ''a'' demo_binding
      (usage_cache_baseline_of (\<lambda>_. []) empty_cache ''a'') default_usage Complete 7 ?c = Inr (v, True, c')"
    by blast
  from probe_publishes_over_baseline [OF fresh this] show ?thesis by (simp add: numeral_2_eq_2)
qed

text \<open>
  A completed probe never takes over another account's alias. Whatever the cache holds by
  then, the completion either publishes the probe under its own binding, or returns an entry that
  already belongs to that same binding and leaves the file alone, or fails and leaves the file
  alone.
\<close>

theorem probe_never_rebinds:
  "case complete_core_probe_bound_at ser revision fresh alias b bl u mode ts cache of
     Inl _ \<Rightarrow> True
   | Inr (v, changed, cache') \<Rightarrow>
       (if changed
        then (\<exists>e. cf_entries cache' alias = Some e \<and> belongs_to e b \<and> ce_ts e = ts
                \<and> ce_revision e = Some revision \<and> u_cache_revision v = Some revision)
             \<and> (cf_entries cache')(alias := None) = (cf_entries cache)(alias := None)
             \<and> bl_alias bl = alias
        else cache' = cache
             \<and> (\<exists>e. cf_entries cache alias = Some e \<and> belongs_to e b \<and> from_entry e = Some v))"
  by (auto simp: complete_core_probe_bound_at_def replace_core_probe_usage_at_def bail_def Let_def
      belongs_to_def to_entry_with_binding_def is_some_and_def split_beta
      split: sum.splits option.splits if_splits reset_metadata_mode.splits)

section \<open>Batches of probes\<close>

lemma complete_probe_frame:
  assumes "complete_core_probe_bound_at ser revision fresh alias b bl u mode ts c = Inr (v, changed, c')"
    and "k \<noteq> alias"
  shows "cf_entries c' k = cf_entries c k \<and> cf_usage_mutations c' k = cf_usage_mutations c k"
proof -
  have c': "c' = completed_cache (complete_core_probe_bound_at ser revision fresh alias b bl u mode ts c) c"
    using assms(1) by (simp add: completed_cache_def)
  show ?thesis
    using complete_core_probe_cases [of ser revision fresh "alias" b bl u mode ts c] assms(2)
    unfolding c' by (auto simp: replace_core_probe_stamp)
qed

lemma baseline_cong:
  "cf_entries c' k = cf_entries c k \<Longrightarrow> cf_usage_mutations c' k = cf_usage_mutations c k \<Longrightarrow>
     usage_cache_baseline_of ser c' k = usage_cache_baseline_of ser c k"
  by (simp add: usage_cache_baseline_of_def)

lemma complete_probes_ConsE:
  assumes "complete_probes ser ts (update # updates) c = Inr (outcomes, changed, c')"
  obtains v ch c1 e os later where
    "complete_core_probe_bound_at ser (cu_revision update) (cu_fresh update) (cu_alias update)
        (cu_binding update) (cu_baseline update) (cu_usage update) (cu_reset_metadata update) ts c
      = Inr (v, ch, c1)"
    "cf_entries c1 (cu_alias update) = Some e"
    "complete_probes ser ts updates c1 = Inr (os, later, c')"
    "outcomes = \<lparr>co_alias = cu_alias update, co_usage = v,
        co_baseline = usage_cache_baseline_of ser c1 (cu_alias update),
        co_reset_metadata_complete = ce_reset_metadata_complete e\<rparr> # os"
    "changed = (ch \<or> later)"
proof -
  from assms that show ?thesis
    by (simp add: bail_def split: sum.splits option.splits prod.splits)
qed

lemma complete_probes_frame:
  "complete_probes ser ts updates c = Inr (outcomes, changed, c') \<Longrightarrow> k \<notin> cu_alias ` set updates \<Longrightarrow>
     cf_entries c' k = cf_entries c k \<and> cf_usage_mutations c' k = cf_usage_mutations c k"
proof (induction ser ts updates c arbitrary: outcomes changed c' rule: complete_probes.induct)
  case (2 ser ts update updates c)
  from complete_probes_ConsE [OF "2.prems"(1)] show ?case
  proof cases
    case (1 v ch c1 e os later)
    have "cf_entries c' k = cf_entries c1 k \<and> cf_usage_mutations c' k = cf_usage_mutations c1 k"
      using "2.IH" [OF 1(1) refl refl 1(2) 1(3)] "2.prems"(2) by simp
    then show ?thesis using complete_probe_frame [OF 1(1), of k] "2.prems"(2) by simp
  qed
qed simp

lemma complete_probes_outcomes:
  "complete_probes ser ts updates c = Inr (outcomes, changed, c') \<Longrightarrow> distinct (map cu_alias updates) \<Longrightarrow>
     map co_alias outcomes = map cu_alias updates
       \<and> list_all (\<lambda>out. co_baseline out = usage_cache_baseline_of ser c' (co_alias out)) outcomes"
proof (induction ser ts updates c arbitrary: outcomes changed c' rule: complete_probes.induct)
  case (2 ser ts update updates c)
  from complete_probes_ConsE [OF "2.prems"(1)] show ?case
  proof cases
    case (1 v ch c1 e os later)
    have "usage_cache_baseline_of ser c' (cu_alias update) = usage_cache_baseline_of ser c1 (cu_alias update)"
      using complete_probes_frame [OF 1(3), of "cu_alias update"] "2.prems"(2)
      by (intro baseline_cong) auto
    then show ?thesis using "2.IH" [OF 1(1) refl refl 1(2) 1(3)] "2.prems"(2) 1(4) by simp
  qed
qed simp

lemma unchanged_probes:
  "complete_probes ser ts updates c = Inr (outcomes, changed, c') \<Longrightarrow> \<not> changed \<Longrightarrow> c' = c"
proof (induction ser ts updates c arbitrary: outcomes changed c' rule: complete_probes.induct)
  case (2 ser ts update updates c)
  from complete_probes_ConsE [OF "2.prems"(1)] show ?case
  proof cases
    case (1 v ch c1 e os later)
    then have "c1 = c" using "2.prems"(2)
      by (auto simp: complete_core_probe_bound_at_def bail_def split: if_splits option.splits prod.splits)
    then show ?thesis using "2.IH" [OF 1(1) refl refl 1(2) 1(3)] "2.prems"(2) 1(5) by simp
  qed
qed simp

lemma check_probe_aliases_distinct:
  "check_probe_aliases seen updates = Inr () \<Longrightarrow>
     distinct (map cu_alias updates) \<and> set seen \<inter> cu_alias ` set updates = {}"
  by (induction seen updates rule: check_probe_aliases.induct) (auto simp: bail_def split: if_splits)

text \<open>
  C28. A batch of probes is all or nothing, and its answers describe the file it leaves. On an error
  the disk is untouched, unless the write itself became visible without its durability being
  confirmed; on success there is one outcome per profile in the order of the batch, and the
  baseline in each outcome is the baseline of the file as it now stands, so that a later
  compare-and-swap started from it succeeds exactly when nothing else has happened.
\<close>

theorem probe_batch_atomic:
  "case complete_core_probes_bound ser lock w clock updates d of
     (Inl _, d') \<Rightarrow> d' = d \<or> (\<exists>cause c. w = VisibleUnconfirmed cause \<and> d' = Stored c)
   | (Inr outcomes, d') \<Rightarrow>
       map co_alias outcomes = map cu_alias updates
       \<and> (\<exists>c. (d' = Stored c \<or> load_cache_checked d' = Inr c)
            \<and> list_all (\<lambda>out. co_baseline out = usage_cache_baseline_of ser c (co_alias out)) outcomes)"
proof (cases "complete_core_probes_bound ser lock w clock updates d")
  case (Pair r d')
  show ?thesis
  proof (cases r)
    case (Inl e)
    with Pair show ?thesis
      by (auto simp: complete_core_probes_bound_def split: sum.splits dest: with_cache_Inl)
  next
    case (Inr outcomes)
    with Pair have checked: "check_probe_aliases [] updates = Inr ()"
      and tx: "with_cache lock w [] (\<lambda>cache.
            and_then (u64_clock ''converting usage-cache timestamp'' clock) (\<lambda>now.
              complete_probes ser now updates cache)) d = (Inr outcomes, d')"
      by (auto simp: complete_core_probes_bound_def split: sum.splits)
    from tx obtain cache c changed now where
      run: "complete_probes ser now updates cache = Inr (outcomes, changed, c)"
      and load: "load_cache_checked d = Inr cache"
      and disk: "if changed then w = DurablyPublished \<and> d' = Stored c else d' = d"
      unfolding with_cache_Inr by (auto simp: and_then_eq_Inr)
    have distinct: "distinct (map cu_alias updates)" using check_probe_aliases_distinct [OF checked] by simp
    note outs = complete_probes_outcomes [OF run distinct]
    show ?thesis
    proof (cases changed)
      case True
      with disk outs Pair Inr show ?thesis by auto
    next
      case False
      have "c = cache"
        using run False unchanged_probes by blast
      with False disk outs load Pair Inr show ?thesis by auto
    qed
  qed
qed

section \<open>Deferred enrichment\<close>

text \<open>The part of an entry that a reset-card enrichment does not touch.\<close>

definition quota_part :: "cache_entry \<Rightarrow> cache_entry" where
  "quota_part e = e\<lparr>ce_reset_credits_available_count := None, ce_reset_credits := [],
     ce_reset_credits_error := None, ce_reset_metadata_complete := True\<rparr>"

fun drawn_revisions :: "cache_op \<Rightarrow> string set" where
  "drawn_revisions (PutUsage _ _ _ _ revision _) = {revision}"
| "drawn_revisions (CompleteProbe update _) = {cu_revision update}"
| "drawn_revisions _ = {}"

definition generation_of :: "string \<Rightarrow> cache_entry \<Rightarrow> cache_file \<Rightarrow> bool" where
  "generation_of r q c \<longleftrightarrow>
     (\<forall>k e. cf_entries c k = Some e \<longrightarrow> ce_revision e = Some r \<longrightarrow> quota_part e = q)"

lemma quota_part_merge [simp]:
  "quota_part (e\<lparr>ce_reset_credits_available_count := a, ce_reset_credits := x,
     ce_reset_credits_error := y, ce_reset_metadata_complete := z\<rparr>) = quota_part e"
  by (simp add: quota_part_def)

lemma to_entry_revision [simp]: "ce_revision (to_entry_with_binding u ts b) = u_cache_revision u"
  by (simp add: to_entry_with_binding_def)

lemma generation_put:
  "generation_of r q c \<Longrightarrow> ce_revision e \<noteq> Some r \<Longrightarrow> generation_of r q (mark_usage_mutation m k (put_entry k e c))"
  by (simp add: generation_of_def)

lemma generation_entries:
  "generation_of r q c \<Longrightarrow> ran (cf_entries c') \<subseteq> ran (cf_entries c) \<Longrightarrow> generation_of r q c'"
  by (fastforce simp: generation_of_def ran_def)

lemma ran_move_key: "old \<noteq> new \<Longrightarrow> ran (move_key old new (m(new := None))) \<subseteq> ran m"
  by (auto simp: move_key_def ran_def split: option.splits if_splits)

lemma generation_migrate:
  assumes "generation_of r q c"
  shows "generation_of r q (snd (migrate_alias f1 f2 f3 old new c))"
proof (cases "old = new")
  case False
  then have "cf_entries (snd (migrate_alias f1 f2 f3 old new c))
      = move_key old new ((cf_entries c)(new := None))"
    by (simp add: migrate_alias_def Let_def)
  with False show ?thesis by (intro generation_entries [OF assms]) (simp add: ran_move_key)
qed (use assms in simp)

lemma generation_step:
  assumes "generation_of r q c" "r \<notin> drawn_revisions a"
  shows "generation_of r q (run_cache_op ser fp a c)"
proof (cases a)
  case (PutUsage k b u ts revision fresh)
  then show ?thesis using assms
    by (simp add: replace_bound_usage_at_def Let_def generation_put)
next
  case (CompleteProbe update ts)
  have "generation_of r q (snd (replace_core_probe_usage_at (cu_revision update) (cu_fresh update)
      (cu_alias update) (cu_binding update) (cu_usage update) (cu_reset_metadata update) ts c))"
    using assms CompleteProbe
    by (simp add: replace_core_probe_usage_at_def Let_def split_beta generation_put)
  then show ?thesis
    using assms(1) CompleteProbe complete_core_probe_cases [of ser "cu_revision update" "cu_fresh update"
        "cu_alias update" "cu_binding update" "cu_baseline update" "cu_usage update"
        "cu_reset_metadata update" ts c] by auto
next
  case (MergeCredits k b u fresh)
  then show ?thesis using assms(1)
    by (auto simp: merge_reset_credit_enrichment_def generation_of_def split: option.splits)
next
  case (Rename old new f1 f2 f3)
  then show ?thesis using generation_migrate [OF assms(1)] by simp
qed (use assms(1) in
    \<open>auto simp: generation_of_def drop_fetch_state_bound_def record_auth_failure_def
      set_last_used_def update_workspace_name_def Let_def\<close>)

lemma generation_run:
  "generation_of r q c \<Longrightarrow> list_all (\<lambda>a. r \<notin> drawn_revisions a) ops \<Longrightarrow>
     generation_of r q (fold (run_cache_op ser fp) ops c)"
  by (induction ops arbitrary: c) (auto intro: generation_step)

text \<open>
  C23. A deferred reset-card enrichment joins the quota observation it was fetched for and no
  other. After a sample is stored under a new revision, and after any sequence of cache
  operations that does not draw that revision again (renames, other writes, other enrichments),
  an enrichment carrying that revision is merged only into an entry whose quota part is exactly
  the one stored then, under the account it was stored for, and only the reset-card fields
  change.
\<close>

theorem enrichment_joins_its_observation:
  assumes new: "list_all (\<lambda>e. ce_revision e \<noteq> Some r) entries" "ran (cf_entries c0) = set entries"
    and ops: "list_all (\<lambda>a. r \<notin> drawn_revisions a) ops"
    and c: "c = fold (run_cache_op ser fp) ops (snd (replace_bound_usage_at r m alias b u ts c0))"
    and merged: "merge_reset_credit_enrichment m' alias' b' (u'\<lparr>u_cache_revision := Some r\<rparr>) c = (True, c')"
  shows "b' = b \<and> (\<exists>e. cf_entries c' alias' = Some e
      \<and> quota_part e = quota_part (to_entry_with_binding (u\<lparr>u_cache_revision := Some r\<rparr>) ts (Some b))
      \<and> ce_reset_credits e = u_reset_credits u' \<and> ce_reset_metadata_complete e)"
proof -
  let ?q = "quota_part (to_entry_with_binding (u\<lparr>u_cache_revision := Some r\<rparr>) ts (Some b))"
  have "generation_of r ?q (snd (replace_bound_usage_at r m alias b u ts c0))"
    using new by (auto simp: generation_of_def replace_bound_usage_at_def Let_def list_all_iff ran_def)
  from generation_run [OF this ops] have gen: "generation_of r ?q c" by (simp add: c)
  from merged obtain e where e: "cf_entries c alias' = Some e" "belongs_to e b'" "ce_revision e = Some r"
    and c': "cf_entries c' alias' = Some (e\<lparr>ce_reset_credits_available_count := u_reset_credits_available_count u',
        ce_reset_credits := u_reset_credits u', ce_reset_credits_error := u_reset_credits_error u',
        ce_reset_metadata_complete := True\<rparr>)"
    by (auto simp: merge_reset_credit_enrichment_def split: option.splits if_splits)
  from gen e have q: "quota_part e = ?q" by (auto simp: generation_of_def)
  have "ce_account_id (quota_part e) = ce_account_id e" "ce_email (quota_part e) = ce_email e"
    by (simp_all add: quota_part_def)
  with q have "belongs_to (to_entry_with_binding (u\<lparr>u_cache_revision := Some r\<rparr>) ts (Some b)) b'"
    using e(2) by (simp add: belongs_to_def) (simp add: quota_part_def to_entry_with_binding_def)
  then have "b' = b" by simp
  with q c' show ?thesis by auto
qed

lemma enrichment_joins_its_observation_witness:
  "\<exists>e. cf_entries (snd (merge_reset_credit_enrichment ''m2'' ''b'' demo_binding
        (default_usage\<lparr>u_cache_revision := Some ''r''\<rparr>)
        (fold (run_cache_op (\<lambda>_. []) id) [Rename ''a'' ''b'' ''1'' ''2'' ''3'']
          (snd (replace_bound_usage_at ''r'' ''m'' ''a'' demo_binding default_usage 5 empty_cache))))) ''b'' = Some e
     \<and> quota_part e = quota_part (to_entry_with_binding (default_usage\<lparr>u_cache_revision := Some ''r''\<rparr>) 5 (Some demo_binding))"
proof -
  let ?c = "fold (run_cache_op (\<lambda>_. []) id) [Rename ''a'' ''b'' ''1'' ''2'' ''3'']
      (snd (replace_bound_usage_at ''r'' ''m'' ''a'' demo_binding default_usage 5 empty_cache))"
  let ?m = "merge_reset_credit_enrichment ''m2'' ''b'' demo_binding (default_usage\<lparr>u_cache_revision := Some ''r''\<rparr>) ?c"
  have m: "fst ?m"
    by (simp add: merge_reset_credit_enrichment_def migrate_alias_def move_key_def Let_def
        replace_bound_usage_at_def empty_cache_def)
  have "cf_entries empty_cache = Map.empty" by (simp add: empty_cache_def)
  with enrichment_joins_its_observation [of "''r''" "[]" empty_cache "[Rename ''a'' ''b'' ''1'' ''2'' ''3'']"
      ?c "\<lambda>_. []" id "''m''" "''a''" demo_binding default_usage 5 "''m2''" "''b''" demo_binding default_usage "snd ?m"] m
  show ?thesis by (auto simp add: prod_eq_iff simp del: fold.simps)
qed

end
