(* ===== verification/Race_Control.thy ===== *)
theory Race_Control
  imports Prelude
begin

text \<open>
  The cancellation boundaries of background work: \<open>CacheLockAcquireControl\<close> and
  \<open>with_cache_lock_cancellable_at\<close> (cache.rs), \<open>ProfileLeaseAcquireControl\<close> and
  \<open>acquire_profile_lease_async_cancellable\<close> (profile.rs), \<open>UsageTaskCancellation\<close> and
  \<open>NetworkPermitBudget::acquire\<close> (usage/api.rs).

  Every control is one atomic word. A method is a function from the word to its answer and the
  new word, and threads interleave at the granularity of one atomic access; the waiting loops are
  step relations in which the owner of the lock, the clock and the cancelling threads act between
  any two accesses. Wake-ups carry no data and are not modelled: a waiting loop may look again at
  any time.
\<close>

section \<open>Racing claims\<close>

text \<open>
  Calls that race for an atomic word. A call that answers \<open>True\<close> leaves the word in its claim,
  and no later call takes the word out of it.
\<close>

fun run_calls :: "('c \<Rightarrow> 'p \<Rightarrow> bool \<times> 'p) \<Rightarrow> 'c list \<Rightarrow> 'p \<Rightarrow> ('c \<times> bool) list \<times> 'p" where
  "run_calls call [] p = ([], p)"
| "run_calls call (c # cs) p =
     (let (answer, p1) = call c p; (log, p2) = run_calls call cs p1 in ((c, answer) # log, p2))"

lemma run_calls_append:
  "run_calls call (cs @ ds) p =
     (fst (run_calls call cs p) @ fst (run_calls call ds (snd (run_calls call cs p))),
      snd (run_calls call ds (snd (run_calls call cs p))))"
  by (induction cs arbitrary: p) (auto simp: Let_def split: prod.splits)

locale claim_race =
  fixes call :: "'c \<Rightarrow> 'p \<Rightarrow> bool \<times> 'p"
    and claim :: "'c \<Rightarrow> 'p set"
  assumes wins: "fst (call c p) \<Longrightarrow> snd (call c p) \<in> claim c"
    and kept: "p \<in> claim c \<Longrightarrow> snd (call d p) \<in> claim c"
begin

lemma claim_run: "p \<in> claim c \<Longrightarrow> snd (run_calls call cs p) \<in> claim c"
proof (induction cs arbitrary: p)
  case (Cons d cs)
  from kept [OF Cons.prems] have "snd (call d p) \<in> claim c" .
  from Cons.IH [OF this] show ?case by (simp add: Let_def split_beta)
qed simp

lemma won_claim:
  "(c, True) \<in> set (fst (run_calls call cs p)) \<Longrightarrow> snd (run_calls call cs p) \<in> claim c"
proof (induction cs arbitrary: p)
  case (Cons d cs)
  show ?case
  proof (cases "d = c \<and> fst (call d p)")
    case True
    then have "snd (call d p) \<in> claim c" using wins by auto
    from claim_run [OF this] show ?thesis by (simp add: Let_def split_beta)
  next
    case False
    with Cons.prems have "(c, True) \<in> set (fst (run_calls call cs (snd (call d p))))"
      by (auto simp: Let_def split_beta)
    from Cons.IH [OF this] show ?thesis by (simp add: Let_def split_beta)
  qed
qed simp

text \<open>Two calls with disjoint claims never both win.\<close>

lemma exclusive:
  assumes "claim c \<inter> claim d = {}" "(c, True) \<in> set (fst (run_calls call cs p))"
  shows "(d, True) \<notin> set (fst (run_calls call cs p))"
  using assms won_claim by blast

end

section \<open>The usage-read boundary\<close>

datatype usage_phase = ReadCancellable | ReadCancelled | CredentialWork | ReadFinished

definition usage_request :: "usage_phase \<Rightarrow> bool \<times> usage_phase" where
  "usage_request p = (if p = ReadCancellable then (True, ReadCancelled) else (False, p))"

definition begin_credential_work :: "usage_phase \<Rightarrow> bool \<times> usage_phase" where
  "begin_credential_work p =
     (if p = ReadCancellable then (True, CredentialWork)
      else (p = CredentialWork, p))"

text \<open>
  \<open>finish\<close> is a loop of a load and a compare-and-exchange. \<open>finish_load\<close> answers at once or
  remembers what it loaded; \<open>finish_exchange\<close> is the exchange over that value.
\<close>

definition finish_load :: "usage_phase \<Rightarrow> bool option" where
  "finish_load current =
     (if current = ReadCancelled then Some False
      else if current = ReadFinished then Some True else None)"

definition finish_exchange :: "usage_phase \<Rightarrow> usage_phase \<Rightarrow> bool \<times> usage_phase" where
  "finish_exchange current p = (if p = current then (True, ReadFinished) else (False, p))"

text \<open>The loop as one transition, which is what its callers see.\<close>

definition usage_finish :: "usage_phase \<Rightarrow> bool \<times> usage_phase" where
  "usage_finish p =
     (case p of ReadCancelled \<Rightarrow> (False, p) | ReadFinished \<Rightarrow> (True, p) | _ \<Rightarrow> (True, ReadFinished))"

datatype usage_call = Request | BeginCredentialWork | Finish

fun usage_call_of :: "usage_call \<Rightarrow> usage_phase \<Rightarrow> bool \<times> usage_phase" where
  "usage_call_of Request = usage_request"
| "usage_call_of BeginCredentialWork = begin_credential_work"
| "usage_call_of Finish = usage_finish"

fun usage_claim :: "usage_call \<Rightarrow> usage_phase set" where
  "usage_claim Request = {ReadCancelled}"
| "usage_claim BeginCredentialWork = {CredentialWork, ReadFinished}"
| "usage_claim Finish = {ReadFinished}"

lemmas usage_phase_defs =
  usage_request_def begin_credential_work_def usage_finish_def finish_load_def finish_exchange_def

interpretation usage_race: claim_race usage_call_of usage_claim
proof
  show "fst (usage_call_of c p) \<Longrightarrow> snd (usage_call_of c p) \<in> usage_claim c" for c p
    by (cases c; cases p) (auto simp: usage_phase_defs)
  show "p \<in> usage_claim c \<Longrightarrow> snd (usage_call_of d p) \<in> usage_claim c" for c d p
    by (cases c; cases d; cases p) (auto simp: usage_phase_defs)
qed

text \<open>
  The loop itself: in every iteration other threads act before the load and again between the
  load and the exchange. The fuel bounds the iterations; \<open>None\<close> is a loop that has not returned.
\<close>

fun finish_loop ::
  "nat \<Rightarrow> (usage_call list \<times> usage_call list) list \<Rightarrow> usage_phase \<Rightarrow> (bool \<times> usage_phase) option" where
  "finish_loop 0 env p = None"
| "finish_loop (Suc fuel) env p =
     (let (before, between) = (case env of [] \<Rightarrow> ([], []) | e # _ \<Rightarrow> e);
          current = snd (run_calls usage_call_of before p)
      in case finish_load current of
           Some answer \<Rightarrow> Some (answer, current)
         | None \<Rightarrow>
             (case finish_exchange current (snd (run_calls usage_call_of between current)) of
                (True, p') \<Rightarrow> Some (True, p')
              | (False, p') \<Rightarrow> finish_loop fuel (tl env) p'))"

text \<open>How far a phase is from the end: interference only moves forward.\<close>

fun phase_left :: "usage_phase \<Rightarrow> nat" where
  "phase_left ReadCancellable = 2"
| "phase_left CredentialWork = 1"
| "phase_left ReadCancelled = 0"
| "phase_left ReadFinished = 0"

lemma phase_left_call: "snd (usage_call_of c p) = p \<or> phase_left (snd (usage_call_of c p)) < phase_left p"
  by (cases c; cases p) (auto simp: usage_phase_defs)

lemma phase_left_run:
  "snd (run_calls usage_call_of cs p) = p \<or> phase_left (snd (run_calls usage_call_of cs p)) < phase_left p"
proof (induction cs arbitrary: p)
  case (Cons c cs)
  show ?case using Cons.IH [of "snd (usage_call_of c p)"] phase_left_call [of c p]
    by (auto simp: Let_def split_beta)
qed simp

lemma finish_loop_returns:
  "phase_left p < fuel \<Longrightarrow>
     \<exists>answer p'. finish_loop fuel env p = Some (answer, p') \<and> (answer \<longleftrightarrow> p' = ReadFinished)
        \<and> (\<not> answer \<longleftrightarrow> p' = ReadCancelled)"
proof (induction fuel arbitrary: env p)
  case (Suc fuel)
  obtain before between where env: "(case env of [] \<Rightarrow> ([], []) | e # _ \<Rightarrow> e) = (before, between)"
    by fastforce
  define current where "current = snd (run_calls usage_call_of before p)"
  define p1 where "p1 = snd (run_calls usage_call_of between current)"
  have left: "phase_left current \<le> phase_left p"
    using phase_left_run [of before p] unfolding current_def by auto
  show ?case
  proof (cases "finish_load current")
    case (Some answer)
    then show ?thesis using env
      by (auto simp: Let_def current_def [symmetric] finish_load_def split: if_splits)
  next
    case None
    show ?thesis
    proof (cases "p1 = current")
      case True
      then have "finish_loop (Suc fuel) env p = Some (True, ReadFinished)" using env None
        by (simp add: Let_def current_def [symmetric] p1_def [symmetric] finish_exchange_def)
      then show ?thesis by (intro exI [of _ True] exI [of _ ReadFinished]) (simp del: finish_loop.simps)
    next
      case False
      then have "phase_left p1 < fuel"
        using phase_left_run [of between current] left Suc.prems unfolding p1_def by auto
      from Suc.IH [OF this, of "tl env"] show ?thesis using env None False
        by (simp add: Let_def current_def [symmetric] p1_def [symmetric] finish_exchange_def)
    qed
  qed
qed simp

text \<open>The calls of the other threads, in order, and where among them the loop took effect.\<close>

definition interference :: "(usage_call list \<times> usage_call list) list \<Rightarrow> usage_call list" where
  "interference env = concat (map (\<lambda>(before, between). before @ between) env)"

lemma interference_simps [simp]:
  "interference [] = []"
  "interference ((before, between) # env) = before @ between @ interference env"
  by (simp_all add: interference_def)

lemma finish_loop_linear:
  "finish_loop fuel env p = Some r \<Longrightarrow>
     \<exists>k. r = usage_finish (snd (run_calls usage_call_of (take k (interference env)) p))"
proof (induction fuel arbitrary: env p)
  case (Suc fuel)
  obtain before between where env: "(case env of [] \<Rightarrow> ([], []) | e # _ \<Rightarrow> e) = (before, between)"
    by fastforce
  have split: "interference env = before @ between @ interference (tl env)"
    using env by (cases env) auto
  define current where "current = snd (run_calls usage_call_of before p)"
  define p1 where "p1 = snd (run_calls usage_call_of between current)"
  have at: "snd (run_calls usage_call_of (take (length before) (interference env)) p) = current"
    "snd (run_calls usage_call_of (take (length before + length between + k) (interference env)) p)
       = snd (run_calls usage_call_of (take k (interference (tl env))) p1)" for k
    by (simp_all add: split run_calls_append current_def p1_def)
  note loop = Suc.prems [simplified, unfolded env, simplified Let_def split_beta fst_conv snd_conv,
      folded current_def, folded p1_def]
  show ?case
  proof (cases "finish_load current")
    case (Some answer)
    with loop have "r = usage_finish current"
      by (auto simp: usage_phase_defs split: if_splits)
    then show ?thesis using at(1) by metis
  next
    case None
    show ?thesis
    proof (cases "p1 = current")
      case True
      with None loop have "r = usage_finish p1"
        by (cases current) (auto simp: usage_phase_defs)
      then show ?thesis using at(1) True by metis
    next
      case False
      with None loop have "finish_loop fuel (tl env) p1 = Some r" by (simp add: finish_exchange_def)
      from Suc.IH [OF this] show ?thesis using at(2) by metis
    qed
  qed
qed simp

text \<open>
  A usage read is cancelled, or its credential work and its result go through, never both.
  In every interleaving of cancellation requests, refresh boundaries and completions, a request
  that was granted excludes every crossing of the refresh boundary and every accepted result,
  before and after it. So a refresh response is never dropped by a cancellation, and a cancelled
  read is never published.
\<close>

theorem usage_cancellation_exclusive:
  "\<not> ((Request, True) \<in> set (fst (run_calls usage_call_of calls ReadCancellable))
      \<and> ((BeginCredentialWork, True) \<in> set (fst (run_calls usage_call_of calls ReadCancellable))
           \<or> (Finish, True) \<in> set (fst (run_calls usage_call_of calls ReadCancellable))))"
  using usage_race.exclusive [of Request BeginCredentialWork calls ReadCancellable]
    usage_race.exclusive [of Request Finish calls ReadCancellable]
  by auto

text \<open>
  The completion loop returns after at most three iterations, however other threads
  interfere, and behaves as one atomic completion at some point among their calls: its answer
  and the phase it leaves are those of that completion, accepted exactly when the phase is
  finished, discarded exactly when it is cancelled.
\<close>

theorem finish_loop_terminates:
  "\<exists>answer p' k. finish_loop 3 env p = Some (answer, p')
     \<and> (answer, p') = usage_finish (snd (run_calls usage_call_of (take k (interference env)) p))
     \<and> answer = (p' = ReadFinished) \<and> (\<not> answer) = (p' = ReadCancelled)"
proof -
  have "phase_left p < 3" by (cases p) auto
  from finish_loop_returns [OF this, of env] obtain answer p' where
    r: "finish_loop 3 env p = Some (answer, p')" "answer = (p' = ReadFinished)"
      "(\<not> answer) = (p' = ReadCancelled)" by blast
  from finish_loop_linear [OF r(1)] r show ?thesis by blast
qed

end
