(* ===== verification/Lock_Wait.thy ===== *)
theory Lock_Wait
  imports Race_Control
begin

text \<open>
  Waiting for a lock with a cancellation boundary: \<open>CacheLockAcquireControl\<close> with
  \<open>with_cache_lock_cancellable_at\<close> (cache.rs) and \<open>ProfileLeaseAcquireControl\<close> with
  \<open>acquire_profile_lease_async_cancellable\<close> (profile.rs). Each worker is a program counter that
  moves by one atomic access at a time; between any two of its steps the lock's owner, the clock
  and any number of cancelling threads may act.
\<close>

section \<open>The cache-lock control\<close>

datatype lock_phase = LockPending | LockContended | LockAcquired | LockCancelled | LockTimedOut

definition cancel_waiting :: "lock_phase \<Rightarrow> bool \<times> lock_phase" where
  "cancel_waiting p =
     (if p = LockPending \<or> p = LockContended then (True, LockCancelled) else (False, p))"

definition cancel_contended :: "lock_phase \<Rightarrow> bool \<times> lock_phase" where
  "cancel_contended p = (if p = LockContended then (True, LockCancelled) else (False, p))"

definition mark_acquired :: "lock_phase \<Rightarrow> bool \<times> lock_phase" where
  "mark_acquired p =
     (if p = LockPending \<or> p = LockContended then (True, LockAcquired) else (False, p))"

definition mark_contended :: "lock_phase \<Rightarrow> bool \<times> lock_phase" where
  "mark_contended p = (if p = LockPending then (True, LockContended) else (p = LockContended, p))"

definition mark_timed_out :: "lock_phase \<Rightarrow> bool \<times> lock_phase" where
  "mark_timed_out p = (if p = LockContended then (True, LockTimedOut) else (False, p))"

lemmas lock_phase_defs =
  cancel_waiting_def cancel_contended_def mark_acquired_def mark_contended_def mark_timed_out_def

datatype lock_call = CancelWaiting | CancelContended | MarkAcquired | MarkContended | MarkTimedOut

fun lock_call_of :: "lock_call \<Rightarrow> lock_phase \<Rightarrow> bool \<times> lock_phase" where
  "lock_call_of CancelWaiting = cancel_waiting"
| "lock_call_of CancelContended = cancel_contended"
| "lock_call_of MarkAcquired = mark_acquired"
| "lock_call_of MarkContended = mark_contended"
| "lock_call_of MarkTimedOut = mark_timed_out"

fun lock_claim :: "lock_call \<Rightarrow> lock_phase set" where
  "lock_claim CancelWaiting = {LockCancelled}"
| "lock_claim CancelContended = {LockCancelled}"
| "lock_claim MarkAcquired = {LockAcquired}"
| "lock_claim MarkContended = {LockContended, LockAcquired, LockCancelled, LockTimedOut}"
| "lock_claim MarkTimedOut = {LockTimedOut}"

interpretation lock_race: claim_race lock_call_of lock_claim
proof
  show "fst (lock_call_of c p) \<Longrightarrow> snd (lock_call_of c p) \<in> lock_claim c" for c p
    by (cases c; cases p) (auto simp: lock_phase_defs)
  show "p \<in> lock_claim c \<Longrightarrow> snd (lock_call_of d p) \<in> lock_claim c" for c d p
    by (cases c; cases d; cases p) (auto simp: lock_phase_defs)
qed

section \<open>The waiting worker\<close>

text \<open>
  How the worker ended: \<open>NotRun\<close> is \<open>Ok(None)\<close>, \<open>Ran\<close> the operation's own result, the others
  are errors. The lock file is already open; the two \<open>MarkLate\<close> points are the two
  halves of \<open>!mark_contended() || !mark_timed_out()\<close>.
\<close>

datatype lock_end = NotRun | Ran | GaveUp | LockFailed | GuardPoisoned

datatype lock_pc =
    Check | Try | Blocked | MarkWaiting | MarkLate1 | MarkLate2 | MarkOwned | TakeGuard | Operating
  | Ended lock_end

record lock_world =
  lw_phase :: lock_phase
  lw_pc :: lock_pc
  lw_held_elsewhere :: bool
  lw_owned :: bool
  lw_late :: bool
  lw_blocked_before :: bool
  lw_log :: "(lock_call \<times> bool) list"

definition initial_lock_world :: lock_world where
  "initial_lock_world = \<lparr>lw_phase = LockPending, lw_pc = Check, lw_held_elsewhere = False,
     lw_owned = False, lw_late = False, lw_blocked_before = False, lw_log = []\<rparr>"

text \<open>One access of the control, with its answer.\<close>

definition access :: "lock_call \<Rightarrow> lock_pc \<Rightarrow> lock_pc \<Rightarrow> lock_world \<Rightarrow> lock_world" where
  "access c yes no w =
     (case lock_call_of c (lw_phase w) of
        (answer, p) \<Rightarrow>
          w\<lparr>lw_phase := p, lw_log := lw_log w @ [(c, answer)], lw_pc := (if answer then yes else no)\<rparr>)"

definition release :: "lock_world \<Rightarrow> lock_world" where
  "release w = (if lw_pc w = Ended NotRun then w\<lparr>lw_owned := False\<rparr> else w)"

text \<open>The worker's steps: the body of the loop, one access at a time.\<close>

inductive lock_worker :: "lock_world \<Rightarrow> lock_world \<Rightarrow> bool" where
  seen_cancelled: "lw_pc w = Check \<Longrightarrow> lw_phase w = LockCancelled \<Longrightarrow>
     lock_worker w (w\<lparr>lw_pc := Ended NotRun\<rparr>)"
| not_cancelled: "lw_pc w = Check \<Longrightarrow> lw_phase w \<noteq> LockCancelled \<Longrightarrow> lock_worker w (w\<lparr>lw_pc := Try\<rparr>)"
| try_ok: "lw_pc w = Try \<Longrightarrow> \<not> lw_held_elsewhere w \<Longrightarrow>
     lock_worker w (w\<lparr>lw_pc := MarkOwned, lw_owned := True\<rparr>)"
| would_block: "lw_pc w = Try \<Longrightarrow> lw_held_elsewhere w \<Longrightarrow>
     lock_worker w (w\<lparr>lw_pc := Blocked, lw_blocked_before := True\<rparr>)"
| try_error: "lw_pc w = Try \<Longrightarrow> lock_worker w (w\<lparr>lw_pc := Ended LockFailed\<rparr>)"
| before_deadline: "lw_pc w = Blocked \<Longrightarrow> \<not> lw_late w \<Longrightarrow> lock_worker w (w\<lparr>lw_pc := MarkWaiting\<rparr>)"
| after_deadline: "lw_pc w = Blocked \<Longrightarrow> lw_late w \<Longrightarrow> lock_worker w (w\<lparr>lw_pc := MarkLate1\<rparr>)"
| mark_waiting: "lw_pc w = MarkWaiting \<Longrightarrow>
     lock_worker w (access MarkContended Check (Ended NotRun) w)"
| mark_late1: "lw_pc w = MarkLate1 \<Longrightarrow>
     lock_worker w (access MarkContended MarkLate2 (Ended NotRun) w)"
| mark_late2: "lw_pc w = MarkLate2 \<Longrightarrow>
     lock_worker w (access MarkTimedOut (Ended GaveUp) (Ended NotRun) w)"
| mark_owned: "lw_pc w = MarkOwned \<Longrightarrow>
     lock_worker w (release (access MarkAcquired TakeGuard (Ended NotRun) w))"
| guard_poisoned: "lw_pc w = TakeGuard \<Longrightarrow>
     lock_worker w (w\<lparr>lw_pc := Ended GuardPoisoned, lw_owned := False\<rparr>)"
| guard_taken: "lw_pc w = TakeGuard \<Longrightarrow> lock_worker w (w\<lparr>lw_pc := Operating\<rparr>)"
| operation_done: "lw_pc w = Operating \<Longrightarrow> lock_worker w (w\<lparr>lw_pc := Ended Ran, lw_owned := False\<rparr>)"

text \<open>
  The others: another process takes or frees the lock, the deadline passes, someone cancels.
\<close>

inductive lock_others :: "lock_world \<Rightarrow> lock_world \<Rightarrow> bool" where
  taken_elsewhere: "\<not> lw_owned w \<Longrightarrow> lock_others w (w\<lparr>lw_held_elsewhere := True\<rparr>)"
| freed_elsewhere: "lock_others w (w\<lparr>lw_held_elsewhere := False\<rparr>)"
| deadline_passes: "lock_others w (w\<lparr>lw_late := True\<rparr>)"
| cancels: "c \<in> {CancelWaiting, CancelContended} \<Longrightarrow> lock_others w (access c (lw_pc w) (lw_pc w) w)"

definition lock_step :: "lock_world \<Rightarrow> lock_world \<Rightarrow> bool" where
  "lock_step w w' \<longleftrightarrow> lock_worker w w' \<or> lock_others w w'"

inductive lock_reachable :: "lock_world \<Rightarrow> bool" where
  start: "lock_reachable initial_lock_world"
| move: "lock_reachable w \<Longrightarrow> lock_step w w' \<Longrightarrow> lock_reachable w'"

inductive_cases lock_workerE: "lock_worker w w'"
inductive_cases lock_othersE: "lock_others w w'"

section \<open>The invariant\<close>

definition cancel_granted :: "lock_world \<Rightarrow> bool" where
  "cancel_granted w \<longleftrightarrow> (CancelWaiting, True) \<in> set (lw_log w) \<or> (CancelContended, True) \<in> set (lw_log w)"

text \<open>What each program point knows of the phase.\<close>

fun pc_phases :: "lock_pc \<Rightarrow> lock_phase set" where
  "pc_phases TakeGuard = {LockAcquired}"
| "pc_phases Operating = {LockAcquired}"
| "pc_phases (Ended Ran) = {LockAcquired}"
| "pc_phases (Ended GuardPoisoned) = {LockAcquired}"
| "pc_phases (Ended GaveUp) = {LockTimedOut}"
| "pc_phases (Ended NotRun) = {LockCancelled}"
| "pc_phases MarkLate2 = {LockContended, LockCancelled}"
| "pc_phases _ = {LockPending, LockContended, LockCancelled}"

definition lock_inv :: "lock_world \<Rightarrow> bool" where
  "lock_inv w \<longleftrightarrow>
     lw_phase w \<in> pc_phases (lw_pc w)
   \<and> (cancel_granted w \<longleftrightarrow> lw_phase w = LockCancelled)
   \<and> (lw_owned w \<longleftrightarrow> lw_pc w \<in> {MarkOwned, TakeGuard, Operating})
   \<and> (lw_owned w \<longrightarrow> \<not> lw_held_elsewhere w)
   \<and> (lw_pc w \<in> {Blocked, MarkWaiting, MarkLate1, MarkLate2} \<longrightarrow> lw_blocked_before w)
   \<and> (lw_phase w = LockContended \<longrightarrow> lw_blocked_before w)
   \<and> ((CancelContended, True) \<in> set (lw_log w) \<longrightarrow> lw_blocked_before w)"

lemma lock_inv_start: "lock_inv initial_lock_world"
  by (simp add: lock_inv_def initial_lock_world_def cancel_granted_def)

lemma lock_inv_access:
  assumes "lock_inv w" "lw_pc w \<in> {MarkWaiting, MarkLate1, MarkLate2}"
  shows "lw_pc w = MarkWaiting \<Longrightarrow> lock_inv (access MarkContended Check (Ended NotRun) w)"
    and "lw_pc w = MarkLate1 \<Longrightarrow> lock_inv (access MarkContended MarkLate2 (Ended NotRun) w)"
    and "lw_pc w = MarkLate2 \<Longrightarrow> lock_inv (access MarkTimedOut (Ended GaveUp) (Ended NotRun) w)"
  using assms
  by (cases "lw_phase w"; simp add: lock_inv_def cancel_granted_def access_def lock_phase_defs)+

lemma lock_inv_mark_owned:
  assumes "lock_inv w" "lw_pc w = MarkOwned"
  shows "lock_inv (release (access MarkAcquired TakeGuard (Ended NotRun) w))"
  using assms
  by (cases "lw_phase w"; simp add: lock_inv_def cancel_granted_def access_def release_def lock_phase_defs)

lemma lock_inv_worker: "lock_inv w \<Longrightarrow> lock_worker w w' \<Longrightarrow> lock_inv w'"
proof (erule lock_workerE)
  assume inv: "lock_inv w"
  show "lw_pc w = MarkWaiting \<Longrightarrow> w' = access MarkContended Check (Ended NotRun) w \<Longrightarrow> lock_inv w'"
    "lw_pc w = MarkLate1 \<Longrightarrow> w' = access MarkContended MarkLate2 (Ended NotRun) w \<Longrightarrow> lock_inv w'"
    "lw_pc w = MarkLate2 \<Longrightarrow> w' = access MarkTimedOut (Ended GaveUp) (Ended NotRun) w \<Longrightarrow> lock_inv w'"
    "lw_pc w = MarkOwned \<Longrightarrow> w' = release (access MarkAcquired TakeGuard (Ended NotRun) w) \<Longrightarrow> lock_inv w'"
    using lock_inv_access [OF inv] lock_inv_mark_owned [OF inv] by simp_all
qed (simp_all add: lock_inv_def cancel_granted_def)

lemma pc_phases_cancel:
  "lw_phase w \<in> pc_phases (lw_pc w) \<Longrightarrow> c \<in> {CancelWaiting, CancelContended} \<Longrightarrow>
     snd (lock_call_of c (lw_phase w)) \<in> pc_phases (lw_pc w)"
  by (cases "lw_pc w" rule: pc_phases.cases) (auto simp: lock_phase_defs)

lemma lock_inv_cancel:
  assumes "lock_inv w" "c \<in> {CancelWaiting, CancelContended}"
  shows "lock_inv (access c (lw_pc w) (lw_pc w) w)"
proof -
  from assms(1) have "lw_phase w \<in> pc_phases (lw_pc w)" by (simp add: lock_inv_def)
  from pc_phases_cancel [OF this assms(2)] assms show ?thesis
    by (cases c; cases "lw_phase w")
      (simp_all add: lock_inv_def cancel_granted_def access_def lock_phase_defs)
qed

lemma lock_inv_others: "lock_others w w' \<Longrightarrow> lock_inv w \<Longrightarrow> lock_inv w'"
proof (induction rule: lock_others.induct)
  case (cancels c w)
  then show ?case by (intro lock_inv_cancel)
qed (simp_all add: lock_inv_def cancel_granted_def)

lemma lock_reachable_inv: "lock_reachable w \<Longrightarrow> lock_inv w"
proof (induction rule: lock_reachable.induct)
  case start
  show ?case by (rule lock_inv_start)
next
  case (move w w')
  from move.hyps(2) consider "lock_worker w w'" | "lock_others w w'"
    unfolding lock_step_def by blast
  then show ?case using lock_inv_worker [OF move.IH] lock_inv_others [OF _ move.IH] by cases blast+
qed

text \<open>
  A cancelled cache operation never runs, and a running one is never cancelled. In every
  state that the worker, the lock's owner, the clock and any number of cancelling threads can
  reach: once a cancellation was granted, the operation has not started and never will, and the
  worker that ends without running was cancelled; while the operation runs the worker holds the
  lock alone; and a cancellation that was to hit only contended waits hit one that had met
  contention.
\<close>

theorem cache_lock_cancellation:
  assumes "lock_reachable w"
  shows "\<not> (cancel_granted w \<and> lw_pc w \<in> {TakeGuard, Operating, Ended Ran, Ended GaveUp})
     \<and> (lw_pc w \<noteq> Ended NotRun \<or> cancel_granted w)
     \<and> (lw_pc w \<noteq> Operating \<or> lw_owned w \<and> \<not> lw_held_elsewhere w)
     \<and> ((CancelContended, True) \<notin> set (lw_log w) \<or> lw_blocked_before w)"
  using lock_reachable_inv [OF assms]
  by (cases "lw_pc w" rule: pc_phases.cases) (auto simp: lock_inv_def)

lemma cancelled_world:
  "lock_reachable (access CancelWaiting Check Check initial_lock_world)"
proof -
  have "lock_others initial_lock_world (access CancelWaiting (lw_pc initial_lock_world)
      (lw_pc initial_lock_world) initial_lock_world)"
    by (rule cancels) simp
  moreover have "lw_pc initial_lock_world = Check" by (simp add: initial_lock_world_def)
  ultimately have "lock_step initial_lock_world (access CancelWaiting Check Check initial_lock_world)"
    by (simp add: lock_step_def)
  from move [OF start this] show ?thesis .
qed

lemma cache_lock_cancellation_witness:
  "\<not> (cancel_granted (access CancelWaiting Check Check initial_lock_world)
     \<and> lw_pc (access CancelWaiting Check Check initial_lock_world)
         \<in> {TakeGuard, Operating, Ended Ran, Ended GaveUp})"
  using cache_lock_cancellation [OF cancelled_world] by blast

section \<open>The deadline\<close>

text \<open>The worker's remaining steps once the deadline has passed.\<close>

fun steps_left :: "lock_pc \<Rightarrow> nat" where
  "steps_left MarkWaiting = 8"
| "steps_left Check = 7"
| "steps_left Try = 6"
| "steps_left Blocked = 5"
| "steps_left MarkLate1 = 4"
| "steps_left MarkOwned = 3"
| "steps_left MarkLate2 = 2"
| "steps_left TakeGuard = 2"
| "steps_left Operating = 1"
| "steps_left (Ended _) = 0"

lemma release_pc [simp]: "lw_pc (release w) = lw_pc w" "lw_late (release w) = lw_late w"
  by (simp_all add: release_def)

lemma access_pc: "lw_pc (access c yes no w) \<in> {yes, no}" "lw_late (access c yes no w) = lw_late w"
  by (auto simp: access_def split: prod.splits)

lemma worker_advances:
  "lock_worker w w' \<Longrightarrow> lw_late w \<Longrightarrow> lw_late w' \<and> steps_left (lw_pc w') < steps_left (lw_pc w)"
proof (induction rule: lock_worker.induct)
  case (mark_waiting w)
  then show ?case using access_pc(1) [of MarkContended Check "Ended NotRun" w] by (auto simp: access_pc(2))
next
  case (mark_late1 w)
  then show ?case using access_pc(1) [of MarkContended MarkLate2 "Ended NotRun" w]
    by (auto simp: access_pc(2))
next
  case (mark_late2 w)
  then show ?case using access_pc(1) [of MarkTimedOut "Ended GaveUp" "Ended NotRun" w]
    by (auto simp: access_pc(2))
next
  case (mark_owned w)
  then show ?case using access_pc(1) [of MarkAcquired TakeGuard "Ended NotRun" w]
    by (auto simp: access_pc(2))
qed simp_all

lemma others_keep: "lock_others w w' \<Longrightarrow> lw_pc w' = lw_pc w \<and> (lw_late w \<longrightarrow> lw_late w')"
  by (induction rule: lock_others.induct) (simp_all add: access_def split_beta)

lemma worker_enabled: "(\<exists>e. lw_pc w = Ended e) \<or> (\<exists>w'. lock_worker w w')"
proof (cases "lw_pc w")
  case Check
  then show ?thesis using seen_cancelled not_cancelled by blast
next
  case MarkWaiting
  then show ?thesis using mark_waiting by blast
next
  case Blocked
  then show ?thesis using before_deadline after_deadline by blast
next
  case Try
  then show ?thesis using try_error by blast
next
  case MarkLate1
  then show ?thesis using mark_late1 by blast
next
  case MarkLate2
  then show ?thesis using mark_late2 by blast
next
  case MarkOwned
  then show ?thesis using mark_owned by blast
next
  case TakeGuard
  then show ?thesis using guard_taken by blast
next
  case Operating
  then show ?thesis using operation_done by blast
qed simp

text \<open>A run: each step is the worker's (\<open>True\<close>) or the others'.\<close>

inductive lock_run :: "lock_world \<Rightarrow> bool list \<Rightarrow> lock_world \<Rightarrow> bool" where
  lock_run_nil: "lock_run w [] w"
| lock_run_worker: "lock_worker w w1 \<Longrightarrow> lock_run w1 bs w2 \<Longrightarrow> lock_run w (True # bs) w2"
| lock_run_others: "lock_others w w1 \<Longrightarrow> lock_run w1 bs w2 \<Longrightarrow> lock_run w (False # bs) w2"

lemma late_run_bounded:
  "lock_run w bs w2 \<Longrightarrow> lw_late w \<Longrightarrow>
     lw_late w2 \<and> steps_left (lw_pc w2) + count_list bs True \<le> steps_left (lw_pc w)"
proof (induction rule: lock_run.induct)
  case (lock_run_worker w w1 bs w2)
  from worker_advances [OF this(1) this(4)] lock_run_worker.IH show ?case by simp
next
  case (lock_run_others w w1 bs w2)
  from others_keep [OF this(1)] lock_run_others.IH lock_run_others.prems show ?case by simp
qed simp

text \<open>
  C33. The lock's deadline bounds the wait. Once the deadline has passed, the worker takes at most
  eight more steps however the other threads and the lock's owner interfere, is never stuck before
  it has ended, and after eight steps it has ended: it ran, was cancelled, gave up, or failed.
\<close>

theorem cache_lock_deadline:
  assumes "lw_late w" "lock_run w bs w2"
  shows "count_list bs True \<le> 8
     \<and> ((\<exists>e. lw_pc w2 = Ended e) \<or> (\<exists>w3. lock_worker w2 w3))
     \<and> (count_list bs True < 8 \<or> (\<exists>e. lw_pc w2 = Ended e))"
proof -
  from late_run_bounded [OF assms(2,1)] have
    n: "steps_left (lw_pc w2) + count_list bs True \<le> steps_left (lw_pc w)" by simp
  have "steps_left (lw_pc w) \<le> 8" by (cases "lw_pc w") simp_all
  with n have "count_list bs True \<le> 8" "\<not> count_list bs True < 8 \<Longrightarrow> steps_left (lw_pc w2) = 0"
    by simp_all
  moreover have "steps_left (lw_pc w2) = 0 \<Longrightarrow> \<exists>e. lw_pc w2 = Ended e" by (cases "lw_pc w2") simp_all
  ultimately show ?thesis using worker_enabled [of w2] by blast
qed

lemma cache_lock_deadline_witness:
  "count_list [False, True] True \<le> (8::nat)
     \<and> (\<exists>w3. lock_worker (initial_lock_world\<lparr>lw_late := True, lw_held_elsewhere := True, lw_pc := Try\<rparr>) w3)"
proof -
  let ?w = "initial_lock_world\<lparr>lw_late := True\<rparr>"
  let ?h = "?w\<lparr>lw_held_elsewhere := True\<rparr>"
  have "lock_others ?w ?h" by (rule taken_elsewhere) (simp add: initial_lock_world_def)
  moreover have "lock_worker ?h (?h\<lparr>lw_pc := Try\<rparr>)"
    by (rule not_cancelled) (simp_all add: initial_lock_world_def)
  ultimately have run: "lock_run ?w [False, True] (?h\<lparr>lw_pc := Try\<rparr>)"
    by (blast intro: lock_run.intros)
  have late: "lw_late ?w" by simp
  from cache_lock_deadline [OF late run] show ?thesis by simp
qed

section \<open>The profile lease\<close>

datatype lease_phase = LeaseWaiting | LeaseAcquired | LeaseCancelled

definition lease_cancel_waiting :: "lease_phase \<Rightarrow> bool \<times> lease_phase" where
  "lease_cancel_waiting p = (if p = LeaseWaiting then (True, LeaseCancelled) else (False, p))"

definition lease_mark_acquired :: "lease_phase \<Rightarrow> bool \<times> lease_phase" where
  "lease_mark_acquired p = (if p = LeaseWaiting then (True, LeaseAcquired) else (False, p))"

lemmas lease_phase_defs = lease_cancel_waiting_def lease_mark_acquired_def

datatype lease_call = CancelLease | AcquireLease

fun lease_call_of :: "lease_call \<Rightarrow> lease_phase \<Rightarrow> bool \<times> lease_phase" where
  "lease_call_of CancelLease = lease_cancel_waiting"
| "lease_call_of AcquireLease = lease_mark_acquired"

fun lease_claim :: "lease_call \<Rightarrow> lease_phase set" where
  "lease_claim CancelLease = {LeaseCancelled}"
| "lease_claim AcquireLease = {LeaseAcquired}"

interpretation lease_race: claim_race lease_call_of lease_claim
proof
  show "fst (lease_call_of c p) \<Longrightarrow> snd (lease_call_of c p) \<in> lease_claim c" for c p
    by (cases c; cases p) (auto simp: lease_phase_defs)
  show "p \<in> lease_claim c \<Longrightarrow> snd (lease_call_of d p) \<in> lease_claim c" for c d p
    by (cases c; cases d; cases p) (auto simp: lease_phase_defs)
qed

text \<open>
  The lease is waited for without a deadline; a wait ends when the timer fires or the control
  reports a cancellation. \<open>Leased\<close> is a lease handed out (its file locked), \<open>NoLease\<close> is
  \<open>Ok(None)\<close>.
\<close>

datatype lease_pc = LeaseCheck | LeaseTry | LeaseMark | LeaseSleep | Leased | NoLease | LeaseError

record lease_world =
  pl_phase :: lease_phase
  pl_pc :: lease_pc
  pl_held_elsewhere :: bool
  pl_owned :: bool
  pl_log :: "(lease_call \<times> bool) list"

definition initial_lease_world :: lease_world where
  "initial_lease_world = \<lparr>pl_phase = LeaseWaiting, pl_pc = LeaseCheck, pl_held_elsewhere = False,
     pl_owned = False, pl_log = []\<rparr>"

inductive lease_step :: "lease_world \<Rightarrow> lease_world \<Rightarrow> bool" where
  lease_seen_cancelled: "pl_pc w = LeaseCheck \<Longrightarrow> pl_phase w = LeaseCancelled \<Longrightarrow>
     lease_step w (w\<lparr>pl_pc := NoLease\<rparr>)"
| lease_go: "pl_pc w = LeaseCheck \<Longrightarrow> pl_phase w \<noteq> LeaseCancelled \<Longrightarrow>
     lease_step w (w\<lparr>pl_pc := LeaseTry\<rparr>)"
| lease_locked: "pl_pc w = LeaseTry \<Longrightarrow> \<not> pl_held_elsewhere w \<Longrightarrow>
     lease_step w (w\<lparr>pl_pc := LeaseMark, pl_owned := True\<rparr>)"
| lease_blocked: "pl_pc w = LeaseTry \<Longrightarrow> pl_held_elsewhere w \<Longrightarrow>
     lease_step w (w\<lparr>pl_pc := LeaseSleep\<rparr>)"
| lease_failed: "pl_pc w = LeaseTry \<Longrightarrow> lease_step w (w\<lparr>pl_pc := LeaseError\<rparr>)"
| lease_woken: "pl_pc w = LeaseSleep \<Longrightarrow> pl_phase w = LeaseCancelled \<Longrightarrow>
     lease_step w (w\<lparr>pl_pc := NoLease\<rparr>)"
| lease_timer: "pl_pc w = LeaseSleep \<Longrightarrow> lease_step w (w\<lparr>pl_pc := LeaseCheck\<rparr>)"
| lease_marked: "pl_pc w = LeaseMark \<Longrightarrow> lease_mark_acquired (pl_phase w) = (True, p) \<Longrightarrow>
     lease_step w (w\<lparr>pl_pc := Leased, pl_phase := p, pl_log := pl_log w @ [(AcquireLease, True)]\<rparr>)"
| lease_lost: "pl_pc w = LeaseMark \<Longrightarrow> lease_mark_acquired (pl_phase w) = (False, p) \<Longrightarrow>
     lease_step w (w\<lparr>pl_pc := NoLease, pl_phase := p, pl_owned := False,
       pl_log := pl_log w @ [(AcquireLease, False)]\<rparr>)"
| lease_taken: "\<not> pl_owned w \<Longrightarrow> lease_step w (w\<lparr>pl_held_elsewhere := True\<rparr>)"
| lease_freed: "lease_step w (w\<lparr>pl_held_elsewhere := False\<rparr>)"
| lease_cancelled: "lease_cancel_waiting (pl_phase w) = (a, p) \<Longrightarrow>
     lease_step w (w\<lparr>pl_phase := p, pl_log := pl_log w @ [(CancelLease, a)]\<rparr>)"

inductive lease_reachable :: "lease_world \<Rightarrow> bool" where
  lease_start: "lease_reachable initial_lease_world"
| lease_move: "lease_reachable w \<Longrightarrow> lease_step w w' \<Longrightarrow> lease_reachable w'"

definition lease_inv :: "lease_world \<Rightarrow> bool" where
  "lease_inv w \<longleftrightarrow>
     (pl_owned w \<longleftrightarrow> pl_pc w \<in> {LeaseMark, Leased})
   \<and> (pl_owned w \<longrightarrow> \<not> pl_held_elsewhere w)
   \<and> (pl_pc w = Leased \<longleftrightarrow> pl_phase w = LeaseAcquired)
   \<and> (pl_pc w = NoLease \<longrightarrow> pl_phase w = LeaseCancelled)
   \<and> ((CancelLease, True) \<in> set (pl_log w) \<longleftrightarrow> pl_phase w = LeaseCancelled)"

lemma lease_inv_step: "lease_step w w' \<Longrightarrow> lease_inv w \<Longrightarrow> lease_inv w'"
proof (induction rule: lease_step.induct)
  case (lease_marked w p)
  then show ?case by (cases "pl_phase w") (auto simp: lease_inv_def lease_phase_defs)
next
  case (lease_lost w p)
  then show ?case by (cases "pl_phase w") (auto simp: lease_inv_def lease_phase_defs)
next
  case (lease_cancelled w a p)
  then show ?case by (cases "pl_phase w") (auto simp: lease_inv_def lease_phase_defs)
qed (auto simp: lease_inv_def)

lemma lease_reachable_inv: "lease_reachable w \<Longrightarrow> lease_inv w"
proof (induction rule: lease_reachable.induct)
  case lease_start
  show ?case by (simp add: lease_inv_def initial_lease_world_def)
next
  case (lease_move w w')
  from lease_inv_step [OF this(2,3)] show ?case .
qed

text \<open>
  A credential operation starts only under its profile's lock and is never cancelled. In
  every state reachable by the waiting task, the lock's owner and any number of cancelling
  threads: a task that holds its lease owns the file lock alone and no cancellation of it was or
  will be granted, and a task that ends without a lease was cancelled.
\<close>

theorem lease_cancellation:
  assumes "lease_reachable w"
  shows "(pl_pc w \<noteq> Leased \<or>
        pl_owned w \<and> \<not> pl_held_elsewhere w \<and> (CancelLease, True) \<notin> set (pl_log w)
        \<and> fst (lease_cancel_waiting (pl_phase w)) = False)
     \<and> (pl_pc w \<noteq> NoLease \<or> (CancelLease, True) \<in> set (pl_log w))"
  using lease_reachable_inv [OF assms] by (auto simp: lease_inv_def lease_phase_defs)

lemma lease_cancellation_witness:
  "pl_owned (initial_lease_world\<lparr>pl_pc := Leased, pl_owned := True, pl_phase := LeaseAcquired,
     pl_log := [(AcquireLease, True)]\<rparr>)"
proof -
  let ?w1 = "initial_lease_world\<lparr>pl_pc := LeaseTry\<rparr>"
  let ?w2 = "?w1\<lparr>pl_pc := LeaseMark, pl_owned := True\<rparr>"
  let ?w3 = "?w2\<lparr>pl_pc := Leased, pl_phase := LeaseAcquired, pl_log := pl_log ?w2 @ [(AcquireLease, True)]\<rparr>"
  have "lease_step initial_lease_world ?w1"
    by (rule lease_go) (simp_all add: initial_lease_world_def)
  moreover have "lease_step ?w1 ?w2"
    by (rule lease_locked) (simp_all add: initial_lease_world_def)
  moreover have "lease_step ?w2 ?w3"
    by (rule lease_marked) (simp_all add: initial_lease_world_def lease_phase_defs)
  ultimately have "lease_reachable ?w3" by (blast intro: lease_reachable.intros)
  from lease_cancellation [OF this] show ?thesis by (simp add: initial_lease_world_def)
qed

section \<open>What a cancellable wait promises\<close>

text \<open>
  The contract both waits implement, with the phase word, the clock and the polling left out. A
  view of a wait says where its worker stands, whether a cancellation was granted to anyone,
  and whether the worker has the lock. \<open>Granted\<close> is a worker that may go on: the cache lock's
  worker before its operation, the task that was handed its lease.
\<close>

datatype wait_worker = Waits | Granted | AtWork | Finished | Refused | Withdrawn | Abandoned | Broken

record wait_view =
  wv_worker :: wait_worker
  wv_cancelled :: bool
  wv_holding :: bool

definition wait_start :: wait_view where
  "wait_start = \<lparr>wv_worker = Waits, wv_cancelled = False, wv_holding = False\<rparr>"

inductive wait_step :: "wait_view \<Rightarrow> wait_view \<Rightarrow> bool" where
  wait_stutter: "wait_step v v"
| wait_lock: "wv_worker v = Waits \<Longrightarrow> wait_step v (v\<lparr>wv_holding := True\<rparr>)"
| wait_cancel: "wv_worker v \<in> {Waits, Broken} \<Longrightarrow> wait_step v (v\<lparr>wv_cancelled := True\<rparr>)"
| wait_grant: "wv_worker v = Waits \<Longrightarrow> \<not> wv_cancelled v \<Longrightarrow> wv_holding v \<Longrightarrow>
     wait_step v (v\<lparr>wv_worker := Granted\<rparr>)"
| wait_begin: "wv_worker v = Granted \<Longrightarrow> wait_step v (v\<lparr>wv_worker := AtWork\<rparr>)"
| wait_finish: "wv_worker v = AtWork \<Longrightarrow>
     wait_step v (v\<lparr>wv_worker := Finished, wv_holding := False\<rparr>)"
| wait_refuse: "wv_worker v = Granted \<Longrightarrow>
     wait_step v (v\<lparr>wv_worker := Refused, wv_holding := False\<rparr>)"
| wait_withdraw: "wv_worker v = Waits \<Longrightarrow> wv_cancelled v \<Longrightarrow>
     wait_step v (v\<lparr>wv_worker := Withdrawn, wv_holding := False\<rparr>)"
| wait_abandon: "wv_worker v = Waits \<Longrightarrow> \<not> wv_cancelled v \<Longrightarrow> \<not> wv_holding v \<Longrightarrow>
     wait_step v (v\<lparr>wv_worker := Abandoned\<rparr>)"
| wait_break: "wv_worker v = Waits \<Longrightarrow> \<not> wv_holding v \<Longrightarrow> wait_step v (v\<lparr>wv_worker := Broken\<rparr>)"

text \<open>
  What the contract gives in every state: a granted cancellation and a worker that may go on
  exclude each other, the worker goes on only with the lock, and it withdraws only when
  cancelled, without the lock.
\<close>

definition wait_promise :: "wait_view \<Rightarrow> bool" where
  "wait_promise v \<longleftrightarrow>
     (case wv_worker v of
        Waits \<Rightarrow> True
      | Granted \<Rightarrow> \<not> wv_cancelled v \<and> wv_holding v
      | AtWork \<Rightarrow> \<not> wv_cancelled v \<and> wv_holding v
      | Finished \<Rightarrow> \<not> wv_cancelled v \<and> \<not> wv_holding v
      | Refused \<Rightarrow> \<not> wv_cancelled v \<and> \<not> wv_holding v
      | Withdrawn \<Rightarrow> wv_cancelled v \<and> \<not> wv_holding v
      | Abandoned \<Rightarrow> \<not> wv_cancelled v \<and> \<not> wv_holding v
      | Broken \<Rightarrow> \<not> wv_holding v)"

lemma wait_promise_step: "wait_step v v' \<Longrightarrow> wait_promise v \<Longrightarrow> wait_promise v'"
  by (induction rule: wait_step.induct) (auto simp: wait_promise_def)

text \<open>A program that refines the contract keeps its promises in every state it can reach.\<close>

locale cancellable_wait =
  fixes initial :: 's and reach :: "'s \<Rightarrow> bool" and step :: "'s \<Rightarrow> 's \<Rightarrow> bool"
    and view :: "'s \<Rightarrow> wait_view"
  assumes starts: "view initial = wait_start"
    and reach_cases: "reach w \<Longrightarrow> step\<^sup>*\<^sup>* initial w"
    and reach_step: "step\<^sup>*\<^sup>* initial w \<Longrightarrow> reach w"
    and refines: "reach w \<Longrightarrow> step w w' \<Longrightarrow> wait_step (view w) (view w')"
begin

lemma runs_refine: "step\<^sup>*\<^sup>* initial w \<Longrightarrow> wait_step\<^sup>*\<^sup>* wait_start (view w)"
  by (induction rule: rtranclp_induct) (auto simp: starts intro: rtranclp.intros refines reach_step)

lemma promise: "reach w \<Longrightarrow> wait_promise (view w)"
proof -
  have "wait_step\<^sup>*\<^sup>* wait_start v \<Longrightarrow> wait_promise v" for v
    by (induction rule: rtranclp_induct)
      (simp add: wait_promise_def wait_start_def, blast intro: wait_promise_step)
  then show "reach w \<Longrightarrow> wait_promise (view w)" using reach_cases runs_refine by blast
qed

end

subsection \<open>The views of the two programs\<close>

fun lock_stands :: "lock_pc \<Rightarrow> wait_worker" where
  "lock_stands TakeGuard = Granted"
| "lock_stands Operating = AtWork"
| "lock_stands (Ended Ran) = Finished"
| "lock_stands (Ended GuardPoisoned) = Refused"
| "lock_stands (Ended NotRun) = Withdrawn"
| "lock_stands (Ended GaveUp) = Abandoned"
| "lock_stands (Ended LockFailed) = Broken"
| "lock_stands _ = Waits"

definition lock_view :: "lock_world \<Rightarrow> wait_view" where
  "lock_view w = \<lparr>wv_worker = lock_stands (lw_pc w), wv_cancelled = cancel_granted w,
     wv_holding = lw_owned w\<rparr>"

fun lease_stands :: "lease_pc \<Rightarrow> wait_worker" where
  "lease_stands Leased = Granted"
| "lease_stands NoLease = Withdrawn"
| "lease_stands LeaseError = Broken"
| "lease_stands _ = Waits"

definition lease_view :: "lease_world \<Rightarrow> wait_view" where
  "lease_view w = \<lparr>wv_worker = lease_stands (pl_pc w),
     wv_cancelled = ((CancelLease, True) \<in> set (pl_log w)), wv_holding = pl_owned w\<rparr>"

lemma wait_steps:
  "wait_step \<lparr>wv_worker = Waits, wv_cancelled = c, wv_holding = h\<rparr>
     \<lparr>wv_worker = Waits, wv_cancelled = c, wv_holding = True\<rparr>"
  "wait_step \<lparr>wv_worker = Waits, wv_cancelled = c, wv_holding = h\<rparr>
     \<lparr>wv_worker = Waits, wv_cancelled = True, wv_holding = h\<rparr>"
  "wait_step \<lparr>wv_worker = Broken, wv_cancelled = c, wv_holding = h\<rparr>
     \<lparr>wv_worker = Broken, wv_cancelled = True, wv_holding = h\<rparr>"
  "wait_step \<lparr>wv_worker = Waits, wv_cancelled = False, wv_holding = True\<rparr>
     \<lparr>wv_worker = Granted, wv_cancelled = False, wv_holding = True\<rparr>"
  "wait_step \<lparr>wv_worker = Granted, wv_cancelled = c, wv_holding = h\<rparr>
     \<lparr>wv_worker = AtWork, wv_cancelled = c, wv_holding = h\<rparr>"
  "wait_step \<lparr>wv_worker = AtWork, wv_cancelled = c, wv_holding = h\<rparr>
     \<lparr>wv_worker = Finished, wv_cancelled = c, wv_holding = False\<rparr>"
  "wait_step \<lparr>wv_worker = Granted, wv_cancelled = c, wv_holding = h\<rparr>
     \<lparr>wv_worker = Refused, wv_cancelled = c, wv_holding = False\<rparr>"
  "wait_step \<lparr>wv_worker = Waits, wv_cancelled = True, wv_holding = h\<rparr>
     \<lparr>wv_worker = Withdrawn, wv_cancelled = True, wv_holding = False\<rparr>"
  "wait_step \<lparr>wv_worker = Waits, wv_cancelled = False, wv_holding = False\<rparr>
     \<lparr>wv_worker = Abandoned, wv_cancelled = False, wv_holding = False\<rparr>"
  "wait_step \<lparr>wv_worker = Waits, wv_cancelled = c, wv_holding = False\<rparr>
     \<lparr>wv_worker = Broken, wv_cancelled = c, wv_holding = False\<rparr>"
  using wait_lock [of "\<lparr>wv_worker = Waits, wv_cancelled = c, wv_holding = h\<rparr>"]
    wait_cancel [of "\<lparr>wv_worker = Waits, wv_cancelled = c, wv_holding = h\<rparr>"]
    wait_cancel [of "\<lparr>wv_worker = Broken, wv_cancelled = c, wv_holding = h\<rparr>"]
    wait_grant [of "\<lparr>wv_worker = Waits, wv_cancelled = False, wv_holding = True\<rparr>"]
    wait_begin [of "\<lparr>wv_worker = Granted, wv_cancelled = c, wv_holding = h\<rparr>"]
    wait_finish [of "\<lparr>wv_worker = AtWork, wv_cancelled = c, wv_holding = h\<rparr>"]
    wait_refuse [of "\<lparr>wv_worker = Granted, wv_cancelled = c, wv_holding = h\<rparr>"]
    wait_withdraw [of "\<lparr>wv_worker = Waits, wv_cancelled = True, wv_holding = h\<rparr>"]
    wait_abandon [of "\<lparr>wv_worker = Waits, wv_cancelled = False, wv_holding = False\<rparr>"]
    wait_break [of "\<lparr>wv_worker = Waits, wv_cancelled = c, wv_holding = False\<rparr>"]
  by simp_all

lemmas lock_view_simps = lock_view_def cancel_granted_def access_def release_def lock_phase_defs

lemma lock_view_worker:
  "lock_worker w w' \<Longrightarrow> lock_inv w \<Longrightarrow> wait_step (lock_view w) (lock_view w')"
proof (induction rule: lock_worker.induct)
  case (mark_owned w)
  then show ?case
    by (cases "lw_phase w") (simp_all add: lock_inv_def lock_view_simps wait_steps wait_stutter)
next
  case (mark_waiting w)
  then show ?case
    by (cases "lw_phase w") (simp_all add: lock_inv_def lock_view_simps wait_steps wait_stutter)
next
  case (mark_late1 w)
  then show ?case
    by (cases "lw_phase w") (simp_all add: lock_inv_def lock_view_simps wait_steps wait_stutter)
next
  case (mark_late2 w)
  then show ?case
    by (cases "lw_phase w") (simp_all add: lock_inv_def lock_view_simps wait_steps wait_stutter)
qed (simp_all add: lock_inv_def lock_view_simps wait_steps wait_stutter)

text \<open>A cancellation is granted only while the worker waits, or after its wait has failed.\<close>

lemma cancel_view:
  assumes "lock_inv w" "c \<in> {CancelWaiting, CancelContended}" "fst (lock_call_of c (lw_phase w))"
  shows "lock_stands (lw_pc w) \<in> {Waits, Broken}"
proof -
  have "lw_phase w \<in> {LockPending, LockContended}"
    using assms(2,3) by (cases "lw_phase w") (auto simp: lock_phase_defs)
  moreover have "lw_phase w \<in> pc_phases (lw_pc w)" using assms(1) by (simp add: lock_inv_def)
  ultimately show ?thesis by (cases "lw_pc w" rule: pc_phases.cases) auto
qed

lemma lock_view_others:
  "lock_others w w' \<Longrightarrow> lock_inv w \<Longrightarrow> wait_step (lock_view w) (lock_view w')"
proof (induction rule: lock_others.induct)
  case (cancels c w)
  let ?w' = "access c (lw_pc w) (lw_pc w) w"
  show ?case
  proof (cases "fst (lock_call_of c (lw_phase w))")
    case True
    have "lock_view ?w' = lock_view w\<lparr>wv_cancelled := True\<rparr>"
      using cancels(1) True by (auto simp: lock_view_simps split_beta)
    then show ?thesis
      using wait_cancel [of "lock_view w"] cancel_view [OF cancels(2,1) True]
      by (simp add: lock_view_def)
  next
    case False
    then have "lock_view ?w' = lock_view w" by (auto simp: lock_view_simps split_beta)
    then show ?thesis by (simp add: wait_stutter)
  qed
qed (simp_all add: lock_view_simps wait_stutter)

lemma lease_view_step:
  "lease_step w w' \<Longrightarrow> lease_inv w \<Longrightarrow> wait_step (lease_view w) (lease_view w')"
proof (induction rule: lease_step.induct)
  case (lease_marked w p)
  then show ?case
    by (cases "pl_phase w") (simp_all add: lease_view_def lease_inv_def lease_phase_defs wait_steps)
next
  case (lease_lost w p)
  then show ?case
    by (cases "pl_phase w") (simp_all add: lease_view_def lease_inv_def lease_phase_defs wait_steps)
next
  case (lease_cancelled w a p)
  then show ?case
    by (cases "pl_phase w"; cases "pl_pc w")
      (auto simp: lease_view_def lease_inv_def lease_phase_defs wait_steps wait_stutter)
qed (simp_all add: lease_view_def lease_inv_def wait_steps wait_stutter)

lemma reachable_runs:
  "lock_reachable w \<longleftrightarrow> lock_step\<^sup>*\<^sup>* initial_lock_world w"
  "lease_reachable lw \<longleftrightarrow> lease_step\<^sup>*\<^sup>* initial_lease_world lw"
proof -
  have "lock_reachable w \<Longrightarrow> lock_step\<^sup>*\<^sup>* initial_lock_world w"
    by (induction rule: lock_reachable.induct) auto
  moreover have "lock_step\<^sup>*\<^sup>* initial_lock_world w \<Longrightarrow> lock_reachable w"
    by (induction rule: rtranclp_induct) (blast intro: lock_reachable.intros)+
  ultimately show "lock_reachable w \<longleftrightarrow> lock_step\<^sup>*\<^sup>* initial_lock_world w" by blast
  have "lease_reachable lw \<Longrightarrow> lease_step\<^sup>*\<^sup>* initial_lease_world lw"
    by (induction rule: lease_reachable.induct) auto
  moreover have "lease_step\<^sup>*\<^sup>* initial_lease_world lw \<Longrightarrow> lease_reachable lw"
    by (induction rule: rtranclp_induct) (blast intro: lease_reachable.intros)+
  ultimately show "lease_reachable lw \<longleftrightarrow> lease_step\<^sup>*\<^sup>* initial_lease_world lw" by blast
qed

interpretation lock_wait: cancellable_wait initial_lock_world lock_reachable lock_step lock_view
proof
  show "lock_view initial_lock_world = wait_start"
    by (simp add: lock_view_def initial_lock_world_def wait_start_def cancel_granted_def)
  show "lock_reachable w \<Longrightarrow> lock_step w w' \<Longrightarrow> wait_step (lock_view w) (lock_view w')" for w w'
    using lock_view_worker lock_view_others lock_reachable_inv unfolding lock_step_def by blast
qed (simp_all add: reachable_runs)

interpretation lease_wait: cancellable_wait initial_lease_world lease_reachable lease_step lease_view
proof
  show "lease_view initial_lease_world = wait_start"
    by (simp add: lease_view_def initial_lease_world_def wait_start_def)
  show "lease_reachable w \<Longrightarrow> lease_step w w' \<Longrightarrow> wait_step (lease_view w) (lease_view w')" for w w'
    using lease_view_step lease_reachable_inv by blast
qed (simp_all add: reachable_runs)

text \<open>
  C32. Both cancellable waits refine one contract, in which the place of the worker counts and
  not only the word they race for. They start as the contract does, and every step that the
  cache lock's world or the profile lease's can reach is a step of the contract or none: the
  worker may go on to its operation, or is handed its lease, only while it has the lock and no
  cancellation was granted; a cancellation is granted only while the worker still waits or
  after its wait has failed; and the worker withdraws, gives up or fails only without the lock.
\<close>

theorem waits_refine_contract:
  "lock_view initial_lock_world = wait_start \<and> lease_view initial_lease_world = wait_start
     \<and> (\<forall>w w'. lock_reachable w \<and> lock_step w w' \<longrightarrow> wait_step (lock_view w) (lock_view w'))
     \<and> (\<forall>w w'. lease_reachable w \<and> lease_step w w' \<longrightarrow> wait_step (lease_view w) (lease_view w'))"
  using lock_wait.starts lease_wait.starts lock_wait.refines lease_wait.refines by blast

lemma waits_refine_contract_witness:
  "wait_step (lock_view initial_lock_world)
     (lock_view (access CancelWaiting Check Check initial_lock_world))"
proof -
  have "lw_pc initial_lock_world = Check" by (simp add: initial_lock_world_def)
  then have "lock_step initial_lock_world (access CancelWaiting Check Check initial_lock_world)"
    using cancels [of CancelWaiting initial_lock_world] by (simp add: lock_step_def)
  then show ?thesis using waits_refine_contract start by blast
qed

text \<open>
  Neither wait, in any state it can reach, goes on after a cancellation or without its lock.
\<close>

lemma waits_keep_promise:
  "lock_reachable w \<Longrightarrow> wait_promise (lock_view w)"
  "lease_reachable lw \<Longrightarrow> wait_promise (lease_view lw)"
  using lock_wait.promise lease_wait.promise by blast+

end
