(* ===== verification/Codex_Activity.thy ===== *)
theory Codex_Activity
  imports Prelude
begin

text \<open>
  Detection of Codex processes that make replacing the live credentials unsafe
  (daemon/codex_process.rs): the classification of one process by its arguments or by its
  Windows identity, the Windows command-line splitter, the inspection of one Linux process, and
  the merge over all processes. Listing the processes of the system (the \<open>/proc\<close> directory, the
  \<open>ps\<close> and PowerShell commands) is the input of the definitions; the macOS argument buffer is
  not modelled.
\<close>

section \<open>Text operations\<close>

definition ascii_lower_char :: "char \<Rightarrow> char" where
  "ascii_lower_char c = (let n = (of_char c :: nat) in if 65 \<le> n \<and> n \<le> 90 then char_of (n + 32) else c)"

definition ascii_lower :: "string \<Rightarrow> string" where
  "ascii_lower s = map ascii_lower_char s"

definition eq_ignore_ascii_case :: "string \<Rightarrow> string \<Rightarrow> bool" where
  "eq_ignore_ascii_case a b \<longleftrightarrow> ascii_lower a = ascii_lower b"

definition trim_char :: "char \<Rightarrow> string \<Rightarrow> string" where
  "trim_char c s = rev (dropWhile ((=) c) (rev (dropWhile ((=) c) s)))"

definition dq :: char where "dq = CHR 0x22"
definition bs :: char where "bs = CHR 0x5C"

lemma dq_bs [simp]: "dq \<noteq> bs" "bs \<noteq> dq"
  by (simp_all add: dq_def bs_def)

definition basename :: "string \<Rightarrow> string" where
  "basename path = rev (takeWhile (\<lambda>c. c \<noteq> CHR ''/'' \<and> c \<noteq> bs) (rev path))"

definition split_once :: "char \<Rightarrow> string \<Rightarrow> (string \<times> string) option" where
  "split_once c s =
     (if c \<in> set s then Some (takeWhile (\<lambda>x. x \<noteq> c) s, tl (dropWhile (\<lambda>x. x \<noteq> c) s)) else None)"

definition contains_text :: "string \<Rightarrow> string \<Rightarrow> bool" where
  "contains_text pat s \<longleftrightarrow> list_ex (\<lambda>k. prefix pat (drop k s)) [0..<Suc (length s)]"

section \<open>Binary names\<close>

datatype process_activity = Idle | Session | AuthMutation | Unknown

definition merge_activity :: "process_activity \<Rightarrow> process_activity \<Rightarrow> process_activity" where
  "merge_activity a b =
     (if a = AuthMutation \<or> b = AuthMutation then AuthMutation
      else if a = Unknown \<or> b = Unknown then Unknown
      else if a = Session \<or> b = Session then Session
      else Idle)"

definition auth_subcommands :: "string list" where
  "auth_subcommands = [''login'', ''logout'']"

definition infra_subcommands :: "string list" where
  "infra_subcommands = [''app-server'', ''completion'', ''exec-server'', ''mcp'', ''mcp-server'']"

definition is_codex_binary_name :: "string \<Rightarrow> bool" where
  "is_codex_binary_name base0 =
     (let base1 = ascii_lower (trim_char dq base0);
          base = (if suffix ''.exe'' base1 then take (length base1 - 4) base1 else base1)
      in base = ''codex''
         \<or> (prefix ''codex-'' base \<and> \<not> prefix ''codex-switch'' base
              \<and> \<not> prefix ''codex-code-mode'' base))"

definition possible_codex_process_name :: "string \<Rightarrow> bool" where
  "possible_codex_process_name name =
     (let base = basename name in
      eq_ignore_ascii_case base ''node'' \<or> eq_ignore_ascii_case base ''node.exe''
        \<or> is_codex_binary_name base)"

section \<open>Arguments\<close>

definition value_flags :: "string list" where
  "value_flags = [''--add-dir'', ''--ask-for-approval'', ''--cd'', ''--config'', ''--disable'',
     ''--enable'', ''--image'', ''--local-provider'', ''--model'', ''--profile'', ''--remote'',
     ''--remote-auth-token-env'', ''--sandbox'', ''-C'', ''-a'', ''-c'', ''-i'', ''-m'', ''-p'', ''-s'']"

definition boolean_flags :: "string list" where
  "boolean_flags = [''--dangerously-bypass-approvals-and-sandbox'',
     ''--dangerously-bypass-hook-trust'', ''--no-alt-screen'', ''--oss'', ''--search'',
     ''--strict-config'']"

definition short_value_flags :: "string list" where
  "short_value_flags = [''-C'', ''-a'', ''-c'', ''-i'', ''-m'', ''-p'', ''-s'']"

definition help_flags :: "string list" where
  "help_flags = [''--help'', ''--version'', ''-h'', ''-V'']"

text \<open>A flag with its value in the same argument.\<close>

definition inline_value :: "string \<Rightarrow> bool" where
  "inline_value arg \<longleftrightarrow>
     (case split_once CHR ''='' arg of Some (flag, _) \<Rightarrow> flag \<in> set value_flags | None \<Rightarrow> False)
   \<or> list_ex (\<lambda>flag. length flag < length arg \<and> prefix flag arg) short_value_flags"

fun classify_codex_invocation :: "string list \<Rightarrow> process_activity" where
  "classify_codex_invocation [] = Session"
| "classify_codex_invocation (arg # args) =
     (if arg \<in> set help_flags then Idle
      else if arg = ''--'' then Session
      else if arg \<in> set boolean_flags then classify_codex_invocation args
      else if arg \<in> set value_flags then
        (case args of [] \<Rightarrow> Session | _ # args' \<Rightarrow> classify_codex_invocation args')
      else if inline_value arg then classify_codex_invocation args
      else if prefix ''-'' arg then Session
      else if arg \<in> set auth_subcommands then AuthMutation
      else if arg \<in> set infra_subcommands then Idle
      else Session)"

definition is_node :: "string \<Rightarrow> bool" where
  "is_node bin \<longleftrightarrow> eq_ignore_ascii_case bin ''node'' \<or> eq_ignore_ascii_case bin ''node.exe''"

definition classify_codex_args :: "string list \<Rightarrow> process_activity" where
  "classify_codex_args args =
     (case args of
        [] \<Rightarrow> Idle
      | first # rest \<Rightarrow>
          if is_node (basename first) then
            (case rest of
               [] \<Rightarrow> Idle
             | shim # rest' \<Rightarrow>
                 if is_codex_binary_name (basename shim) then classify_codex_invocation rest' else Idle)
          else if is_codex_binary_name (basename first) then classify_codex_invocation rest
          else Idle)"

section \<open>Windows command lines\<close>

definition win_space :: "char \<Rightarrow> bool" where
  "win_space c \<longleftrightarrow> c = CHR '' '' \<or> c = CHR 0x09"

text \<open>
  The inner loop: one argument from its first character, with the accumulated text. A run of
  backslashes is taken at once.
\<close>

function win_arg :: "bool \<Rightarrow> string \<Rightarrow> string \<Rightarrow> string \<times> string" where
  "win_arg in_quotes arg cs =
     (if cs = [] \<or> (\<not> in_quotes \<and> win_space (hd cs)) then (arg, cs)
      else
        let n = length (takeWhile ((=) bs) cs)
        in case drop n cs of
             [] \<Rightarrow> (arg @ replicate n bs, [])
           | c # cs' \<Rightarrow>
               if c = dq then
                 (if odd n then win_arg in_quotes (arg @ replicate (n div 2) bs @ [dq]) cs'
                  else if in_quotes \<and> cs' \<noteq> [] \<and> hd cs' = dq
                  then win_arg in_quotes (arg @ replicate (n div 2) bs @ [dq]) (tl cs')
                  else win_arg (\<not> in_quotes) (arg @ replicate (n div 2) bs) cs')
               else win_arg in_quotes (arg @ replicate n bs @ [c]) cs')"
  by pat_completeness auto

lemma drop_shorter: "drop n cs = c # cs' \<Longrightarrow> length cs' < length cs"
  by (metis Suc_le_lessD diff_le_self length_Cons length_drop)

termination win_arg
  by (relation "measure (\<lambda>(_, _, cs). length cs)")
    (auto dest!: drop_shorter intro: le_less_trans)

declare win_arg.simps [simp del]

lemma win_arg_rest:
  "length (snd (win_arg q arg cs)) \<le> length cs"
proof (induction q arg cs rule: win_arg.induct)
  case (1 q arg cs)
  show ?case
  proof (cases "cs = [] \<or> (\<not> q \<and> win_space (hd cs))")
    case True
    then show ?thesis by (subst win_arg.simps) simp
  next
    case False
    let ?n = "length (takeWhile ((=) bs) cs)"
    show ?thesis
    proof (cases "drop ?n cs")
      case Nil
      with False show ?thesis by (subst win_arg.simps) simp
    next
      case (Cons c cs')
      note IH = "1.IH" [OF False refl Cons]
      from drop_shorter [OF Cons] have l: "length cs' < length cs" .
      have t: "length (tl cs') \<le> length cs'" by simp
      show ?thesis
        using False Cons IH l t
        by (subst win_arg.simps) (simp add: Let_def, intro conjI impI; force)
    qed
  qed
qed

lemma win_arg_progress:
  assumes "cs \<noteq> []" "\<not> win_space (hd cs)"
  shows "length (snd (win_arg False [] cs)) < length cs"
proof -
  let ?n = "length (takeWhile ((=) bs) cs)"
  show ?thesis
  proof (cases "drop ?n cs")
    case Nil
    with assms show ?thesis by (subst win_arg.simps) simp
  next
    case (Cons c cs')
    from drop_shorter [OF Cons] have "length cs' < length cs" .
    with assms Cons show ?thesis
      by (subst win_arg.simps) (auto simp: Let_def intro: le_less_trans [OF win_arg_rest])
  qed
qed

function split_windows_command_line :: "string \<Rightarrow> string list" where
  "split_windows_command_line cs =
     (let r = dropWhile win_space cs in
      if r = [] then []
      else fst (win_arg False [] r) # split_windows_command_line (snd (win_arg False [] r)))"
  by pat_completeness auto

termination split_windows_command_line
proof (relation "measure length")
  fix cs r
  assume r: "r = dropWhile win_space cs" and "r \<noteq> []"
  then have "\<not> win_space (hd r)" by (metis hd_dropWhile)
  with win_arg_progress [OF \<open>r \<noteq> []\<close>] r length_dropWhile_le [of win_space cs]
  show "(snd (win_arg False [] r), cs) \<in> measure length" by fastforce
qed simp

declare split_windows_command_line.simps [simp del]

definition classify_codex_command :: "string \<Rightarrow> process_activity" where
  "classify_codex_command cmdline = classify_codex_args (split_windows_command_line cmdline)"

section \<open>Windows processes\<close>

record windows_process =
  wp_name :: string
  wp_process_id :: nat
  wp_owner_is_current_user :: "bool option"
  wp_executable_path :: "string option"
  wp_command_line :: "string option"

definition is_chatgpt_desktop_process_name :: "string \<Rightarrow> bool" where
  "is_chatgpt_desktop_process_name name \<longleftrightarrow>
     eq_ignore_ascii_case (basename (trim_char dq name)) ''ChatGPT.exe''"

definition is_codex_desktop_executable_path :: "string \<Rightarrow> bool" where
  "is_codex_desktop_executable_path path =
     (let normalized = ascii_lower (map (\<lambda>c. if c = CHR ''/'' then bs else c) (trim_char dq path))
      in contains_text (bs # ''windowsapps'' @ bs # ''openai.codex_'') normalized
         \<and> suffix (bs # ''app'' @ bs # ''chatgpt.exe'') normalized)"

definition is_absolute_windows_path :: "string \<Rightarrow> bool" where
  "is_absolute_windows_path path0 =
     (let path = trim_char dq path0 in
      prefix [bs, bs] path
        \<or> (length path > 2 \<and> (of_char (path ! 0) :: nat) < 128 \<and> path ! 1 = CHR '':'' \<and> (path ! 2 = bs \<or> path ! 2 = CHR ''/'')))"

definition has_type_flag :: "string list \<Rightarrow> bool" where
  "has_type_flag args \<longleftrightarrow>
     list_ex (\<lambda>arg. eq_ignore_ascii_case arg ''--type''
        \<or> (case split_once CHR ''='' arg of
             Some (flag, _) \<Rightarrow> eq_ignore_ascii_case flag ''--type'' | None \<Rightarrow> False)) (tl args)"

definition classify_chatgpt_desktop_process ::
  "string option \<Rightarrow> string option \<Rightarrow> process_activity" where
  "classify_chatgpt_desktop_process executable_path0 command_line0 =
     (let executable_path = filter_opt (\<lambda>p. \<not> blank p) executable_path0;
          command_args = map_option split_windows_command_line
                           (filter_opt (\<lambda>l. \<not> blank l) command_line0);
          by_arguments =
            (case command_args of
               None \<Rightarrow> Unknown
             | Some args \<Rightarrow>
                 (case args of
                    first # _ \<Rightarrow> if is_chatgpt_desktop_process_name first then Session else Unknown
                  | [] \<Rightarrow> Unknown))
      in if is_some_and has_type_flag command_args then Idle
         else
           case executable_path of
             Some path \<Rightarrow> if is_codex_desktop_executable_path path then by_arguments else Idle
           | None \<Rightarrow>
               (case command_args of
                  Some (first # _) \<Rightarrow>
                    if is_codex_desktop_executable_path first then by_arguments
                    else if is_chatgpt_desktop_process_name first \<and> \<not> is_absolute_windows_path first
                    then Unknown else Idle
                | _ \<Rightarrow> Unknown))"

definition classify_windows_process_details ::
  "string \<Rightarrow> string option \<Rightarrow> string option \<Rightarrow> process_activity" where
  "classify_windows_process_details process_name executable_path command_line =
     (if is_chatgpt_desktop_process_name process_name
      then classify_chatgpt_desktop_process executable_path command_line
      else
        case filter_opt (\<lambda>l. \<not> blank l) command_line of
          Some line \<Rightarrow> classify_codex_command line
        | None \<Rightarrow> if is_codex_binary_name process_name then Unknown else Idle)"

definition classify_windows_process :: "windows_process \<Rightarrow> process_activity" where
  "classify_windows_process p =
     (let activity = classify_windows_process_details (wp_name p) (wp_executable_path p)
                       (wp_command_line p)
      in if activity = Idle then Idle
         else case wp_owner_is_current_user p of
                Some False \<Rightarrow> Idle
              | Some True \<Rightarrow> activity
              | None \<Rightarrow> Unknown)"

definition windows_codex_activity :: "windows_process list option \<Rightarrow> process_activity" where
  "windows_codex_activity processes =
     (case processes of
        None \<Rightarrow> Unknown
      | Some ps \<Rightarrow> foldl (\<lambda>a p. merge_activity a (classify_windows_process p)) Idle ps)"

section \<open>Unix processes\<close>

datatype process_inspection = Irrelevant | Vanished | Arguments "string list" | Failed

fun collect_process_inspections :: "process_inspection list \<Rightarrow> string list list option" where
  "collect_process_inspections [] = Some []"
| "collect_process_inspections (Irrelevant # is) = collect_process_inspections is"
| "collect_process_inspections (Vanished # is) = collect_process_inspections is"
| "collect_process_inspections (Arguments args # is) =
     map_option (\<lambda>rest. args # rest) (collect_process_inspections is)"
| "collect_process_inspections (Failed # is) = None"

definition codex_activity :: "string list list option \<Rightarrow> process_activity" where
  "codex_activity processes =
     (case processes of
        None \<Rightarrow> Unknown
      | Some ps \<Rightarrow> foldl (\<lambda>a args. merge_activity a (classify_codex_args args)) Idle ps)"

text \<open>
  One Linux process: what the metadata of its directory and each of its files answer. \<open>Gone\<close> is
  an error of the kind \<open>process_vanished\<close> accepts, \<open>OtherFailure\<close> any other error. A file's
  bytes are given as the text they decode to.
\<close>

datatype 'a proc_read = Read 'a | Gone | OtherFailure

record linux_process =
  lp_owner :: "nat proc_read"
  lp_comm :: "string proc_read"
  lp_status :: "string proc_read"
  lp_cmdline :: "string proc_read"
  lp_owner_after :: "nat proc_read"

definition file_failure :: "'a proc_read \<Rightarrow> nat proc_read \<Rightarrow> process_inspection" where
  "file_failure error root_after =
     (if error = Gone \<and> root_after = Gone then Vanished else Failed)"

definition strip_prefix :: "string \<Rightarrow> string \<Rightarrow> string option" where
  "strip_prefix p s = (if prefix p s then Some (drop (length p) s) else None)"

fun split_whitespace_from :: "string \<Rightarrow> string \<Rightarrow> string list" where
  "split_whitespace_from w [] = (if w = [] then [] else [w])"
| "split_whitespace_from w (c # cs) =
     (if is_whitespace c then (if w = [] then [] else [w]) @ split_whitespace_from [] cs
      else split_whitespace_from (w @ [c]) cs)"

definition parse_u32 :: "string \<Rightarrow> u32 option" where
  "parse_u32 s = filter_opt (\<lambda>n. n \<le> u32_max) (parse_u64 s)"

definition nth_opt :: "nat \<Rightarrow> 'a list \<Rightarrow> 'a option" where
  "nth_opt k xs = (if k < length xs then Some (xs ! k) else None)"

definition linux_effective_uid :: "string \<Rightarrow> u32 option" where
  "linux_effective_uid status =
     (case List.map_filter (strip_prefix ''Uid:'') (split_on CHR 0x0A status) of
        [] \<Rightarrow> None
      | row # _ \<Rightarrow> Option.bind (nth_opt 1 (split_whitespace_from [] row)) parse_u32)"

definition linux_process_arguments :: "nat \<Rightarrow> linux_process \<Rightarrow> process_inspection" where
  "linux_process_arguments current_uid p =
     (case lp_owner p of
        Gone \<Rightarrow> Vanished
      | OtherFailure \<Rightarrow> Failed
      | Read uid \<Rightarrow>
          if uid \<noteq> current_uid then Irrelevant
          else case lp_comm p of
            Read comm \<Rightarrow>
              if \<not> possible_codex_process_name (trim comm) then Irrelevant
              else (case lp_status p of
                Read status \<Rightarrow>
                  (case linux_effective_uid status of
                     None \<Rightarrow> Failed
                   | Some uid2 \<Rightarrow>
                       if uid2 \<noteq> current_uid then Irrelevant
                       else (case lp_cmdline p of
                         Read cmdline \<Rightarrow>
                           let args = filter (\<lambda>a. a \<noteq> []) (split_on CHR 0x00 cmdline)
                           in if args = [] then Irrelevant else Arguments args
                       | e \<Rightarrow> file_failure e (lp_owner_after p)))
              | e \<Rightarrow> file_failure e (lp_owner_after p))
          | e \<Rightarrow> file_failure e (lp_owner_after p))"

definition linux_codex_activity :: "nat \<Rightarrow> linux_process list option \<Rightarrow> process_activity" where
  "linux_codex_activity current_uid entries =
     codex_activity (Option.bind entries
       (\<lambda>es. collect_process_inspections (map (linux_process_arguments current_uid) es)))"


section \<open>Options before the subcommand\<close>

text \<open>The argument lists that the invocation loop skips as a whole.\<close>

fun only_options :: "string list \<Rightarrow> bool" where
  "only_options [] = True"
| "only_options (arg # args) =
     (if arg \<in> set help_flags \<or> arg = ''--'' then False
      else if arg \<in> set boolean_flags then only_options args
      else if arg \<in> set value_flags then (case args of [] \<Rightarrow> False | _ # args' \<Rightarrow> only_options args')
      else inline_value arg \<and> only_options args)"

lemma auth_subcommand_plain:
  assumes "cmd \<in> set auth_subcommands"
  shows "cmd \<notin> set help_flags" "cmd \<noteq> ''--''" "cmd \<notin> set boolean_flags" "cmd \<notin> set value_flags"
    "\<not> inline_value cmd" "\<not> prefix ''-'' cmd"
  using assms
  by (auto simp: auth_subcommands_def help_flags_def boolean_flags_def value_flags_def
      inline_value_def split_once_def short_value_flags_def)

lemma invocation_auth:
  "only_options opts \<Longrightarrow> cmd \<in> set auth_subcommands \<Longrightarrow>
     classify_codex_invocation (opts @ cmd # rest) = AuthMutation"
  by (induction opts rule: only_options.induct)
    (auto simp: auth_subcommand_plain split: if_splits list.splits)

lemma invocation_auth_only:
  "classify_codex_invocation args = AuthMutation \<Longrightarrow>
     \<exists>opts cmd rest. only_options opts \<and> args = opts @ cmd # rest \<and> cmd \<in> set auth_subcommands"
proof (induction args rule: classify_codex_invocation.induct)
  case 1
  then show ?case by simp
next
  case (2 arg args)
  let ?hf = "arg \<in> set help_flags" and ?bool = "arg \<in> set boolean_flags"
  have hf: "\<not> ?hf" "arg \<noteq> ''--''" using "2.prems" by (auto split: if_splits)
  show ?case
  proof (cases "?bool \<or> arg \<notin> set value_flags \<and> inline_value arg")
    case True
    with hf "2.prems" have "classify_codex_invocation args = AuthMutation"
      by (auto split: if_splits)
    with "2.IH"(1,3) hf True obtain opts cmd rest where
      "only_options opts" "args = opts @ cmd # rest" "cmd \<in> set auth_subcommands"
      by (cases ?bool) auto
    with hf True have "only_options (arg # opts)" "arg # args = (arg # opts) @ cmd # rest"
      by auto
    with \<open>cmd \<in> set auth_subcommands\<close> show ?thesis by blast
  next
    case False
    then have bool: "\<not> ?bool" by blast
    show ?thesis
    proof (cases "arg \<in> set value_flags")
      case True
      with hf bool "2.prems" obtain v args' where args: "args = v # args'"
        and "classify_codex_invocation args' = AuthMutation" by (auto split: list.splits)
      with "2.IH"(2) hf bool True obtain opts cmd rest where
        "only_options opts" "args' = opts @ cmd # rest" "cmd \<in> set auth_subcommands"
        by blast
      with hf bool True args have "only_options (arg # v # opts)"
        "arg # args = (arg # v # opts) @ cmd # rest" by auto
      with \<open>cmd \<in> set auth_subcommands\<close> show ?thesis by blast
    next
      case False
      with \<open>\<not> (?bool \<or> arg \<notin> set value_flags \<and> inline_value arg)\<close> hf "2.prems"
      have "arg \<in> set auth_subcommands" by (auto split: if_splits)
      then have "only_options []" "arg # args = [] @ arg # args" by simp_all
      with \<open>arg \<in> set auth_subcommands\<close> show ?thesis by blast
    qed
  qed
qed

text \<open>
  C34. A command line changes authentication exactly when its first word after the options is
  \<open>login\<close> or \<open>logout\<close>: however many options precede it, with their values in the next argument,
  after an equals sign or glued to a short flag, and never because of a word further on, a help
  flag, or what follows a double dash.
\<close>

theorem auth_mutation_iff:
  "classify_codex_invocation args = AuthMutation \<longleftrightarrow>
     (\<exists>opts cmd rest. only_options opts \<and> args = opts @ cmd # rest \<and> cmd \<in> set auth_subcommands)"
  using invocation_auth invocation_auth_only by blast

section \<open>Inspection fails closed\<close>

lemma merge_fold:
  "foldl (\<lambda>a p. merge_activity a (f p)) a0 ps =
     (if AuthMutation \<in> insert a0 (f ` set ps) then AuthMutation
      else if Unknown \<in> insert a0 (f ` set ps) then Unknown
      else if Session \<in> insert a0 (f ` set ps) then Session else Idle)"
proof (induction ps arbitrary: a0)
  case Nil
  then show ?case by (cases a0) auto
next
  case (Cons p ps)
  show ?case unfolding foldl.simps Cons.IH
    by (cases a0; cases "f p") (auto simp: merge_activity_def)
qed

text \<open>
  What the safety of a switch asks of one process, in terms of what the process's directory
  answered: it belongs to another user, it is gone (the file is gone and so is the directory
  itself), its name cannot be Codex's, or its files were read, its user is known, and it runs
  for another user or its arguments change no authentication.
\<close>

definition read_or_gone :: "linux_process \<Rightarrow> 'a proc_read \<Rightarrow> ('a \<Rightarrow> bool) \<Rightarrow> bool" where
  "read_or_gone p answer ok \<longleftrightarrow>
     (case answer of
        Read content \<Rightarrow> ok content
      | Gone \<Rightarrow> lp_owner_after p = Gone
      | OtherFailure \<Rightarrow> False)"

definition shown_harmless :: "nat \<Rightarrow> linux_process \<Rightarrow> bool" where
  "shown_harmless uid p \<longleftrightarrow>
     (case lp_owner p of
        Gone \<Rightarrow> True
      | OtherFailure \<Rightarrow> False
      | Read owner_uid \<Rightarrow>
          owner_uid \<noteq> uid
          \<or> read_or_gone p (lp_comm p) (\<lambda>comm.
              \<not> possible_codex_process_name (trim comm)
              \<or> read_or_gone p (lp_status p) (\<lambda>status.
                  case linux_effective_uid status of
                    None \<Rightarrow> False
                  | Some effective \<Rightarrow>
                      effective \<noteq> uid
                      \<or> read_or_gone p (lp_cmdline p) (\<lambda>cmdline.
                          classify_codex_args (filter (\<lambda>a. a \<noteq> []) (split_on CHR 0x00 cmdline))
                            \<noteq> AuthMutation))))"

fun no_mutation :: "process_inspection \<Rightarrow> bool" where
  "no_mutation (Arguments args) \<longleftrightarrow> classify_codex_args args \<noteq> AuthMutation"
| "no_mutation Failed \<longleftrightarrow> False"
| "no_mutation _ \<longleftrightarrow> True"

lemma no_mutation_failure:
  "no_mutation (file_failure error root_after) \<longleftrightarrow> error = Gone \<and> root_after = Gone"
  by (simp add: file_failure_def)

lemma inspection_harmless:
  "no_mutation (linux_process_arguments uid p) \<longleftrightarrow> shown_harmless uid p"
  unfolding linux_process_arguments_def shown_harmless_def read_or_gone_def
  by (auto simp: no_mutation_failure Let_def classify_codex_args_def split: proc_read.split option.split)

lemma invocation_known: "classify_codex_invocation args \<noteq> Unknown"
  by (induction args rule: classify_codex_invocation.induct) (auto split: list.splits)

lemma classification_known: "classify_codex_args args \<noteq> Unknown"
  by (auto simp: classify_codex_args_def invocation_known split: list.splits)

lemma collect_inspections_iff:
  "(\<exists>argss. collect_process_inspections is = Some argss
      \<and> AuthMutation \<notin> classify_codex_args ` set argss)
     \<longleftrightarrow> list_all no_mutation is"
proof (induction "is" rule: collect_process_inspections.induct)
  case (4 args "is")
  then show ?case by (cases "collect_process_inspections is") (auto simp: eq_commute [of AuthMutation])
qed simp_all

lemma permitted_activity:
  "codex_activity processes \<notin> {AuthMutation, Unknown} \<longleftrightarrow>
     (\<exists>argss. processes = Some argss \<and> AuthMutation \<notin> classify_codex_args ` set argss)"
  by (cases processes)
    (auto simp: codex_activity_def merge_fold classification_known [symmetric] split: if_splits)

text \<open>
  C35. The process check fails closed. The activity of a Linux system permits a switch (it is
  neither \<open>AuthMutation\<close> nor \<open>Unknown\<close>) exactly when the process list could be read and every
  process in it was shown harmless: it belongs to another user; or what could not be read is
  gone, and so is the process's own directory; or its name cannot be Codex's; or its status
  was read and gives an effective user, and that is another user or its arguments were read
  and do not change authentication. A file that cannot be read for any other reason, a file
  missing from a process that is still there, or a status without a user, never permits.
\<close>

theorem activity_fails_closed:
  "linux_codex_activity uid entries \<notin> {AuthMutation, Unknown} \<longleftrightarrow>
     (\<exists>es. entries = Some es \<and> list_all (shown_harmless uid) es)"
proof (cases entries)
  case (Some es)
  have "linux_codex_activity uid entries \<notin> {AuthMutation, Unknown}
      \<longleftrightarrow> list_all no_mutation (map (linux_process_arguments uid) es)"
    unfolding linux_codex_activity_def Some permitted_activity bind.simps
    by (rule collect_inspections_iff)
  then show ?thesis by (simp add: Some list.pred_map comp_def inspection_harmless)
qed (simp add: linux_codex_activity_def codex_activity_def)

definition demo_process :: linux_process where
  "demo_process = \<lparr>lp_owner = Read 7, lp_comm = Read ''codex'', lp_status = Read ''Uid: 7 7'',
     lp_cmdline = Read (''codex'' @ CHR 0x00 # ''mcp''), lp_owner_after = Gone\<rparr>"

lemma demo_process_uid: "linux_effective_uid ''Uid: 7 7'' = Some 7"
  by (simp add: linux_effective_uid_def strip_prefix_def List.map_filter_def is_whitespace_def
      nth_opt_def parse_u32_def parse_u64_def digit_value_def u64_max_def u32_max_def)

lemma demo_process_args: "linux_process_arguments 7 demo_process = Arguments [''codex'', ''mcp'']"
proof -
  have "possible_codex_process_name (trim ''codex'')"
    "filter (\<lambda>a. a \<noteq> []) (split_on CHR 0x00 (''codex'' @ CHR 0x00 # ''mcp'')) = [''codex'', ''mcp'']"
    by code_simp+
  then show ?thesis
    unfolding linux_process_arguments_def demo_process_def by (simp add: demo_process_uid Let_def)
qed

lemma activity_fails_closed_witness:
  "shown_harmless 7 demo_process
     \<and> \<not> shown_harmless 7 (demo_process\<lparr>lp_cmdline := OtherFailure\<rparr>)"
proof -
  have "codex_activity (Some [[''codex'', ''mcp'']]) \<notin> {AuthMutation, Unknown}" by code_simp
  then have "linux_codex_activity 7 (Some [demo_process]) \<notin> {AuthMutation, Unknown}"
    unfolding linux_codex_activity_def by (simp add: demo_process_args)
  then have "shown_harmless 7 demo_process" by (simp only: activity_fails_closed) simp
  moreover have "possible_codex_process_name (trim ''codex'')" by code_simp
  ultimately show ?thesis
    by (simp add: shown_harmless_def read_or_gone_def demo_process_def demo_process_uid)
qed

section \<open>Quoting round trip\<close>

text \<open>
  The standard Windows quoting of one argument: double the backslashes before a quote and at the
  end, escape the quotes, and wrap the whole in quotes. \<open>n\<close> counts pending backslashes.
\<close>

fun escape_arg :: "nat \<Rightarrow> string \<Rightarrow> string" where
  "escape_arg n [] = replicate (2 * n) bs"
| "escape_arg n (c # cs) =
     (if c = bs then escape_arg (Suc n) cs
      else if c = dq then replicate (2 * n + 1) bs @ dq # escape_arg 0 cs
      else replicate n bs @ c # escape_arg 0 cs)"

definition quote_arg :: "string \<Rightarrow> string" where
  "quote_arg s = dq # escape_arg 0 s @ [dq]"

definition quote_command :: "string list \<Rightarrow> string" where
  "quote_command args = join '' '' (map quote_arg args)"

lemma run_of_backslashes:
  "c \<noteq> bs \<Longrightarrow> takeWhile ((=) bs) (replicate n bs @ c # cs) = replicate n bs"
  "c \<noteq> bs \<Longrightarrow> drop n (replicate n bs @ c # cs) = c # cs"
  by (induction n) auto

lemma win_arg_run:
  assumes "c \<noteq> bs" "q"
  shows "win_arg q arg (replicate n bs @ c # cs) =
     (if c = dq then
        (if odd n then win_arg q (arg @ replicate (n div 2) bs @ [dq]) cs
         else if cs \<noteq> [] \<and> hd cs = dq
         then win_arg q (arg @ replicate (n div 2) bs @ [dq]) (tl cs)
         else win_arg (\<not> q) (arg @ replicate (n div 2) bs) cs)
      else win_arg q (arg @ replicate n bs @ [c]) cs)"
  using assms by (subst win_arg.simps) (simp add: run_of_backslashes Let_def)

lemma win_arg_escaped:
  assumes "rest = [] \<or> hd rest \<noteq> dq"
  shows "win_arg True arg (escape_arg n s @ dq # rest) = win_arg False (arg @ replicate n bs @ s) rest"
proof (induction n s arbitrary: arg rule: escape_arg.induct)
  case (1 n)
  have "win_arg True arg (replicate (2 * n) bs @ dq # rest) = win_arg False (arg @ replicate n bs) rest"
    using assms by (subst win_arg_run) auto
  then show ?case by simp
next
  case (2 n c cs)
  show ?case
  proof (cases "c = bs")
    case True
    with "2.IH"(1) [OF True, of arg] show ?thesis by (simp add: replicate_app_Cons_same)
  next
    case False
    show ?thesis
    proof (cases "c = dq")
      case True
      have "win_arg True arg (replicate (2 * n + 1) bs @ dq # escape_arg 0 cs @ dq # rest)
          = win_arg True (arg @ replicate n bs @ [dq]) (escape_arg 0 cs @ dq # rest)"
        by (subst win_arg_run) auto
      with "2.IH"(2) [OF False True, of "arg @ replicate n bs @ [dq]"] True show ?thesis by simp
    next
      case dq: False
      have "win_arg True arg (replicate n bs @ c # escape_arg 0 cs @ dq # rest)
          = win_arg True (arg @ replicate n bs @ [c]) (escape_arg 0 cs @ dq # rest)"
        using False dq by (subst win_arg_run) auto
      with "2.IH"(3) [OF False dq, of "arg @ replicate n bs @ [c]"] False dq show ?thesis by simp
    qed
  qed
qed

lemma win_arg_quoted:
  assumes "rest = [] \<or> win_space (hd rest)"
  shows "win_arg False [] (quote_arg s @ rest) = (s, rest)"
proof -
  have rest: "rest = [] \<or> hd rest \<noteq> dq" using assms by (auto simp: win_space_def dq_def)
  have "win_arg False [] (quote_arg s @ rest) = win_arg True [] (escape_arg 0 s @ dq # rest)
      \<or> s = [] \<and> quote_arg s = [dq, dq]"
  proof (cases "s = []")
    case True
    then show ?thesis by (simp add: quote_arg_def)
  next
    case False
    have "\<not> win_space dq" by (simp add: win_space_def dq_def)
    then show ?thesis by (subst (1) win_arg.simps) (simp add: quote_arg_def Let_def)
  qed
  moreover have "win_arg False [] (dq # dq # rest) = win_arg True [] (dq # rest)"
    by (subst win_arg.simps) (simp add: Let_def win_space_def dq_def bs_def)
  moreover have "win_arg True [] (dq # rest) = win_arg False [] rest"
    using win_arg_escaped [OF rest, of "[]" 0 "[]"] by simp
  moreover have "win_arg False a rest = (a, rest)" for a
    using assms by (subst win_arg.simps) auto
  ultimately show ?thesis using win_arg_escaped [OF rest, of "[]" 0 s] by auto
qed

lemma split_quoted:
  "split_windows_command_line (join '' '' (map quote_arg args)) = args"
proof (induction args)
  case Nil
  then show ?case by (subst split_windows_command_line.simps) simp
next
  case (Cons s args)
  let ?rest = "if args = [] then [] else CHR '' '' # join '' '' (map quote_arg args)"
  have line: "join '' '' (map quote_arg (s # args)) = quote_arg s @ ?rest"
    by (cases args) simp_all
  have "\<not> win_space dq" by (simp add: win_space_def dq_def)
  then have start: "dropWhile win_space (quote_arg s @ ?rest) = quote_arg s @ ?rest"
    "quote_arg s @ ?rest \<noteq> []" by (simp_all add: quote_arg_def)
  have "win_arg False [] (quote_arg s @ ?rest) = (s, ?rest)"
    by (rule win_arg_quoted) (simp add: win_space_def)
  with start have "split_windows_command_line (quote_arg s @ ?rest) = s # split_windows_command_line ?rest"
    by (subst split_windows_command_line.simps) (simp add: Let_def)
  moreover have "split_windows_command_line ?rest = args"
  proof (cases "args = []")
    case True
    then show ?thesis by (subst split_windows_command_line.simps) simp
  next
    case False
    have "split_windows_command_line (CHR '' '' # cs) = split_windows_command_line cs" for cs
      by (subst (1 2) split_windows_command_line.simps) (simp add: win_space_def)
    with False Cons.IH show ?thesis by simp
  qed
  ultimately show ?case unfolding line by simp
qed

text \<open>
  C36. Reading back a quoted Windows command line loses nothing: for every list of arguments,
  empty ones and arguments with spaces, quotes and runs of backslashes included, splitting the
  standard quoting gives exactly those arguments.
\<close>

theorem windows_quoting_roundtrip:
  "split_windows_command_line (quote_command args) = args"
  unfolding quote_command_def by (rule split_quoted)

text \<open>
  Outside quotes the splitter differs from the Windows rules in one case: after a run of
  backslashes that no quote follows, the next character is taken into the argument even when it
  is a separator.
\<close>

lemma trailing_backslash_takes_separator:
  "split_windows_command_line (''cd C:'' @ [bs] @ '' login'') = [''cd'', ''C:'' @ [bs] @ '' login'']"
  by code_simp

end
