(* ===== verification/Config.thy ===== *)
theory Config
  imports Float64
begin

text \<open>
  The configuration (config.rs): its sections with their defaults, the validation of a parsed
  file and the removal warnings, and the loading of the file. The TOML reader, the proxy URL
  parser, the tracing filter, the runtime's permit limit and the range of its timer are code
  outside the repository and parameters of the model.
\<close>

section \<open>Sections and defaults\<close>

text \<open>Values kept only for the removal warnings are represented by their presence.\<close>

record proxy_config =
  px_url :: "string option"
  px_no_proxy :: "string option"

record use_config =
  uc_safety_margin_7d :: f64
  uc_team_priority :: bool
  uc_mode_present :: bool
  uc_min_remaining_present :: bool

record daemon_config =
  dc_poll_interval_secs :: u64
  dc_switch_threshold :: f64
  dc_cache_refresh_interval_secs :: u64
  dc_auto_warmup :: bool
  dc_token_check_interval_secs :: u64
  dc_notify :: bool
  dc_log_level :: string
  dc_defer_switch_while_codex_running :: bool

record app_config =
  ac_proxy :: proxy_config
  ac_cache_ttl :: u64
  ac_network_max_concurrent :: nat
  ac_tui_auto_refresh_interval_secs :: u64
  ac_use :: use_config
  ac_daemon :: daemon_config
  ac_removed_launch_present :: bool

definition default_use :: use_config where
  "default_use = \<lparr>uc_safety_margin_7d = Fin 20, uc_team_priority = True,
     uc_mode_present = False, uc_min_remaining_present = False\<rparr>"

definition default_daemon :: daemon_config where
  "default_daemon = \<lparr>dc_poll_interval_secs = 60, dc_switch_threshold = Fin 80,
     dc_cache_refresh_interval_secs = 300, dc_auto_warmup = False,
     dc_token_check_interval_secs = 300, dc_notify = False, dc_log_level = ''error'',
     dc_defer_switch_while_codex_running = True\<rparr>"

definition default_config :: app_config where
  "default_config = \<lparr>ac_proxy = \<lparr>px_url = None, px_no_proxy = None\<rparr>, ac_cache_ttl = 300,
     ac_network_max_concurrent = 20, ac_tui_auto_refresh_interval_secs = 120,
     ac_use = default_use, ac_daemon = default_daemon, ac_removed_launch_present = False\<rparr>"

section \<open>Validation\<close>

definition poll_backoff_max_multiplier :: u64 where
  "poll_backoff_max_multiplier = 16"

text \<open>\<open>timer_ok n\<close>: the runtime's clock can be advanced by \<open>n\<close> seconds.\<close>

definition validate_interval ::
  "(u64 \<Rightarrow> bool) \<Rightarrow> string \<Rightarrow> u64 \<Rightarrow> u64 \<Rightarrow> u64 \<Rightarrow> u64 result" where
  "validate_interval timer_ok name seconds minimum multiplier =
     (if seconds < minimum
      then bail (''config.'' @ name @ '' must be at least '' @ show_nat minimum @ '' second(s)'')
      else ok_or [''config.'' @ name @ '' is too large for the runtime timer'']
             (filter_opt timer_ok (checked_mul_u64 seconds multiplier)))"

definition validate_percentage :: "string \<Rightarrow> f64 \<Rightarrow> unit result" where
  "validate_percentage name v =
     (if \<not> is_finite v \<or> \<not> (f64_le (Fin 0) v \<and> f64_le v (Fin 100))
      then bail (''config.'' @ name @ '' must be a finite percentage from 0 through 100'')
      else Inr ())"

text \<open>What validation asks of the outside.\<close>

record config_world =
  cw_proxy_ok :: "string \<Rightarrow> unit result"
  cw_filter_ok :: "string \<Rightarrow> unit result"
  cw_max_permits :: nat
  cw_timer_ok :: "u64 \<Rightarrow> bool"
  cw_clock :: "i64 result"
  cw_application_filter :: "string \<Rightarrow> string"

definition too_large_for_state :: string where
  "too_large_for_state = ''config.daemon.poll_interval_secs is too large for persisted daemon state''"

definition validate :: "config_world \<Rightarrow> app_config \<Rightarrow> unit result" where
  "validate w c =
     and_then (case px_url (ac_proxy c) of
         None \<Rightarrow> Inr ()
       | Some url \<Rightarrow>
           if blank url then bail ''config.proxy.url cannot be empty''
           else with_context ''config.proxy.url is not a valid proxy URL'' (cw_proxy_ok w url)) (\<lambda>_.
     if ac_network_max_concurrent c = 0
     then bail ''config.network.max_concurrent must be at least 1''
     else if cw_max_permits w < ac_network_max_concurrent c
     then bail (''config.network.max_concurrent='' @ show_nat (ac_network_max_concurrent c)
            @ '' exceeds the runtime limit of '' @ show_nat (cw_max_permits w))
     else
     and_then (validate_interval (cw_timer_ok w) ''tui.auto_refresh_interval_secs''
         (ac_tui_auto_refresh_interval_secs c) 30 1) (\<lambda>_.
     and_then (validate_percentage ''use.safety_margin_7d'' (uc_safety_margin_7d (ac_use c))) (\<lambda>_.
     and_then (validate_interval (cw_timer_ok w) ''daemon.poll_interval_secs''
         (dc_poll_interval_secs (ac_daemon c)) 1 poll_backoff_max_multiplier) (\<lambda>horizon.
     and_then (ok_or [too_large_for_state] (i64_of_u64 horizon)) (\<lambda>horizon_i64.
     and_then (cw_clock w) (\<lambda>now.
     and_then (ok_or [too_large_for_state] (checked_add now horizon_i64)) (\<lambda>_.
     and_then (validate_percentage ''daemon.switch_threshold''
         (dc_switch_threshold (ac_daemon c))) (\<lambda>_.
     and_then (validate_interval (cw_timer_ok w) ''daemon.cache_refresh_interval_secs''
         (dc_cache_refresh_interval_secs (ac_daemon c)) 1 1) (\<lambda>_.
     and_then (validate_interval (cw_timer_ok w) ''daemon.token_check_interval_secs''
         (dc_token_check_interval_secs (ac_daemon c)) 1 1) (\<lambda>_.
       let log_level = trim (dc_log_level (ac_daemon c)) in
       if log_level = [] then bail ''config.daemon.log_level cannot be empty''
       else with_context ''config.daemon.log_level is not a valid tracing filter level''
              (cw_filter_ok w (cw_application_filter w log_level))))))))))))"

definition deprecated_key_warnings :: "app_config \<Rightarrow> string list" where
  "deprecated_key_warnings c =
     (if uc_mode_present (ac_use c)
      then [''config: [use] '' @ quoted ''mode'' @ '' is deprecated and ignored in v0.0.13+, ''
              @ ''the adaptive algorithm replaces all selection modes''] else [])
   @ (if uc_min_remaining_present (ac_use c)
      then [''config: [use] '' @ quoted ''min_remaining'' @ '' is deprecated and ignored in v0.0.13+, ''
              @ ''the adaptive algorithm replaces all selection modes''] else [])
   @ (if ac_removed_launch_present c
      then [''config: [launch] is ignored because the launch command was removed in ''
              @ ''v20260824.2.0; delete this table''] else [])"

section \<open>Loading\<close>

text \<open>
  The file as it is found: absent, a link that leads nowhere, unreadable, or its contents with
  the outcome of parsing them.
\<close>

datatype config_file =
    ConfigAbsent
  | ConfigDangling anyhow
  | ConfigUninspectable anyhow
  | ConfigUnreadable anyhow
  | ConfigParsed "string + app_config"

definition load_from_file ::
  "config_world \<Rightarrow> string \<Rightarrow> config_file \<Rightarrow> (app_config \<times> string list) result" where
  "load_from_file w path file =
     (case file of
        ConfigAbsent \<Rightarrow> Inr (default_config, [])
      | ConfigDangling e \<Rightarrow> Inl ((''failed to read config file '' @ path) # e)
      | ConfigUninspectable e \<Rightarrow> Inl ((''failed to inspect config path '' @ path) # e)
      | ConfigUnreadable e \<Rightarrow> Inl ((''failed to read config file '' @ path) # e)
      | ConfigParsed (Inl message) \<Rightarrow>
          bail (''failed to parse config file '' @ path @ '': '' @ message)
      | ConfigParsed (Inr c) \<Rightarrow>
          (case validate w c of
             Inl e \<Rightarrow> bail (''failed to validate config file '' @ path @ '': '' @ hd e)
           | Inr _ \<Rightarrow> Inr (c, deprecated_key_warnings c)))"

section \<open>What an accepted configuration guarantees\<close>

definition config_ok :: "config_world \<Rightarrow> app_config \<Rightarrow> bool" where
  "config_ok w c \<longleftrightarrow>
     1 \<le> ac_network_max_concurrent c \<and> ac_network_max_concurrent c \<le> cw_max_permits w
   \<and> 30 \<le> ac_tui_auto_refresh_interval_secs c
   \<and> between 0 100 (uc_safety_margin_7d (ac_use c))
   \<and> between 0 100 (dc_switch_threshold (ac_daemon c))
   \<and> 1 \<le> dc_poll_interval_secs (ac_daemon c)
   \<and> dc_poll_interval_secs (ac_daemon c) * poll_backoff_max_multiplier \<le> u64_max
   \<and> int (dc_poll_interval_secs (ac_daemon c) * poll_backoff_max_multiplier) \<le> i64_max
   \<and> cw_timer_ok w (dc_poll_interval_secs (ac_daemon c) * poll_backoff_max_multiplier)
   \<and> 1 \<le> dc_cache_refresh_interval_secs (ac_daemon c)
   \<and> 1 \<le> dc_token_check_interval_secs (ac_daemon c)
   \<and> \<not> blank (dc_log_level (ac_daemon c))"

lemma validate_percentage_ok:
  "validate_percentage name v = Inr () \<longleftrightarrow> between 0 100 v"
  by (cases v) (auto simp: validate_percentage_def between_def is_finite_def f64_le_def bail_def)

lemma validate_interval_ok:
  "validate_interval timer_ok name s m k = Inr h \<longleftrightarrow>
     m \<le> s \<and> s * k \<le> u64_max \<and> h = s * k \<and> timer_ok h"
  by (auto simp: validate_interval_def ok_or_eq_Inr checked_mul_u64_def bail_def split: if_splits)

lemma bail_not_Inr: "bail m = Inr x \<longleftrightarrow> False"
  by (simp add: bail_def)

lemma validate_sound: "validate w c = Inr () \<Longrightarrow> config_ok w c"
  unfolding validate_def config_ok_def Let_def
  by (simp add: result_eq_Inr bail_not_Inr validate_interval_ok validate_percentage_ok i64_of_u64_def
      blank_def split: if_splits) auto

end
