(* ===== verification/Task_Batch.thy ===== *)
theory Task_Batch
  imports Prelude "HOL-Library.Multiset" "HOL-Library.Product_Lexorder"
begin

text \<open>
  Draining a batch of named workers (task_batch.rs). The tasks are given in the order in which
  they finish, each with its identity and what joining it yields; the registered names are the
  association list of the task map. The runtime guarantees that every task of a set is joined
  exactly once.
\<close>

datatype join_error = Panicked | Cancelled | OtherJoinError

definition join_failure_outcome :: "join_error \<Rightarrow> string" where
  "join_failure_outcome e =
     (case e of Panicked \<Rightarrow> ''panicked'' | Cancelled \<Rightarrow> ''was cancelled''
      | OtherJoinError \<Rightarrow> ''failed unexpectedly'')"

definition join_failure_detail :: "join_error \<Rightarrow> string" where
  "join_failure_detail e =
     ''worker '' @ join_failure_outcome e @ '' before its result could be collected''"

datatype 'a named_outcome = Completed string 'a | Failed string string

fun outcome_alias :: "'a named_outcome \<Rightarrow> string" where
  "outcome_alias (Completed alias' _) = alias'"
| "outcome_alias (Failed alias' _) = alias'"

definition unregistered :: string where
  "unregistered = ''<unregistered worker>''"

text \<open>The join loop: outcomes in completion order, the names left over, and the callback calls.\<close>

fun join_tasks ::
  "(nat \<times> (join_error + 'a)) list \<Rightarrow> (nat \<times> string) list
     \<Rightarrow> 'a named_outcome list \<times> (nat \<times> string) list \<times> string list" where
  "join_tasks [] names = ([], names, [])"
| "join_tasks ((task_id, joined) # rest) names =
     (case map_of names task_id of
        None \<Rightarrow>
          let (outcomes, names', calls) = join_tasks rest names
          in (Failed unregistered ''batch bookkeeping lost a completed worker identity'' # outcomes,
              names', calls)
      | Some alias' \<Rightarrow>
          let (outcomes, names', calls) = join_tasks rest (filter (\<lambda>(k, _). k \<noteq> task_id) names);
              outcome = (case joined of Inr x \<Rightarrow> Completed alias' x
                         | Inl e \<Rightarrow> Failed alias' (join_failure_detail e))
          in (outcome # outcomes, names', alias' # calls))"

definition drain_named_tasks ::
  "(nat \<times> (join_error + 'a)) list \<Rightarrow> (nat \<times> string) list \<Rightarrow> 'a named_outcome list \<times> string list" where
  "drain_named_tasks tasks names =
     (let (outcomes, left, calls) = join_tasks tasks names
      in (sort_key outcome_alias
            (outcomes @ map (\<lambda>(_, alias').
               Failed alias' ''batch ended before the registered worker returned'') left), calls))"

definition batch_failure_error :: "string \<Rightarrow> (string \<times> string) list \<Rightarrow> anyhow" where
  "batch_failure_error context failures =
     [context @ '': '' @ join ''; '' (map (\<lambda>(a, d). ''['' @ a @ ''] '' @ d) (sort failures))]"

section \<open>Nothing is lost\<close>

lemma filter_names_notin:
  "k \<notin> fst ` set names \<Longrightarrow> filter (\<lambda>(k', _). k' \<noteq> k) names = names"
  by (induction names) auto

lemma mset_filter_names:
  "distinct (map fst names) \<Longrightarrow> map_of names k = Some a \<Longrightarrow>
     mset (map snd names) = add_mset a (mset (map snd (filter (\<lambda>(k', _). k' \<noteq> k) names)))"
proof (induction names)
  case (Cons p names)
  show ?case
  proof (cases "fst p = k")
    case True
    with Cons.prems show ?thesis
      by (cases p) (use filter_names_notin [of k names] in \<open>auto simp: image_iff\<close>)
  next
    case False
    with Cons show ?thesis by (cases p) auto
  qed
qed simp

lemma distinct_filter_names:
  "distinct (map fst names) \<Longrightarrow> distinct (map fst (filter P names))"
  by (induction names) auto

text \<open>Tasks that finished without a registered name.\<close>

definition strays :: "(nat \<times> (join_error + 'a)) list \<Rightarrow> (nat \<times> string) list \<Rightarrow> nat" where
  "strays tasks names = length (filter (\<lambda>t. fst t \<notin> fst ` set names) tasks)"

lemma join_tasks_accounts:
  "distinct (map fst names) \<Longrightarrow> distinct (map fst tasks) \<Longrightarrow> join_tasks tasks names = (outcomes, left, calls) \<Longrightarrow>
     image_mset outcome_alias (mset outcomes) + mset (map snd left)
       = mset (map snd names) + replicate_mset (strays tasks names) unregistered"
proof (induction tasks names arbitrary: outcomes left calls rule: join_tasks.induct)
  case (2 task_id joined rest names)
  show ?case
  proof (cases "map_of names task_id")
    case None
    with "2.prems" obtain os where os: "join_tasks rest names = (os, left, calls)"
      "outcomes = Failed unregistered ''batch bookkeeping lost a completed worker identity'' # os"
      by (auto split: prod.splits)
    from None have "task_id \<notin> fst ` set names" by (simp add: map_of_eq_None_iff)
    with "2.IH"(1) [OF None _ _ os(1)] "2.prems" os(2) show ?thesis by (simp add: strays_def)
  next
    case (Some a)
    let ?names = "filter (\<lambda>(k, _). k \<noteq> task_id) names"
    from Some "2.prems" obtain os where os: "join_tasks rest ?names = (os, left, tl calls)"
      "outcome_alias (hd outcomes) = a" "outcomes = hd outcomes # os"
      by (auto simp: Let_def split: prod.splits sum.splits)
    have "task_id \<in> fst ` set names" using Some by (force dest: map_of_SomeD)
    moreover have "strays rest ?names = strays rest names"
    proof -
      have "fst t \<notin> fst ` set ?names \<longleftrightarrow> fst t \<notin> fst ` set names" if "t \<in> set rest" for t
      proof -
        have "fst t \<noteq> task_id" using that "2.prems"(2) by (auto simp: rev_image_eqI)
        then show ?thesis by force
      qed
      then show ?thesis unfolding strays_def by (metis (no_types, lifting) filter_cong)
    qed
    moreover have "image_mset outcome_alias (mset os) + mset (map snd left)
        = mset (map snd ?names) + replicate_mset (strays rest ?names) unregistered"
      using "2.IH"(2) [OF Some _ _ os(1)] "2.prems" distinct_filter_names by auto
    moreover have "mset outcomes = add_mset (hd outcomes) (mset os)"
      by (subst os(3)) simp
    ultimately show ?thesis using mset_filter_names [OF "2.prems"(1) Some] os(2)
      by (simp add: strays_def)
  qed
qed (simp add: strays_def)

lemma join_tasks_results:
  "distinct (map fst tasks) \<Longrightarrow> join_tasks tasks names = (outcomes, left, calls) \<Longrightarrow>
     Completed a x \<in> set outcomes \<longleftrightarrow> (\<exists>k. (k, Inr x) \<in> set tasks \<and> map_of names k = Some a)"
proof (induction tasks names arbitrary: outcomes left calls rule: join_tasks.induct)
  case (2 task_id joined rest names)
  show ?case
  proof (cases "map_of names task_id")
    case None
    with "2" show ?thesis by (fastforce split: prod.splits)
  next
    case (Some b)
    let ?names = "filter (\<lambda>(k, _). k \<noteq> task_id) names"
    obtain os l c where os: "join_tasks rest ?names = (os, l, c)" by (metis prod_cases3)
    have "map_of ?names k = map_of names k" if "(k, y) \<in> set rest" for k and y :: "join_error + 'a"
    proof -
      have "k \<noteq> task_id" using that "2.prems"(1) by force
      then show ?thesis by (induction names) auto
    qed
    then have "Completed a x \<in> set os \<longleftrightarrow> (\<exists>k. (k, Inr x) \<in> set rest \<and> map_of names k = Some a)"
      using "2.IH"(2) [OF Some _ os] "2.prems"(1) by fastforce
    then show ?thesis using Some os "2.prems"(2) by (auto split: sum.splits)
  qed
qed simp

lemma map_of_filter_other:
  "map_of (filter (\<lambda>(k', _). k' \<noteq> j) names) k = (if k = j then None else map_of names k)"
  by (induction names) auto

lemma join_tasks_completed:
  "Completed a x \<in> set (fst (join_tasks tasks names)) \<Longrightarrow>
     \<exists>k. (k, Inr x) \<in> set tasks \<and> map_of names k = Some a"
  by (induction tasks names rule: join_tasks.induct)
    (fastforce simp: Let_def split: option.splits sum.splits prod.splits simp: map_of_filter_other split: if_splits)+

lemma lost_aliases:
  "image_mset outcome_alias (image_mset (\<lambda>(_, a). Failed a d) (mset left)) = image_mset snd (mset left)"
  by (induction left) auto

text \<open>
  Draining a batch loses no worker. Every registered name appears in the outcomes exactly as
  often as it was registered, a task without a name is reported and counted, the outcomes are in
  the order of the names, and every value a named worker returned, after any number of panics and
  cancellations before it, is among them under its name.
\<close>

theorem drain_loses_nothing:
  assumes "distinct (map fst tasks)" "distinct (map fst names)"
  shows "image_mset outcome_alias (mset (fst (drain_named_tasks tasks names)))
           = mset (map snd names) + replicate_mset (strays tasks names) unregistered
     \<and> sorted (map outcome_alias (fst (drain_named_tasks tasks names)))
     \<and> (Completed a x \<in> set (fst (drain_named_tasks tasks names))
          \<longleftrightarrow> (\<exists>k. (k, Inr x) \<in> set tasks \<and> map_of names k = Some a))"
proof -
  obtain outcomes left calls where j: "join_tasks tasks names = (outcomes, left, calls)"
    by (metis prod_cases3)
  show ?thesis
    using join_tasks_accounts [OF assms(2,1) j] join_tasks_results [OF assms(1) j, of a x]
    by (auto simp: drain_named_tasks_def j Let_def lost_aliases)
qed

lemma drain_loses_nothing_witness:
  "image_mset outcome_alias (mset (fst (drain_named_tasks
       [(1, Inl Panicked), (2, Inr True)] [(1, ''b''), (2, ''a'')])))
     = mset [''b'', ''a''] + replicate_mset (strays [(1, Inl Panicked), (2, Inr True)]
         [(1, ''b''), (2, ''a'')]) unregistered"
proof -
  have "distinct (map fst [(1::nat, Inl Panicked :: join_error + bool), (2, Inr True)])"
    "distinct (map fst [(1::nat, ''b''), (2, ''a'')])" by simp_all
  from drain_loses_nothing [OF this] show ?thesis by simp
qed

section \<open>The order in which the workers finish does not matter\<close>

fun task_outcome :: "(nat \<times> string) list \<Rightarrow> nat \<times> (join_error + 'a) \<Rightarrow> 'a named_outcome" where
  "task_outcome names (k, joined) =
     (case map_of names k of
        None \<Rightarrow> Failed unregistered ''batch bookkeeping lost a completed worker identity''
      | Some name \<Rightarrow> (case joined of Inr x \<Rightarrow> Completed name x
                      | Inl e \<Rightarrow> Failed name (join_failure_detail e)))"

lemma join_tasks_eq:
  "distinct (map fst tasks) \<Longrightarrow>
     \<exists>calls. join_tasks tasks names =
       (map (task_outcome names) tasks, filter (\<lambda>(k, _). k \<notin> fst ` set tasks) names, calls)"
proof (induction tasks names rule: join_tasks.induct)
  case (2 task_id joined rest names)
  let ?names = "filter (\<lambda>(k, _). k \<noteq> task_id) names"
  have fresh: "t \<in> set rest \<Longrightarrow> fst t \<noteq> task_id" for t using "2.prems" by (auto simp: rev_image_eqI)
  show ?case
  proof (cases "map_of names task_id")
    case None
    then have "filter (\<lambda>(k, _). k \<notin> fst ` set ((task_id, joined) # rest)) names
        = filter (\<lambda>(k, _). k \<notin> fst ` set rest) names"
      by (intro filter_cong) (auto simp: map_of_eq_None_iff image_iff)
    with "2.IH"(1) [OF None] "2.prems" None show ?thesis by (auto simp: Let_def)
  next
    case (Some a)
    have "map (task_outcome ?names) rest = map (task_outcome names) rest"
      using fresh by (auto simp: map_of_filter_other)
    moreover have "filter (\<lambda>(k, _). k \<notin> fst ` set rest) ?names
        = filter (\<lambda>(k, _). k \<notin> fst ` set ((task_id, joined) # rest)) names"
      unfolding filter_filter by (intro filter_cong) auto
    ultimately show ?thesis using "2.IH"(2) [OF Some] "2.prems" Some
      by (auto simp: Let_def split: sum.splits)
  qed
qed simp

lemma drain_order:
  assumes tasks: "mset tasks = mset tasks'" "distinct (map fst tasks)"
    and names: "distinct (map fst names)" "distinct (map snd names)" "strays tasks names = 0"
  shows "fst (drain_named_tasks tasks names) = fst (drain_named_tasks tasks' names)"
proof -
  have same: "set tasks = set tasks'" using tasks(1) by (rule mset_eq_setD)
  have "distinct (map fst tasks')"
    using tasks by (metis mset_map mset_eq_imp_distinct_iff)
  then obtain calls calls' where
    eq: "join_tasks tasks names =
          (map (task_outcome names) tasks, filter (\<lambda>(k, _). k \<notin> fst ` set tasks) names, calls)"
      "join_tasks tasks' names =
          (map (task_outcome names) tasks', filter (\<lambda>(k, _). k \<notin> fst ` set tasks) names, calls')"
    using join_tasks_eq [OF tasks(2), of names] join_tasks_eq [of tasks' names] same by fastforce
  let ?left = "map (\<lambda>(_, name). Failed name ''batch ended before the registered worker returned'')
                 (filter (\<lambda>(k, _). k \<notin> fst ` set tasks) names)"
  let ?xs = "map (task_outcome names) tasks @ ?left" and ?ys = "map (task_outcome names) tasks' @ ?left"
  have "mset (map outcome_alias ?xs) = mset (map snd names)"
    using join_tasks_accounts [OF names(1) tasks(2) eq(1)] names(3)
    by (simp add: lost_aliases image_mset.compositionality comp_def split_beta)
  then have "distinct (map outcome_alias ?xs)"
    using names(2) mset_eq_imp_distinct_iff by blast
  then have "inj_on outcome_alias (set ?xs)" unfolding distinct_map by (rule conjunct2)
  moreover have "mset ?xs = mset ?ys" using tasks(1) by simp
  ultimately have "sort_key outcome_alias ?xs = sort_key outcome_alias ?ys"
    by (intro sort_key_inj_key_eq) auto
  then show ?thesis by (simp add: drain_named_tasks_def eq)
qed

end
