(* ===== verification/Daemon_Loop.thy ===== *)
theory Daemon_Loop
  imports Selection Cache_Store Config Task_Batch Codex_Activity
begin

text \<open>
  The daemon (daemon/loop_runner.rs, daemon/state.rs): one poll that may switch the account, the
  refresh of the profile cache, and the event loop with its state snapshot and backoff. A poll
  composes the other components: it reads the ranking metadata of the cache, drains the batch of
  candidate workers, scores and selects, and asks the process check for permission. What the
  outside answers during one event (locks, requests, files, the clock) is a record of answers.
\<close>

section \<open>The pieces of a poll\<close>

definition poll_backoff_secs :: "u64 \<Rightarrow> u32 \<Rightarrow> u64 result" where
  "poll_backoff_secs poll_secs consecutive_failures =
     (let multiplier = min (saturating_pow_u64 2 consecutive_failures) poll_backoff_max_multiplier
      in ok_or [''daemon poll backoff exceeds the supported timer range'']
           (checked_mul_u64 poll_secs multiplier))"

definition used_up :: "window_usage option \<Rightarrow> bool" where
  "used_up w = is_some_and (\<lambda>w. is_some_and (f64_le (Fin 100)) (used_percent w)) w"

definition current_usage_percent_for_switch :: "usage_info \<Rightarrow> f64 option" where
  "current_usage_percent_for_switch u =
     (if u_account_limited u \<or> used_up (u_primary u) \<or> used_up (u_secondary u) then Some (Fin 100)
      else Option.bind (or_else (u_primary u) (u_secondary u)) used_percent)"

definition switch_defer_reason :: "process_activity \<Rightarrow> bool \<Rightarrow> string option" where
  "switch_defer_reason activity defer_interactive_session =
     (case activity of
        AuthMutation \<Rightarrow> Some ''Codex is changing authentication''
      | Unknown \<Rightarrow> Some ''Codex process inspection failed''
      | Session \<Rightarrow> if defer_interactive_session then Some ''a Codex session is running'' else None
      | Idle \<Rightarrow> None)"

text \<open>
  The retained registry: every saved profile with its path and the outcome of reading its bytes
  as account metadata.
\<close>

record profile_auth_snapshot =
  pa_alias :: string
  pa_path :: string
  pa_parsed :: "account_info result"

record profile_account_snapshot =
  pc_alias :: string
  pc_path :: string
  pc_info :: account_info

definition into_candidate_accounts ::
  "string \<Rightarrow> profile_auth_snapshot list \<Rightarrow> profile_account_snapshot list result" where
  "into_candidate_accounts current profiles =
     collect_results
       (\<lambda>p. map_ok (\<lambda>info. \<lparr>pc_alias = pa_alias p, pc_path = pa_path p, pc_info = info\<rparr>)
              (with_context (''parsing '' @ pa_path p) (pa_parsed p)))
       (filter (\<lambda>p. pa_alias p \<noteq> current) profiles)"

record candidate_profile =
  cp_alias :: string
  cp_path :: string
  cp_binding :: strict_account_binding

definition preflight_candidate_profiles ::
  "profile_account_snapshot list \<Rightarrow> candidate_profile list result" where
  "preflight_candidate_profiles accounts =
     collect_results
       (\<lambda>a. map_ok (\<lambda>b. \<lparr>cp_alias = pc_alias a, cp_path = pc_path a, cp_binding = b\<rparr>)
              (ok_or [''candidate profile '' @ quoted (pc_alias a)
                        @ '' requires a verified account id and email identity'']
                 (strict_binding (pc_info a))))
       accounts"

text \<open>What one candidate worker meets: its lease, the two halves of the probe, and the file after.\<close>

record candidate_world =
  wk_lease :: "unit result"
  wk_prepared :: "usage_error + unit"
  wk_fetched :: "usage_error + usage_info"
  wk_auth_after :: "account_info result"

type_synonym candidate_value = "(usage_error + account_info \<times> usage_info) result"

definition candidate_worker :: "candidate_world \<Rightarrow> candidate_profile \<Rightarrow> candidate_value" where
  "candidate_worker w c =
     and_then (with_context (''locking candidate profile for automatic ranking: '' @ cp_alias c)
                (wk_lease w)) (\<lambda>_.
       case wk_prepared w of
         Inl e \<Rightarrow> Inr (Inl e)
       | Inr _ \<Rightarrow>
           (case wk_fetched w of
              Inl e \<Rightarrow> Inr (Inl e)
            | Inr fetched \<Rightarrow>
                and_then (with_context
                    (''reading candidate profile metadata after automatic quota probe: '' @ cp_alias c)
                    (wk_auth_after w)) (\<lambda>info.
                  if strict_binding info = Some (cp_binding c) then Inr (Inr (info, fetched))
                  else bail (''candidate profile '' @ quoted (cp_alias c)
                         @ '' changed identity during automatic ranking''))))"

text \<open>The outcomes of the batch: what could be observed, and the workers that failed.\<close>

definition observed :: "candidate_value named_outcome \<Rightarrow> (string \<times> usage_info \<times> account_info) option" where
  "observed outcome =
     (case outcome of Completed name (Inr (Inr (info, fetched))) \<Rightarrow> Some (name, fetched, info)
      | _ \<Rightarrow> None)"

definition worker_failure :: "candidate_value named_outcome \<Rightarrow> (string \<times> string) option" where
  "worker_failure outcome =
     (case outcome of Completed name (Inl e) \<Rightarrow> Some (name, show_chain e)
      | named_outcome.Failed name detail \<Rightarrow> Some (name, detail)
      | _ \<Rightarrow> None)"

record ranking_snapshot =
  rs_last_used :: "string \<Rightarrow> i64 option"
  rs_workspaces :: "string \<Rightarrow> workspace_state option"

definition ranking_snapshot_checked ::
  "unit result \<Rightarrow> i64 result \<Rightarrow> disk \<Rightarrow> string list \<Rightarrow> ranking_snapshot result" where
  "ranking_snapshot_checked lock clock d account_ids =
     read_cache lock d (\<lambda>cache.
       map_ok (\<lambda>now. \<lparr>rs_last_used = cf_last_used cache,
                        rs_workspaces = fst (workspace_snapshot cache account_ids now)\<rparr>)
         (u64_clock ''converting workspace-cache timestamp'' clock))"

definition ranking_item ::
  "ranking_snapshot \<Rightarrow> string \<times> usage_info \<times> account_info \<Rightarrow> string \<times> usage_info \<times> account_info \<times> i64" where
  "ranking_item snapshot observation =
     (let (name, u, info) = observation;
          info = (case Option.bind (ai_account_id info) (rs_workspaces snapshot) of
                    None \<Rightarrow> info
                  | Some workspace \<Rightarrow> apply_workspace_state info workspace)
      in (name, u, info, the_or 0 (rs_last_used snapshot name)))"

section \<open>One poll\<close>

datatype poll_outcome = NoAction | Switched string string f64 | Deferred string

text \<open>What a poll does to the outside: the activation of a profile, and a desktop notification.\<close>

datatype poll_effect = SwitchProfile string string | Notification string f64

datatype system_processes =
    LinuxProcesses nat "linux_process list option"
  | WindowsProcesses "windows_process list option"

fun current_activity :: "system_processes \<Rightarrow> process_activity" where
  "current_activity (LinuxProcesses uid entries) = linux_codex_activity uid entries"
| "current_activity (WindowsProcesses processes) = windows_codex_activity processes"

text \<open>
  The answers one poll receives. \<open>pw_order\<close> is the order in which the workers finish, by their
  position in the batch; \<open>pw_crash\<close> says which of them panicked or were cancelled. Activating a
  profile answers whether it was still the one the poll had started from.
\<close>

record poll_world =
  pw_profiles :: "string list result"
  pw_synced :: "(string \<times> profile_auth_snapshot list) option result"
  pw_path :: "string \<Rightarrow> string result"
  pw_lease :: "string \<Rightarrow> unit result"
  pw_probe :: "string \<Rightarrow> usage_error + usage_info"
  pw_auth_after :: "string \<Rightarrow> account_info result"
  pw_lock :: "unit result"
  pw_disk :: disk
  pw_ranking_clock :: "i64 result"
  pw_worker :: "string \<Rightarrow> candidate_world"
  pw_order :: "nat list"
  pw_crash :: "nat \<Rightarrow> join_error option"
  pw_scoring_clock :: "i64 result"
  pw_processes :: system_processes
  pw_switch :: "string \<Rightarrow> string \<Rightarrow> bool result"

definition probe_current :: "poll_world \<Rightarrow> string \<Rightarrow> (usage_info \<times> account_info) result" where
  "probe_current w current =
     and_then (pw_path w current) (\<lambda>path.
     and_then (with_context (''locking current profile for automatic ranking: '' @ current)
                (pw_lease w current)) (\<lambda>_.
     and_then (map_err (\<lambda>e. [ue_detail e]) (pw_probe w current)) (\<lambda>u.
     map_ok (\<lambda>info. (u, info))
       (with_context (''reading current profile metadata after automatic quota probe: '' @ current)
          (pw_auth_after w path)))))"

text \<open>The workers that finish, in their order, each with its position and what joining it yields.\<close>

definition finished_workers ::
  "poll_world \<Rightarrow> candidate_profile list \<Rightarrow> (nat \<times> (join_error + candidate_value)) list" where
  "finished_workers w candidates =
     map (\<lambda>i. (i, case pw_crash w i of
                    Some e \<Rightarrow> Inl e
                  | None \<Rightarrow> Inr (candidate_worker (pw_worker w (cp_alias (candidates ! i))) (candidates ! i))))
       (filter (\<lambda>i. i < length candidates) (pw_order w))"

definition batch_outcomes :: "poll_world \<Rightarrow> candidate_profile list \<Rightarrow> candidate_value named_outcome list" where
  "batch_outcomes w candidates =
     fst (drain_named_tasks (finished_workers w candidates) (enumerate 0 (map cp_alias candidates)))"

definition rank_candidates ::
  "app_config \<Rightarrow> poll_world \<Rightarrow> string \<Rightarrow> profile_auth_snapshot list \<Rightarrow> usage_info \<Rightarrow> account_info
     \<Rightarrow> scored_candidate list result" where
  "rank_candidates c w current registry u info =
     and_then (with_context ''parsing candidate metadata from the synchronized profile registry''
                (into_candidate_accounts current registry)) (\<lambda>accounts.
     and_then (preflight_candidate_profiles accounts) (\<lambda>candidates.
     let account_ids = remdups_adj (sort (map (sb_account_id \<circ> cp_binding) candidates
                                            @ (case ai_account_id info of None \<Rightarrow> [] | Some i \<Rightarrow> [i])))
     in and_then (with_context ''loading cache metadata for automatic ranking''
                   (ranking_snapshot_checked (pw_lock w) (pw_ranking_clock w) (pw_disk w) account_ids))
        (\<lambda>snapshot.
     let outcomes = batch_outcomes w candidates;
         observations = (current, u, info) # List.map_filter observed outcomes;
         failures = List.map_filter worker_failure outcomes
     in if failures \<noteq> []
        then Inl (batch_failure_error
                    ''one or more automatic-selection candidate workers failed'' failures)
        else map_ok (\<lambda>now. score_candidates (map (ranking_item snapshot) observations) now
                               (uc_safety_margin_7d (ac_use c)) (uc_team_priority (ac_use c)))
               (pw_scoring_clock w))))"

text \<open>The last part of the poll. Ranking always returns the current account first.\<close>

definition settle_switch ::
  "app_config \<Rightarrow> poll_world \<Rightarrow> string \<Rightarrow> scored_candidate \<Rightarrow> scored_candidate list
     \<Rightarrow> poll_outcome result \<times> poll_effect list" where
  "settle_switch c w current current_scored scored =
     (case pick_switch_target current_scored scored (uc_safety_margin_7d (ac_use c)) of
        None \<Rightarrow> (Inr NoAction, [])
      | Some (best_alias, best_score) \<Rightarrow>
          if switch_defer_reason (current_activity (pw_processes w))
               (dc_defer_switch_while_codex_running (ac_daemon c)) \<noteq> None
          then (Inr (Deferred best_alias), [])
          else case pw_switch w current best_alias of
                 Inl e \<Rightarrow> (Inl e, [SwitchProfile current best_alias])
               | Inr False \<Rightarrow> (Inr NoAction, [SwitchProfile current best_alias])
               | Inr True \<Rightarrow>
                   (Inr (Switched current best_alias best_score),
                    SwitchProfile current best_alias
                    # (if dc_notify (ac_daemon c) then [Notification best_alias best_score] else [])))"

definition check_and_switch ::
  "app_config \<Rightarrow> poll_world \<Rightarrow> poll_outcome result \<times> poll_effect list" where
  "check_and_switch c w =
     (case pw_profiles w of
        Inl e \<Rightarrow> (Inl e, [])
      | Inr profiles \<Rightarrow>
          if length profiles < 2 then (Inr NoAction, [])
          else case pw_synced w of
                 Inl e \<Rightarrow> (Inl e, [])
               | Inr None \<Rightarrow> (Inr NoAction, [])
               | Inr (Some (current, registry)) \<Rightarrow>
                   (case probe_current w current of
                      Inl e \<Rightarrow> (Inl e, [])
                    | Inr (u, info) \<Rightarrow>
                        (case current_usage_percent_for_switch u of
                           None \<Rightarrow> (Inr NoAction, [])
                         | Some used \<Rightarrow>
                             if f64_lt used (dc_switch_threshold (ac_daemon c)) then (Inr NoAction, [])
                             else case rank_candidates c w current registry u info of
                                    Inl e \<Rightarrow> (Inl e, [])
                                  | Inr scored \<Rightarrow>
                                      settle_switch c w current (hd scored) (tl scored))))"

section \<open>The refresh of the profile cache\<close>

text \<open>
  What one refresh worker meets. The observation carries the account binding it was made under;
  the warm-up and the probe after it are made for that binding.
\<close>

record refresh_world =
  rf_path :: "string result"
  rf_lease :: "unit result"
  rf_prepared :: "usage_error + unit"
  rf_observed :: "usage_error + usage_info \<times> strict_account_binding"
  rf_now :: "i64 result"
  rf_warmup :: "strict_account_binding \<Rightarrow> usage_info \<Rightarrow> unit result"

definition error_text :: "anyhow \<Rightarrow> string" where
  "error_text e = (case e of [] \<Rightarrow> [] | message # _ \<Rightarrow> message)"

record refresh_result =
  rr_refreshed :: bool
  rr_warmed :: bool
  rr_error :: "string option"

text \<open>
  The worker's answer and the warm-ups it asks for. The probe after a warm-up only logs its
  failure.
\<close>

definition refresh_worker ::
  "bool \<Rightarrow> refresh_world \<Rightarrow> refresh_result \<times> (strict_account_binding \<times> usage_info) list" where
  "refresh_worker auto_warmup w =
     (let failed = (\<lambda>message. (\<lparr>rr_refreshed = False, rr_warmed = False, rr_error = Some message\<rparr>, []));
          refreshed = \<lparr>rr_refreshed = True, rr_warmed = False, rr_error = None\<rparr>
      in case rf_path w of Inl e \<Rightarrow> failed (error_text e) | Inr _ \<Rightarrow>
        (case rf_lease w of Inl e \<Rightarrow> failed (error_text e) | Inr _ \<Rightarrow>
        (case rf_prepared w of Inl e \<Rightarrow> failed (ue_summary e) | Inr _ \<Rightarrow>
        (case rf_observed w of Inl e \<Rightarrow> failed (ue_summary e) | Inr (u, binding) \<Rightarrow>
           if \<not> auto_warmup then (refreshed, [])
           else (case rf_now w of
                   Inl e \<Rightarrow> (refreshed\<lparr>rr_error := Some (error_text e)\<rparr>, [])
                 | Inr now \<Rightarrow>
                     if usage_has_active_warmup_window u now then (refreshed, [])
                     else (case rf_warmup w binding u of
                             Inl e \<Rightarrow> (refreshed\<lparr>rr_error := Some (''warmup failed: '' @ error_text e)\<rparr>,
                                       [(binding, u)])
                           | Inr _ \<Rightarrow> (refreshed\<lparr>rr_warmed := True\<rparr>, [(binding, u)])))))))"

record cache_refresh_summary =
  sm_refreshed :: nat
  sm_warmed :: nat
  sm_failed :: nat

definition empty_summary :: cache_refresh_summary where
  "empty_summary = \<lparr>sm_refreshed = 0, sm_warmed = 0, sm_failed = 0\<rparr>"

fun add_refresh :: "cache_refresh_summary \<Rightarrow> join_error + refresh_result \<Rightarrow> cache_refresh_summary" where
  "add_refresh s (Inl _) = s\<lparr>sm_failed := sm_failed s + 1\<rparr>"
| "add_refresh s (Inr r) =
     \<lparr>sm_refreshed = sm_refreshed s + (if rr_refreshed r then 1 else 0),
      sm_warmed = sm_warmed s + (if rr_warmed r then 1 else 0),
      sm_failed = sm_failed s + (if rr_error r \<noteq> None then 1 else 0)\<rparr>"

text \<open>
  The whole refresh: one worker per saved profile, joined in the order in which they finish. A
  worker that crashed may have asked for its warm-up before.
\<close>

record cache_world =
  kw_profiles :: "string list result"
  kw_worker :: "string \<Rightarrow> refresh_world"
  kw_finish :: "string list \<Rightarrow> string list"
  kw_crash :: "string \<Rightarrow> join_error option"

definition refresh_profile_cache ::
  "bool \<Rightarrow> cache_world
     \<Rightarrow> cache_refresh_summary result \<times> (string \<times> strict_account_binding \<times> usage_info) list" where
  "refresh_profile_cache auto_warmup w =
     (case kw_profiles w of
        Inl e \<Rightarrow> (Inl e, [])
      | Inr profiles \<Rightarrow>
          if profiles = [] then (Inr empty_summary, [])
          else
          let joined = map (\<lambda>name. case kw_crash w name of
                              Some e \<Rightarrow> Inl e
                            | None \<Rightarrow> Inr (fst (refresh_worker auto_warmup (kw_worker w name))))
                         (kw_finish w profiles)
          in (Inr (foldl add_refresh empty_summary joined),
              concat (map (\<lambda>name. map (Pair name) (snd (refresh_worker auto_warmup (kw_worker w name))))
                        profiles)))"

section \<open>The daemon state and its loop\<close>

record switch_record =
  sr_from :: string
  sr_to :: string
  sr_at :: i64
  sr_score :: f64

record pending_switch =
  pn_to :: string
  pn_since :: i64

record daemon_state =
  ds_pid :: u32
  ds_started_at :: i64
  ds_updated_at :: i64
  ds_last_poll_at :: "i64 option"
  ds_last_error :: "string option"
  ds_consecutive_failures :: u32
  ds_backoff_until :: "i64 option"
  ds_last_switch :: "switch_record option"
  ds_pending_switch :: "pending_switch option"
  ds_last_cache_refresh_at :: "i64 option"

text \<open>The state in memory, and the snapshot file that shows it.\<close>

record loop_state =
  ls_state :: daemon_state
  ls_file :: "daemon_state option"

definition write_state :: "i64 result \<Rightarrow> bool \<Rightarrow> daemon_state \<Rightarrow> daemon_state option \<Rightarrow> loop_state" where
  "write_state clock stored st file =
     (case clock of
        Inl _ \<Rightarrow> \<lparr>ls_state = st, ls_file = file\<rparr>
      | Inr updated_at \<Rightarrow>
          let st = st\<lparr>ds_updated_at := updated_at\<rparr>
          in \<lparr>ls_state = st, ls_file = if stored then Some st else file\<rparr>)"

definition initial_state :: "u32 \<Rightarrow> i64 \<Rightarrow> daemon_state" where
  "initial_state pid started_at =
     \<lparr>ds_pid = pid, ds_started_at = started_at, ds_updated_at = 0, ds_last_poll_at = None,
      ds_last_error = None, ds_consecutive_failures = 0, ds_backoff_until = None,
      ds_last_switch = None, ds_pending_switch = None, ds_last_cache_refresh_at = None\<rparr>"

text \<open>The readings of the clock during one tick, in the order in which they are made.\<close>

record tick_clock =
  tk_now :: "i64 result"
  tk_polled :: "i64 result"
  tk_event :: "i64 result"
  tk_written :: "i64 result"
  tk_stored :: bool

definition record_outcome :: "tick_clock \<Rightarrow> poll_outcome \<Rightarrow> daemon_state \<Rightarrow> daemon_state result" where
  "record_outcome t outcome st =
     (case outcome of
        NoAction \<Rightarrow> Inr (st\<lparr>ds_pending_switch := None\<rparr>)
      | Switched from_alias to_alias score \<Rightarrow>
          map_ok (\<lambda>switched_at. st\<lparr>ds_pending_switch := None,
                          ds_last_switch := Some \<lparr>sr_from = from_alias, sr_to = to_alias, sr_at = switched_at,
                                                  sr_score = score\<rparr>\<rparr>)
            (tk_event t)
      | Deferred to_alias \<Rightarrow>
          map_ok (\<lambda>since. st\<lparr>ds_pending_switch := Some \<lparr>pn_to = to_alias, pn_since = since\<rparr>\<rparr>)
            (case filter_opt (\<lambda>p. pn_to p = to_alias) (ds_pending_switch st) of
               Some pending \<Rightarrow> Inr (pn_since pending)
             | None \<Rightarrow> tk_event t))"

text \<open>The counter of failures is a 32-bit integer of a build without overflow checks.\<close>

definition record_failure :: "u64 \<Rightarrow> tick_clock \<Rightarrow> anyhow \<Rightarrow> daemon_state \<Rightarrow> daemon_state result" where
  "record_failure poll_secs t e st =
     (let failures = (ds_consecutive_failures st + 1) mod 2 ^ 32 in
      and_then (tk_polled t) (\<lambda>polled.
      and_then (poll_backoff_secs poll_secs failures) (\<lambda>backoff_secs.
      and_then (ok_or [''daemon poll backoff exceeds persisted state range'',
                       ''out of range integral type conversion attempted'']
                  (i64_of_u64 backoff_secs)) (\<lambda>backoff_secs.
      and_then (tk_event t) (\<lambda>now.
      map_ok (\<lambda>until. st\<lparr>ds_consecutive_failures := failures, ds_last_poll_at := Some polled,
                           ds_last_error := Some (error_text e), ds_backoff_until := Some until\<rparr>)
        (ok_or [''daemon poll backoff timestamp overflowed''] (checked_add now backoff_secs)))))))"

definition poll_suspended :: "i64 \<Rightarrow> daemon_state \<Rightarrow> bool" where
  "poll_suspended now st = is_some_and (\<lambda>until. now < until) (ds_backoff_until st)"

datatype loop_result = Continue loop_state | Ended | Died anyhow

definition poll_tick ::
  "app_config \<Rightarrow> tick_clock \<Rightarrow> poll_world \<Rightarrow> loop_state \<Rightarrow> loop_result \<times> poll_effect list" where
  "poll_tick c t w ls =
     (case tk_now t of
        Inl e \<Rightarrow> (Died e, [])
      | Inr now \<Rightarrow>
          if poll_suspended now (ls_state ls) then (Continue ls, [])
          else
            let st = (ls_state ls)\<lparr>ds_backoff_until := None\<rparr>;
                (result, effects) = check_and_switch c w;
                updated =
                  (case result of
                     Inr outcome \<Rightarrow>
                       and_then (tk_polled t) (\<lambda>polled.
                         record_outcome t outcome
                           (st\<lparr>ds_consecutive_failures := 0, ds_last_error := None,
                               ds_last_poll_at := Some polled\<rparr>))
                   | Inl e \<Rightarrow> record_failure (dc_poll_interval_secs (ac_daemon c)) t e st)
            in (case updated of
                  Inl e \<Rightarrow> Died e
                | Inr st \<Rightarrow> Continue (write_state (tk_written t) (tk_stored t) st (ls_file ls)),
                effects))"

definition cache_tick :: "tick_clock \<Rightarrow> loop_state \<Rightarrow> loop_result" where
  "cache_tick t ls =
     (case tk_now t of
        Inl e \<Rightarrow> Died e
      | Inr now \<Rightarrow>
          Continue (write_state (tk_written t) (tk_stored t)
            ((ls_state ls)\<lparr>ds_last_cache_refresh_at := Some now\<rparr>) (ls_file ls)))"

text \<open>
  The branches of the loop: a poll, the token timer (which only logs), the cache timer, a signal,
  and the check for a shutdown request.
\<close>

datatype daemon_event =
    PollTick tick_clock poll_world
  | TokenTick
  | CacheTick tick_clock cache_world
  | ShutdownSignal
  | ShutdownRequestTick bool

datatype daemon_effect =
    Poll poll_effect
  | WarmUp string strict_account_binding usage_info

fun daemon_step ::
  "app_config \<Rightarrow> daemon_event \<Rightarrow> loop_state \<Rightarrow> loop_result \<times> daemon_effect list" where
  "daemon_step c (PollTick t w) ls =
     (let (result, effects) = poll_tick c t w ls in (result, map Poll effects))"
| "daemon_step c TokenTick ls = (Continue ls, [])"
| "daemon_step c (CacheTick t w) ls =
     (cache_tick t ls,
      map (\<lambda>(name, binding, u). WarmUp name binding u)
        (snd (refresh_profile_cache (dc_auto_warmup (ac_daemon c)) w)))"
| "daemon_step c ShutdownSignal ls = (Ended, [])"
| "daemon_step c (ShutdownRequestTick requested) ls =
     (if requested then Ended else Continue ls, [])"

fun daemon_run ::
  "app_config \<Rightarrow> daemon_event list \<Rightarrow> loop_state \<Rightarrow> loop_result \<times> daemon_effect list" where
  "daemon_run c [] ls = (Continue ls, [])"
| "daemon_run c (e # es) ls =
     (case daemon_step c e ls of
        (Continue ls', effects) \<Rightarrow> let (result, later) = daemon_run c es ls' in (result, effects @ later)
      | (result, effects) \<Rightarrow> (result, effects))"

definition start_daemon :: "u32 \<Rightarrow> i64 result \<Rightarrow> i64 result \<Rightarrow> bool \<Rightarrow> daemon_state option \<Rightarrow> loop_state result" where
  "start_daemon pid clock written stored file =
     map_ok (\<lambda>started_at. write_state written stored (initial_state pid started_at) file) clock"

section \<open>What a poll has checked before it switches\<close>

lemma collect_results_member:
  "collect_results f xs = Inr ys \<Longrightarrow> x \<in> set xs \<Longrightarrow> \<exists>y\<in>set ys. f x = Inr y"
  by (auto simp: collect_results_eq_Inr list_all2_conv_all_nth in_set_conv_nth)

lemma collect_results_origin:
  "collect_results f xs = Inr ys \<Longrightarrow> y \<in> set ys \<Longrightarrow> \<exists>x\<in>set xs. f x = Inr y"
  by (auto simp: collect_results_eq_Inr list_all2_conv_all_nth in_set_conv_nth) (metis nth_mem)

lemma set_map_filter_iff: "y \<in> set (List.map_filter f xs) \<longleftrightarrow> (\<exists>x\<in>set xs. f x = Some y)"
  by (induction xs) (auto simp: List.map_filter_def)

lemma observed_Some:
  "observed outcome = Some (name, fetched, info) \<longleftrightarrow> outcome = Completed name (Inr (Inr (info, fetched)))"
  by (auto simp: observed_def split: named_outcome.splits sum.splits)

lemma candidate_accounts:
  assumes "into_candidate_accounts current registry = Inr accounts"
    "preflight_candidate_profiles accounts = Inr candidates"
  shows "pa \<in> set registry \<Longrightarrow> pa_alias pa \<noteq> current \<Longrightarrow>
           \<exists>info b. pa_parsed pa = Inr info \<and> strict_binding info = Some b"
    and "c \<in> set candidates \<Longrightarrow> \<exists>pa\<in>set registry. pa_alias pa = cp_alias c \<and> cp_alias c \<noteq> current
           \<and> (\<exists>info. pa_parsed pa = Inr info \<and> strict_binding info = Some (cp_binding c))"
  using collect_results_member [OF assms(1) [unfolded into_candidate_accounts_def], of pa]
    collect_results_member [OF assms(2) [unfolded preflight_candidate_profiles_def]]
    collect_results_origin [OF assms(1) [unfolded into_candidate_accounts_def]]
    collect_results_origin [OF assms(2) [unfolded preflight_candidate_profiles_def], of c]
  by (fastforce simp: result_eq_Inr)+

lemma candidate_worker_observed:
  "candidate_worker w c = Inr (Inr (info, fetched)) \<longleftrightarrow>
     wk_lease w = Inr () \<and> wk_prepared w = Inr () \<and> wk_fetched w = Inr fetched
     \<and> wk_auth_after w = Inr info \<and> strict_binding info = Some (cp_binding c)"
  by (auto simp: candidate_worker_def result_eq_Inr split: sum.splits)

lemma worker_names:
  "map_of (enumerate 0 (map cp_alias candidates)) k = Some name \<longleftrightarrow>
     k < length candidates \<and> name = cp_alias (candidates ! k)"
  by (auto simp: in_set_enumerate_eq map_of_eq_Some_iff distinct_enumerate)

lemma batch_observed:
  assumes "(name, fetched, info) \<in> set (List.map_filter observed (batch_outcomes w candidates))"
  shows "\<exists>c\<in>set candidates. cp_alias c = name
           \<and> candidate_worker (pw_worker w name) c = Inr (Inr (info, fetched))"
proof -
  from assms have "Completed name (Inr (Inr (info, fetched))) \<in> set (batch_outcomes w candidates)"
    by (auto simp: set_map_filter_iff observed_Some)
  then have "Completed name (Inr (Inr (info, fetched)))
      \<in> set (fst (join_tasks (finished_workers w candidates) (enumerate 0 (map cp_alias candidates))))"
    by (auto simp: batch_outcomes_def drain_named_tasks_def split: prod.splits)
  then obtain k where "(k, Inr (Inr (Inr (info, fetched)))) \<in> set (finished_workers w candidates)"
    "k < length candidates" "name = cp_alias (candidates ! k)"
    using join_tasks_completed worker_names by metis
  then show ?thesis
    by (intro bexI [of _ "candidates ! k"]) (auto simp: finished_workers_def split: option.splits)
qed

lemma selectable_usage:
  assumes "s \<in> set (score_candidates items now safety team)" "\<not> unselectable s"
  shows "explicit_account_blocker (s_usage s) = None \<and> u_secondary (s_usage s) \<noteq> None"
  using assms unfolding score_candidates_eq Let_def
  by (auto simp: unselectable_def build_candidate_def candidate_from_usage_def Let_def
      has_required_quota_data_def main_weekly_quota_available_def bind_eq_Some_conv)

lemma score_candidates_Cons:
  "score_candidates (item # items) now safety team \<noteq> []"
  "s \<in> set (tl (score_candidates (item # items) now safety team)) \<Longrightarrow>
     \<exists>i\<in>set items. c_alias (s_candidate s) = fst i \<and> s_usage s = fst (snd i)"
  unfolding score_candidates_eq Let_def by (simp, force)

text \<open>The target of a ranking was observed by its worker, for the binding it had in the registry.\<close>

definition target_checked ::
  "poll_world \<Rightarrow> string \<Rightarrow> profile_auth_snapshot list \<Rightarrow> string \<Rightarrow> usage_info \<Rightarrow> bool" where
  "target_checked w current registry target u \<longleftrightarrow>
     target \<noteq> current \<and> wk_lease (pw_worker w target) = Inr ()
     \<and> wk_fetched (pw_worker w target) = Inr u
     \<and> explicit_account_blocker u = None \<and> u_secondary u \<noteq> None
     \<and> (\<exists>pa\<in>set registry. \<exists>before after. pa_alias pa = target \<and> pa_parsed pa = Inr before
          \<and> wk_auth_after (pw_worker w target) = Inr after
          \<and> strict_binding after = strict_binding before \<and> strict_binding before \<noteq> None)"

lemma ranked_target:
  assumes "rank_candidates c w current registry u info = Inr scored"
    and "s \<in> set (tl scored)" "\<not> unselectable s"
  shows "target_checked w current registry (c_alias (s_candidate s)) (s_usage s)"
    and "\<forall>pa\<in>set registry. pa_alias pa \<noteq> current \<longrightarrow>
           (\<exists>info b. pa_parsed pa = Inr info \<and> strict_binding info = Some b)"
proof -
  from assms(1) obtain accounts candidates snapshot now where
    accounts: "into_candidate_accounts current registry = Inr accounts"
      "preflight_candidate_profiles accounts = Inr candidates"
    and scored: "scored = score_candidates (ranking_item snapshot (current, u, info)
          # map (ranking_item snapshot) (List.map_filter observed (batch_outcomes w candidates)))
          now (uc_safety_margin_7d (ac_use c)) (uc_team_priority (ac_use c))"
    by (auto simp: rank_candidates_def result_eq_Inr Let_def split: if_splits)
  show "\<forall>pa\<in>set registry. pa_alias pa \<noteq> current \<longrightarrow>
           (\<exists>info b. pa_parsed pa = Inr info \<and> strict_binding info = Some b)"
    using candidate_accounts(1) [OF accounts] by blast
  from score_candidates_Cons(2) [OF assms(2) [unfolded scored]] obtain fetched after
    where obs: "(c_alias (s_candidate s), fetched, after)
        \<in> set (List.map_filter observed (batch_outcomes w candidates))"
      and use: "s_usage s = fetched"
    by (auto simp: ranking_item_def Let_def)
  from batch_observed [OF obs] obtain cand where cand: "cand \<in> set candidates"
    "cp_alias cand = c_alias (s_candidate s)"
    "candidate_worker (pw_worker w (c_alias (s_candidate s))) cand = Inr (Inr (after, fetched))"
    by blast
  have "s \<in> set scored" using assms(2) by (rule list.set_sel(2) [rotated]) (use assms(2) in auto)
  from selectable_usage [OF this [unfolded scored] assms(3)] candidate_accounts(2) [OF accounts cand(1)]
    cand(2,3) use
  show "target_checked w current registry (c_alias (s_candidate s)) (s_usage s)"
    by (auto simp: target_checked_def candidate_worker_observed)
qed

text \<open>
  C15. A poll switches the live account only for a reason and only with permission. Whenever it
  activates a profile, the current account was probed and is at or over the threshold; every
  other profile of the registry has a readable, complete identity; the target is another
  profile, was observed under its own lease with an unblocked account and a weekly window, and
  its identity after the probe is the one the registry retained; it is the choice of the
  selection over the whole ranking; and the process check answered that nothing changes
  authentication and, when configured, that no session runs.
\<close>

theorem daemon_switch_justified:
  assumes "SwitchProfile current target \<in> set (snd (check_and_switch c w))"
  shows "\<exists>registry u info used scored score u'.
     pw_synced w = Inr (Some (current, registry))
     \<and> probe_current w current = Inr (u, info) \<and> current_usage_percent_for_switch u = Some used
     \<and> \<not> f64_lt used (dc_switch_threshold (ac_daemon c))
     \<and> (\<forall>pa\<in>set registry. pa_alias pa \<noteq> current \<longrightarrow>
          (\<exists>info b. pa_parsed pa = Inr info \<and> strict_binding info = Some b))
     \<and> rank_candidates c w current registry u info = Inr scored
     \<and> pick_switch_target (hd scored) (tl scored) (uc_safety_margin_7d (ac_use c)) = Some (target, score)
     \<and> target_checked w current registry target u'
     \<and> (current_activity (pw_processes w) = Idle
        \<or> current_activity (pw_processes w) = Session
           \<and> \<not> dc_defer_switch_while_codex_running (ac_daemon c))"
proof -
  from assms obtain registry u info used scored score where
    before: "pw_synced w = Inr (Some (current, registry))" "probe_current w current = Inr (u, info)"
      "current_usage_percent_for_switch u = Some used"
      "\<not> f64_lt used (dc_switch_threshold (ac_daemon c))"
      "rank_candidates c w current registry u info = Inr scored"
    and pick: "pick_switch_target (hd scored) (tl scored) (uc_safety_margin_7d (ac_use c)) = Some (target, score)"
    and permitted: "switch_defer_reason (current_activity (pw_processes w))
          (dc_defer_switch_while_codex_running (ac_daemon c)) = None"
    by (auto simp: check_and_switch_def settle_switch_def split: sum.splits option.splits
        prod.splits if_splits bool.splits)
  from pick_member [OF pick] obtain s where s: "s \<in> set (tl scored)" "c_alias (s_candidate s) = target"
    "\<not> unselectable s" by blast
  from permitted have "current_activity (pw_processes w) = Idle
      \<or> current_activity (pw_processes w) = Session
         \<and> \<not> dc_defer_switch_while_codex_running (ac_daemon c)"
    by (auto simp: switch_defer_reason_def split: process_activity.splits if_splits)
  with before pick ranked_target [OF before(5) s(1,3)] s(2) show ?thesis by blast
qed

text \<open>A poll with two profiles: the live one is used up this week, the other has quota left.\<close>

definition demo_info :: "string \<Rightarrow> account_info" where
  "demo_info name = demo_account\<lparr>ai_account_id := Some (''acct-'' @ name),
     ai_email := Some (name @ ''@x'')\<rparr>"

definition demo_registry :: "profile_auth_snapshot list" where
  "demo_registry = map (\<lambda>n. \<lparr>pa_alias = n, pa_path = n, pa_parsed = Inr (demo_info n)\<rparr>) [''a'', ''b'']"

definition demo_poll :: poll_world where
  "demo_poll = \<lparr>
     pw_profiles = Inr [''a'', ''b''],
     pw_synced = Inr (Some (''a'', demo_registry)),
     pw_path = (\<lambda>_. Inr ''a''), pw_lease = (\<lambda>_. Inr ()),
     pw_probe = (\<lambda>_. Inr (demo_usage 100)), pw_auth_after = (\<lambda>_. Inr (demo_info ''a'')),
     pw_lock = Inr (), pw_disk = Missing, pw_ranking_clock = Inr 1000,
     pw_worker = (\<lambda>_. \<lparr>wk_lease = Inr (), wk_prepared = Inr (), wk_fetched = Inr (demo_usage 20),
                       wk_auth_after = Inr (demo_info ''b'')\<rparr>),
     pw_order = [0], pw_crash = (\<lambda>_. None), pw_scoring_clock = Inr 1000,
     pw_processes = WindowsProcesses (Some []), pw_switch = (\<lambda>_ _. Inr True)\<rparr>"

lemma demo_candidates:
  "into_candidate_accounts ''a'' demo_registry = Inr [\<lparr>pc_alias = ''b'', pc_path = ''b'', pc_info = demo_info ''b''\<rparr>]"
  "preflight_candidate_profiles [\<lparr>pc_alias = ''b'', pc_path = ''b'', pc_info = demo_info ''b''\<rparr>]
     = Inr [\<lparr>cp_alias = ''b'', cp_path = ''b'',
             cp_binding = \<lparr>sb_account_id = ''acct-b'', sb_email = ''b@x''\<rparr>\<rparr>]"
  by code_simp+

lemma demo_outcomes:
  "batch_outcomes demo_poll [\<lparr>cp_alias = ''b'', cp_path = ''b'',
      cp_binding = \<lparr>sb_account_id = ''acct-b'', sb_email = ''b@x''\<rparr>\<rparr>]
     = [Completed ''b'' (Inr (Inr (demo_info ''b'', demo_usage 20)))]"
  by code_simp

lemma demo_ranking:
  "rank_candidates default_config demo_poll ''a''
     demo_registry (demo_usage 100) (demo_info ''a'')
   = Inr (score_candidates [(''a'', demo_usage 100, demo_info ''a'', 0),
                            (''b'', demo_usage 20, demo_info ''b'', 0)] 1000 (Fin 20) True)"
proof -
  have ranking: "ranking_snapshot_checked (pw_lock demo_poll) (pw_ranking_clock demo_poll)
      (pw_disk demo_poll) ids = Inr \<lparr>rs_last_used = Map.empty,
        rs_workspaces = (\<lambda>i. if i \<in> set ids then Some WsUnresolved else None)\<rparr>" for ids
    by (simp add: demo_poll_def ranking_snapshot_checked_def read_cache_def load_cache_checked_def
        empty_cache_def workspace_snapshot_def workspace_state_of_def u64_clock_def u64_of_i64_def
        fun_eq_iff filter_opt_def)
  have clock: "pw_scoring_clock demo_poll = Inr 1000" by (simp add: demo_poll_def)
  have item: "ranking_item \<lparr>rs_last_used = Map.empty,
        rs_workspaces = (\<lambda>i. if i \<in> S then Some WsUnresolved else None)\<rparr> (n, u, info)
      = (n, u, info, 0)" for S n u info
    by (auto simp: ranking_item_def apply_workspace_state_def bind_eq_Some_conv split: option.splits if_splits)
  show ?thesis
    by (simp add: rank_candidates_def demo_candidates demo_outcomes ranking item Let_def
        List.map_filter_def observed_def worker_failure_def clock default_config_def default_use_def)
qed

lemma demo_choice:
  "let scored = score_candidates [(''a'', demo_usage 100, demo_info ''a'', 0),
                            (''b'', demo_usage 20, demo_info ''b'', 0)] 1000 (Fin 20) True
   in map_option fst (pick_switch_target (hd scored) (tl scored) (Fin 20)) = Some ''b''"
  by code_simp

lemma demo_poll_switches:
  "SwitchProfile ''a'' ''b'' \<in> set (snd (check_and_switch default_config demo_poll))"
proof -
  have probe: "probe_current demo_poll ''a'' = Inr (demo_usage 100, demo_info ''a'')"
    by (simp add: probe_current_def demo_poll_def)
  have threshold: "dc_switch_threshold (ac_daemon default_config) = Fin 80"
    by (simp add: default_config_def default_daemon_def)
  have used: "current_usage_percent_for_switch (demo_usage 100) = Some (Fin 100)" by code_simp
  from demo_choice obtain score where pick: "pick_switch_target
      (hd (score_candidates [(''a'', demo_usage 100, demo_info ''a'', 0),
                            (''b'', demo_usage 20, demo_info ''b'', 0)] 1000 (Fin 20) True))
      (tl (score_candidates [(''a'', demo_usage 100, demo_info ''a'', 0),
                            (''b'', demo_usage 20, demo_info ''b'', 0)] 1000 (Fin 20) True)) (Fin 20)
      = Some (''b'', score)"
    by (auto simp: Let_def)
  have world: "pw_profiles demo_poll = Inr [''a'', ''b'']"
    "pw_synced demo_poll = Inr (Some (''a'', demo_registry))"
    "current_activity (pw_processes demo_poll) = Idle" "pw_switch demo_poll n m = Inr True" for n m
    by (simp_all add: demo_poll_def windows_codex_activity_def)
  have "check_and_switch default_config demo_poll
      = settle_switch default_config demo_poll ''a''
          (hd (score_candidates [(''a'', demo_usage 100, demo_info ''a'', 0),
                                 (''b'', demo_usage 20, demo_info ''b'', 0)] 1000 (Fin 20) True))
          (tl (score_candidates [(''a'', demo_usage 100, demo_info ''a'', 0),
                                 (''b'', demo_usage 20, demo_info ''b'', 0)] 1000 (Fin 20) True))"
    unfolding check_and_switch_def
    by (simp add: world probe used demo_ranking threshold)
  then show ?thesis
    by (simp add: settle_switch_def pick default_config_def default_use_def default_daemon_def
        world switch_defer_reason_def)
qed

lemma daemon_switch_justified_witness:
  "\<exists>registry u info used scored score u'.
     pw_synced demo_poll = Inr (Some (''a'', registry))
     \<and> probe_current demo_poll ''a'' = Inr (u, info) \<and> current_usage_percent_for_switch u = Some used
     \<and> \<not> f64_lt used (Fin 80)
     \<and> rank_candidates default_config demo_poll ''a'' registry u info = Inr scored
     \<and> pick_switch_target (hd scored) (tl scored) (Fin 20) = Some (''b'', score)
     \<and> target_checked demo_poll ''a'' registry ''b'' u'"
  using daemon_switch_justified [OF demo_poll_switches]
  by (auto simp: default_config_def default_daemon_def default_use_def)

section \<open>The order of the workers\<close>

lemma collect_results_map:
  assumes "collect_results f xs = Inr ys" "\<And>x y. f x = Inr y \<Longrightarrow> g y = h x"
  shows "map g ys = map h xs"
  using assms(1) unfolding collect_results_eq_Inr
  by (induction rule: list_all2_induct) (simp_all add: assms(2))

lemma candidate_aliases:
  assumes "into_candidate_accounts current registry = Inr accounts"
    "preflight_candidate_profiles accounts = Inr candidates"
  shows "map cp_alias candidates = map pa_alias (filter (\<lambda>p. pa_alias p \<noteq> current) registry)"
proof -
  have "map cp_alias candidates = map pc_alias accounts"
    by (rule collect_results_map [OF assms(2) [unfolded preflight_candidate_profiles_def]])
      (auto simp: result_eq_Inr)
  also have "\<dots> = map pa_alias (filter (\<lambda>p. pa_alias p \<noteq> current) registry)"
    by (rule collect_results_map [OF assms(1) [unfolded into_candidate_accounts_def]])
      (auto simp: result_eq_Inr)
  finally show ?thesis .
qed

lemma finished_workers_ids: "map fst (finished_workers w candidates)
    = filter (\<lambda>i. i < length candidates) (pw_order w)"
  by (simp add: finished_workers_def comp_def)

lemma batch_order:
  assumes "mset order = mset (pw_order w)" "distinct (pw_order w)" "distinct (map cp_alias candidates)"
  shows "batch_outcomes (w\<lparr>pw_order := order\<rparr>) candidates = batch_outcomes w candidates"
proof -
  have same: "mset (finished_workers w candidates)
      = mset (finished_workers (w\<lparr>pw_order := order\<rparr>) candidates)"
    using assms(1) by (simp add: finished_workers_def cong: option.case_cong)
  have "strays (finished_workers w candidates) (enumerate 0 (map cp_alias candidates)) = 0"
    by (auto simp: strays_def filter_empty_conv finished_workers_def simp flip: set_map)
  from drain_order [OF same _ _ _ this] assms(2,3) show ?thesis
    by (simp add: batch_outcomes_def finished_workers_ids)
qed

text \<open>
  C38. A poll does not depend on the order in which its workers finish. For a registry with
  distinct names, any two orders of completion of the same workers, each joined once, give the
  same outcome and the same effects: panics, failed fetches and the tie-breaking of the selection
  included.
\<close>

theorem poll_order_irrelevant:
  assumes "pw_synced w = Inr (Some (current, registry))" "distinct (map pa_alias registry)"
    and "mset order = mset (pw_order w)" "distinct (pw_order w)"
  shows "check_and_switch c (w\<lparr>pw_order := order\<rparr>) = check_and_switch c w"
proof -
  have "rank_candidates c (w\<lparr>pw_order := order\<rparr>) current registry u info
      = rank_candidates c w current registry u info" for u info
  proof (cases "into_candidate_accounts current registry")
    case (Inr accounts)
    then show ?thesis
    proof (cases "preflight_candidate_profiles accounts")
      case (Inr candidates)
      have "distinct (map cp_alias candidates)"
        using candidate_aliases [OF \<open>into_candidate_accounts current registry = Inr accounts\<close> Inr]
          assms(2) by (simp add: distinct_map_filter)
      from batch_order [OF assms(3,4) this] show ?thesis
        using Inr \<open>into_candidate_accounts current registry = Inr accounts\<close>
        by (simp add: rank_candidates_def Let_def cong: if_cong)
    qed (simp add: rank_candidates_def)
  qed (simp add: rank_candidates_def)
  then show ?thesis
    by (simp add: check_and_switch_def settle_switch_def probe_current_def assms(1)
        split: sum.splits option.splits prod.splits)
qed

lemma poll_order_irrelevant_witness:
  "check_and_switch default_config (demo_poll\<lparr>pw_order := [3, 0], pw_order := [0, 3]\<rparr>)
     = check_and_switch default_config (demo_poll\<lparr>pw_order := [3, 0]\<rparr>)"
  by (rule poll_order_irrelevant [where current = "''a''" and registry = demo_registry])
    (simp_all add: demo_poll_def demo_registry_def)

section \<open>Failures back off, within bounds\<close>

lemma poll_backoff_bounds:
  assumes "poll_secs * 16 \<le> u64_max"
  shows "\<exists>m. poll_backoff_secs poll_secs failures = Inr (poll_secs * m) \<and> 1 \<le> m \<and> m \<le> 16
           \<and> (failures < 4 \<longrightarrow> m = 2 ^ failures) \<and> (4 \<le> failures \<longrightarrow> m = 16)"
proof -
  let ?m = "min (saturating_pow_u64 2 failures) 16"
  have low: "1 \<le> saturating_pow_u64 2 failures" by (simp add: saturating_pow_u64_def u64_max_def)
  have high: "16 \<le> saturating_pow_u64 2 failures" if "4 \<le> failures"
  proof -
    have "(2::nat) ^ 4 \<le> 2 ^ failures" using that by (intro power_increasing) auto
    then show ?thesis by (simp add: saturating_pow_u64_def u64_max_def)
  qed
  have small: "saturating_pow_u64 2 failures = 2 ^ failures \<and> (2::nat) ^ failures \<le> 8" if "failures < 4"
  proof -
    have "(2::nat) ^ failures \<le> 2 ^ 3" using that by (intro power_increasing) auto
    then show ?thesis by (simp add: saturating_pow_u64_def u64_max_def)
  qed
  have "poll_secs * ?m \<le> poll_secs * 16" by simp
  also have "\<dots> \<le> u64_max" by (rule assms)
  finally have "poll_backoff_secs poll_secs failures = Inr (poll_secs * ?m)"
    by (simp add: poll_backoff_secs_def poll_backoff_max_multiplier_def checked_mul_u64_def)
  with low high small show ?thesis by (intro exI [of _ ?m]) auto
qed

lemma validated_interval:
  assumes "validate cw c = Inr ()"
  shows "dc_poll_interval_secs (ac_daemon c) * 16 \<le> u64_max"
    and "int (dc_poll_interval_secs (ac_daemon c)) * 16 \<le> i64_max"
    and "1 \<le> dc_poll_interval_secs (ac_daemon c)"
    and "between 0 100 (uc_safety_margin_7d (ac_use c))"
  using validate_sound [OF assms] by (simp_all add: config_ok_def poll_backoff_max_multiplier_def)

text \<open>
  C37. A failed poll suspends polling for a bounded time and never kills the daemon. Under a
  validated configuration, with a clock that works and is not within sixteen intervals of the end
  of its range, a poll that fails leaves the loop running with a backoff of one to sixteen poll
  intervals; before its end every poll tick leaves the state as it is and touches nothing, and
  the first tick at or after its end polls again.
\<close>

theorem failed_poll_backs_off:
  assumes "validate cw c = Inr ()"
    and "tk_now t = Inr now" "\<not> poll_suspended now (ls_state ls)"
    and "fst (check_and_switch c w) = Inl e"
    and "tk_polled t = Inr polled" "tk_event t = Inr event" "in_i64 event"
    and "event + int (dc_poll_interval_secs (ac_daemon c)) * 16 \<le> i64_max"
  shows "\<exists>ls' until. fst (poll_tick c t w ls) = Continue ls'
     \<and> ds_backoff_until (ls_state ls') = Some until
     \<and> event + int (dc_poll_interval_secs (ac_daemon c)) \<le> until
     \<and> until \<le> event + int (dc_poll_interval_secs (ac_daemon c)) * 16
     \<and> (\<forall>t' w' now'. tk_now t' = Inr now' \<longrightarrow> now' < until \<longrightarrow> poll_tick c t' w' ls' = (Continue ls', []))
     \<and> (\<forall>t' w' now'. tk_now t' = Inr now' \<longrightarrow> until \<le> now' \<longrightarrow>
          snd (poll_tick c t' w' ls') = snd (check_and_switch c w'))"
proof -
  let ?poll = "dc_poll_interval_secs (ac_daemon c)"
  let ?st = "(ls_state ls)\<lparr>ds_backoff_until := None\<rparr>"
  obtain m where m: "poll_backoff_secs ?poll ((ds_consecutive_failures ?st + 1) mod 2 ^ 32) = Inr (?poll * m)"
    "1 \<le> m" "m \<le> 16"
    using poll_backoff_bounds [OF validated_interval(1) [OF assms(1)]] by blast
  have le: "int ?poll * int m \<le> int ?poll * 16" "int ?poll \<le> int ?poll * int m"
    using m(2,3) mult_left_mono [of "int m" 16 "int ?poll"] mult_left_mono [of 1 "int m" "int ?poll"]
    by simp_all
  have fits: "i64_of_u64 (?poll * m) = Some (int ?poll * int m)"
    "checked_add event (int ?poll * int m) = Some (event + int ?poll * int m)"
    using le validated_interval(2) [OF assms(1)] assms(7,8)
    by (auto simp: i64_of_u64_def checked_add_def in_i64_def)
  obtain st where st: "record_failure ?poll t e ?st = Inr st"
    "ds_backoff_until st = Some (event + int ?poll * int m)"
    using m(1) fits assms(5,6) by (simp add: record_failure_def checked_add_def)
  let ?ls = "write_state (tk_written t) (tk_stored t) st (ls_file ls)"
  have ls: "fst (poll_tick c t w ls) = Continue ?ls"
    using assms(2-4) st(1) by (simp add: poll_tick_def split_beta)
  have until: "ds_backoff_until (ls_state ?ls) = Some (event + int ?poll * int m)"
    using st(2) by (simp add: write_state_def Let_def split: sum.splits)
  have held: "poll_tick c t' w' ?ls = (Continue ?ls, [])"
    if "tk_now t' = Inr now'" "now' < event + int ?poll * int m" for t' w' now'
    using that until by (simp add: poll_tick_def poll_suspended_def is_some_and_def)
  have resumed: "snd (poll_tick c t' w' ?ls) = snd (check_and_switch c w')"
    if "tk_now t' = Inr now'" "event + int ?poll * int m \<le> now'" for t' w' now'
    using that until by (simp add: poll_tick_def poll_suspended_def is_some_and_def split_beta Let_def)
  show ?thesis
    using ls until held resumed le
    by (intro exI [of _ ?ls] exI [of _ "event + int ?poll * int m"]) auto
qed

definition demo_config_world :: config_world where
  "demo_config_world = \<lparr>cw_proxy_ok = (\<lambda>_. Inr ()), cw_filter_ok = (\<lambda>_. Inr ()),
     cw_max_permits = 1000, cw_timer_ok = (\<lambda>_. True), cw_clock = Inr 1000,
     cw_application_filter = id\<rparr>"

lemma default_config_valid: "validate demo_config_world default_config = Inr ()"
  by (simp add: validate_def default_config_def default_daemon_def default_use_def
      demo_config_world_def validate_interval_def validate_percentage_def i64_of_u64_def
      checked_mul_u64_def checked_add_def int_bounds poll_backoff_max_multiplier_def Let_def
      filter_opt_def trim_def is_whitespace_def)

definition demo_clock :: "i64 \<Rightarrow> tick_clock" where
  "demo_clock now = \<lparr>tk_now = Inr now, tk_polled = Inr now, tk_event = Inr now,
     tk_written = Inr now, tk_stored = True\<rparr>"

definition demo_loop :: loop_state where
  "demo_loop = \<lparr>ls_state = initial_state 7 900, ls_file = None\<rparr>"

lemma failed_poll_backs_off_witness:
  "\<exists>ls' until. fst (poll_tick default_config (demo_clock 1000)
         (demo_poll\<lparr>pw_profiles := bail ''io''\<rparr>) demo_loop) = Continue ls'
     \<and> ds_backoff_until (ls_state ls') = Some until
     \<and> 1060 \<le> until \<and> until \<le> 1960"
proof -
  have "\<not> poll_suspended 1000 (ls_state demo_loop)"
    by (simp add: demo_loop_def initial_state_def poll_suspended_def is_some_and_def)
  moreover have "fst (check_and_switch default_config (demo_poll\<lparr>pw_profiles := bail ''io''\<rparr>))
      = Inl [''io'']"
    by (simp add: check_and_switch_def bail_def)
  ultimately show ?thesis
    using failed_poll_backs_off [OF default_config_valid, of "demo_clock 1000" 1000 demo_loop
        "demo_poll\<lparr>pw_profiles := bail ''io''\<rparr>" "[''io'']" 1000 1000]
    by (auto simp: demo_clock_def default_config_def default_daemon_def int_bounds)
qed

section \<open>The state stays well formed\<close>

definition time_ok :: "i64 option \<Rightarrow> bool" where
  "time_ok t \<longleftrightarrow> (\<forall>n. t = Some n \<longrightarrow> in_i64 n)"

definition reading_ok :: "i64 result \<Rightarrow> bool" where
  "reading_ok r \<longleftrightarrow> (\<forall>n. r = Inr n \<longrightarrow> in_i64 n)"

definition tick_ok :: "tick_clock \<Rightarrow> bool" where
  "tick_ok t \<longleftrightarrow> reading_ok (tk_now t) \<and> reading_ok (tk_polled t) \<and> reading_ok (tk_event t)
     \<and> reading_ok (tk_written t)"

fun event_ok :: "daemon_event \<Rightarrow> bool" where
  "event_ok (PollTick t _) = tick_ok t"
| "event_ok (CacheTick t _) = tick_ok t"
| "event_ok _ = True"

definition switch_record_ok :: "switch_record \<Rightarrow> bool" where
  "switch_record_ok r \<longleftrightarrow>
     in_i64 (sr_at r) \<and> between (- 860) 2050 (sr_score r) \<and> sr_from r \<noteq> sr_to r"

definition daemon_state_ok :: "daemon_state \<Rightarrow> bool" where
  "daemon_state_ok st \<longleftrightarrow>
     in_i64 (ds_started_at st) \<and> in_i64 (ds_updated_at st)
   \<and> time_ok (ds_last_poll_at st) \<and> time_ok (ds_backoff_until st) \<and> time_ok (ds_last_cache_refresh_at st)
   \<and> time_ok (map_option pn_since (ds_pending_switch st))
   \<and> ds_consecutive_failures st \<le> u32_max
   \<and> (\<forall>r. ds_last_switch st = Some r \<longrightarrow> switch_record_ok r)
   \<and> (ds_last_error st = None \<longrightarrow> ds_consecutive_failures st = 0 \<and> ds_backoff_until st = None)"

definition loop_ok :: "loop_state \<Rightarrow> bool" where
  "loop_ok ls \<longleftrightarrow> daemon_state_ok (ls_state ls) \<and> (\<forall>f. ls_file ls = Some f \<longrightarrow> daemon_state_ok f)"

lemmas state_ok_defs = daemon_state_ok_def time_ok_def switch_record_ok_def

lemma write_state_ok:
  "daemon_state_ok st \<Longrightarrow> reading_ok clock \<Longrightarrow> (\<forall>f. file = Some f \<longrightarrow> daemon_state_ok f) \<Longrightarrow>
     loop_ok (write_state clock stored st file)"
  by (auto simp: loop_ok_def write_state_def reading_ok_def state_ok_defs Let_def split: sum.splits)

lemma switched_record:
  assumes "fst (check_and_switch c w) = Inr (Switched a b score)"
    and "between 0 100 (uc_safety_margin_7d (ac_use c))"
  shows "between (- 860) 2050 score \<and> a \<noteq> b"
proof -
  from assms(1) obtain registry u info scored where
    ranked: "rank_candidates c w a registry u info = Inr scored"
    and pick: "pick_switch_target (hd scored) (tl scored) (uc_safety_margin_7d (ac_use c)) = Some (b, score)"
    by (auto simp: check_and_switch_def settle_switch_def split: sum.splits option.splits
        prod.splits if_splits bool.splits)
  from pick_member [OF pick] obtain s where s: "s \<in> set (tl scored)" "c_alias (s_candidate s) = b"
    "s_score s = score" "\<not> unselectable s" by blast
  from ranked obtain items now where "scored = score_candidates items now
      (uc_safety_margin_7d (ac_use c)) (uc_team_priority (ac_use c))"
    by (auto simp: rank_candidates_def result_eq_Inr Let_def split: if_splits)
  moreover have "s \<in> set scored" using s(1) by (cases scored) auto
  ultimately have "between (- 860) 2050 score" using scored_between [OF assms(2)] s(3) by blast
  then show ?thesis using ranked_target(1) [OF ranked s(1,4)] s(2) by (auto simp: target_checked_def)
qed

lemma record_outcome_ok:
  assumes "record_outcome t outcome st = Inr st'" "daemon_state_ok st" "tick_ok t"
    and "\<And>a b score. outcome = Switched a b score \<Longrightarrow> between (- 860) 2050 score \<and> a \<noteq> b"
  shows "daemon_state_ok st'"
  using assms
  by (cases outcome) (auto simp: record_outcome_def state_ok_defs tick_ok_def reading_ok_def
      map_ok_eq_Inr filter_opt_def split: option.splits if_splits)

lemma record_failure_ok:
  assumes "record_failure poll t e st = Inr st'" "daemon_state_ok st" "tick_ok t"
  shows "daemon_state_ok st'"
proof -
  have "n mod 4294967296 \<le> u32_max" "Suc 0 \<le> u32_max" for n :: nat
    using mod_less_divisor [of 4294967296 n] by (simp_all add: u32_max_def)
  then show ?thesis using assms
    by (auto simp: record_failure_def state_ok_defs tick_ok_def reading_ok_def result_eq_Inr Let_def)
qed

lemma poll_tick_ok:
  assumes "fst (poll_tick c t w ls) = Continue ls'" "loop_ok ls" "tick_ok t"
    and "between 0 100 (uc_safety_margin_7d (ac_use c))"
  shows "loop_ok ls'"
proof (cases "tk_now t")
  case (Inr now)
  let ?st = "(ls_state ls)\<lparr>ds_backoff_until := None\<rparr>"
  have st: "daemon_state_ok ?st" "daemon_state_ok (?st\<lparr>ds_consecutive_failures := 0,
      ds_last_error := None, ds_last_poll_at := Some polled\<rparr>)" if "in_i64 polled" for polled
    using assms(2) that by (auto simp: loop_ok_def state_ok_defs)
  show ?thesis
  proof (cases "poll_suspended now (ls_state ls)")
    case False
    with assms(1) Inr obtain st' where st':
      "ls' = write_state (tk_written t) (tk_stored t) st' (ls_file ls)"
      "case fst (check_and_switch c w) of
         Inr outcome \<Rightarrow> and_then (tk_polled t) (\<lambda>polled. record_outcome t outcome
           (?st\<lparr>ds_consecutive_failures := 0, ds_last_error := None, ds_last_poll_at := Some polled\<rparr>))
           = Inr st'
       | Inl e \<Rightarrow> record_failure (dc_poll_interval_secs (ac_daemon c)) t e ?st = Inr st'"
      by (auto simp: poll_tick_def split_beta Let_def split: sum.splits)
    have "daemon_state_ok st'"
    proof (cases "fst (check_and_switch c w)")
      case (Inl e)
      with st'(2) record_failure_ok [OF _ st(1) [of 0] assms(3)] show ?thesis
        by (simp add: in_i64_def i64_min_def i64_max_def)
    next
      case (Inr outcome)
      with st'(2) obtain polled where polled: "tk_polled t = Inr polled" "record_outcome t outcome
          (?st\<lparr>ds_consecutive_failures := 0, ds_last_error := None, ds_last_poll_at := Some polled\<rparr>)
          = Inr st'"
        by (auto simp: and_then_eq_Inr)
      then have "in_i64 polled" using assms(3) by (simp add: tick_ok_def reading_ok_def)
      from record_outcome_ok [OF polled(2) st(2) [OF this] assms(3)] switched_record [OF _ assms(4)] Inr
      show ?thesis by blast
    qed
    from write_state_ok [OF this, of "tk_written t" "ls_file ls" "tk_stored t"] st'(1) assms(2,3)
    show ?thesis by (simp add: tick_ok_def loop_ok_def)
  qed (use assms Inr in \<open>simp add: poll_tick_def\<close>)
qed (use assms in \<open>simp add: poll_tick_def\<close>)

lemma daemon_step_ok:
  assumes "fst (daemon_step c e ls) = Continue ls'" "loop_ok ls" "event_ok e"
    and "between 0 100 (uc_safety_margin_7d (ac_use c))"
  shows "loop_ok ls'"
proof (cases e)
  case (PollTick t w)
  with assms poll_tick_ok [of c t w ls ls'] show ?thesis by (simp add: split_beta)
next
  case (CacheTick t w)
  then obtain now where tick: "tk_now t = Inr now" "ls' = write_state (tk_written t) (tk_stored t)
      ((ls_state ls)\<lparr>ds_last_cache_refresh_at := Some now\<rparr>) (ls_file ls)"
    using assms(1) by (auto simp: cache_tick_def split: sum.splits)
  have now: "in_i64 now" "reading_ok (tk_written t)"
    using assms(3) CacheTick tick(1) by (auto simp: tick_ok_def reading_ok_def)
  have "daemon_state_ok ((ls_state ls)\<lparr>ds_last_cache_refresh_at := Some now\<rparr>)"
    using assms(2) now(1) by (simp add: loop_ok_def state_ok_defs)
  from write_state_ok [OF this now(2)] assms(2) show ?thesis
    unfolding tick(2) by (simp add: loop_ok_def [of ls])
qed (use assms in \<open>auto split: if_splits\<close>)

lemma daemon_run_ok:
  assumes "between 0 100 (uc_safety_margin_7d (ac_use c))"
  shows "fst (daemon_run c es ls) = Continue ls' \<Longrightarrow> loop_ok ls \<Longrightarrow> \<forall>e\<in>set es. event_ok e \<Longrightarrow> loop_ok ls'"
proof (induction es arbitrary: ls)
  case (Cons e es)
  from Cons.prems(1) obtain ls1 where "fst (daemon_step c e ls) = Continue ls1"
    "fst (daemon_run c es ls1) = Continue ls'"
    by (auto simp: split_beta split: prod.splits loop_result.splits)
  with Cons.IH [of ls1] daemon_step_ok [of c e ls ls1] Cons.prems assms show ?case by auto
qed simp

text \<open>
  C39. Whatever happens, in whatever order, the daemon's state and the snapshot file stay well
  formed: every time stamp is in the range of the stored type, the counter of failures is a
  32-bit value, the recorded switch is between two different profiles with a finite score (which
  the snapshot can store as a number), and a state without an error has neither failures nor a
  backoff.
\<close>

theorem daemon_state_typed:
  assumes "validate cw c = Inr ()"
    and "start_daemon pid clock written stored None = Inr ls" "reading_ok clock" "reading_ok written"
    and "\<forall>e\<in>set es. event_ok e" "fst (daemon_run c es ls) = Continue ls'"
  shows "daemon_state_ok (ls_state ls') \<and> (\<forall>f. ls_file ls' = Some f \<longrightarrow> daemon_state_ok f)"
proof -
  from assms(2) obtain started where start: "clock = Inr started"
    "ls = write_state written stored (initial_state pid started) None"
    by (auto simp: start_daemon_def map_ok_eq_Inr)
  with assms(3) have "daemon_state_ok (initial_state pid started)"
    by (simp add: reading_ok_def initial_state_def state_ok_defs int_bounds)
  from daemon_run_ok [OF validated_interval(4) [OF assms(1)] assms(6) write_state_ok [OF this assms(4),
      of None stored, folded start(2)] assms(5)]
  show ?thesis by (simp add: loop_ok_def)
qed

definition demo_binding_b :: strict_account_binding where
  "demo_binding_b = \<lparr>sb_account_id = ''acct-b'', sb_email = ''b@x''\<rparr>"

definition demo_cache_world :: cache_world where
  "demo_cache_world = \<lparr>kw_profiles = Inr [''a'', ''b''],
     kw_worker = (\<lambda>_. \<lparr>rf_path = Inr ''p'', rf_lease = Inr (), rf_prepared = Inr (),
        rf_observed = Inr (default_usage, demo_binding_b), rf_now = Inr 1000,
        rf_warmup = (\<lambda>_ _. Inr ())\<rparr>),
     kw_finish = id, kw_crash = (\<lambda>_. None)\<rparr>"

lemma daemon_state_typed_witness:
  "daemon_state_ok ((initial_state 7 900)\<lparr>ds_last_cache_refresh_at := Some 1000, ds_updated_at := 1000\<rparr>)"
proof -
  let ?ls = "\<lparr>ls_state = (initial_state 7 900)\<lparr>ds_updated_at := 900\<rparr>, ls_file = Some ((initial_state 7 900)\<lparr>ds_updated_at := 900\<rparr>)\<rparr>"
  let ?st = "(initial_state 7 900)\<lparr>ds_last_cache_refresh_at := Some 1000, ds_updated_at := 1000\<rparr>"
  have "start_daemon 7 (Inr 900) (Inr 900) True None = Inr ?ls"
    by (simp add: start_daemon_def write_state_def Let_def)
  moreover have "fst (daemon_run default_config
      [TokenTick, CacheTick (demo_clock 1000) demo_cache_world, ShutdownRequestTick False] ?ls)
      = Continue \<lparr>ls_state = ?st, ls_file = Some ?st\<rparr>"
    by (simp add: cache_tick_def write_state_def demo_clock_def initial_state_def Let_def)
  ultimately show ?thesis
    using daemon_state_typed [OF default_config_valid, of 7 "Inr 900" "Inr 900" True ?ls
        "[TokenTick, CacheTick (demo_clock 1000) demo_cache_world, ShutdownRequestTick False]"
        "\<lparr>ls_state = ?st, ls_file = Some ?st\<rparr>"]
    by (simp add: reading_ok_def tick_ok_def demo_clock_def int_bounds)
qed

section \<open>A pending switch keeps its age\<close>

lemma pending_step:
  assumes "ds_pending_switch (ls_state ls) = Some pending"
    and "fst (daemon_step c e ls) = Continue ls'"
    and "\<And>t w outcome. e = PollTick t w \<Longrightarrow> fst (check_and_switch c w) = Inr outcome \<Longrightarrow>
           outcome = Deferred (pn_to pending)"
  shows "ds_pending_switch (ls_state ls') = Some pending"
proof (cases e)
  case (PollTick t w)
  show ?thesis
  proof (cases "fst (check_and_switch c w)")
    case (Inl failure)
    with assms(1,2) PollTick show ?thesis
      by (auto simp: poll_tick_def split_beta Let_def write_state_def record_failure_def result_eq_Inr
          split: sum.splits if_splits)
  next
    case (Inr outcome)
    have "outcome = Deferred (pn_to pending)" by (rule assms(3) [OF PollTick Inr])
    with Inr assms(1,2) PollTick show ?thesis
      by (auto simp: poll_tick_def split_beta Let_def write_state_def record_outcome_def
          filter_opt_def result_eq_Inr split: sum.splits if_splits)
  qed
next
  case (CacheTick t w)
  with assms show ?thesis
    by (auto simp: cache_tick_def write_state_def Let_def split: sum.splits)
qed (use assms in \<open>auto split: if_splits\<close>)

text \<open>
  A switch that is held back keeps the time since which it is pending. As long as no poll
  reports another outcome than the same deferred target (failed and suspended polls, token and
  cache ticks in between change nothing), the state shows the first time it was deferred.
\<close>

theorem pending_since_kept:
  assumes "ds_pending_switch (ls_state ls) = Some pending"
    and "fst (daemon_run c es ls) = Continue ls'"
    and "\<And>t w outcome. PollTick t w \<in> set es \<Longrightarrow> fst (check_and_switch c w) = Inr outcome \<Longrightarrow>
           outcome = Deferred (pn_to pending)"
  shows "ds_pending_switch (ls_state ls') = Some pending"
  using assms
proof (induction es arbitrary: ls)
  case (Cons e es)
  from Cons.prems(2) obtain ls1 where ls1: "fst (daemon_step c e ls) = Continue ls1"
    "fst (daemon_run c es ls1) = Continue ls'"
    by (auto simp: split_beta split: prod.splits loop_result.splits)
  have "ds_pending_switch (ls_state ls1) = Some pending"
    by (rule pending_step [OF Cons.prems(1) ls1(1)]) (use Cons.prems(3) in auto)
  from Cons.IH [OF this ls1(2)] Cons.prems(3) show ?case by (meson list.set_intros(2))
qed simp

lemma pending_since_kept_witness:
  "ds_pending_switch (ls_state (demo_loop\<lparr>ls_state := (initial_state 7 900)
      \<lparr>ds_pending_switch := Some \<lparr>pn_to = ''b'', pn_since = 950\<rparr>\<rparr>\<rparr>)) = Some \<lparr>pn_to = ''b'', pn_since = 950\<rparr>"
  by (rule pending_since_kept [where c = default_config and es = "[TokenTick, ShutdownRequestTick False]"
        and ls = "demo_loop\<lparr>ls_state := (initial_state 7 900)
          \<lparr>ds_pending_switch := Some \<lparr>pn_to = ''b'', pn_since = 950\<rparr>\<rparr>\<rparr>"]) simp_all

section \<open>The cache refresh\<close>

lemma refresh_worker_sound:
  "refresh_worker auto_warmup w = (r, warmups) \<Longrightarrow>
     (rr_warmed r \<longrightarrow> rr_refreshed r) \<and> (rr_refreshed r \<or> rr_error r \<noteq> None)
     \<and> (\<forall>(binding, u)\<in>set warmups. auto_warmup \<and> rf_observed w = Inr (u, binding)
          \<and> (\<exists>now. rf_now w = Inr now \<and> \<not> usage_has_active_warmup_window u now))"
  by (auto simp: refresh_worker_def Let_def split: sum.splits if_splits prod.splits)

lemma add_refresh_bounds:
  assumes "\<And>r. Inr r \<in> set rs \<Longrightarrow> (rr_warmed r \<longrightarrow> rr_refreshed r) \<and> (rr_refreshed r \<or> rr_error r \<noteq> None)"
    and "sm_warmed s \<le> sm_refreshed s"
  shows "sm_warmed (foldl add_refresh s rs) \<le> sm_refreshed (foldl add_refresh s rs)
     \<and> sm_refreshed (foldl add_refresh s rs) \<le> sm_refreshed s + length rs
     \<and> sm_refreshed s + sm_failed s + length rs
         \<le> sm_refreshed (foldl add_refresh s rs) + sm_failed (foldl add_refresh s rs)"
  using assms
proof (induction rs arbitrary: s)
  case (Cons r rs)
  have "sm_warmed (add_refresh s r) \<le> sm_refreshed (add_refresh s r)
     \<and> sm_refreshed (add_refresh s r) \<le> sm_refreshed s + 1
     \<and> sm_refreshed s + sm_failed s + 1 \<le> sm_refreshed (add_refresh s r) + sm_failed (add_refresh s r)"
    using Cons.prems(1) [of "projr r"] Cons.prems(2) by (cases r) (auto split: if_splits)
  with Cons.IH [of "add_refresh s r"] Cons.prems(1) show ?case by force
qed simp

text \<open>
  C40. A cache refresh accounts for every profile, and warms up only idle accounts. The summary
  counts each profile as refreshed, as failed, or as both (when its warm-up failed), and never
  more warmed than refreshed, in whatever order the workers finish and whichever of them crash.
  A warm-up is sent only if it is enabled, for a saved profile, under the binding and with the
  sample just observed, when that sample shows no active window at the current time.
\<close>

theorem cache_refresh_accounts:
  assumes "kw_profiles w = Inr profiles" "mset (kw_finish w profiles) = mset profiles"
  shows "\<exists>s. fst (refresh_profile_cache auto_warmup w) = Inr s
     \<and> sm_warmed s \<le> sm_refreshed s \<and> sm_refreshed s \<le> length profiles
     \<and> length profiles \<le> sm_refreshed s + sm_failed s
     \<and> (\<forall>(name, binding, u)\<in>set (snd (refresh_profile_cache auto_warmup w)).
          auto_warmup \<and> name \<in> set profiles \<and> rf_observed (kw_worker w name) = Inr (u, binding)
          \<and> (\<exists>now. rf_now (kw_worker w name) = Inr now \<and> \<not> usage_has_active_warmup_window u now))"
proof (cases "profiles = []")
  case False
  let ?result = "\<lambda>name. case kw_crash w name of Some e \<Rightarrow> Inl e
      | None \<Rightarrow> Inr (fst (refresh_worker auto_warmup (kw_worker w name)))"
  let ?s = "foldl add_refresh empty_summary (map ?result (kw_finish w profiles))"
  have sound: "(rr_warmed r \<longrightarrow> rr_refreshed r) \<and> (rr_refreshed r \<or> rr_error r \<noteq> None)"
    if "Inr r \<in> set (map ?result (kw_finish w profiles))" for r
  proof -
    from that obtain name where "r = fst (refresh_worker auto_warmup (kw_worker w name))"
      by (auto split: option.splits)
    then show ?thesis using refresh_worker_sound [OF prod.collapse [symmetric]] by simp
  qed
  have "length (kw_finish w profiles) = length profiles"
    by (rule mset_eq_length [OF assms(2)])
  with add_refresh_bounds [of "map ?result (kw_finish w profiles)" empty_summary, OF sound]
  have "sm_warmed ?s \<le> sm_refreshed ?s" "sm_refreshed ?s \<le> length profiles"
    "length profiles \<le> sm_refreshed ?s + sm_failed ?s"
    by (simp_all add: empty_summary_def)
  moreover have "fst (refresh_profile_cache auto_warmup w) = Inr ?s"
    using False by (simp add: refresh_profile_cache_def assms(1))
  moreover have "auto_warmup \<and> name \<in> set profiles \<and> rf_observed (kw_worker w name) = Inr (u, binding)
      \<and> (\<exists>now. rf_now (kw_worker w name) = Inr now \<and> \<not> usage_has_active_warmup_window u now)"
    if "(name, binding, u) \<in> set (snd (refresh_profile_cache auto_warmup w))" for name binding u
    using that False refresh_worker_sound [OF prod.collapse [symmetric], of auto_warmup "kw_worker w name"]
    by (fastforce simp: refresh_profile_cache_def assms(1))
  ultimately show ?thesis by blast
qed (simp add: refresh_profile_cache_def assms(1) empty_summary_def)

lemma cache_refresh_accounts_witness:
  "\<exists>s. fst (refresh_profile_cache True demo_cache_world) = Inr s
     \<and> sm_warmed s \<le> sm_refreshed s \<and> 2 \<le> sm_refreshed s + sm_failed s"
  using cache_refresh_accounts [of demo_cache_world "[''a'', ''b'']" True]
  by (auto simp: demo_cache_world_def)

end
