(* ===== verification/Auth_Value.thy ===== *)
theory Auth_Value
  imports Account_Info
begin

text \<open>
  Credential values (\<open>src/src/auth.rs\<close>): the managed account policy of Codex's configuration, the
  tokens of an auth value and their replacement after a refresh, the validation of an imported
  value, and the redaction of values that are logged.

  The TOML and JSON readers, base64 and the printing of JSON are code outside the repository. A
  parsed configuration is its table of values; the JSON side is the record \<open>codec\<close>. A JSON object
  is kept in the order of its keys, as the JSON library keeps it, so that inserting a member is
  \<open>object_insert\<close> and comparing two values is equality.
\<close>

named_theorems credential_defs "definitions of the operations on credential values"

section \<open>Codec\<close>

record codec =
  cd_parse :: "string \<Rightarrow> json result"
  cd_print :: "json \<Rightarrow> string"
  cd_utf8 :: "string \<Rightarrow> unit result"
  cd_b64 :: "string \<Rightarrow> string option"

definition account_info_from_auth_value :: "codec \<Rightarrow> json \<Rightarrow> account_info" where
  "account_info_from_auth_value cd v =
     parse_account_info (cd_b64 cd) (\<lambda>s. ok_opt (cd_parse cd s)) v"

text \<open>
  Reading a file as text and parsing it (\<open>read_auth\<close>); the bytes are already there, and
  \<open>cd_utf8\<close> says whether they are a text.
\<close>

definition parse_auth :: "codec \<Rightarrow> string \<Rightarrow> json result" where
  "parse_auth cd bytes =
     and_then (with_context ''reading'' (cd_utf8 cd bytes))
       (\<lambda>_. with_context ''parsing'' (cd_parse cd bytes))"

section \<open>The managed account policy\<close>

datatype toml = TString string | TArray "toml list" | TOther

type_synonym toml_table = "string \<Rightarrow> toml option"

definition toml_str :: "toml \<Rightarrow> string option" where
  "toml_str v = (case v of TString s \<Rightarrow> Some s | _ \<Rightarrow> None)"

definition api_login_forced :: "toml_table \<Rightarrow> bool" where
  "api_login_forced config \<longleftrightarrow>
     Option.bind (config ''forced_login_method'') toml_str = Some ''api''"

definition validate_cli_auth_credentials_config :: "toml_table \<Rightarrow> unit result" where
  "validate_cli_auth_credentials_config config =
     (if config ''cli_auth_credentials_store'' \<notin> {None, Some (TString ''file'')}
      then bail ''codex-switch-global-pace requires file-based Codex credentials''
      else if api_login_forced config
      then bail ''Codex managed policy requires API key login''
      else Inr ())"

definition forced_chatgpt_workspace_ids :: "toml_table \<Rightarrow> string list result" where
  "forced_chatgpt_workspace_ids config =
     map_ok (filter (\<lambda>i. i \<noteq> []))
       (case config ''forced_chatgpt_workspace_id'' of
          None \<Rightarrow> Inr []
        | Some (TString i) \<Rightarrow> Inr [trim i]
        | Some (TArray ids) \<Rightarrow>
            map_ok (map trim)
              (collect_results
                 (\<lambda>v. ok_or [''forced_chatgpt_workspace_id must contain only strings''] (toml_str v))
                 ids)
        | Some TOther \<Rightarrow>
            bail ''forced_chatgpt_workspace_id must be a string or a list of strings'')"

definition validate_managed_auth_config :: "toml_table \<Rightarrow> string option \<Rightarrow> unit result" where
  "validate_managed_auth_config config account_id =
     (if api_login_forced config
      then bail ''Codex managed policy requires API key login''
      else
      and_then (forced_chatgpt_workspace_ids config) (\<lambda>workspace_ids.
        if workspace_ids = [] then Inr ()
        else
        and_then
          (ok_or [''login token has no workspace id required by Codex managed policy''] account_id)
          (\<lambda>i. if i \<notin> set workspace_ids
               then bail (''workspace '' @ i @ '' is not allowed by Codex forced_chatgpt_workspace_id policy'')
               else Inr ())))"

text \<open>A loaded policy is the parsed configuration, if there is one (\<open>ManagedAuthPolicySnapshot\<close>).\<close>

type_synonym managed_policy = "toml_table option"

definition validate_account_info :: "managed_policy \<Rightarrow> account_info \<Rightarrow> unit result" where
  "validate_account_info policy info =
     (case policy of
        None \<Rightarrow> Inr ()
      | Some config \<Rightarrow> validate_managed_auth_config config (ai_account_id info))"

definition validate_managed_auth_value ::
  "codec \<Rightarrow> managed_policy result \<Rightarrow> json \<Rightarrow> unit result" where
  "validate_managed_auth_value cd loaded auth =
     and_then loaded (\<lambda>policy.
       if policy = None then Inr ()
       else validate_account_info policy (account_info_from_auth_value cd auth))"

definition policy_auth_path :: "managed_policy result \<Rightarrow> unit result" where
  "policy_auth_path loaded =
     and_then loaded (\<lambda>policy.
       case policy of None \<Rightarrow> Inr () | Some config \<Rightarrow> validate_cli_auth_credentials_config config)"

section \<open>Tokens\<close>

fun object_insert :: "string \<Rightarrow> json \<Rightarrow> json_object \<Rightarrow> json_object" where
  "object_insert k v [] = [(k, v)]"
| "object_insert k v ((k', v') # m) =
     (if k = k' then (k, v) # m
      else if k < k' then (k, v) # (k', v') # m
      else (k', v') # object_insert k v m)"

definition refresh_token :: "json \<Rightarrow> string option" where
  "refresh_token v =
     Option.bind (jget v ''tokens'') (\<lambda>t. Option.bind (jget t ''refresh_token'') as_str)"

fun first_empty_token :: "(string \<times> string) list \<Rightarrow> unit result" where
  "first_empty_token [] = Inr ()"
| "first_empty_token ((name, value) # rest) =
     (if trim value = [] then bail (''OAuth '' @ name @ '' must not be empty'')
      else first_empty_token rest)"

definition validate_complete_oauth_tokens :: "string \<Rightarrow> string \<Rightarrow> string \<Rightarrow> unit result" where
  "validate_complete_oauth_tokens id_token access_token refresh_tok =
     first_empty_token [(''id_token'', id_token), (''access_token'', access_token),
                        (''refresh_token'', refresh_tok)]"

text \<open>\<open>stamp\<close> is the clock's reading as it is written, or the clock's error.\<close>

definition apply_tokens ::
  "string result \<Rightarrow> json \<Rightarrow> string \<Rightarrow> string \<Rightarrow> string \<Rightarrow> json result" where
  "apply_tokens stamp val id_token access_token refresh_tok =
     and_then (validate_complete_oauth_tokens id_token access_token refresh_tok) (\<lambda>_.
     and_then stamp (\<lambda>last_refresh.
     and_then (ok_or [''auth.json missing tokens object'']
                 (Option.bind (jget val ''tokens'') as_object)) (\<lambda>tokens.
       let tokens = object_insert ''refresh_token'' (JString refresh_tok)
                      (object_insert ''access_token'' (JString access_token)
                        (object_insert ''id_token'' (JString id_token) tokens))
       in Inr (case val of
                 JObject obj \<Rightarrow>
                   JObject (object_insert ''last_refresh'' (JString last_refresh)
                     (object_insert ''tokens'' (JObject tokens) obj))
               | other \<Rightarrow> other))))"

section \<open>The validation of an imported value\<close>

definition nonblank_token :: "json_object \<Rightarrow> string \<Rightarrow> string option" where
  "nonblank_token tokens name =
     filter_opt (\<lambda>s. trim s \<noteq> []) (Option.bind (map_of tokens name) as_str)"

definition validate_auth_value :: "codec \<Rightarrow> json \<Rightarrow> account_info result" where
  "validate_auth_value cd val =
     and_then (ok_or [''auth.json missing tokens object'']
                 (Option.bind (jget val ''tokens'') as_object)) (\<lambda>tokens.
     and_then (ok_or [''tokens.id_token is required''] (nonblank_token tokens ''id_token''))
       (\<lambda>id_token.
     if nonblank_token tokens ''access_token'' = None \<and> nonblank_token tokens ''refresh_token'' = None
     then bail ''tokens.access_token or tokens.refresh_token is required''
     else
     and_then (case split_on CHR ''.'' id_token of
                 _ # payload # _ \<Rightarrow> Inr payload
               | _ \<Rightarrow> bail ''tokens.id_token is not a valid JWT'') (\<lambda>payload.
     and_then (ok_or [''tokens.id_token payload is not valid base64url''] (cd_b64 cd payload))
       (\<lambda>decoded.
     and_then (map_err (\<lambda>_. [''tokens.id_token payload is not valid JSON'']) (cd_parse cd decoded))
       (\<lambda>_.
       let info = account_info_from_auth_value cd val
       in if is_none_or (\<lambda>i. i = []) (ai_account_id info)
          then bail ''id_token does not contain a usable account_id''
          else Inr info)))))"

section \<open>The outcome of a conditional publication\<close>

text \<open>
  What replacing the live credential under the condition that it is unchanged may end in. The
  constructors of the source share their names with those of a settlement (Auth_Publication):
  here they are WrittenRecoveryRequired (PublishedRecoveryRequired), NotWrittenRecoveryRequired
  (RestoredRecoveryRequired) and UnclearRecoveryRequired (AmbiguousRecoveryRequired).
\<close>

datatype conditional_write =
    Written | Changed | WrittenRecoveryRequired string
  | NotWrittenRecoveryRequired string | UnclearRecoveryRequired string

section \<open>Redaction\<close>

definition sensitive_keys :: "string list" where
  "sensitive_keys = [''authorization_code'', ''code_verifier'', ''access_token'', ''refresh_token'',
                     ''id_token'', ''client_secret'']"

fun redact :: "json \<Rightarrow> json" where
  "redact (JObject obj) =
     JObject (map (\<lambda>(k, v). if k \<in> set sensitive_keys then (k, JString ''***'') else (k, redact v)) obj)"
| "redact (JArray arr) = JArray (map redact arr)"
| "redact v = v"

definition redact_sensitive_log_body :: "codec \<Rightarrow> json \<Rightarrow> string" where
  "redact_sensitive_log_body cd body = cd_print cd (redact body)"

lemmas [credential_defs] =
  validate_managed_auth_value_def validate_account_info_def validate_managed_auth_config_def
  forced_chatgpt_workspace_ids_def validate_complete_oauth_tokens_def apply_tokens_def

section \<open>Lemmas\<close>

lemma map_of_object_insert [simp]: "map_of (object_insert k v m) = (map_of m)(k \<mapsto> v)"
  by (induction m) (auto simp: fun_eq_iff)

lemma parse_auth_Inr: "parse_auth cd b = Inr v \<Longrightarrow> cd_parse cd b = Inr v"
  by (auto simp: parse_auth_def result_eq_Inr)

lemma validate_complete_oauth_tokens_Inr:
  "validate_complete_oauth_tokens i a r = Inr () \<longleftrightarrow> \<not> blank i \<and> \<not> blank a \<and> \<not> blank r"
  by (auto simp: validate_complete_oauth_tokens_def blank_def bail_def)

lemma apply_tokens_Inr:
  "apply_tokens stamp v i a r = Inr v' \<longleftrightarrow>
     (\<exists>obj tokens last_refresh.
        v = JObject obj \<and> map_of obj ''tokens'' = Some (JObject tokens) \<and> stamp = Inr last_refresh
        \<and> \<not> blank i \<and> \<not> blank a \<and> \<not> blank r
        \<and> v' = JObject (object_insert ''last_refresh'' (JString last_refresh)
                 (object_insert ''tokens'' (JObject
                    (object_insert ''refresh_token'' (JString r)
                      (object_insert ''access_token'' (JString a)
                        (object_insert ''id_token'' (JString i) tokens)))) obj)))"
  using validate_complete_oauth_tokens_Inr [of i a r]
  by (cases "validate_complete_oauth_tokens i a r")
    (auto simp: apply_tokens_def result_eq_Inr jget_Some bind_eq_Some_conv Let_def)

lemma refresh_token_apply_tokens:
  "apply_tokens stamp v i a r = Inr v' \<Longrightarrow> refresh_token v' = Some r"
  by (auto simp: apply_tokens_Inr refresh_token_def)

text \<open>The members of a value at every depth.\<close>

fun json_members :: "json \<Rightarrow> (string \<times> json) list" where
  "json_members (JObject obj) = concat (map (\<lambda>(k, v). (k, v) # json_members v) obj)"
| "json_members (JArray arr) = concat (map json_members arr)"
| "json_members v = []"

lemma redact_members:
  "(k, w) \<in> set (json_members (redact v)) \<Longrightarrow> k \<in> set sensitive_keys \<Longrightarrow> w = JString ''***''"
proof (induction v rule: redact.induct)
  case (1 obj)
  then show ?case by (fastforce split: if_splits)
next
  case (2 arr)
  then show ?case by auto
qed simp_all

lemma redact_idem: "redact (redact v) = redact v"
proof (induction v rule: redact.induct)
  case (1 obj)
  have "(\<lambda>(k, v). if k \<in> set sensitive_keys then (k, JString ''***'') else (k, redact v))
          (if fst p \<in> set sensitive_keys then (fst p, JString ''***'') else (fst p, redact (snd p)))
        = (if fst p \<in> set sensitive_keys then (fst p, JString ''***'') else (fst p, redact (snd p)))"
    if "p \<in> set obj" for p
    using 1 [OF that, of "fst p" "snd p"] by simp
  then show ?case by (simp add: case_prod_beta)
next
  case (2 arr)
  then show ?case by simp
qed simp_all

definition redactable :: "json \<Rightarrow> bool" where
  "redactable v \<longleftrightarrow> list_ex (\<lambda>p. fst p \<in> set sensitive_keys) (json_members v)"

lemma redactable_JObject:
  "redactable (JObject obj) \<longleftrightarrow>
     (\<exists>p\<in>set obj. fst p \<in> set sensitive_keys \<or> redactable (snd p))"
  by (auto simp: redactable_def list_ex_iff case_prod_beta)

lemma redactable_JArray: "redactable (JArray arr) \<longleftrightarrow> (\<exists>v\<in>set arr. redactable v)"
  by (auto simp: redactable_def list_ex_iff)

lemma redact_nothing: "\<not> redactable v \<Longrightarrow> redact v = v"
proof (induction v rule: redact.induct)
  case (1 obj)
  have "(case p of (k, v) \<Rightarrow> if k \<in> set sensitive_keys then (k, JString ''***'') else (k, redact v)) = p"
    if p: "p \<in> set obj" for p
    using 1(2) 1(1) [OF p, of "fst p" "snd p"] p
    by (cases p) (auto simp: redactable_JObject)
  then have "map (\<lambda>(k, v). if k \<in> set sensitive_keys then (k, JString ''***'') else (k, redact v)) obj
      = obj"
    by (rule map_idI)
  then show ?case by (simp only: redact.simps)
next
  case (2 arr)
  have "redact x = x" if "x \<in> set arr" for x
    using that 2(2) 2(1) [OF that] by (auto simp: redactable_JArray)
  then have "map redact arr = arr" by (rule map_idI)
  then show ?case by (simp only: redact.simps)
qed simp_all

lemma account_policy_spec:
  "validate_managed_auth_value cd (Inr (Some config)) auth = Inr () \<longleftrightarrow>
     \<not> api_login_forced config
     \<and> (\<exists>ids. forced_chatgpt_workspace_ids config = Inr ids
          \<and> (ids = [] \<or> (\<exists>i. ai_account_id (account_info_from_auth_value cd auth) = Some i
                             \<and> i \<in> set ids)))"
proof (cases "forced_chatgpt_workspace_ids config")
  case (Inl e)
  then show ?thesis
    by (simp add: validate_managed_auth_value_def validate_account_info_def
        validate_managed_auth_config_def bail_def)
next
  case (Inr ids)
  then show ?thesis
    by (cases "ai_account_id (account_info_from_auth_value cd auth)")
      (simp_all add: validate_managed_auth_value_def validate_account_info_def
        validate_managed_auth_config_def bail_def)
qed

end
