(* ===== verification/Auth_Publication.thy ===== *)
theory Auth_Publication
  imports Auth_Value
begin

text \<open>
  The conditional publication of the live credential (auth.rs, atomic_write_private_if_unchanged
  and its recovery), in its Unix form. A new credential replaces the live file only if that file
  is still the expected one, by an atomic exchange of names, while Codex itself may write, replace
  or delete the live file at any moment and the process may crash at any moment. A record file
  makes the transaction recoverable.

  Every call of the file system is one primitive operation. Before each of them the environment
  acts: it performs any number of foreign writes, and decides whether the operation works, fails,
  fails after having taken effect, or is never reached because the process stops. The theorems
  quantify over all such scripts.

  A file is its identity (the inode) with its bytes. The digest of a token is represented by the
  bytes it digests, so two tokens are equal exactly if their files are. The names of a
  transaction contain a fresh random nonce, so they are the slots of one transaction and start
  empty; a collision of names and its retry are not modelled. Removing a file (fs_ops.rs) is a
  check of its token and then an unlink of whatever has the name by then; the code first moves the
  file to a quarantine name and checks it there, and that name and the moves to it and back are
  not modelled. The three workers that make the staged files durable run one after the other. The text of the
  record is a parameter, and recovery is given the publication that the record describes. Not
  modelled: the guard of the private directory, the pruning of old backups after a publication
  (cleanup_old_backups), the permission check after it, and the Windows variant with its separate
  displaced name.

  The lemmas: what an operation keeps of an assertion follows its structure (keeps_intros) and the
  effects of the primitives (locale stable_assertion). The original credential, foreign files and
  the states of a transaction are three such assertions.
\<close>

section \<open>Files, foreign writers and the environment\<close>

type_synonym auth_file = "nat \<times> string"

text \<open>On Unix the displaced live file takes the candidate's name, so the two share a slot.\<close>

datatype slot =
    LiveFile | CandidateFile | StageFile | BackupFile | RecordFile
  | CandidateTemp | StageTemp | RecordTemp

definition slots :: "slot list" where
  "slots = [LiveFile, CandidateFile, StageFile, BackupFile, RecordFile, CandidateTemp, StageTemp,
            RecordTemp]"

text \<open>What Codex does to its own credential file: replace it, delete it, or write into an inode.\<close>

datatype foreign_action = ReplaceLive auth_file | DeleteLive | WriteInode nat string

datatype verdict = Works | Fails anyhow | FailsAfter anyhow | Stops

type_synonym interference = "foreign_action list \<times> verdict"

text \<open>
  The world: the files by name, the file that an open handle on the original live file shows, and
  the script of the environment. The other fields are there for the statements only: the original
  file, the inodes that were never public, whether a foreign writer has changed the original
  itself, every file a foreign writer has written, and every file it has written over. \<open>aw_doomed\<close>
  is the inode of a file that a removal has checked and not yet unlinked, and \<open>aw_raced\<close> lists what
  foreign writers wrote into such a file.
\<close>

record world =
  aw_files :: "slot \<Rightarrow> auth_file option"
  aw_handle :: auth_file
  aw_script :: "interference list"
  aw_original :: auth_file
  aw_private :: "nat list"
  aw_touched :: bool
  aw_written :: "auth_file list"
  aw_overwritten :: "auth_file list"
  aw_doomed :: "nat option"
  aw_raced :: "auth_file list"

definition inode_used :: "nat \<Rightarrow> world \<Rightarrow> bool" where
  "inode_used i w \<longleftrightarrow>
     list_ex (\<lambda>s. case aw_files w s of None \<Rightarrow> False | Some f \<Rightarrow> fst f = i) slots"

definition write_inode :: "nat \<Rightarrow> string \<Rightarrow> auth_file \<Rightarrow> auth_file" where
  "write_inode i bytes f = (if fst f = i then (i, bytes) else f)"

definition with_inode :: "nat \<Rightarrow> world \<Rightarrow> auth_file list" where
  "with_inode i w =
     filter (\<lambda>f. fst f = i) (List.map_filter (aw_files w) slots)"

fun foreign_step :: "foreign_action \<Rightarrow> world \<Rightarrow> world" where
  "foreign_step (ReplaceLive f) w =
     (if inode_used (fst f) w \<or> fst f \<in> set (aw_private w) then w
      else w\<lparr>aw_files := (aw_files w)(LiveFile := Some f),
             aw_touched := aw_touched w \<or> aw_files w LiveFile = Some (aw_original w),
             aw_written := f # aw_written w,
             aw_overwritten := List.map_filter (aw_files w) [LiveFile] @ aw_overwritten w\<rparr>)"
| "foreign_step DeleteLive w =
     w\<lparr>aw_files := (aw_files w)(LiveFile := None),
       aw_touched := aw_touched w \<or> aw_files w LiveFile = Some (aw_original w),
       aw_overwritten := List.map_filter (aw_files w) [LiveFile] @ aw_overwritten w\<rparr>"
| "foreign_step (WriteInode i bytes) w =
     (if i \<in> set (aw_private w) then w
      else w\<lparr>aw_files := (\<lambda>s. map_option (write_inode i bytes) (aw_files w s)),
             aw_handle := write_inode i bytes (aw_handle w),
             aw_touched := aw_touched w \<or> i = fst (aw_original w),
             aw_written := map (write_inode i bytes) (with_inode i w) @ aw_written w,
             aw_overwritten := with_inode i w @ aw_overwritten w,
             aw_raced := (if aw_doomed w = Some i then map (write_inode i bytes) (with_inode i w) else [])
               @ aw_raced w\<rparr>)"

section \<open>Operations\<close>

datatype 'a outcome = Ok 'a | Err anyhow | Crashed

type_synonym 'a op = "world \<Rightarrow> 'a outcome \<times> world"

definition done_with :: "'a \<Rightarrow> 'a op" where
  "done_with x w = (Ok x, w)"

definition fail :: "anyhow \<Rightarrow> 'a op" where
  "fail e w = (Err e, w)"

definition seq :: "'a op \<Rightarrow> ('a \<Rightarrow> 'b op) \<Rightarrow> 'b op" where
  "seq m f w = (case m w of
      (Ok x, w') \<Rightarrow> f x w' | (Err e, w') \<Rightarrow> (Err e, w') | (Crashed, w') \<Rightarrow> (Crashed, w'))"

definition attempt :: "'a op \<Rightarrow> 'a result op" where
  "attempt m w = (case m w of
      (Ok x, w') \<Rightarrow> (Ok (Inr x), w') | (Err e, w') \<Rightarrow> (Ok (Inl e), w') | (Crashed, w') \<Rightarrow> (Crashed, w'))"

definition primitive :: "(world \<Rightarrow> 'a result \<times> world) \<Rightarrow> 'a op" where
  "primitive f w =
     (case aw_script w of
        [] \<Rightarrow> (case f w of (Inr x, w') \<Rightarrow> (Ok x, w') | (Inl e, w') \<Rightarrow> (Err e, w'))
      | (actions, verdict) # rest \<Rightarrow>
          let w = fold foreign_step actions (w\<lparr>aw_script := rest\<rparr>)
          in case verdict of
               Works \<Rightarrow> (case f w of (Inr x, w') \<Rightarrow> (Ok x, w') | (Inl e, w') \<Rightarrow> (Err e, w'))
             | Fails e \<Rightarrow> (Err e, w)
             | FailsAfter e \<Rightarrow> (Err e, snd (f w))
             | Stops \<Rightarrow> (Crashed, w))"

definition set_slot :: "slot \<Rightarrow> auth_file option \<Rightarrow> world \<Rightarrow> world" where
  "set_slot s f w = w\<lparr>aw_files := (aw_files w)(s := f)\<rparr>"

text \<open>The calls of fs_ops.rs, as far as the protocol relies on them.\<close>

definition token_if_present :: "slot \<Rightarrow> auth_file option op" where
  "token_if_present s = primitive (\<lambda>w. (Inr (aw_files w s), w))"

definition token_for_handle :: "auth_file op" where
  "token_for_handle = primitive (\<lambda>w. (Inr (aw_handle w), w))"

definition sync_parent :: "unit op" where
  "sync_parent = primitive (\<lambda>w. (Inr (), w))"

definition create_file :: "slot \<Rightarrow> auth_file \<Rightarrow> unit op" where
  "create_file s f = primitive (\<lambda>w.
     if aw_files w s = None then (Inr (), set_slot s (Some f) w) else (bail ''File exists'', w))"

definition rename_noreplace :: "slot \<Rightarrow> slot \<Rightarrow> unit op" where
  "rename_noreplace a b = primitive (\<lambda>w.
     case (aw_files w a, aw_files w b) of
       (Some f, None) \<Rightarrow> (Inr (), set_slot a None (set_slot b (Some f) w))
     | (None, _) \<Rightarrow> (bail ''No such file or directory'', w)
     | (Some _, Some _) \<Rightarrow> (bail ''File exists'', w))"

definition exchange_files :: "slot \<Rightarrow> slot \<Rightarrow> unit op" where
  "exchange_files a b = primitive (\<lambda>w.
     case (aw_files w a, aw_files w b) of
       (Some f, Some g) \<Rightarrow> (Inr (), set_slot a (Some g) (set_slot b (Some f) w))
     | _ \<Rightarrow> (bail ''No such file or directory'', w))"

text \<open>
  A removal checks the token and then unlinks the name, as two calls: what others write into the
  file in between goes with it. The answer says whether the removal is known to be durable.
\<close>

definition ensure_path_token :: "slot \<Rightarrow> auth_file \<Rightarrow> unit op" where
  "ensure_path_token s expected = primitive (\<lambda>w.
     if aw_files w s = Some expected then (Inr (), w\<lparr>aw_doomed := Some (fst expected)\<rparr>)
     else (bail ''removal source changed'', w))"

definition remove_file :: "slot \<Rightarrow> unit op" where
  "remove_file s = primitive (\<lambda>w.
     if aw_files w s = None then (bail ''No such file or directory'', w)
     else (Inr (), set_slot s None w))"

text \<open>The removal is over, whatever came of it; nothing happens to the files.\<close>

definition removal_over :: "unit op" where
  "removal_over w = (Ok (), w\<lparr>aw_doomed := None\<rparr>)"

definition remove_exact :: "slot \<Rightarrow> auth_file \<Rightarrow> bool op" where
  "remove_exact s expected =
     seq (attempt (seq (ensure_path_token s expected) (\<lambda>_. remove_file s))) (\<lambda>removed.
     seq removal_over (\<lambda>_.
       case removed of
         Inl e \<Rightarrow> fail e
       | Inr _ \<Rightarrow> seq (attempt sync_parent) (\<lambda>synced. done_with (is_ok synced))))"

text \<open>The first error of a boundary and a default, as the source combines them.\<close>

definition boundary_error :: "'a result \<Rightarrow> string \<Rightarrow> anyhow" where
  "boundary_error boundary message = (case boundary of Inl e \<Rightarrow> e | Inr _ \<Rightarrow> [message])"

definition add_context :: "string \<Rightarrow> 'a op \<Rightarrow> 'a op" where
  "add_context c m = seq (attempt m) (\<lambda>r. case r of Inr x \<Rightarrow> done_with x | Inl e \<Rightarrow> fail (c # e))"

definition remove_bound_path :: "slot \<Rightarrow> auth_file \<Rightarrow> unit op" where
  "remove_bound_path s expected =
     seq (attempt (remove_exact s expected)) (\<lambda>boundary.
     seq (token_if_present s) (\<lambda>after.
       case after of
         None \<Rightarrow>
           (case boundary of
              Inr True \<Rightarrow> done_with ()
            | Inr False \<Rightarrow> add_context ''the exact file disappeared, but its removal is not durably confirmed''
                             sync_parent
            | Inl e \<Rightarrow> fail (''the exact path disappeared during failed token-bound cleanup'' # e))
       | Some observed \<Rightarrow>
           if observed = expected
           then fail (boundary_error boundary ''exact file remained after a successful removal boundary'')
           else fail [''refusing to remove replacement'']))"

section \<open>Settling a publication\<close>

text \<open>The parsed record: the tokens of the three files, and of the record itself.\<close>

record publication =
  pb_expected :: auth_file
  pb_candidate :: auth_file
  pb_backup :: auth_file
  pb_record :: auth_file

datatype settlement =
    Published | LiveUnchanged | PublishedRecoveryRequired string
  | RestoredRecoveryRequired string | AmbiguousRecoveryRequired string

datatype inode_observation = Unavailable | Unchanged | ChangedTo auth_file | UnreadableInode anyhow

definition harden_private_file :: "slot \<Rightarrow> unit op" where
  "harden_private_file s =
     seq (add_context ''setting private permissions'' (primitive (\<lambda>w. (Inr (), w)))) (\<lambda>_. sync_parent)"

definition remove_publication_record :: "publication \<Rightarrow> unit op" where
  "remove_publication_record p = remove_bound_path RecordFile (pb_record p)"

definition cleanup_unpublished_auth :: "publication \<Rightarrow> unit op" where
  "cleanup_unpublished_auth p =
     seq (token_if_present StageFile) (\<lambda>backup_stage.
     seq (token_if_present BackupFile) (\<lambda>backup.
       if backup \<noteq> None
       then fail [''refusing to abort an auth publication after its retained backup appeared'']
       else seq (case backup_stage of
                   None \<Rightarrow> done_with ()
                 | Some observed \<Rightarrow>
                     if observed = pb_backup p then remove_bound_path StageFile (pb_backup p)
                     else fail [''refusing to remove a replacement''])
         (\<lambda>_. seq (token_if_present CandidateFile) (\<lambda>candidate.
              seq (case candidate of
                     None \<Rightarrow> done_with ()
                   | Some observed \<Rightarrow>
                       if observed = pb_candidate p then remove_bound_path CandidateFile (pb_candidate p)
                       else fail [''refusing to remove a replacement''])
                (\<lambda>_. remove_publication_record p)))))"

text \<open>The staged backup takes its final name, unless it already has it.\<close>

definition promote_backup :: "publication \<Rightarrow> auth_file option \<Rightarrow> auth_file option \<Rightarrow> unit op" where
  "promote_backup p stage backup =
     (if stage = Some (pb_backup p) \<and> backup = None
      then seq (attempt (rename_noreplace StageFile BackupFile)) (\<lambda>boundary.
           seq (token_if_present StageFile) (\<lambda>stage_after.
           seq (token_if_present BackupFile) (\<lambda>backup_after.
             if backup_after \<noteq> Some (pb_backup p) \<or> stage_after \<noteq> None
             then fail (boundary_error boundary ''independent backup promotion left unclassified state'')
             else add_context ''the independent backup is visible, but its namespace commit is not durable''
                    sync_parent)))
      else if stage = None \<and> backup = Some (pb_backup p) then sync_parent
      else fail [''independent auth backup cannot be finalized without adopting or replacing another file''])"

text \<open>The outcome says whether the candidate was still live before the record was removed.\<close>

definition finalize_independent_backup :: "publication \<Rightarrow> bool op" where
  "finalize_independent_backup p =
     (if snd (pb_backup p) \<noteq> snd (pb_expected p)
      then fail [''independent auth backup does not match the expected live credential'']
      else
      seq sync_parent (\<lambda>_.
      seq (token_if_present CandidateFile) (\<lambda>displaced.
      seq (case displaced of
             None \<Rightarrow> done_with ()
           | Some token \<Rightarrow>
               if token = pb_expected p
               then add_context ''removing the exact displaced live credential''
                      (remove_bound_path CandidateFile (pb_expected p))
               else fail [''the actual displaced live credential changed after publication''])
        (\<lambda>_.
      seq (token_if_present StageFile) (\<lambda>stage.
      seq (token_if_present BackupFile) (\<lambda>backup.
      seq (promote_backup p stage backup)
        (\<lambda>_.
      seq (harden_private_file BackupFile) (\<lambda>_.
      seq (token_if_present LiveFile) (\<lambda>live.
      seq (remove_publication_record p) (\<lambda>_.
        done_with (live = Some (pb_candidate p))))))))))))"

definition restore_foreign_live :: "publication \<Rightarrow> auth_file \<Rightarrow> unit op" where
  "restore_foreign_live p foreign =
     seq (token_if_present LiveFile) (\<lambda>live_before.
     seq (token_if_present CandidateFile) (\<lambda>displaced_before.
       if live_before \<noteq> Some (pb_candidate p) \<or> displaced_before \<noteq> Some foreign
       then fail [''live or displaced auth changed before exact restoration'']
       else
       seq (attempt (exchange_files CandidateFile LiveFile)) (\<lambda>boundary.
       seq (token_if_present LiveFile) (\<lambda>live_after.
       seq (token_if_present CandidateFile) (\<lambda>candidate_after.
         if live_after = Some foreign \<and> candidate_after = Some (pb_candidate p)
         then seq (add_context ''the foreign live credential was visibly restored, but durability is unconfirmed''
                     sync_parent)
                (\<lambda>_. cleanup_unpublished_auth p)
         else fail (boundary_error boundary ''exchange-back post-state changed before exact restoration''))))))"

definition settled :: "'a op \<Rightarrow> ('a \<Rightarrow> settlement) \<Rightarrow> (string \<Rightarrow> settlement) \<Rightarrow> string \<Rightarrow> settlement op" where
  "settled m success failure message =
     seq (attempt m) (\<lambda>r. done_with (case r of
        Inr x \<Rightarrow> success x
      | Inl e \<Rightarrow> failure (message @ '': '' @ show_chain e)))"

definition settle_auth_publication :: "publication \<Rightarrow> inode_observation \<Rightarrow> settlement op" where
  "settle_auth_publication p observation =
     seq (token_if_present LiveFile) (\<lambda>live.
     seq (token_if_present CandidateFile) (\<lambda>candidate.
     seq (token_if_present StageFile) (\<lambda>backup_stage.
     seq (token_if_present BackupFile) (\<lambda>backup.
       let displaced = candidate;
           backup_waiting = (backup_stage = Some (pb_backup p) \<and> backup = None);
           backup_retained = (backup_stage = None \<and> backup = Some (pb_backup p));
           backup_ready = (backup_waiting \<or> backup_retained)
       in
       if live = Some (pb_candidate p) then
         (if backup_ready \<and> (displaced = Some (pb_expected p) \<or> displaced = None)
          then settled (finalize_independent_backup p)
                 (\<lambda>still_live. if still_live then Published else LiveUnchanged)
                 PublishedRecoveryRequired
                 ''new live auth is published, but its independent recovery backup is incomplete''
          else if backup_waiting \<and> displaced \<notin> {None, Some (pb_expected p), Some (pb_candidate p)}
          then (case observation of
                  Unchanged \<Rightarrow>
                    settled (restore_foreign_live p (the displaced)) (\<lambda>_. LiveUnchanged)
                      RestoredRecoveryRequired
                      ''conditional auth publication encountered a foreign writer, but exact restoration or cleanup is incomplete''
                | ChangedTo _ \<Rightarrow> done_with (PublishedRecoveryRequired
                    ''new live auth is published, but the previously-open live credential was modified after the exchange'')
                | UnreadableInode e \<Rightarrow> done_with (PublishedRecoveryRequired
                    (''new live auth is published, but the previously-open live credential could not be revalidated after the exchange: '' @ show_chain e))
                | Unavailable \<Rightarrow> done_with (PublishedRecoveryRequired
                    ''new live auth is published, but recovery cannot distinguish a pre-exchange foreign writer from a post-exchange mutation of the displaced credential''))
          else done_with (PublishedRecoveryRequired
                 ''new live auth is visible, but transaction artifacts no longer match the expected displaced credential''))
       else if displaced = Some (pb_expected p) \<and> backup_ready then
         settled (finalize_independent_backup p) (\<lambda>_. LiveUnchanged) AmbiguousRecoveryRequired
           ''the conditional candidate was published but is no longer live, and recovery finalization is incomplete''
       else if candidate = Some (pb_candidate p) \<and> \<not> backup_retained
             \<and> (backup_stage = None \<or> backup_stage = Some (pb_backup p)) then
         settled (cleanup_unpublished_auth p) (\<lambda>_. LiveUnchanged) RestoredRecoveryRequired
           ''live auth was not replaced, but exact private transaction cleanup is incomplete''
       else if candidate = None \<and> displaced = None \<and> backup_stage = None \<and> backup = None then
         settled (remove_publication_record p) (\<lambda>_. LiveUnchanged) RestoredRecoveryRequired
           ''auth transaction artifacts were already cleaned, but the exact recovery record remains''
       else if live = Some (pb_expected p) \<and> candidate = None \<and> displaced = None \<and> backup_waiting then
         settled (cleanup_unpublished_auth p) (\<lambda>_. LiveUnchanged) RestoredRecoveryRequired
           ''the original live auth is intact, but exact private transaction cleanup is incomplete''
       else done_with (AmbiguousRecoveryRequired
         ''auth publication state cannot be classified without risking credential loss; every artifact was preserved'')))))"

text \<open>
  Recovery after a crash: the tokens are read back from the record, which names them, so the
  record of the interrupted publication is the argument; a record with another token is another
  transaction's and out of scope.
\<close>

definition recover_interrupted_auth_publication :: "publication \<Rightarrow> unit op" where
  "recover_interrupted_auth_publication p =
     seq (token_if_present RecordFile) (\<lambda>record_token.
       if record_token \<noteq> Some (pb_record p) then done_with ()
       else seq (settle_auth_publication p Unavailable) (\<lambda>r.
         case r of
           Published \<Rightarrow> done_with ()
         | LiveUnchanged \<Rightarrow> done_with ()
         | PublishedRecoveryRequired message \<Rightarrow> fail [message]
         | RestoredRecoveryRequired message \<Rightarrow> fail [message]
         | AmbiguousRecoveryRequired message \<Rightarrow> fail [message]))"

section \<open>The conditional write\<close>

definition conditional_write_from_settlement ::
  "settlement \<Rightarrow> unit result option \<Rightarrow> conditional_write result" where
  "conditional_write_from_settlement settlement boundary =
     (case settlement of
        Published \<Rightarrow> Inr Written
      | LiveUnchanged \<Rightarrow>
          (case boundary of
             Some (Inl e) \<Rightarrow> Inl (''auth publication boundary failed and exact recovery restored it'' # e)
           | _ \<Rightarrow> Inr Changed)
      | PublishedRecoveryRequired message \<Rightarrow> Inr (WrittenRecoveryRequired message)
      | RestoredRecoveryRequired message \<Rightarrow> Inr (NotWrittenRecoveryRequired message)
      | AmbiguousRecoveryRequired message \<Rightarrow> Inr (UnclearRecoveryRequired message))"

definition lift_result :: "'a result \<Rightarrow> 'a op" where
  "lift_result r = (case r of Inr x \<Rightarrow> done_with x | Inl e \<Rightarrow> fail e)"

text \<open>
  Files owned by the process are removed again when it gives up, errors of the removal being only
  logged. A moved file may have lost its known place (\<open>None\<close>); then it is left alone.
\<close>

fun drop_owned :: "(slot \<times> auth_file) list \<Rightarrow> unit op" where
  "drop_owned [] = done_with ()"
| "drop_owned ((s, f) # rest) = seq (attempt (remove_bound_path s f)) (\<lambda>_. drop_owned rest)"

definition dropping :: "(slot \<times> auth_file) list \<Rightarrow> 'a op \<Rightarrow> 'a op" where
  "dropping owned m =
     seq (attempt m) (\<lambda>r. case r of
       Inr x \<Rightarrow> done_with x | Inl e \<Rightarrow> seq (drop_owned owned) (\<lambda>_. fail e))"

text \<open>
  Syncing a file and checking it twice, through its handle and through its path. Only the live
  name is ever replaced by others, so here the handle and the path show the same file.
\<close>

definition make_durable :: "slot \<Rightarrow> auth_file \<Rightarrow> unit op" where
  "make_durable s f =
     seq (add_context ''syncing private transaction file'' sync_parent) (\<lambda>_.
     seq (token_if_present s) (\<lambda>handle_token.
       if handle_token \<noteq> Some f
       then fail [''private transaction file changed while it was made durable'']
       else
     seq (token_if_present s) (\<lambda>path_token.
       if path_token \<noteq> Some f
       then fail [''private transaction path changed while it was made durable'']
       else done_with ())))"

text \<open>Staging the candidate, the backup and the record under temporary names, made durable.\<close>

definition stage_publication :: "publication \<Rightarrow> unit op" where
  "stage_publication p =
     seq (create_file CandidateTemp (pb_candidate p)) (\<lambda>_.
     dropping [(CandidateTemp, pb_candidate p)] (
     seq (create_file StageTemp (pb_backup p)) (\<lambda>_.
     dropping [(StageTemp, pb_backup p)] (
     seq (create_file RecordTemp (pb_record p)) (\<lambda>_.
     dropping [(RecordTemp, pb_record p)] (
     seq (attempt (make_durable CandidateTemp (pb_candidate p))) (\<lambda>candidate.
     seq (attempt (make_durable StageTemp (pb_backup p))) (\<lambda>backup.
     seq (attempt (make_durable RecordTemp (pb_record p))) (\<lambda>record_result.
     seq (lift_result (with_context ''making auth candidate durable'' candidate)) (\<lambda>_.
     seq (lift_result (with_context ''making auth backup durable'' backup)) (\<lambda>_.
     seq (lift_result (with_context ''making auth record durable'' record_result)) (\<lambda>_.
     seq (token_if_present LiveFile) (\<lambda>live.
       if live = Some (pb_expected p) then done_with ()
       else fail [''auth source changed while its durable publication prerequisites were prepared''])))))))))))))"

text \<open>The error of the move, if any, and where the file is now.\<close>

definition move_owned_noreplace ::
  "slot \<Rightarrow> slot \<Rightarrow> auth_file \<Rightarrow> (anyhow option \<times> slot option) op" where
  "move_owned_noreplace source destination token =
     seq (attempt (rename_noreplace source destination)) (\<lambda>boundary.
     seq (attempt (token_if_present source)) (\<lambda>source_after.
     seq (attempt (token_if_present destination)) (\<lambda>destination_after.
       case (source_after, destination_after) of
         (Inl e, _) \<Rightarrow> done_with (Some e, Some source)
       | (_, Inl e) \<Rightarrow> done_with (Some e, Some source)
       | (Inr at_source, Inr at_destination) \<Rightarrow>
           if at_destination = Some token \<and> at_source = None
           then seq (attempt sync_parent) (\<lambda>synced. done_with
                  (case synced of
                     Inr _ \<Rightarrow> None
                   | Inl e \<Rightarrow> Some (''owned no-replace move became visible but was not durably confirmed''
                        # (case boundary of Inl e \<Rightarrow> e | Inr _ \<Rightarrow> e)),
                   Some destination))
           else if at_source = Some token
           then done_with (Some (boundary_error boundary ''no-replace destination was occupied concurrently''),
                           Some source)
           else done_with (Some (boundary_error boundary ''owned no-replace move left unclassified paths''),
                           None))))"

definition owned_at :: "slot option \<Rightarrow> auth_file \<Rightarrow> (slot \<times> auth_file) list" where
  "owned_at place f = (case place of None \<Rightarrow> [] | Some s \<Rightarrow> [(s, f)])"

definition prepare_existing_auth_publication :: "publication \<Rightarrow> unit op" where
  "prepare_existing_auth_publication p =
     seq (stage_publication p) (\<lambda>_.
     seq (move_owned_noreplace CandidateTemp CandidateFile (pb_candidate p)) (\<lambda>(moved, candidate_at).
       case moved of
         Some e \<Rightarrow>
           seq (drop_owned ([(RecordTemp, pb_record p), (StageTemp, pb_backup p)]
                  @ owned_at candidate_at (pb_candidate p)))
             (\<lambda>_. fail (''preparing strict auth candidate'' # e))
       | None \<Rightarrow>
           seq (move_owned_noreplace StageTemp StageFile (pb_backup p)) (\<lambda>(moved, backup_at).
             case moved of
               Some e \<Rightarrow>
                 seq (drop_owned ((RecordTemp, pb_record p) # owned_at backup_at (pb_backup p)
                        @ owned_at candidate_at (pb_candidate p)))
                   (\<lambda>_. fail (''preparing independent auth recovery copy'' # e))
             | None \<Rightarrow> done_with ())))"

text \<open>The error when the record became visible but not durable.\<close>

definition classify_published ::
  "publication \<Rightarrow> unit result \<Rightarrow> auth_file option result \<Rightarrow> auth_file option result \<Rightarrow> anyhow option op" where
  "classify_published p boundary source_after destination_after =
     (case (source_after, destination_after) of
         (Inl e, _) \<Rightarrow> seq (drop_owned [(RecordTemp, pb_record p)]) (\<lambda>_. fail e)
       | (_, Inl e) \<Rightarrow> seq (drop_owned [(RecordTemp, pb_record p)]) (\<lambda>_. fail e)
       | (Inr at_source, Inr at_destination) \<Rightarrow>
           if at_destination = Some (pb_record p) \<and> at_source = None
           then seq (attempt sync_parent) (\<lambda>synced. done_with
                  (case synced of
                     Inr _ \<Rightarrow> None
                   | Inl e \<Rightarrow> Some (case boundary of Inl e \<Rightarrow> e | Inr _ \<Rightarrow> e)))
           else if at_source = Some (pb_record p)
           then seq (drop_owned [(RecordTemp, pb_record p)])
                  (\<lambda>_. fail (boundary_error boundary ''fixed auth publication record was claimed concurrently''))
           else fail (boundary_error boundary ''auth publication record boundary left unclassified state''))"

definition publish_record_exclusive :: "publication \<Rightarrow> anyhow option op" where
  "publish_record_exclusive p =
     seq (attempt (rename_noreplace RecordTemp RecordFile)) (\<lambda>boundary.
     seq (attempt (token_if_present RecordTemp)) (\<lambda>source_after.
     seq (attempt (token_if_present RecordFile)) (\<lambda>destination_after.
       classify_published p boundary source_after destination_after)))"

definition open_live :: "unit op" where
  "open_live = primitive (\<lambda>w. case aw_files w LiveFile of
     Some f \<Rightarrow> (Inr (), w\<lparr>aw_handle := f\<rparr>)
   | None \<Rightarrow> (bail ''No such file or directory'', w))"

definition settle_and_convert :: "publication \<Rightarrow> inode_observation \<Rightarrow> unit result option \<Rightarrow> conditional_write op" where
  "settle_and_convert p observation boundary =
     seq (settle_auth_publication p observation) (\<lambda>settlement.
       lift_result (conditional_write_from_settlement settlement boundary))"

text \<open>From the published record to the outcome: the exchange between two exact checks.\<close>

definition exchange_and_settle :: "publication \<Rightarrow> conditional_write op" where
  "exchange_and_settle p =
     seq (attempt open_live) (\<lambda>opened. case opened of
       Inl e \<Rightarrow>
         seq (settle_and_convert p Unavailable None) (\<lambda>cleanup.
           if cleanup = Changed
           then fail (''opening the exact live auth witness before publication'' # e)
           else done_with cleanup)
     | Inr _ \<Rightarrow>
         seq token_for_handle (\<lambda>handle_before.
         if handle_before \<noteq> pb_expected p then settle_and_convert p Unavailable None
         else
         seq (token_if_present LiveFile) (\<lambda>live_before.
         seq token_for_handle (\<lambda>handle_again.
         if live_before \<noteq> Some (pb_expected p) \<or> handle_again \<noteq> pb_expected p
         then settle_and_convert p Unavailable None
         else
         seq (attempt (exchange_files CandidateFile LiveFile)) (\<lambda>boundary.
         seq (attempt token_for_handle) (\<lambda>handle_after.
         seq (attempt (settle_auth_publication p
                (case handle_after of
                   Inr observed \<Rightarrow> if observed = pb_expected p then Unchanged else ChangedTo observed
                 | Inl e \<Rightarrow> UnreadableInode e)))
           (\<lambda>settlement. case settlement of
              Inl e \<Rightarrow> done_with (UnclearRecoveryRequired
                (''auth publication boundary could not classify every preserved path: '' @ show_chain e))
            | Inr settlement \<Rightarrow>
                lift_result (conditional_write_from_settlement settlement (Some boundary)))))))))"

text \<open>Creating the live file where there is none.\<close>

definition create_if_absent :: "publication \<Rightarrow> conditional_write op" where
  "create_if_absent p =
     seq (seq (create_file CandidateTemp (pb_candidate p)) (\<lambda>_.
       dropping [(CandidateTemp, pb_candidate p)] (make_durable CandidateTemp (pb_candidate p)))) (\<lambda>_.
     seq (attempt (rename_noreplace CandidateTemp LiveFile)) (\<lambda>boundary.
     seq (attempt (token_if_present CandidateTemp)) (\<lambda>source_after.
     seq (attempt (token_if_present LiveFile)) (\<lambda>destination_after.
       case (source_after, destination_after) of
         (Inl e, _) \<Rightarrow> seq (drop_owned [(CandidateTemp, pb_candidate p)]) (\<lambda>_. fail e)
       | (_, Inl e) \<Rightarrow> seq (drop_owned [(CandidateTemp, pb_candidate p)]) (\<lambda>_. fail e)
       | (Inr at_source, Inr at_live) \<Rightarrow>
           if at_live = Some (pb_candidate p) \<and> at_source = None
           then seq (attempt sync_parent) (\<lambda>synced. done_with
                  (case synced of
                     Inr _ \<Rightarrow> Written
                   | Inl e \<Rightarrow> WrittenRecoveryRequired
                       (''new auth is visible, but its namespace commit could not be durably confirmed: ''
                         @ show_chain (case boundary of Inl e \<Rightarrow> e | Inr _ \<Rightarrow> e))))
           else if at_source = Some (pb_candidate p)
           then seq (drop_owned [(CandidateTemp, pb_candidate p)]) (\<lambda>_.
                  if at_live \<noteq> None then done_with Changed
                  else fail (boundary_error boundary ''no-replace auth publication made no namespace change''))
           else done_with (UnclearRecoveryRequired
             (''no-replace auth publication left unclassified state: ''
               @ show_chain (boundary_error boundary ''post-state changed after successful rename'')))))))"

text \<open>
  The whole write. The inodes of the three new files and the text of the record are drawn by the
  system; the transaction's tokens follow from them and from the live file that is found.
\<close>

definition publication_of :: "nat \<times> nat \<times> nat \<Rightarrow> string \<Rightarrow> string \<Rightarrow> auth_file \<Rightarrow> publication" where
  "publication_of inodes contents record_text expected =
     \<lparr>pb_expected = expected, pb_candidate = (fst inodes, contents),
      pb_backup = (fst (snd inodes), snd expected), pb_record = (snd (snd inodes), record_text)\<rparr>"

definition replace_expected :: "publication \<Rightarrow> conditional_write op" where
  "replace_expected p =
     seq (prepare_existing_auth_publication p) (\<lambda>_.
     seq (attempt (publish_record_exclusive p)) (\<lambda>published. case published of
         Inl e \<Rightarrow>
           seq (drop_owned [(StageFile, pb_backup p), (CandidateFile, pb_candidate p)]) (\<lambda>_. fail e)
       | Inr (Some e) \<Rightarrow> done_with (NotWrittenRecoveryRequired
           (''live auth was not replaced, but the fixed recovery record became visible without durable confirmation: ''
             @ show_chain e))
       | Inr None \<Rightarrow> exchange_and_settle p))"

definition publish_conditionally ::
  "nat \<times> nat \<times> nat \<Rightarrow> string \<Rightarrow> string option \<Rightarrow> string \<Rightarrow> conditional_write op" where
  "publish_conditionally inodes record_text expected contents =
     (case expected of
        None \<Rightarrow> create_if_absent (publication_of inodes contents record_text (0, []))
      | Some expected_bytes \<Rightarrow>
          seq (token_if_present LiveFile) (\<lambda>live.
            case live of
              None \<Rightarrow> done_with Changed
            | Some token \<Rightarrow>
                if snd token \<noteq> expected_bytes then done_with Changed
                else replace_expected (publication_of inodes contents record_text token)))"

text \<open>The write first recovers an earlier publication, if there is a record of one.\<close>

definition atomic_write_private_if_unchanged ::
  "publication \<Rightarrow> nat \<times> nat \<times> nat \<Rightarrow> string \<Rightarrow> string option \<Rightarrow> string \<Rightarrow> conditional_write op" where
  "atomic_write_private_if_unchanged earlier inodes record_text expected contents =
     seq (add_context ''an earlier auth publication requires recovery before another write''
            (recover_interrupted_auth_publication earlier))
       (\<lambda>_. publish_conditionally inodes record_text expected contents)"

section \<open>Reasoning about runs\<close>

text \<open>
  A triple speaks of all runs of an operation from worlds with \<open>A\<close>: when it returns \<open>x\<close> then
  \<open>Q x\<close> holds, and when it fails or stops then \<open>C\<close> holds.
\<close>

definition triple :: "(world \<Rightarrow> bool) \<Rightarrow> 'a op \<Rightarrow> ('a \<Rightarrow> world \<Rightarrow> bool) \<Rightarrow> (world \<Rightarrow> bool) \<Rightarrow> bool" where
  "triple A m Q C \<longleftrightarrow>
     (\<forall>w. A w \<longrightarrow> (case m w of (Ok x, w') \<Rightarrow> Q x w' | (Err _, w') \<Rightarrow> C w' | (Crashed, w') \<Rightarrow> C w'))"

definition keeps :: "(world \<Rightarrow> bool) \<Rightarrow> 'a op \<Rightarrow> bool" where
  "keeps A m \<longleftrightarrow> (\<forall>w. A w \<longrightarrow> A (snd (m w)))"

lemma triple_done: "(\<And>w. A w \<Longrightarrow> Q x w) \<Longrightarrow> triple A (done_with x) Q C"
  by (simp add: triple_def done_with_def)

lemma triple_fail: "(\<And>w. A w \<Longrightarrow> C w) \<Longrightarrow> triple A (fail e) Q C"
  by (simp add: triple_def fail_def)

lemma triple_seq:
  "triple A m R C \<Longrightarrow> (\<And>x. triple (R x) (f x) Q C) \<Longrightarrow> triple A (seq m f) Q C"
  by (fastforce simp: triple_def seq_def split: prod.splits outcome.splits)

lemma triple_attempt:
  "triple A m (\<lambda>x. Q (Inr x)) (\<lambda>w. C w \<and> (\<forall>e. Q (Inl e) w)) \<Longrightarrow> triple A (attempt m) Q C"
  by (fastforce simp: triple_def attempt_def split: prod.splits outcome.splits)

lemma triple_mono:
  "triple A m Q C \<Longrightarrow> (\<And>w. A' w \<Longrightarrow> A w) \<Longrightarrow> (\<And>x w. Q x w \<Longrightarrow> Q' x w) \<Longrightarrow> (\<And>w. C w \<Longrightarrow> C' w) \<Longrightarrow>
     triple A' m Q' C'"
  by (fastforce simp: triple_def split: prod.splits outcome.splits)

lemma triple_keeps: "keeps A m \<Longrightarrow> triple A m (\<lambda>_. A) A"
  by (auto simp: keeps_def triple_def split: prod.splits outcome.splits)

lemma keeps_triple:
  assumes "triple A m (\<lambda>_. A) A"
  shows "keeps A m"
  unfolding keeps_def
proof (intro allI impI)
  fix w
  assume "A w"
  with assms show "A (snd (m w))"
    by (cases "m w"; cases "fst (m w)") (auto simp: triple_def dest!: spec [of _ w])
qed

lemma triple_final: "triple A m (\<lambda>_. B) B \<Longrightarrow> A w \<Longrightarrow> B (snd (m w))"
  by (cases "m w"; cases "fst (m w)") (auto simp: triple_def dest!: spec [of _ w])

named_theorems keeps_intros "what an operation keeps, by its structure"

lemma keeps_done [keeps_intros]: "keeps A (done_with x)"
  by (simp add: keeps_def done_with_def)

lemma keeps_fail [keeps_intros]: "keeps A (fail e)"
  by (simp add: keeps_def fail_def)

lemma keeps_seq [keeps_intros]: "keeps A m \<Longrightarrow> (\<And>x. keeps A (f x)) \<Longrightarrow> keeps A (seq m f)"
  by (fastforce simp: keeps_def seq_def split: prod.splits outcome.splits)

lemma keeps_attempt [keeps_intros]: "keeps A m \<Longrightarrow> keeps A (attempt m)"
  by (fastforce simp: keeps_def attempt_def split: prod.splits outcome.splits)

lemma keeps_if [keeps_intros]: "(b \<Longrightarrow> keeps A m) \<Longrightarrow> (\<not> b \<Longrightarrow> keeps A n) \<Longrightarrow> keeps A (if b then m else n)"
  by simp

lemma keeps_option [keeps_intros]:
  "(x = None \<Longrightarrow> keeps A m) \<Longrightarrow> (\<And>y. x = Some y \<Longrightarrow> keeps A (n y)) \<Longrightarrow>
     keeps A (case x of None \<Rightarrow> m | Some y \<Rightarrow> n y)"
  by (cases x) auto

lemma keeps_sum [keeps_intros]:
  "(\<And>e. x = Inl e \<Longrightarrow> keeps A (m e)) \<Longrightarrow> (\<And>y. x = Inr y \<Longrightarrow> keeps A (n y)) \<Longrightarrow>
     keeps A (case x of Inl e \<Rightarrow> m e | Inr y \<Rightarrow> n y)"
  by (cases x) auto

lemma keeps_prod [keeps_intros]:
  "(\<And>x y. p = (x, y) \<Longrightarrow> keeps A (m x y)) \<Longrightarrow> keeps A (case p of (x, y) \<Rightarrow> m x y)"
  by (cases p) auto

lemma keeps_bool [keeps_intros]:
  "(b \<Longrightarrow> keeps A m) \<Longrightarrow> (\<not> b \<Longrightarrow> keeps A n) \<Longrightarrow> keeps A (case b of True \<Rightarrow> m | False \<Rightarrow> n)"
  by (cases b) auto

lemma keeps_lift [keeps_intros]: "keeps A (lift_result r)"
  by (simp add: lift_result_def keeps_intros)

text \<open>
  An assertion that survives what the environment may do before an operation. What a primitive
  keeps of it follows from the effect of the primitive alone.
\<close>

locale environment_assertion =
  fixes A :: "world \<Rightarrow> bool"
  assumes environment: "A w \<Longrightarrow> aw_script w = (actions, verdict) # rest \<Longrightarrow>
      A (fold foreign_step actions (w\<lparr>aw_script := rest\<rparr>))"
begin

lemma triple_primitive:
  assumes "\<And>w r w'. A w \<Longrightarrow> f w = (r, w') \<Longrightarrow> C w' \<and> (\<forall>x. r = Inr x \<longrightarrow> Q x w')"
    and "\<And>w. A w \<Longrightarrow> C w"
  shows "triple A (primitive f) Q C"
proof -
  have "case primitive f w of (Ok x, w') \<Rightarrow> Q x w' | (Err _, w') \<Rightarrow> C w' | (Crashed, w') \<Rightarrow> C w'"
    if "A w" for w
  proof (cases "aw_script w")
    case Nil
    with assms(1) [OF that] show ?thesis
      by (cases "f w") (auto simp: primitive_def split: sum.splits)
  next
    case (Cons step rest)
    obtain actions verdict where step: "step = (actions, verdict)" by (cases step)
    let ?w = "fold foreign_step actions (w\<lparr>aw_script := rest\<rparr>)"
    have A: "A ?w" using environment [OF that] Cons step by simp
    show ?thesis
      using assms(1) [OF A] assms(2) [OF A] Cons step
      by (cases "f ?w") (auto simp: primitive_def Let_def split: sum.splits verdict.splits)
  qed
  then show ?thesis by (simp add: triple_def)
qed

lemma keeps_primitive: "(\<And>w. A w \<Longrightarrow> A (snd (f w))) \<Longrightarrow> keeps A (primitive f)"
  by (rule keeps_triple, rule triple_primitive) (metis snd_conv)

lemma triple_look:
  "(\<And>w. A w \<Longrightarrow> Q (aw_files w s) w) \<Longrightarrow> triple A (token_if_present s) Q A"
  unfolding token_if_present_def by (rule triple_primitive) auto

end

text \<open>The usual assertions do not ask whether a removal is under way.\<close>

locale stable_assertion = environment_assertion +
  assumes unwatched: "A w \<Longrightarrow> A (w\<lparr>aw_doomed := doomed\<rparr>)"
begin

lemma keeps_observations:
  "keeps A (token_if_present s)" "keeps A token_for_handle" "keeps A sync_parent"
  "keeps A (harden_private_file s)"
  unfolding token_if_present_def token_for_handle_def sync_parent_def harden_private_file_def
    add_context_def
  by (intro keeps_intros keeps_primitive; simp)+

lemma keeps_add_context: "keeps A m \<Longrightarrow> keeps A (add_context c m)"
  unfolding add_context_def by (intro keeps_intros)

lemma keeps_rename:
  "(\<And>w f. A w \<Longrightarrow> aw_files w a = Some f \<Longrightarrow> aw_files w b = None \<Longrightarrow>
      A (set_slot a None (set_slot b (Some f) w))) \<Longrightarrow> keeps A (rename_noreplace a b)"
  unfolding rename_noreplace_def by (rule keeps_primitive) (auto split: option.splits)

lemma keeps_exchange:
  "(\<And>w f g. A w \<Longrightarrow> aw_files w a = Some f \<Longrightarrow> aw_files w b = Some g \<Longrightarrow>
      A (set_slot a (Some g) (set_slot b (Some f) w))) \<Longrightarrow> keeps A (exchange_files a b)"
  unfolding exchange_files_def by (rule keeps_primitive) (auto split: option.splits)

lemma keeps_create:
  "(\<And>w. A w \<Longrightarrow> aw_files w s = None \<Longrightarrow> A (set_slot s (Some f) w)) \<Longrightarrow> keeps A (create_file s f)"
  unfolding create_file_def by (rule keeps_primitive) auto

lemma keeps_removal: "keeps A (ensure_path_token s f)" "keeps A removal_over"
  unfolding ensure_path_token_def keeps_def [of _ removal_over]
  by (rule keeps_primitive, simp_all add: unwatched removal_over_def)

lemma keeps_remove_exact:
  assumes "\<And>w f. A w \<Longrightarrow> aw_files w s = Some f \<Longrightarrow> A (set_slot s None w)"
  shows "keeps A (remove_exact s f)"
proof -
  have "keeps A (remove_file s)"
    unfolding remove_file_def by (rule keeps_primitive) (auto intro: assms)
  then show ?thesis
    unfolding remove_exact_def by (intro keeps_intros keeps_observations keeps_removal)
qed

lemma keeps_remove:
  assumes "\<And>w f. A w \<Longrightarrow> aw_files w s = Some f \<Longrightarrow> A (set_slot s None w)"
  shows "keeps A (remove_bound_path s f)"
  unfolding remove_bound_path_def
  by (intro keeps_intros keeps_add_context keeps_observations keeps_remove_exact assms)

lemma keeps_settled: "keeps A m \<Longrightarrow> keeps A (settled m success failure message)"
  unfolding settled_def by (intro keeps_intros)

lemma keeps_drop:
  assumes "\<And>w s f. A w \<Longrightarrow> s \<in> fst ` set owned \<Longrightarrow> aw_files w s = Some f \<Longrightarrow> A (set_slot s None w)"
  shows "keeps A (drop_owned owned)"
  using assms
proof (induction owned)
  case (Cons x owned)
  obtain s f where x: "x = (s, f)" by (cases x)
  have "keeps A (remove_bound_path s f)"
    by (rule keeps_remove, rule Cons.prems) (simp_all add: x)
  moreover have "keeps A (drop_owned owned)"
    by (rule Cons.IH, rule Cons.prems) simp_all
  ultimately show ?case unfolding x drop_owned.simps by (intro keeps_intros)
qed (simp add: keeps_intros)

lemma keeps_dropping:
  "keeps A m \<Longrightarrow> keeps A (drop_owned owned) \<Longrightarrow> keeps A (dropping owned m)"
  unfolding dropping_def by (intro keeps_intros)

lemma keeps_make_durable: "keeps A (make_durable s f)"
  unfolding make_durable_def by (intro keeps_intros keeps_add_context keeps_observations)

lemma keeps_open: "(\<And>w f. A w \<Longrightarrow> A (w\<lparr>aw_handle := f\<rparr>)) \<Longrightarrow> keeps A open_live"
  unfolding open_live_def by (rule keeps_primitive) (auto split: option.splits)

end

section \<open>The original credential is never lost\<close>

text \<open>
  The files of a transaction are distinct, the backup is a copy of the original, and the backup's
  inode was never public.
\<close>

definition publication_ok :: "publication \<Rightarrow> world \<Rightarrow> bool" where
  "publication_ok p w \<longleftrightarrow>
     aw_original w = pb_expected p \<and> fst (pb_expected p) \<noteq> fst (pb_candidate p)
     \<and> fst (pb_backup p) \<in> set (aw_private w)"

text \<open>Before the exchange the original is live; after it, its backup is held.\<close>

definition original_live :: "publication \<Rightarrow> world \<Rightarrow> bool" where
  "original_live p w \<longleftrightarrow>
     publication_ok p w \<and> aw_files w LiveFile = Some (pb_expected p)
     \<and> map_option fst (aw_files w CandidateFile) \<in> {None, Some (fst (pb_candidate p))}"

definition backup_held :: "publication \<Rightarrow> world \<Rightarrow> bool" where
  "backup_held p w \<longleftrightarrow>
     aw_files w StageFile = Some (pb_backup p) \<or> aw_files w BackupFile = Some (pb_backup p)"

definition displaced_held :: "publication \<Rightarrow> world \<Rightarrow> bool" where
  "displaced_held p w \<longleftrightarrow>
     publication_ok p w \<and> backup_held p w \<and> aw_files w CandidateFile \<in> {None, Some (pb_expected p)}"

definition touched_or :: "(world \<Rightarrow> bool) \<Rightarrow> world \<Rightarrow> bool" where
  "touched_or P w \<longleftrightarrow> aw_touched w \<or> P w"

abbreviation safe :: "publication \<Rightarrow> world \<Rightarrow> bool" where
  "safe p \<equiv> touched_or (\<lambda>w. original_live p w \<or> displaced_held p w)"

lemma foreign_touched: "aw_touched w \<Longrightarrow> aw_touched (foreign_step a w)"
  by (cases a) auto

lemma foreign_publication_ok:
  "publication_ok p (foreign_step a w) = publication_ok p w"
  by (cases a) (auto simp: publication_ok_def)

lemma write_inode_simps [simp]:
  "fst (write_inode i bytes f) = fst f" "fst f \<noteq> i \<Longrightarrow> write_inode i bytes f = f"
  by (simp_all add: write_inode_def)

lemma foreign_backup:
  assumes "publication_ok p w" "backup_held p w"
  shows "backup_held p (foreign_step a w)"
proof (cases a)
  case (WriteInode i bytes)
  show ?thesis
  proof (cases "i \<in> set (aw_private w)")
    case False
    with assms(1) have "fst (pb_backup p) \<noteq> i" by (auto simp: publication_ok_def)
    then have "write_inode i bytes (pb_backup p) = pb_backup p" by simp
    with assms(2) False WriteInode show ?thesis
      unfolding backup_held_def by (elim disjE) (simp_all del: split_paired_Ex write_inode_simps)
  qed (use assms WriteInode in simp)
qed (use assms(2) in \<open>auto simp: backup_held_def\<close>)

lemma foreign_candidate:
  "aw_files (foreign_step a w) CandidateFile = Some f \<Longrightarrow>
     \<exists>g. aw_files w CandidateFile = Some g \<and> fst f = fst g \<and> (f = g \<or> (\<exists>bytes. a = WriteInode (fst g) bytes))"
  by (cases a; cases f) (auto simp: write_inode_def split: if_splits)

lemma foreign_candidate_inode:
  "map_option fst (aw_files (foreign_step a w) CandidateFile) = map_option fst (aw_files w CandidateFile)"
  by (cases a) (auto simp: option.map_comp comp_def)

lemma foreign_original_live:
  assumes "original_live p w"
  shows "aw_touched (foreign_step a w) \<or> original_live p (foreign_step a w)"
proof -
  have "aw_touched (foreign_step a w) \<or> aw_files (foreign_step a w) LiveFile = Some (pb_expected p)"
    using assms by (cases a) (auto simp: original_live_def publication_ok_def write_inode_def split: prod.splits)
  with assms show ?thesis
    by (auto simp: original_live_def foreign_publication_ok foreign_candidate_inode
        simp del: foreign_step.simps)
qed

lemma foreign_displaced:
  assumes "displaced_held p w"
  shows "aw_touched (foreign_step a w) \<or> displaced_held p (foreign_step a w)"
proof -
  have held: "publication_ok p w" "backup_held p (foreign_step a w)"
    using assms foreign_backup by (auto simp: displaced_held_def)
  have "aw_touched (foreign_step a w)
      \<or> aw_files (foreign_step a w) CandidateFile \<in> {None, Some (pb_expected p)}"
  proof (cases "aw_files (foreign_step a w) CandidateFile")
    case (Some f)
    from foreign_candidate [OF this] obtain g where g: "aw_files w CandidateFile = Some g"
      "f = g \<or> (\<exists>bytes. a = WriteInode (fst g) bytes)" by blast
    then have "g = pb_expected p" using assms by (auto simp: displaced_held_def)
    with g(2) Some assms show ?thesis
      by (auto simp: displaced_held_def publication_ok_def)
  qed simp
  with held show ?thesis by (auto simp: displaced_held_def foreign_publication_ok)
qed

lemma environment_assertionI:
  assumes "\<And>a w. A w \<Longrightarrow> A (foreign_step a w)" "\<And>w rest. A w \<Longrightarrow> A (w\<lparr>aw_script := rest\<rparr>)"
  shows "environment_assertion A"
proof
  fix w actions verdict rest
  assume "A w"
  then have "A (w\<lparr>aw_script := rest\<rparr>)" by (rule assms(2))
  moreover have "A v \<Longrightarrow> A (fold foreign_step actions v)" for v
    by (induction actions arbitrary: v) (auto intro: assms(1))
  ultimately show "A (fold foreign_step actions (w\<lparr>aw_script := rest\<rparr>))" by blast
qed

lemma stable_assertionI:
  assumes "\<And>a w. A w \<Longrightarrow> A (foreign_step a w)" "\<And>w rest. A w \<Longrightarrow> A (w\<lparr>aw_script := rest\<rparr>)"
    and "\<And>w doomed. A w \<Longrightarrow> A (w\<lparr>aw_doomed := doomed\<rparr>)"
  shows "stable_assertion A"
  by (intro stable_assertion.intro environment_assertionI stable_assertion_axioms.intro assms)

lemma stable_touched_or:
  assumes "\<And>a w. P w \<Longrightarrow> aw_touched (foreign_step a w) \<or> P (foreign_step a w)"
    and "\<And>w rest. P w \<Longrightarrow> P (w\<lparr>aw_script := rest\<rparr>)"
    and "\<And>w doomed. P w \<Longrightarrow> P (w\<lparr>aw_doomed := doomed\<rparr>)"
  shows "stable_assertion (touched_or P)"
  by (rule stable_assertionI) (use assms foreign_touched in \<open>auto simp: touched_or_def\<close>)

lemmas phase_defs = original_live_def displaced_held_def backup_held_def publication_ok_def

interpretation original: stable_assertion "touched_or (original_live p)" for p
  by (rule stable_touched_or) (use foreign_original_live in \<open>auto simp: original_live_def publication_ok_def\<close>)

interpretation displaced: stable_assertion "touched_or (displaced_held p)" for p
  by (rule stable_touched_or) (use foreign_displaced in \<open>auto simp: phase_defs\<close>)

interpretation safe: stable_assertion "safe p" for p
proof (rule stable_touched_or)
  show "aw_touched (foreign_step a w) \<or> original_live p (foreign_step a w) \<or> displaced_held p (foreign_step a w)"
    if "original_live p w \<or> displaced_held p w" for a w
    using that foreign_original_live foreign_displaced by blast
qed (simp_all add: phase_defs)

interpretation touched: stable_assertion "touched_or (\<lambda>_. False)"
  by (rule stable_touched_or) auto

lemma keeps_cleanup: "keeps (touched_or (original_live p)) (cleanup_unpublished_auth p)"
  unfolding cleanup_unpublished_auth_def remove_publication_record_def
  by (intro keeps_intros original.keeps_observations original.keeps_remove)
    (auto simp: touched_or_def phase_defs set_slot_def)

lemma keeps_finalize: "keeps (touched_or (displaced_held p)) (finalize_independent_backup p)"
  unfolding finalize_independent_backup_def promote_backup_def remove_publication_record_def
  by (intro keeps_intros displaced.keeps_observations displaced.keeps_remove displaced.keeps_add_context
        displaced.keeps_rename)
    (auto simp: touched_or_def phase_defs set_slot_def)

lemma keeps_restore: "keeps (touched_or (\<lambda>_. False)) (restore_foreign_live p foreign)"
  unfolding restore_foreign_live_def cleanup_unpublished_auth_def remove_publication_record_def
  by (intro keeps_intros touched.keeps_observations touched.keeps_remove touched.keeps_add_context
        touched.keeps_exchange)
    (auto simp: touched_or_def set_slot_def)

lemma stable_conj:
  "stable_assertion A \<Longrightarrow> stable_assertion B \<Longrightarrow> stable_assertion (\<lambda>w. A w \<and> B w)"
  unfolding stable_assertion_def environment_assertion_def stable_assertion_axioms_def by blast

lemma stable_imp: "(b \<Longrightarrow> stable_assertion A) \<Longrightarrow> stable_assertion (\<lambda>w. b \<longrightarrow> A w)"
  unfolding stable_assertion_def environment_assertion_def stable_assertion_axioms_def by blast

text \<open>What the observations of a settlement say, as long as nobody touched the original.\<close>

definition live_seen :: "publication \<Rightarrow> auth_file option \<Rightarrow> world \<Rightarrow> bool" where
  "live_seen p live w \<longleftrightarrow>
     safe p w \<and> (live = Some (pb_candidate p) \<longrightarrow> touched_or (displaced_held p) w)
     \<and> (live = Some (pb_expected p) \<longrightarrow>
          touched_or (\<lambda>w. publication_ok p w \<and> aw_files w LiveFile = Some (pb_expected p)) w)"

definition candidate_seen :: "publication \<Rightarrow> auth_file option \<Rightarrow> auth_file option \<Rightarrow> world \<Rightarrow> bool" where
  "candidate_seen p live candidate w \<longleftrightarrow>
     live_seen p live w
     \<and> (live = Some (pb_candidate p) \<and> candidate \<notin> {None, Some (pb_expected p)} \<longrightarrow>
          touched_or (\<lambda>_. False) w)
     \<and> (candidate = Some (pb_expected p) \<longrightarrow> touched_or (displaced_held p) w)
     \<and> (candidate = Some (pb_candidate p) \<or> live = Some (pb_expected p) \<and> candidate = None \<longrightarrow>
          touched_or (original_live p) w)"

lemma stable_live_original:
  "stable_assertion (touched_or (\<lambda>w. publication_ok p w \<and> aw_files w LiveFile = Some (pb_expected p)))"
proof (rule stable_touched_or)
  show "aw_touched (foreign_step a w) \<or> (publication_ok p (foreign_step a w)
      \<and> aw_files (foreign_step a w) LiveFile = Some (pb_expected p))"
    if "publication_ok p w \<and> aw_files w LiveFile = Some (pb_expected p)" for a w
    using that by (cases a) (auto simp: publication_ok_def write_inode_def split: prod.splits)
qed (simp_all add: publication_ok_def)

interpretation live_seen: stable_assertion "live_seen p live" for p live
  unfolding live_seen_def
  by (intro stable_conj stable_imp safe.stable_assertion_axioms displaced.stable_assertion_axioms
      stable_live_original)

interpretation candidate_seen: stable_assertion "candidate_seen p live candidate" for p live candidate
  unfolding candidate_seen_def
  by (intro stable_conj stable_imp live_seen.stable_assertion_axioms touched.stable_assertion_axioms
      displaced.stable_assertion_axioms original.stable_assertion_axioms)

lemma publication_distinct: "publication_ok p w \<Longrightarrow> pb_candidate p \<noteq> pb_expected p"
  by (auto simp: publication_ok_def)

lemma original_live_candidate:
  "original_live p w \<Longrightarrow> aw_files w CandidateFile \<noteq> Some (pb_expected p)"
  by (rule notI, simp add: original_live_def publication_ok_def, blast)

lemma see_live: "triple (safe p) (token_if_present LiveFile) (live_seen p) (safe p)"
proof (rule safe.triple_look)
  fix w
  assume "safe p w"
  moreover have "\<not> original_live p w" if "aw_files w LiveFile = Some (pb_candidate p)"
    using that publication_distinct by (auto simp: original_live_def)
  ultimately show "live_seen p (aw_files w LiveFile) w"
    by (auto simp: live_seen_def touched_or_def) (auto simp: original_live_def displaced_held_def)
qed

lemma see_candidate:
  "triple (live_seen p live) (token_if_present CandidateFile) (candidate_seen p live) (live_seen p live)"
proof (rule live_seen.triple_look)
  fix w
  assume seen: "live_seen p live w"
  show "candidate_seen p live (aw_files w CandidateFile) w"
  proof (cases "aw_touched w")
    case True
    with seen show ?thesis by (simp add: candidate_seen_def touched_or_def)
  next
    case False
    with seen have phase: "original_live p w \<or> displaced_held p w"
      and pub: "live = Some (pb_candidate p) \<longrightarrow> displaced_held p w"
      "live = Some (pb_expected p) \<longrightarrow> aw_files w LiveFile = Some (pb_expected p)"
      by (simp_all add: live_seen_def touched_or_def)
    have ok: "publication_ok p w" using phase by (auto simp: original_live_def displaced_held_def)
    have "displaced_held p w" if "aw_files w CandidateFile = Some (pb_expected p)"
      using phase that original_live_candidate by blast
    moreover have "original_live p w" if "aw_files w CandidateFile = Some (pb_candidate p)"
      using phase that publication_distinct [OF ok] by (auto simp: displaced_held_def)
    moreover have "original_live p w" if "live = Some (pb_expected p)" "aw_files w CandidateFile = None"
      using that pub ok by (simp add: original_live_def)
    moreover have "aw_files w CandidateFile \<in> {None, Some (pb_expected p)}" if "live = Some (pb_candidate p)"
      using that pub by (simp add: displaced_held_def)
    ultimately show ?thesis using seen unfolding candidate_seen_def touched_or_def by blast
  qed
qed

lemma phase_safe:
  "touched_or (original_live p) w \<Longrightarrow> safe p w" "touched_or (displaced_held p) w \<Longrightarrow> safe p w"
  "touched_or (\<lambda>_. False) w \<Longrightarrow> safe p w" "live_seen p live w \<Longrightarrow> safe p w"
  "candidate_seen p live candidate w \<Longrightarrow> safe p w"
  by (auto simp: touched_or_def live_seen_def candidate_seen_def)

lemma triple_phase:
  "keeps A m \<Longrightarrow> (\<And>w. S w \<Longrightarrow> A w) \<Longrightarrow> (\<And>w. A w \<Longrightarrow> safe p w) \<Longrightarrow>
     triple S m (\<lambda>_. safe p) (safe p)"
  by (rule triple_mono [OF triple_keeps])

lemma triple_if:
  "(b \<Longrightarrow> triple A m Q C) \<Longrightarrow> (\<not> b \<Longrightarrow> triple A n Q C) \<Longrightarrow> triple A (if b then m else n) Q C"
  by simp

lemma keeps_forget: "keeps (safe p) (remove_publication_record p)"
  unfolding remove_publication_record_def
proof (rule safe.keeps_remove)
  fix w
  assume "safe p w"
  moreover have "original_live p (set_slot RecordFile None w) = original_live p w"
    "displaced_held p (set_slot RecordFile None w) = displaced_held p w"
    by (simp_all add: phase_defs set_slot_def)
  ultimately show "safe p (set_slot RecordFile None w)"
    by (simp add: touched_or_def) (simp add: set_slot_def)
qed

lemma settle_branches:
  "live = Some (pb_candidate p) \<or> candidate = Some (pb_expected p) \<Longrightarrow>
     triple (candidate_seen p live candidate) (settled (finalize_independent_backup p) f g m)
       (\<lambda>_. safe p) (safe p)"
  "live = Some (pb_candidate p) \<Longrightarrow> candidate \<notin> {None, Some (pb_expected p)} \<Longrightarrow>
     triple (candidate_seen p live candidate) (settled (restore_foreign_live p foreign) f' g m)
       (\<lambda>_. safe p) (safe p)"
  "candidate = Some (pb_candidate p) \<or> live = Some (pb_expected p) \<and> candidate = None \<Longrightarrow>
     triple (candidate_seen p live candidate) (settled (cleanup_unpublished_auth p) f' g m)
       (\<lambda>_. safe p) (safe p)"
  "triple (candidate_seen p live candidate) (settled (remove_publication_record p) f' g m)
       (\<lambda>_. safe p) (safe p)"
  "triple (candidate_seen p live candidate) (done_with r) (\<lambda>_. safe p) (safe p)"
proof -
  show "triple (candidate_seen p live candidate) (settled (finalize_independent_backup p) f g m)
       (\<lambda>_. safe p) (safe p)" if "live = Some (pb_candidate p) \<or> candidate = Some (pb_expected p)"
    by (rule triple_phase [OF displaced.keeps_settled [OF keeps_finalize] _ phase_safe(2)])
      (use that in \<open>auto simp: candidate_seen_def live_seen_def\<close>)
  show "triple (candidate_seen p live candidate) (settled (restore_foreign_live p foreign) f' g m)
       (\<lambda>_. safe p) (safe p)" if "live = Some (pb_candidate p)" "candidate \<notin> {None, Some (pb_expected p)}"
    by (rule triple_phase [OF touched.keeps_settled [OF keeps_restore] _ phase_safe(3)])
      (use that in \<open>auto simp: candidate_seen_def\<close>)
  show "triple (candidate_seen p live candidate) (settled (cleanup_unpublished_auth p) f' g m)
       (\<lambda>_. safe p) (safe p)"
    if "candidate = Some (pb_candidate p) \<or> live = Some (pb_expected p) \<and> candidate = None"
    by (rule triple_phase [OF original.keeps_settled [OF keeps_cleanup] _ phase_safe(1)])
      (use that in \<open>auto simp: candidate_seen_def\<close>)
  show "triple (candidate_seen p live candidate) (settled (remove_publication_record p) f' g m)
       (\<lambda>_. safe p) (safe p)"
    by (rule triple_phase [OF safe.keeps_settled [OF keeps_forget] phase_safe(5)])
  show "triple (candidate_seen p live candidate) (done_with r) (\<lambda>_. safe p) (safe p)"
    by (rule triple_done) (rule phase_safe)
qed

lemma triple_observation:
  "triple A m Q C \<Longrightarrow> (\<And>e. triple A (n e) Q C) \<Longrightarrow> (\<And>e. triple A (k e) Q C) \<Longrightarrow> triple A l Q C \<Longrightarrow>
     triple A (case x of Unchanged \<Rightarrow> m | ChangedTo e \<Rightarrow> n e | UnreadableInode e \<Rightarrow> k e | Unavailable \<Rightarrow> l) Q C"
  by (cases x) auto

lemma keeps_settle: "keeps (safe p) (settle_auth_publication p observation)"
proof -
  have look: "triple (candidate_seen p live candidate) (token_if_present s)
      (\<lambda>_. candidate_seen p live candidate) (safe p)" for live candidate s
    by (rule triple_mono [OF triple_keeps [OF candidate_seen.keeps_observations(1)]])
      (auto intro: phase_safe)
  have "triple (safe p) (settle_auth_publication p observation) (\<lambda>_. safe p) (safe p)"
    unfolding settle_auth_publication_def Let_def
    by (rule triple_seq [OF see_live], rule triple_seq [OF triple_mono [OF see_candidate]],
        assumption, assumption, erule phase_safe, rule triple_seq [OF look], rule triple_seq [OF look])
      (intro triple_if triple_observation settle_branches; blast)
  then show ?thesis by (rule keeps_triple)
qed

lemma keeps_settlement [keeps_intros]:
  "keeps A m \<Longrightarrow> keeps A n \<Longrightarrow> (\<And>e. keeps A (k1 e)) \<Longrightarrow> (\<And>e. keeps A (k2 e)) \<Longrightarrow> (\<And>e. keeps A (k3 e)) \<Longrightarrow>
     keeps A (case x of Published \<Rightarrow> m | LiveUnchanged \<Rightarrow> n | PublishedRecoveryRequired e \<Rightarrow> k1 e
        | RestoredRecoveryRequired e \<Rightarrow> k2 e | AmbiguousRecoveryRequired e \<Rightarrow> k3 e)"
  by (cases x) auto

lemma keeps_observation [keeps_intros]:
  "keeps A m \<Longrightarrow> (\<And>e. keeps A (n e)) \<Longrightarrow> (\<And>e. keeps A (k e)) \<Longrightarrow> keeps A l \<Longrightarrow>
     keeps A (case x of Unchanged \<Rightarrow> m | ChangedTo e \<Rightarrow> n e | UnreadableInode e \<Rightarrow> k e | Unavailable \<Rightarrow> l)"
  by (cases x) auto

lemma keeps_recover: "keeps (safe p) (recover_interrupted_auth_publication p)"
  unfolding recover_interrupted_auth_publication_def
  by (intro keeps_intros safe.keeps_observations keeps_settle)

text \<open>Where a moved file is afterwards: nowhere known, or under one of the two names.\<close>

lemma move_place: "move_owned_noreplace a b f w = (Ok r, w') \<Longrightarrow> snd r \<in> {None, Some a, Some b}"
  unfolding move_owned_noreplace_def seq_def attempt_def done_with_def
  by (auto split: prod.splits outcome.splits sum.splits if_splits)

lemma keeps_moved:
  assumes "keeps A (move_owned_noreplace a b f)"
    and "\<And>e place. place \<in> {None, Some a, Some b} \<Longrightarrow> keeps A (g e place)"
    and "\<And>place. place \<in> {None, Some a, Some b} \<Longrightarrow> keeps A (h place)"
  shows "keeps A (seq (move_owned_noreplace a b f)
    (\<lambda>(moved, place). case moved of Some e \<Rightarrow> g e place | None \<Rightarrow> h place))"
  unfolding keeps_def
proof (intro allI impI)
  fix w
  assume w: "A w"
  obtain r w' where m: "move_owned_noreplace a b f w = (r, w')" by fastforce
  from assms(1) w m have w': "A w'" by (metis keeps_def snd_conv)
  show "A (snd (seq (move_owned_noreplace a b f)
      (\<lambda>(moved, place). case moved of Some e \<Rightarrow> g e place | None \<Rightarrow> h place) w))"
  proof (cases r)
    case (Ok x)
    obtain moved place where x: "x = (moved, place)" by fastforce
    from move_place [OF m [unfolded Ok x]] have "place \<in> {None, Some a, Some b}" by simp
    with assms(2,3) w' m Ok x show ?thesis by (cases moved) (simp_all add: seq_def keeps_def)
  qed (use m w' in \<open>simp_all add: seq_def\<close>)
qed

text \<open>
  An assertion that is kept by renames, exchanges and creations, and by removing the process's own
  files: then the whole protocol keeps it. Nothing is ever removed from the live name.
\<close>

locale frame_assertion = stable_assertion +
  fixes own :: "auth_file \<Rightarrow> bool"
  assumes created: "A w \<Longrightarrow> aw_files w s = None \<Longrightarrow> A (set_slot s (Some f) w)"
    and removed: "s \<noteq> LiveFile \<Longrightarrow> own f \<Longrightarrow> keeps A (remove_bound_path s f)"
    and renamed: "A w \<Longrightarrow> aw_files w a = Some f \<Longrightarrow> aw_files w b = None \<Longrightarrow>
      A (set_slot a None (set_slot b (Some f) w))"
    and exchanged: "A w \<Longrightarrow> aw_files w a = Some f \<Longrightarrow> aw_files w b = Some g \<Longrightarrow>
      A (set_slot a (Some g) (set_slot b (Some f) w))"
    and opened: "A w \<Longrightarrow> A (w\<lparr>aw_handle := f\<rparr>)"
begin

lemmas keeps_files = keeps_observations keeps_add_context keeps_rename [OF renamed]
  keeps_exchange [OF exchanged] keeps_create [OF created] keeps_settled keeps_dropping
  keeps_make_durable keeps_open [OF opened]

lemma keeps_drop_own:
  "\<forall>(s, f) \<in> set owned. s \<noteq> LiveFile \<and> own f \<Longrightarrow> keeps A (drop_owned owned)"
  by (induction owned) (auto intro!: keeps_intros removed)

definition owns :: "publication \<Rightarrow> bool" where
  "owns p \<longleftrightarrow> own (pb_expected p) \<and> own (pb_candidate p) \<and> own (pb_backup p) \<and> own (pb_record p)"

lemma keeps_settle_frame: "owns p \<Longrightarrow> keeps A (settle_auth_publication p observation)"
  unfolding settle_auth_publication_def finalize_independent_backup_def promote_backup_def restore_foreign_live_def
    cleanup_unpublished_auth_def remove_publication_record_def Let_def owns_def
  by (intro keeps_intros keeps_files removed; simp)

lemma keeps_recover_frame: "owns p \<Longrightarrow> keeps A (recover_interrupted_auth_publication p)"
  unfolding recover_interrupted_auth_publication_def
  by (intro keeps_intros keeps_files keeps_settle_frame)

lemma keeps_move_frame: "keeps A (move_owned_noreplace a b f)"
  unfolding move_owned_noreplace_def by (intro keeps_intros keeps_files)

lemma keeps_stage_frame: "owns p \<Longrightarrow> keeps A (stage_publication p)"
  unfolding stage_publication_def owns_def by (intro keeps_intros keeps_files keeps_drop_own) auto

lemma keeps_prepare_frame: "owns p \<Longrightarrow> keeps A (prepare_existing_auth_publication p)"
  unfolding prepare_existing_auth_publication_def
  by (intro keeps_seq keeps_stage_frame keeps_moved [OF keeps_move_frame] keeps_fail keeps_done keeps_drop_own)
    (auto simp: owned_at_def owns_def)

lemma keeps_publish_frame: "owns p \<Longrightarrow> keeps A (publish_record_exclusive p)"
  unfolding publish_record_exclusive_def classify_published_def owns_def
  by (intro keeps_intros keeps_files keeps_drop_own) auto

lemma keeps_exchange_frame: "owns p \<Longrightarrow> keeps A (exchange_and_settle p)"
  unfolding exchange_and_settle_def settle_and_convert_def
  by (intro keeps_intros keeps_files keeps_settle_frame)

lemma keeps_create_if_absent: "own (pb_candidate p) \<Longrightarrow> keeps A (create_if_absent p)"
  unfolding create_if_absent_def
  by (intro keeps_intros keeps_files keeps_drop_own) auto

lemma keeps_write:
  assumes "\<And>token. expected = Some (snd token) \<Longrightarrow> owns (publication_of inodes contents record_text token)"
    and "own (fst inodes, contents)"
  shows "keeps A (publish_conditionally inodes record_text expected contents)"
  unfolding publish_conditionally_def replace_expected_def
  by (intro keeps_intros keeps_files keeps_prepare_frame keeps_publish_frame keeps_exchange_frame
        keeps_create_if_absent keeps_drop_own assms(1))
    (use assms in \<open>auto simp: owns_def publication_of_def\<close>)

end

interpretation touched: frame_assertion "touched_or (\<lambda>_. False)" "\<lambda>_. True"
  by unfold_locales (auto simp: touched_or_def set_slot_def intro!: touched.keeps_remove)

text \<open>The transaction before its record: the original is live, and the staged files are its own.\<close>

definition staged :: "publication \<Rightarrow> world \<Rightarrow> bool" where
  "staged p w \<longleftrightarrow>
     original_live p w \<and> map_option fst (aw_files w CandidateTemp) \<in> {None, Some (fst (pb_candidate p))}
     \<and> aw_files w StageTemp \<in> {None, Some (pb_backup p)}"

definition ready :: "publication \<Rightarrow> world \<Rightarrow> bool" where
  "ready p w \<longleftrightarrow> original_live p w \<and> backup_held p w"

lemma foreign_inode:
  "s \<noteq> LiveFile \<Longrightarrow> map_option fst (aw_files (foreign_step a w) s) = map_option fst (aw_files w s)"
  by (cases a) (auto simp: option.map_comp comp_def)

lemma foreign_private:
  "s \<noteq> LiveFile \<Longrightarrow> aw_files w s = Some f \<Longrightarrow> fst f \<in> set (aw_private w) \<Longrightarrow>
     aw_files (foreign_step a w) s = Some f"
  by (cases a) (auto simp: write_inode_def split: prod.splits)

lemma foreign_absent:
  "s \<noteq> LiveFile \<Longrightarrow> aw_files w s = None \<Longrightarrow> aw_files (foreign_step a w) s = None"
  by (cases a) auto

interpretation staged: stable_assertion "touched_or (staged p)" for p
proof (rule stable_touched_or)
  fix a w
  assume st: "staged p w"
  then have "aw_files (foreign_step a w) StageTemp \<in> {None, Some (pb_backup p)}"
    using foreign_private [of StageTemp w "pb_backup p" a] foreign_absent [of StageTemp w a]
    by (auto simp: staged_def original_live_def publication_ok_def simp del: foreign_step.simps)
  with st foreign_original_live [of p w a]
  show "aw_touched (foreign_step a w) \<or> staged p (foreign_step a w)"
    by (auto simp: staged_def foreign_inode simp del: foreign_step.simps)
qed (simp_all add: staged_def phase_defs)

interpretation ready: stable_assertion "touched_or (ready p)" for p
proof (rule stable_touched_or)
  show "aw_touched (foreign_step a w) \<or> ready p (foreign_step a w)" if "ready p w" for a w
    using that foreign_original_live foreign_backup by (auto simp: ready_def original_live_def)
qed (simp_all add: ready_def phase_defs)

lemma keeps_stage: "keeps (touched_or (staged p)) (stage_publication p)"
  unfolding stage_publication_def
  by (intro keeps_intros staged.keeps_create staged.keeps_dropping staged.keeps_make_durable
        staged.keeps_observations staged.keeps_drop)
    (auto simp: touched_or_def staged_def phase_defs set_slot_def)


section \<open>The write as a whole\<close>

lemma staged_slot:
  "touched_or (staged p) w \<Longrightarrow> s \<noteq> LiveFile \<Longrightarrow> touched_or (staged p) (set_slot s None w)"
  by (auto simp: touched_or_def staged_def phase_defs set_slot_def)

lemma keeps_drop_staged:
  "LiveFile \<notin> fst ` set owned \<Longrightarrow> keeps (touched_or (staged p)) (drop_owned owned)"
  by (rule staged.keeps_drop) (force intro: staged_slot)

lemma triple_conj:
  "triple A m Q C \<Longrightarrow> triple A m Q' C' \<Longrightarrow> triple A m (\<lambda>x w. Q x w \<and> Q' x w) (\<lambda>w. C w \<and> C' w)"
  by (fastforce simp: triple_def split: prod.splits outcome.splits)

lemma triple_sum:
  "(\<And>e. x = Inl e \<Longrightarrow> triple A (m e) Q C) \<Longrightarrow> (\<And>y. x = Inr y \<Longrightarrow> triple A (n y) Q C) \<Longrightarrow>
     triple A (case x of Inl e \<Rightarrow> m e | Inr y \<Rightarrow> n y) Q C"
  by (cases x) auto

lemma triple_option:
  "(x = None \<Longrightarrow> triple A m Q C) \<Longrightarrow> (\<And>y. x = Some y \<Longrightarrow> triple A (n y) Q C) \<Longrightarrow>
     triple A (case x of None \<Rightarrow> m | Some y \<Rightarrow> n y) Q C"
  by (cases x) auto

lemma triple_prod:
  "(\<And>x y. z = (x, y) \<Longrightarrow> triple A (m x y) Q C) \<Longrightarrow> triple A (case z of (x, y) \<Rightarrow> m x y) Q C"
  by (cases z) auto

lemma triple_attempt_keeps: "keeps A m \<Longrightarrow> triple A (attempt m) (\<lambda>_. A) A"
  by (intro triple_keeps keeps_attempt)

lemma triple_assume:
  "(\<And>w. A w \<Longrightarrow> b) \<Longrightarrow> (b \<Longrightarrow> triple A m Q C) \<Longrightarrow> triple A m Q C"
  by (simp add: triple_def)

lemma triple_context: "triple A m Q C \<Longrightarrow> triple A (add_context c m) Q C"
  by (fastforce simp: add_context_def triple_def seq_def attempt_def done_with_def fail_def
      split: prod.splits outcome.splits)

lemma triple_attempt_same: "triple A m (\<lambda>_. B) B \<Longrightarrow> triple A (attempt m) (\<lambda>_. B) B"
  by (fastforce simp: triple_def attempt_def split: prod.splits outcome.splits)

lemma triple_disj: "triple A m Q C \<Longrightarrow> triple B m Q C \<Longrightarrow> triple (\<lambda>w. A w \<or> B w) m Q C"
  by (auto simp: triple_def)

lemma triple_seq_keeps:
  "keeps A m \<Longrightarrow> (\<And>w. A w \<Longrightarrow> C w) \<Longrightarrow> (\<And>x. triple A (f x) Q C) \<Longrightarrow> triple A (seq m f) Q C"
  by (rule triple_seq [OF triple_mono [OF triple_keeps]])

lemma triple_weaken: "keeps B m \<Longrightarrow> (\<And>w. A w \<Longrightarrow> B w) \<Longrightarrow> triple A m (\<lambda>_. B) B"
  by (rule triple_mono [OF triple_keeps])

context stable_assertion begin

lemma triple_attempt_look:
  "(\<And>w. A w \<Longrightarrow> aw_files w s = f \<Longrightarrow> B w) \<Longrightarrow>
     triple A (attempt (token_if_present s)) (\<lambda>r w. A w \<and> (r = Inr f \<longrightarrow> B w)) A"
  by (rule triple_attempt, rule triple_mono [OF triple_look [where Q = "\<lambda>r w. A w \<and> (r = f \<longrightarrow> B w)"]])
    auto

lemma triple_look_weak:
  "(\<And>w. A w \<Longrightarrow> Q (aw_files w s) w) \<Longrightarrow> (\<And>w. A w \<Longrightarrow> C w) \<Longrightarrow> triple A (token_if_present s) Q C"
  unfolding token_if_present_def by (rule triple_primitive) auto

lemma triple_look_seq:
  assumes "\<And>w. A w \<Longrightarrow> P (aw_files w s)" "\<And>x. P x \<Longrightarrow> triple A (f x) Q C" "\<And>w. A w \<Longrightarrow> C w"
  shows "triple A (seq (token_if_present s) f) Q C"
proof (rule triple_seq)
  show "triple A (token_if_present s) (\<lambda>x w. A w \<and> P x) C"
    by (rule triple_mono [OF triple_look [where Q = "\<lambda>x w. A w \<and> P x"]]) (use assms in auto)
  show "triple (\<lambda>w. A w \<and> P x) (f x) Q C" for x
    by (rule triple_assume [where b = "P x"]) (auto intro: triple_mono [OF assms(2)])
qed

lemma triple_move:
  assumes rename: "keeps A (rename_noreplace a b)"
    and B: "stable_assertion B" "\<And>w. A w \<Longrightarrow> aw_files w b = Some f \<Longrightarrow> B w"
  shows "triple A (move_owned_noreplace a b f)
    (\<lambda>r w. A w \<and> snd r \<in> {None, Some a, Some b} \<and> (fst r = None \<longrightarrow> B w)) A"
proof -
  have synced: "triple (\<lambda>w. A w \<and> B w) (attempt sync_parent) (\<lambda>_ w. A w \<and> B w) (\<lambda>w. A w \<and> B w)"
    by (intro triple_attempt_keeps stable_assertion.keeps_observations stable_conj
        stable_assertion_axioms B(1))
  show ?thesis
    unfolding move_owned_noreplace_def
    apply (rule triple_seq [OF triple_attempt_keeps [OF rename]])
    apply (rule triple_seq [OF triple_attempt_keeps [OF keeps_observations(1)]])
    apply (rule triple_seq [OF triple_attempt_look [OF B(2)]], assumption, assumption)
    apply (simp, intro triple_sum triple_if conjI impI)
    apply (auto intro!: triple_done)[2]
     apply (rule triple_mono [OF triple_seq [OF synced triple_done]])
    apply (auto intro!: triple_done)
    done
qed

end

text \<open>What follows a move: its two branches.\<close>

lemma triple_moved:
  fixes m :: "('e option \<times> 'p) op"
  assumes move: "triple A m (\<lambda>r w. A w \<and> snd r \<in> S \<and> (fst r = None \<longrightarrow> B w)) A"
    and failed: "\<And>e place. place \<in> S \<Longrightarrow> triple A (f e place) Q A"
    and succeeded: "\<And>place. place \<in> S \<Longrightarrow> triple B (g place) Q A"
  shows "triple A (seq m (\<lambda>(moved, place). case moved of Some e \<Rightarrow> f e place | None \<Rightarrow> g place)) Q A"
proof (rule triple_seq [OF move], rule triple_prod, rule triple_assume, erule conjunct1 [OF conjunct2])
  fix r :: "'e option \<times> 'p" and moved place
  assume "r = (moved, place)" "snd r \<in> S"
  then show "triple (\<lambda>w. A w \<and> snd r \<in> S \<and> (fst r = None \<longrightarrow> B w))
      (case moved of Some e \<Rightarrow> f e place | None \<Rightarrow> g place) Q A"
    using failed [of place] succeeded [of place] by (cases moved) (auto elim: triple_mono)
qed

lemma prepare_triple:
  "triple (touched_or (staged p)) (prepare_existing_auth_publication p)
     (\<lambda>_. touched_or (ready p)) (touched_or (staged p))"
proof -
  have dropped: "triple (touched_or (staged p)) (seq (drop_owned owned) (\<lambda>_. fail e)) Q (touched_or (staged p))"
    if "LiveFile \<notin> fst ` set owned" for owned e and Q :: "unit \<Rightarrow> world \<Rightarrow> bool"
    by (rule triple_seq [OF triple_keeps [OF keeps_drop_staged [OF that]] triple_fail])
  have candidate: "triple (touched_or (staged p)) (move_owned_noreplace CandidateTemp CandidateFile (pb_candidate p))
      (\<lambda>r w. touched_or (staged p) w \<and> snd r \<in> {None, Some CandidateTemp, Some CandidateFile}
         \<and> (fst r = None \<longrightarrow> touched_or (staged p) w)) (touched_or (staged p))"
    by (rule staged.triple_move [OF staged.keeps_rename staged.stable_assertion_axioms])
      (auto simp: touched_or_def staged_def phase_defs set_slot_def)
  have stage: "triple (touched_or (staged p)) (move_owned_noreplace StageTemp StageFile (pb_backup p))
      (\<lambda>r w. touched_or (staged p) w \<and> snd r \<in> {None, Some StageTemp, Some StageFile}
         \<and> (fst r = None \<longrightarrow> touched_or (ready p) w)) (touched_or (staged p))"
    by (rule staged.triple_move [OF staged.keeps_rename ready.stable_assertion_axioms])
      (auto simp: touched_or_def staged_def phase_defs ready_def set_slot_def)
  show ?thesis
    unfolding prepare_existing_auth_publication_def
    by (intro triple_seq [OF triple_keeps [OF keeps_stage]] triple_moved [OF candidate]
        triple_moved [OF stage] dropped triple_done) (auto simp: owned_at_def)
qed

lemma publish_keeps: "keeps (touched_or (ready p)) (publish_record_exclusive p)"
  unfolding publish_record_exclusive_def classify_published_def
  by (intro keeps_intros ready.keeps_observations ready.keeps_rename ready.keeps_drop)
    (auto simp: touched_or_def ready_def phase_defs set_slot_def)

text \<open>The exchange, between an assertion that holds before it and one that settling keeps.\<close>

lemma exchange_between:
  assumes stable: "stable_assertion A" "stable_assertion B"
    and opened: "keeps A open_live"
    and exchange: "triple A (exchange_files CandidateFile LiveFile) (\<lambda>_. B) B"
    and weaken: "\<And>w. A w \<Longrightarrow> B w"
    and settle: "\<And>observation. keeps B (settle_auth_publication p observation)"
  shows "triple A (exchange_and_settle p) (\<lambda>_. B) B"
proof -
  note looks = stable_assertion.keeps_observations
  have convert: "keeps B (settle_and_convert p r boundary)" for r boundary
    unfolding settle_and_convert_def by (intro keeps_intros settle)
  have failed: "keeps B (seq (settle_and_convert p r boundary)
      (\<lambda>x. if x = Changed then fail (c # e) else done_with x))" for r boundary c e
    by (intro keeps_intros convert)
  have rest: "keeps B (seq (attempt token_for_handle) f)"
    if "\<And>r. keeps B (f r)" for f :: "auth_file result \<Rightarrow> conditional_write op"
    by (intro keeps_intros looks [OF stable(2)] that)
  show ?thesis
    unfolding exchange_and_settle_def
    by (intro triple_seq_keeps [OF keeps_attempt [OF opened]] triple_sum triple_if
        triple_seq_keeps [OF looks(1) [OF stable(1)]] triple_seq_keeps [OF looks(2) [OF stable(1)]]
        triple_weaken [OF failed] triple_weaken [OF convert] weaken
        triple_seq [OF triple_attempt_same [OF exchange]]
        triple_keeps [OF rest] keeps_intros settle)
qed

text \<open>The phases of replacing the live file: staged, backed up, published, settled.\<close>

lemma replace_between:
  assumes prepare: "triple S (prepare_existing_auth_publication p) (\<lambda>_. R) S"
    and publish: "triple R (publish_record_exclusive p) (\<lambda>r w. if r = None then M w else R w) R"
    and drop: "triple R (drop_owned [(StageFile, pb_backup p), (CandidateFile, pb_candidate p)])
      (\<lambda>_. T) T"
    and exchange: "triple M (exchange_and_settle p) (\<lambda>_. T) T"
    and weaken: "\<And>w. S w \<Longrightarrow> T w" "\<And>w. R w \<Longrightarrow> T w"
  shows "triple S (replace_expected p) (\<lambda>_. T) T"
proof -
  have published: "triple R (attempt (publish_record_exclusive p))
      (\<lambda>r w. if r = Inr None then M w else R w) T"
    by (rule triple_attempt, rule triple_mono [OF publish]) (auto split: if_splits intro: weaken)
  show ?thesis
    unfolding replace_expected_def
  proof (rule triple_seq [OF triple_mono [OF prepare]], assumption, assumption, erule weaken,
      rule triple_seq [OF published])
    fix r
    show "triple (\<lambda>w. if r = Inr None then M w else R w)
      (case r of
         Inl e \<Rightarrow> seq (drop_owned [(StageFile, pb_backup p), (CandidateFile, pb_candidate p)]) (\<lambda>_. fail e)
       | Inr (Some e) \<Rightarrow> done_with (NotWrittenRecoveryRequired
           (''live auth was not replaced, but the fixed recovery record became visible without durable confirmation: ''
             @ show_chain e))
       | Inr None \<Rightarrow> exchange_and_settle p) (\<lambda>_. T) T"
      by (cases r; cases "projr r")
        (auto intro: exchange triple_seq [OF drop triple_fail] triple_done weaken simp del: drop_owned.simps)
  qed
qed

lemma exchange_triple: "triple (touched_or (ready p)) (exchange_and_settle p) (\<lambda>_. safe p) (safe p)"
proof (rule exchange_between)
  show "triple (touched_or (ready p)) (exchange_files CandidateFile LiveFile) (\<lambda>_. safe p) (safe p)"
    unfolding exchange_files_def
    by (rule ready.triple_primitive)
      (auto simp: touched_or_def ready_def phase_defs set_slot_def split: option.splits)
  show "keeps (touched_or (ready p)) open_live"
    by (rule ready.keeps_open) (auto simp: touched_or_def ready_def phase_defs)
  show "touched_or (ready p) w \<Longrightarrow> safe p w" for w
    by (auto simp: touched_or_def ready_def)
qed (rule ready.stable_assertion_axioms safe.stable_assertion_axioms keeps_settle)+

lemma touched_safe: "touched_or (\<lambda>_. False) w \<Longrightarrow> safe p w"
  by (auto simp: touched_or_def)

lemma drop_ready:
  "triple (touched_or (ready p)) (drop_owned [(StageFile, pb_backup p), (CandidateFile, pb_candidate p)])
     (\<lambda>_. safe p) (safe p)"
proof (rule triple_mono [OF triple_keeps [OF original.keeps_drop]])
  show "touched_or (original_live p) (set_slot s None w)"
    if "touched_or (original_live p) w" "s \<in> fst ` set [(StageFile, pb_backup p), (CandidateFile, pb_candidate p)]"
      "aw_files w s = Some f" for w s f
    using that by (auto simp: touched_or_def phase_defs set_slot_def)
qed (auto simp: touched_or_def ready_def)

lemma published_triple: "triple (touched_or (staged p)) (replace_expected p) (\<lambda>_. safe p) (safe p)"
  by (rule replace_between [OF prepare_triple triple_mono [OF triple_keeps [OF publish_keeps]] drop_ready
        exchange_triple])
    (auto simp: touched_or_def ready_def staged_def)

text \<open>Where a live file exists, a write that expects none leaves it alone.\<close>

lemma absent_keeps:
  assumes "stable_assertion A" "\<And>w. A w \<Longrightarrow> aw_files w CandidateTemp = None \<Longrightarrow>
      A (set_slot CandidateTemp (Some (pb_candidate q)) w)"
    and "\<And>w. A w \<Longrightarrow> A (set_slot CandidateTemp None w)"
    and "\<And>w f. A w \<Longrightarrow> aw_files w CandidateTemp = Some f \<Longrightarrow> aw_files w LiveFile = None \<Longrightarrow>
      A (set_slot CandidateTemp None (set_slot LiveFile (Some f) w))"
  shows "keeps A (create_if_absent q)"
  unfolding create_if_absent_def
  by (intro keeps_intros stable_assertion.keeps_drop [OF assms(1)] stable_assertion.keeps_create [OF assms(1)]
      stable_assertion.keeps_rename [OF assms(1)] stable_assertion.keeps_observations [OF assms(1)]
      stable_assertion.keeps_dropping [OF assms(1)] stable_assertion.keeps_make_durable [OF assms(1)])
    (auto intro: assms)

lemma absent_triple:
  assumes "pb_candidate q = pb_candidate p"
  shows "keeps (touched_or (staged p)) (create_if_absent q)"
  by (rule absent_keeps [OF staged.stable_assertion_axioms])
    (use assms in \<open>auto simp: touched_or_def staged_def phase_defs set_slot_def\<close>)

text \<open>The first look decides: the expected file, or another.\<close>

lemma write_between:
  assumes "\<And>live. triple (B live) (case live of None \<Rightarrow> done_with Changed | Some token \<Rightarrow>
      if snd token \<noteq> bytes then done_with Changed
      else replace_expected (publication_of inodes contents record_text token)) Q C"
    and "triple A (token_if_present LiveFile) B C"
  shows "triple A (publish_conditionally inodes record_text (Some bytes) contents) Q C"
  unfolding publish_conditionally_def option.case
  by (rule triple_seq [OF assms(2) assms(1)])

lemma write_triple:
  assumes p: "p = publication_of inodes contents record_text token"
  shows "triple (touched_or (staged p))
     (publish_conditionally inodes record_text expected contents) (\<lambda>_. safe p) (safe p)"
proof (cases expected)
  case None
  then show ?thesis
    unfolding publish_conditionally_def option.case
    by (simp, intro triple_mono [OF triple_keeps [OF absent_triple]])
      (auto simp: p publication_of_def touched_or_def staged_def)
next
  case (Some bytes)
  let ?seen = "\<lambda>live w. if live = Some token then touched_or (staged p) w else touched_or (\<lambda>_. False) w"
  have weaken: "touched_or (staged p) w \<Longrightarrow> safe p w" for w
    by (auto simp: touched_or_def staged_def)
  show ?thesis
    unfolding Some
  proof (rule write_between)
    show "triple (touched_or (staged p)) (token_if_present LiveFile) ?seen (safe p)"
      by (rule staged.triple_look_weak)
        (auto simp: touched_or_def staged_def phase_defs p publication_of_def)
    fix live
    let ?rest = "case live of None \<Rightarrow> done_with Changed | Some token \<Rightarrow>
      if snd token \<noteq> bytes then done_with Changed
      else replace_expected (publication_of inodes contents record_text token)"
    have "keeps (touched_or (\<lambda>_. False)) ?rest"
      unfolding replace_expected_def
      by (intro keeps_intros touched.keeps_prepare_frame touched.keeps_publish_frame
          touched.keeps_exchange_frame touched.keeps_drop_own) (simp_all add: touched.owns_def)
    then have "triple (touched_or (\<lambda>_. False)) ?rest (\<lambda>_. safe p) (safe p)"
      by (rule triple_mono [OF triple_keeps]) (erule touched_safe | assumption)+
    moreover have "triple (touched_or (staged p)) ?rest (\<lambda>_. safe p) (safe p)" if "live = Some token"
      unfolding that option.case p [symmetric]
      by (intro triple_if published_triple triple_done weaken)
    ultimately show "triple (?seen live) ?rest (\<lambda>_. safe p) (safe p)"
      by (cases "live = Some token") simp_all
  qed
qed

text \<open>Before the write: one live file, nothing else, and fresh inodes.\<close>

definition clean_start :: "nat \<times> nat \<times> nat \<Rightarrow> world \<Rightarrow> bool" where
  "clean_start inodes w \<longleftrightarrow>
     list_all (\<lambda>s. aw_files w s = (if s = LiveFile then Some (aw_original w) else None)) slots
     \<and> \<not> aw_touched w \<and> aw_written w = [] \<and> aw_overwritten w = []
     \<and> fst inodes \<noteq> fst (aw_original w) \<and> fst (snd inodes) \<in> set (aw_private w)
     \<and> fst (snd inodes) \<noteq> fst (aw_original w) \<and> fst (snd inodes) \<noteq> fst inodes"

text \<open>
  The original is live, or a private copy of it is kept, unless a foreign writer has itself
  replaced or changed it.
\<close>

definition original_kept :: "world \<Rightarrow> bool" where
  "original_kept w \<longleftrightarrow>
     aw_touched w \<or> aw_files w LiveFile = Some (aw_original w)
     \<or> list_ex (\<lambda>s. case aw_files w s of
          Some f \<Rightarrow> fst f \<in> set (aw_private w) \<and> snd f = snd (aw_original w) | None \<Rightarrow> False)
         [StageFile, BackupFile]"

text \<open>Without a record the write does not recover anything first.\<close>

lemma nothing_to_recover:
  assumes "stable_assertion A" "\<And>w. A w \<Longrightarrow> C w"
    and "triple A (publish_conditionally inodes record_text expected contents) Q C"
  shows "triple (\<lambda>w. A w \<and> aw_files w RecordFile = None)
    (atomic_write_private_if_unchanged earlier inodes record_text expected contents) Q C"
proof -
  have "stable_assertion (\<lambda>w. aw_files w RecordFile = None)"
    by (rule stable_assertionI) (simp_all add: foreign_absent del: foreign_step.simps)
  from stable_conj [OF assms(1) this]
  have "triple (\<lambda>w. A w \<and> aw_files w RecordFile = None) (recover_interrupted_auth_publication earlier)
      (\<lambda>_. A) C"
    unfolding recover_interrupted_auth_publication_def
    by (rule stable_assertion.triple_look_seq [where P = "\<lambda>x. x = None"])
      (auto intro: triple_done assms(2))
  from triple_seq [OF triple_context [OF this] assms(3)] show ?thesis
    unfolding atomic_write_private_if_unchanged_def .
qed

lemma clean_final:
  assumes start: "clean_start inodes w" and A: "stable_assertion A" "A w" "\<And>w. A w \<Longrightarrow> B w"
    and run: "triple A (publish_conditionally inodes' record_text expected contents) (\<lambda>_. B) B"
  shows "B (snd (atomic_write_private_if_unchanged earlier inodes' record_text expected contents w))"
proof (rule triple_final [OF nothing_to_recover [OF A(1) _ run]])
  show "A w \<and> aw_files w RecordFile = None"
    using start A(2) by (simp add: clean_start_def slots_def)
qed (rule A(3))

text \<open>Recoveries by later processes, each under its own environment.\<close>

definition recoveries :: "publication \<Rightarrow> interference list list \<Rightarrow> world \<Rightarrow> world" where
  "recoveries p scripts w =
     fold (\<lambda>script w. snd (recover_interrupted_auth_publication p (w\<lparr>aw_script := script, aw_doomed := None\<rparr>))) scripts w"

text \<open>A world to run in: the old credential is live, and the backup's inode is private.\<close>

definition sample_world :: "interference list \<Rightarrow> world" where
  "sample_world script =
     \<lparr>aw_files = (\<lambda>s. if s = LiveFile then Some (1, ''old'') else None), aw_handle = (0, []),
      aw_script = script, aw_original = (1, ''old''), aw_private = [3], aw_touched = False,
      aw_written = [], aw_overwritten = [], aw_doomed = None, aw_raced = []\<rparr>"

lemma sample_start: "clean_start (2, 3, 4) (sample_world script)"
  by (simp add: clean_start_def sample_world_def slots_def)

lemma sample_script [simp]: "aw_script (sample_world script) = script"
  "aw_original (sample_world script) = (1, ''old'')"
  by (simp_all add: sample_world_def)

lemma recoveries_keep:
  assumes "A w" "keeps A (recover_interrupted_auth_publication p)"
    and "\<And>w script. script \<in> set scripts \<Longrightarrow> A w \<Longrightarrow> A (w\<lparr>aw_script := script, aw_doomed := None\<rparr>)"
  shows "A (recoveries p scripts w)"
  using assms(1,3)
proof (induction scripts arbitrary: w)
  case (Cons script scripts)
  then show ?case using assms(2) by (auto simp: recoveries_def keeps_def)
qed (simp add: recoveries_def)

lemma safe_kept: "safe p w \<Longrightarrow> snd (pb_backup p) = snd (pb_expected p) \<Longrightarrow> original_kept w"
  by (auto simp: touched_or_def phase_defs original_kept_def)

text \<open>
  C14. A write never loses the original credential. From a clean start, whatever foreign
  writers do, whichever call of the file system fails, and wherever the process stops, and
  through any number of recoveries that are themselves interrupted: as long as no foreign
  writer has replaced or changed the original itself, it is still live or its backup copy is
  held.
\<close>

theorem original_never_lost:
  assumes start: "clean_start inodes w"
    and p: "p = publication_of inodes contents record_text (aw_original w)"
  shows "original_kept (recoveries p scripts
     (snd (atomic_write_private_if_unchanged earlier inodes record_text expected contents w)))"
proof (rule safe_kept [of p], rule recoveries_keep [where A = "safe p"])
  have "touched_or (staged p) w"
    using start by (simp add: clean_start_def slots_def touched_or_def staged_def phase_defs p publication_of_def)
  then have "safe p (snd (atomic_write_private_if_unchanged earlier inodes record_text expected contents w))"
    by (rule clean_final [OF start staged.stable_assertion_axioms _ _ write_triple [OF p]])
      (auto simp: touched_or_def staged_def)
  then show "safe p (snd (atomic_write_private_if_unchanged earlier inodes record_text expected contents w))" .
  show "keeps (safe p) (recover_interrupted_auth_publication p)" by (rule keeps_recover)
  show "safe p (w\<lparr>aw_script := script, aw_doomed := None\<rparr>)" if "safe p w" for w script
    using that by (simp add: touched_or_def phase_defs)
  show "snd (pb_backup p) = snd (pb_expected p)" by (simp add: p publication_of_def)
qed

theorem original_never_lost_witness:
  "clean_start (2, 3, 4) (sample_world (replicate 33 ([], Works) @ [([], Stops)]))
   \<and> original_kept (recoveries (publication_of (2, 3, 4) ''new'' ''r'' (1, ''old'')) [[([], Fails [])], []]
        (snd (atomic_write_private_if_unchanged (publication_of (0, 0, 0) [] [] (0, [])) (2, 3, 4) ''r'' (Some ''old'') ''new''
           (sample_world (replicate 33 ([], Works) @ [([], Stops)])))))"
  using original_never_lost [OF sample_start [of "replicate 33 ([], Works) @ [([], Stops)]"] refl] sample_start
  by simp

section \<open>Foreign files are never removed\<close>

text \<open>The bytes the write may discard: the expected credential, its candidate, its record.\<close>

definition own_bytes :: "string option \<Rightarrow> string \<Rightarrow> string \<Rightarrow> auth_file \<Rightarrow> bool" where
  "own_bytes expected contents record_text f \<longleftrightarrow>
     Some (snd f) = expected \<or> snd f = contents \<or> snd f = record_text"

definition present :: "auth_file \<Rightarrow> world \<Rightarrow> bool" where
  "present f w \<longleftrightarrow> list_ex (\<lambda>s. aw_files w s = Some f) slots"

definition foreign_kept :: "(auth_file \<Rightarrow> bool) \<Rightarrow> world \<Rightarrow> bool" where
  "foreign_kept own w \<longleftrightarrow>
     list_all (\<lambda>f. own f \<or> f \<in> set (aw_overwritten w) \<or> f \<in> set (aw_raced w) \<or> present f w)
       (aw_written w)"

lemma present_iff: "present f w \<longleftrightarrow> (\<exists>s. aw_files w s = Some f)"
proof -
  have "s \<in> set slots" for s by (cases s) (simp_all add: slots_def)
  then show ?thesis by (auto simp: present_def list_ex_iff)
qed

lemma in_map_filter: "f \<in> set (List.map_filter g xs) \<longleftrightarrow> (\<exists>x\<in>set xs. g x = Some f)"
  by (induction xs) (auto simp: List.map_filter_simps split: option.splits)

lemma with_inode_present: "f \<in> set (with_inode i w) \<longleftrightarrow> present f w \<and> fst f = i"
proof -
  have "s \<in> set slots" for s by (cases s) (simp_all add: slots_def)
  then show ?thesis by (simp add: with_inode_def present_iff in_map_filter) blast
qed

lemma foreign_kept_mono:
  assumes "foreign_kept own w"
    and "\<And>f. present f w \<Longrightarrow>
      present f w' \<or> own f \<or> f \<in> set (aw_overwritten w') \<or> f \<in> set (aw_raced w')"
    and "set (aw_overwritten w) \<subseteq> set (aw_overwritten w')" "set (aw_raced w) \<subseteq> set (aw_raced w')"
    and "\<And>f. f \<in> set (aw_written w') \<Longrightarrow> f \<in> set (aw_written w) \<or> present f w'"
  shows "foreign_kept own w'"
  unfolding foreign_kept_def list_all_iff
proof
  fix f
  assume "f \<in> set (aw_written w')"
  with assms show "own f \<or> f \<in> set (aw_overwritten w') \<or> f \<in> set (aw_raced w') \<or> present f w'"
    unfolding foreign_kept_def list_all_iff by blast
qed

lemma foreign_present:
  assumes "present f w"
  shows "present f (foreign_step a w) \<or> f \<in> set (aw_overwritten (foreign_step a w))"
proof -
  from assms obtain s where s: "aw_files w s = Some f" by (auto simp: present_iff)
  consider i bytes where "a = WriteInode i bytes" "i \<in> set (aw_private w) \<or> fst f \<noteq> i"
    | i bytes where "a = WriteInode i bytes" "i \<notin> set (aw_private w)" "fst f = i"
    | "\<forall>i bytes. a \<noteq> WriteInode i bytes" "s = LiveFile"
    | "\<forall>i bytes. a \<noteq> WriteInode i bytes" "s \<noteq> LiveFile"
    by (cases a) auto
  then show ?thesis
  proof cases
    case 1
    with s have "aw_files (foreign_step a w) s = Some f" by auto
    then show ?thesis by (auto simp: present_iff)
  next
    case 2
    with assms show ?thesis by (simp add: with_inode_present)
  next
    case 3
    with assms s show ?thesis by (cases a) (auto simp: List.map_filter_simps)
  next
    case 4
    with s have "aw_files (foreign_step a w) s = Some f" by (cases a) auto
    then show ?thesis by (auto simp: present_iff)
  qed
qed

lemma foreign_kept_step: "foreign_kept own w \<Longrightarrow> foreign_kept own (foreign_step a w)"
proof (erule foreign_kept_mono)
  show "present f w \<Longrightarrow> present f (foreign_step a w) \<or> own f
      \<or> f \<in> set (aw_overwritten (foreign_step a w)) \<or> f \<in> set (aw_raced (foreign_step a w))" for f
    using foreign_present by blast
next
  show "set (aw_overwritten w) \<subseteq> set (aw_overwritten (foreign_step a w))"
    "set (aw_raced w) \<subseteq> set (aw_raced (foreign_step a w))"
    by (cases a; simp; blast)+
next
  fix f
  assume f: "f \<in> set (aw_written (foreign_step a w))"
  show "f \<in> set (aw_written w) \<or> present f (foreign_step a w)"
  proof (cases a)
    case (WriteInode i bytes)
    show ?thesis
    proof (cases "i \<in> set (aw_private w) \<or> f \<in> set (aw_written w)")
      case False
      with f WriteInode obtain g where "present g w" "f = write_inode i bytes g"
        by (auto simp: with_inode_present)
      with False WriteInode show ?thesis by (auto simp: present_iff simp del: split_paired_Ex)
    qed (use f WriteInode in auto)
  qed (use f in \<open>auto simp: present_iff split: if_splits\<close>)
qed

lemma present_slot:
  "present f w \<Longrightarrow> present f (set_slot s g w) \<or> aw_files w s = Some f"
  by (force simp: present_iff set_slot_def)

lemma foreign_kept_slots:
  assumes "foreign_kept own w"
    and "\<And>f. present f w \<Longrightarrow> present f (w\<lparr>aw_files := files\<rparr>) \<or> own f \<or> f \<in> set (aw_raced w)"
  shows "foreign_kept own (w\<lparr>aw_files := files\<rparr>)"
  by (rule foreign_kept_mono [OF assms(1)]) (use assms(2) in auto)

interpretation foreign: stable_assertion "foreign_kept own" for own
  by (rule stable_assertionI) (simp_all add: foreign_kept_step, simp_all add: foreign_kept_def present_def)

text \<open>
  The window of a removal, from the check of a token to the unlink: the name shows the file that
  was checked, or what a foreign writer has meanwhile written into it.
\<close>

definition removal_window :: "(auth_file \<Rightarrow> bool) \<Rightarrow> auth_file \<Rightarrow> slot \<Rightarrow> world \<Rightarrow> bool" where
  "removal_window own f s w \<longleftrightarrow>
     s \<noteq> LiveFile \<and> foreign_kept own w \<and> aw_doomed w = Some (fst f)
     \<and> (\<forall>g. aw_files w s = Some g \<longrightarrow> fst g = fst f \<and> (g = f \<or> g \<in> set (aw_raced w)))"

lemma foreign_doomed [simp]: "aw_doomed (foreign_step a w) = aw_doomed w"
  by (cases a) auto

lemma foreign_raced: "g \<in> set (aw_raced w) \<Longrightarrow> g \<in> set (aw_raced (foreign_step a w))"
  by (cases a) auto

lemma foreign_window_file:
  assumes "s \<noteq> LiveFile" "aw_files (foreign_step a w) s = Some g"
  shows "aw_files w s = Some g
     \<or> (\<exists>h bytes. aw_files w s = Some h \<and> fst h = fst g
          \<and> (aw_doomed w = Some (fst g) \<longrightarrow> g \<in> set (aw_raced (foreign_step a w))))"
proof (cases a)
  case (WriteInode i bytes)
  show ?thesis
  proof (cases "i \<in> set (aw_private w)")
    case False
    with assms(2) WriteInode obtain h where h: "aw_files w s = Some h" "g = write_inode i bytes h" by auto
    show ?thesis
    proof (cases "fst h = i")
      case True
      have "h \<in> set (with_inode i w)" using h(1) True by (auto simp: with_inode_present present_iff)
      with h True False WriteInode show ?thesis by auto
    qed (use h in simp)
  qed (use assms WriteInode in simp)
qed (use assms in \<open>auto split: if_splits\<close>)

lemma removal_window_step:
  assumes "removal_window own f s w"
  shows "removal_window own f s (foreign_step a w)"
proof -
  have s: "s \<noteq> LiveFile" using assms by (simp add: removal_window_def)
  have "fst g = fst f \<and> (g = f \<or> g \<in> set (aw_raced (foreign_step a w)))"
    if "aw_files (foreign_step a w) s = Some g" for g
    using foreign_window_file [OF s that] assms foreign_raced [of _ w a]
    unfolding removal_window_def by metis
  with assms foreign_kept_step show ?thesis by (simp add: removal_window_def)
qed

interpretation window: environment_assertion "removal_window own f s" for own f s
  by (rule environment_assertionI, erule removal_window_step)
    (simp_all add: removal_window_def foreign_kept_def present_def)

lemma foreign_remove:
  assumes "s \<noteq> LiveFile" "own f"
  shows "keeps (foreign_kept own) (remove_exact s f)"
proof -
  have checked: "triple (foreign_kept own) (ensure_path_token s f) (\<lambda>_. removal_window own f s) (foreign_kept own)"
    unfolding ensure_path_token_def
    by (rule foreign.triple_primitive)
      (auto simp: removal_window_def foreign.unwatched assms(1) split: if_splits)
  have "foreign_kept own (set_slot s None w)" if "removal_window own f s w" for w
    unfolding set_slot_def
  proof (rule foreign_kept_slots)
    show "present g (w\<lparr>aw_files := (aw_files w)(s := None)\<rparr>) \<or> own g \<or> g \<in> set (aw_raced w)"
      if "present g w" for g
      using present_slot [OF that, of s None] \<open>removal_window own f s w\<close> assms(2)
      unfolding removal_window_def set_slot_def by blast
  qed (use that in \<open>simp add: removal_window_def\<close>)
  then have unlinked: "triple (removal_window own f s) (remove_file s) (\<lambda>_. foreign_kept own) (foreign_kept own)"
    unfolding remove_file_def
    by (intro window.triple_primitive)
      (auto simp: removal_window_def split: if_splits)
  have "keeps (foreign_kept own) (seq (ensure_path_token s f) (\<lambda>_. remove_file s))"
    by (rule keeps_triple, rule triple_seq [OF checked unlinked])
  then have "keeps (foreign_kept own) (attempt (seq (ensure_path_token s f) (\<lambda>_. remove_file s)))"
    by (rule keeps_attempt)
  then show ?thesis
    unfolding remove_exact_def
    by (rule keeps_seq, intro keeps_intros foreign.keeps_observations foreign.keeps_removal)
qed

interpretation foreign: frame_assertion "foreign_kept own" own for own
proof unfold_locales
  fix w s f
  show "keeps (foreign_kept own) (remove_bound_path s f)" if "s \<noteq> LiveFile" "own f"
    unfolding remove_bound_path_def
    by (intro keeps_intros foreign.keeps_add_context foreign.keeps_observations foreign_remove that)
  assume w: "foreign_kept own w"
  show "foreign_kept own (w\<lparr>aw_handle := f\<rparr>)"
    using w by (simp add: foreign_kept_def present_def)
  show "foreign_kept own (set_slot s (Some f) w)" if "aw_files w s = None"
    using foreign_kept_slots [OF w, of "(aw_files w)(s \<mapsto> f)"] that
    by (simp add: set_slot_def present_iff) (metis fun_upd_apply option.distinct(1))
  show "foreign_kept own (set_slot a None (set_slot b (Some f) w))"
    if "aw_files w a = Some f" "aw_files w b = None" for a b
    using foreign_kept_slots [OF w, of "(aw_files w)(b \<mapsto> f, a := None)"] that
    by (simp add: set_slot_def present_iff) (metis fun_upd_apply option.distinct(1) option.inject)
  show "foreign_kept own (set_slot a (Some g) (set_slot b (Some f) w))"
    if "aw_files w a = Some f" "aw_files w b = Some g" for a b g
    using foreign_kept_slots [OF w, of "(aw_files w)(b \<mapsto> f, a \<mapsto> g)"] that
    by (simp add: set_slot_def present_iff) (metis fun_upd_apply option.inject)
qed

text \<open>
  C17. A write never removes what someone else wrote, but for one window. From a clean start, in
  every environment and through every sequence of recoveries: a file that a foreign writer produced
  is still there under one of the transaction's names, unless a foreign writer has itself written
  over it or deleted it, or its bytes are the expected credential, the candidate or the record, or
  it was written in place into a file of the transaction between the check of that file's token
  and its removal.
\<close>

theorem foreign_files_survive:
  assumes start: "clean_start inodes w"
    and after: "after = recoveries (publication_of inodes contents record_text token) scripts
      (snd (atomic_write_private_if_unchanged earlier inodes record_text expected contents w))"
    and "expected = Some (snd token)" "f \<in> set (aw_written after)"
    and "f \<notin> set (aw_overwritten after)" "f \<notin> set (aw_raced after)"
    and "\<not> own_bytes expected contents record_text f"
  shows "present f after"
proof -
  let ?own = "own_bytes expected contents record_text"
  have owns: "foreign.owns ?own (publication_of inodes contents record_text t)" if "snd t = snd token" for t
    using assms(3) that by (simp add: foreign.owns_def own_bytes_def publication_of_def)
  have "keeps (foreign_kept ?own) (publish_conditionally inodes record_text expected contents)"
    by (rule foreign.keeps_write) (use assms(3) owns in \<open>auto simp: own_bytes_def\<close>)
  note run = clean_final [OF start foreign.stable_assertion_axioms _ _ triple_keeps [OF this]]
  have "foreign_kept ?own w" using start by (simp add: clean_start_def foreign_kept_def)
  then have "foreign_kept ?own (snd (atomic_write_private_if_unchanged earlier inodes record_text expected contents w))"
    by (rule run)
  then have "foreign_kept ?own after"
    unfolding after
    by (rule recoveries_keep) (rule foreign.keeps_recover_frame, rule owns, rule refl,
      simp add: foreign_kept_def present_def)
  with assms(4-) show ?thesis by (auto simp: foreign_kept_def list_all_iff)
qed

text \<open>A foreign writer replaces the live file just before the exchange.\<close>

definition racing_script :: "interference list" where
  "racing_script = replicate 31 ([], Works) @ [([ReplaceLive (9, ''foreign'')], Works)]"

theorem foreign_files_survive_witness:
  "let after = recoveries (publication_of (2, 3, 4) ''new'' ''r'' (1, ''old'')) [[]]
        (snd (atomic_write_private_if_unchanged (publication_of (0, 0, 0) [] [] (0, [])) (2, 3, 4) ''r'' (Some ''old'') ''new''
          (sample_world racing_script)))
   in (9, ''foreign'') \<in> set (aw_written after) \<and> present (9, ''foreign'') after"
proof -
  let ?after = "recoveries (publication_of (2, 3, 4) ''new'' ''r'' (1, ''old'')) [[]]
        (snd (atomic_write_private_if_unchanged (publication_of (0, 0, 0) [] [] (0, [])) (2, 3, 4) ''r'' (Some ''old'') ''new''
          (sample_world racing_script)))"
  have "aw_written ?after = [(9, ''foreign'')]" "aw_overwritten ?after = [(1, ''old'')]" "aw_raced ?after = []"
    by code_simp+
  moreover have "\<not> own_bytes (Some ''old'') ''new'' ''r'' (9, ''foreign'')" by code_simp
  ultimately show ?thesis
    using foreign_files_survive [OF sample_start refl, of "Some ''old''" "(1, ''old'')" "(9, ''foreign'')"]
    by (simp add: Let_def)
qed

text \<open>
  The window is there: an undisturbed write in which a foreign writer writes into the displaced
  file just before its check keeps those bytes, and just before its unlink loses them.
\<close>

definition late_script :: "nat \<Rightarrow> interference list" where
  "late_script n = replicate n ([], Works) @ [([WriteInode 1 ''late''], Works)]"

lemma removal_window_loses:
  "let after = (\<lambda>n. snd (atomic_write_private_if_unchanged (publication_of (0, 0, 0) [] [] (0, [])) (2, 3, 4) ''r''
         (Some ''old'') ''new'' (sample_world (late_script n))))
   in present (1, ''late'') (after 39) \<and> aw_raced (after 39) = []
      \<and> \<not> present (1, ''late'') (after 40) \<and> aw_raced (after 40) = [(1, ''late'')]"
  by code_simp

section \<open>Recovery completes\<close>

text \<open>No foreign writer is at work; calls may still fail and processes stop.\<close>

definition quiet :: "interference list \<Rightarrow> bool" where
  "quiet script \<longleftrightarrow> list_all (\<lambda>(actions, _). actions = []) script"

text \<open>The states of a transaction, before and after its exchange.\<close>

definition unpublished :: "publication \<Rightarrow> world \<Rightarrow> bool" where
  "unpublished p w \<longleftrightarrow>
     quiet (aw_script w) \<and> pb_candidate p \<noteq> pb_expected p \<and> snd (pb_backup p) = snd (pb_expected p)
     \<and> aw_files w LiveFile = Some (pb_expected p)
     \<and> aw_files w BackupFile = None
     \<and> aw_files w CandidateFile \<in> {None, Some (pb_candidate p)}
     \<and> aw_files w StageFile \<in> {None, Some (pb_backup p)}
     \<and> aw_files w RecordFile \<in> {None, Some (pb_record p)}
     \<and> aw_files w CandidateTemp \<in> {None, Some (pb_candidate p)}
     \<and> aw_files w StageTemp \<in> {None, Some (pb_backup p)}
     \<and> aw_files w RecordTemp \<in> {None, Some (pb_record p)}"

definition backup_kept :: "publication \<Rightarrow> auth_file option \<Rightarrow> auth_file option \<Rightarrow> bool" where
  "backup_kept p stage backup \<longleftrightarrow>
     stage = Some (pb_backup p) \<and> backup = None \<or> stage = None \<and> backup = Some (pb_backup p)"

definition finalized :: "publication \<Rightarrow> world \<Rightarrow> bool" where
  "finalized p w \<longleftrightarrow>
     quiet (aw_script w) \<and> pb_candidate p \<noteq> pb_expected p \<and> snd (pb_backup p) = snd (pb_expected p)
     \<and> aw_files w LiveFile = Some (pb_candidate p) \<and> aw_files w CandidateFile = None
     \<and> aw_files w StageFile = None \<and> aw_files w BackupFile = Some (pb_backup p)
     \<and> aw_files w RecordFile \<in> {None, Some (pb_record p)}"

definition displaced_at :: "publication \<Rightarrow> auth_file option set \<Rightarrow> world \<Rightarrow> bool" where
  "displaced_at p displaced w \<longleftrightarrow>
     quiet (aw_script w) \<and> pb_candidate p \<noteq> pb_expected p \<and> snd (pb_backup p) = snd (pb_expected p)
     \<and> aw_files w LiveFile = Some (pb_candidate p)
     \<and> aw_files w CandidateFile \<in> displaced
     \<and> backup_kept p (aw_files w StageFile) (aw_files w BackupFile)
     \<and> aw_files w RecordFile = Some (pb_record p)"

abbreviation exchanged_at :: "publication \<Rightarrow> world \<Rightarrow> bool" where
  "exchanged_at p \<equiv> displaced_at p {None, Some (pb_expected p)}"

definition consistent :: "publication \<Rightarrow> world \<Rightarrow> bool" where
  "consistent p w \<longleftrightarrow> unpublished p w \<or> exchanged_at p w \<or> finalized p w"

lemma stable_quiet:
  assumes "\<And>w. A w \<Longrightarrow> quiet (aw_script w)" "\<And>w rest. A w \<Longrightarrow> quiet rest \<Longrightarrow> A (w\<lparr>aw_script := rest\<rparr>)"
    and "\<And>w doomed. A w \<Longrightarrow> A (w\<lparr>aw_doomed := doomed\<rparr>)"
  shows "stable_assertion A"
proof
  show "A w \<Longrightarrow> A (w\<lparr>aw_doomed := doomed\<rparr>)" for w doomed by (rule assms(3))
  show "A (fold foreign_step actions (w\<lparr>aw_script := rest\<rparr>))"
    if "A w" "aw_script w = (actions, verdict) # rest" for w actions verdict rest
    using assms that by (force simp: quiet_def)
qed

lemmas state_defs = unpublished_def displaced_at_def finalized_def backup_kept_def

interpretation unpublished: stable_assertion "unpublished p" for p
  by (rule stable_quiet) (auto simp: unpublished_def)

interpretation displaced_at: stable_assertion "displaced_at p displaced" for p displaced
  by (rule stable_quiet) (auto simp: displaced_at_def)

interpretation finalized: stable_assertion "finalized p" for p
  by (rule stable_quiet) (auto simp: finalized_def)

interpretation consistent: stable_assertion "consistent p" for p
  by (rule stable_quiet) (auto simp: consistent_def state_defs)

lemma unpublished_cleanup: "keeps (unpublished p) (cleanup_unpublished_auth p)"
  unfolding cleanup_unpublished_auth_def remove_publication_record_def
  by (intro keeps_intros unpublished.keeps_observations unpublished.keeps_remove)
    (auto simp: unpublished_def set_slot_def)

lemma unpublished_settle: "keeps (unpublished p) (settle_auth_publication p observation)"
proof -
  have forget: "keeps (unpublished p) (remove_publication_record p)"
    unfolding remove_publication_record_def
    by (rule unpublished.keeps_remove) (auto simp: unpublished_def set_slot_def)
  have distinct: "pb_candidate p \<noteq> pb_expected p" if "unpublished p w" for w
    using that by (simp add: unpublished_def)
  have "triple (unpublished p) (settle_auth_publication p observation) (\<lambda>_. unpublished p) (unpublished p)"
    unfolding settle_auth_publication_def Let_def
  proof (rule triple_assume, erule distinct,
      rule unpublished.triple_look_seq [where P = "\<lambda>x. x = Some (pb_expected p)"],
      simp add: unpublished_def,
      rule unpublished.triple_look_seq [where P = "\<lambda>x. x \<in> {None, Some (pb_candidate p)}"],
      simp add: unpublished_def)
  qed (auto intro!: triple_keeps keeps_intros unpublished.keeps_observations unpublished.keeps_settled
        unpublished_cleanup forget)
  then show ?thesis by (rule keeps_triple)
qed

lemma remove_displaced:
  "triple (exchanged_at p) (remove_bound_path CandidateFile (pb_expected p))
     (\<lambda>_. displaced_at p {None}) (exchanged_at p)"
proof -
  have remove: "keeps (exchanged_at p) (remove_exact CandidateFile (pb_expected p))"
    by (rule displaced_at.keeps_remove_exact) (auto simp: displaced_at_def set_slot_def)
  have weaken: "displaced_at p {None} w \<Longrightarrow> exchanged_at p w" for w
    by (simp add: displaced_at_def)
  show ?thesis
    unfolding remove_bound_path_def
  proof (rule triple_seq_keeps [OF keeps_attempt [OF remove]], assumption, rule triple_seq)
    show "triple (exchanged_at p) (token_if_present CandidateFile)
        (\<lambda>x w. displaced_at p {x} w \<and> exchanged_at p w) (exchanged_at p)"
      by (rule displaced_at.triple_look) (auto simp: displaced_at_def)
    fix boundary :: "bool result" and x
    have synced: "triple (displaced_at p {None}) (add_context c sync_parent) (\<lambda>_. displaced_at p {None})
        (exchanged_at p)" for c
      by (rule triple_mono [OF triple_keeps [OF displaced_at.keeps_add_context
              [OF displaced_at.keeps_observations(3)]]]) (assumption | erule weaken)+
    show "triple (\<lambda>w. displaced_at p {x} w \<and> exchanged_at p w)
        (case x of
           None \<Rightarrow> (case boundary of Inl e \<Rightarrow> fail (''the exact path disappeared during failed token-bound cleanup'' # e)
             | Inr True \<Rightarrow> done_with ()
             | Inr False \<Rightarrow> add_context ''the exact file disappeared, but its removal is not durably confirmed'' sync_parent)
         | Some observed \<Rightarrow>
             if observed = pb_expected p
             then fail (boundary_error boundary ''exact file remained after a successful removal boundary'')
             else fail [''refusing to remove replacement''])
        (\<lambda>_. displaced_at p {None}) (exchanged_at p)"
      by (cases x; cases boundary; auto split: bool.split intro: triple_done triple_fail triple_mono [OF synced])
  qed
qed

lemma look_backup:
  assumes "\<And>stage backup. backup_kept p stage backup \<Longrightarrow>
      triple (\<lambda>w. displaced_at p X w \<and> aw_files w StageFile = stage) (f stage backup) Q C"
    and weaken: "\<And>w. displaced_at p X w \<Longrightarrow> C w"
  shows "triple (displaced_at p X) (seq (token_if_present StageFile) (\<lambda>stage.
      seq (token_if_present BackupFile) (f stage))) Q C"
proof (rule triple_seq)
  show "triple (displaced_at p X) (token_if_present StageFile)
      (\<lambda>stage w. displaced_at p X w \<and> aw_files w StageFile = stage) C"
    by (rule displaced_at.triple_look_weak) (simp, erule weaken)
  show "triple (\<lambda>w. displaced_at p X w \<and> aw_files w StageFile = stage)
      (seq (token_if_present BackupFile) (f stage)) Q C" for stage
  proof (rule stable_assertion.triple_look_seq [where P = "backup_kept p stage"])
    show "stable_assertion (\<lambda>w. displaced_at p X w \<and> aw_files w StageFile = stage)"
      by (rule stable_quiet) (auto simp: displaced_at_def)
    show "backup_kept p stage (aw_files w BackupFile)" if "displaced_at p X w \<and> aw_files w StageFile = stage" for w
      using that by (auto simp: displaced_at_def)
  qed (rule assms(1), assumption, rule weaken, erule conjunct1)
qed

lemma promoted:
  assumes "backup_kept p stage backup"
  shows "triple (\<lambda>w. displaced_at p {None} w \<and> aw_files w StageFile = stage)
     (promote_backup p stage backup)
     (\<lambda>_. finalized p) (consistent p)"
proof -
  let ?D = "displaced_at p {None}"
  have weaken: "?D w \<Longrightarrow> consistent p w" "finalized p w \<Longrightarrow> consistent p w" for w
    by (simp_all add: consistent_def displaced_at_def)
  have final: "finalized p w" if "?D w \<and> aw_files w StageFile = None" for w
    using that by (auto simp: state_defs)
  have rename: "keeps ?D (rename_noreplace StageFile BackupFile)"
    by (rule displaced_at.keeps_rename) (auto simp: displaced_at_def backup_kept_def set_slot_def)
  have synced: "triple (\<lambda>w. ?D w \<and> aw_files w StageFile = None) m (\<lambda>_. finalized p) (consistent p)"
    if "keeps (finalized p) m" for m :: "unit op"
    by (rule triple_mono [OF triple_keeps [OF that]]) (erule final | assumption | erule weaken)+
  show ?thesis
  proof (cases "stage = None")
    case True
    with assms have "backup = Some (pb_backup p)" by (simp add: backup_kept_def)
    with True synced [OF finalized.keeps_observations(3)] show ?thesis by (simp add: promote_backup_def)
  next
    case False
    with assms have kept: "stage = Some (pb_backup p)" "backup = None" by (auto simp: backup_kept_def)
    have "triple ?D (seq (token_if_present StageFile) (\<lambda>stage_after.
           seq (token_if_present BackupFile) (\<lambda>backup_after.
             if backup_after \<noteq> Some (pb_backup p) \<or> stage_after \<noteq> None
             then fail (boundary_error boundary ''independent backup promotion left unclassified state'')
             else add_context ''the independent backup is visible, but its namespace commit is not durable''
                    sync_parent))) (\<lambda>_. finalized p) (consistent p)" for boundary :: "unit result"
    proof (rule look_backup [OF _ weaken(1)])
      fix stage_after backup_after
      show "triple (\<lambda>w. ?D w \<and> aw_files w StageFile = stage_after)
        (if backup_after \<noteq> Some (pb_backup p) \<or> stage_after \<noteq> None
             then fail (boundary_error boundary ''independent backup promotion left unclassified state'')
             else add_context ''the independent backup is visible, but its namespace commit is not durable''
                    sync_parent) (\<lambda>_. finalized p) (consistent p)"
        using synced [OF finalized.keeps_add_context [OF finalized.keeps_observations(3)]]
        by (cases stage_after) (auto intro: triple_fail weaken)
    qed
    then show ?thesis
      unfolding promote_backup_def kept simp_thms if_True
      by (intro triple_mono [OF triple_seq_keeps [OF keeps_attempt [OF rename] weaken(1)]]) auto
  qed
qed

lemma exchanged_finalize:
  "triple (exchanged_at p) (finalize_independent_backup p) (\<lambda>_. consistent p) (consistent p)"
proof -
  have weaken: "displaced_at p {None} w \<Longrightarrow> consistent p w" "exchanged_at p w \<Longrightarrow> consistent p w"
    "finalized p w \<Longrightarrow> consistent p w" for w
    by (simp_all add: consistent_def displaced_at_def)
  have look: "triple (exchanged_at p) (token_if_present CandidateFile)
      (\<lambda>x w. displaced_at p {x} w \<and> exchanged_at p w) (consistent p)"
    by (rule displaced_at.triple_look_weak) (auto simp: displaced_at_def consistent_def)
  have rest: "keeps (finalized p) (seq (harden_private_file BackupFile) (\<lambda>_.
      seq (token_if_present LiveFile) (\<lambda>live.
      seq (remove_publication_record p) (\<lambda>_. done_with (live = Some (pb_candidate p))))))"
    unfolding remove_publication_record_def
    by (intro keeps_intros finalized.keeps_observations finalized.keeps_remove)
      (auto simp: finalized_def set_slot_def)
  show ?thesis
    unfolding finalize_independent_backup_def
  proof (intro triple_if triple_fail weaken(2), assumption,
      rule triple_seq_keeps [OF displaced_at.keeps_observations(3) weaken(2)], assumption,
      rule triple_seq [OF look], rule triple_seq [where R = "\<lambda>_. displaced_at p {None}"])
    fix x
    show "triple (\<lambda>w. displaced_at p {x} w \<and> exchanged_at p w)
       (case x of None \<Rightarrow> done_with ()
        | Some token \<Rightarrow>
            if token = pb_expected p
            then add_context ''removing the exact displaced live credential''
                   (remove_bound_path CandidateFile (pb_expected p))
            else fail [''the actual displaced live credential changed after publication''])
       (\<lambda>_. displaced_at p {None}) (consistent p)"
      by (cases x)
        (auto intro!: triple_done triple_fail weaken(2) triple_context triple_mono [OF remove_displaced])
    show "triple (displaced_at p {None}) (seq (token_if_present StageFile) (\<lambda>stage.
      seq (token_if_present BackupFile) (\<lambda>backup.
      seq (promote_backup p stage backup)
        (\<lambda>_.
      seq (harden_private_file BackupFile) (\<lambda>_.
      seq (token_if_present LiveFile) (\<lambda>live.
      seq (remove_publication_record p) (\<lambda>_.
        done_with (live = Some (pb_candidate p))))))))) (\<lambda>_. consistent p) (consistent p)"
      by (rule look_backup [OF triple_seq [OF promoted triple_weaken [OF rest, THEN triple_mono]]])
        (assumption | erule weaken)+
  qed
qed

lemma finalized_settle: "keeps (finalized p) (settle_auth_publication p observation)"
proof -
  have finalize: "keeps (finalized p) (finalize_independent_backup p)"
    unfolding finalize_independent_backup_def promote_backup_def remove_publication_record_def
    by (intro keeps_intros finalized.keeps_observations finalized.keeps_remove finalized.keeps_add_context
         finalized.keeps_rename) (auto simp: finalized_def set_slot_def)
  have facts: "finalized p w \<Longrightarrow> pb_candidate p \<noteq> pb_expected p" for w
    by (simp add: finalized_def)
  have "triple (finalized p) (settle_auth_publication p observation) (\<lambda>_. finalized p) (finalized p)"
    unfolding settle_auth_publication_def Let_def
  proof (rule triple_assume, erule facts,
      rule finalized.triple_look_seq [where P = "\<lambda>x. x = Some (pb_candidate p)"], simp add: finalized_def,
      rule finalized.triple_look_seq [where P = "\<lambda>x. x = None"], simp add: finalized_def)
  qed (auto intro!: triple_keeps keeps_intros finalized.keeps_observations finalized.keeps_settled finalize)
  then show ?thesis by (rule keeps_triple)
qed

lemma triple_settled: "triple A m (\<lambda>_. B) B \<Longrightarrow> triple A (settled m success failure message) (\<lambda>_. B) B"
  unfolding settled_def
  by (rule triple_seq [OF triple_attempt_same triple_done])

lemma exchanged_settle:
  "triple (exchanged_at p) (settle_auth_publication p observation) (\<lambda>_. consistent p) (consistent p)"
proof -
  have facts: "exchanged_at p w \<Longrightarrow> pb_candidate p \<noteq> pb_expected p" for w
    by (simp add: displaced_at_def)
  have weaken: "exchanged_at p w \<Longrightarrow> consistent p w" for w
    by (simp add: consistent_def)
  have finalize: "triple (\<lambda>w. exchanged_at p w \<and> aw_files w StageFile = stage)
      (settled (finalize_independent_backup p) success failure m) (\<lambda>_. consistent p) (consistent p)"
    for stage success failure m
    by (rule triple_mono [OF triple_settled [OF exchanged_finalize]]) auto
  show ?thesis
    unfolding settle_auth_publication_def Let_def
    by (rule triple_assume, erule facts,
      rule displaced_at.triple_look_seq [where P = "\<lambda>x. x = Some (pb_candidate p)"], simp add: displaced_at_def,
      rule displaced_at.triple_look_seq [where P = "\<lambda>x. x \<in> {None, Some (pb_expected p)}"],
      simp add: displaced_at_def, rule look_backup)
     (use finalize in \<open>auto simp: backup_kept_def intro: weaken\<close>)
qed

lemma unpublished_consistent: "unpublished p w \<Longrightarrow> consistent p w"
  by (simp add: consistent_def)

lemma consistent_settle: "keeps (consistent p) (settle_auth_publication p observation)"
proof -
  have "triple (\<lambda>w. unpublished p w \<or> exchanged_at p w \<or> finalized p w)
     (settle_auth_publication p observation) (\<lambda>_. consistent p) (consistent p)"
    by (intro triple_disj exchanged_settle triple_mono [OF triple_keeps [OF unpublished_settle]]
        triple_mono [OF triple_keeps [OF finalized_settle]])
      (auto simp: consistent_def)
  then show ?thesis by (intro keeps_triple) (simp add: consistent_def [abs_def])
qed

lemma consistent_recover: "keeps (consistent p) (recover_interrupted_auth_publication p)"
  unfolding recover_interrupted_auth_publication_def
  by (intro keeps_intros consistent.keeps_observations consistent_settle)

lemma unpublished_slot: "s \<noteq> LiveFile \<Longrightarrow> unpublished p w \<Longrightarrow> unpublished p (set_slot s None w)"
  by (auto simp: unpublished_def set_slot_def)

lemma unpublished_drop: "LiveFile \<notin> fst ` set owned \<Longrightarrow> keeps (unpublished p) (drop_owned owned)"
  by (rule unpublished.keeps_drop) (force intro: unpublished_slot)

lemma unpublished_stage: "keeps (unpublished p) (stage_publication p)"
  unfolding stage_publication_def
  by (intro keeps_intros unpublished.keeps_create unpublished.keeps_dropping unpublished.keeps_make_durable
        unpublished.keeps_observations unpublished_drop)
    (auto simp: unpublished_def set_slot_def)

text \<open>Before the exchange the backup is staged and the record is published.\<close>

definition backed :: "publication \<Rightarrow> world \<Rightarrow> bool" where
  "backed p w \<longleftrightarrow> unpublished p w \<and> aw_files w StageFile = Some (pb_backup p)"

definition armed :: "publication \<Rightarrow> world \<Rightarrow> bool" where
  "armed p w \<longleftrightarrow> backed p w \<and> aw_files w RecordFile = Some (pb_record p)"

interpretation backed: stable_assertion "backed p" for p
  by (rule stable_quiet) (auto simp: backed_def unpublished_def)

interpretation armed: stable_assertion "armed p" for p
  by (rule stable_quiet) (auto simp: armed_def backed_def unpublished_def)

lemma unpublished_prepare:
  "triple (unpublished p) (prepare_existing_auth_publication p) (\<lambda>_. backed p) (unpublished p)"
proof -
  have dropped: "triple (unpublished p) (seq (drop_owned owned) (\<lambda>_. fail e)) Q (unpublished p)"
    if "LiveFile \<notin> fst ` set owned" for owned e and Q :: "unit \<Rightarrow> world \<Rightarrow> bool"
    by (rule triple_seq [OF triple_keeps [OF unpublished_drop [OF that]] triple_fail])
  have candidate: "triple (unpublished p) (move_owned_noreplace CandidateTemp CandidateFile (pb_candidate p))
      (\<lambda>r w. unpublished p w \<and> snd r \<in> {None, Some CandidateTemp, Some CandidateFile}
         \<and> (fst r = None \<longrightarrow> unpublished p w)) (unpublished p)"
    by (rule unpublished.triple_move [OF unpublished.keeps_rename unpublished.stable_assertion_axioms])
      (auto simp: unpublished_def set_slot_def)
  have stage: "triple (unpublished p) (move_owned_noreplace StageTemp StageFile (pb_backup p))
      (\<lambda>r w. unpublished p w \<and> snd r \<in> {None, Some StageTemp, Some StageFile}
         \<and> (fst r = None \<longrightarrow> backed p w)) (unpublished p)"
    by (rule unpublished.triple_move [OF unpublished.keeps_rename backed.stable_assertion_axioms])
      (auto simp: unpublished_def backed_def set_slot_def)
  show ?thesis
    unfolding prepare_existing_auth_publication_def
    by (intro triple_seq [OF triple_keeps [OF unpublished_stage]] triple_moved [OF candidate]
        triple_moved [OF stage] dropped triple_done) (auto simp: owned_at_def)
qed

lemma backed_publish:
  "triple (backed p) (publish_record_exclusive p)
     (\<lambda>r w. if r = None then armed p w else backed p w) (backed p)"
proof -
  have rename: "keeps (backed p) (rename_noreplace RecordTemp RecordFile)"
    by (rule backed.keeps_rename) (auto simp: backed_def unpublished_def set_slot_def)
  have drop: "keeps (backed p) (drop_owned [(RecordTemp, pb_record p)])"
    by (rule backed.keeps_drop) (auto simp: backed_def unpublished_def set_slot_def)
  let ?Q = "\<lambda>r w. if r = None then armed p w else backed p w"
  have dropped: "triple B (seq (drop_owned [(RecordTemp, pb_record p)]) (\<lambda>_. fail e)) Q (backed p)"
    if "\<And>w. B w \<Longrightarrow> backed p w" for e B and Q :: "anyhow option \<Rightarrow> world \<Rightarrow> bool"
    by (rule triple_mono [OF triple_seq [OF triple_keeps [OF drop] triple_fail]]) (auto intro: that)
  have synced: "triple (\<lambda>w. backed p w \<and> (True \<longrightarrow> armed p w)) (attempt sync_parent) (\<lambda>_. armed p) (backed p)"
    by (rule triple_mono [OF triple_keeps [OF keeps_attempt [OF armed.keeps_observations(3)]]])
      (auto simp: armed_def)
  have classify: "triple (\<lambda>w. backed p w \<and> (destination_after = Inr (Some (pb_record p)) \<longrightarrow> armed p w))
      (classify_published p boundary source_after destination_after) ?Q (backed p)"
    for boundary source_after destination_after
  proof -
    consider e where "source_after = Inl e" | f e where "source_after = Inr f" "destination_after = Inl e"
      | "source_after = Inr None" "destination_after = Inr (Some (pb_record p))"
      | f g where "source_after = Inr f" "destination_after = Inr g" "\<not> (g = Some (pb_record p) \<and> f = None)"
      by (metis sum.exhaust)
    then show ?thesis
    proof cases
      case 3
      have "triple (\<lambda>w. backed p w \<and> (True \<longrightarrow> armed p w)) (seq (attempt sync_parent) (\<lambda>synced. done_with (f synced)))
          ?Q (backed p)" for f
        by (rule triple_seq [OF synced triple_done]) (simp add: armed_def)
      with 3 show ?thesis by (simp add: classify_published_def del: drop_owned.simps split del: if_split)
    qed (auto simp: classify_published_def intro!: triple_fail dropped simp del: drop_owned.simps)
  qed
  show ?thesis
    unfolding publish_record_exclusive_def
    by (intro triple_seq_keeps [OF keeps_attempt [OF rename]]
        triple_seq_keeps [OF keeps_attempt [OF backed.keeps_observations(1)]]
        triple_seq [OF backed.triple_attempt_look [where f = "Some (pb_record p)" and B = "armed p"] classify])
     (simp_all add: armed_def)
qed

lemma armed_exchange: "triple (armed p) (exchange_and_settle p) (\<lambda>_. consistent p) (consistent p)"
proof (rule exchange_between)
  show "triple (armed p) (exchange_files CandidateFile LiveFile) (\<lambda>_. consistent p) (consistent p)"
    unfolding exchange_files_def
    by (rule armed.triple_primitive)
      (auto simp: armed_def backed_def consistent_def state_defs set_slot_def split: option.splits)
  show "keeps (armed p) open_live"
    by (rule armed.keeps_open) (auto simp: armed_def backed_def unpublished_def)
  show "armed p w \<Longrightarrow> consistent p w" for w
    by (simp add: armed_def backed_def consistent_def)
qed (rule armed.stable_assertion_axioms consistent.stable_assertion_axioms consistent_settle)+

lemma unpublished_replace:
  "triple (unpublished p) (replace_expected p) (\<lambda>_. consistent p) (consistent p)"
proof (rule replace_between [OF unpublished_prepare backed_publish _ armed_exchange])
  show "triple (backed p) (drop_owned [(StageFile, pb_backup p), (CandidateFile, pb_candidate p)])
      (\<lambda>_. consistent p) (consistent p)"
    by (rule triple_mono [OF triple_keeps [OF unpublished_drop]])
      (auto simp: backed_def intro: unpublished_consistent simp del: drop_owned.simps)
qed (simp_all add: backed_def unpublished_consistent)

lemma consistent_write:
  assumes p: "p = publication_of inodes contents record_text token"
  shows "triple (unpublished p)
     (publish_conditionally inodes record_text expected contents) (\<lambda>_. consistent p) (consistent p)"
proof (cases expected)
  case None
  have "keeps (unpublished p) (create_if_absent (publication_of inodes contents record_text (0, [])))"
    by (rule absent_keeps [OF unpublished.stable_assertion_axioms])
      (auto simp: unpublished_def set_slot_def p publication_of_def)
  with None show ?thesis
    unfolding publish_conditionally_def
    by (auto intro!: triple_mono [OF triple_keeps] unpublished_consistent)
next
  case (Some bytes)
  show ?thesis
    unfolding Some
  proof (rule write_between)
    show "triple (unpublished p) (token_if_present LiveFile)
        (\<lambda>live w. unpublished p w \<and> live = Some token) (consistent p)"
      by (rule unpublished.triple_look_weak)
        (auto simp: unpublished_def publication_of_def p intro: unpublished_consistent)
    fix live
    show "triple (\<lambda>w. unpublished p w \<and> live = Some token)
      (case live of None \<Rightarrow> done_with Changed | Some token \<Rightarrow>
         if snd token \<noteq> bytes then done_with Changed
         else replace_expected (publication_of inodes contents record_text token))
      (\<lambda>_. consistent p) (consistent p)"
      using unpublished_replace [of p]
      by (cases "live = Some token") (auto simp: p [symmetric] triple_def done_with_def
          intro: unpublished_consistent)
  qed
qed

text \<open>Runs that nothing disturbs.\<close>

lemmas undisturbed_simps = seq_def attempt_def done_with_def fail_def primitive_def add_context_def
  token_if_present_def sync_parent_def remove_exact_def ensure_path_token_def remove_file_def removal_over_def
  rename_noreplace_def settled_def set_slot_def
  remove_bound_path_def harden_private_file_def is_ok_def remove_publication_record_def Let_def

lemma unpublished_recovery:
  assumes "unpublished p w" "aw_script w = []"
  shows "\<exists>w'. recover_interrupted_auth_publication p w = (Ok (), w') \<and> unpublished p w'
    \<and> aw_files w' RecordFile = None"
proof (cases "aw_files w RecordFile = Some (pb_record p)")
  case True
  have "pb_expected p \<noteq> pb_candidate p" using assms(1) by (auto simp: unpublished_def)
  with True assms show ?thesis
    by (cases "aw_files w StageFile"; cases "aw_files w CandidateFile")
      (simp_all add: unpublished_def recover_interrupted_auth_publication_def
        settle_auth_publication_def cleanup_unpublished_auth_def undisturbed_simps)
next
  case False
  with assms show ?thesis
    by (auto simp: recover_interrupted_auth_publication_def unpublished_def undisturbed_simps)
qed

lemma finished_recovery:
  assumes "exchanged_at p w \<or> finalized p w" "aw_script w = []"
  shows "\<exists>w'. recover_interrupted_auth_publication p w = (Ok (), w') \<and> finalized p w'
    \<and> aw_files w' RecordFile = None"
  using assms(1)
proof
  assume w: "finalized p w"
  then show ?thesis
    by (cases "aw_files w RecordFile")
      (use assms(2) in \<open>auto simp: finalized_def recover_interrupted_auth_publication_def settle_auth_publication_def
        finalize_independent_backup_def promote_backup_def undisturbed_simps\<close>)
next
  assume w: "exchanged_at p w"
  then consider "aw_files w CandidateFile = None" "aw_files w StageFile = None" "aw_files w BackupFile = Some (pb_backup p)"
    | "aw_files w CandidateFile = None" "aw_files w BackupFile = None" "aw_files w StageFile = Some (pb_backup p)"
    | "aw_files w CandidateFile = Some (pb_expected p)" "aw_files w StageFile = None" "aw_files w BackupFile = Some (pb_backup p)"
    | "aw_files w CandidateFile = Some (pb_expected p)" "aw_files w BackupFile = None" "aw_files w StageFile = Some (pb_backup p)"
    by (auto simp: displaced_at_def backup_kept_def)
  then show ?thesis
    by cases (use w assms(2) in \<open>simp_all add: displaced_at_def finalized_def recover_interrupted_auth_publication_def
        settle_auth_publication_def finalize_independent_backup_def promote_backup_def undisturbed_simps\<close>)
qed

lemma recovered_state:
  assumes "consistent p w" "aw_script w = []"
    and "recover_interrupted_auth_publication p w = (r, after)"
  shows "r = Ok () \<and> aw_files after RecordFile = None
    \<and> (aw_files after LiveFile = Some (pb_expected p) \<and> aw_files after BackupFile = None
       \<or> aw_files after LiveFile = Some (pb_candidate p) \<and> aw_files after BackupFile = Some (pb_backup p))"
  using assms(1) unfolding consistent_def
proof
  assume "unpublished p w"
  from unpublished_recovery [OF this assms(2)] assms(3) show ?thesis by (auto simp: unpublished_def)
next
  assume "exchanged_at p w \<or> finalized p w"
  from finished_recovery [OF this assms(2)] assms(3) show ?thesis by (auto simp: finalized_def)
qed

text \<open>
  C16. Recovery completes. With no foreign writer at work, let calls fail and the process
  stop anywhere in the write and in any number of recoveries: one more recovery that is not
  disturbed succeeds, leaves no record, and leaves either the original live and no backup, or
  the new credential live with the backup of the original beside it.
\<close>

theorem recovery_completes:
  assumes start: "clean_start inodes w" "quiet (aw_script w)"
    and p: "p = publication_of inodes contents record_text (aw_original w)"
    and quiet: "list_all quiet scripts"
    and before: "before = recoveries p scripts
      (snd (atomic_write_private_if_unchanged earlier inodes record_text expected contents w))"
    and recovered: "recover_interrupted_auth_publication p (before\<lparr>aw_script := []\<rparr>) = (r, after)"
  shows "r = Ok () \<and> aw_files after RecordFile = None
    \<and> (aw_files after LiveFile = Some (pb_expected p) \<and> aw_files after BackupFile = None
       \<or> aw_files after LiveFile = Some (pb_candidate p) \<and> aw_files after BackupFile = Some (pb_backup p))"
proof -
  have "(fst inodes, contents) \<noteq> aw_original w"
    using start(1) unfolding clean_start_def by (metis fst_conv)
  then have "unpublished p w"
    using start by (auto simp: clean_start_def slots_def unpublished_def p publication_of_def)
  then have "consistent p (snd (atomic_write_private_if_unchanged earlier inodes record_text expected contents w))"
    by (rule clean_final [OF start(1) unpublished.stable_assertion_axioms _ unpublished_consistent
          consistent_write [OF p]])
  then have "consistent p before"
    unfolding before
    by (rule recoveries_keep [OF _ consistent_recover])
      (use quiet in \<open>auto simp: consistent_def state_defs list_all_iff\<close>)
  then have "consistent p (before\<lparr>aw_script := []\<rparr>)"
    by (auto simp: consistent_def state_defs quiet_def)
  from recovered_state [OF this _ recovered] show ?thesis by simp
qed

theorem recovery_completes_witness:
  "clean_start (2, 3, 4) (sample_world (replicate 33 ([], Works) @ [([], Stops)]))
   \<and> (let p = publication_of (2, 3, 4) ''new'' ''r'' (1, ''old'');
          before = recoveries p [[([], Fails [])]]
            (snd (atomic_write_private_if_unchanged (publication_of (0, 0, 0) [] [] (0, [])) (2, 3, 4) ''r'' (Some ''old'') ''new''
               (sample_world (replicate 33 ([], Works) @ [([], Stops)]))))
      in fst (recover_interrupted_auth_publication p (before\<lparr>aw_script := []\<rparr>)) = Ok ())"
proof -
  let ?p = "publication_of (2, 3, 4) ''new'' ''r'' (1, ''old'')"
  let ?w = "sample_world (replicate 33 ([], Works) @ [([], Stops)])"
  have "quiet (aw_script ?w)" "list_all quiet [[([], Fails [])]]" "?p = publication_of (2, 3, 4) ''new'' ''r'' (aw_original ?w)"
    by (simp_all add: quiet_def list_all_iff)
  from recovery_completes [OF sample_start this(1) this(3) this(2) refl surjective_pairing]
  show ?thesis using sample_start by (simp add: Let_def)
qed

section \<open>An undisturbed write\<close>

text \<open>
  With nothing in the way, a write from a clean start that expects the live bytes returns
  Written, the live file is the new credential, the only other file is the backup of the old
  one, and a write that expects other bytes returns Changed and does nothing.
\<close>

theorem undisturbed_write:
  assumes start: "clean_start inodes w" "aw_script w = []"
    and p: "p = publication_of inodes contents record_text (aw_original w)"
    and run: "atomic_write_private_if_unchanged earlier inodes record_text (Some bytes) contents w = (r, after)"
  shows "if snd (aw_original w) = bytes
    then r = Ok Written
       \<and> aw_files after = (aw_files w)(LiveFile \<mapsto> pb_candidate p, BackupFile \<mapsto> pb_backup p)
    else r = Ok Changed \<and> after = w"
proof -
  have files: "aw_files w = (\<lambda>s. if s = LiveFile then Some (aw_original w) else None)"
  proof
    show "aw_files w s = (if s = LiveFile then Some (aw_original w) else None)" for s
      using start(1) by (cases s) (simp_all add: clean_start_def slots_def)
  qed
  have "aw_original w \<noteq> (fst inodes, contents)"
    using start(1) unfolding clean_start_def by (metis fst_conv)
  then show ?thesis
    using run start(2)
    by (cases "snd (aw_original w) = bytes")
      (simp_all add: files p atomic_write_private_if_unchanged_def recover_interrupted_auth_publication_def publish_conditionally_def replace_expected_def publication_of_def
        prepare_existing_auth_publication_def stage_publication_def create_file_def dropping_def
        make_durable_def lift_result_def move_owned_noreplace_def
        publish_record_exclusive_def classify_published_def exchange_and_settle_def open_live_def token_for_handle_def
        exchange_files_def settle_auth_publication_def finalize_independent_backup_def promote_backup_def
        conditional_write_from_settlement_def undisturbed_simps, auto simp: fun_eq_iff)
qed

theorem undisturbed_write_witness:
  "clean_start (2, 3, 4) (sample_world [])
   \<and> fst (atomic_write_private_if_unchanged (publication_of (0, 0, 0) [] [] (0, [])) (2, 3, 4) ''r'' (Some ''old'') ''new'' (sample_world [])) = Ok Written"
  using undisturbed_write [OF sample_start sample_script(1) refl surjective_pairing, of "''old''"] sample_start
  by simp

end
