(* ===== verification/Profile_Registry.thy ===== *)
theory Profile_Registry
  imports Auth_Value
begin

text \<open>
  The saved profiles as data (\<open>src/src/profile.rs\<close>): aliases, the snapshot of the registry and
  its parsed form, the identity of an account, the matching of a credential against the saved
  ones by bytes, by value and by identity, and the guards that protect a saved credential from
  being replaced by that of another account or by an older one.

  The length test of an alias counts characters here and bytes in the source; the two differ
  only on aliases that the character test refuses anyway.
\<close>

section \<open>Aliases\<close>

definition max_alias_len :: nat where
  "max_alias_len = 64"

definition is_ascii_alphanumeric :: "char \<Rightarrow> bool" where
  "is_ascii_alphanumeric c = (let n = (of_char c :: nat) in
     (48 \<le> n \<and> n \<le> 57) \<or> (65 \<le> n \<and> n \<le> 90) \<or> (97 \<le> n \<and> n \<le> 122))"

definition is_alias_char :: "char \<Rightarrow> bool" where
  "is_alias_char c \<longleftrightarrow> is_ascii_alphanumeric c \<or> c \<in> {CHR ''_'', CHR ''-'', CHR ''.''}"

definition validate_alias :: "string \<Rightarrow> unit result" where
  "validate_alias name =
     (if name = [] then bail ''alias cannot be empty''
      else if name = ''.'' \<or> name = ''..'' then bail ''alias cannot be . or ..''
      else if length name > max_alias_len then bail ''alias must be at most 64 characters''
      else if \<not> list_all is_alias_char name
      then bail ''alias may only contain ASCII letters, digits, _, - and .''
      else Inr ())"

definition alias_ok :: "string \<Rightarrow> bool" where
  "alias_ok name \<longleftrightarrow> is_ok (validate_alias name)"

text \<open>An entry of the profiles directory: its name, unless it is not UTF-8, and what it is.\<close>

record dir_entry =
  de_name :: "string option"
  de_is_dir :: "bool result"

fun directory_names :: "dir_entry result list \<Rightarrow> string list result" where
  "directory_names [] = Inr []"
| "directory_names (entry # rest) =
     and_then (with_context ''reading entry'' entry) (\<lambda>e.
     and_then (with_context ''reading file type'' (de_is_dir e)) (\<lambda>is_dir.
       map_ok
         (\<lambda>names. case de_name e of
            Some name \<Rightarrow> if is_dir \<and> alias_ok name then name # names else names
          | None \<Rightarrow> names)
         (directory_names rest)))"

text \<open>A missing directory is an empty registry.\<close>

definition list_profiles_in :: "dir_entry result list option result \<Rightarrow> string list result" where
  "list_profiles_in dir =
     and_then (with_context ''reading profiles directory'' dir) (\<lambda>entries.
       case entries of
         None \<Rightarrow> Inr []
       | Some es \<Rightarrow> map_ok sort (directory_names es))"

definition trim_underscores :: "string \<Rightarrow> string" where
  "trim_underscores s =
     rev (dropWhile (\<lambda>c. c = CHR ''_'') (rev (dropWhile (\<lambda>c. c = CHR ''_'') s)))"

definition alias_from_email :: "string \<Rightarrow> string" where
  "alias_from_email email =
     (let base = takeWhile (\<lambda>c. c \<noteq> CHR ''@'') email;
          name = take max_alias_len
                   (trim_underscores (map (\<lambda>c. if is_alias_char c then c else CHR ''_'') base))
      in if name = [] then ''account'' else name)"

text \<open>The \<open>n\<close>-th alternative to a taken alias.\<close>

definition candidate_alias :: "string \<Rightarrow> nat \<Rightarrow> string" where
  "candidate_alias base n =
     (let suffix = CHR ''_'' # show_nat n
      in take (max_alias_len - length suffix) base @ suffix)"

section \<open>The marker\<close>

record marker_snapshot =
  ms_alias :: string
  ms_bytes :: string

definition parse_marker :: "codec \<Rightarrow> string \<Rightarrow> marker_snapshot result" where
  "parse_marker cd bytes =
     and_then (with_context ''current profile marker is not UTF-8'' (cd_utf8 cd bytes)) (\<lambda>_.
       let name = trim bytes in
       if name = [] then bail ''current profile marker is empty''
       else and_then (with_context ''validating current profile marker'' (validate_alias name))
              (\<lambda>_. Inr \<lparr>ms_alias = name, ms_bytes = bytes\<rparr>))"

section \<open>Snapshots of the registry\<close>

text \<open>The bytes of every saved profile, and the parsed values, in the order of the aliases.\<close>

type_synonym registry_snapshot = "(string \<times> string) list"
type_synonym parsed_registry = "(string \<times> json) list"

definition exact_matches :: "registry_snapshot \<Rightarrow> string \<Rightarrow> string list" where
  "exact_matches profiles target = map fst (filter (\<lambda>p. snd p = target) profiles)"

definition parse_registry :: "codec \<Rightarrow> registry_snapshot \<Rightarrow> parsed_registry result" where
  "parse_registry cd profiles =
     collect_results
       (\<lambda>(name, bytes). map_ok (Pair name)
          (with_context (''loading profile '' @ quoted name) (cd_parse cd bytes)))
       profiles"

definition equivalent_matches :: "parsed_registry \<Rightarrow> json \<Rightarrow> string list" where
  "equivalent_matches profiles target = map fst (filter (\<lambda>p. snd p = target) profiles)"

definition registry_profile :: "parsed_registry \<Rightarrow> string \<Rightarrow> json option" where
  "registry_profile profiles name =
     map_option snd (List.find (\<lambda>p. fst p = name) profiles)"

text \<open>The accounts of the saved profiles, each under the policy that was loaded for the batch.\<close>

definition profile_accounts_from_snapshot ::
  "codec \<Rightarrow> parsed_registry \<Rightarrow> managed_policy option \<Rightarrow> (string \<times> account_info) list result" where
  "profile_accounts_from_snapshot cd parsed policy =
     collect_results
       (\<lambda>(name, value).
          let info = account_info_from_auth_value cd value in
          map_ok (\<lambda>_. (name, info))
            (case policy of
               None \<Rightarrow> Inr ()
             | Some p \<Rightarrow> with_context (''validating profile '' @ quoted name) (validate_account_info p info)))
       parsed"

section \<open>Identities\<close>

record account_identity =
  id_account :: "string option"
  id_email :: "string option"

definition extract_identity :: "codec \<Rightarrow> json \<Rightarrow> account_identity" where
  "extract_identity cd auth =
     (let info = account_info_from_auth_value cd auth
      in \<lparr>id_account = ai_account_id info,
          id_email = filter_opt (\<lambda>e. e \<noteq> []) (map_option (\<lambda>e. to_lowercase (trim e)) (ai_email info))\<rparr>)"

definition require_complete_account_identity :: "string \<Rightarrow> account_identity \<Rightarrow> unit result" where
  "require_complete_account_identity name i =
     (if id_account i = None \<or> id_email i = None
      then bail (''profile '' @ quoted name @ '' must contain both account_id and email for strict account identity validation'')
      else Inr ())"

definition ensure_account_identity_matches ::
  "string \<Rightarrow> account_identity \<Rightarrow> account_identity \<Rightarrow> unit result" where
  "ensure_account_identity_matches name existing incoming =
     (case (id_account existing, id_account incoming) of
        (Some existing_id, Some incoming_id) \<Rightarrow>
          let email_matches =
                (case (id_email existing, id_email incoming) of
                   (Some e, Some e') \<Rightarrow> e = e'
                 | _ \<Rightarrow> False)
          in if email_matches \<and> existing_id = incoming_id then Inr ()
             else bail (''authenticated account does not match profile '' @ quoted name)
      | _ \<Rightarrow> bail (''refusing to overwrite profile '' @ quoted name
               @ '': both existing and incoming credentials must contain matching account_id and email values''))"

definition ensure_same_account_identity :: "codec \<Rightarrow> string \<Rightarrow> json \<Rightarrow> json \<Rightarrow> unit result" where
  "ensure_same_account_identity cd name existing incoming =
     ensure_account_identity_matches name (extract_identity cd existing) (extract_identity cd incoming)"

definition exact_identity_matches :: "account_identity \<Rightarrow> account_identity \<Rightarrow> bool" where
  "exact_identity_matches left right =
     (case (id_account left, id_email left, id_account right, id_email right) of
        (Some i, Some e, Some i', Some e') \<Rightarrow> i = i' \<and> e = e'
      | _ \<Rightarrow> False)"

definition shared :: "'a option \<Rightarrow> 'a option \<Rightarrow> bool" where
  "shared x y = (case (x, y) of (Some a, Some b) \<Rightarrow> a = b | _ \<Rightarrow> False)"

definition incomplete_identity_matches :: "account_identity \<Rightarrow> account_identity \<Rightarrow> bool" where
  "incomplete_identity_matches left right =
     (let shared_account_id = shared (id_account left) (id_account right);
          shared_email = shared (id_email left) (id_email right);
          account_id_is_incomplete = (id_account left = None \<or> id_account right = None);
          email_is_incomplete = (id_email left = None \<or> id_email right = None)
      in (shared_email \<and> account_id_is_incomplete) \<or> (shared_account_id \<and> email_is_incomplete))"

record identity_matches =
  im_exact :: "string list"
  im_incomplete :: "string list"

fun collect_identity_matches ::
  "codec \<Rightarrow> account_identity \<Rightarrow> parsed_registry \<Rightarrow> identity_matches" where
  "collect_identity_matches cd i [] = \<lparr>im_exact = [], im_incomplete = []\<rparr>"
| "collect_identity_matches cd i ((name, value) # rest) =
     (let existing = extract_identity cd value; m = collect_identity_matches cd i rest
      in if exact_identity_matches i existing then m\<lparr>im_exact := name # im_exact m\<rparr>
         else if incomplete_identity_matches i existing
         then m\<lparr>im_incomplete := name # im_incomplete m\<rparr>
         else m)"

text \<open>The profile of an identity, if exactly one saved profile has it completely.\<close>

definition unique_match :: "string list \<Rightarrow> string option" where
  "unique_match names = (case names of [name] \<Rightarrow> Some name | _ \<Rightarrow> None)"

definition select_exact_profile_binding ::
  "string list \<Rightarrow> string option \<Rightarrow> string option result" where
  "select_exact_profile_binding matches current =
     (case matches of
        [] \<Rightarrow> Inr None
      | [name] \<Rightarrow> Inr (Some name)
      | names \<Rightarrow>
          (case current of
             Some c \<Rightarrow>
               if c \<in> set names then Inr (Some c)
               else bail (''live auth exactly matches multiple legacy profiles (''
                      @ join '', '' names @ ''), and the current marker does not disambiguate them'')
           | None \<Rightarrow> bail (''live auth exactly matches multiple legacy profiles (''
                      @ join '', '' names @ ''), and the current marker does not disambiguate them'')))"

text \<open>The components of an incomplete identity that are known must be those of the new login.\<close>

definition ensure_known_identity_components_match ::
  "string \<Rightarrow> account_identity \<Rightarrow> account_identity \<Rightarrow> unit result" where
  "ensure_known_identity_components_match name known incoming =
     and_then (require_complete_account_identity name incoming) (\<lambda>_.
       if is_some_and (\<lambda>i. id_account incoming \<noteq> Some i) (id_account known)
          \<or> is_some_and (\<lambda>e. id_email incoming \<noteq> Some e) (id_email known)
       then bail (''authenticated account does not match the known identity fields of legacy profile ''
              @ quoted name)
       else Inr ())"

section \<open>Which of two credentials is newer\<close>

text \<open>
  The reader of timestamps is code outside the repository; a timestamp is its instant and the
  way it is printed.
\<close>

type_synonym timestamps = "string \<Rightarrow> (int \<times> string) option"

definition parse_last_refresh :: "timestamps \<Rightarrow> json \<Rightarrow> (int \<times> string) option" where
  "parse_last_refresh ts v = Option.bind (Option.bind (jget v ''last_refresh'') as_str) ts"

definition describe_last_refresh :: "timestamps \<Rightarrow> json \<Rightarrow> string" where
  "describe_last_refresh ts v =
     (case (parse_last_refresh ts v, Option.bind (jget v ''last_refresh'') as_str) of
        (Some (_, shown), _) \<Rightarrow> shown
      | (None, Some raw) \<Rightarrow> ''unparseable last_refresh '' @ quoted raw
      | (None, None) \<Rightarrow> ''no last_refresh'')"

record stale_live_auth =
  sl_alias :: string
  sl_live :: string
  sl_profile :: string

definition ensure_live_not_older ::
  "timestamps \<Rightarrow> string \<Rightarrow> json \<Rightarrow> json \<Rightarrow> stale_live_auth + unit" where
  "ensure_live_not_older ts name profile incoming =
     (if refresh_token profile = refresh_token incoming then Inr ()
      else if (case (parse_last_refresh ts incoming, parse_last_refresh ts profile) of
                 (Some incoming_ts, Some profile_ts) \<Rightarrow> fst profile_ts < fst incoming_ts
               | _ \<Rightarrow> False)
      then Inr ()
      else Inl \<lparr>sl_alias = name, sl_live = describe_last_refresh ts incoming,
                sl_profile = describe_last_refresh ts profile\<rparr>)"

definition same_import_credential :: "json \<Rightarrow> json \<Rightarrow> bool" where
  "same_import_credential left right \<longleftrightarrow>
     left = right
     \<or> (case (refresh_token left, refresh_token right) of
          (Some l, Some r) \<Rightarrow> l \<noteq> [] \<and> l = r
        | _ \<Rightarrow> False)"

section \<open>Lemmas: aliases\<close>

lemma alias_ok_iff:
  "alias_ok name \<longleftrightarrow> name \<noteq> [] \<and> name \<noteq> ''.'' \<and> name \<noteq> ''..'' \<and> length name \<le> max_alias_len
     \<and> list_all is_alias_char name"
  by (simp add: alias_ok_def validate_alias_def)

lemma validate_alias_Inr [simp]: "validate_alias name = Inr () \<longleftrightarrow> alias_ok name"
  by (auto simp: alias_ok_def is_ok_iff)

lemma directory_names_Inr:
  "directory_names entries = Inr names \<Longrightarrow>
     set names = {name. \<exists>e. Inr e \<in> set entries \<and> de_is_dir e = Inr True \<and> de_name e = Some name
                       \<and> alias_ok name}"
proof (induction entries arbitrary: names)
  case Nil
  then show ?case by simp
next
  case (Cons entry rest)
  then obtain e is_dir names' where e: "entry = Inr e" "de_is_dir e = Inr is_dir"
    "directory_names rest = Inr names'"
    by (auto simp: result_eq_Inr)
  with Cons.prems Cons.IH [OF e(3)] show ?case
    by (auto split: option.splits if_splits)
qed

lemma list_profiles_in_spec:
  assumes "list_profiles_in (Inr (Some entries)) = Inr names"
  shows "sorted names \<and> set names = {name. \<exists>e. Inr e \<in> set entries \<and> de_is_dir e = Inr True
           \<and> de_name e = Some name \<and> alias_ok name}"
  using assms directory_names_Inr [of entries]
  by (auto simp: list_profiles_in_def result_eq_Inr)

lemma set_trim_underscores: "set (trim_underscores s) \<subseteq> set s"
  by (auto simp: trim_underscores_def dest!: set_dropWhileD)

lemma is_alias_char_underscore [simp]: "is_alias_char CHR ''_''"
  by (simp add: is_alias_char_def)

lemma alias_from_email_ok:
  "alias_ok (alias_from_email email) \<or> alias_from_email email \<in> {''.'', ''..''}"
proof -
  let ?name = "take max_alias_len (trim_underscores
     (map (\<lambda>c. if is_alias_char c then c else CHR ''_'') (takeWhile (\<lambda>c. c \<noteq> CHR ''@'') email)))"
  have "list_all is_alias_char ?name"
    by (auto simp: list_all_iff dest!: in_set_takeD subsetD [OF set_trim_underscores])
  moreover have "length ?name \<le> max_alias_len" by simp
  moreover have "alias_ok ''account''"
    by (simp add: alias_ok_iff max_alias_len_def is_alias_char_def is_ascii_alphanumeric_def)
  ultimately show ?thesis
    unfolding alias_from_email_def Let_def by (auto simp: alias_ok_iff)
qed

lemma show_nat_digits: "list_all (\<lambda>c. \<exists>d<10. c = digit_char d) (show_nat n)"
proof (induction n rule: show_nat.induct)
  case (1 n)
  show ?case
  proof (cases "n < 10")
    case True
    then show ?thesis by (auto simp: show_nat.simps [of n])
  next
    case False
    with 1 show ?thesis by (auto simp: show_nat.simps [of n] intro!: exI [of _ "n mod 10"])
  qed
qed

lemma digit_char_alias: "d < 10 \<Longrightarrow> is_alias_char (digit_char d) \<and> digit_char d \<noteq> CHR ''_''"
proof -
  assume d: "d < 10"
  have n: "(of_char (digit_char d) :: nat) = 48 + d"
    using d by (simp add: digit_char_def)
  have "digit_char d \<noteq> CHR ''_''"
  proof
    assume "digit_char d = CHR ''_''"
    with n have "48 + d = (of_char CHR ''_'' :: nat)" by simp
    with d show False by simp
  qed
  with n d show ?thesis by (simp add: is_alias_char_def is_ascii_alphanumeric_def)
qed

lemma length_show_nat: "n < 10 ^ k \<Longrightarrow> 0 < k \<Longrightarrow> length (show_nat n) \<le> k"
proof (induction k arbitrary: n)
  case 0
  then show ?case by simp
next
  case (Suc k)
  show ?case
  proof (cases "n < 10")
    case True
    then show ?thesis by (simp add: show_nat.simps [of n])
  next
    case False
    with Suc.prems have k: "0 < k" by (cases k) auto
    from Suc.prems have "n div 10 < 10 ^ k" by (simp add: less_mult_imp_div_less)
    from Suc.IH [OF this k] False show ?thesis by (simp add: show_nat.simps [of n])
  qed
qed

lemma underscore_in_candidate: "CHR ''_'' \<in> set (candidate_alias base n)"
  by (simp add: candidate_alias_def Let_def)

lemma candidate_alias_ok:
  assumes base: "list_all is_alias_char base" and n: "n \<le> 1000"
  shows "alias_ok (candidate_alias base n)"
proof -
  have digits: "list_all is_alias_char (show_nat n)"
    using show_nat_digits [of n] digit_char_alias by (auto simp: list_all_iff)
  have len: "length (show_nat n) \<le> 4"
    using n by (intro length_show_nat) auto
  have "list_all is_alias_char (candidate_alias base n)"
    using base digits by (auto simp: candidate_alias_def Let_def list_all_iff dest: in_set_takeD)
  moreover have "length (candidate_alias base n) \<le> max_alias_len"
    using len by (simp add: candidate_alias_def Let_def max_alias_len_def)
  moreover have "candidate_alias base n \<noteq> ''.''" "candidate_alias base n \<noteq> ''..''"
    "candidate_alias base n \<noteq> []"
    using underscore_in_candidate [of base n] by auto
  ultimately show ?thesis by (simp add: alias_ok_iff)
qed

text \<open>Different numbers give different alternatives: the digits after the last underscore tell.\<close>

lemma candidate_alias_suffix:
  "takeWhile (\<lambda>c. c \<noteq> CHR ''_'') (rev (candidate_alias base n)) = rev (show_nat n)"
proof -
  have "\<forall>c\<in>set (rev (show_nat n)). c \<noteq> CHR ''_''"
    using show_nat_digits [of n] digit_char_alias by (fastforce simp: list_all_iff)
  then show ?thesis by (simp add: candidate_alias_def Let_def takeWhile_append)
qed

lemma candidate_alias_inj: "candidate_alias base m = candidate_alias base n \<Longrightarrow> m = n"
proof -
  assume eq: "candidate_alias base m = candidate_alias base n"
  have "rev (show_nat m) = rev (show_nat n)"
    using candidate_alias_suffix [of base m] candidate_alias_suffix [of base n] unfolding eq by simp
  then have "digits_value 0 (show_nat m) = digits_value 0 (show_nat n)" by simp
  then show ?thesis by (simp add: digits_value_show_nat)
qed

section \<open>Lemmas: matching\<close>

lemma collect_identity_matches_eq:
  "im_exact (collect_identity_matches cd i profiles)
     = map fst (filter (\<lambda>p. exact_identity_matches i (extract_identity cd (snd p))) profiles)"
  "im_incomplete (collect_identity_matches cd i profiles)
     = map fst (filter (\<lambda>p. \<not> exact_identity_matches i (extract_identity cd (snd p))
                            \<and> incomplete_identity_matches i (extract_identity cd (snd p))) profiles)"
  by (induction profiles) (auto simp: Let_def)

lemma in_exact_matches: "name \<in> set (exact_matches profiles target) \<longleftrightarrow> (name, target) \<in> set profiles"
  by (force simp: exact_matches_def)

lemma in_equivalent_matches:
  "name \<in> set (equivalent_matches profiles v) \<longleftrightarrow> (name, v) \<in> set profiles"
  by (force simp: equivalent_matches_def)

lemma unique_match_Some [simp]: "unique_match names = Some n \<longleftrightarrow> names = [n]"
  by (auto simp: unique_match_def split: list.splits)

lemma select_binding_Some:
  "select_exact_profile_binding matches current = Inr (Some name) \<longleftrightarrow>
     matches = [name] \<or> (1 < length matches \<and> name \<in> set matches \<and> current = Some name)"
  by (auto simp: select_exact_profile_binding_def bail_def split: list.splits option.splits)

lemma select_binding_None:
  "select_exact_profile_binding matches current = Inr None \<longleftrightarrow> matches = []"
  by (auto simp: select_exact_profile_binding_def bail_def split: list.splits option.splits)

lemma parse_registry_Inr:
  "parse_registry cd profiles = Inr parsed \<longleftrightarrow>
     list_all2 (\<lambda>(a, b) (a', v). a = a' \<and> cd_parse cd b = Inr v) profiles parsed"
proof -
  have "(\<lambda>x y. (case x of (name, bytes) \<Rightarrow> map_ok (Pair name)
           (with_context (''loading profile '' @ quoted name) (cd_parse cd bytes))) = Inr y)
      = (\<lambda>(a, b) (a', v). a = a' \<and> cd_parse cd b = Inr v)"
    by (auto simp: fun_eq_iff result_eq_Inr)
  then show ?thesis unfolding parse_registry_def collect_results_eq_Inr by simp
qed

lemma parse_registry_member:
  assumes "parse_registry cd profiles = Inr parsed"
  shows "(name, v) \<in> set parsed \<longleftrightarrow> (\<exists>b. (name, b) \<in> set profiles \<and> cd_parse cd b = Inr v)"
proof -
  have l: "list_all2 (\<lambda>(a, b) (a', v). a = a' \<and> cd_parse cd b = Inr v) profiles parsed"
    using assms by (simp add: parse_registry_Inr)
  show ?thesis
  proof
    assume "(name, v) \<in> set parsed"
    with l show "\<exists>b. (name, b) \<in> set profiles \<and> cd_parse cd b = Inr v"
      by (induction rule: list_all2_induct) auto
  next
    assume "\<exists>b. (name, b) \<in> set profiles \<and> cd_parse cd b = Inr v"
    with l show "(name, v) \<in> set parsed"
      by (induction rule: list_all2_induct) auto
  qed
qed

lemma registry_profile_Some:
  "registry_profile parsed name = Some v \<Longrightarrow> (name, v) \<in> set parsed"
  by (induction parsed) (auto simp: registry_profile_def split: if_splits)

section \<open>Lemmas: identities and the guards of a saved credential\<close>

definition complete_identity :: "account_identity \<Rightarrow> bool" where
  "complete_identity i \<longleftrightarrow> id_account i \<noteq> None \<and> id_email i \<noteq> None"

lemma exact_identity_matches_iff:
  "exact_identity_matches i j \<longleftrightarrow> complete_identity i \<and> i = j"
  by (cases i; cases j) (auto simp: exact_identity_matches_def complete_identity_def
      split: option.splits)

lemma require_complete_Inr [simp]:
  "require_complete_account_identity name i = Inr () \<longleftrightarrow> complete_identity i"
  by (auto simp: require_complete_account_identity_def complete_identity_def bail_def)

lemma ensure_identity_Inr [simp]:
  "ensure_account_identity_matches name i j = Inr () \<longleftrightarrow> exact_identity_matches i j"
  by (auto simp: ensure_account_identity_matches_def exact_identity_matches_def bail_def
      split: option.splits)

lemma ensure_same_identity_Inr:
  "ensure_same_account_identity cd name v w = Inr () \<longleftrightarrow>
     complete_identity (extract_identity cd v) \<and> extract_identity cd w = extract_identity cd v"
  by (auto simp: ensure_same_account_identity_def exact_identity_matches_iff)

lemma incomplete_never_exact:
  "incomplete_identity_matches i j \<Longrightarrow> \<not> exact_identity_matches i j"
  by (auto simp: incomplete_identity_matches_def exact_identity_matches_iff complete_identity_def
      shared_def Let_def split: option.splits)

text \<open>The incoming credential is known not to be the revoked one.\<close>

definition not_older :: "timestamps \<Rightarrow> json \<Rightarrow> json \<Rightarrow> bool" where
  "not_older ts profile incoming \<longleftrightarrow> is_ok (ensure_live_not_older ts [] profile incoming)"

lemma not_older_iff:
  "not_older ts profile incoming \<longleftrightarrow>
     refresh_token profile = refresh_token incoming
     \<or> (\<exists>t t'. parse_last_refresh ts profile = Some t \<and> parse_last_refresh ts incoming = Some t'
            \<and> fst t < fst t')"
  by (auto simp: not_older_def ensure_live_not_older_def split: option.splits)

lemma ensure_live_not_older_Inr [simp]:
  "ensure_live_not_older ts name profile incoming = Inr () \<longleftrightarrow> not_older ts profile incoming"
  by (auto simp: not_older_iff ensure_live_not_older_def split: option.splits)

lemma not_older_antisym:
  "not_older ts a b \<Longrightarrow> not_older ts b a \<Longrightarrow> refresh_token a = refresh_token b"
  by (auto simp: not_older_iff)

fun replacement_chain :: "timestamps \<Rightarrow> json list \<Rightarrow> bool" where
  "replacement_chain ts (a # b # rest) \<longleftrightarrow> not_older ts a b \<and> replacement_chain ts (b # rest)"
| "replacement_chain ts _ \<longleftrightarrow> True"

text \<open>A refresh token carries one timestamp: it is stamped when the server issues it.\<close>

definition refresh_stamp :: "timestamps \<Rightarrow> json \<Rightarrow> int option" where
  "refresh_stamp ts v = map_option fst (parse_last_refresh ts v)"

definition one_stamp :: "timestamps \<Rightarrow> json list \<Rightarrow> bool" where
  "one_stamp ts vs \<longleftrightarrow>
     list_all (\<lambda>v. list_all (\<lambda>w. refresh_token v \<noteq> refresh_token w
       \<or> refresh_stamp ts v = refresh_stamp ts w) vs) vs"

lemma one_stampD:
  assumes "one_stamp ts vs" "v \<in> set vs" "w \<in> set vs" "refresh_token v = refresh_token w"
  shows "refresh_stamp ts v = refresh_stamp ts w"
  using assms unfolding one_stamp_def list_all_iff by blast

lemma not_older_alt:
  "not_older ts a b \<longleftrightarrow> refresh_token a = refresh_token b
     \<or> (\<exists>t t'. refresh_stamp ts a = Some t \<and> refresh_stamp ts b = Some t' \<and> t < t')"
  by (auto simp: not_older_iff refresh_stamp_def)

lemma not_older_trans:
  assumes "one_stamp ts vs" "a \<in> set vs" "b \<in> set vs" "c \<in> set vs"
    and "not_older ts a b" "not_older ts b c"
  shows "not_older ts a c"
  using assms(5,6) one_stampD [OF assms(1,2,3)] one_stampD [OF assms(1,3,4)]
  unfolding not_older_alt by fastforce

lemma replacement_chain_sorted:
  assumes "one_stamp ts vs" "set ws \<subseteq> set vs" "replacement_chain ts ws"
  shows "sorted_wrt (not_older ts) ws"
  using assms(2,3)
proof (induction ws rule: induct_list012)
  case (3 a b rest)
  then have sorted: "sorted_wrt (not_older ts) (b # rest)" and ab: "not_older ts a b" by auto
  have "not_older ts a c" if "c \<in> set rest" for c
    using not_older_trans [OF assms(1) _ _ _ ab, of c] that sorted 3(3) by auto
  with sorted ab show ?case by simp
qed simp_all

text \<open>
  C12. Along a chain of replacements accepted by the guard, a refresh token that was replaced never
  comes back, if every token carries one timestamp.
\<close>

theorem replaced_token_never_returns:
  assumes "replacement_chain ts vs" "one_stamp ts vs"
    and "i < j" "j < k" "k < length vs"
    and "refresh_token (vs ! i) = refresh_token (vs ! k)"
  shows "refresh_token (vs ! j) = refresh_token (vs ! i)"
proof -
  have sorted: "sorted_wrt (not_older ts) vs"
    using replacement_chain_sorted [OF assms(2) _ assms(1)] by simp
  have ij: "not_older ts (vs ! i) (vs ! j)" and jk: "not_older ts (vs ! j) (vs ! k)"
    using sorted_wrt_nth_less [OF sorted] assms(3-5) by auto
  have "refresh_stamp ts (vs ! i) = refresh_stamp ts (vs ! k)"
    using one_stampD [OF assms(2) _ _ assms(6)] assms(3-5) by simp
  with ij jk assms(6) show ?thesis unfolding not_older_alt by auto
qed

definition demo_credential :: "string \<Rightarrow> string \<Rightarrow> json" where
  "demo_credential token at_time =
     JObject [(''last_refresh'', JString at_time),
              (''tokens'', JObject [(''refresh_token'', JString token)])]"

theorem replaced_token_never_returns_witness:
  "refresh_token ([demo_credential ''r1'' ''1'', demo_credential ''r1'' ''1'',
      demo_credential ''r1'' ''1'', demo_credential ''r2'' ''2''] ! 1) = Some ''r1''"
proof -
  let ?ts = "\<lambda>s. if s = ''1'' then Some (1, s) else if s = ''2'' then Some (2, s) else None"
  let ?vs = "[demo_credential ''r1'' ''1'', demo_credential ''r1'' ''1'',
      demo_credential ''r1'' ''1'', demo_credential ''r2'' ''2'']"
  have token [simp]: "refresh_token (demo_credential t u) = Some t" for t u
    by (simp add: demo_credential_def refresh_token_def)
  have stamp [simp]: "parse_last_refresh ?ts (demo_credential t u) = ?ts u" for t u
    by (simp add: demo_credential_def parse_last_refresh_def as_str_def)
  have "replacement_chain ?ts ?vs" by (simp add: not_older_iff)
  moreover have "one_stamp ?ts ?vs" by (simp add: one_stamp_def refresh_stamp_def)
  ultimately have "refresh_token (?vs ! 1) = refresh_token (?vs ! 0)"
    by (rule replaced_token_never_returns [where k = 2]) simp_all
  then show ?thesis by simp
qed

end
