(* ===== verification/Profile_Store.thy ===== *)
theory Profile_Store
  imports Profile_Registry
begin

text \<open>
  The files that the profile operations share, and the elementary accesses to them
  (\<open>src/src/profile.rs\<close>, \<open>src/src/auth.rs\<close>): Codex's live credential, the marker of the current
  profile, and the directory and credential of every saved profile.

  Before each access the environment acts: other processes change files, and the access works or
  fails. Codex may change the live credential and the configuration at any moment. The marker
  and the profiles are changed only by processes that hold the auth transaction, and an existing
  profile only by the holder of its lease; changes that a lock held here forbids do not happen.

  Every access is recorded in a trace, newest first. It exists for the statements only: what
  an operation has seen before it replaced something is a property of the trace.

  The conditional publication of the live credential is one access here, with the outcomes that
  the protocol of Auth_Publication distinguishes. Creating the private directories of the
  application and resolving their paths is not modelled. The bytes of files are texts.
\<close>

section \<open>Files, errors and the environment\<close>

datatype path = LiveAuth | MarkerFile | ProfileAuth string

datatype event =
    Saw path "string option"
  | SawFile path
  | SawDirectory string bool
  | Listed "string list"
  | Asked bool
  | PublishedLive "string option" string
  | MaybePublished "string option" string
  | WroteMarker string
  | ClearedMarker
  | WroteProfile string "string option" string
  | MovedProfile string string
  | ArchivedProfile string
  | ArchivedCopy string string
  | LoggedIn
  | CacheChanged
  | Locked
  | Unlocked

text \<open>The typed errors that callers tell apart; the chain of messages is kept beside them.\<close>

datatype error_kind =
    PlainError
  | NotFoundError string
  | NoAuthFileError
  | AbortedError
  | ActiveDeleteError string
  | StaleLiveError stale_live_auth
  | VisibleWriteError
  | PartialActivationError string string

record failure =
  fl_kind :: error_kind
  fl_chain :: anyhow

datatype foreign =
    ForeignLive "string option"
  | ForeignMarker "string option"
  | ForeignProfile string "string option"
  | ForeignPolicy "managed_policy result"

datatype reply = Fine | Refused anyhow | Unconfirmed anyhow | Unclear string bool

type_synonym turn = "foreign list \<times> reply"

text \<open>
  \<open>st_names\<close> are the directories beneath the profiles directory; \<open>st_stages\<close> the recovery files of
  rotated credentials, by the order of their creation, a removed one being None. Nobody else
  changes a recovery file.
\<close>

record store =
  st_live :: "string option"
  st_marker :: "string option"
  st_names :: "string list"
  st_auth :: "string \<Rightarrow> string option"
  st_stages :: "json option list"
  st_policy :: "managed_policy result"
  st_leased :: "string list"
  st_locked :: bool
  st_script :: "turn list"
  st_trace :: "event list"

fun foreign_allowed :: "foreign \<Rightarrow> store \<Rightarrow> bool" where
  "foreign_allowed (ForeignLive _) s \<longleftrightarrow> True"
| "foreign_allowed (ForeignMarker _) s \<longleftrightarrow> \<not> st_locked s"
| "foreign_allowed (ForeignProfile name _) s \<longleftrightarrow>
     \<not> st_locked s \<and> (name \<notin> set (st_leased s) \<or> name \<notin> set (st_names s))"
| "foreign_allowed (ForeignPolicy _) s \<longleftrightarrow> True"

definition add_name :: "string \<Rightarrow> string list \<Rightarrow> string list" where
  "add_name name names = (if name \<in> set names then names else name # names)"

fun foreign_change :: "foreign \<Rightarrow> store \<Rightarrow> store" where
  "foreign_change (ForeignLive b) s = s\<lparr>st_live := b\<rparr>"
| "foreign_change (ForeignMarker b) s = s\<lparr>st_marker := b\<rparr>"
| "foreign_change (ForeignProfile name b) s =
     s\<lparr>st_auth := (st_auth s)(name := b),
       st_names := (if b = None then removeAll name (st_names s) else add_name name (st_names s))\<rparr>"
| "foreign_change (ForeignPolicy p) s = s\<lparr>st_policy := p\<rparr>"

definition foreign_turn :: "foreign \<Rightarrow> store \<Rightarrow> store" where
  "foreign_turn c s = (if foreign_allowed c s then foreign_change c s else s)"

section \<open>Actions\<close>

type_synonym 'a action = "store \<Rightarrow> (failure + 'a) \<times> store"

definition plain :: "anyhow \<Rightarrow> failure" where
  "plain e = \<lparr>fl_kind = PlainError, fl_chain = e\<rparr>"

definition give :: "'a \<Rightarrow> 'a action" where
  "give x s = (Inr x, s)"

definition refuse :: "failure \<Rightarrow> 'a action" where
  "refuse f s = (Inl f, s)"

definition refuse_text :: "string \<Rightarrow> 'a action" where
  "refuse_text m = refuse (plain [m])"

definition also_then :: "'a action \<Rightarrow> ('a \<Rightarrow> 'b action) \<Rightarrow> 'b action" where
  "also_then m f s = (case m s of (Inl e, s') \<Rightarrow> (Inl e, s') | (Inr x, s') \<Rightarrow> f x s')"

definition tried :: "'a action \<Rightarrow> (failure + 'a) action" where
  "tried m s = (case m s of (r, s') \<Rightarrow> (Inr r, s'))"

definition in_context :: "string \<Rightarrow> 'a action \<Rightarrow> 'a action" where
  "in_context c m s =
     (case m s of (r, s') \<Rightarrow> (map_err (\<lambda>f. f\<lparr>fl_chain := c # fl_chain f\<rparr>) r, s'))"

definition lift :: "'a result \<Rightarrow> 'a action" where
  "lift r = (case r of Inl e \<Rightarrow> refuse (plain e) | Inr x \<Rightarrow> give x)"

text \<open>One access: the environment's turn, then the effect under its reply.\<close>

definition access :: "(reply \<Rightarrow> store \<Rightarrow> (failure + 'a) \<times> store) \<Rightarrow> 'a action" where
  "access f s =
     (case st_script s of
        [] \<Rightarrow> f Fine s
      | (changes, reply) # rest \<Rightarrow>
          f reply (fold foreign_turn changes (s\<lparr>st_script := rest\<rparr>)))"

definition record_event :: "event \<Rightarrow> store \<Rightarrow> store" where
  "record_event e s = s\<lparr>st_trace := e # st_trace s\<rparr>"

definition content :: "path \<Rightarrow> store \<Rightarrow> string option" where
  "content p s = (case p of
       LiveAuth \<Rightarrow> st_live s | MarkerFile \<Rightarrow> st_marker s | ProfileAuth name \<Rightarrow> st_auth s name)"

section \<open>Observations\<close>

text \<open>An observation fails or reports what it looked at; \<open>ev\<close> is its entry in the trace.\<close>

definition observe :: "string \<Rightarrow> (store \<Rightarrow> 'a) \<Rightarrow> ('a \<Rightarrow> event) \<Rightarrow> 'a action" where
  "observe c g ev = access (\<lambda>reply s.
     case reply of
       Refused e \<Rightarrow> (Inl (plain (c # e)), s)
     | _ \<Rightarrow> (Inr (g s), record_event (ev (g s)) s))"

definition snapshot_optional_file :: "path \<Rightarrow> string option action" where
  "snapshot_optional_file p = observe ''reading'' (content p) (Saw p)"

text \<open>Its metadata tells that a file is there, not what it holds.\<close>

definition existence :: "path \<Rightarrow> bool \<Rightarrow> event" where
  "existence p there = (if there then SawFile p else Saw p None)"

definition path_exists_checked :: "path \<Rightarrow> bool action" where
  "path_exists_checked p = observe ''reading metadata'' (\<lambda>s. content p s \<noteq> None) (existence p)"

definition directory_exists :: "string \<Rightarrow> bool action" where
  "directory_exists name =
     observe ''reading metadata'' (\<lambda>s. name \<in> set (st_names s)) (SawDirectory name)"

definition load_policy :: "managed_policy action" where
  "load_policy = access (\<lambda>reply s.
     case reply of Refused e \<Rightarrow> (Inl (plain e), s) | _ \<Rightarrow> lift (st_policy s) s)"

text \<open>Resolving the live path checks that Codex keeps its credentials in a file.\<close>

definition codex_auth_path :: "unit action" where
  "codex_auth_path = also_then load_policy (\<lambda>p. lift (policy_auth_path (Inr p)))"

definition validate_managed :: "codec \<Rightarrow> json \<Rightarrow> unit action" where
  "validate_managed cd v =
     also_then load_policy (\<lambda>p. lift (validate_managed_auth_value cd (Inr p) v))"

definition read_auth :: "codec \<Rightarrow> path \<Rightarrow> json action" where
  "read_auth cd p =
     also_then (snapshot_optional_file p) (\<lambda>c.
       case c of
         None \<Rightarrow> refuse \<lparr>fl_kind = NoAuthFileError, fl_chain = [''no auth.json found'']\<rparr>
       | Some bytes \<Rightarrow> lift (parse_auth cd bytes))"

definition read_existing_auth :: "codec \<Rightarrow> path \<Rightarrow> json option action" where
  "read_existing_auth cd p =
     also_then (path_exists_checked p) (\<lambda>exists.
       if exists then also_then (read_auth cd p) (\<lambda>v. give (Some v)) else give None)"

definition profile_path :: "string \<Rightarrow> path action" where
  "profile_path name = also_then (lift (validate_alias name)) (\<lambda>_. give (ProfileAuth name))"

definition read_current_marker_snapshot_checked :: "codec \<Rightarrow> marker_snapshot option action" where
  "read_current_marker_snapshot_checked cd =
     also_then (snapshot_optional_file MarkerFile) (\<lambda>c.
       case c of
         None \<Rightarrow> give None
       | Some bytes \<Rightarrow> also_then (lift (parse_marker cd bytes)) (\<lambda>m. give (Some m)))"

definition read_current_checked :: "codec \<Rightarrow> string option action" where
  "read_current_checked cd =
     also_then (read_current_marker_snapshot_checked cd) (\<lambda>m. give (map_option ms_alias m))"

definition list_profiles :: "string list action" where
  "list_profiles =
     also_then (observe ''reading profiles directory'' st_names Listed) (\<lambda>names.
       lift (list_profiles_in
         (Inr (Some (map (\<lambda>n. Inr \<lparr>de_name = Some n, de_is_dir = Inr True\<rparr>) names)))))"

fun snapshot_aliases :: "string list \<Rightarrow> registry_snapshot action" where
  "snapshot_aliases [] = give []"
| "snapshot_aliases (name # rest) =
     also_then (profile_path name) (\<lambda>p.
     also_then (snapshot_optional_file p) (\<lambda>c.
       case c of
         None \<Rightarrow> refuse_text (''reading existing profile '' @ quoted name)
       | Some bytes \<Rightarrow> also_then (snapshot_aliases rest) (\<lambda>more. give ((name, bytes) # more))))"

definition registry_snapshot :: "registry_snapshot action" where
  "registry_snapshot = also_then list_profiles snapshot_aliases"

section \<open>Writes\<close>

text \<open>An atomic replacement: refused, durable, or visible with its durability unconfirmed.\<close>

definition private_write ::
  "string \<Rightarrow> (store \<Rightarrow> event) \<Rightarrow> (store \<Rightarrow> store) \<Rightarrow> anyhow option action" where
  "private_write c ev f = access (\<lambda>reply s.
     case reply of
       Fine \<Rightarrow> (Inr None, record_event (ev s) (f s))
     | Unconfirmed e \<Rightarrow> (Inr (Some e), record_event (ev s) (f s))
     | Refused e \<Rightarrow> (Inl (plain (c # e)), s)
     | Unclear m _ \<Rightarrow> (Inl (plain [c, m]), s))"

definition require_durable_private_write :: "string \<Rightarrow> anyhow option \<Rightarrow> unit action" where
  "require_durable_private_write description outcome =
     (case outcome of
        None \<Rightarrow> give ()
      | Some e \<Rightarrow> refuse \<lparr>fl_kind = VisibleWriteError, fl_chain =
          (description @ '' is visible, but its directory durability could not be confirmed'') # e\<rparr>)"

definition write_marker_bytes :: "string \<Rightarrow> string \<Rightarrow> unit action" where
  "write_marker_bytes description bytes =
     also_then (private_write ''writing current profile marker'' (\<lambda>_. WroteMarker bytes)
                  (\<lambda>s. s\<lparr>st_marker := Some bytes\<rparr>))
       (require_durable_private_write description)"

definition write_current :: "string \<Rightarrow> unit action" where
  "write_current name = write_marker_bytes ''current profile marker'' name"

definition clear_current :: "unit action" where
  "clear_current = access (\<lambda>reply s.
     case reply of
       Refused e \<Rightarrow> (Inl (plain (''removing current profile marker'' # e)), s)
     | _ \<Rightarrow> (Inr (), record_event ClearedMarker (s\<lparr>st_marker := None\<rparr>)))"

definition write_auth :: "codec \<Rightarrow> string \<Rightarrow> json \<Rightarrow> anyhow option action" where
  "write_auth cd name value =
     private_write ''atomically replacing'' (\<lambda>s. WroteProfile name (st_auth s name) (cd_print cd value))
       (\<lambda>s. s\<lparr>st_auth := (st_auth s)(name \<mapsto> cd_print cd value),
               st_names := add_name name (st_names s)\<rparr>)"

text \<open>The directory of a profile comes into being before its credential is written.\<close>

definition ensure_profile_parent :: "string \<Rightarrow> unit action" where
  "ensure_profile_parent name = access (\<lambda>reply s.
     case reply of
       Refused e \<Rightarrow> (Inl (plain e), s)
     | _ \<Rightarrow> (Inr (), s\<lparr>st_names := add_name name (st_names s)\<rparr>))"

definition write_profile_auth_durably :: "codec \<Rightarrow> string \<Rightarrow> json \<Rightarrow> unit action" where
  "write_profile_auth_durably cd name value =
     also_then (write_auth cd name value) (\<lambda>outcome.
       in_context (''profile '' @ quoted name
           @ '' now contains the new credentials, but their durable commit is incomplete'')
         (require_durable_private_write ''profile credentials'' outcome))"

text \<open>
  The publication of the live credential under the condition that it is still \<open>expected\<close>. When
  its outcome is unclear the new credential may or may not have become visible.
\<close>

definition publish_live :: "string option \<Rightarrow> string \<Rightarrow> conditional_write action" where
  "publish_live expected new = access (\<lambda>reply s.
     let unchanged = (st_live s = expected);
         published = record_event (PublishedLive (st_live s) new) (s\<lparr>st_live := Some new\<rparr>)
     in case reply of
          Fine \<Rightarrow> if unchanged then (Inr Written, published) else (Inr Changed, s)
        | Refused e \<Rightarrow> (Inl (plain e), s)
        | Unconfirmed e \<Rightarrow>
            if unchanged then (Inr (WrittenRecoveryRequired (show_chain e)), published)
            else (Inr (NotWrittenRecoveryRequired (show_chain e)), s)
        | Unclear m visible \<Rightarrow>
            (Inr (UnclearRecoveryRequired m),
             record_event (MaybePublished expected new)
               (if visible \<and> unchanged then s\<lparr>st_live := Some new\<rparr> else s)))"

text \<open>A call into the cache: it works, or its durability is unconfirmed, or it fails.\<close>

definition cache_call :: "anyhow option action" where
  "cache_call = private_write ''cache'' (\<lambda>_. CacheChanged) (\<lambda>s. s)"

section \<open>Locks\<close>

text \<open>
  A lease that this process already holds is not granted again: the lock belongs to the open
  file. The transaction is the two locks, followed by the recovery of an interrupted publication.
\<close>

definition acquire_profile_lease :: "string \<Rightarrow> unit action" where
  "acquire_profile_lease name =
     also_then (lift (validate_alias name)) (\<lambda>_.
     access (\<lambda>reply s.
       case reply of
         Refused e \<Rightarrow> (Inl (plain e), s)
       | _ \<Rightarrow> if name \<in> set (st_leased s)
              then (Inl (plain [''profile '' @ quoted name @ '' lock remained held'']), s)
              else (Inr (), s\<lparr>st_leased := name # st_leased s\<rparr>)))"

definition with_lease :: "string \<Rightarrow> 'a action \<Rightarrow> 'a action" where
  "with_lease name m =
     also_then (acquire_profile_lease name) (\<lambda>_ s.
       case m s of (r, s') \<Rightarrow> (r, s'\<lparr>st_leased := removeAll name (st_leased s')\<rparr>))"

fun with_sorted_leases :: "string list \<Rightarrow> 'a action \<Rightarrow> 'a action" where
  "with_sorted_leases [] m = m"
| "with_sorted_leases (name # names) m = with_lease name (with_sorted_leases names m)"

definition with_leases :: "string list \<Rightarrow> 'a action \<Rightarrow> 'a action" where
  "with_leases names m =
     also_then (lift (collect_results validate_alias names)) (\<lambda>_.
       with_sorted_leases (remdups_adj (sort names)) m)"

definition lock_attempt :: "unit action" where
  "lock_attempt = access (\<lambda>reply s.
     case reply of
       Refused e \<Rightarrow> (Inl (plain e), s)
     | _ \<Rightarrow> if st_locked s then (Inl (plain [''auth lock remained held'']), s) else (Inr (), s))"

definition recover_publication :: "unit action" where
  "recover_publication = access (\<lambda>reply s.
     case reply of
       Refused e \<Rightarrow> (Inl (plain (''recovering an interrupted live-auth publication'' # e)), s)
     | _ \<Rightarrow> (Inr (), s))"

definition with_transaction :: "'a action \<Rightarrow> 'a action" where
  "with_transaction m =
     also_then lock_attempt (\<lambda>_.
     also_then lock_attempt (\<lambda>_ s.
       case also_then codex_auth_path (\<lambda>_. also_then recover_publication (\<lambda>_. m))
              (record_event Locked (s\<lparr>st_locked := True\<rparr>))
       of (r, s') \<Rightarrow> (r, record_event Unlocked (s'\<lparr>st_locked := False\<rparr>))))"

section \<open>Reasoning about traces\<close>

text \<open>
  \<open>traced A m Q E\<close>: from a trace in \<open>A\<close>, the action ends with a result and a trace in \<open>Q\<close>, or
  with an error and a trace in \<open>E\<close>, whatever the environment does. An assertion that more
  observations cannot falsify is \<open>observed\<close>.
\<close>

definition traced ::
  "(event list \<Rightarrow> bool) \<Rightarrow> 'a action \<Rightarrow> ('a \<Rightarrow> event list \<Rightarrow> bool)
     \<Rightarrow> (failure \<Rightarrow> event list \<Rightarrow> bool) \<Rightarrow> bool" where
  "traced A m Q E \<longleftrightarrow>
     (\<forall>s. A (st_trace s) \<longrightarrow>
        (case fst (m s) of
           Inr x \<Rightarrow> Q x (st_trace (snd (m s))) | Inl e \<Rightarrow> E e (st_trace (snd (m s)))))"

fun look_event :: "event \<Rightarrow> bool" where
  "look_event (Saw _ _) = True"
| "look_event (SawFile _) = True"
| "look_event (SawDirectory _ _) = True"
| "look_event (Listed _) = True"
| "look_event (Asked _) = True"
| "look_event CacheChanged = True"
| "look_event LoggedIn = True"
| "look_event _ = False"

definition observation :: "event \<Rightarrow> bool" where
  "observation e \<longleftrightarrow> look_event e \<or> e = Locked \<or> e = Unlocked"

lemma observation_simps [simp]:
  "observation (Saw p c)" "observation (SawFile p)" "observation (SawDirectory n b)" "observation (Listed ns)"
  "observation (Asked b)" "observation CacheChanged" "observation LoggedIn" "observation Locked" "observation Unlocked"
  "\<not> observation (PublishedLive x y)" "\<not> observation (MaybePublished x y)"
  "\<not> observation (WroteMarker m)" "\<not> observation ClearedMarker" "\<not> observation (WroteProfile n x y)"
  "\<not> observation (MovedProfile n m)" "\<not> observation (ArchivedProfile n)"
  "\<not> observation (ArchivedCopy n w)"
  by (simp_all add: observation_def)

lemma observation_look: "look_event e \<Longrightarrow> observation e"
  by (simp add: observation_def)

definition observed :: "(event list \<Rightarrow> bool) \<Rightarrow> bool" where
  "observed A \<longleftrightarrow> (\<forall>e t. observation e \<longrightarrow> A t \<longrightarrow> A (e # t))"

text \<open>The same within one transaction.\<close>

definition looked :: "(event list \<Rightarrow> bool) \<Rightarrow> bool" where
  "looked A \<longleftrightarrow> (\<forall>e t. look_event e \<longrightarrow> A t \<longrightarrow> A (e # t))"

lemma observed_looked: "observed A \<Longrightarrow> looked A"
  by (simp add: observed_def looked_def observation_look)

text \<open>An assertion that nothing falsifies: it speaks of what the trace contains.\<close>

definition lasting :: "(event list \<Rightarrow> bool) \<Rightarrow> bool" where
  "lasting A \<longleftrightarrow> (\<forall>e t. A t \<longrightarrow> A (e # t))"

text \<open>The events of a trace, each judged by what happened before it.\<close>

fun history :: "(event \<Rightarrow> event list \<Rightarrow> bool) \<Rightarrow> event list \<Rightarrow> bool" where
  "history ok [] \<longleftrightarrow> True"
| "history ok (e # t) \<longleftrightarrow> ok e t \<and> history ok t"

named_theorems traced_intros "trace rules by the structure of an action"
named_theorems observed_intros "assertions that observations keep"

lemma observed_conj [observed_intros]: "observed A \<Longrightarrow> observed B \<Longrightarrow> observed (\<lambda>t. A t \<and> B t)"
  by (auto simp: observed_def)

lemma observed_disj [observed_intros]: "observed A \<Longrightarrow> observed B \<Longrightarrow> observed (\<lambda>t. A t \<or> B t)"
  by (auto simp: observed_def)

lemma observed_const [observed_intros]: "observed (\<lambda>t. b)"
  by (auto simp: observed_def)

lemma observed_member [observed_intros]: "observed (\<lambda>t. e \<in> set t)"
  by (auto simp: observed_def)

lemma observed_imp [observed_intros]: "observed A \<Longrightarrow> observed (\<lambda>t. b \<longrightarrow> A t)"
  by (auto simp: observed_def)

lemma observed_ex: "(\<And>x. observed (A x)) \<Longrightarrow> observed (\<lambda>t. \<exists>x. A x t)"
  by (auto simp: observed_def)

lemma observed_history [observed_intros]:
  "(\<And>e t. observation e \<Longrightarrow> ok e t) \<Longrightarrow> observed (history ok)"
  by (auto simp: observed_def)

lemma lasting_observed: "lasting A \<Longrightarrow> observed A"
  by (auto simp: lasting_def observed_def)

lemma lastingD: "lasting A \<Longrightarrow> A t \<Longrightarrow> A (e # t)"
  by (simp add: lasting_def)

lemma lasting_append: "lasting A \<Longrightarrow> A t \<Longrightarrow> A (es @ t)"
  by (induction es) (auto dest: lastingD)

lemma history_suffix: "history ok (pre @ t) \<Longrightarrow> history ok t"
  by (induction pre) auto

lemma history_split: "history ok t \<longleftrightarrow> (\<forall>pre e post. t = pre @ e # post \<longrightarrow> ok e post)"
proof
  assume "history ok t"
  then show "\<forall>pre e post. t = pre @ e # post \<longrightarrow> ok e post"
    by (auto dest: history_suffix)
next
  show "\<forall>pre e post. t = pre @ e # post \<longrightarrow> ok e post \<Longrightarrow> history ok t"
  proof (induction t)
    case Nil
    then show ?case by simp
  next
    case (Cons e t)
    have "\<forall>pre e' post. t = pre @ e' # post \<longrightarrow> ok e' post"
      using Cons.prems by (metis append_Cons)
    with Cons.IH Cons.prems show ?case by (metis append_Nil history.simps(2))
  qed
qed

lemma tracedI:
  assumes "\<And>s x s'. A (st_trace s) \<Longrightarrow> m s = (Inr x, s') \<Longrightarrow> Q x (st_trace s')"
    and "\<And>s e s'. A (st_trace s) \<Longrightarrow> m s = (Inl e, s') \<Longrightarrow> E e (st_trace s')"
  shows "traced A m Q E"
  unfolding traced_def
proof (intro allI impI)
  fix s :: store
  assume "A (st_trace s)"
  then show "case fst (m s) of Inl e \<Rightarrow> E e (st_trace (snd (m s)))
      | Inr x \<Rightarrow> Q x (st_trace (snd (m s)))"
    using assms by (cases "m s"; cases "fst (m s)") auto
qed

lemma tracedD:
  "traced A m Q E \<Longrightarrow> A (st_trace s) \<Longrightarrow> m s = (Inr x, s') \<Longrightarrow> Q x (st_trace s')"
  "traced A m Q E \<Longrightarrow> A (st_trace s) \<Longrightarrow> m s = (Inl e, s') \<Longrightarrow> E e (st_trace s')"
  by (auto simp: traced_def dest!: spec [of _ s])

lemma traced_mono:
  assumes "traced A m Q E" "\<And>t. B t \<Longrightarrow> A t" "\<And>x t. Q x t \<Longrightarrow> R x t" "\<And>e t. E e t \<Longrightarrow> F e t"
  shows "traced B m R F"
  by (rule tracedI)
    (blast intro: assms(2-4) tracedD(1) [OF assms(1)] tracedD(2) [OF assms(1)])+

lemma traced_post: "traced A m Q E \<Longrightarrow> (\<And>x t. Q x t \<Longrightarrow> R x t) \<Longrightarrow> traced A m R E"
  by (rule traced_mono)

lemma traced_final:
  assumes "traced A m (\<lambda>_. B) (\<lambda>_. B)" "A (st_trace s)"
  shows "B (st_trace (snd (m s)))"
  using assms by (auto simp: traced_def dest!: spec [of _ s] split: sum.splits)

lemma traced_assume: "(b \<Longrightarrow> traced A m Q E) \<Longrightarrow> traced (\<lambda>t. A t \<and> b) m Q E"
  by (auto simp: traced_def)

lemma traced_give [traced_intros]: "(\<And>t. A t \<Longrightarrow> Q x t) \<Longrightarrow> traced A (give x) Q E"
  by (simp add: traced_def give_def)

lemma traced_refuse [traced_intros]: "(\<And>t. A t \<Longrightarrow> E f t) \<Longrightarrow> traced A (refuse f) Q E"
  by (simp add: traced_def refuse_def)

lemma traced_refuse_text [traced_intros]:
  "(\<And>t. A t \<Longrightarrow> E (plain [m]) t) \<Longrightarrow> traced A (refuse_text m) Q E"
  by (simp add: refuse_text_def traced_refuse)

lemma traced_then:
  assumes "traced A m R E" "\<And>x. traced (R x) (f x) Q E"
  shows "traced A (also_then m f) Q E"
proof (rule tracedI)
  fix s x s'
  assume "A (st_trace s)" "also_then m f s = (Inr x, s')"
  then show "Q x (st_trace s')"
    by (auto simp: also_then_def split: prod.splits sum.splits
        intro: tracedD(1) [OF assms(2)] tracedD(1) [OF assms(1)])
next
  fix s e s'
  assume "A (st_trace s)" "also_then m f s = (Inl e, s')"
  then show "E e (st_trace s')"
    by (auto simp: also_then_def split: prod.splits sum.splits
        intro: tracedD(2) [OF assms(2)] tracedD(1) [OF assms(1)] tracedD(2) [OF assms(1)])
qed

lemma traced_tried:
  assumes "traced A m (\<lambda>x. Q (Inr x)) (\<lambda>e. Q (Inl e))"
  shows "traced A (tried m) Q E"
proof (rule tracedI)
  fix s x s'
  assume s: "A (st_trace s)" and "tried m s = (Inr x, s')"
  then have "m s = (x, s')" by (simp add: tried_def split: prod.splits)
  with s show "Q x (st_trace s')" by (cases x) (auto dest: tracedD [OF assms])
qed (auto simp: tried_def split: prod.splits)

lemma traced_context:
  assumes "traced A m Q E" "\<And>f t. E f t \<Longrightarrow> E (f\<lparr>fl_chain := c # fl_chain f\<rparr>) t"
  shows "traced A (in_context c m) Q E"
proof (rule tracedI)
  fix s x s'
  assume "A (st_trace s)" "in_context c m s = (Inr x, s')"
  then show "Q x (st_trace s')"
    by (auto simp: in_context_def map_err_def split: prod.splits sum.splits dest: tracedD [OF assms(1)])
next
  fix s e s'
  assume "A (st_trace s)" "in_context c m s = (Inl e, s')"
  then show "E e (st_trace s')"
    by (auto simp: in_context_def map_err_def split: prod.splits sum.splits
        dest!: tracedD [OF assms(1)] intro: assms(2))
qed

lemma traced_lift [traced_intros]:
  "(\<And>x t. r = Inr x \<Longrightarrow> A t \<Longrightarrow> Q x t) \<Longrightarrow> (\<And>e t. r = Inl e \<Longrightarrow> A t \<Longrightarrow> E (plain e) t) \<Longrightarrow>
     traced A (lift r) Q E"
  by (cases r) (auto simp: lift_def traced_def give_def refuse_def)

lemma traced_if [traced_intros]:
  "(b \<Longrightarrow> traced A m Q E) \<Longrightarrow> (\<not> b \<Longrightarrow> traced A n Q E) \<Longrightarrow> traced A (if b then m else n) Q E"
  by simp

lemma traced_option [traced_intros]:
  "(x = None \<Longrightarrow> traced A m Q E) \<Longrightarrow> (\<And>y. x = Some y \<Longrightarrow> traced A (f y) Q E) \<Longrightarrow>
     traced A (case x of None \<Rightarrow> m | Some y \<Rightarrow> f y) Q E"
  by (cases x) auto

lemma traced_sum [traced_intros]:
  "(\<And>y. x = Inl y \<Longrightarrow> traced A (f y) Q E) \<Longrightarrow> (\<And>y. x = Inr y \<Longrightarrow> traced A (g y) Q E) \<Longrightarrow>
     traced A (case x of Inl y \<Rightarrow> f y | Inr y \<Rightarrow> g y) Q E"
  by (cases x) auto

section \<open>The trace rules of the accesses\<close>

lemma foreign_turn_trace [simp]: "st_trace (foreign_turn c s) = st_trace s"
  by (cases c) (simp_all add: foreign_turn_def)

lemma foreign_turns_trace [simp]: "st_trace (fold foreign_turn cs s) = st_trace s"
  by (induction cs arbitrary: s) simp_all

lemma record_event_trace [simp]: "st_trace (record_event e s) = e # st_trace s"
  by (simp add: record_event_def)

lemma traced_access:
  assumes "\<And>reply s. A (st_trace s) \<Longrightarrow>
     (case fst (f reply s) of
        Inr x \<Rightarrow> Q x (st_trace (snd (f reply s))) | Inl e \<Rightarrow> E e (st_trace (snd (f reply s))))"
  shows "traced A (access f) Q E"
  unfolding traced_def access_def by (auto split: list.splits intro: assms)

text \<open>Every error but the one that says that the live credential was replaced all the same.\<close>

definition minor :: "failure \<Rightarrow> bool" where
  "minor f \<longleftrightarrow> (\<forall>name published. fl_kind f \<noteq> PartialActivationError name published)"

lemma minor_simps [simp]:
  "minor (plain e)" "minor (f\<lparr>fl_chain := c\<rparr>) \<longleftrightarrow> minor f"
  "minor \<lparr>fl_kind = NoAuthFileError, fl_chain = c\<rparr>"
  "minor \<lparr>fl_kind = VisibleWriteError, fl_chain = c\<rparr>"
  "minor \<lparr>fl_kind = NotFoundError name, fl_chain = c\<rparr>"
  "minor \<lparr>fl_kind = AbortedError, fl_chain = c\<rparr>"
  "minor \<lparr>fl_kind = ActiveDeleteError name, fl_chain = c\<rparr>"
  "minor \<lparr>fl_kind = StaleLiveError d, fl_chain = c\<rparr>"
  by (simp_all add: minor_def plain_def)

lemma looked_trace: "looked A \<Longrightarrow> look_event e \<Longrightarrow> A t \<Longrightarrow> A (e # t)"
  by (simp add: looked_def)

lemma traced_observe:
  assumes "looked A" "\<And>x. look_event (ev x)" "\<And>e t. minor e \<Longrightarrow> A t \<Longrightarrow> E e t"
  shows "traced A (observe c g ev) (\<lambda>x t. A t \<and> ev x \<in> set t) E"
  unfolding observe_def
  by (rule traced_access) (auto simp: looked_trace [OF assms(1,2)] assms(3) split: reply.splits)

text \<open>
  An assertion that observations keep, whose traces are acceptable after a minor error: what an
  access needs of the assertion before it.
\<close>

definition frame :: "(event list \<Rightarrow> bool) \<Rightarrow> (failure \<Rightarrow> event list \<Rightarrow> bool) \<Rightarrow> bool" where
  "frame A E \<longleftrightarrow> looked A \<and> (\<forall>e t. minor e \<longrightarrow> A t \<longrightarrow> E e t)"

lemma frameI:
  "observed A \<Longrightarrow> (\<And>e t. minor e \<Longrightarrow> A t \<Longrightarrow> E e t) \<Longrightarrow> frame A E"
  by (simp add: frame_def observed_looked)

lemma frame_conj: "frame A E \<Longrightarrow> observed B \<Longrightarrow> frame (\<lambda>t. A t \<and> B t) E"
  by (auto simp: frame_def looked_def dest: looked_trace [OF observed_looked])

lemma frame_pure: "frame A E \<Longrightarrow> frame (\<lambda>t. A t \<and> b) E"
  by (intro frame_conj observed_const)

lemma frame_error: "frame A E \<Longrightarrow> minor e \<Longrightarrow> A t \<Longrightarrow> E e t"
  by (simp add: frame_def)

lemma frame_observe: "frame A E \<Longrightarrow> look_event e \<Longrightarrow> A t \<Longrightarrow> A (e # t)"
  by (simp add: frame_def looked_def)

lemma traced_fetch:
  assumes "frame A E" "\<And>x. look_event (ev x)"
  shows "traced A (observe c g ev) (\<lambda>x t. A t \<and> ev x \<in> set t) E"
  using assms by (intro traced_observe) (auto simp: frame_def)

lemma traced_see:
  "frame A E \<Longrightarrow> traced A (snapshot_optional_file p) (\<lambda>c t. A t \<and> Saw p c \<in> set t) E"
  unfolding snapshot_optional_file_def by (rule traced_fetch) simp_all

lemma traced_exists:
  "frame A E \<Longrightarrow>
     traced A (path_exists_checked p) (\<lambda>b t. A t \<and> existence p b \<in> set t) E"
  unfolding path_exists_checked_def by (rule traced_fetch) (simp_all add: existence_def)

lemma traced_directory:
  "frame A E \<Longrightarrow>
     traced A (directory_exists name) (\<lambda>b t. A t \<and> SawDirectory name b \<in> set t) E"
  unfolding directory_exists_def by (rule traced_fetch) simp_all

lemma traced_policy: "frame A E \<Longrightarrow> traced A load_policy (\<lambda>_. A) E"
  unfolding load_policy_def
  by (rule traced_access) (auto simp: frame_error lift_def give_def refuse_def split: reply.splits sum.splits)

lemma traced_lifted:
  "frame A E \<Longrightarrow> traced A (lift r) (\<lambda>x t. A t \<and> r = Inr x) E"
  by (rule traced_lift) (auto simp: frame_error)

lemma traced_live_path: "frame A E \<Longrightarrow> traced A codex_auth_path (\<lambda>_. A) E"
  unfolding codex_auth_path_def
  by (rule traced_then [OF traced_policy]) (auto intro: traced_mono [OF traced_lifted])

lemma traced_managed: "frame A E \<Longrightarrow> traced A (validate_managed cd v) (\<lambda>_. A) E"
  unfolding validate_managed_def
  by (rule traced_then [OF traced_policy]) (auto intro: traced_mono [OF traced_lifted])

definition saw_value :: "codec \<Rightarrow> path \<Rightarrow> json \<Rightarrow> event list \<Rightarrow> bool" where
  "saw_value cd p v t \<longleftrightarrow> (\<exists>b. Saw p (Some b) \<in> set t \<and> parse_auth cd b = Inr v)"

lemma lasting_saw_value: "lasting (saw_value cd p v)"
  by (auto simp: saw_value_def lasting_def)

lemmas observed_saw_value [observed_intros] = lasting_saw_value [THEN lasting_observed]

lemma traced_read_auth:
  assumes "frame A E"
  shows "traced A (read_auth cd p) (\<lambda>v t. A t \<and> saw_value cd p v t) E"
  unfolding read_auth_def
proof (rule traced_then [OF traced_see [OF assms]], rule traced_option)
  fix c :: "string option"
  show "traced (\<lambda>t. A t \<and> Saw p c \<in> set t)
          (refuse \<lparr>fl_kind = NoAuthFileError, fl_chain = [''no auth.json found'']\<rparr>)
          (\<lambda>v t. A t \<and> saw_value cd p v t) E"
    by (rule traced_refuse) (simp add: frame_error [OF assms])
next
  fix c :: "string option" and b
  assume "c = Some b"
  then show "traced (\<lambda>t. A t \<and> Saw p c \<in> set t) (lift (parse_auth cd b))
          (\<lambda>v t. A t \<and> saw_value cd p v t) E"
    by (intro traced_lift) (auto simp: saw_value_def frame_error [OF assms])
qed

definition saw_existing :: "codec \<Rightarrow> path \<Rightarrow> json option \<Rightarrow> event list \<Rightarrow> bool" where
  "saw_existing cd p v t \<longleftrightarrow>
     (case v of None \<Rightarrow> Saw p None \<in> set t | Some w \<Rightarrow> saw_value cd p w t)"

lemma lasting_saw_existing: "lasting (saw_existing cd p v)"
  by (cases v) (auto simp: saw_existing_def saw_value_def lasting_def)

lemmas observed_saw_existing [observed_intros] = lasting_saw_existing [THEN lasting_observed]

lemma traced_read_existing:
  assumes "frame A E"
  shows "traced A (read_existing_auth cd p) (\<lambda>v t. A t \<and> saw_existing cd p v t) E"
  unfolding read_existing_auth_def
proof (rule traced_then [OF traced_exists [OF assms]], rule traced_if)
  fix b
  show "traced (\<lambda>t. A t \<and> existence p b \<in> set t)
          (also_then (read_auth cd p) (\<lambda>v. give (Some v))) (\<lambda>v t. A t \<and> saw_existing cd p v t) E"
    by (rule traced_mono [where A = A])
      (rule traced_then [OF traced_read_auth [OF assms]], auto simp: saw_existing_def intro: traced_give)
next
  fix b
  assume "\<not> b"
  then show "traced (\<lambda>t. A t \<and> existence p b \<in> set t) (give None)
          (\<lambda>v t. A t \<and> saw_existing cd p v t) E"
    by (auto simp: saw_existing_def existence_def intro: traced_give)
qed

definition saw_marker :: "codec \<Rightarrow> string option \<Rightarrow> event list \<Rightarrow> bool" where
  "saw_marker cd name t \<longleftrightarrow>
     (case name of
        None \<Rightarrow> Saw MarkerFile None \<in> set t
      | Some n \<Rightarrow> (\<exists>b m. Saw MarkerFile (Some b) \<in> set t \<and> parse_marker cd b = Inr m \<and> ms_alias m = n))"

definition saw_snapshot :: "marker_snapshot option \<Rightarrow> codec \<Rightarrow> event list \<Rightarrow> bool" where
  "saw_snapshot m cd t \<longleftrightarrow>
     (case m of
        None \<Rightarrow> Saw MarkerFile None \<in> set t
      | Some m \<Rightarrow> Saw MarkerFile (Some (ms_bytes m)) \<in> set t \<and> parse_marker cd (ms_bytes m) = Inr m)"

lemma lasting_saw_marker: "lasting (saw_marker cd name)"
  by (cases name) (auto simp: saw_marker_def lasting_def)

lemmas observed_saw_marker [observed_intros] = lasting_saw_marker [THEN lasting_observed]

lemma lasting_saw_snapshot: "lasting (saw_snapshot m cd)"
  by (cases m) (auto simp: saw_snapshot_def lasting_def)

lemmas observed_saw_snapshot [observed_intros] = lasting_saw_snapshot [THEN lasting_observed]

lemma parse_marker_bytes: "parse_marker cd b = Inr m \<Longrightarrow> ms_bytes m = b \<and> alias_ok (ms_alias m)"
  by (auto simp: parse_marker_def Let_def bail_def result_eq_Inr split: if_splits)

lemma traced_marker_snapshot:
  assumes "frame A E"
  shows "traced A (read_current_marker_snapshot_checked cd) (\<lambda>m t. A t \<and> saw_snapshot m cd t) E"
  unfolding read_current_marker_snapshot_checked_def
proof (rule traced_then [OF traced_see [OF assms]], rule traced_option)
  fix c :: "string option"
  assume "c = None"
  then show "traced (\<lambda>t. A t \<and> Saw MarkerFile c \<in> set t) (give None) (\<lambda>m t. A t \<and> saw_snapshot m cd t) E"
    by (intro traced_give) (simp add: saw_snapshot_def)
next
  fix c :: "string option" and b
  assume "c = Some b"
  then show "traced (\<lambda>t. A t \<and> Saw MarkerFile c \<in> set t)
      (also_then (lift (parse_marker cd b)) (\<lambda>m. give (Some m))) (\<lambda>m t. A t \<and> saw_snapshot m cd t) E"
    by (intro traced_then [OF traced_lifted] traced_give frame_conj assms observed_intros)
      (use parse_marker_bytes [of cd b] in \<open>auto simp: saw_snapshot_def\<close>)
qed

lemma traced_marker:
  assumes "frame A E"
  shows "traced A (read_current_checked cd) (\<lambda>name t. A t \<and> saw_marker cd name t) E"
  unfolding read_current_checked_def
  by (intro traced_then [OF traced_marker_snapshot [OF assms]] traced_give)
    (auto simp: saw_marker_def saw_snapshot_def split: option.splits)

lemma traced_profile_path:
  "frame A E \<Longrightarrow> traced A (profile_path name) (\<lambda>p t. A t \<and> p = ProfileAuth name \<and> alias_ok name) E"
  unfolding profile_path_def
  by (rule traced_then [OF traced_lifted]) (auto intro: traced_give)

definition saw_profiles :: "registry_snapshot \<Rightarrow> event list \<Rightarrow> bool" where
  "saw_profiles profiles t \<longleftrightarrow> (\<forall>(name, b) \<in> set profiles. Saw (ProfileAuth name) (Some b) \<in> set t)"

lemma lasting_saw_profiles: "lasting (saw_profiles profiles)"
  by (auto simp: saw_profiles_def lasting_def)

lemmas observed_saw_profiles [observed_intros] = lasting_saw_profiles [THEN lasting_observed]

lemma traced_snapshot_aliases:
  assumes "frame A E"
  shows "traced A (snapshot_aliases names) (\<lambda>profiles t. A t \<and> saw_profiles profiles t \<and> map fst profiles = names) E"
  using assms
proof (induction names arbitrary: A)
  case Nil
  then show ?case by (auto simp: saw_profiles_def intro: traced_give)
next
  case (Cons name names)
  let ?R = "\<lambda>p t. A t \<and> p = ProfileAuth name \<and> alias_ok name"
  show ?case
    unfolding snapshot_aliases.simps
  proof (rule traced_then [OF traced_profile_path [OF Cons.prems]],
      rule traced_then [OF traced_see [OF frame_pure [OF Cons.prems]]], rule traced_option)
    fix p and c :: "string option"
    show "traced (\<lambda>t. (A t \<and> p = ProfileAuth name \<and> alias_ok name) \<and> Saw p c \<in> set t)
      (refuse_text (''reading existing profile '' @ quoted name))
      (\<lambda>profiles t. A t \<and> saw_profiles profiles t \<and> map fst profiles = name # names) E"
      by (rule traced_refuse_text) (auto intro: frame_error [OF Cons.prems])
  next
    fix p and c :: "string option" and b
    assume "c = Some b"
    moreover have "frame (\<lambda>t. (A t \<and> p = ProfileAuth name \<and> alias_ok name) \<and> Saw p c \<in> set t) E"
      by (intro frame_conj frame_pure Cons.prems observed_intros)
    ultimately show "traced (\<lambda>t. (A t \<and> p = ProfileAuth name \<and> alias_ok name) \<and> Saw p c \<in> set t)
      (also_then (snapshot_aliases names) (\<lambda>more. give ((name, b) # more)))
      (\<lambda>profiles t. A t \<and> saw_profiles profiles t \<and> map fst profiles = name # names) E"
      by (intro traced_then [OF Cons.IH] traced_give) (auto simp: saw_profiles_def)
  qed
qed

lemma traced_list: "frame A E \<Longrightarrow> traced A list_profiles (\<lambda>names. A) E"
  unfolding list_profiles_def
  by (rule traced_then [OF traced_fetch]) (auto simp: frame_error intro: traced_lift)

lemma traced_registry:
  assumes "frame A E"
  shows "traced A registry_snapshot (\<lambda>profiles t. A t \<and> saw_profiles profiles t) E"
  unfolding registry_snapshot_def
  by (rule traced_then [OF traced_list [OF assms]])
    (auto intro: traced_mono [OF traced_snapshot_aliases [OF assms]])

section \<open>The trace rules of the writes and the locks\<close>

lemma traced_private_write:
  assumes "frame A E" "\<And>s. A (st_trace s) \<Longrightarrow> B (ev s # st_trace s)" "\<And>s. st_trace (f s) = st_trace s"
  shows "traced A (private_write c ev f) (\<lambda>_. B) E"
  unfolding private_write_def
  by (rule traced_access) (auto simp: assms frame_error [OF assms(1)] split: reply.splits)

lemma traced_durable:
  assumes "\<And>t. A t \<Longrightarrow> Q () t" "\<And>e t. minor e \<Longrightarrow> A t \<Longrightarrow> E e t"
  shows "traced A (require_durable_private_write d outcome) Q E"
  unfolding require_durable_private_write_def
  by (auto intro!: traced_option traced_give traced_refuse assms)

lemma traced_write_current:
  assumes "frame A E" "\<And>t. A t \<Longrightarrow> B (WroteMarker name # t)" "\<And>e t. minor e \<Longrightarrow> B t \<Longrightarrow> E e t"
  shows "traced A (write_current name) (\<lambda>_. B) E"
  unfolding write_current_def write_marker_bytes_def
  by (rule traced_then [OF traced_private_write [where B = B, OF assms(1)]])
    (auto intro: assms traced_durable)

lemma traced_clear_current:
  assumes "frame A E" "\<And>t. A t \<Longrightarrow> B (ClearedMarker # t)"
  shows "traced A clear_current (\<lambda>_. B) E"
  unfolding clear_current_def
  by (rule traced_access) (auto simp: assms frame_error [OF assms(1)] split: reply.splits)

lemma traced_write_auth:
  assumes "frame A E" "\<And>t old. A t \<Longrightarrow> B (WroteProfile name old (cd_print cd v) # t)"
  shows "traced A (write_auth cd name v) (\<lambda>_. B) E"
  unfolding write_auth_def
  by (rule traced_private_write) (auto intro: assms)

lemma traced_write_durably:
  assumes "frame A E" "\<And>t old. A t \<Longrightarrow> B (WroteProfile name old (cd_print cd v) # t)"
    "\<And>e t. minor e \<Longrightarrow> B t \<Longrightarrow> E e t" "\<And>f c t. E f t \<Longrightarrow> E (f\<lparr>fl_chain := c\<rparr>) t"
  shows "traced A (write_profile_auth_durably cd name v) (\<lambda>_. B) E"
  unfolding write_profile_auth_durably_def
  by (rule traced_then [OF traced_write_auth [where B = B, OF assms(1,2)]])
    (auto intro: assms(3,4) traced_durable traced_context)

lemma traced_parent: "frame A E \<Longrightarrow> traced A (ensure_profile_parent name) (\<lambda>_. A) E"
  unfolding ensure_profile_parent_def
  by (rule traced_access) (auto simp: frame_error split: reply.splits)

lemma traced_cache: "frame A E \<Longrightarrow> traced A cache_call (\<lambda>_. A) E"
  unfolding cache_call_def
  by (rule traced_private_write) (auto simp: frame_observe)

lemma traced_publish:
  assumes "frame A E"
    and "\<And>t. A t \<Longrightarrow> Q Written (PublishedLive expected new # t)"
    and "\<And>t. A t \<Longrightarrow> Q Changed t"
    and "\<And>t m. A t \<Longrightarrow> Q (WrittenRecoveryRequired m) (PublishedLive expected new # t)"
    and "\<And>t m. A t \<Longrightarrow> Q (NotWrittenRecoveryRequired m) t"
    and "\<And>t m. A t \<Longrightarrow> Q (UnclearRecoveryRequired m) (MaybePublished expected new # t)"
  shows "traced A (publish_live expected new) Q E"
  unfolding publish_live_def Let_def
  by (rule traced_access) (auto simp: assms(2-) frame_error [OF assms(1)] split: reply.splits)

lemma traced_acquire: "frame A E \<Longrightarrow> traced A (acquire_profile_lease name) (\<lambda>_ t. A t \<and> alias_ok name) E"
  unfolding acquire_profile_lease_def
  by (intro traced_then [OF traced_lifted] traced_access)
    (auto simp: frame_error split: reply.splits)

lemma traced_release:
  assumes "traced A m Q E"
  shows "traced A (\<lambda>s. case m s of (r, s') \<Rightarrow> (r, s'\<lparr>st_leased := g s'\<rparr>)) Q E"
  using tracedD [OF assms] by (auto intro!: tracedI split: prod.splits)

lemma traced_with_lease:
  assumes "frame A E" "alias_ok name \<Longrightarrow> traced A m Q E"
  shows "traced A (with_lease name m) Q E"
  unfolding with_lease_def
  by (intro traced_then [OF traced_acquire [OF assms(1)]] traced_release(1) traced_assume assms(2))

lemma traced_with_sorted:
  assumes "frame A E" "traced A m Q E"
  shows "traced A (with_sorted_leases names m) Q E"
  by (induction names) (auto intro: traced_with_lease assms)

lemma traced_with_leases:
  assumes "frame A E" "traced A m Q E"
  shows "traced A (with_leases names m) Q E"
  unfolding with_leases_def
  by (intro traced_then [OF traced_lifted [OF assms(1)]] traced_assume traced_with_sorted assms)

lemma traced_lock: "frame A E \<Longrightarrow> traced A lock_attempt (\<lambda>_. A) E"
  unfolding lock_attempt_def
  by (rule traced_access) (auto simp: frame_error split: reply.splits)

lemma traced_recover: "frame A E \<Longrightarrow> traced A recover_publication (\<lambda>_. A) E"
  unfolding recover_publication_def
  by (rule traced_access) (auto simp: frame_error split: reply.splits)

lemma observedD: "observed A \<Longrightarrow> observation e \<Longrightarrow> A t \<Longrightarrow> A (e # t)"
  by (simp add: observed_def)

lemma traced_section:
  assumes m: "traced A m Q E" and A: "observed A"
    and Q: "\<And>x. observed (Q x)" and E: "\<And>e. observed (E e)"
  shows "traced A (\<lambda>s. case m (record_event Locked (s\<lparr>st_locked := True\<rparr>)) of
     (r, s') \<Rightarrow> (r, record_event Unlocked (s'\<lparr>st_locked := False\<rparr>))) Q E"
proof -
  have start: "A (st_trace (record_event Locked (s\<lparr>st_locked := True\<rparr>)))" if "A (st_trace s)" for s :: store
    using that by (simp add: observedD [OF A])
  show ?thesis
  proof (rule tracedI)
    fix s x s'
    assume s: "A (st_trace s)" and run: "(case m (record_event Locked (s\<lparr>st_locked := True\<rparr>)) of
       (r, s') \<Rightarrow> (r, record_event Unlocked (s'\<lparr>st_locked := False\<rparr>))) = (Inr x, s')"
    then obtain s2 where "m (record_event Locked (s\<lparr>st_locked := True\<rparr>)) = (Inr x, s2)"
      "st_trace s' = Unlocked # st_trace s2"
      by (auto split: prod.splits)
    with tracedD(1) [OF m start [OF s]] show "Q x (st_trace s')" by (simp add: observedD [OF Q])
  next
    fix s e s'
    assume s: "A (st_trace s)" and run: "(case m (record_event Locked (s\<lparr>st_locked := True\<rparr>)) of
       (r, s') \<Rightarrow> (r, record_event Unlocked (s'\<lparr>st_locked := False\<rparr>))) = (Inl e, s')"
    then obtain s2 where "m (record_event Locked (s\<lparr>st_locked := True\<rparr>)) = (Inl e, s2)"
      "st_trace s' = Unlocked # st_trace s2"
      by (auto split: prod.splits)
    with tracedD(2) [OF m start [OF s]] show "E e (st_trace s')" by (simp add: observedD [OF E])
  qed
qed

lemma traced_with_transaction:
  assumes f: "frame A E" and m: "traced A m Q E"
    and o': "observed A" "\<And>x. observed (Q x)" "\<And>e. observed (E e)"
  shows "traced A (with_transaction m) Q E"
proof -
  have "traced A (also_then codex_auth_path (\<lambda>_. also_then recover_publication (\<lambda>_. m))) Q E"
    by (intro traced_then [OF traced_live_path [OF f]] traced_then [OF traced_recover [OF f]] m)
  from traced_section [OF this o'] show ?thesis
    unfolding with_transaction_def by (intro traced_then [OF traced_lock [OF f]])
qed

section \<open>Bundles\<close>

lemma traced_prod [traced_intros]:
  "(\<And>a b. x = (a, b) \<Longrightarrow> traced A (f a b) Q E) \<Longrightarrow> traced A (case x of (a, b) \<Rightarrow> f a b) Q E"
  by (cases x) auto

lemma traced_conditional_write [traced_intros]:
  assumes "w = Written \<Longrightarrow> traced A m1 Q E" "w = Changed \<Longrightarrow> traced A m2 Q E"
    "\<And>d. w = WrittenRecoveryRequired d \<Longrightarrow> traced A (m3 d) Q E"
    "\<And>d. w = NotWrittenRecoveryRequired d \<Longrightarrow> traced A (m4 d) Q E"
    "\<And>d. w = UnclearRecoveryRequired d \<Longrightarrow> traced A (m5 d) Q E"
  shows "traced A (case w of Written \<Rightarrow> m1 | Changed \<Rightarrow> m2 | WrittenRecoveryRequired d \<Rightarrow> m3 d
     | NotWrittenRecoveryRequired d \<Rightarrow> m4 d | UnclearRecoveryRequired d \<Rightarrow> m5 d) Q E"
  using assms by (cases w) auto

text \<open>An access followed by the rest: the rules to apply, and those that settle what they need.\<close>

lemmas traced_steps =
  traced_then [OF traced_see] traced_then [OF traced_exists] traced_then [OF traced_directory]
  traced_then [OF traced_policy] traced_then [OF traced_lifted] traced_then [OF traced_live_path]
  traced_then [OF traced_managed] traced_then [OF traced_read_auth]
  traced_then [OF traced_read_existing] traced_then [OF traced_marker_snapshot]
  traced_then [OF traced_marker] traced_then [OF traced_profile_path]
  traced_then [OF traced_registry] traced_then [OF traced_list]
  traced_then [OF traced_snapshot_aliases] traced_then [OF traced_parent]
  traced_then [OF traced_cache] traced_intros

lemmas frame_rules = frame_conj frame_pure

lemma traced_tried_weak:
  assumes "traced A m (\<lambda>_. B) (\<lambda>_. B)"
  shows "traced A (tried m) (\<lambda>_. B) E"
  by (rule traced_tried) (rule assms)

section \<open>What was seen under the transaction is still there\<close>

fun in_lock :: "event list \<Rightarrow> bool" where
  "in_lock [] \<longleftrightarrow> False"
| "in_lock (e # t) \<longleftrightarrow> (if e = Locked then True else if e = Unlocked then False else in_lock t)"

text \<open>
  The contents of a profile that the trace knows since the transaction was acquired: those it saw,
  or the one it wrote last.
\<close>

fun seen_since :: "string \<Rightarrow> event list \<Rightarrow> string option list" where
  "seen_since name [] = []"
| "seen_since name (e # t) =
     (case e of
        Locked \<Rightarrow> []
      | Unlocked \<Rightarrow> []
      | WroteProfile n _ new \<Rightarrow>
          if n = name then (if in_lock t then [Some new] else []) else seen_since name t
      | Saw p c \<Rightarrow> if p = ProfileAuth name \<and> in_lock t then c # seen_since name t else seen_since name t
      | MovedProfile a b \<Rightarrow> if name = a \<or> name = b then [] else seen_since name t
      | ArchivedProfile a \<Rightarrow> if name = a then [] else seen_since name t
      | _ \<Rightarrow> seen_since name t)"

text \<open>An overwritten content is one of those; a new look agrees with the earlier ones.\<close>

definition truth_ok :: "event \<Rightarrow> event list \<Rightarrow> bool" where
  "truth_ok e t \<longleftrightarrow>
     (case e of
        WroteProfile name old _ \<Rightarrow> list_all (\<lambda>c. c = old) (seen_since name t)
      | Saw (ProfileAuth name) c \<Rightarrow> list_all (\<lambda>c'. c' = c) (seen_since name t)
      | _ \<Rightarrow> True)"

definition coherent :: "store \<Rightarrow> bool" where
  "coherent s \<longleftrightarrow>
     st_locked s = in_lock (st_trace s)
     \<and> (\<forall>name. list_all (\<lambda>c. c = st_auth s name) (seen_since name (st_trace s)))
     \<and> history truth_ok (st_trace s)"

text \<open>A truthful action keeps the trace true and only adds to it.\<close>

definition later :: "event list \<Rightarrow> event list \<Rightarrow> bool" where
  "later base t \<longleftrightarrow> (\<exists>es. t = es @ base)"

definition coherent_over :: "event list \<Rightarrow> store \<Rightarrow> bool" where
  "coherent_over base s \<longleftrightarrow> coherent s \<and> later base (st_trace s)"

definition truthful :: "'a action \<Rightarrow> bool" where
  "truthful m \<longleftrightarrow> (\<forall>base s. coherent_over base s \<longrightarrow> coherent_over base (snd (m s)))"

lemma later_refl [simp]: "later t t"
  by (simp add: later_def)

lemma later_event: "later base t \<Longrightarrow> later base (e # t)"
  by (auto simp: later_def intro: exI [of _ "e # _"])

lemma later_lasting: "lasting A \<Longrightarrow> later base t \<Longrightarrow> A base \<Longrightarrow> A t"
  unfolding later_def by (elim exE, hypsubst) (rule lasting_append)

lemma truthfulD:
  assumes "truthful m" "coherent s"
  shows "coherent (snd (m s))" "later (st_trace s) (st_trace (snd (m s)))"
proof -
  have "coherent_over (st_trace s) s" using assms(2) by (simp add: coherent_over_def)
  with assms(1) have "coherent_over (st_trace s) (snd (m s))" unfolding truthful_def by blast
  then show "coherent (snd (m s))" "later (st_trace s) (st_trace (snd (m s)))" by (simp_all add: coherent_over_def)
qed

lemma truthful_over: "truthful m \<Longrightarrow> coherent_over base s \<Longrightarrow> m s = (r, s') \<Longrightarrow> coherent_over base s'"
  unfolding truthful_def by (metis snd_conv)

lemma unlocked_unseen: "\<not> in_lock t \<Longrightarrow> seen_since name t = []"
  by (induction t) (auto split: event.splits if_splits)

lemma foreign_turn_locked [simp]: "st_locked (foreign_turn c s) = st_locked s"
  by (cases c) (auto simp: foreign_turn_def)

lemma foreign_turn_auth [simp]: "st_locked s \<Longrightarrow> st_auth (foreign_turn c s) = st_auth s"
  by (cases c) (auto simp: foreign_turn_def)

lemma coherent_unlocked:
  "\<not> st_locked s \<Longrightarrow> coherent s \<longleftrightarrow> \<not> in_lock (st_trace s) \<and> history truth_ok (st_trace s)"
  by (auto simp: coherent_def unlocked_unseen)

lemma coherent_foreign: "coherent s \<Longrightarrow> coherent (foreign_turn c s)"
  by (cases "st_locked s") (simp_all add: coherent_unlocked, simp add: coherent_def)

lemma coherent_foreigns: "coherent s \<Longrightarrow> coherent (fold foreign_turn cs s)"
  by (induction cs arbitrary: s) (simp_all add: coherent_foreign)

lemma coherent_irrelevant [simp]:
  "coherent (s\<lparr>st_script := x\<rparr>) \<longleftrightarrow> coherent s" "coherent (s\<lparr>st_leased := l\<rparr>) \<longleftrightarrow> coherent s"
  "coherent (s\<lparr>st_names := ns\<rparr>) \<longleftrightarrow> coherent s" "coherent (s\<lparr>st_live := b\<rparr>) \<longleftrightarrow> coherent s"
  "coherent (s\<lparr>st_marker := b\<rparr>) \<longleftrightarrow> coherent s" "coherent (s\<lparr>st_stages := g\<rparr>) \<longleftrightarrow> coherent s"
  by (simp_all add: coherent_def)

lemma coherent_event:
  "coherent s \<Longrightarrow> e \<notin> {Locked, Unlocked} \<Longrightarrow> (\<And>n o' w. e \<noteq> WroteProfile n o' w) \<Longrightarrow>
     (\<And>n c. e \<noteq> Saw (ProfileAuth n) c) \<Longrightarrow> coherent (record_event e s)"
  by (cases e) (auto simp: coherent_def record_event_def truth_ok_def split: path.splits)

lemma coherent_saw: "coherent s \<Longrightarrow> coherent (record_event (Saw p (content p s)) s)"
  by (cases p) (auto simp: coherent_def record_event_def truth_ok_def content_def list_all_iff)

lemma coherent_wrote:
  assumes "coherent s"
  shows "coherent (record_event (WroteProfile name (st_auth s name) new)
     (s\<lparr>st_auth := (st_auth s)(name \<mapsto> new), st_names := ns\<rparr>))"
  using assms by (auto simp: coherent_def record_event_def truth_ok_def list_all_iff)

lemma coherent_locked: "coherent s \<Longrightarrow> coherent (record_event Locked (s\<lparr>st_locked := True\<rparr>))"
  by (auto simp: coherent_def record_event_def truth_ok_def)

lemma coherent_released: "coherent s \<Longrightarrow> coherent (record_event Unlocked (s\<lparr>st_locked := False\<rparr>))"
  by (auto simp: coherent_def record_event_def truth_ok_def)

text \<open>The same with the growth of the trace.\<close>

lemma over_foreigns: "coherent_over base s \<Longrightarrow> coherent_over base (fold foreign_turn cs s)"
proof (induction cs arbitrary: s)
  case (Cons c cs)
  have "st_trace (foreign_turn c s) = st_trace s" by (cases c) (auto simp: foreign_turn_def)
  with Cons show ?case by (simp add: coherent_over_def coherent_foreign)
qed simp

lemma over_irrelevant [simp]:
  "coherent_over base (s\<lparr>st_script := x\<rparr>) \<longleftrightarrow> coherent_over base s" "coherent_over base (s\<lparr>st_leased := l\<rparr>) \<longleftrightarrow> coherent_over base s"
  "coherent_over base (s\<lparr>st_names := ns\<rparr>) \<longleftrightarrow> coherent_over base s" "coherent_over base (s\<lparr>st_live := b\<rparr>) \<longleftrightarrow> coherent_over base s"
  "coherent_over base (s\<lparr>st_marker := b\<rparr>) \<longleftrightarrow> coherent_over base s" "coherent_over base (s\<lparr>st_stages := g\<rparr>) \<longleftrightarrow> coherent_over base s"
  by (simp_all add: coherent_over_def)

lemma over_adds:
  "coherent_over base s \<Longrightarrow> coherent s' \<Longrightarrow> st_trace s' = e # st_trace s \<Longrightarrow> coherent_over base s'"
  by (simp add: coherent_over_def later_event)

lemma over_event:
  "coherent_over base s \<Longrightarrow> e \<notin> {Locked, Unlocked} \<Longrightarrow> (\<And>n o' w. e \<noteq> WroteProfile n o' w) \<Longrightarrow>
     (\<And>n c. e \<noteq> Saw (ProfileAuth n) c) \<Longrightarrow> coherent_over base (record_event e s)"
  by (rule over_adds, assumption, rule coherent_event) (auto simp: coherent_over_def record_event_def)

lemma over_saw: "coherent_over base s \<Longrightarrow> coherent_over base (record_event (Saw p (content p s)) s)"
  by (rule over_adds, assumption, rule coherent_saw) (auto simp: coherent_over_def record_event_def)

lemma over_existence:
  assumes "coherent_over base s"
  shows "coherent_over base (record_event (existence p (content p s \<noteq> None)) s)"
proof (cases "content p s")
  case None
  with over_saw [OF assms, of p] show ?thesis by (simp add: existence_def)
qed (simp add: existence_def over_event [OF assms])

lemma over_wrote:
  "coherent_over base s \<Longrightarrow> coherent_over base (record_event (WroteProfile name (st_auth s name) new)
     (s\<lparr>st_auth := (st_auth s)(name \<mapsto> new), st_names := ns\<rparr>))"
  by (rule over_adds, assumption, rule coherent_wrote) (auto simp: coherent_over_def record_event_def)

lemma over_locked: "coherent_over base s \<Longrightarrow> coherent_over base (record_event Locked (s\<lparr>st_locked := True\<rparr>))"
  by (rule over_adds, assumption, rule coherent_locked) (auto simp: coherent_over_def record_event_def)

lemma over_released: "coherent_over base s \<Longrightarrow> coherent_over base (record_event Unlocked (s\<lparr>st_locked := False\<rparr>))"
  by (rule over_adds, assumption, rule coherent_released) (auto simp: coherent_over_def record_event_def)

named_theorems truthful_intros "actions that keep the trace true"

lemma truthful_give [truthful_intros]: "truthful (give x)" "truthful (refuse f)" "truthful (refuse_text m)"
  by (simp_all add: truthful_def give_def refuse_def refuse_text_def)

lemma truthful_then [truthful_intros]:
  "truthful m \<Longrightarrow> (\<And>x. truthful (f x)) \<Longrightarrow> truthful (also_then m f)"
  unfolding truthful_def [of "also_then m f"] also_then_def
  by (auto dest: truthful_over intro: truthful_over [OF _ _ prod.collapse [symmetric]] split: prod.splits sum.splits)

lemma truthful_tried [truthful_intros]: "truthful m \<Longrightarrow> truthful (tried m)"
  unfolding truthful_def [of "tried m"] tried_def by (auto dest: truthful_over split: prod.splits)

lemma truthful_context [truthful_intros]: "truthful m \<Longrightarrow> truthful (in_context c m)"
  unfolding truthful_def [of "in_context c m"] in_context_def by (auto dest: truthful_over split: prod.splits)

lemma truthful_lift [truthful_intros]: "truthful (lift r)"
  by (cases r) (simp_all add: lift_def truthful_intros)

lemma truthful_if [truthful_intros]: "truthful m \<Longrightarrow> truthful n \<Longrightarrow> truthful (if b then m else n)"
  by simp

lemma truthful_cases [truthful_intros]:
  "truthful m \<Longrightarrow> (\<And>y. truthful (f y)) \<Longrightarrow> truthful (case x of None \<Rightarrow> m | Some y \<Rightarrow> f y)"
  "(\<And>y. truthful (g y)) \<Longrightarrow> (\<And>y. truthful (h y)) \<Longrightarrow> truthful (case z of Inl y \<Rightarrow> g y | Inr y \<Rightarrow> h y)"
  "(\<And>a b. truthful (k a b)) \<Longrightarrow> truthful (case w of (a, b) \<Rightarrow> k a b)"
  by (cases x; cases z; cases w; simp)+

lemma truthful_access:
  "(\<And>reply base s. coherent_over base s \<Longrightarrow> coherent_over base (snd (f reply s))) \<Longrightarrow> truthful (access f)"
  unfolding truthful_def access_def by (auto simp: over_foreigns split: list.splits)

lemma truthful_snapshot [truthful_intros]: "truthful (snapshot_optional_file p)"
  unfolding snapshot_optional_file_def observe_def
  by (rule truthful_access) (auto simp: over_saw split: reply.splits)

lemma truthful_exists [truthful_intros]: "truthful (path_exists_checked p)"
  unfolding path_exists_checked_def observe_def
  by (rule truthful_access) (auto simp del: not_None_eq intro: over_existence split: reply.splits)

lemma truthful_directory [truthful_intros]: "truthful (directory_exists name)"
  unfolding directory_exists_def observe_def
  by (rule truthful_access) (auto intro: over_event split: reply.splits)

lemma truthful_policy [truthful_intros]: "truthful load_policy"
  unfolding load_policy_def
  by (rule truthful_access) (auto simp: lift_def give_def refuse_def split: reply.splits sum.splits)

lemma truthful_observations [truthful_intros]:
  "truthful codex_auth_path" "truthful (validate_managed cd v)" "truthful (read_auth cd p)"
  "truthful (read_existing_auth cd p)" "truthful (profile_path name)"
  "truthful (read_current_marker_snapshot_checked cd)" "truthful (read_current_checked cd)"
  unfolding codex_auth_path_def validate_managed_def read_existing_auth_def read_auth_def
    profile_path_def read_current_checked_def read_current_marker_snapshot_checked_def
  by (intro truthful_intros)+

lemma truthful_list [truthful_intros]: "truthful list_profiles"
  unfolding list_profiles_def observe_def
  by (intro truthful_intros truthful_access) (auto intro: over_event split: reply.splits)

lemma truthful_aliases [truthful_intros]: "truthful (snapshot_aliases names)"
  by (induction names) (auto intro!: truthful_intros)

lemma truthful_registry [truthful_intros]: "truthful registry_snapshot"
  unfolding registry_snapshot_def by (intro truthful_intros)

lemma truthful_durable [truthful_intros]: "truthful (require_durable_private_write d out)"
  unfolding require_durable_private_write_def by (intro truthful_intros)

lemma truthful_writes [truthful_intros]:
  "truthful (write_current name)" "truthful clear_current" "truthful (write_auth cd name v)"
  "truthful (ensure_profile_parent name)" "truthful (publish_live expected new)" "truthful cache_call"
  unfolding write_current_def write_marker_bytes_def clear_current_def write_auth_def
    ensure_profile_parent_def publish_live_def cache_call_def private_write_def Let_def
  by (intro truthful_intros truthful_access;
      auto intro: over_event over_wrote split: reply.splits)+

lemma truthful_write_durably [truthful_intros]: "truthful (write_profile_auth_durably cd name v)"
  unfolding write_profile_auth_durably_def by (intro truthful_intros)

lemma truthful_lease [truthful_intros]:
  assumes "truthful m"
  shows "truthful (with_lease name m)"
proof -
  have "truthful (acquire_profile_lease name)"
    unfolding acquire_profile_lease_def
    by (intro truthful_intros truthful_access) (auto split: reply.splits)
  moreover have "truthful (\<lambda>s. case m s of (r, s') \<Rightarrow> (r, s'\<lparr>st_leased := removeAll name (st_leased s')\<rparr>))"
    unfolding truthful_def using truthful_over [OF assms] by (auto split: prod.splits)
  ultimately show ?thesis unfolding with_lease_def by (intro truthful_intros)
qed

lemma truthful_sorted_leases [truthful_intros]: "truthful m \<Longrightarrow> truthful (with_sorted_leases names m)"
  by (induction names) (auto intro: truthful_intros)

lemma truthful_leases [truthful_intros]: "truthful m \<Longrightarrow> truthful (with_leases names m)"
  unfolding with_leases_def by (intro truthful_intros)

lemma truthful_transaction [truthful_intros]:
  assumes "truthful m"
  shows "truthful (with_transaction m)"
proof -
  have lock: "truthful lock_attempt" "truthful recover_publication"
    unfolding lock_attempt_def recover_publication_def
    by (intro truthful_access; auto split: reply.splits)+
  let ?m = "also_then codex_auth_path (\<lambda>_. also_then recover_publication (\<lambda>_. m))"
  have "truthful ?m" by (intro truthful_intros lock assms)
  then have "truthful (\<lambda>s. case ?m (record_event Locked (s\<lparr>st_locked := True\<rparr>)) of
     (r, s') \<Rightarrow> (r, record_event Unlocked (s'\<lparr>st_locked := False\<rparr>)))"
    unfolding truthful_def
    using truthful_over [OF \<open>truthful ?m\<close> over_locked] by (auto split: prod.splits intro: over_released)
  then show ?thesis unfolding with_transaction_def by (intro truthful_intros lock)
qed

end
