(* ===== verification/Profile_Switch.thy ===== *)
theory Profile_Switch
  imports Profile_Store
begin

text \<open>
  Switching to a saved profile (\<open>src/src/profile.rs\<close>): deciding whether the live credential
  belongs to a profile, preparing a switch and asking for consent, authorising it across an
  external action, the conditional activation with its marker, and the switch of the daemon,
  which holds only while the active profile is the expected one.

  A function that receives a lease is given its alias; the callers acquire the lease. The typed
  error PartialActivationError carries the published bytes instead of their digest.
\<close>

section \<open>Activation\<close>

definition partial_profile_activation_error :: "string \<Rightarrow> string \<Rightarrow> anyhow \<Rightarrow> failure" where
  "partial_profile_activation_error name published source =
     \<lparr>fl_kind = PartialActivationError name published,
      fl_chain = (''profile '' @ quoted name
        @ '' was published to live auth, but activation did not fully complete; live credentials were not rolled back: ''
        @ show_chain source) # source\<rparr>"

definition activation_is_already_exact ::
  "codec \<Rightarrow> string \<Rightarrow> json \<Rightarrow> string option \<Rightarrow> bool action" where
  "activation_is_already_exact cd name value expected_live =
     (case expected_live of
        None \<Rightarrow> give False
      | Some expected \<Rightarrow>
          also_then (snapshot_optional_file LiveAuth) (\<lambda>c.
            if c \<noteq> Some expected then give False
            else (case cd_parse cd expected of
                    Inl _ \<Rightarrow> give False
                  | Inr live_value \<Rightarrow>
                      if live_value \<noteq> value then give False
                      else also_then (tried (read_current_checked cd)) (\<lambda>r.
                             give (ok_opt r = Some (Some name))))))"

definition commit_activation_if_live_unchanged ::
  "codec \<Rightarrow> string \<Rightarrow> json \<Rightarrow> string option \<Rightarrow> unit action" where
  "commit_activation_if_live_unchanged cd name value expected_live =
     also_then (lift (validate_alias name)) (\<lambda>_.
     also_then (validate_managed cd value) (\<lambda>_.
     also_then codex_auth_path (\<lambda>_.
     let published_live = cd_print cd value in
     also_then (activation_is_already_exact cd name value expected_live) (\<lambda>exact.
       if exact then give ()
       else
       also_then (tried (publish_live expected_live published_live)) (\<lambda>publication.
         case publication of
           Inr Written \<Rightarrow>
             also_then (tried (write_current name)) (\<lambda>r.
               case r of
                 Inr _ \<Rightarrow> give ()
               | Inl f \<Rightarrow> refuse (partial_profile_activation_error name published_live
                             (''updating the activation marker failed'' # fl_chain f)))
         | Inr Changed \<Rightarrow> refuse_text (''live auth changed before profile '' @ quoted name
                             @ '' could be published'')
         | Inr (WrittenRecoveryRequired detail) \<Rightarrow>
             refuse (partial_profile_activation_error name published_live
               [''durable publication recovery is incomplete and the activation marker was not changed: ''
                  @ detail])
         | Inr (NotWrittenRecoveryRequired detail) \<Rightarrow>
             refuse_text (''profile '' @ quoted name
               @ '' was not activated and the previous/foreign live credential was restored: '' @ detail)
         | Inr (UnclearRecoveryRequired detail) \<Rightarrow>
             refuse_text (''profile '' @ quoted name
               @ '' activation reached an ambiguous filesystem state: '' @ detail)
         | Inl f \<Rightarrow>
             refuse (f\<lparr>fl_chain := (''publishing live auth for profile '' @ quoted name @ '' failed'')
                                # fl_chain f\<rparr>))))))"

definition commit_fresh_credentials_activation ::
  "codec \<Rightarrow> string \<Rightarrow> json \<Rightarrow> string option \<Rightarrow> unit action" where
  "commit_fresh_credentials_activation cd name value expected_live =
     in_context (''new credentials are preserved in profile '' @ quoted name
         @ '', but exact live-auth activation is incomplete'')
       (commit_activation_if_live_unchanged cd name value expected_live)"

section \<open>Whose the live credential is\<close>

definition find_matching_profiles_for_bytes :: "string \<Rightarrow> string list action" where
  "find_matching_profiles_for_bytes target =
     also_then registry_snapshot (\<lambda>profiles. give (exact_matches profiles target))"

definition find_equivalent_profiles_for_bytes :: "codec \<Rightarrow> string \<Rightarrow> string list action" where
  "find_equivalent_profiles_for_bytes cd bytes =
     also_then (lift (with_context ''parsing live authentication before matching saved profiles''
                        (cd_parse cd bytes))) (\<lambda>target.
     also_then registry_snapshot (\<lambda>profiles.
     also_then (lift (parse_registry cd profiles)) (\<lambda>parsed.
       give (equivalent_matches parsed target))))"

definition find_matching_profile_checked :: "codec \<Rightarrow> path \<Rightarrow> string option action" where
  "find_matching_profile_checked cd p =
     also_then (snapshot_optional_file p) (\<lambda>target.
     also_then (case target of
                  None \<Rightarrow> give []
                | Some bytes \<Rightarrow> find_matching_profiles_for_bytes bytes) (\<lambda>matches.
     also_then (if 1 < length matches then read_current_checked cd else give None) (\<lambda>current.
       lift (select_exact_profile_binding matches current))))"

text \<open>Two known and different values of an identity's component.\<close>

definition conflicting :: "'a option \<Rightarrow> 'a option \<Rightarrow> bool" where
  "conflicting x y = (case (x, y) of (Some a, Some b) \<Rightarrow> a \<noteq> b | _ \<Rightarrow> False)"

definition live_snapshot_belongs_to_auth_value ::
  "codec \<Rightarrow> string \<Rightarrow> json \<Rightarrow> string \<Rightarrow> bool action" where
  "live_snapshot_belongs_to_auth_value cd name profile live_snapshot =
     also_then (lift (with_context ''parsing the exact live-auth snapshot used for ownership validation''
                        (cd_parse cd live_snapshot))) (\<lambda>live.
     also_then (read_current_checked cd) (\<lambda>current.
       if current = Some name \<and> profile = live then give True
       else
       also_then (find_matching_profiles_for_bytes live_snapshot) (\<lambda>exact.
       also_then (lift (select_exact_profile_binding exact current)) (\<lambda>binding.
         case binding of
           Some bound \<Rightarrow> give (bound = name)
         | None \<Rightarrow>
             if current \<noteq> Some name then give False
             else
             let profile_identity = extract_identity cd profile;
                 live_identity = extract_identity cd live
             in if conflicting (id_email profile_identity) (id_email live_identity) then give False
                else if conflicting (id_account profile_identity) (id_account live_identity)
                then give False
                else if complete_identity profile_identity \<and> complete_identity live_identity
                then give (id_account profile_identity = id_account live_identity
                           \<and> id_email profile_identity = id_email live_identity)
                else refuse_text (''cannot safely determine whether live auth belongs to profile ''
                       @ quoted name)))))"

definition live_belongs_to_profile :: "codec \<Rightarrow> string \<Rightarrow> bool action" where
  "live_belongs_to_profile cd name =
     also_then (profile_path name) (\<lambda>p.
     also_then (read_existing_auth cd p) (\<lambda>existing.
       case existing of
         None \<Rightarrow> give False
       | Some profile \<Rightarrow>
           also_then codex_auth_path (\<lambda>_.
           also_then (snapshot_optional_file LiveAuth) (\<lambda>live.
             case live of
               None \<Rightarrow> give False
             | Some live_snapshot \<Rightarrow>
                 live_snapshot_belongs_to_auth_value cd name profile live_snapshot))))"

definition live_snapshot_belongs_to_profile :: "codec \<Rightarrow> string \<Rightarrow> string \<Rightarrow> bool action" where
  "live_snapshot_belongs_to_profile cd name live_snapshot =
     also_then (profile_path name) (\<lambda>p.
     also_then (read_existing_auth cd p) (\<lambda>existing.
       case existing of
         None \<Rightarrow> give False
       | Some profile \<Rightarrow> live_snapshot_belongs_to_auth_value cd name profile live_snapshot))"

definition repair_stale_current_marker :: "codec \<Rightarrow> string \<Rightarrow> unit action" where
  "repair_stale_current_marker cd stale =
     also_then (read_current_checked cd) (\<lambda>current.
       if current \<noteq> Some stale then give ()
       else
       also_then codex_auth_path (\<lambda>_.
       also_then (find_matching_profile_checked cd LiveAuth) (\<lambda>actual.
         case actual of Some name \<Rightarrow> write_current name | None \<Rightarrow> clear_current)))"

section \<open>Preparing and confirming a switch\<close>

record prepared_switch =
  pp_alias :: string
  pp_target :: string
  pp_live :: "string option"
  pp_requires_confirmation :: bool

datatype confirmed_switch = Confirmed prepared_switch

definition needs_live_sync :: "prepared_switch \<Rightarrow> bool" where
  "needs_live_sync p \<longleftrightarrow> pp_live p \<noteq> None \<and> pp_requires_confirmation p"

text \<open>The common case, decided without reading every saved profile.\<close>

definition live_exactly_matches_current_profile ::
  "codec \<Rightarrow> string \<Rightarrow> string \<Rightarrow> string \<Rightarrow> bool action" where
  "live_exactly_matches_current_profile cd target_alias target_snapshot live_snapshot =
     also_then (tried (read_current_checked cd)) (\<lambda>current.
       case ok_opt current of
         Some (Some current_alias) \<Rightarrow>
           also_then
             (if current_alias = target_alias then give (target_snapshot = live_snapshot)
              else also_then (tried (also_then (profile_path current_alias) snapshot_optional_file))
                     (\<lambda>profile. give (ok_opt profile = Some (Some live_snapshot))))
             (\<lambda>matches.
                if matches
                then also_then (lift (with_context
                       ''parsing live authentication before matching saved profiles''
                       (cd_parse cd live_snapshot))) (\<lambda>_. give True)
                else give False)
       | _ \<Rightarrow> give False)"

definition not_found :: "string \<Rightarrow> failure" where
  "not_found name =
     \<lparr>fl_kind = NotFoundError name, fl_chain = [''profile '' @ quoted name @ '' not found'']\<rparr>"

definition prepare_profile_switch_with_lease :: "codec \<Rightarrow> string \<Rightarrow> prepared_switch action" where
  "prepare_profile_switch_with_lease cd name =
     also_then (profile_path name) (\<lambda>src.
     also_then codex_auth_path (\<lambda>_.
     with_transaction (
       also_then (snapshot_optional_file src) (\<lambda>target.
       case target of
         None \<Rightarrow> refuse (not_found name)
       | Some target_snapshot \<Rightarrow>
           also_then (lift (with_context (''parsing saved profile '' @ quoted name)
                              (cd_parse cd target_snapshot))) (\<lambda>value.
           also_then (validate_managed cd value) (\<lambda>_.
           also_then (snapshot_optional_file LiveAuth) (\<lambda>live_snapshot.
           also_then
             (case live_snapshot of
                None \<Rightarrow> give False
              | Some contents \<Rightarrow>
                  also_then (live_exactly_matches_current_profile cd name target_snapshot contents)
                    (\<lambda>exact. if exact then give False
                             else also_then (find_equivalent_profiles_for_bytes cd contents)
                                    (\<lambda>matches. give (matches = []))))
             (\<lambda>requires_confirmation.
                give \<lparr>pp_alias = name, pp_target = target_snapshot, pp_live = live_snapshot,
                      pp_requires_confirmation = requires_confirmation\<rparr>))))))))"

definition prepare_profile_switch :: "codec \<Rightarrow> string \<Rightarrow> prepared_switch action" where
  "prepare_profile_switch cd name =
     also_then (lift (validate_alias name)) (\<lambda>_.
       with_lease name (prepare_profile_switch_with_lease cd name))"

text \<open>The answer of the user is the line that was typed.\<close>

definition prompt_untracked_live_overwrite :: "string result \<Rightarrow> bool action" where
  "prompt_untracked_live_overwrite input s =
     (case input of
        Inl e \<Rightarrow> (Inl (plain e), s)
      | Inr line \<Rightarrow>
          let answer = to_lowercase (trim line) \<in> {''y'', ''yes''}
          in (Inr answer, record_event (Asked answer) s))"

definition confirm_prepared_profile_switch_with ::
  "prepared_switch \<Rightarrow> bool \<Rightarrow> bool action \<Rightarrow> confirmed_switch action" where
  "confirm_prepared_profile_switch_with prepared allow_prompt confirm_overwrite =
     (if pp_requires_confirmation prepared then
        (if \<not> allow_prompt then refuse_text ''current auth.json is not tracked''
         else also_then confirm_overwrite (\<lambda>answer.
                if answer then give (Confirmed prepared)
                else refuse \<lparr>fl_kind = AbortedError, fl_chain = [''operation aborted by user'']\<rparr>))
      else give (Confirmed prepared))"

definition prepare_and_confirm_profile_switch ::
  "codec \<Rightarrow> string result \<Rightarrow> string \<Rightarrow> bool \<Rightarrow> confirmed_switch action" where
  "prepare_and_confirm_profile_switch cd input name allow_prompt =
     also_then (prepare_profile_switch cd name) (\<lambda>prepared.
       confirm_prepared_profile_switch_with prepared allow_prompt
         (prompt_untracked_live_overwrite input))"

definition confirm_prepared_profile_switch_without_overwrite ::
  "prepared_switch \<Rightarrow> confirmed_switch action" where
  "confirm_prepared_profile_switch_without_overwrite prepared =
     (if pp_requires_confirmation prepared then refuse_text ''current auth.json is not tracked''
      else give (Confirmed prepared))"

section \<open>Committing a switch\<close>

text \<open>
  The outcome of a switch: the warning of a selection history that could not be recorded. The
  history is written after the transaction is released.
\<close>

definition record_switch_outcome :: "anyhow option action" where
  "record_switch_outcome =
     also_then (tried cache_call) (\<lambda>r.
       give (case r of Inl f \<Rightarrow> Some (fl_chain f) | Inr _ \<Rightarrow> None))"

text \<open>The target as it was confirmed, and the live credential that may be replaced.\<close>

definition revalidate_confirmed_profile_switch ::
  "codec \<Rightarrow> confirmed_switch \<Rightarrow> string \<Rightarrow> (json \<times> string option) action" where
  "revalidate_confirmed_profile_switch cd confirmed lease_alias =
     (case confirmed of Confirmed p \<Rightarrow>
        if lease_alias \<noteq> pp_alias p
        then refuse_text (''profile switch confirmation belongs to '' @ quoted (pp_alias p)
               @ '', not the leased profile '' @ quoted lease_alias)
        else
        also_then (profile_path lease_alias) (\<lambda>src.
        also_then (snapshot_optional_file src) (\<lambda>current.
          if current \<noteq> Some (pp_target p)
          then refuse_text (''profile '' @ quoted (pp_alias p)
                 @ '' changed after the switch was prepared; nothing was overwritten'')
          else
          also_then (lift (with_context (''parsing saved profile '' @ quoted (pp_alias p))
                             (cd_parse cd (pp_target p)))) (\<lambda>value.
          also_then (validate_managed cd value) (\<lambda>_. give (value, pp_live p))))))"

definition commit_confirmed_profile_switch_with_lease ::
  "codec \<Rightarrow> confirmed_switch \<Rightarrow> string \<Rightarrow> anyhow option action" where
  "commit_confirmed_profile_switch_with_lease cd confirmed lease_alias =
     also_then
       (with_transaction (
          also_then (revalidate_confirmed_profile_switch cd confirmed lease_alias)
            (\<lambda>(target, live_snapshot).
               commit_activation_if_live_unchanged cd lease_alias target live_snapshot)))
       (\<lambda>_. record_switch_outcome)"

definition confirmed_alias :: "confirmed_switch \<Rightarrow> string" where
  "confirmed_alias c = (case c of Confirmed p \<Rightarrow> pp_alias p)"

definition commit_confirmed_profile_switch :: "codec \<Rightarrow> confirmed_switch \<Rightarrow> anyhow option action" where
  "commit_confirmed_profile_switch cd confirmed =
     with_lease (confirmed_alias confirmed)
       (commit_confirmed_profile_switch_with_lease cd confirmed (confirmed_alias confirmed))"

definition switch_profile_with_prompt ::
  "codec \<Rightarrow> string result \<Rightarrow> string \<Rightarrow> bool \<Rightarrow> anyhow option action" where
  "switch_profile_with_prompt cd input name allow_prompt =
     also_then (prepare_and_confirm_profile_switch cd input name allow_prompt)
       (commit_confirmed_profile_switch cd)"

definition switch_profile :: "codec \<Rightarrow> string \<Rightarrow> anyhow option action" where
  "switch_profile cd name =
     also_then (prepare_profile_switch cd name) (\<lambda>prepared.
     also_then (confirm_prepared_profile_switch_without_overwrite prepared)
       (commit_confirmed_profile_switch cd))"

section \<open>Authorisation across an external action\<close>

record authorized_switch =
  az_alias :: string
  az_live :: "string option"
  az_identity :: account_identity

definition authorize_confirmed_profile_switch_before_side_effect ::
  "codec \<Rightarrow> confirmed_switch \<Rightarrow> string \<Rightarrow> authorized_switch action" where
  "authorize_confirmed_profile_switch_before_side_effect cd confirmed lease_alias =
     with_transaction (
       also_then (revalidate_confirmed_profile_switch cd confirmed lease_alias)
         (\<lambda>(target, live_snapshot).
       also_then codex_auth_path (\<lambda>_.
       also_then (snapshot_optional_file LiveAuth) (\<lambda>current_live.
         if current_live \<noteq> live_snapshot
         then refuse_text (''live auth changed after the switch was confirmed for profile ''
                @ quoted lease_alias)
         else
         let target_identity = extract_identity cd target in
         also_then (lift (require_complete_account_identity lease_alias target_identity)) (\<lambda>_.
           give \<lparr>az_alias = lease_alias, az_live = live_snapshot, az_identity = target_identity\<rparr>)))))"

definition validate_authorized_profile_switch ::
  "codec \<Rightarrow> authorized_switch \<Rightarrow> (json \<times> string option) action" where
  "validate_authorized_profile_switch cd a =
     also_then (profile_path (az_alias a)) (\<lambda>src.
     also_then (read_existing_auth cd src) (\<lambda>existing.
       case existing of
         None \<Rightarrow> refuse (not_found (az_alias a))
       | Some target \<Rightarrow>
           also_then (validate_managed cd target) (\<lambda>_.
             if \<not> exact_identity_matches (az_identity a) (extract_identity cd target)
             then refuse_text (''profile '' @ quoted (az_alias a)
                    @ '' changed account identity after the switch was authorized'')
             else
             also_then codex_auth_path (\<lambda>_.
             also_then (snapshot_optional_file LiveAuth) (\<lambda>current_live.
             if current_live = az_live a then give (target, current_live)
             else (case current_live of
                     None \<Rightarrow> refuse_text ''live auth changed after the switch was authorized''
                   | Some bytes \<Rightarrow>
                       also_then (lift (with_context
                          ''parsing live auth changed after the profile switch was authorized''
                          (cd_parse cd bytes))) (\<lambda>live.
                       also_then (validate_managed cd live) (\<lambda>_.
                       also_then (read_current_checked cd) (\<lambda>current.
                         let still_selected = (current = Some (az_alias a));
                             same_generation = (live = target);
                             same_identity =
                               exact_identity_matches (az_identity a) (extract_identity cd live)
                         in if \<not> still_selected \<or> \<not> same_generation \<or> \<not> same_identity
                            then refuse_text (''live auth changed after the switch was authorized ''
                              @ ''and no longer exactly matches profile '' @ quoted (az_alias a))
                            else give (target, current_live))))))))))"

definition revalidate_authorized_profile_switch :: "codec \<Rightarrow> authorized_switch \<Rightarrow> unit action" where
  "revalidate_authorized_profile_switch cd a =
     with_transaction (also_then (validate_authorized_profile_switch cd a) (\<lambda>_. give ()))"

definition commit_authorized_profile_switch ::
  "codec \<Rightarrow> authorized_switch \<Rightarrow> anyhow option action" where
  "commit_authorized_profile_switch cd a =
     also_then
       (with_transaction (
          also_then (validate_authorized_profile_switch cd a)
            (\<lambda>(target, live_snapshot).
               commit_activation_if_live_unchanged cd (az_alias a) target live_snapshot)))
       (\<lambda>_. record_switch_outcome)"

section \<open>The switch of the daemon\<close>

text \<open>The part under the transaction; the answer says whether the target is now active.\<close>

definition switch_if_current_locked :: "codec \<Rightarrow> string \<Rightarrow> string \<Rightarrow> bool action" where
  "switch_if_current_locked cd expected_alias target_alias =
     also_then (read_current_checked cd) (\<lambda>current.
     if current \<noteq> Some expected_alias then give False
     else
     also_then codex_auth_path (\<lambda>_.
     also_then (snapshot_optional_file LiveAuth) (\<lambda>live.
     case live of
       None \<Rightarrow> give False
     | Some live_snapshot \<Rightarrow>
         also_then (live_snapshot_belongs_to_profile cd expected_alias live_snapshot) (\<lambda>belongs.
         if \<not> belongs then give False
         else if expected_alias = target_alias then give True
         else
         also_then (profile_path target_alias) (\<lambda>target_path.
         also_then (read_existing_auth cd target_path) (\<lambda>existing.
         case existing of
           None \<Rightarrow> refuse (not_found target_alias)
         | Some target \<Rightarrow>
             also_then (validate_managed cd target) (\<lambda>_.
             also_then (commit_activation_if_live_unchanged cd target_alias target
                          (Some live_snapshot)) (\<lambda>_.
               give True))))))))"

definition switch_profile_if_current ::
  "codec \<Rightarrow> string \<Rightarrow> string \<Rightarrow> anyhow option option action" where
  "switch_profile_if_current cd expected_alias target_alias =
     also_then (lift (validate_alias expected_alias)) (\<lambda>_.
     also_then (lift (validate_alias target_alias)) (\<lambda>_.
     with_leases [expected_alias, target_alias] (
       also_then (with_transaction (switch_if_current_locked cd expected_alias target_alias))
         (\<lambda>switched.
            if switched then also_then record_switch_outcome (\<lambda>warning. give (Some warning))
            else give None))))"

text \<open>
  Whether a partial activation is still what the live file holds. The digest of the published
  bytes is represented by the bytes.
\<close>

definition partial_activation_is_currently_bound_checked ::
  "codec \<Rightarrow> string \<Rightarrow> string \<Rightarrow> bool action" where
  "partial_activation_is_currently_bound_checked cd name published =
     with_lease name (with_transaction (
       also_then (profile_path name) (\<lambda>p.
       also_then (read_existing_auth cd p) (\<lambda>existing.
       case existing of
         None \<Rightarrow> give False
       | Some profile \<Rightarrow>
           also_then codex_auth_path (\<lambda>_.
           also_then (snapshot_optional_file LiveAuth) (\<lambda>live.
             case live of
               None \<Rightarrow> give False
             | Some bytes \<Rightarrow>
                 if bytes \<noteq> published then give False
                 else give (cd_print cd profile = published)))))))"

section \<open>What was seen stays true\<close>

lemma truthful_activation [truthful_intros]:
  "truthful (activation_is_already_exact cd name v expected)"
  "truthful (find_matching_profiles_for_bytes b)" "truthful (find_equivalent_profiles_for_bytes cd b)"
  "truthful (find_matching_profile_checked cd p)"
  unfolding activation_is_already_exact_def find_matching_profiles_for_bytes_def
    find_equivalent_profiles_for_bytes_def find_matching_profile_checked_def
  by (intro truthful_intros)+

lemma truthful_conditional_write [truthful_intros]:
  assumes "truthful m1" "truthful m2" "\<And>d. truthful (m3 d)" "\<And>d. truthful (m4 d)" "\<And>d. truthful (m5 d)"
  shows "truthful (case w of Written \<Rightarrow> m1 | Changed \<Rightarrow> m2 | WrittenRecoveryRequired d \<Rightarrow> m3 d
     | NotWrittenRecoveryRequired d \<Rightarrow> m4 d | UnclearRecoveryRequired d \<Rightarrow> m5 d)"
  using assms by (cases w) auto

lemma truthful_commit [truthful_intros]:
  "truthful (commit_activation_if_live_unchanged cd name v expected)"
  unfolding commit_activation_if_live_unchanged_def Let_def by (intro truthful_intros)

lemma truthful_fresh [truthful_intros]:
  "truthful (commit_fresh_credentials_activation cd name v expected)"
  unfolding commit_fresh_credentials_activation_def by (intro truthful_intros)

lemma truthful_belongs [truthful_intros]:
  "truthful (live_snapshot_belongs_to_auth_value cd name v live)"
  unfolding live_snapshot_belongs_to_auth_value_def Let_def by (intro truthful_intros)

lemma truthful_ownership [truthful_intros]:
  "truthful (live_belongs_to_profile cd name)" "truthful (live_snapshot_belongs_to_profile cd name live)"
  "truthful (repair_stale_current_marker cd name)"
  unfolding live_belongs_to_profile_def live_snapshot_belongs_to_profile_def
    repair_stale_current_marker_def
  by (intro truthful_intros)+

lemma truthful_exactly [truthful_intros]: "truthful (live_exactly_matches_current_profile cd name b live)"
  unfolding live_exactly_matches_current_profile_def by (intro truthful_intros)

lemma truthful_prepare [truthful_intros]: "truthful (prepare_profile_switch cd name)"
  unfolding prepare_profile_switch_def prepare_profile_switch_with_lease_def by (intro truthful_intros)

lemma truthful_prompt [truthful_intros]: "truthful (prompt_untracked_live_overwrite input)"
  unfolding prompt_untracked_live_overwrite_def truthful_def Let_def
  by (auto split: sum.splits intro: over_event)

lemma truthful_confirm [truthful_intros]:
  "truthful (prepare_and_confirm_profile_switch cd input name allow)"
  "truthful (confirm_prepared_profile_switch_without_overwrite p)"
  unfolding prepare_and_confirm_profile_switch_def confirm_prepared_profile_switch_with_def
    confirm_prepared_profile_switch_without_overwrite_def
  by (intro truthful_intros)+

lemma truthful_revalidate [truthful_intros]: "truthful (revalidate_confirmed_profile_switch cd c name)"
  unfolding revalidate_confirmed_profile_switch_def
  by (cases c; hypsubst; unfold confirmed_switch.case; intro truthful_intros)

lemma truthful_record [truthful_intros]: "truthful record_switch_outcome"
  unfolding record_switch_outcome_def by (intro truthful_intros)

lemma truthful_commit_confirmed [truthful_intros]: "truthful (commit_confirmed_profile_switch cd c)"
  unfolding commit_confirmed_profile_switch_def commit_confirmed_profile_switch_with_lease_def
  by (intro truthful_intros)

lemma truthful_switch [truthful_intros]:
  "truthful (switch_profile_with_prompt cd input name allow)" "truthful (switch_profile cd name)"
  unfolding switch_profile_with_prompt_def switch_profile_def by (intro truthful_intros)+

lemma truthful_validate_authorized [truthful_intros]: "truthful (validate_authorized_profile_switch cd a)"
  unfolding validate_authorized_profile_switch_def Let_def by (intro truthful_intros)

lemma truthful_authorized [truthful_intros]:
  "truthful (authorize_confirmed_profile_switch_before_side_effect cd c name)"
  "truthful (revalidate_authorized_profile_switch cd a)" "truthful (commit_authorized_profile_switch cd a)"
  unfolding authorize_confirmed_profile_switch_before_side_effect_def Let_def
    revalidate_authorized_profile_switch_def commit_authorized_profile_switch_def
  by (intro truthful_intros)+

lemma truthful_if_current [truthful_intros]: "truthful (switch_profile_if_current cd a b)"
  unfolding switch_profile_if_current_def switch_if_current_locked_def by (intro truthful_intros)

end
