(* ===== verification/Profile_History.thy ===== *)
theory Profile_History
  imports Profile_Store
begin

text \<open>
  What a trace of profile operations must justify. An event that replaces the live credential, the
  marker or a saved credential needs evidence in the trace before it: the predicates of this
  theory say which, and consistent_history is the invariant that every operation keeps.
\<close>

section \<open>Evidence\<close>

definition saved_value :: "codec \<Rightarrow> string \<Rightarrow> json \<Rightarrow> event list \<Rightarrow> bool" where
  "saved_value cd name v t \<longleftrightarrow>
     (\<exists>b. Saw (ProfileAuth name) (Some b) \<in> set t \<and> cd_parse cd b = Inr v)"

text \<open>A profile had this value: it was read from its file or written to it, under this or an
  earlier name.\<close>

definition called :: "string \<Rightarrow> string \<Rightarrow> event list \<Rightarrow> bool" where
  "called old new t \<longleftrightarrow> old = new \<or> MovedProfile old new \<in> set t"

definition holds :: "codec \<Rightarrow> string \<Rightarrow> json \<Rightarrow> event list \<Rightarrow> bool" where
  "holds cd name v t \<longleftrightarrow>
     (\<exists>m. called m name t
        \<and> (saved_value cd m v t \<or> (\<exists>old. WroteProfile m old (cd_print cd v) \<in> set t)))"

definition same_account :: "codec \<Rightarrow> json \<Rightarrow> json \<Rightarrow> bool" where
  "same_account cd v w \<longleftrightarrow>
     complete_identity (extract_identity cd v) \<and> extract_identity cd w = extract_identity cd v"

text \<open>
  The live value is that of a saved profile; or it is another credential of the account of the
  profile that the marker named.
\<close>

definition saved_copy :: "codec \<Rightarrow> string \<Rightarrow> event list \<Rightarrow> bool" where
  "saved_copy cd b t \<longleftrightarrow>
     (\<exists>name v. holds cd name v t \<and> cd_parse cd b = Inr v)"

definition of_saved_account :: "codec \<Rightarrow> string \<Rightarrow> event list \<Rightarrow> bool" where
  "of_saved_account cd b t \<longleftrightarrow>
     (\<exists>name w v. saw_value cd (ProfileAuth name) w t \<and> saw_marker cd (Some name) t
        \<and> cd_parse cd b = Inr v \<and> same_account cd w v)"

text \<open>
  A live credential may be replaced: there is none, or it is kept in a saved profile, or it
  belongs to the account of the current one, or the user agreed, or has just logged in.
\<close>

definition replaceable :: "codec \<Rightarrow> string option \<Rightarrow> event list \<Rightarrow> bool" where
  "replaceable cd old t \<longleftrightarrow>
     (case old of
        None \<Rightarrow> True
      | Some b \<Rightarrow> Asked True \<in> set t \<or> LoggedIn \<in> set t \<or> saved_copy cd b t \<or> of_saved_account cd b t)"

text \<open>The new live bytes are the printed credential of a saved profile.\<close>

definition backed :: "codec \<Rightarrow> string \<Rightarrow> event list \<Rightarrow> bool" where
  "backed cd new t \<longleftrightarrow> (\<exists>name v. new = cd_print cd v \<and> holds cd name v t)"

text \<open>The profile has the live bytes, or the live value, or belongs to the same account.\<close>

definition tracks :: "codec \<Rightarrow> string \<Rightarrow> string \<Rightarrow> event list \<Rightarrow> bool" where
  "tracks cd name l t \<longleftrightarrow>
     (\<exists>m. called m name t \<and> Saw (ProfileAuth m) (Some l) \<in> set t)
     \<or> (\<exists>v w. cd_parse cd l = Inr v \<and> holds cd name w t \<and> (w = v \<or> same_account cd w v))"

text \<open>The marker is put back as it was, or names a profile that the live credential belongs to.\<close>

definition marker_ok :: "codec \<Rightarrow> string \<Rightarrow> event list \<Rightarrow> bool" where
  "marker_ok cd b t \<longleftrightarrow>
     Saw MarkerFile (Some b) \<in> set t
     \<or> (\<exists>l. Saw LiveAuth (Some l) \<in> set t \<and> tracks cd b l t)
     \<or> (\<exists>old v. PublishedLive old (cd_print cd v) \<in> set t \<and> holds cd b v t)"

text \<open>
  A saved credential is created where none was seen under the transaction, or replaced by one of
  the same account, or replaced after an exact copy of it was archived.
\<close>

definition profile_ok :: "codec \<Rightarrow> string \<Rightarrow> string \<Rightarrow> event list \<Rightarrow> bool" where
  "profile_ok cd name new t \<longleftrightarrow>
     (\<exists>c\<in>set (seen_since name t).
        case c of
          None \<Rightarrow> True
        | Some b \<Rightarrow>
            (\<exists>v w. cd_parse cd b = Inr v \<and> new = cd_print cd w \<and> same_account cd v w)
            \<or> ArchivedCopy name b \<in> set t)"

text \<open>A profile may be archived: the live credential was seen not to be its own, as below.\<close>

definition disowned :: "codec \<Rightarrow> string \<Rightarrow> json \<Rightarrow> string \<Rightarrow> event list \<Rightarrow> bool" where
  "disowned cd name profile live t \<longleftrightarrow>
     (\<exists>v m. cd_parse cd live = Inr v \<and> saw_marker cd m t
        \<and> (m = Some name \<longrightarrow> profile \<noteq> v
             \<and> (\<not> same_account cd profile v
                \<or> (\<exists>other. other \<noteq> name \<and> Saw (ProfileAuth other) (Some live) \<in> set t))))"

definition inactive :: "codec \<Rightarrow> string \<Rightarrow> event list \<Rightarrow> bool" where
  "inactive cd name t \<longleftrightarrow>
     Saw (ProfileAuth name) None \<in> set t \<or> Saw LiveAuth None \<in> set t
     \<or> (\<exists>live w. Saw LiveAuth (Some live) \<in> set t \<and> saw_value cd (ProfileAuth name) w t
          \<and> disowned cd name w live t)"

definition event_ok :: "codec \<Rightarrow> event \<Rightarrow> event list \<Rightarrow> bool" where
  "event_ok cd e t \<longleftrightarrow>
     (case e of
        PublishedLive old new \<Rightarrow> replaceable cd old t \<and> backed cd new t
      | MaybePublished old new \<Rightarrow> replaceable cd old t \<and> backed cd new t
      | WroteMarker b \<Rightarrow> marker_ok cd b t
      | WroteProfile name _ new \<Rightarrow> profile_ok cd name new t
      | ArchivedProfile name \<Rightarrow> inactive cd name t
      | _ \<Rightarrow> True)"

abbreviation consistent_history :: "codec \<Rightarrow> event list \<Rightarrow> bool" where
  "consistent_history cd \<equiv> history (event_ok cd)"

section \<open>Evidence lasts\<close>

lemma lasting_member: "lasting (\<lambda>t. e \<in> set t)"
  by (auto simp: lasting_def)

lemma lasting_saved_value: "lasting (saved_value cd name v)"
  by (auto simp: saved_value_def lasting_def)

lemma lasting_called: "lasting (called a b)"
  by (auto simp: called_def lasting_def)

lemma lasting_holds: "lasting (holds cd name v)"
  using lastingD [OF lasting_saved_value] lastingD [OF lasting_called]
  unfolding holds_def lasting_def by (metis list.set_intros(2))

lemma lasting_saved_copy: "lasting (saved_copy cd b)"
  using lastingD [OF lasting_holds] by (fastforce simp: saved_copy_def lasting_def)

lemma lasting_of_saved_account: "lasting (of_saved_account cd b)"
  using lastingD [OF lasting_saw_value] lastingD [OF lasting_saw_marker]
  by (fastforce simp: of_saved_account_def lasting_def)

lemma lasting_replaceable: "lasting (replaceable cd old)"
  using lastingD [OF lasting_saved_copy] lastingD [OF lasting_of_saved_account]
  by (auto simp: replaceable_def lasting_def split: option.splits)

lemma lasting_backed: "lasting (backed cd new)"
  using lastingD [OF lasting_holds] by (fastforce simp: backed_def lasting_def)

lemma lasting_tracks: "lasting (tracks cd name l)"
  using lastingD [OF lasting_holds] lastingD [OF lasting_called]
  unfolding tracks_def lasting_def by (metis list.set_intros(2))

lemma lasting_marker_ok: "lasting (marker_ok cd b)"
  using lastingD [OF lasting_holds] lastingD [OF lasting_tracks]
  unfolding marker_ok_def lasting_def by (metis list.set_intros(2))

lemma lasting_disowned: "lasting (disowned cd name w live)"
  using lastingD [OF lasting_saw_marker] by (fastforce simp: disowned_def lasting_def)

lemma lasting_inactive: "lasting (inactive cd name)"
  using lastingD [OF lasting_disowned] lastingD [OF lasting_saw_value]
  by (fastforce simp: inactive_def lasting_def)

lemmas observed_evidence [observed_intros] =
  lasting_saved_value [THEN lasting_observed] lasting_called [THEN lasting_observed]
  lasting_holds [THEN lasting_observed] lasting_saved_copy [THEN lasting_observed]
  lasting_of_saved_account [THEN lasting_observed] lasting_replaceable [THEN lasting_observed]
  lasting_backed [THEN lasting_observed] lasting_tracks [THEN lasting_observed]
  lasting_marker_ok [THEN lasting_observed] lasting_inactive [THEN lasting_observed]

lemma event_ok_simps [simp]:
  "observation e \<Longrightarrow> event_ok cd e t"
  "event_ok cd ClearedMarker t" "event_ok cd (MovedProfile a c) t"
  "event_ok cd (ArchivedCopy a x) t"
  "event_ok cd (PublishedLive o' n) t \<longleftrightarrow> replaceable cd o' t \<and> backed cd n t"
  "event_ok cd (MaybePublished o' n) t \<longleftrightarrow> replaceable cd o' t \<and> backed cd n t"
  "event_ok cd (WroteMarker b) t \<longleftrightarrow> marker_ok cd b t"
  "event_ok cd (WroteProfile a o' n) t \<longleftrightarrow> profile_ok cd a n t"
  "event_ok cd (ArchivedProfile a) t \<longleftrightarrow> inactive cd a t"
  by (cases e; auto simp: event_ok_def)+

lemma observed_consistent [observed_intros]: "observed (consistent_history cd)"
  by (rule observed_history) simp

lemma frame_consistent: "frame (consistent_history cd) (\<lambda>_. consistent_history cd)"
  by (intro frameI observed_consistent)

text \<open>What one look establishes.\<close>

lemma saw_value_saved: "saw_value cd (ProfileAuth name) v t \<Longrightarrow> saved_value cd name v t"
  by (auto simp: saw_value_def saved_value_def dest: parse_auth_Inr)

lemma saved_holds: "saved_value cd name v t \<Longrightarrow> holds cd name v t"
  by (auto simp: holds_def called_def)

lemma wrote_holds: "WroteProfile name old (cd_print cd v) \<in> set t \<Longrightarrow> holds cd name v t"
  by (auto simp: holds_def called_def)

lemma holds_backed: "holds cd name v t \<Longrightarrow> backed cd (cd_print cd v) t"
  by (auto simp: backed_def)

lemma held_copy: "holds cd name v t \<Longrightarrow> cd_parse cd b = Inr v \<Longrightarrow> saved_copy cd b t"
  by (auto simp: saved_copy_def)

lemma saved_copyI: "saved_value cd name v t \<Longrightarrow> cd_parse cd b = Inr v \<Longrightarrow> saved_copy cd b t"
  by (rule held_copy [OF saved_holds])

lemma seen_copy:
  "Saw (ProfileAuth name) (Some b') \<in> set t \<Longrightarrow> cd_parse cd b' = Inr v \<Longrightarrow> cd_parse cd b = Inr v \<Longrightarrow>
     saved_copy cd b t"
  by (rule saved_copyI) (auto simp: saved_value_def)

lemma same_account_iff:
  "ensure_same_account_identity cd name v w = Inr () \<longleftrightarrow> same_account cd v w"
  by (auto simp: ensure_same_identity_Inr same_account_def)

section \<open>Under the transaction\<close>

text \<open>
  What the trace knows of a profile since the transaction was acquired is what the next write
  replaces. These assertions hold within one transaction only.
\<close>

lemma looked_in_lock: "looked in_lock"
  unfolding looked_def by (intro allI impI) (case_tac e; simp)

definition known :: "codec \<Rightarrow> string \<Rightarrow> json option \<Rightarrow> event list \<Rightarrow> bool" where
  "known cd name v t \<longleftrightarrow>
     (case v of
        None \<Rightarrow> None \<in> set (seen_since name t)
      | Some w \<Rightarrow> (\<exists>b. Some b \<in> set (seen_since name t) \<and> cd_parse cd b = Inr w))"

lemma seen_since_look: "look_event e \<Longrightarrow> set (seen_since name t) \<subseteq> set (seen_since name (e # t))"
  by (cases e) auto

lemma looked_known: "looked (known cd name v)"
  unfolding looked_def known_def using seen_since_look by (fastforce split: option.splits)

lemma frame_looked: "frame A E \<Longrightarrow> looked B \<Longrightarrow> frame (\<lambda>t. A t \<and> B t) E"
  by (auto simp: frame_def looked_def)

lemma frame_locked: "frame A E \<Longrightarrow> frame (\<lambda>t. A t \<and> in_lock t) E"
  by (intro frame_looked looked_in_lock)

lemma frame_known: "frame A E \<Longrightarrow> frame (\<lambda>t. A t \<and> known cd name v t) E"
  by (intro frame_looked looked_known)

lemma traced_section_locked:
  assumes m: "traced (\<lambda>t. A t \<and> in_lock t) m Q E" and A: "observed A"
    and Q: "\<And>x. observed (Q x)" and E: "\<And>e. observed (E e)"
  shows "traced A (\<lambda>s. case m (record_event Locked (s\<lparr>st_locked := True\<rparr>)) of
     (r, s') \<Rightarrow> (r, record_event Unlocked (s'\<lparr>st_locked := False\<rparr>))) Q E"
proof -
  have start: "A (st_trace s') \<and> in_lock (st_trace s')"
    if "A (st_trace s)" "s' = record_event Locked (s\<lparr>st_locked := True\<rparr>)" for s s' :: store
    using that by (simp add: observedD [OF A])
  show ?thesis
    using tracedD [OF m start]
    by (intro tracedI) (fastforce split: prod.splits intro: observedD [OF Q] observedD [OF E])+
qed

lemma traced_transaction:
  assumes f: "frame A E" and m: "traced (\<lambda>t. A t \<and> in_lock t) m Q E"
    and o': "observed A" "\<And>x. observed (Q x)" "\<And>e. observed (E e)"
  shows "traced A (with_transaction m) Q E"
proof -
  have "traced (\<lambda>t. A t \<and> in_lock t) (also_then codex_auth_path (\<lambda>_. also_then recover_publication (\<lambda>_. m))) Q E"
    by (intro traced_then [OF traced_live_path] traced_then [OF traced_recover] m frame_locked f)
  from traced_section_locked [OF this o'] show ?thesis
    unfolding with_transaction_def by (intro traced_then [OF traced_lock [OF f]])
qed

text \<open>A look at a profile, under the transaction.\<close>

lemma traced_at_path:
  assumes "frame A E" "alias_ok name \<Longrightarrow> traced A (f (ProfileAuth name)) Q E"
  shows "traced A (also_then (profile_path name) f) Q E"
  by (rule traced_then [OF traced_profile_path [OF assms(1)]]) (auto intro!: traced_assume assms(2))

lemma traced_know_bytes:
  assumes "frame A E" "\<And>t. A t \<Longrightarrow> in_lock t"
  shows "traced A (snapshot_optional_file (ProfileAuth name))
     (\<lambda>c t. A t \<and> Saw (ProfileAuth name) c \<in> set t \<and> c \<in> set (seen_since name t)) E"
  unfolding snapshot_optional_file_def observe_def
  by (rule traced_access)
    (auto simp: frame_observe [OF assms(1)] frame_error [OF assms(1)] assms(2) split: reply.splits)

lemma looked_seen: "looked (\<lambda>t. c \<in> set (seen_since name t))"
  using seen_since_look by (fastforce simp: looked_def)

lemma frame_seen: "frame A E \<Longrightarrow> frame (\<lambda>t. A t \<and> c \<in> set (seen_since name t)) E"
  by (intro frame_looked looked_seen)

lemma traced_know_exists:
  assumes "frame A E" "\<And>t. A t \<Longrightarrow> in_lock t"
  shows "traced A (path_exists_checked (ProfileAuth name))
     (\<lambda>b t. A t \<and> (\<not> b \<longrightarrow> None \<in> set (seen_since name t))) E"
  unfolding path_exists_checked_def observe_def
  by (rule traced_access)
    (auto simp: frame_observe [OF assms(1)] frame_error [OF assms(1)] assms(2) existence_def
      split: reply.splits)

lemma traced_know_auth:
  assumes "frame A E" "\<And>t. A t \<Longrightarrow> in_lock t"
  shows "traced A (read_auth cd (ProfileAuth name))
     (\<lambda>v t. A t \<and> saved_value cd name v t \<and> known cd name (Some v) t) E"
  unfolding read_auth_def
  by (intro traced_then [OF traced_know_bytes] traced_option traced_refuse traced_lift assms)
    (auto simp: frame_error [OF assms(1)] known_def saved_value_def dest: parse_auth_Inr)

lemma traced_know_existing:
  assumes "frame A E" "\<And>t. A t \<Longrightarrow> in_lock t"
  shows "traced A (read_existing_auth cd (ProfileAuth name))
     (\<lambda>v t. A t \<and> known cd name v t \<and> (\<forall>w. v = Some w \<longrightarrow> saved_value cd name w t)) E"
  unfolding read_existing_auth_def
proof (rule traced_then [OF traced_know_exists [OF assms]], assumption, rule traced_if)
  fix b
  have "traced A (also_then (read_auth cd (ProfileAuth name)) (\<lambda>v. give (Some v)))
     (\<lambda>v t. A t \<and> known cd name v t \<and> (\<forall>w. v = Some w \<longrightarrow> saved_value cd name w t)) E"
    by (intro traced_then [OF traced_know_auth] traced_give assms) auto
  then show "traced (\<lambda>t. A t \<and> (\<not> b \<longrightarrow> None \<in> set (seen_since name t)))
      (also_then (read_auth cd (ProfileAuth name)) (\<lambda>v. give (Some v)))
      (\<lambda>v t. A t \<and> known cd name v t \<and> (\<forall>w. v = Some w \<longrightarrow> saved_value cd name w t)) E"
    by (rule traced_mono) auto
qed (auto simp: known_def intro: traced_give)

text \<open>What is known justifies the write.\<close>

lemma created_ok: "known cd name None t \<Longrightarrow> profile_ok cd name new t"
  unfolding known_def profile_ok_def by (simp, erule rev_bexI, simp)

lemma replaced_ok:
  "known cd name (Some v) t \<Longrightarrow> same_account cd v w \<Longrightarrow> profile_ok cd name (cd_print cd w) t"
  unfolding known_def profile_ok_def by (simp, elim exE conjE, erule rev_bexI, auto)

lemma archived_ok:
  "Some b \<in> set (seen_since name t) \<Longrightarrow> ArchivedCopy name b \<in> set t \<Longrightarrow> profile_ok cd name new t"
  unfolding profile_ok_def by (erule rev_bexI, simp)

section \<open>The whole trace\<close>

text \<open>
  In a consistent and true trace, the overwritten credential of every write to a profile was
  that of the same account, or its exact copy had been archived before, or there was none.
\<close>

lemma overwritten_account:
  assumes "history (event_ok cd) t" "history truth_ok t" and t: "t = pre @ WroteProfile name (Some b) new # post"
  shows "(\<exists>v w. cd_parse cd b = Inr v \<and> new = cd_print cd w \<and> same_account cd v w)
    \<or> ArchivedCopy name b \<in> set post"
proof -
  from assms have ok: "profile_ok cd name new post" "truth_ok (WroteProfile name (Some b) new) post"
    by (auto dest: history_suffix)
  then obtain c where "c \<in> set (seen_since name post)" and
    c: "case c of None \<Rightarrow> True
        | Some b \<Rightarrow> (\<exists>v w. cd_parse cd b = Inr v \<and> new = cd_print cd w \<and> same_account cd v w)
            \<or> ArchivedCopy name b \<in> set post"
    unfolding profile_ok_def by blast
  with ok(2) have "c = Some b" by (auto simp: truth_ok_def list_all_iff)
  with c show ?thesis by auto
qed

end
