(* ===== verification/Profile_Consent.thy ===== *)
theory Profile_Consent
  imports Profile_Switch Profile_History
begin

text \<open>
  What a switch may overwrite, and what its outcome means. Every switch keeps the trace
  consistent: it replaces only live credentials that may be replaced, by the credential of a
  saved profile, and writes the marker only for the profile that it published. After a success the
  credential of the profile is the live one; after an error the live credential was not touched,
  unless the error says so.
\<close>

section \<open>Ownership\<close>

definition owned_by :: "codec \<Rightarrow> string \<Rightarrow> json \<Rightarrow> string \<Rightarrow> event list \<Rightarrow> bool" where
  "owned_by cd name profile live t \<longleftrightarrow>
     (\<exists>v. cd_parse cd live = Inr v
        \<and> (profile = v \<or> Saw (ProfileAuth name) (Some live) \<in> set t
           \<or> (saw_marker cd (Some name) t \<and> same_account cd profile v)))"

lemma saw_profiles_exact:
  "saw_profiles profiles t \<Longrightarrow> name \<in> set (exact_matches profiles b) \<Longrightarrow>
     Saw (ProfileAuth name) (Some b) \<in> set t"
  by (auto simp: in_exact_matches saw_profiles_def)

lemma traced_matching:
  "frame A E \<Longrightarrow>
     traced A (find_matching_profiles_for_bytes b)
       (\<lambda>names t. A t \<and> (\<forall>name\<in>set names. Saw (ProfileAuth name) (Some b) \<in> set t)) E"
  unfolding find_matching_profiles_for_bytes_def
  by (intro traced_steps frame_rules observed_intros) (auto dest: saw_profiles_exact)

lemma observed_all [observed_intros]:
  "observed (\<lambda>t. \<forall>name\<in>set names. Saw (ProfileAuth name) (Some b) \<in> set t)"
  by (auto simp: observed_def)

lemma traced_belongs:
  assumes "frame A E"
  shows "traced A (live_snapshot_belongs_to_auth_value cd name profile live)
           (\<lambda>b t. A t \<and> (b \<longrightarrow> owned_by cd name profile live t)) E"
  unfolding live_snapshot_belongs_to_auth_value_def Let_def
  by (intro traced_steps traced_then [OF traced_matching] frame_rules observed_intros assms)
    (auto simp: owned_by_def same_account_def result_eq_Inr frame_error [OF assms] select_binding_Some)

lemma owned_replaceable:
  assumes "saw_value cd (ProfileAuth name) w t" "owned_by cd name w live t"
  shows "saved_copy cd live t \<or> of_saved_account cd live t"
proof -
  obtain b where b: "Saw (ProfileAuth name) (Some b) \<in> set t" "cd_parse cd b = Inr w"
    using assms(1) by (auto simp: saw_value_def dest: parse_auth_Inr)
  obtain v where v: "cd_parse cd live = Inr v" and
    "w = v \<or> Saw (ProfileAuth name) (Some live) \<in> set t
     \<or> (saw_marker cd (Some name) t \<and> same_account cd w v)"
    using assms(2) by (auto simp: owned_by_def)
  then show ?thesis
    unfolding of_saved_account_def using b assms(1) by (blast intro: seen_copy)
qed

lemma traced_belongs_to_profile:
  assumes "frame A E"
  shows "traced A (live_snapshot_belongs_to_profile cd name live)
           (\<lambda>b t. A t \<and> (b \<longrightarrow> replaceable cd (Some live) t)) E"
  unfolding live_snapshot_belongs_to_profile_def
  by (intro traced_steps traced_post [OF traced_belongs] frame_rules observed_intros assms)
    (auto simp: frame_error [OF assms] saw_existing_def replaceable_def dest: owned_replaceable)

lemma traced_live_belongs:
  assumes "frame A E"
  shows "traced A (live_belongs_to_profile cd name) (\<lambda>b. A) E"
  unfolding live_belongs_to_profile_def
  by (intro traced_steps traced_post [OF traced_belongs] frame_rules observed_intros assms)
    (auto simp: frame_error [OF assms])

lemma traced_marker_quiet:
  assumes "frame A E"
  shows "traced A (tried (read_current_checked cd)) (\<lambda>r. A) E"
proof -
  have "frame A (\<lambda>_. A)" using assms by (simp add: frame_def)
  from traced_post [OF traced_marker [OF this]] show ?thesis
    by (intro traced_tried_weak) auto
qed

lemma traced_look:
  assumes "frame A E"
  shows "traced A (tried (also_then (profile_path name) snapshot_optional_file))
      (\<lambda>r t. A t \<and> (\<forall>c. r = Inr c \<longrightarrow> Saw (ProfileAuth name) c \<in> set t)) E"
proof -
  have f: "frame A (\<lambda>_. A)" using assms by (simp add: frame_def)
  have "traced A (also_then (profile_path name) snapshot_optional_file)
      (\<lambda>c t. A t \<and> Saw (ProfileAuth name) c \<in> set t) (\<lambda>_. A)"
    by (intro traced_then [OF traced_profile_path [OF f]] traced_post [OF traced_see] frame_rules f) auto
  from traced_mono [OF this] show ?thesis by (intro traced_tried) auto
qed

lemma minor_not_found [simp]: "minor (not_found name)"
  by (simp add: not_found_def)

lemma traced_exactly_current:
  assumes "frame A E" "\<And>t. A t \<Longrightarrow> Saw (ProfileAuth name) (Some target) \<in> set t"
  shows "traced A (live_exactly_matches_current_profile cd name target live)
           (\<lambda>b t. A t \<and> (b \<longrightarrow> saved_copy cd live t)) E"
proof -
  let ?seen = "\<lambda>t. \<exists>n. Saw (ProfileAuth n) (Some live) \<in> set t"
  have seen: "observed ?seen" by (intro observed_ex observed_intros)
  have m: "traced A
      (if current = name then give (target = live)
       else also_then (tried (also_then (profile_path current) snapshot_optional_file))
              (\<lambda>profile. give (ok_opt profile = Some (Some live))))
      (\<lambda>b t. A t \<and> (b \<longrightarrow> ?seen t)) E" for current
    by (intro traced_steps traced_then [OF traced_look] frame_rules observed_intros assms(1))
      (auto simp: ok_opt_def split: sum.splits dest: assms(2))
  show ?thesis
    unfolding live_exactly_matches_current_profile_def
    by (intro traced_then [OF traced_marker_quiet] traced_then [OF m] traced_steps frame_rules
        observed_intros seen assms(1))
      (auto simp: result_eq_Inr intro: seen_copy)
qed

lemma traced_equivalent:
  assumes "frame A E"
  shows "traced A (find_equivalent_profiles_for_bytes cd b)
           (\<lambda>names t. A t \<and> (names \<noteq> [] \<longrightarrow> saved_copy cd b t)) E"
proof -
  have "saved_copy cd b t"
    if found: "saw_profiles profiles t" "parse_registry cd profiles = Inr parsed"
      "equivalent_matches parsed v \<noteq> []" "cd_parse cd b = Inr v" for profiles parsed v t
  proof -
    obtain name where "(name, v) \<in> set parsed"
      using found(3) in_equivalent_matches [of _ parsed v] by (metis list.set_intros(1) neq_Nil_conv)
    with found(2) obtain b' where "(name, b') \<in> set profiles" "cd_parse cd b' = Inr v"
      by (auto simp: parse_registry_member)
    with found(1,4) show ?thesis unfolding saw_profiles_def by (blast intro: seen_copy)
  qed
  then show ?thesis
    unfolding find_equivalent_profiles_for_bytes_def
    by (intro traced_steps frame_rules observed_intros assms) (auto simp: result_eq_Inr)
qed

section \<open>Preparation\<close>

definition prepared_ok :: "codec \<Rightarrow> prepared_switch \<Rightarrow> event list \<Rightarrow> bool" where
  "prepared_ok cd p t \<longleftrightarrow> pp_requires_confirmation p \<or> replaceable cd (pp_live p) t"

definition confirmed_ok :: "codec \<Rightarrow> confirmed_switch \<Rightarrow> event list \<Rightarrow> bool" where
  "confirmed_ok cd c t \<longleftrightarrow> (case c of Confirmed p \<Rightarrow> replaceable cd (pp_live p) t)"

lemma observed_prepared_ok [observed_intros]: "observed (prepared_ok cd p)"
  using lastingD [OF lasting_replaceable] by (auto simp: prepared_ok_def observed_def)

lemma observed_confirmed_ok [observed_intros]: "observed (confirmed_ok cd c)"
  using lastingD [OF lasting_replaceable] by (auto simp: confirmed_ok_def observed_def split: confirmed_switch.splits)

lemma traced_prepare:
  assumes "frame A E" "observed A" "\<And>e. observed (E e)"
  shows "traced A (prepare_profile_switch_with_lease cd name)
     (\<lambda>p t. A t \<and> prepared_ok cd p t \<and> pp_alias p = name) E"
proof -
  have m: "traced B (case live of
        None \<Rightarrow> give False
      | Some contents \<Rightarrow>
          also_then (live_exactly_matches_current_profile cd name target contents)
            (\<lambda>exact. if exact then give False
                     else also_then (find_equivalent_profiles_for_bytes cd contents)
                            (\<lambda>matches. give (matches = []))))
      (\<lambda>r t. B t \<and> (r \<or> replaceable cd live t)) E"
    if "frame B E" "\<And>t. B t \<Longrightarrow> Saw (ProfileAuth name) (Some target) \<in> set t" for B live target
    by (intro traced_then [OF traced_exactly_current] traced_then [OF traced_equivalent] traced_steps
        frame_rules observed_intros that(1)) (auto simp: replaceable_def dest: that(2))
  show ?thesis
    unfolding prepare_profile_switch_with_lease_def
    by (intro traced_with_transaction traced_then [OF m] traced_steps frame_rules
        observed_intros assms) (auto simp: prepared_ok_def frame_error [OF assms(1)])
qed

lemma traced_prepare_leased:
  assumes "frame A E" "observed A" "\<And>e. observed (E e)"
  shows "traced A (prepare_profile_switch cd name)
     (\<lambda>p t. A t \<and> prepared_ok cd p t \<and> pp_alias p = name) E"
  unfolding prepare_profile_switch_def
  by (intro traced_steps traced_with_lease traced_post [OF traced_prepare] frame_rules observed_intros assms)
    auto

lemma traced_prompt:
  assumes "frame A E"
  shows "traced A (prompt_untracked_live_overwrite input) (\<lambda>b t. A t \<and> (b \<longrightarrow> Asked True \<in> set t)) E"
  unfolding prompt_untracked_live_overwrite_def Let_def
  by (rule tracedI) (auto simp: frame_error [OF assms] frame_observe [OF assms] split: sum.splits)

lemma traced_confirm:
  assumes "frame A E" "observed A" "\<And>e. observed (E e)"
  shows "traced A (prepare_and_confirm_profile_switch cd input name allow)
     (\<lambda>c t. A t \<and> confirmed_ok cd c t \<and> confirmed_alias c = name) E"
  unfolding prepare_and_confirm_profile_switch_def confirm_prepared_profile_switch_with_def
  by (intro traced_then [OF traced_prepare_leased] traced_then [OF traced_prompt] traced_steps
      frame_rules observed_intros assms)
    (auto simp: frame_error [OF assms(1)] prepared_ok_def confirmed_ok_def replaceable_def
      confirmed_alias_def split: option.splits)

lemma traced_confirm_quiet:
  assumes "frame A E"
  shows "traced (\<lambda>t. A t \<and> prepared_ok cd p t \<and> pp_alias p = name)
           (confirm_prepared_profile_switch_without_overwrite p)
           (\<lambda>c t. A t \<and> confirmed_ok cd c t \<and> confirmed_alias c = name) E"
  unfolding confirm_prepared_profile_switch_without_overwrite_def
  by (intro traced_steps)
    (auto simp: frame_error [OF assms] prepared_ok_def confirmed_ok_def confirmed_alias_def)

section \<open>Commit\<close>

lemma traced_revalidate:
  assumes "frame A E"
  shows "traced (\<lambda>t. A t \<and> confirmed_ok cd c t) (revalidate_confirmed_profile_switch cd c lease)
           (\<lambda>(v, live) t. A t \<and> replaceable cd live t \<and> saved_value cd lease v t) E"
proof (cases c)
  case (Confirmed p)
  show ?thesis
    unfolding revalidate_confirmed_profile_switch_def Confirmed confirmed_switch.case
    by (intro traced_steps frame_rules observed_intros assms)
      (auto simp: frame_error [OF assms] confirmed_ok_def saved_value_def result_eq_Inr)
qed

lemma traced_already_exact:
  assumes "frame A E"
  shows "traced A (activation_is_already_exact cd name v expected) (\<lambda>b. A) E"
  unfolding activation_is_already_exact_def
  by (intro traced_steps traced_then [OF traced_marker_quiet] frame_rules observed_intros assms) auto

definition publishable :: "codec \<Rightarrow> string \<Rightarrow> json \<Rightarrow> string option \<Rightarrow> event list \<Rightarrow> bool" where
  "publishable cd name v old t \<longleftrightarrow> consistent_history cd t \<and> replaceable cd old t \<and> holds cd name v t"

lemma observed_publishable [observed_intros]: "observed (publishable cd name v old)"
  unfolding publishable_def [abs_def] by (intro observed_intros)

lemma publish_consistent:
  assumes "frame A (\<lambda>_. consistent_history cd)" "\<And>t. A t \<Longrightarrow> publishable cd name v expected t"
  shows "traced A (tried (publish_live expected (cd_print cd v)))
     (\<lambda>r t. consistent_history cd t
        \<and> (r = Inr Written \<longrightarrow> holds cd name v t \<and> PublishedLive expected (cd_print cd v) \<in> set t)) E"
proof (rule traced_tried)
  have "traced A (publish_live expected (cd_print cd v))
      (\<lambda>w t. consistent_history cd t
         \<and> (w = Written \<longrightarrow> holds cd name v t \<and> PublishedLive expected (cd_print cd v) \<in> set t))
      (\<lambda>_. consistent_history cd)"
    by (rule traced_publish [OF assms(1)])
      (use assms(2) in \<open>auto simp: publishable_def dest: holds_backed lastingD [OF lasting_holds]\<close>)
  then show "traced A (publish_live expected (cd_print cd v))
      (\<lambda>w t. consistent_history cd t \<and> (Inr w = Inr Written \<longrightarrow>
         holds cd name v t \<and> PublishedLive expected (cd_print cd v) \<in> set t))
      (\<lambda>e t. consistent_history cd t \<and> (Inl e = Inr Written \<longrightarrow>
         holds cd name v t \<and> PublishedLive expected (cd_print cd v) \<in> set t))"
    by (rule traced_mono) auto
qed

lemma consistent_mark:
  assumes "frame A (\<lambda>_. consistent_history cd)" "\<And>t. A t \<Longrightarrow> consistent_history cd t \<and> marker_ok cd name t"
  shows "traced A (write_current name) (\<lambda>_. consistent_history cd) (\<lambda>_. consistent_history cd)"
  by (intro traced_write_current assms(1)) (use assms(2) in auto)

lemma consistent_mark_tried:
  assumes "frame A (\<lambda>_. consistent_history cd)" "\<And>t. A t \<Longrightarrow> consistent_history cd t \<and> marker_ok cd name t"
  shows "traced A (tried (write_current name)) (\<lambda>_. consistent_history cd) E"
  by (rule traced_tried_weak) (rule consistent_mark [OF assms])

lemma published_marker_ok:
  "PublishedLive expected (cd_print cd v) \<in> set t \<Longrightarrow> holds cd name v t \<Longrightarrow> marker_ok cd name t"
  by (auto simp: marker_ok_def)

lemma consistent_commit:
  assumes "frame A (\<lambda>_. consistent_history cd)" "\<And>t. A t \<Longrightarrow> publishable cd name v expected t"
  shows "traced A (commit_activation_if_live_unchanged cd name v expected)
     (\<lambda>_. consistent_history cd) (\<lambda>_. consistent_history cd)"
  unfolding commit_activation_if_live_unchanged_def Let_def
  by (intro traced_steps traced_then [OF traced_already_exact] traced_then [OF publish_consistent]
      traced_then [OF consistent_mark_tried] frame_rules observed_intros assms(1) frame_consistent)
    (auto simp: publishable_def intro: published_marker_ok frame_consistent dest: assms(2))

lemma consistent_record:
  "traced (consistent_history cd) record_switch_outcome (\<lambda>_. consistent_history cd) E"
  unfolding record_switch_outcome_def
  by (rule traced_then [OF traced_tried_weak [where B = "consistent_history cd"]])
    (auto intro: traced_give traced_cache frame_consistent)

lemma consistent_commit_leased:
  "traced (\<lambda>t. consistent_history cd t \<and> confirmed_ok cd c t)
     (commit_confirmed_profile_switch_with_lease cd c lease)
     (\<lambda>_. consistent_history cd) (\<lambda>_. consistent_history cd)"
  unfolding commit_confirmed_profile_switch_with_lease_def
  by (intro traced_then [OF _ consistent_record] traced_with_transaction
      traced_then [OF traced_revalidate] traced_prod consistent_commit
      frame_rules observed_intros frame_consistent)
    (auto simp: publishable_def intro!: frame_rules observed_intros frame_consistent intro: saved_holds)

lemma consistent_commit_confirmed:
  "traced (\<lambda>t. consistent_history cd t \<and> confirmed_ok cd c t) (commit_confirmed_profile_switch cd c)
     (\<lambda>_. consistent_history cd) (\<lambda>_. consistent_history cd)"
  unfolding commit_confirmed_profile_switch_def
  by (intro traced_with_lease consistent_commit_leased frame_rules observed_intros frame_consistent)

lemma consistent_switch_with_prompt:
  "traced (consistent_history cd) (switch_profile_with_prompt cd input name allow)
     (\<lambda>_. consistent_history cd) (\<lambda>_. consistent_history cd)"
  unfolding switch_profile_with_prompt_def
  by (intro traced_then [OF traced_confirm] traced_mono [OF consistent_commit_confirmed]
      frame_consistent observed_intros) auto

lemma consistent_switch_quiet:
  "traced (consistent_history cd) (switch_profile cd name)
     (\<lambda>_. consistent_history cd) (\<lambda>_. consistent_history cd)"
  unfolding switch_profile_def
  by (intro traced_then [OF traced_prepare_leased] traced_then [OF traced_confirm_quiet]
      traced_mono [OF consistent_commit_confirmed] frame_consistent observed_intros) auto

section \<open>Authorised switches and the switch of the daemon\<close>

lemma traced_authorize:
  assumes "frame A E" "observed A" "\<And>e. observed (E e)"
  shows "traced (\<lambda>t. A t \<and> confirmed_ok cd c t)
     (authorize_confirmed_profile_switch_before_side_effect cd c lease)
     (\<lambda>a t. A t \<and> replaceable cd (az_live a) t) E"
  unfolding authorize_confirmed_profile_switch_before_side_effect_def Let_def
  by (intro traced_with_transaction traced_then [OF traced_revalidate] traced_steps
      frame_rules observed_intros assms)
    (auto simp: frame_error [OF assms(1)] intro!: traced_steps frame_rules observed_intros assms)

lemma saw_value_copy:
  "saw_value cd (ProfileAuth name) v t \<Longrightarrow> cd_parse cd b = Inr v \<Longrightarrow> saved_copy cd b t"
  by (auto intro: saved_copyI saw_value_saved)

lemma traced_validate_authorized:
  assumes "frame A E"
  shows "traced (\<lambda>t. A t \<and> replaceable cd (az_live a) t) (validate_authorized_profile_switch cd a)
           (\<lambda>(v, live) t. A t \<and> replaceable cd live t \<and> saved_value cd (az_alias a) v t) E"
  unfolding validate_authorized_profile_switch_def Let_def
  by (intro traced_steps frame_rules observed_intros assms)
    (auto simp: frame_error [OF assms] saw_existing_def replaceable_def result_eq_Inr
      dest: saw_value_saved saw_value_copy)

lemma consistent_commit_authorized:
  "traced (\<lambda>t. consistent_history cd t \<and> replaceable cd (az_live a) t)
     (commit_authorized_profile_switch cd a) (\<lambda>_. consistent_history cd) (\<lambda>_. consistent_history cd)"
  unfolding commit_authorized_profile_switch_def
  by (intro traced_then [OF _ consistent_record] traced_with_transaction
      traced_then [OF traced_validate_authorized] traced_prod consistent_commit
      frame_rules observed_intros frame_consistent)
    (auto simp: publishable_def intro!: frame_rules observed_intros frame_consistent intro: saved_holds)

lemma consistent_if_current_locked:
  assumes "frame A (\<lambda>_. consistent_history cd)" "\<And>t. A t \<Longrightarrow> consistent_history cd t"
  shows "traced A (switch_if_current_locked cd expected target)
     (\<lambda>_. consistent_history cd) (\<lambda>_. consistent_history cd)"
  unfolding switch_if_current_locked_def
  by (intro traced_then [OF traced_belongs_to_profile] traced_then [OF consistent_commit]
      traced_steps frame_rules observed_intros assms(1))
    (auto simp: publishable_def saw_existing_def dest: assms(2) intro: saw_value_saved saved_holds)

lemma consistent_switch_if_current:
  "traced (consistent_history cd) (switch_profile_if_current cd expected target)
     (\<lambda>_. consistent_history cd) (\<lambda>_. consistent_history cd)"
proof -
  have locked: "traced (\<lambda>t. (consistent_history cd t \<and> a) \<and> b)
      (with_transaction (switch_if_current_locked cd expected target))
      (\<lambda>_. consistent_history cd) (\<lambda>_. consistent_history cd)" for a b
    by (intro traced_with_transaction consistent_if_current_locked frame_rules observed_intros
        frame_consistent) auto
  have outcome: "traced (consistent_history cd) (also_then record_switch_outcome (\<lambda>w. give (Some w)))
      (\<lambda>_. consistent_history cd) (\<lambda>_. consistent_history cd)"
    by (intro traced_then [OF consistent_record] traced_give)
  show ?thesis
    unfolding switch_profile_if_current_def
    by (intro traced_with_leases traced_then [OF locked] outcome traced_steps frame_rules
        observed_intros frame_consistent)
qed

section \<open>What the outcome of a switch means\<close>

fun live_event :: "event \<Rightarrow> bool" where
  "live_event (PublishedLive _ _) = True"
| "live_event (MaybePublished _ _) = True"
| "live_event _ = False"

definition live_events :: "event list \<Rightarrow> event list" where
  "live_events t = filter live_event t"

text \<open>
  After an error the live credential was not replaced, unless the error is the one that says so;
  or the outcome of the publication is unclear. \<open>before\<close> are the replacements before the switch.
\<close>

definition switch_error :: "string \<Rightarrow> event list \<Rightarrow> failure \<Rightarrow> event list \<Rightarrow> bool" where
  "switch_error name before f t \<longleftrightarrow>
     (case fl_kind f of
        PartialActivationError n p \<Rightarrow> n = name \<and> (\<exists>old. live_events t = PublishedLive old p # before)
      | _ \<Rightarrow> live_events t = before \<or> (\<exists>old new. live_events t = MaybePublished old new # before))"

text \<open>
  After a success the saved credential is the live one and the marker names the profile: they
  were seen to be so, or the credential was published and the marker written right after it.
\<close>

definition published_then_marked :: "string \<Rightarrow> string \<Rightarrow> event list \<Rightarrow> event list \<Rightarrow> bool" where
  "published_then_marked name new before t \<longleftrightarrow>
     (\<exists>later earlier old. t = later @ WroteMarker name # PublishedLive old new # earlier
        \<and> live_events later = [] \<and> live_events earlier = before)"

definition activated :: "codec \<Rightarrow> string \<Rightarrow> json \<Rightarrow> event list \<Rightarrow> event list \<Rightarrow> bool" where
  "activated cd name v before t \<longleftrightarrow>
     (live_events t = before \<and> saw_marker cd (Some name) t
        \<and> (\<exists>b. Saw LiveAuth (Some b) \<in> set t \<and> cd_parse cd b = Inr v))
     \<or> published_then_marked name (cd_print cd v) before t"

lemma live_events_Cons [simp]:
  "live_events (e # t) = (if live_event e then e # live_events t else live_events t)"
  by (simp add: live_events_def)

lemma live_event_observation [simp]: "observation e \<Longrightarrow> \<not> live_event e"
  by (cases e) auto

lemma observed_live_events [observed_intros]: "observed (\<lambda>t. live_events t = before)"
  by (auto simp: observed_def)

lemma observed_published_then_marked: "observed (published_then_marked name new before)"
  unfolding observed_def published_then_marked_def
proof (intro allI impI, elim exE conjE)
  fix e t later earlier old
  assume "observation e" "t = later @ WroteMarker name # PublishedLive old new # earlier"
    "live_events later = []" "live_events earlier = before"
  then show "\<exists>later earlier old. e # t = later @ WroteMarker name # PublishedLive old new # earlier
      \<and> live_events later = [] \<and> live_events earlier = before"
    by (intro exI [of _ "e # later"] exI [of _ earlier] exI [of _ old]) simp
qed

lemma observed_activated [observed_intros]: "observed (activated cd name v before)"
  unfolding activated_def [abs_def]
  by (intro observed_intros observed_published_then_marked observed_ex)

lemma observed_switch_error [observed_intros]: "observed (switch_error name before f)"
  by (auto simp: observed_def switch_error_def split: error_kind.splits)

lemma switch_error_minor: "minor f \<Longrightarrow> live_events t = before \<Longrightarrow> switch_error name before f t"
  by (auto simp: switch_error_def minor_def split: error_kind.splits)

lemma frame_before: "frame (\<lambda>t. live_events t = before) (switch_error name before)"
  by (intro frameI observed_intros) (rule switch_error_minor)

lemma frame_self: "frame A E \<Longrightarrow> frame A (\<lambda>_. A)"
  by (simp add: frame_def)

lemma traced_marker_tried:
  assumes "frame A E"
  shows "traced A (tried (read_current_checked cd))
     (\<lambda>r t. A t \<and> (\<forall>n. r = Inr n \<longrightarrow> saw_marker cd n t)) E"
  by (rule traced_tried, rule traced_mono [OF traced_marker [OF frame_self [OF assms]]]) auto

lemma traced_already_active:
  assumes "frame A E"
  shows "traced A (activation_is_already_exact cd name v expected)
     (\<lambda>b t. A t \<and> (b \<longrightarrow> saw_marker cd (Some name) t
        \<and> (\<exists>l. Saw LiveAuth (Some l) \<in> set t \<and> cd_parse cd l = Inr v))) E"
  unfolding activation_is_already_exact_def
  by (intro traced_steps traced_then [OF traced_marker_tried] frame_rules observed_intros assms)
    (auto simp: ok_opt_def split: sum.splits)

text \<open>The steps of a commit: unchanged, published, marked.\<close>

definition published_now :: "string option \<Rightarrow> string \<Rightarrow> event list \<Rightarrow> event list \<Rightarrow> bool" where
  "published_now expected new before t \<longleftrightarrow>
     (\<exists>earlier. t = PublishedLive expected new # earlier \<and> live_events earlier = before)"

definition publication_result ::
  "string option \<Rightarrow> string \<Rightarrow> event list \<Rightarrow> failure + conditional_write \<Rightarrow> event list \<Rightarrow> bool" where
  "publication_result expected new before r t \<longleftrightarrow>
     (case r of
        Inr Written \<Rightarrow> published_now expected new before t
      | Inr (WrittenRecoveryRequired _) \<Rightarrow> published_now expected new before t
      | Inr (UnclearRecoveryRequired _) \<Rightarrow> live_events t = MaybePublished expected new # before
      | Inl f \<Rightarrow> minor f \<and> live_events t = before
      | _ \<Rightarrow> live_events t = before)"

lemma traced_publication:
  assumes "\<And>t. A t \<Longrightarrow> live_events t = before"
  shows "traced A (tried (publish_live expected new)) (publication_result expected new before) E"
proof -
  have "traced (\<lambda>t. live_events t = before) (publish_live expected new)
      (\<lambda>w. publication_result expected new before (Inr w))
      (\<lambda>f. publication_result expected new before (Inl f))"
    by (rule traced_publish) (auto simp: publication_result_def published_now_def
        intro!: frameI observed_intros)
  then show ?thesis by (intro traced_tried) (auto intro: traced_mono assms)
qed

lemma traced_mark:
  assumes "\<And>t. A t \<Longrightarrow> published_now expected new before t"
  shows "traced A (tried (write_current name))
     (\<lambda>r t. (is_ok r \<longrightarrow> published_then_marked name new before t)
        \<and> (\<not> is_ok r \<longrightarrow> (\<exists>old. live_events t = PublishedLive old new # before))) E"
proof (rule traced_tried)
  let ?E = "\<lambda>(_ :: failure) t. \<exists>old. live_events t = PublishedLive old new # before"
  have w: "traced (published_now expected new before) (write_current name)
      (\<lambda>_. published_then_marked name new before) ?E"
  proof (rule tracedI)
    fix s x s'
    assume "published_now expected new before (st_trace s)" "write_current name s = (Inr x, s')"
    then obtain earlier where "st_trace s' = WroteMarker name # PublishedLive expected new # earlier"
      "live_events earlier = before"
      by (auto simp: write_current_def write_marker_bytes_def also_then_def private_write_def
          access_def published_now_def require_durable_private_write_def give_def refuse_def
          split: prod.splits sum.splits list.splits reply.splits option.splits)
    then show "published_then_marked name new before (st_trace s')"
      unfolding published_then_marked_def
      by (rule_tac x = "[]" in exI) (auto simp: live_events_def)
  next
    fix s e s'
    assume "published_now expected new before (st_trace s)" "write_current name s = (Inl e, s')"
    then show "?E e (st_trace s')"
      by (auto simp: write_current_def write_marker_bytes_def also_then_def private_write_def
          access_def published_now_def require_durable_private_write_def give_def refuse_def
          split: prod.splits sum.splits list.splits reply.splits option.splits)
  qed
  show "traced A (write_current name)
     (\<lambda>x t. (is_ok (Inr x) \<longrightarrow> published_then_marked name new before t)
        \<and> (\<not> is_ok (Inr x) \<longrightarrow> (\<exists>old. live_events t = PublishedLive old new # before)))
     (\<lambda>e t. (is_ok (Inl e) \<longrightarrow> published_then_marked name new before t)
        \<and> (\<not> is_ok (Inl e) \<longrightarrow> (\<exists>old. live_events t = PublishedLive old new # before)))"
    by (rule traced_mono [OF w]) (auto intro: assms)
qed

lemma switch_error_partial:
  "live_events t = PublishedLive old new # before \<Longrightarrow>
     switch_error name before (partial_profile_activation_error name new e) t"
  by (auto simp: switch_error_def partial_profile_activation_error_def)

lemma switch_error_unclear:
  "live_events t = MaybePublished old new # before \<Longrightarrow> minor f \<Longrightarrow> switch_error name before f t"
  by (auto simp: switch_error_def minor_def split: error_kind.splits)

lemma commit_outcome:
  assumes "frame A (switch_error name before)" "\<And>t. A t \<Longrightarrow> live_events t = before"
  shows "traced A (commit_activation_if_live_unchanged cd name v expected)
     (\<lambda>_. activated cd name v before) (switch_error name before)"
  unfolding commit_activation_if_live_unchanged_def Let_def
  by (intro traced_steps traced_then [OF traced_already_active]
      traced_then [OF traced_publication [where before = before]]
      traced_then [OF traced_mark [where before = before]] frame_rules observed_intros assms(1))
    (auto simp: publication_result_def published_now_def activated_def assms(1)
      intro: switch_error_minor switch_error_partial switch_error_unclear dest: assms(2))

definition switched_to :: "codec \<Rightarrow> string \<Rightarrow> event list \<Rightarrow> event list \<Rightarrow> bool" where
  "switched_to cd name before t \<longleftrightarrow> (\<exists>v. saved_value cd name v t \<and> activated cd name v before t)"

lemma observed_switched [observed_intros]: "observed (switched_to cd name before)"
  unfolding switched_to_def [abs_def] by (intro observed_ex observed_intros)

lemma traced_revalidate_value:
  assumes "frame A E"
  shows "traced A (revalidate_confirmed_profile_switch cd c name)
           (\<lambda>(v, live) t. A t \<and> saved_value cd name v t) E"
proof (cases c)
  case (Confirmed p)
  show ?thesis
    unfolding revalidate_confirmed_profile_switch_def Confirmed confirmed_switch.case
    by (intro traced_steps frame_rules observed_intros assms)
      (auto simp: frame_error [OF assms] saved_value_def result_eq_Inr)
qed

lemma lasting_commit:
  assumes "lasting B"
  shows "traced B (commit_activation_if_live_unchanged cd name v expected) (\<lambda>_. B) (\<lambda>_. B)"
proof -
  have f: "frame B (\<lambda>_. B)" using assms by (intro frameI lasting_observed)
  have publish: "traced A (tried (publish_live expected new)) (\<lambda>_. B) E"
    if "\<And>t. A t \<Longrightarrow> B t" for A new E
    by (rule traced_tried_weak, rule traced_mono, rule traced_publish [OF f])
      (auto intro: lastingD [OF assms] that)
  have mark: "traced B (tried (write_current name)) (\<lambda>_. B) E" for E
    by (rule traced_tried_weak, rule traced_write_current [OF f]) (auto intro: lastingD [OF assms])
  show ?thesis
    unfolding commit_activation_if_live_unchanged_def Let_def
    by (intro traced_steps traced_then [OF traced_already_exact] traced_then [OF publish]
        traced_then [OF mark] frame_rules observed_intros f) auto
qed

lemma traced_conj:
  assumes "traced A m Q E" "traced B m R F"
  shows "traced (\<lambda>t. A t \<and> B t) m (\<lambda>x t. Q x t \<and> R x t) (\<lambda>e t. E e t \<and> F e t)"
  using tracedD [OF assms(1)] tracedD [OF assms(2)] by (intro tracedI) auto

lemma saved_commit_outcome:
  assumes "\<And>t. A t \<Longrightarrow> live_events t = before \<and> saved_value cd name v t"
  shows "traced A (commit_activation_if_live_unchanged cd name v expected)
     (\<lambda>_. switched_to cd name before) (switch_error name before)"
  by (rule traced_mono [OF traced_conj [OF commit_outcome [OF frame_before]
        lasting_commit [OF lasting_saved_value [of cd name v]]]])
    (auto simp: switched_to_def dest: assms)

lemma outcome_recorded:
  assumes "observed B"
  shows "traced B record_switch_outcome (\<lambda>_. B) E"
  unfolding record_switch_outcome_def
  by (rule traced_then [OF traced_tried_weak [where B = B]])
    (auto intro!: traced_give traced_cache frameI assms)

lemma commit_confirmed_outcome:
  "traced (\<lambda>t. live_events t = before) (commit_confirmed_profile_switch cd c)
     (\<lambda>_. switched_to cd (confirmed_alias c) before) (switch_error (confirmed_alias c) before)"
  unfolding commit_confirmed_profile_switch_def commit_confirmed_profile_switch_with_lease_def
  by (intro traced_with_lease traced_then [OF _ outcome_recorded] traced_with_transaction
      traced_then [OF traced_revalidate_value] traced_prod saved_commit_outcome
      observed_intros frame_before) auto

lemma switch_with_prompt_outcome:
  "traced (\<lambda>t. live_events t = before) (switch_profile_with_prompt cd input name allow)
     (\<lambda>_. switched_to cd name before) (switch_error name before)"
  unfolding switch_profile_with_prompt_def
  by (rule traced_then [OF traced_confirm], rule frame_before, intro observed_intros, intro observed_intros)
    (use commit_confirmed_outcome [of before cd] in \<open>fastforce simp: traced_def\<close>)

lemma switch_quiet_outcome:
  "traced (\<lambda>t. live_events t = before) (switch_profile cd name)
     (\<lambda>_. switched_to cd name before) (switch_error name before)"
  unfolding switch_profile_def
  by (rule traced_then [OF traced_prepare_leased], rule frame_before, intro observed_intros,
      intro observed_intros, rule traced_then [OF traced_confirm_quiet], rule frame_before)
    (use commit_confirmed_outcome [of before cd] in \<open>fastforce simp: traced_def\<close>)

lemma commit_authorized_outcome:
  "traced (\<lambda>t. live_events t = before) (commit_authorized_profile_switch cd a)
     (\<lambda>_. switched_to cd (az_alias a) before) (switch_error (az_alias a) before)"
proof -
  have v: "traced A (validate_authorized_profile_switch cd a)
      (\<lambda>(v, live) t. A t \<and> saved_value cd (az_alias a) v t) E" if A: "frame A E" for A E
    unfolding validate_authorized_profile_switch_def Let_def
    by (intro traced_steps frame_rules observed_intros A)
      (auto simp: frame_error [OF A] saw_existing_def dest: saw_value_saved)
  show ?thesis
    unfolding commit_authorized_profile_switch_def
    by (intro traced_then [OF _ outcome_recorded] traced_with_transaction traced_then [OF v]
        traced_prod saved_commit_outcome observed_intros frame_before) auto
qed

lemma if_current_outcome:
  "traced (\<lambda>t. live_events t = before) (switch_profile_if_current cd expected target)
     (\<lambda>r t. case r of
        None \<Rightarrow> live_events t = before
      | Some _ \<Rightarrow> (expected = target \<and> live_events t = before) \<or> switched_to cd target before t)
     (switch_error target before)"
proof -
  have locked: "traced A (switch_if_current_locked cd expected target)
     (\<lambda>b. if b then (\<lambda>t. (expected = target \<and> live_events t = before) \<or> switched_to cd target before t)
           else (\<lambda>t. live_events t = before)) (switch_error target before)"
    if A: "frame A (switch_error target before)" "\<And>t. A t \<Longrightarrow> live_events t = before" for A
    unfolding switch_if_current_locked_def
    by (intro traced_then [OF traced_belongs_to_profile] traced_steps
        traced_then [OF saved_commit_outcome [where before = before]] frame_rules observed_intros A(1))
      (auto simp: frame_error [OF A(1)] saw_existing_def dest: A(2) saw_value_saved)
  have outcome: "traced (\<lambda>t. (expected = target \<and> live_events t = before) \<or> switched_to cd target before t)
      (also_then record_switch_outcome (\<lambda>w. give (Some w)))
      (\<lambda>r t. case r of
        None \<Rightarrow> live_events t = before
      | Some _ \<Rightarrow> (expected = target \<and> live_events t = before) \<or> switched_to cd target before t) E" for E
    by (intro traced_then [OF outcome_recorded] traced_give observed_intros) auto
  have body: "traced (\<lambda>t. (live_events t = before \<and> a) \<and> b)
      (also_then (with_transaction (switch_if_current_locked cd expected target))
         (\<lambda>switched. if switched then also_then record_switch_outcome (\<lambda>w. give (Some w)) else give None))
      (\<lambda>r t. case r of
        None \<Rightarrow> live_events t = before
      | Some _ \<Rightarrow> (expected = target \<and> live_events t = before) \<or> switched_to cd target before t)
      (switch_error target before)" for a b
  proof (rule traced_then [OF traced_with_transaction [OF _ locked]])
    show "traced (if x then (\<lambda>t. expected = target \<and> live_events t = before \<or> switched_to cd target before t)
        else (\<lambda>t. live_events t = before))
      (if x then also_then record_switch_outcome (\<lambda>w. give (Some w)) else give None)
      (\<lambda>r t. case r of
        None \<Rightarrow> live_events t = before
      | Some _ \<Rightarrow> (expected = target \<and> live_events t = before) \<or> switched_to cd target before t)
      (switch_error target before)" for x
      by (cases x) (auto intro: outcome traced_give)
    show "observed (if x then (\<lambda>t. expected = target \<and> live_events t = before \<or> switched_to cd target before t)
        else (\<lambda>t. live_events t = before))" for x
      by (auto intro!: observed_intros)
  qed (auto intro!: frame_rules observed_intros frame_before)
  show ?thesis
    unfolding switch_profile_if_current_def
    by (intro traced_with_leases body traced_steps frame_rules observed_intros frame_before)
qed

end
