(* ===== verification/Profile_Sync.thy ===== *)
theory Profile_Sync
  imports Profile_Consent
begin

text \<open>
  Which saved profile is active (\<open>src/src/profile.rs\<close>): the live credential is compared with the
  saved ones by bytes, by value, and by complete identity, the marker deciding between several;
  the marker is repaired from the answer; and a change of the live credential is classified.

  The test hooks of the source are left out. The look for a dangling link at the live path is a
  second look at the path.
\<close>

section \<open>The active profile\<close>

definition bind_matches :: "codec \<Rightarrow> string list \<Rightarrow> string option action" where
  "bind_matches cd matches =
     also_then (if 1 < length matches then read_current_checked cd else give None) (\<lambda>current.
       lift (select_exact_profile_binding matches current))"

definition exact_active_profile_from_registry_snapshot ::
  "codec \<Rightarrow> registry_snapshot \<Rightarrow> string \<Rightarrow> string option action" where
  "exact_active_profile_from_registry_snapshot cd profiles live_bytes =
     (let exact = exact_matches profiles live_bytes
      in if exact = [] then give None else bind_matches cd exact)"

definition identity_of_profile :: "codec \<Rightarrow> parsed_registry \<Rightarrow> account_identity \<Rightarrow> string \<Rightarrow> bool" where
  "identity_of_profile cd parsed i name \<longleftrightarrow>
     (case registry_profile parsed name of
        None \<Rightarrow> False
      | Some profile \<Rightarrow> exact_identity_matches (extract_identity cd profile) i)"

definition non_exact_active_profile_from_registry_snapshot ::
  "codec \<Rightarrow> string \<Rightarrow> parsed_registry \<Rightarrow> string option action" where
  "non_exact_active_profile_from_registry_snapshot cd live_bytes parsed =
     also_then (lift (with_context ''parsing live auth'' (cd_parse cd live_bytes))) (\<lambda>live.
     let equivalent = equivalent_matches parsed live
     in if equivalent \<noteq> [] then bind_matches cd equivalent
        else
        let live_identity = extract_identity cd live
        in also_then (read_current_checked cd) (\<lambda>current.
             if is_some_and (identity_of_profile cd parsed live_identity) current then give current
             else give (unique_match (im_exact (collect_identity_matches cd live_identity parsed)))))"

definition active_profile_from_registry_snapshot ::
  "codec \<Rightarrow> registry_snapshot \<Rightarrow> parsed_registry \<Rightarrow> string option action" where
  "active_profile_from_registry_snapshot cd profiles parsed =
     also_then (snapshot_optional_file LiveAuth) (\<lambda>live.
       case live of
         None \<Rightarrow> give None
       | Some live_bytes \<Rightarrow>
           also_then (exact_active_profile_from_registry_snapshot cd profiles live_bytes) (\<lambda>exact.
             case exact of
               Some name \<Rightarrow> give (Some name)
             | None \<Rightarrow> non_exact_active_profile_from_registry_snapshot cd live_bytes parsed))"

definition active_profile_from_live_with_registry_snapshot ::
  "codec \<Rightarrow> (string \<times> registry_snapshot) option action" where
  "active_profile_from_live_with_registry_snapshot cd =
     also_then codex_auth_path (\<lambda>_.
     also_then (snapshot_optional_file LiveAuth) (\<lambda>live.
     case live of
       None \<Rightarrow> give None
     | Some live_bytes \<Rightarrow>
         also_then registry_snapshot (\<lambda>profiles.
         also_then (exact_active_profile_from_registry_snapshot cd profiles live_bytes) (\<lambda>exact.
           case exact of
             Some name \<Rightarrow> give (Some (name, profiles))
           | None \<Rightarrow>
               also_then (lift (parse_registry cd profiles)) (\<lambda>parsed.
               also_then (non_exact_active_profile_from_registry_snapshot cd live_bytes parsed)
                 (\<lambda>r. give (map_option (\<lambda>name. (name, profiles)) r)))))))"

definition active_profile_from_live :: "codec \<Rightarrow> string option action" where
  "active_profile_from_live cd =
     also_then (active_profile_from_live_with_registry_snapshot cd) (\<lambda>r. give (map_option fst r))"

text \<open>The accounts of the saved profiles with the active one (\<open>load_profile_accounts_checked_with_active\<close>).\<close>

definition load_profile_accounts_checked_with_active ::
  "codec \<Rightarrow> ((string \<times> account_info) list \<times> string option) action" where
  "load_profile_accounts_checked_with_active cd =
     also_then registry_snapshot (\<lambda>profiles.
     also_then (lift (parse_registry cd profiles)) (\<lambda>parsed.
     also_then load_policy (\<lambda>policy.
     also_then (lift (profile_accounts_from_snapshot cd parsed (Some policy))) (\<lambda>accounts.
     also_then (lift (policy_auth_path (Inr policy))) (\<lambda>_.
     also_then (active_profile_from_registry_snapshot cd profiles parsed) (\<lambda>active.
       give (accounts, active)))))))"

section \<open>Synchronising the marker\<close>

text \<open>A cheap candidate: any failure to observe is only a miss.\<close>

definition exact_current_profile_hint :: "codec \<Rightarrow> string option action" where
  "exact_current_profile_hint cd =
     also_then (tried (read_current_checked cd)) (\<lambda>current.
       case ok_opt current of
         Some (Some name) \<Rightarrow>
           also_then (tried (also_then codex_auth_path (\<lambda>_. snapshot_optional_file LiveAuth))) (\<lambda>live.
             case ok_opt live of
               Some (Some live_bytes) \<Rightarrow>
                 also_then (tried (also_then (profile_path name) snapshot_optional_file)) (\<lambda>profile.
                   give (if ok_opt profile = Some (Some live_bytes) then Some name else None))
             | _ \<Rightarrow> give None)
       | _ \<Rightarrow> give None)"

text \<open>Under the locks of the candidate; no answer means that the candidate has to be found again.\<close>

definition confirm_current :: "codec \<Rightarrow> string \<Rightarrow> (string \<times> registry_snapshot) option action" where
  "confirm_current cd name =
     with_lease name (with_transaction (
       also_then (active_profile_from_live_with_registry_snapshot cd) (\<lambda>r.
         case r of
           None \<Rightarrow> give None
         | Some (confirmed, profiles) \<Rightarrow>
             if confirmed \<noteq> name then give None
             else
             also_then (read_current_checked cd) (\<lambda>current.
             also_then (if current \<noteq> Some name then write_current name else give ()) (\<lambda>_.
               give (Some (name, profiles)))))))"

fun sync_attempts :: "codec \<Rightarrow> nat \<Rightarrow> (string \<times> registry_snapshot) option action" where
  "sync_attempts cd 0 =
     refuse_text ''live active profile kept changing while synchronizing the current marker''"
| "sync_attempts cd (Suc n) =
     also_then (exact_current_profile_hint cd) (\<lambda>hint.
     also_then (case hint of Some name \<Rightarrow> give (Some name) | None \<Rightarrow> active_profile_from_live cd)
       (\<lambda>candidate.
     case candidate of
       None \<Rightarrow> give None
     | Some name \<Rightarrow>
         also_then (confirm_current cd name) (\<lambda>r.
           case r of
             None \<Rightarrow> sync_attempts cd n
           | Some synced \<Rightarrow> give (Some synced))))"

definition sync_current_from_live_with_registry ::
  "codec \<Rightarrow> (string \<times> registry_snapshot) option action" where
  "sync_current_from_live_with_registry cd = sync_attempts cd 4"

definition sync_current_from_live :: "codec \<Rightarrow> string option action" where
  "sync_current_from_live cd =
     also_then (sync_current_from_live_with_registry cd) (\<lambda>r. give (map_option fst r))"

definition required_bytes :: "path \<Rightarrow> string action" where
  "required_bytes p =
     also_then (snapshot_optional_file p) (\<lambda>c.
       case c of None \<Rightarrow> refuse_text ''No such file or directory'' | Some b \<Rightarrow> give b)"

definition repair_current_for_exact_live_match :: "codec \<Rightarrow> string \<Rightarrow> unit action" where
  "repair_current_for_exact_live_match cd name =
     with_lease name (with_transaction (
       also_then codex_auth_path (\<lambda>_.
       also_then (profile_path name) (\<lambda>p.
       also_then (required_bytes LiveAuth) (\<lambda>live.
       also_then (required_bytes p) (\<lambda>profile.
         if live \<noteq> profile then give ()
         else also_then (read_current_checked cd) (\<lambda>current.
                if current \<noteq> Some name then write_current name else give ())))))))"

definition repair_current_for_equivalent_live_match :: "codec \<Rightarrow> string \<Rightarrow> unit action" where
  "repair_current_for_equivalent_live_match cd name =
     with_lease name (with_transaction (
       also_then codex_auth_path (\<lambda>_.
       also_then (profile_path name) (\<lambda>p.
       also_then (required_bytes LiveAuth) (\<lambda>live.
       also_then (required_bytes p) (\<lambda>profile.
       also_then (lift (with_context ''parsing live auth'' (cd_parse cd live))) (\<lambda>live_value.
       also_then (lift (with_context ''parsing profile auth'' (cd_parse cd profile))) (\<lambda>profile_value.
         if live_value \<noteq> profile_value then give ()
         else also_then (read_current_checked cd) (\<lambda>current.
                if current \<noteq> Some name then write_current name else give ())))))))))"

section \<open>Detecting a change of the live credential\<close>

datatype auth_change =
    NoLiveAuth | NewAccount | UnidentifiedAccount | TokensUpdated string
  | UnresolvedIdentity "string list" | NoChange

definition read_live_auth_snapshot_for_detection :: "string option action" where
  "read_live_auth_snapshot_for_detection =
     also_then (snapshot_optional_file LiveAuth) (\<lambda>c.
       case c of
         Some bytes \<Rightarrow> give (Some bytes)
       | None \<Rightarrow>
           also_then (path_exists_checked LiveAuth) (\<lambda>present.
             if present then refuse_text ''reading existing live auth path during change detection''
             else give None))"

datatype current_exact_match = Match | Miss | Retry

definition exact_current_profile_match_checked :: "codec \<Rightarrow> string \<Rightarrow> current_exact_match action" where
  "exact_current_profile_match_checked cd live_snapshot =
     also_then (in_context ''reading the current marker for exact live-auth matching''
                  (read_current_marker_snapshot_checked cd)) (\<lambda>marker.
     case marker of
       None \<Rightarrow> give Miss
     | Some m \<Rightarrow>
         also_then (profile_path (ms_alias m)) (\<lambda>p.
         also_then (snapshot_optional_file p) (\<lambda>profile.
           if profile \<noteq> Some live_snapshot then give Miss
           else
           also_then (in_context ''rechecking the current marker after exact live-auth matching''
                        (read_current_marker_snapshot_checked cd)) (\<lambda>current.
             give (if current \<noteq> Some m then Retry else Match)))))"

text \<open>The loop that starts a detection: no live file, a settled match, or the unmatched credential.\<close>

datatype live_scan = NoLive | Matched | Unmatched string json

fun scan_live :: "codec \<Rightarrow> string option action \<Rightarrow> nat \<Rightarrow> live_scan action" where
  "scan_live cd look 0 =
     refuse_text ''current profile marker kept changing while checking live authentication''"
| "scan_live cd look (Suc n) =
     also_then look (\<lambda>live.
     case live of
       None \<Rightarrow> give NoLive
     | Some live_snapshot \<Rightarrow>
         also_then (lift (with_context ''parsing live auth for change detection''
                            (cd_parse cd live_snapshot))) (\<lambda>value.
         also_then (exact_current_profile_match_checked cd live_snapshot) (\<lambda>m.
           case m of
             Match \<Rightarrow> give Matched
           | Miss \<Rightarrow> give (Unmatched live_snapshot value)
           | Retry \<Rightarrow> scan_live cd look n)))"

definition profile_concurrency_retry_limit :: nat where
  "profile_concurrency_retry_limit = 8"

text \<open>Some saved profiles have the live bytes: the marker is repaired if one profile has them.\<close>

definition settle_exact_matches :: "codec \<Rightarrow> string list \<Rightarrow> auth_change action" where
  "settle_exact_matches cd matches =
     (let is_legacy_duplicate = 1 < length matches in
      also_then (if is_legacy_duplicate then read_current_checked cd else give None) (\<lambda>current.
      also_then (lift (select_exact_profile_binding matches current)) (\<lambda>binding.
      case binding of
        None \<Rightarrow> refuse_text ''exact live-auth comparison returned no profile binding''
      | Some name \<Rightarrow>
          also_then (if is_legacy_duplicate then give False
                     else also_then (read_current_checked cd) (\<lambda>c. give (c = Some name)))
            (\<lambda>marker_is_current.
          also_then (if \<not> is_legacy_duplicate \<and> \<not> marker_is_current
                     then repair_current_for_exact_live_match cd name else give ()) (\<lambda>_.
            give NoChange)))))"

definition settle_equivalent_matches :: "codec \<Rightarrow> string list \<Rightarrow> auth_change action" where
  "settle_equivalent_matches cd equivalent =
     (case equivalent of
        [] \<Rightarrow> give UnidentifiedAccount
      | [name] \<Rightarrow>
          also_then (read_current_checked cd) (\<lambda>current.
          also_then (if current \<noteq> Some name then repair_current_for_equivalent_live_match cd name
                     else give ()) (\<lambda>_.
            give NoChange))
      | names \<Rightarrow>
          also_then (read_current_checked cd) (\<lambda>current.
            if is_some_and (\<lambda>c. c \<in> set names) current then give NoChange
            else refuse_text (''live auth semantically matches multiple legacy profiles (''
                   @ join '', '' names @ ''), and the current marker does not disambiguate them'')))"

definition settle_identity_matches :: "codec \<Rightarrow> identity_matches \<Rightarrow> auth_change action" where
  "settle_identity_matches cd m =
     (case im_exact m of
        [name] \<Rightarrow> give (TokensUpdated name)
      | [] \<Rightarrow> give (if im_incomplete m = [] then NewAccount else UnresolvedIdentity (im_incomplete m))
      | names \<Rightarrow>
          also_then (read_current_checked cd) (\<lambda>current.
            case filter_opt (\<lambda>c. c \<in> set names) current of
              Some c \<Rightarrow> give (TokensUpdated c)
            | None \<Rightarrow> refuse_text (''live credentials have the same exact account identity as multiple legacy profiles (''
                   @ join '', '' names @ '')'')))"

definition detect_auth_change :: "codec \<Rightarrow> auth_change action" where
  "detect_auth_change cd =
     also_then codex_auth_path (\<lambda>_.
     also_then (scan_live cd read_live_auth_snapshot_for_detection profile_concurrency_retry_limit)
       (\<lambda>scan.
     case scan of
       NoLive \<Rightarrow> give NoLiveAuth
     | Matched \<Rightarrow> give NoChange
     | Unmatched live_snapshot value \<Rightarrow>
         also_then (in_context ''comparing live auth bytes with saved profiles'' registry_snapshot)
           (\<lambda>profiles.
         let matches = exact_matches profiles live_snapshot in
         if matches \<noteq> [] then settle_exact_matches cd matches
         else
         let i = extract_identity cd value in
         also_then (lift (parse_registry cd profiles)) (\<lambda>parsed.
           if id_email i = None \<and> id_account i = None
           then settle_equivalent_matches cd (equivalent_matches parsed value)
           else settle_identity_matches cd (collect_identity_matches cd i parsed)))))"

section \<open>The marker follows the live credential\<close>

lemma tracks_bytes: "Saw (ProfileAuth name) (Some l) \<in> set t \<Longrightarrow> tracks cd name l t"
  by (auto simp: tracks_def called_def)

lemma tracks_value: "saved_value cd name v t \<Longrightarrow> cd_parse cd l = Inr v \<Longrightarrow> tracks cd name l t"
  by (auto simp: tracks_def intro: saved_holds)

lemma tracks_account:
  "saved_value cd name w t \<Longrightarrow> cd_parse cd l = Inr v \<Longrightarrow> same_account cd w v \<Longrightarrow> tracks cd name l t"
  by (auto simp: tracks_def intro: saved_holds)

lemma tracked_marker_ok: "Saw LiveAuth (Some l) \<in> set t \<Longrightarrow> tracks cd name l t \<Longrightarrow> marker_ok cd name t"
  by (auto simp: marker_ok_def)

lemma saw_profiles_value:
  "saw_profiles profiles t \<Longrightarrow> parse_registry cd profiles = Inr parsed \<Longrightarrow> (name, v) \<in> set parsed \<Longrightarrow>
     saved_value cd name v t"
  by (auto simp: parse_registry_member saw_profiles_def saved_value_def)

lemma same_account_exact: "exact_identity_matches (extract_identity cd w) (extract_identity cd v) \<longleftrightarrow> same_account cd w v"
  by (auto simp: exact_identity_matches_iff same_account_def)

lemma same_account_sym: "same_account cd w v \<longleftrightarrow> same_account cd v w"
  by (auto simp: same_account_def)

lemma identity_of_profile_iff:
  "identity_of_profile cd parsed (extract_identity cd v) name \<longleftrightarrow>
     (\<exists>w. registry_profile parsed name = Some w \<and> same_account cd w v)"
  by (auto simp: identity_of_profile_def same_account_exact split: option.splits)

lemma exact_identity_member:
  "name \<in> set (im_exact (collect_identity_matches cd (extract_identity cd v) parsed)) \<longleftrightarrow>
     (\<exists>w. (name, w) \<in> set parsed \<and> same_account cd w v)"
  by (force simp: collect_identity_matches_eq same_account_exact same_account_sym [of cd v])

lemma observed_every [observed_intros]: "(\<And>x. observed (A x)) \<Longrightarrow> observed (\<lambda>t. \<forall>x. A x t)"
  by (auto simp: observed_def)

lemma observed_true [simp]: "observed (\<lambda>t. b)"
  by (rule observed_const)

lemma sole_identity:
  "im_exact (collect_identity_matches cd (extract_identity cd v) parsed) = [name] \<Longrightarrow>
     \<exists>w. (name, w) \<in> set parsed \<and> same_account cd w v"
  using exact_identity_member [of name cd v parsed] by simp

lemma traced_bind:
  assumes "frame A E"
  shows "traced A (bind_matches cd names) (\<lambda>r t. A t \<and> (\<forall>n. r = Some n \<longrightarrow> n \<in> set names)) E"
proof -
  have "traced A (if 1 < length names then read_current_checked cd else give None) (\<lambda>_. A) E"
    by (intro traced_if traced_post [OF traced_marker] traced_give assms) auto
  then show ?thesis
    unfolding bind_matches_def
    by (rule traced_then) (intro traced_lift, auto simp: select_binding_Some frame_error [OF assms])
qed

lemma traced_exact_active:
  assumes "frame A E" "\<And>t. A t \<Longrightarrow> saw_profiles profiles t"
  shows "traced A (exact_active_profile_from_registry_snapshot cd profiles l)
     (\<lambda>r t. A t \<and> (\<forall>n. r = Some n \<longrightarrow> tracks cd n l t)) E"
  unfolding exact_active_profile_from_registry_snapshot_def Let_def
  by (intro traced_steps traced_post [OF traced_bind] assms(1))
    (auto dest: saw_profiles_exact [OF assms(2)] intro: tracks_bytes)

lemma traced_non_exact_active:
  assumes "frame A E" "\<And>t. A t \<Longrightarrow> saw_profiles profiles t" "parse_registry cd profiles = Inr parsed"
  shows "traced A (non_exact_active_profile_from_registry_snapshot cd l parsed)
     (\<lambda>r t. A t \<and> (\<forall>n. r = Some n \<longrightarrow> tracks cd n l t)) E"
proof -
  have bound: "tracks cd n l t" if "A t" "cd_parse cd l = Inr v" "(n, w) \<in> set parsed" "same_account cd w v"
    for n t v w
    using that saw_profiles_value [OF assms(2,3)] by (blast intro: tracks_account)
  have equal: "tracks cd n l t" if "A t" "cd_parse cd l = Inr v" "(n, v) \<in> set parsed" for n t v
    using that saw_profiles_value [OF assms(2,3)] by (blast intro: tracks_value)
  show ?thesis
    unfolding non_exact_active_profile_from_registry_snapshot_def Let_def
    by (intro traced_steps traced_post [OF traced_bind] frame_rules observed_intros assms(1))
      (auto simp: in_equivalent_matches result_eq_Inr identity_of_profile_iff frame_error [OF assms(1)]
        is_some_and_def intro: equal bound dest: sole_identity registry_profile_Some split: option.splits)
qed

definition active_ok :: "codec \<Rightarrow> string option \<Rightarrow> event list \<Rightarrow> bool" where
  "active_ok cd r t \<longleftrightarrow>
     (\<forall>n. r = Some n \<longrightarrow> (\<exists>l. Saw LiveAuth (Some l) \<in> set t \<and> tracks cd n l t))"


lemma observed_active_ok [observed_intros]: "observed (active_ok cd r)"
  using lastingD [OF lasting_tracks] by (fastforce simp: active_ok_def observed_def)

lemma traced_active_registry:
  assumes "frame A E" "\<And>t. A t \<Longrightarrow> saw_profiles profiles t" "parse_registry cd profiles = Inr parsed"
  shows "traced A (active_profile_from_registry_snapshot cd profiles parsed)
     (\<lambda>r t. A t \<and> active_ok cd r t) E"
  unfolding active_profile_from_registry_snapshot_def
  by (intro traced_then [OF traced_exact_active] traced_post [OF traced_non_exact_active] traced_steps
      frame_rules observed_intros assms(1))
    (auto simp: active_ok_def assms(3) dest: assms(2))

lemma traced_active_with_registry:
  assumes "frame A E"
  shows "traced A (active_profile_from_live_with_registry_snapshot cd)
     (\<lambda>r t. A t \<and> active_ok cd (map_option fst r) t) E"
proof -
  have rest: "traced B (also_then (lift (parse_registry cd profiles)) (\<lambda>parsed.
       also_then (non_exact_active_profile_from_registry_snapshot cd l parsed)
         (\<lambda>r. give (map_option (\<lambda>name. (name, profiles)) r))))
     (\<lambda>r t. B t \<and> (\<forall>n. map_option fst r = Some n \<longrightarrow> tracks cd n l t)) E"
    if "frame B E" "\<And>t. B t \<Longrightarrow> saw_profiles profiles t" for B profiles l
    by (rule traced_then [OF traced_lifted [OF that(1)]], rule traced_assume,
        rule traced_then [OF traced_non_exact_active [OF that(1,2)]])
      (auto simp: map_option.compositionality o_def intro!: traced_give)
  show ?thesis
    unfolding active_profile_from_live_with_registry_snapshot_def
    by (intro traced_then [OF traced_exact_active] traced_post [OF rest] traced_steps
        frame_rules observed_intros assms) (auto simp: active_ok_def)
qed

lemma traced_active:
  assumes "frame A E"
  shows "traced A (active_profile_from_live cd) (\<lambda>r t. A t \<and> active_ok cd r t) E"
  unfolding active_profile_from_live_def
  by (intro traced_then [OF traced_active_with_registry] traced_give assms) auto

lemma traced_hint:
  assumes "frame A E"
  shows "traced A (exact_current_profile_hint cd) (\<lambda>_. A) E"
proof -
  have f: "frame A (\<lambda>_. A)" using assms by (rule frame_self)
  have look: "traced A (tried (also_then codex_auth_path (\<lambda>_. snapshot_optional_file LiveAuth))) (\<lambda>_. A) E"
    by (intro traced_tried_weak traced_then [OF traced_live_path] traced_post [OF traced_see] f) auto
  show ?thesis
    unfolding exact_current_profile_hint_def
    by (intro traced_then [OF traced_marker_quiet] traced_then [OF look] traced_then [OF traced_look]
        traced_steps assms) auto
qed

abbreviation keeps :: "codec \<Rightarrow> 'a action \<Rightarrow> bool" where
  "keeps cd m \<equiv> traced (consistent_history cd) m (\<lambda>_. consistent_history cd) (\<lambda>_. consistent_history cd)"

lemma consistent_ensure_marker:
  assumes "frame A (\<lambda>_. consistent_history cd)" "\<And>t. A t \<Longrightarrow> consistent_history cd t \<and> marker_ok cd name t"
  shows "traced A (if current \<noteq> Some name then write_current name else give ())
     (\<lambda>_. consistent_history cd) (\<lambda>_. consistent_history cd)"
  by (intro traced_if consistent_mark traced_give assms) (auto dest: assms(2))

lemma consistent_confirm: "keeps cd (confirm_current cd name)"
proof -
  have ok: "marker_ok cd name t" if "active_ok cd (Some name) t" for t
    using that by (auto simp: active_ok_def intro: tracked_marker_ok)
  then show ?thesis
    unfolding confirm_current_def
    by (intro traced_with_lease traced_with_transaction traced_then [OF traced_active_with_registry]
        traced_then [OF consistent_ensure_marker] traced_steps frame_rules observed_intros frame_consistent)
      auto
qed

lemma consistent_sync_attempts: "keeps cd (sync_attempts cd n)"
proof (induction n)
  case 0
  show ?case by (auto intro: traced_intros)
next
  case (Suc n)
  have m: "traced (consistent_history cd)
      (case hint of Some name \<Rightarrow> give (Some name) | None \<Rightarrow> active_profile_from_live cd)
      (\<lambda>_. consistent_history cd) (\<lambda>_. consistent_history cd)" for hint
    by (intro traced_option traced_give traced_post [OF traced_active] frame_consistent) auto
  show ?case
    unfolding sync_attempts.simps
    by (intro traced_then [OF traced_hint] traced_then [OF m] traced_then [OF consistent_confirm]
        traced_steps Suc.IH frame_consistent)
qed

lemma consistent_sync [traced_intros]:
  "keeps cd (sync_current_from_live_with_registry cd)" "keeps cd (sync_current_from_live cd)"
  unfolding sync_current_from_live_def sync_current_from_live_with_registry_def
  by (intro traced_then [OF consistent_sync_attempts] consistent_sync_attempts traced_intros; simp)+

lemma traced_required:
  assumes "frame A E"
  shows "traced A (required_bytes p) (\<lambda>b t. A t \<and> Saw p (Some b) \<in> set t) E"
  unfolding required_bytes_def
  by (intro traced_steps assms) (auto simp: frame_error [OF assms])

lemma exact_marker_ok:
  "Saw LiveAuth (Some l) \<in> set t \<Longrightarrow> Saw (ProfileAuth name) (Some l) \<in> set t \<Longrightarrow> marker_ok cd name t"
  by (rule tracked_marker_ok) (auto intro: tracks_bytes)

lemma equal_marker_ok:
  "Saw LiveAuth (Some l) \<in> set t \<Longrightarrow> Saw (ProfileAuth name) (Some b) \<in> set t \<Longrightarrow>
     cd_parse cd l = Inr v \<Longrightarrow> cd_parse cd b = Inr v \<Longrightarrow> marker_ok cd name t"
  by (rule tracked_marker_ok) (auto intro!: tracks_value simp: saved_value_def)

lemma consistent_repair_exact [traced_intros]: "keeps cd (repair_current_for_exact_live_match cd name)"
  unfolding repair_current_for_exact_live_match_def
  by (intro traced_with_lease traced_with_transaction traced_then [OF traced_required] consistent_mark
      traced_steps frame_rules observed_intros frame_consistent) (auto intro: exact_marker_ok)

lemma consistent_repair_equivalent [traced_intros]:
  "keeps cd (repair_current_for_equivalent_live_match cd name)"
  unfolding repair_current_for_equivalent_live_match_def
  by (intro traced_with_lease traced_with_transaction traced_then [OF traced_required] consistent_mark
      traced_steps frame_rules observed_intros frame_consistent)
    (auto simp: result_eq_Inr intro: equal_marker_ok)

lemma lasting_structure:
  "lasting (\<lambda>t. b)" "lasting A \<Longrightarrow> lasting B \<Longrightarrow> lasting (\<lambda>t. A t \<and> B t)"
  "lasting A \<Longrightarrow> lasting (\<lambda>t. b \<longrightarrow> A t)"
  "(\<And>x. lasting (C x)) \<Longrightarrow> lasting (\<lambda>t. \<exists>x. C x t)" "(\<And>x. lasting (C x)) \<Longrightarrow> lasting (\<lambda>t. \<forall>x. C x t)"
  by (auto simp: lasting_def)

lemmas lasting_intros = lasting_structure lasting_member lasting_tracks lasting_saved_value
  lasting_saw_profiles lasting_holds

lemma traced_current_match:
  assumes "frame A E" "\<And>f c t. E f t \<Longrightarrow> E (f\<lparr>fl_chain := c\<rparr>) t"
  shows "traced A (exact_current_profile_match_checked cd l)
     (\<lambda>m t. A t \<and> (m = Match \<longrightarrow> (\<exists>n. Saw (ProfileAuth n) (Some l) \<in> set t))) E"
  unfolding exact_current_profile_match_checked_def
  by (intro traced_then [OF traced_context [OF traced_marker_snapshot]] traced_steps
      frame_rules observed_intros assms) auto

lemma traced_detection_look:
  assumes "frame A E"
  shows "traced A read_live_auth_snapshot_for_detection (\<lambda>c t. A t \<and> Saw LiveAuth c \<in> set t) E"
  unfolding read_live_auth_snapshot_for_detection_def
  by (intro traced_steps frame_rules observed_intros assms) (auto simp: frame_error [OF assms])

definition scan_ok :: "codec \<Rightarrow> live_scan \<Rightarrow> event list \<Rightarrow> bool" where
  "scan_ok cd r t \<longleftrightarrow>
     (case r of
        NoLive \<Rightarrow> Saw LiveAuth None \<in> set t
      | Matched \<Rightarrow> \<exists>l n. Saw LiveAuth (Some l) \<in> set t \<and> tracks cd n l t
      | Unmatched l v \<Rightarrow> Saw LiveAuth (Some l) \<in> set t \<and> cd_parse cd l = Inr v)"

lemma lasting_scan_ok: "lasting (scan_ok cd r)"
  using lastingD [OF lasting_tracks] by (fastforce simp: scan_ok_def lasting_def split: live_scan.splits)

lemma scan_ok_simps [simp]:
  "scan_ok cd NoLive t \<longleftrightarrow> Saw LiveAuth None \<in> set t"
  "scan_ok cd (Unmatched l v) t \<longleftrightarrow> Saw LiveAuth (Some l) \<in> set t \<and> cd_parse cd l = Inr v"
  by (simp_all add: scan_ok_def)

lemma scan_matched:
  "Saw LiveAuth (Some l) \<in> set t \<Longrightarrow> Saw (ProfileAuth n) (Some l) \<in> set t \<Longrightarrow> scan_ok cd Matched t"
  unfolding scan_ok_def using tracks_bytes by fastforce

lemma traced_live_scan:
  assumes "r = NoLive \<Longrightarrow> traced A m1 Q E" "r = Matched \<Longrightarrow> traced A m2 Q E"
    "\<And>l v. r = Unmatched l v \<Longrightarrow> traced A (f l v) Q E"
  shows "traced A (case r of NoLive \<Rightarrow> m1 | Matched \<Rightarrow> m2 | Unmatched l v \<Rightarrow> f l v) Q E"
  using assms by (cases r) auto

lemma traced_scan:
  assumes "frame A E" "\<And>f c t. E f t \<Longrightarrow> E (f\<lparr>fl_chain := c\<rparr>) t"
    and look: "\<And>B. frame B E \<Longrightarrow> traced B look (\<lambda>c t. B t \<and> Saw LiveAuth c \<in> set t) E"
  shows "traced A (scan_live cd look n) (\<lambda>r t. A t \<and> scan_ok cd r t) E"
  using assms(1)
proof (induction n arbitrary: A)
  case 0
  then show ?case by (auto intro!: traced_refuse_text simp: frame_error)
next
  case (Suc n)
  have again: "traced B (scan_live cd look n) (\<lambda>r t. A t \<and> scan_ok cd r t) E"
    if "frame B E" "\<And>t. B t \<Longrightarrow> A t" for B
    by (rule traced_mono [OF Suc.IH [OF that(1)]]) (auto dest: that(2))
  show ?case
    unfolding scan_live.simps
  proof (rule traced_then [OF look [OF Suc.prems]], rule traced_option)
    fix live :: "string option" and l
    assume "live = Some l"
    show "traced (\<lambda>t. A t \<and> Saw LiveAuth live \<in> set t)
      (also_then (lift (with_context ''parsing live auth for change detection'' (cd_parse cd l))) (\<lambda>value.
       also_then (exact_current_profile_match_checked cd l) (\<lambda>m.
         case m of
           Match \<Rightarrow> give Matched
         | Miss \<Rightarrow> give (Unmatched l value)
         | Retry \<Rightarrow> scan_live cd look n))) (\<lambda>r t. A t \<and> scan_ok cd r t) E"
    proof (rule traced_then [OF traced_lifted], intro frame_rules observed_intros Suc.prems, rule traced_assume,
        rule traced_then [OF traced_current_match], intro frame_rules observed_intros Suc.prems, rule assms(2))
      fix v m
      assume "with_context ''parsing live auth for change detection'' (cd_parse cd l) = Inr v"
      with \<open>live = Some l\<close> show "traced
        (\<lambda>t. (A t \<and> Saw LiveAuth live \<in> set t)
           \<and> (m = Match \<longrightarrow> (\<exists>n. Saw (ProfileAuth n) (Some l) \<in> set t)))
        (case m of Match \<Rightarrow> give Matched | Miss \<Rightarrow> give (Unmatched l v) | Retry \<Rightarrow> scan_live cd look n)
        (\<lambda>r t. A t \<and> scan_ok cd r t) E"
        by (cases m) (auto simp: result_eq_Inr intro!: traced_give again frame_rules
            observed_intros Suc.prems intro: scan_matched)
    qed
  qed (auto intro!: traced_give)
qed

lemma lasting_mark:
  assumes "lasting B" "\<And>t. A t \<Longrightarrow> B t" "frame A (\<lambda>_. B)"
  shows "traced A (write_current name) (\<lambda>_. B) (\<lambda>_. B)"
  by (rule traced_write_current [OF assms(3)]) (auto intro: lastingD [OF assms(1)] assms(2))

lemma lasting_repair:
  assumes "lasting B"
  shows "traced B (repair_current_for_exact_live_match cd name) (\<lambda>_. B) (\<lambda>_. B)"
    "traced B (repair_current_for_equivalent_live_match cd name) (\<lambda>_. B) (\<lambda>_. B)"
  unfolding repair_current_for_exact_live_match_def repair_current_for_equivalent_live_match_def
  by (intro traced_with_lease traced_with_transaction traced_then [OF traced_required] lasting_mark
      traced_steps frame_rules observed_intros frameI lasting_observed assms; simp)+

text \<open>What each answer of the detection says.\<close>

definition detected_ok :: "codec \<Rightarrow> auth_change \<Rightarrow> event list \<Rightarrow> bool" where
  "detected_ok cd r t \<longleftrightarrow>
     (if r = NoLiveAuth then Saw LiveAuth None \<in> set t
      else \<exists>l v. Saw LiveAuth (Some l) \<in> set t \<and>
        (case r of
           NoChange \<Rightarrow> \<exists>n. tracks cd n l t
         | TokensUpdated n \<Rightarrow> cd_parse cd l = Inr v \<and> (\<exists>w. saved_value cd n w t \<and> same_account cd w v)
         | UnresolvedIdentity names \<Rightarrow>
             cd_parse cd l = Inr v \<and> names \<noteq> [] \<and>
             (\<forall>n\<in>set names. \<exists>w. saved_value cd n w t
                \<and> incomplete_identity_matches (extract_identity cd v) (extract_identity cd w))
         | UnidentifiedAccount \<Rightarrow>
             cd_parse cd l = Inr v \<and> \<not> complete_identity (extract_identity cd v)
         | NewAccount \<Rightarrow>
             cd_parse cd l = Inr v \<and>
             (\<exists>profiles parsed. saw_profiles profiles t \<and> parse_registry cd profiles = Inr parsed \<and>
                (\<forall>(n, w)\<in>set parsed. \<not> same_account cd w v
                   \<and> \<not> incomplete_identity_matches (extract_identity cd v) (extract_identity cd w)))
         | NoLiveAuth \<Rightarrow> False))"

lemma lasting_detected: "lasting (detected_ok cd r)"
  unfolding detected_ok_def Ball_def
  by (cases r; simp only: auth_change.case auth_change.distinct if_True if_False simp_thms;
      intro lasting_intros)

text \<open>Errors may be anything here; a repair leaves what the trace contains.\<close>

abbreviation finds :: "(event list \<Rightarrow> bool) \<Rightarrow> 'a action \<Rightarrow> ('a \<Rightarrow> event list \<Rightarrow> bool) \<Rightarrow> bool" where
  "finds A m Q \<equiv> traced A m Q (\<lambda>_ _. True)"

lemma frame_finds: "lasting A \<Longrightarrow> frame A (\<lambda>_ _. True)"
  by (intro frameI lasting_observed) auto

lemma finds_repair:
  assumes "lasting B"
  shows "finds B (repair_current_for_exact_live_match cd name) (\<lambda>_. B)"
    "finds B (repair_current_for_equivalent_live_match cd name) (\<lambda>_. B)"
  by (rule traced_mono [OF lasting_repair(1) [OF assms]], simp_all)
    (rule traced_mono [OF lasting_repair(2) [OF assms]], simp_all)

lemma finds_if_repair:
  assumes "lasting B" "\<And>t. A t \<Longrightarrow> B t"
  shows "finds A (if b then repair_current_for_exact_live_match cd name else give ()) (\<lambda>_. B)"
    "finds A (if b then repair_current_for_equivalent_live_match cd name else give ()) (\<lambda>_. B)"
  by (auto intro!: traced_give assms intro: traced_mono [OF finds_repair(1) [OF assms(1)]]
      traced_mono [OF finds_repair(2) [OF assms(1)]])

lemma settle_exact_finds:
  assumes "lasting B" "\<And>t. A t \<Longrightarrow> B t" "frame A (\<lambda>_ _. True)"
  shows "finds A (settle_exact_matches cd names) (\<lambda>r t. r = NoChange \<and> B t)"
proof -
  have look: "finds C (if b then read_current_checked cd else give None) (\<lambda>_. C)"
    if "frame C (\<lambda>_ _. True)" for C b
    by (intro traced_if traced_post [OF traced_marker] traced_give that) auto
  have now: "finds C (if b then give False else also_then (read_current_checked cd) (\<lambda>c. give (c = Some n))) (\<lambda>_. C)"
    if "frame C (\<lambda>_ _. True)" for C b n
    by (intro traced_steps that) auto
  show ?thesis
    unfolding settle_exact_matches_def Let_def
    by (intro traced_then [OF look] traced_then [OF now] traced_then [OF finds_if_repair(1) [OF assms(1)]]
        traced_steps frame_rules observed_intros assms(3)) (auto dest: assms(2))
qed

lemma settle_equivalent_finds:
  assumes "lasting B" "\<And>t. A t \<Longrightarrow> B t" "frame A (\<lambda>_ _. True)"
  shows "finds A (settle_equivalent_matches cd names)
     (\<lambda>r t. if names = [] then r = UnidentifiedAccount \<and> A t else r = NoChange \<and> B t)"
proof (cases names)
  case Nil
  then show ?thesis by (auto simp: settle_equivalent_matches_def intro: traced_give)
next
  case (Cons n ns)
  have one: "finds A (also_then (read_current_checked cd) (\<lambda>current.
      also_then (if current \<noteq> Some n then repair_current_for_equivalent_live_match cd n else give ()) (\<lambda>_.
        give NoChange))) (\<lambda>r t. r = NoChange \<and> B t)"
    by (intro traced_then [OF finds_if_repair(2) [OF assms(1)]] traced_steps assms(3)) (auto dest: assms(2))
  have many: "finds A (also_then (read_current_checked cd) (\<lambda>current.
      if b current then give NoChange else refuse_text m)) (\<lambda>r t. r = NoChange \<and> B t)" for b m
    by (intro traced_steps assms(3)) (auto dest: assms(2))
  show ?thesis
    unfolding Cons settle_equivalent_matches_def using one many by (cases ns) simp_all
qed

lemma settle_identity_finds:
  assumes "lasting A"
    and one: "\<And>n t. n \<in> set (im_exact m) \<Longrightarrow> A t \<Longrightarrow> Q (TokensUpdated n) t"
    and new: "\<And>t. im_exact m = [] \<Longrightarrow> im_incomplete m = [] \<Longrightarrow> A t \<Longrightarrow> Q NewAccount t"
    and unclear: "\<And>t. im_incomplete m \<noteq> [] \<Longrightarrow> A t \<Longrightarrow> Q (UnresolvedIdentity (im_incomplete m)) t"
  shows "finds A (settle_identity_matches cd m) Q"
proof -
  have many: "finds A (also_then (read_current_checked cd) (\<lambda>current.
      case filter_opt (\<lambda>c. c \<in> set names) current of
        Some c \<Rightarrow> give (TokensUpdated c) | None \<Rightarrow> refuse_text e)) Q"
    if "im_exact m = names" for names e
    by (intro traced_steps frame_finds assms(1)) (auto intro: one simp: that)
  show ?thesis
  proof (cases "im_exact m")
    case Nil
    then show ?thesis by (auto simp: settle_identity_matches_def intro!: traced_give new unclear)
  next
    case (Cons n ns)
    show ?thesis
      unfolding settle_identity_matches_def using many [OF Cons] one Cons
      by (cases ns) (auto intro!: traced_give)
  qed
qed

lemma detected_simps:
  "detected_ok cd NoLiveAuth t \<longleftrightarrow> Saw LiveAuth None \<in> set t"
  "detected_ok cd NoChange t \<longleftrightarrow> (\<exists>l n. Saw LiveAuth (Some l) \<in> set t \<and> tracks cd n l t)"
  by (simp_all add: detected_ok_def)

lemma detected_no_change: "Saw LiveAuth (Some l) \<in> set t \<Longrightarrow> tracks cd n l t \<Longrightarrow> detected_ok cd NoChange t"
  unfolding detected_simps by blast

text \<open>The comparison of an unmatched credential with all saved ones.\<close>

definition compared :: "codec \<Rightarrow> string \<Rightarrow> json \<Rightarrow> registry_snapshot \<Rightarrow> event list \<Rightarrow> bool" where
  "compared cd l v profiles t \<longleftrightarrow>
     Saw LiveAuth (Some l) \<in> set t \<and> cd_parse cd l = Inr v \<and> saw_profiles profiles t"

lemma lasting_compared: "lasting (compared cd l v profiles)"
  unfolding compared_def by (intro lasting_intros)

lemma compared_exact:
  "compared cd l v profiles t \<Longrightarrow> exact_matches profiles l \<noteq> [] \<Longrightarrow> detected_ok cd NoChange t"
  unfolding compared_def
  by (elim conjE, erule detected_no_change, rule tracks_bytes, erule saw_profiles_exact, rule hd_in_set)

lemma compared_equivalent:
  assumes "compared cd l v profiles t" "parse_registry cd profiles = Inr parsed"
    "equivalent_matches parsed v \<noteq> []"
  shows "detected_ok cd NoChange t"
proof -
  obtain n where "(n, v) \<in> set parsed"
    using assms(3) in_equivalent_matches [of _ parsed v] by (metis list.set_intros(1) neq_Nil_conv)
  with assms(1,2) show ?thesis
    by (auto simp: compared_def intro!: detected_no_change tracks_value dest: saw_profiles_value)
qed

lemma compared_unidentified:
  "compared cd l v profiles t \<Longrightarrow> id_email (extract_identity cd v) = None \<Longrightarrow>
     detected_ok cd UnidentifiedAccount t"
  unfolding compared_def detected_ok_def complete_identity_def by auto

lemma compared_identities:
  assumes "compared cd l v profiles t" "parse_registry cd profiles = Inr parsed"
  defines "m \<equiv> collect_identity_matches cd (extract_identity cd v) parsed"
  shows "n \<in> set (im_exact m) \<Longrightarrow> detected_ok cd (TokensUpdated n) t"
    and "im_incomplete m \<noteq> [] \<Longrightarrow> detected_ok cd (UnresolvedIdentity (im_incomplete m)) t"
    and "im_exact m = [] \<Longrightarrow> im_incomplete m = [] \<Longrightarrow> detected_ok cd NewAccount t"
proof -
  have seen: "Saw LiveAuth (Some l) \<in> set t" "cd_parse cd l = Inr v" "saw_profiles profiles t"
    using assms(1) by (auto simp: compared_def)
  note saved = saw_profiles_value [OF seen(3) assms(2)]
  show "n \<in> set (im_exact m) \<Longrightarrow> detected_ok cd (TokensUpdated n) t"
    unfolding detected_ok_def m_def exact_identity_member using seen saved by auto blast
  have "\<forall>n\<in>set (im_incomplete m). \<exists>w. saved_value cd n w t
      \<and> incomplete_identity_matches (extract_identity cd v) (extract_identity cd w)"
    using saved by (fastforce simp: m_def collect_identity_matches_eq)
  then show "im_incomplete m \<noteq> [] \<Longrightarrow> detected_ok cd (UnresolvedIdentity (im_incomplete m)) t"
    using seen by (auto simp: detected_ok_def)
  have "\<not> same_account cd w v \<and> \<not> incomplete_identity_matches (extract_identity cd v) (extract_identity cd w)"
    if "im_exact m = []" "im_incomplete m = []" "(n, w) \<in> set parsed" for n w
    using that by (force simp: m_def collect_identity_matches_eq filter_empty_conv same_account_exact
        same_account_sym [of cd w])
  then show "im_exact m = [] \<Longrightarrow> im_incomplete m = [] \<Longrightarrow> detected_ok cd NewAccount t"
    unfolding detected_ok_def using seen assms(2) by fastforce
qed

lemma detect_finds: "finds (\<lambda>_. True) (detect_auth_change cd) (detected_ok cd)"
proof -
  have registry: "finds A (in_context c registry_snapshot) (\<lambda>profiles t. A t \<and> saw_profiles profiles t)"
    if "frame A (\<lambda>_ _. True)" for A c
    by (rule traced_context [OF traced_registry [OF that]]) simp
  have settle: "finds (compared cd l v profiles)
     (let matches = exact_matches profiles l in
      if matches \<noteq> [] then settle_exact_matches cd matches
      else let i = extract_identity cd v in
        also_then (lift (parse_registry cd profiles)) (\<lambda>parsed.
          if id_email i = None \<and> id_account i = None
          then settle_equivalent_matches cd (equivalent_matches parsed v)
          else settle_identity_matches cd (collect_identity_matches cd i parsed))) (detected_ok cd)"
    for l v profiles
  proof -
    note f = frame_finds [OF lasting_compared [of cd l v profiles]]
    have exact: "finds (compared cd l v profiles) (settle_exact_matches cd names) (detected_ok cd)"
      if "exact_matches profiles l \<noteq> []" for names
      by (rule traced_mono [OF settle_exact_finds [OF lasting_detected [of cd NoChange] _ f]])
        (auto intro: compared_exact [OF _ that])
    have equal: "finds (compared cd l v profiles) (settle_equivalent_matches cd (equivalent_matches parsed v)) (detected_ok cd)"
      if "parse_registry cd profiles = Inr parsed" "id_email (extract_identity cd v) = None" for parsed
    proof (cases "equivalent_matches parsed v = []")
      case True
      with that(2) show ?thesis
        by (auto simp: settle_equivalent_matches_def intro!: traced_give compared_unidentified)
    next
      case False
      show ?thesis
        by (rule traced_mono [OF settle_equivalent_finds [OF lasting_detected [of cd NoChange] _ f]])
          (auto simp: False intro: compared_equivalent [OF _ that(1) False])
    qed
    show ?thesis
      unfolding Let_def
      by (intro traced_if exact traced_then [OF traced_lifted [OF f]] traced_assume equal
          settle_identity_finds lasting_compared) (auto intro: compared_identities)
  qed
  show ?thesis
    unfolding detect_auth_change_def
  proof (intro traced_then [OF traced_live_path] traced_then [OF traced_scan] traced_detection_look)
    fix scan
    show "finds (\<lambda>t. True \<and> scan_ok cd scan t)
      (case scan of
         NoLive \<Rightarrow> give NoLiveAuth
       | Matched \<Rightarrow> give NoChange
       | Unmatched l v \<Rightarrow>
           also_then (in_context ''comparing live auth bytes with saved profiles'' registry_snapshot)
             (\<lambda>profiles.
             let matches = exact_matches profiles l in
             if matches \<noteq> [] then settle_exact_matches cd matches
             else let i = extract_identity cd v in
               also_then (lift (parse_registry cd profiles)) (\<lambda>parsed.
                 if id_email i = None \<and> id_account i = None
                 then settle_equivalent_matches cd (equivalent_matches parsed v)
                 else settle_identity_matches cd (collect_identity_matches cd i parsed)))) (detected_ok cd)"
    proof (cases scan)
      case (Unmatched l v)
      have "frame (\<lambda>t. Saw LiveAuth (Some l) \<in> set t \<and> cd_parse cd l = Inr v) (\<lambda>_ _. True)"
        by (intro frame_finds lasting_intros)
      from traced_then [OF registry [OF this] traced_mono [OF settle]] show ?thesis
        unfolding Unmatched live_scan.case
        by (rule traced_mono) (auto simp: compared_def)
    next
      case Matched
      show ?thesis
        unfolding Matched live_scan.case
        by (rule traced_give) (auto simp: scan_ok_def intro: detected_no_change)
    qed (auto intro!: traced_give simp: detected_simps)
  qed (auto intro: frame_finds simp: lasting_def)
qed

section \<open>The marker and the trace of these operations\<close>

lemma consistent_if_repair:
  assumes "\<And>t. A t \<Longrightarrow> consistent_history cd t"
  shows "traced A (if b then repair_current_for_exact_live_match cd name else give ())
      (\<lambda>_. consistent_history cd) (\<lambda>_. consistent_history cd)"
    "traced A (if b then repair_current_for_equivalent_live_match cd name else give ())
      (\<lambda>_. consistent_history cd) (\<lambda>_. consistent_history cd)"
  by (auto intro!: traced_give assms intro: traced_mono [OF consistent_repair_exact assms]
      traced_mono [OF consistent_repair_equivalent assms])

lemma consistent_settle_exact: "keeps cd (settle_exact_matches cd names)"
proof -
  have look: "traced A (if b then read_current_checked cd else give None) (\<lambda>_. A) (\<lambda>_. A)"
    if "frame A (\<lambda>_. A)" for A b
    by (intro traced_if traced_post [OF traced_marker] traced_give that) auto
  have now: "traced A (if b then give False else also_then (read_current_checked cd) (\<lambda>c. give (c = Some n)))
      (\<lambda>_. A) (\<lambda>_. A)" if "frame A (\<lambda>_. A)" for A b n
    by (intro traced_steps that) auto
  show ?thesis
    unfolding settle_exact_matches_def Let_def
    by (intro traced_then [OF look] traced_then [OF now] traced_then [OF consistent_if_repair(1)]
        traced_steps traced_assume frame_consistent) auto
qed

lemma consistent_settle_equivalent: "keeps cd (settle_equivalent_matches cd names)"
proof -
  have one: "keeps cd (also_then (read_current_checked cd) (\<lambda>current.
      also_then (if current \<noteq> Some n then repair_current_for_equivalent_live_match cd n else give ()) (\<lambda>_.
        give NoChange)))" for n
    by (intro traced_then [OF traced_marker] traced_then [OF consistent_if_repair(2)]
        traced_steps frame_consistent) auto
  have many: "keeps cd (also_then (read_current_checked cd) (\<lambda>current.
      if b current then give NoChange else refuse_text m))" for b m
    by (intro traced_steps frame_consistent) auto
  show ?thesis
    unfolding settle_equivalent_matches_def using one many
    by (cases names; cases "tl names") (auto intro: traced_give)
qed

lemma consistent_settle_identity: "keeps cd (settle_identity_matches cd m)"
proof -
  have many: "keeps cd (also_then (read_current_checked cd) (\<lambda>current.
      case filter_opt f current of Some c \<Rightarrow> give (TokensUpdated c) | None \<Rightarrow> refuse_text e))" for f e
    by (intro traced_steps frame_consistent) auto
  then show ?thesis
    unfolding settle_identity_matches_def
    by (cases "im_exact m"; cases "tl (im_exact m)") (auto intro: traced_give)
qed

lemma consistent_detect [traced_intros]: "keeps cd (detect_auth_change cd)"
  unfolding detect_auth_change_def Let_def
  by (intro traced_then [OF traced_scan] traced_detection_look traced_then [OF traced_context [OF traced_registry]]
      traced_mono [OF consistent_settle_exact] traced_mono [OF consistent_settle_equivalent]
      traced_mono [OF consistent_settle_identity] traced_live_scan traced_steps frame_rules observed_intros
      frame_consistent lasting_scan_ok [THEN lasting_observed]) auto

lemma truthful_active [truthful_intros]:
  "truthful (active_profile_from_registry_snapshot cd profiles parsed)"
  "truthful (active_profile_from_live_with_registry_snapshot cd)" "truthful (active_profile_from_live cd)"
  unfolding active_profile_from_registry_snapshot_def exact_active_profile_from_registry_snapshot_def
    non_exact_active_profile_from_registry_snapshot_def bind_matches_def active_profile_from_live_def
    active_profile_from_live_with_registry_snapshot_def Let_def
  by (intro truthful_intros)+

lemma truthful_confirm_current [truthful_intros]: "truthful (confirm_current cd name)"
  unfolding confirm_current_def by (intro truthful_intros)

lemma truthful_hint [truthful_intros]: "truthful (exact_current_profile_hint cd)"
  unfolding exact_current_profile_hint_def by (intro truthful_intros)

lemma truthful_attempts [truthful_intros]: "truthful (sync_attempts cd n)"
  by (induction n) (auto intro!: truthful_intros)

lemma truthful_sync [truthful_intros]:
  "truthful (sync_current_from_live_with_registry cd)" "truthful (sync_current_from_live cd)"
  unfolding sync_current_from_live_with_registry_def sync_current_from_live_def by (intro truthful_intros)+

lemma truthful_repairs [truthful_intros]:
  "truthful (repair_current_for_exact_live_match cd name)"
  "truthful (repair_current_for_equivalent_live_match cd name)"
  unfolding repair_current_for_exact_live_match_def repair_current_for_equivalent_live_match_def
    required_bytes_def
  by (intro truthful_intros)+

lemma truthful_scan_cases [truthful_intros]:
  "truthful m1 \<Longrightarrow> truthful m2 \<Longrightarrow> (\<And>l v. truthful (f l v)) \<Longrightarrow>
     truthful (case r of NoLive \<Rightarrow> m1 | Matched \<Rightarrow> m2 | Unmatched l v \<Rightarrow> f l v)"
  "truthful m1 \<Longrightarrow> truthful m2 \<Longrightarrow> truthful m3 \<Longrightarrow>
     truthful (case m of Match \<Rightarrow> m1 | Miss \<Rightarrow> m2 | Retry \<Rightarrow> m3)"
  by (cases r; cases m; simp)+

lemma truthful_current_match [truthful_intros]: "truthful (exact_current_profile_match_checked cd l)"
  unfolding exact_current_profile_match_checked_def by (intro truthful_intros)

lemma truthful_scan: "truthful look \<Longrightarrow> truthful (scan_live cd look n)"
  by (induction n) (auto intro!: truthful_intros)

lemma truthful_settle [truthful_intros]:
  "truthful (settle_exact_matches cd names)" "truthful (settle_equivalent_matches cd names)"
  "truthful (settle_identity_matches cd m)"
  unfolding settle_exact_matches_def settle_equivalent_matches_def settle_identity_matches_def Let_def
  by (auto intro!: truthful_intros split: list.splits)

lemma truthful_detect [truthful_intros]: "truthful (detect_auth_change cd)"
  unfolding detect_auth_change_def read_live_auth_snapshot_for_detection_def Let_def
  by (intro truthful_intros truthful_scan)

end
