(* ===== verification/Profile_Effects.thy ===== *)
theory Profile_Effects
  imports Profile_History
begin

text \<open>
  What actions do to the files, as pre- and postconditions on the store. An assertion that the
  environment, the trace, the marker and the live credential cannot falsify is settled: under the
  transaction, these are the assertions about the saved credentials; at any time, those about the
  recovery files. An action is modest when it keeps every settled assertion.
\<close>

section \<open>Pre- and postconditions\<close>

text \<open>
  \<open>run P m Q E\<close>: from a store in \<open>P\<close>, the action ends with a result and a store in \<open>Q\<close>, or with an
  error and a store in \<open>E\<close>.
\<close>

definition run :: "(store \<Rightarrow> bool) \<Rightarrow> 'a action \<Rightarrow> ('a \<Rightarrow> store \<Rightarrow> bool) \<Rightarrow> (store \<Rightarrow> bool) \<Rightarrow> bool" where
  "run P m Q E \<longleftrightarrow>
     (\<forall>s. P s \<longrightarrow> (case fst (m s) of Inr x \<Rightarrow> Q x (snd (m s)) | Inl _ \<Rightarrow> E (snd (m s))))"

definition settled :: "(store \<Rightarrow> bool) \<Rightarrow> bool" where
  "settled P \<longleftrightarrow>
     (\<forall>s. P s \<longrightarrow> (\<forall>c. P (foreign_turn c s)) \<and> (\<forall>r. P (s\<lparr>st_script := r\<rparr>)) \<and> (\<forall>e. P (record_event e s))
        \<and> (\<forall>b. P (s\<lparr>st_marker := b\<rparr>)))"

named_theorems run_intros "what actions do to the store, by their structure"

lemma settledD:
  "settled P \<Longrightarrow> P s \<Longrightarrow> P (foreign_turn c s)" "settled P \<Longrightarrow> P s \<Longrightarrow> P (s\<lparr>st_script := r\<rparr>)"
  "settled P \<Longrightarrow> P s \<Longrightarrow> P (record_event e s)" "settled P \<Longrightarrow> P s \<Longrightarrow> P (s\<lparr>st_marker := b\<rparr>)"
  by (auto simp: settled_def)

lemma settled_live: "settled P \<Longrightarrow> P s \<Longrightarrow> P (s\<lparr>st_live := b\<rparr>)"
  using settledD(1) [of P s "ForeignLive b"] by (simp add: foreign_turn_def)

lemma settled_conj: "settled P \<Longrightarrow> settled Q \<Longrightarrow> settled (\<lambda>s. P s \<and> Q s)"
  by (auto simp: settled_def)

lemma settled_const: "settled (\<lambda>s. b)"
  by (auto simp: settled_def)

lemma settled_turns: "settled P \<Longrightarrow> P s \<Longrightarrow> P (fold foreign_turn cs s)"
  by (induction cs arbitrary: s) (simp_all add: settledD)

lemma runI:
  assumes "\<And>s x s'. P s \<Longrightarrow> m s = (Inr x, s') \<Longrightarrow> Q x s'" "\<And>s e s'. P s \<Longrightarrow> m s = (Inl e, s') \<Longrightarrow> E s'"
  shows "run P m Q E"
  unfolding run_def
proof (intro allI impI)
  fix s :: store
  assume "P s"
  with assms show "case fst (m s) of Inl _ \<Rightarrow> E (snd (m s)) | Inr x \<Rightarrow> Q x (snd (m s))"
    by (cases "m s"; cases "fst (m s)") auto
qed

lemma runD:
  "run P m Q E \<Longrightarrow> P s \<Longrightarrow> m s = (Inr x, s') \<Longrightarrow> Q x s'"
  "run P m Q E \<Longrightarrow> P s \<Longrightarrow> m s = (Inl e, s') \<Longrightarrow> E s'"
  by (auto simp: run_def dest!: spec [of _ s])

lemma run_mono:
  assumes "run P m Q E" "\<And>s. R s \<Longrightarrow> P s" "\<And>x s. Q x s \<Longrightarrow> S x s" "\<And>s. E s \<Longrightarrow> F s"
  shows "run R m S F"
  by (rule runI) (blast intro: assms(2-) runD(1) [OF assms(1)] runD(2) [OF assms(1)])+

lemma run_then:
  assumes "run P m R E" "\<And>x. run (R x) (f x) Q E"
  shows "run P (also_then m f) Q E"
proof (rule runI)
  fix s x s'
  assume "P s" "also_then m f s = (Inr x, s')"
  then show "Q x s'"
    by (auto simp: also_then_def split: prod.splits sum.splits
        intro: runD(1) [OF assms(2)] dest: runD [OF assms(1)])
next
  fix s e s'
  assume "P s" "also_then m f s = (Inl e, s')"
  then show "E s'"
    by (auto simp: also_then_def split: prod.splits sum.splits
        intro: runD(2) [OF assms(2)] dest: runD [OF assms(1)])
qed

lemma run_assume: "(b \<Longrightarrow> run P m Q E) \<Longrightarrow> run (\<lambda>s. P s \<and> b) m Q E"
  by (auto simp: run_def)

lemma run_tried:
  assumes "run P m (\<lambda>x. Q (Inr x)) E" "\<And>e s. E s \<Longrightarrow> Q (Inl e) s"
  shows "run P (tried m) Q F"
proof (rule runI)
  fix s x s'
  assume "P s" "tried m s = (Inr x, s')"
  then have "P s" "m s = (x, s')" by (simp_all add: tried_def split: prod.splits)
  then show "Q x s'" by (cases x) (auto intro: assms(2) dest: runD [OF assms(1)])
qed (simp add: tried_def split: prod.splits)

lemma run_give [run_intros]: "(\<And>s. P s \<Longrightarrow> Q x s) \<Longrightarrow> run P (give x) Q E"
  by (simp add: run_def give_def)

lemma run_refuse [run_intros]:
  "(\<And>s. P s \<Longrightarrow> E s) \<Longrightarrow> run P (refuse f) Q E" "(\<And>s. P s \<Longrightarrow> E s) \<Longrightarrow> run P (refuse_text m) Q E"
  by (simp_all add: run_def refuse_def refuse_text_def)

lemma run_lift [run_intros]:
  "(\<And>x s. r = Inr x \<Longrightarrow> P s \<Longrightarrow> Q x s) \<Longrightarrow> (\<And>s. P s \<Longrightarrow> E s) \<Longrightarrow> run P (lift r) Q E"
  by (cases r) (simp_all add: lift_def run_intros)

lemma run_if [run_intros]:
  "(b \<Longrightarrow> run P m Q E) \<Longrightarrow> (\<not> b \<Longrightarrow> run P n Q E) \<Longrightarrow> run P (if b then m else n) Q E"
  by simp

lemma run_option [run_intros]:
  "(x = None \<Longrightarrow> run P m Q E) \<Longrightarrow> (\<And>y. x = Some y \<Longrightarrow> run P (f y) Q E) \<Longrightarrow>
     run P (case x of None \<Rightarrow> m | Some y \<Rightarrow> f y) Q E"
  by (cases x) auto

lemma run_sum [run_intros]:
  "(\<And>y. x = Inl y \<Longrightarrow> run P (f y) Q E) \<Longrightarrow> (\<And>y. x = Inr y \<Longrightarrow> run P (g y) Q E) \<Longrightarrow>
     run P (case x of Inl y \<Rightarrow> f y | Inr y \<Rightarrow> g y) Q E"
  by (cases x) auto

lemma run_prod [run_intros]:
  "(\<And>a b. x = (a, b) \<Longrightarrow> run P (f a b) Q E) \<Longrightarrow> run P (case x of (a, b) \<Rightarrow> f a b) Q E"
  by (cases x) auto

lemma run_context: "run P m Q E \<Longrightarrow> run P (in_context c m) Q E"
  by (auto intro!: runI simp: in_context_def map_err_def split: prod.splits sum.splits dest: runD)

section \<open>Accesses\<close>

lemma run_access:
  assumes "settled P" "\<And>reply s. P s \<Longrightarrow>
      (case fst (f reply s) of Inr x \<Rightarrow> Q x (snd (f reply s)) | Inl _ \<Rightarrow> E (snd (f reply s)))"
  shows "run P (access f) Q E"
  unfolding run_def access_def
  by (auto split: list.splits intro!: assms(2) settled_turns [OF assms(1)] settledD [OF assms(1)])

lemma run_observe:
  assumes "settled P" "\<And>s. P s \<Longrightarrow> E s" "\<And>e s. g (record_event e s) = g s"
  shows "run P (observe c g ev) (\<lambda>x s. P s \<and> x = g s) E"
  unfolding observe_def
  by (rule run_access [OF assms(1)]) (auto simp: assms(2,3) settledD [OF assms(1)] split: reply.splits)

text \<open>Most accesses leave a settled assertion as it is.\<close>

lemma content_record [simp]: "content p (record_event e s) = content p s"
  by (simp add: content_def record_event_def split: path.splits)

lemma run_snapshot:
  "settled P \<Longrightarrow> (\<And>s. P s \<Longrightarrow> E s) \<Longrightarrow> run P (snapshot_optional_file p) (\<lambda>x s. P s \<and> x = content p s) E"
  unfolding snapshot_optional_file_def by (rule run_observe) simp_all

lemma run_exists:
  assumes "settled P" "\<And>s. P s \<Longrightarrow> E s"
  shows "run P (path_exists_checked p) (\<lambda>b s. P s \<and> b = (content p s \<noteq> None)) E"
  unfolding path_exists_checked_def by (rule run_observe) (use assms in simp_all)

lemma run_directory:
  "settled P \<Longrightarrow> (\<And>s. P s \<Longrightarrow> E s) \<Longrightarrow>
     run P (directory_exists name) (\<lambda>b s. P s \<and> b = (name \<in> set (st_names s))) E"
  unfolding directory_exists_def by (rule run_observe) (simp_all add: record_event_def)

lemma run_policy: "settled P \<Longrightarrow> (\<And>s. P s \<Longrightarrow> E s) \<Longrightarrow> run P load_policy (\<lambda>_. P) E"
  unfolding load_policy_def
  by (rule run_access) (auto simp: lift_def give_def refuse_def split: reply.splits sum.splits)

lemma run_managed:
  assumes "settled P" "\<And>s. P s \<Longrightarrow> E s"
  shows "run P (validate_managed cd v) (\<lambda>_. P) E" "run P codex_auth_path (\<lambda>_. P) E"
  unfolding validate_managed_def codex_auth_path_def
  by (intro run_then [OF run_policy [OF assms]] run_intros; simp add: assms(2))+

lemma run_path:
  assumes "\<And>s. P s \<Longrightarrow> E s" "alias_ok name \<Longrightarrow> run P (f (ProfileAuth name)) Q E"
  shows "run P (also_then (profile_path name) f) Q E"
proof -
  have "run P (profile_path name) (\<lambda>p s. P s \<and> (p = ProfileAuth name \<and> alias_ok name)) E"
    unfolding profile_path_def by (rule run_then [where R = "\<lambda>_ s. P s \<and> alias_ok name"])
      (auto intro!: run_intros assms(1))
  then show ?thesis by (rule run_then) (auto intro!: run_assume assms(2))
qed

lemma run_named:
  assumes "\<And>s. P s \<Longrightarrow> E s"
  shows "run P (lift (validate_alias name)) (\<lambda>_. P) E"
  by (intro run_intros assms)

lemma run_parent:
  assumes "settled P" "\<And>s. P s \<Longrightarrow> E s" "\<And>s ns. P s \<Longrightarrow> P (s\<lparr>st_names := ns\<rparr>)"
  shows "run P (ensure_profile_parent name) (\<lambda>_. P) E"
  unfolding ensure_profile_parent_def by (rule run_access) (auto simp: assms split: reply.splits)

lemma run_durable:
  "(\<And>s. P s \<Longrightarrow> Q () s) \<Longrightarrow> (\<And>s. P s \<Longrightarrow> E s) \<Longrightarrow> run P (require_durable_private_write d r) Q E"
  unfolding require_durable_private_write_def by (auto intro!: run_intros)

lemma run_private_write:
  assumes "settled P" "\<And>s. P s \<Longrightarrow> E s" "\<And>s. P s \<Longrightarrow> Q (record_event (ev s) (f s))"
  shows "run P (private_write c ev f) (\<lambda>_. Q) E"
  unfolding private_write_def by (rule run_access) (auto simp: assms split: reply.splits)

text \<open>The store after the credential of a profile was written.\<close>

definition wrote_auth :: "codec \<Rightarrow> string \<Rightarrow> json \<Rightarrow> store \<Rightarrow> store" where
  "wrote_auth cd name v s =
     record_event (WroteProfile name (st_auth s name) (cd_print cd v))
       (s\<lparr>st_auth := (st_auth s)(name \<mapsto> cd_print cd v), st_names := add_name name (st_names s)\<rparr>)"

lemma run_write_auth:
  "settled P \<Longrightarrow> (\<And>s. P s \<Longrightarrow> E s) \<Longrightarrow> (\<And>s. P s \<Longrightarrow> Q (wrote_auth cd name v s)) \<Longrightarrow>
     run P (write_auth cd name v) (\<lambda>_. Q) E"
  unfolding write_auth_def by (rule run_private_write) (simp_all add: wrote_auth_def)

lemma run_write_durably:
  assumes "settled P" "\<And>s. P s \<Longrightarrow> E s" "\<And>s. P s \<Longrightarrow> Q () (wrote_auth cd name v s) \<and> E (wrote_auth cd name v s)"
  shows "run P (write_profile_auth_durably cd name v) Q E"
  unfolding write_profile_auth_durably_def
  by (rule run_then [OF run_write_auth [where Q = "\<lambda>s. Q () s \<and> E s"]])
    (use assms in \<open>auto intro!: run_context run_durable\<close>)

text \<open>What was read of a credential.\<close>

definition parsed_as :: "codec \<Rightarrow> string option \<Rightarrow> json option \<Rightarrow> bool" where
  "parsed_as cd c v \<longleftrightarrow>
     (case v of None \<Rightarrow> c = None | Some w \<Rightarrow> \<exists>b. c = Some b \<and> cd_parse cd b = Inr w)"

lemma run_read_auth:
  assumes "settled P" "\<And>s. P s \<Longrightarrow> E s"
  shows "run P (read_auth cd p) (\<lambda>v s. P s \<and> parsed_as cd (content p s) (Some v)) E"
  unfolding read_auth_def
  by (intro run_then [OF run_snapshot [OF assms]] run_intros)
    (auto simp: parsed_as_def assms(2) dest: parse_auth_Inr)

lemma run_read_existing:
  assumes "settled P" "\<And>s. P s \<Longrightarrow> E s" and fixed: "\<And>s. P s \<Longrightarrow> content p s = c"
  shows "run P (read_existing_auth cd p) (\<lambda>v s. P s \<and> parsed_as cd c v) E"
proof -
  have read: "run P (also_then (read_auth cd p) (\<lambda>v. give (Some v))) (\<lambda>v s. P s \<and> parsed_as cd c v) E"
    by (rule run_then [OF run_read_auth [OF assms(1,2)]]) (auto intro!: run_give simp: fixed)
  show ?thesis
    unfolding read_existing_auth_def
    by (rule run_then [OF run_exists [OF assms(1,2)]])
      (auto intro!: run_if run_mono [OF read] run_give simp: parsed_as_def fixed)
qed

section \<open>Settled assertions\<close>

definition saved_are :: "(string \<Rightarrow> string option) \<Rightarrow> store \<Rightarrow> bool" where
  "saved_are c s \<longleftrightarrow> st_locked s \<and> st_auth s = c"

lemma settled_saved: "settled (saved_are c)"
  by (auto simp: settled_def saved_are_def record_event_def)

lemma saved_are_simps [simp]:
  "saved_are c (s\<lparr>st_names := ns\<rparr>) \<longleftrightarrow> saved_are c s"
  "saved_are c s \<Longrightarrow> content (ProfileAuth name) s = c name"
  "saved_are c s \<Longrightarrow> saved_are (c(name \<mapsto> cd_print cd v)) (wrote_auth cd name v s)"
  by (auto simp: saved_are_def wrote_auth_def record_event_def content_def)

section \<open>Actions that leave saved credentials and recovery files alone\<close>

definition modest :: "'a action \<Rightarrow> bool" where
  "modest m \<longleftrightarrow> (\<forall>P. settled P \<longrightarrow> run P m (\<lambda>_. P) P)"

named_theorems modest_intros "actions that leave saved credentials and recovery files alone"

lemma modestD: "modest m \<Longrightarrow> settled P \<Longrightarrow> run P m (\<lambda>_. P) P"
  by (simp add: modest_def)

lemma run_modest: "modest m \<Longrightarrow> settled P \<Longrightarrow> (\<And>s. P s \<Longrightarrow> E s) \<Longrightarrow> run P m (\<lambda>_. P) E"
  by (rule run_mono [OF modestD])

lemma modest_then [modest_intros]: "modest m \<Longrightarrow> (\<And>x. modest (f x)) \<Longrightarrow> modest (also_then m f)"
  unfolding modest_def by (intro allI impI run_then [where R = "\<lambda>_. _"]) auto

lemma modest_give [modest_intros]: "modest (give x)" "modest (refuse f)" "modest (refuse_text e)"
  unfolding modest_def by (auto intro: run_intros)

lemma modest_lift [modest_intros]: "modest (lift r)"
  unfolding modest_def by (auto intro: run_intros)

lemma modest_tried [modest_intros]: "modest m \<Longrightarrow> modest (tried m)"
  unfolding modest_def by (auto intro: run_tried)

lemma modest_context [modest_intros]: "modest m \<Longrightarrow> modest (in_context c m)"
  unfolding modest_def by (auto intro: run_context)

lemma modest_cases [modest_intros]:
  "modest m \<Longrightarrow> modest n \<Longrightarrow> modest (if b then m else n)"
  "modest m \<Longrightarrow> (\<And>y. modest (f y)) \<Longrightarrow> modest (case x of None \<Rightarrow> m | Some y \<Rightarrow> f y)"
  "(\<And>y. modest (g y)) \<Longrightarrow> (\<And>y. modest (h y)) \<Longrightarrow> modest (case z of Inl y \<Rightarrow> g y | Inr y \<Rightarrow> h y)"
  "(\<And>a b. modest (k a b)) \<Longrightarrow> modest (case w of (a, b) \<Rightarrow> k a b)"
  by (cases b; cases x; cases z; cases w; simp)+

lemma modest_conditional_write [modest_intros]:
  assumes "modest m1" "modest m2" "\<And>d. modest (m3 d)" "\<And>d. modest (m4 d)" "\<And>d. modest (m5 d)"
  shows "modest (case w of Written \<Rightarrow> m1 | Changed \<Rightarrow> m2 | WrittenRecoveryRequired d \<Rightarrow> m3 d
     | NotWrittenRecoveryRequired d \<Rightarrow> m4 d | UnclearRecoveryRequired d \<Rightarrow> m5 d)"
  using assms by (cases w) auto

lemma modest_access:
  assumes "\<And>P reply s. settled P \<Longrightarrow> P s \<Longrightarrow> P (snd (f reply s))"
  shows "modest (access f)"
  unfolding modest_def
  by (intro allI impI run_access) (auto split: sum.split intro: assms)

lemma modest_observe [modest_intros]: "modest (observe c g ev)"
  unfolding observe_def by (rule modest_access) (auto split: reply.splits intro: settledD)

lemma modest_observations [modest_intros]:
  "modest (snapshot_optional_file p)" "modest (path_exists_checked p)" "modest (directory_exists name)"
  "modest load_policy"
  unfolding snapshot_optional_file_def path_exists_checked_def directory_exists_def load_policy_def
  by (intro modest_intros modest_access; auto simp: lift_def give_def refuse_def split: reply.splits sum.splits)+

lemma modest_reads [modest_intros]:
  "modest codex_auth_path" "modest (validate_managed cd v)" "modest (read_auth cd p)"
  "modest (read_existing_auth cd p)" "modest (profile_path name)"
  "modest (read_current_marker_snapshot_checked cd)" "modest (read_current_checked cd)"
  unfolding codex_auth_path_def validate_managed_def read_auth_def read_existing_auth_def profile_path_def
    read_current_checked_def read_current_marker_snapshot_checked_def
  by (intro modest_intros)+

lemma modest_list [modest_intros]: "modest list_profiles"
  unfolding list_profiles_def by (intro modest_intros)

lemma modest_aliases [modest_intros]: "modest (snapshot_aliases names)"
  by (induction names) (auto intro!: modest_intros)

lemma modest_registry [modest_intros]: "modest registry_snapshot"
  unfolding registry_snapshot_def by (intro modest_intros)

lemma modest_private_write:
  "(\<And>P s. settled P \<Longrightarrow> P s \<Longrightarrow> P (f s)) \<Longrightarrow> modest (private_write c ev f)"
  unfolding private_write_def by (rule modest_access) (auto split: reply.splits intro: settledD)

lemma modest_durable [modest_intros]: "modest (require_durable_private_write d r)"
  unfolding require_durable_private_write_def by (intro modest_intros)

lemma modest_writes [modest_intros]:
  "modest (write_current name)" "modest clear_current" "modest cache_call" "modest (publish_live expected new)"
  unfolding write_current_def write_marker_bytes_def clear_current_def cache_call_def publish_live_def Let_def
  by (intro modest_intros modest_private_write modest_access;
      auto intro: settledD settled_live split: reply.splits)+

section \<open>Actions that cannot fail\<close>

definition sure :: "'a action \<Rightarrow> bool" where
  "sure m \<longleftrightarrow> (\<forall>s. is_ok (fst (m s)))"

named_theorems sure_intros "actions that cannot fail"

lemma sure_then [sure_intros]: "sure m \<Longrightarrow> (\<And>x. sure (f x)) \<Longrightarrow> sure (also_then m f)"
  unfolding sure_def also_then_def
  by (auto simp: is_ok_iff split: prod.split sum.split) (metis Inl_Inr_False fst_conv)

lemma sure_basic [sure_intros]: "sure (give x)" "sure (tried m)"
  by (simp_all add: sure_def give_def tried_def split: prod.split)

lemma sure_cases [sure_intros]:
  "sure m \<Longrightarrow> sure n \<Longrightarrow> sure (if b then m else n)"
  "sure m \<Longrightarrow> (\<And>y. sure (f y)) \<Longrightarrow> sure (case x of None \<Rightarrow> m | Some y \<Rightarrow> f y)"
  "(\<And>y. sure (g y)) \<Longrightarrow> (\<And>y. sure (h y)) \<Longrightarrow> sure (case z of Inl y \<Rightarrow> g y | Inr y \<Rightarrow> h y)"
  "(\<And>a b. sure (k a b)) \<Longrightarrow> sure (case w of (a, b) \<Rightarrow> k a b)"
  by (cases b; cases x; cases z; cases w; simp)+

lemma sure_access: "(\<And>reply s. is_ok (fst (f reply s))) \<Longrightarrow> sure (access f)"
  unfolding sure_def access_def by (auto split: list.split)

lemma run_sure: "sure m \<Longrightarrow> run P m Q E \<Longrightarrow> run P m Q F"
  unfolding sure_def run_def by (fastforce simp: is_ok_iff split: sum.splits)

section \<open>The transaction\<close>

lemma run_transaction:
  assumes "settled P" "\<And>s. P s \<Longrightarrow> E s"
    and "\<And>s. P s \<Longrightarrow> P (s\<lparr>st_locked := True\<rparr>)"
    and m: "run (\<lambda>s. P s \<and> st_locked s) m Q E"
    and release: "\<And>x s. Q x s \<Longrightarrow> Q x (record_event Unlocked (s\<lparr>st_locked := False\<rparr>))"
      "\<And>s. E s \<Longrightarrow> E (record_event Unlocked (s\<lparr>st_locked := False\<rparr>))"
  shows "run P (with_transaction m) Q E"
proof -
  have lock: "run P lock_attempt (\<lambda>_. P) E"
    unfolding lock_attempt_def by (rule run_access [OF assms(1)]) (auto simp: assms(2) split: reply.splits)
  have held: "settled (\<lambda>s. P s \<and> st_locked s)"
    using assms(1) by (auto simp: settled_def record_event_def)
  have recover: "run (\<lambda>s. P s \<and> st_locked s) recover_publication (\<lambda>_ s. P s \<and> st_locked s) E"
    unfolding recover_publication_def by (rule run_access [OF held]) (auto simp: assms(2) split: reply.splits)
  let ?m = "also_then codex_auth_path (\<lambda>_. also_then recover_publication (\<lambda>_. m))"
  have body: "run (\<lambda>s. P s \<and> st_locked s) ?m Q E"
    by (intro run_then [OF run_modest [OF modest_reads(1) held]] run_then [OF recover] m) (auto intro: assms(2))
  have "run P (\<lambda>s. case ?m (record_event Locked (s\<lparr>st_locked := True\<rparr>)) of
     (r, s') \<Rightarrow> (r, record_event Unlocked (s'\<lparr>st_locked := False\<rparr>))) Q E"
  proof -
    have start: "P (record_event Locked (s\<lparr>st_locked := True\<rparr>)) \<and> st_locked (record_event Locked (s\<lparr>st_locked := True\<rparr>))"
      if "P s" for s
      using settledD(3) [OF assms(1) assms(3) [OF that], of Locked] by (simp add: record_event_def)
    show ?thesis
      using runD [OF body start] by (intro runI) (auto split: prod.splits intro: release)
  qed
  then show ?thesis
    unfolding with_transaction_def by (intro run_then [OF lock])
qed

end
