(* ===== verification/Profile_Save.thy ===== *)
theory Profile_Save
  imports Profile_Sync Profile_Effects
begin

text \<open>
  Writing credentials into saved profiles (\<open>src/src/profile.rs\<close>): the one door that checks
  account and age, the choice of the profile that a credential goes to, the read-back of the live
  credential, saving it, automatic tracking, and the credentials of a login.

  Messages to the user are left out; an action returns what they are printed from.
\<close>

section \<open>The one door\<close>

definition stale_live_error :: "stale_live_auth \<Rightarrow> failure" where
  "stale_live_error d =
     \<lparr>fl_kind = StaleLiveError d,
      fl_chain = [''refusing to overwrite profile '' @ quoted (sl_alias d)
        @ '': the incoming credentials carry a different refresh_token and cannot be shown to be ''
        @ ''the newer of the two (incoming: '' @ sl_live d @ ''; profile: '' @ sl_profile d @ '')'']\<rparr>"

definition not_older_checked :: "timestamps \<Rightarrow> string \<Rightarrow> json \<Rightarrow> json \<Rightarrow> unit action" where
  "not_older_checked ts name existing incoming =
     (case ensure_live_not_older ts name existing incoming of
        Inl d \<Rightarrow> refuse (stale_live_error d) | Inr _ \<Rightarrow> give ())"

definition write_profile_credentials ::
  "codec \<Rightarrow> timestamps \<Rightarrow> string \<Rightarrow> json \<Rightarrow> unit action" where
  "write_profile_credentials cd ts name incoming =
     also_then (lift (validate_alias name)) (\<lambda>_.
     also_then (validate_managed cd incoming) (\<lambda>_.
     also_then (profile_path name) (\<lambda>dst.
     also_then (read_existing_auth cd dst) (\<lambda>existing.
     also_then (case existing of
                  None \<Rightarrow> give ()
                | Some old \<Rightarrow>
                    also_then (lift (ensure_same_account_identity cd name old incoming)) (\<lambda>_.
                      not_older_checked ts name old incoming)) (\<lambda>_.
     also_then (ensure_profile_parent name) (\<lambda>_.
       write_profile_auth_durably cd name incoming))))))"

section \<open>Where a credential goes\<close>

definition scan_profiles_by_identity :: "codec \<Rightarrow> account_identity \<Rightarrow> identity_matches action" where
  "scan_profiles_by_identity cd i =
     also_then registry_snapshot (\<lambda>profiles.
     also_then (lift (parse_registry cd profiles)) (\<lambda>parsed.
       give (collect_identity_matches cd i parsed)))"

definition find_profile_by_identity_exact :: "codec \<Rightarrow> account_identity \<Rightarrow> string option action" where
  "find_profile_by_identity_exact cd i =
     also_then (scan_profiles_by_identity cd i) (\<lambda>m. give (unique_match (im_exact m)))"

definition resolve_identity_target :: "codec \<Rightarrow> account_identity \<Rightarrow> string option action" where
  "resolve_identity_target cd i =
     also_then (scan_profiles_by_identity cd i) (\<lambda>m.
       case im_exact m of
         [name] \<Rightarrow> give (Some name)
       | [] \<Rightarrow>
           if im_incomplete m = [] then give None
           else refuse_text (''Cannot safely match credentials to existing profile(s) (''
                  @ join '', '' (sort (im_incomplete m))
                  @ '') because account_id or email is missing on at least one side.'')
       | names \<Rightarrow>
           refuse_text (''Cannot safely choose between legacy profiles with the same account_id and email (''
             @ join '', '' names @ '').''))"

definition resolve_named_target ::
  "codec \<Rightarrow> string \<Rightarrow> account_identity \<Rightarrow> string option action" where
  "resolve_named_target cd name i =
     also_then (lift (validate_alias name)) (\<lambda>_.
     also_then (profile_path name) (\<lambda>p.
     also_then (path_exists_checked p) (\<lambda>exists.
       if exists then give (Some name) else resolve_identity_target cd i)))"

fun unique_alias_attempts :: "string \<Rightarrow> nat \<Rightarrow> nat \<Rightarrow> string action" where
  "unique_alias_attempts base n 0 =
     refuse_text (''could not generate a unique alias for '' @ quoted base @ '' after 1000 attempts'')"
| "unique_alias_attempts base n (Suc k) =
     also_then (profile_path (candidate_alias base n)) (\<lambda>p.
     also_then (path_exists_checked p) (\<lambda>exists.
       if exists then unique_alias_attempts base (n + 1) k
       else give (candidate_alias base n)))"

definition make_unique_alias :: "string \<Rightarrow> string action" where
  "make_unique_alias base = unique_alias_attempts base 2 999"

record write_plan =
  wp_alias :: string
  wp_updated :: bool
  wp_requested_taken :: bool

definition requested_alias :: "account_identity \<Rightarrow> string option \<Rightarrow> string" where
  "requested_alias i hint =
     the_or ''account'' (or_else hint (map_option alias_from_email (id_email i)))"

definition plan_profile_write ::
  "codec \<Rightarrow> account_identity \<Rightarrow> string option \<Rightarrow> write_plan action" where
  "plan_profile_write cd i hint =
     also_then (case hint of
                  Some name \<Rightarrow> resolve_named_target cd name i
                | None \<Rightarrow> resolve_identity_target cd i) (\<lambda>existing.
     case existing of
       Some name \<Rightarrow> give \<lparr>wp_alias = name, wp_updated = True, wp_requested_taken = False\<rparr>
     | None \<Rightarrow>
         let requested = requested_alias i hint in
         also_then (lift (validate_alias requested)) (\<lambda>_.
         also_then (profile_path requested) (\<lambda>p.
         also_then (path_exists_checked p) (\<lambda>exists.
         also_then (if exists then make_unique_alias requested else give requested) (\<lambda>name.
         also_then (lift (validate_alias name)) (\<lambda>_.
           give \<lparr>wp_alias = name, wp_updated = False, wp_requested_taken = (name \<noteq> requested)\<rparr>))))))"

section \<open>Reading the live credential back\<close>

definition ensure_current_marker_unchanged :: "codec \<Rightarrow> marker_snapshot \<Rightarrow> unit action" where
  "ensure_current_marker_unchanged cd expected =
     also_then (read_current_marker_snapshot_checked cd) (\<lambda>current.
       case current of
         None \<Rightarrow> refuse_text (''current profile marker disappeared after profile ''
                   @ quoted (ms_alias expected) @ '' was synchronized at startup'')
       | Some m \<Rightarrow>
           if m \<noteq> expected
           then refuse_text (''current profile marker changed after profile ''
                  @ quoted (ms_alias expected) @ '' was synchronized at startup'')
           else give ())"

datatype live_sync_mode = PersistAndMark | SwitchBoundary

definition required_live :: "codec \<Rightarrow> string \<Rightarrow> (string \<times> json) action" where
  "required_live cd name =
     also_then (snapshot_optional_file LiveAuth) (\<lambda>c.
       case c of
         None \<Rightarrow> refuse_text (''live auth disappeared while updating profile '' @ quoted name)
       | Some bytes \<Rightarrow>
           also_then (lift (with_context ''parsing live auth'' (cd_parse cd bytes))) (\<lambda>v.
             give (bytes, v)))"

definition optional_marker_check :: "codec \<Rightarrow> marker_snapshot option \<Rightarrow> unit action" where
  "optional_marker_check cd expected =
     (case expected of None \<Rightarrow> give () | Some m \<Rightarrow> ensure_current_marker_unchanged cd m)"

text \<open>
  The loop of the read-back. \<open>initial\<close> is the observation made before the loop; \<open>updated\<close> says that
  an earlier round has written the profile.
\<close>

fun live_update_attempts ::
  "codec \<Rightarrow> timestamps \<Rightarrow> string \<Rightarrow> marker_snapshot option \<Rightarrow> (string \<times> json) option \<Rightarrow> bool \<Rightarrow> nat
     \<Rightarrow> unit action" where
  "live_update_attempts cd ts name expected initial updated 0 =
     refuse_text (''profile '' @ quoted name
       @ '' contains the last complete live-auth snapshot, but live auth kept changing before its ''
       @ ''activation marker could be updated; live auth and the activation marker were not overwritten'')"
| "live_update_attempts cd ts name expected initial updated (Suc n) =
     also_then (optional_marker_check cd expected) (\<lambda>_.
     also_then (case initial of Some x \<Rightarrow> give x | None \<Rightarrow> required_live cd name) (\<lambda>(live_snapshot, live).
     also_then (if updated
                then in_context (''profile '' @ quoted name
                       @ '' contains the last complete live-auth snapshot, but a newer live credential ''
                       @ ''could not be safely synchronized'')
                       (write_profile_credentials cd ts name live)
                else write_profile_credentials cd ts name live) (\<lambda>_.
     also_then (snapshot_optional_file LiveAuth) (\<lambda>now.
       if now \<noteq> Some live_snapshot then live_update_attempts cd ts name expected None True n
       else (case expected of
               Some m \<Rightarrow>
                 in_context (''profile '' @ quoted name
                   @ '' contains the exact current live credentials, but its startup marker ''
                   @ ''authorization is no longer current'')
                   (ensure_current_marker_unchanged cd m)
             | None \<Rightarrow>
                 in_context (''profile '' @ quoted name
                   @ '' contains the exact current live credentials, but updating its activation ''
                   @ ''marker failed; live auth was not overwritten'')
                   (write_current name))))))"

definition update_profile_from_live_guarded ::
  "codec \<Rightarrow> timestamps \<Rightarrow> string \<Rightarrow> marker_snapshot option \<Rightarrow> live_sync_mode \<Rightarrow> unit action" where
  "update_profile_from_live_guarded cd ts name expected mode =
     also_then (lift (validate_alias name)) (\<lambda>_.
     with_transaction (
       also_then (optional_marker_check cd expected) (\<lambda>_.
       also_then codex_auth_path (\<lambda>_.
       also_then (profile_path name) (\<lambda>p.
       also_then (read_existing_auth cd p) (\<lambda>existing.
       case existing of
         None \<Rightarrow> refuse (not_found name)
       | Some profile \<Rightarrow>
           also_then (if mode = SwitchBoundary
                      then also_then (required_live cd name) (\<lambda>x. give (Some x)) else give None)
             (\<lambda>initial.
                case initial of
                  Some (bytes, live) \<Rightarrow>
                    if profile = live then give ()
                    else live_update_attempts cd ts name expected initial False
                           profile_concurrency_retry_limit
                | None \<Rightarrow>
                    live_update_attempts cd ts name expected None False
                      profile_concurrency_retry_limit)))))))"

definition update_profile_from_live :: "codec \<Rightarrow> timestamps \<Rightarrow> string \<Rightarrow> unit action" where
  "update_profile_from_live cd ts name =
     also_then (lift (validate_alias name)) (\<lambda>_.
       with_lease name (update_profile_from_live_guarded cd ts name None PersistAndMark))"

definition synchronize_profile_from_live_for_switch_leased ::
  "codec \<Rightarrow> timestamps \<Rightarrow> string \<Rightarrow> unit action" where
  "synchronize_profile_from_live_for_switch_leased cd ts name =
     update_profile_from_live_guarded cd ts name None SwitchBoundary"

definition update_profile_from_live_if_current_marker ::
  "codec \<Rightarrow> timestamps \<Rightarrow> string \<Rightarrow> marker_snapshot \<Rightarrow> unit action" where
  "update_profile_from_live_if_current_marker cd ts name expected =
     (if ms_alias expected \<noteq> name
      then refuse_text (''post-command synchronization was authorized for marker ''
             @ quoted (ms_alias expected) @ '' instead of profile '' @ quoted name)
      else with_lease name
             (update_profile_from_live_guarded cd ts name (Some expected) PersistAndMark))"

section \<open>Saving the live credential\<close>

datatype save_action = Created string | Updated string

definition saved_as :: "write_plan \<Rightarrow> save_action" where
  "saved_as plan = (if wp_updated plan then Updated (wp_alias plan) else Created (wp_alias plan))"

text \<open>Under the locks of the planned profile; a different plan is returned to be tried next.\<close>

definition save_locked ::
  "codec \<Rightarrow> timestamps \<Rightarrow> string option \<Rightarrow> string \<Rightarrow> (string + save_action) action" where
  "save_locked cd ts hint leased =
     also_then (snapshot_optional_file LiveAuth) (\<lambda>c.
     case c of
       None \<Rightarrow> refuse_text ''live auth disappeared during profile save''
     | Some live_snapshot \<Rightarrow>
         also_then (lift (with_context ''parsing exact live auth snapshot'' (cd_parse cd live_snapshot)))
           (\<lambda>v.
         also_then (plan_profile_write cd (extract_identity cd v) hint) (\<lambda>confirmed.
           if wp_alias confirmed \<noteq> leased then give (Inl (wp_alias confirmed))
           else
           also_then (write_profile_credentials cd ts (wp_alias confirmed) v) (\<lambda>_.
           also_then (commit_fresh_credentials_activation cd (wp_alias confirmed) v (Some live_snapshot))
             (\<lambda>_. give (Inr (saved_as confirmed)))))))"

fun destination_attempts :: "(string \<Rightarrow> (string + 'a) action) \<Rightarrow> string \<Rightarrow> string \<Rightarrow> nat \<Rightarrow> 'a action" where
  "destination_attempts locked message planned 0 = refuse_text message"
| "destination_attempts locked message planned (Suc n) =
     also_then (with_lease planned (with_transaction (locked planned))) (\<lambda>r.
       case r of
         Inl other \<Rightarrow> destination_attempts locked message other n
       | Inr x \<Rightarrow> give x)"

definition cmd_save :: "codec \<Rightarrow> timestamps \<Rightarrow> string option \<Rightarrow> save_action action" where
  "cmd_save cd ts hint =
     also_then codex_auth_path (\<lambda>_.
     also_then (read_auth cd LiveAuth) (\<lambda>preview.
     also_then (plan_profile_write cd (extract_identity cd preview) hint) (\<lambda>plan.
       destination_attempts (save_locked cd ts hint)
         ''profile destination kept changing while saving; retry the command''
         (wp_alias plan) profile_concurrency_retry_limit)))"

text \<open>A live credential of an account that no profile has is saved; the answer says whether it was.\<close>

definition auto_track_current :: "codec \<Rightarrow> timestamps \<Rightarrow> bool action" where
  "auto_track_current cd ts =
     also_then codex_auth_path (\<lambda>_.
     also_then (scan_live cd (snapshot_optional_file LiveAuth) profile_concurrency_retry_limit) (\<lambda>scan.
     case scan of
       NoLive \<Rightarrow> give False
     | Matched \<Rightarrow> give False
     | Unmatched _ v \<Rightarrow>
         also_then (find_profile_by_identity_exact cd (extract_identity cd v)) (\<lambda>found.
           if found \<noteq> None then also_then (sync_current_from_live cd) (\<lambda>_. give False)
           else also_then (cmd_save cd ts None) (\<lambda>action.
                  give (case action of Created _ \<Rightarrow> True | Updated _ \<Rightarrow> False)))))"

section \<open>The credentials of a login\<close>

definition login_locked ::
  "codec \<Rightarrow> json \<Rightarrow> string option \<Rightarrow> string \<Rightarrow> (string + save_action) action" where
  "login_locked cd v hint leased =
     also_then codex_auth_path (\<lambda>_.
     also_then (snapshot_optional_file LiveAuth) (\<lambda>live_snapshot.
     also_then (plan_profile_write cd (extract_identity cd v) hint) (\<lambda>confirmed.
       if wp_alias confirmed \<noteq> leased then give (Inl (wp_alias confirmed))
       else
       also_then (profile_path (wp_alias confirmed)) (\<lambda>dst.
       also_then (if wp_updated confirmed
                  then also_then (read_existing_auth cd dst) (\<lambda>existing.
                         case existing of
                           None \<Rightarrow> refuse_text (''profile '' @ quoted (wp_alias confirmed)
                                     @ '' disappeared during login'')
                         | Some old \<Rightarrow>
                             lift (ensure_same_account_identity cd (wp_alias confirmed) old v))
                  else give ()) (\<lambda>_.
       also_then (ensure_profile_parent (wp_alias confirmed)) (\<lambda>_.
       also_then (write_profile_auth_durably cd (wp_alias confirmed) v) (\<lambda>_.
       also_then (commit_fresh_credentials_activation cd (wp_alias confirmed) v live_snapshot) (\<lambda>_.
         give (Inr (saved_as confirmed))))))))))"

text \<open>The user has just logged in: the trace records it.\<close>

definition logged_in :: "unit action" where
  "logged_in s = (Inr (), record_event LoggedIn s)"

definition save_auth_value :: "codec \<Rightarrow> json \<Rightarrow> string option \<Rightarrow> save_action action" where
  "save_auth_value cd v hint =
     also_then logged_in (\<lambda>_.
     let i = extract_identity cd v in
     if id_account i = None \<or> id_email i = None
     then refuse_text (''login credentials must contain both a non-empty account_id and email ''
            @ ''before a profile can be saved'')
     else
     also_then (validate_managed cd v) (\<lambda>_.
     also_then (plan_profile_write cd i hint) (\<lambda>plan.
       destination_attempts (login_locked cd v hint)
         ''profile destination kept changing during login; retry the command''
         (wp_alias plan) profile_concurrency_retry_limit)))"

section \<open>Reconciling in the terminal interface\<close>

datatype tui_reconciliation =
    TuiNoLiveAuth | TuiNoChange | TuiProfileUpdated string account_info | TuiUntracked
  | TuiUnidentified | TuiUnresolved "string list"

definition reconcile_live_auth_for_tui :: "codec \<Rightarrow> timestamps \<Rightarrow> tui_reconciliation action" where
  "reconcile_live_auth_for_tui cd ts =
     also_then (detect_auth_change cd) (\<lambda>change.
       case change of
         NoLiveAuth \<Rightarrow> give TuiNoLiveAuth
       | NoChange \<Rightarrow> give TuiNoChange
       | TokensUpdated name \<Rightarrow>
           also_then (in_context (''synchronizing newer live credentials for '' @ quoted name)
                        (update_profile_from_live cd ts name)) (\<lambda>_.
           also_then (profile_path name) (\<lambda>p.
           also_then (in_context (''reading synchronized profile '' @ quoted name) (read_auth cd p)) (\<lambda>v.
             give (TuiProfileUpdated name (account_info_from_auth_value cd v)))))
       | NewAccount \<Rightarrow> give TuiUntracked
       | UnidentifiedAccount \<Rightarrow> give TuiUnidentified
       | UnresolvedIdentity names \<Rightarrow> give (TuiUnresolved names))"

section \<open>The door\<close>

text \<open>What the door has established when it writes.\<close>

definition admitted :: "codec \<Rightarrow> timestamps \<Rightarrow> string \<Rightarrow> json \<Rightarrow> event list \<Rightarrow> bool" where
  "admitted cd ts name v t \<longleftrightarrow>
     known cd name None t
     \<or> (\<exists>old. known cd name (Some old) t \<and> same_account cd old v \<and> not_older ts old v)"

lemma admitted_ok: "admitted cd ts name v t \<Longrightarrow> profile_ok cd name (cd_print cd v) t"
  by (auto simp: admitted_def intro: created_ok replaced_ok)

lemma looked_admitted: "looked (admitted cd ts name v)"
  using looked_known unfolding looked_def admitted_def by blast

lemma frame_admitted: "frame A E \<Longrightarrow> frame (\<lambda>t. A t \<and> admitted cd ts name v t) E"
  by (intro frame_looked looked_admitted)

lemma not_older_checked_Inr: "ensure_live_not_older ts name old v = Inr u \<longleftrightarrow> not_older ts old v"
  by (cases u) simp

lemma traced_not_older:
  assumes "frame A E"
  shows "traced A (not_older_checked ts name old v) (\<lambda>_ t. A t \<and> not_older ts old v) E"
  unfolding not_older_checked_def
  by (auto intro!: traced_sum traced_give traced_refuse
      simp: not_older_checked_Inr stale_live_error_def frame_error [OF assms])

lemma traced_admit:
  assumes "frame A E"
  shows "traced (\<lambda>t. A t \<and> known cd name existing t)
     (case existing of
        None \<Rightarrow> give ()
      | Some old \<Rightarrow> also_then (lift (ensure_same_account_identity cd name old v)) (\<lambda>_.
                      not_older_checked ts name old v))
     (\<lambda>_ t. A t \<and> admitted cd ts name v t) E"
  by (intro traced_then [OF traced_lifted] traced_post [OF traced_not_older] traced_intros
      frame_rules frame_known assms)
    (auto simp: admitted_def same_account_iff)

lemma traced_door:
  assumes f: "frame A E" and l: "\<And>t. A t \<Longrightarrow> in_lock t"
    and wrote: "\<And>t old. A t \<Longrightarrow> admitted cd ts name v t \<Longrightarrow> B (WroteProfile name old (cd_print cd v) # t)"
    and e: "\<And>e t. minor e \<Longrightarrow> B t \<Longrightarrow> E e t" "\<And>f c t. E f t \<Longrightarrow> E (f\<lparr>fl_chain := c\<rparr>) t"
  shows "traced A (write_profile_credentials cd ts name v) (\<lambda>_. B) E"
proof -
  have read: "traced C (read_existing_auth cd (ProfileAuth name)) (\<lambda>w t. C t \<and> known cd name w t) E"
    if "frame C E" "\<And>t. C t \<Longrightarrow> in_lock t" for C
    by (rule traced_post [OF traced_know_existing [OF that]]) auto
  have store: "traced (\<lambda>t. C t \<and> admitted cd ts name v t)
      (also_then (ensure_profile_parent name) (\<lambda>_. write_profile_auth_durably cd name v)) (\<lambda>_. B) E"
    if "frame C E" "\<And>t. C t \<Longrightarrow> A t" for C
    by (rule traced_then [OF traced_parent], rule frame_admitted, rule that(1),
        rule traced_write_durably, rule frame_admitted, rule that(1)) (auto intro: wrote that(2) e)
  show ?thesis
    unfolding write_profile_credentials_def
    by (intro traced_then [OF traced_lifted] traced_then [OF traced_managed] traced_at_path
        traced_then [OF read] traced_then [OF traced_admit] store frame_rules f) (auto dest: l)
qed

text \<open>The history of writes that went through the door: no credential is rolled back.\<close>

definition door_ok :: "codec \<Rightarrow> timestamps \<Rightarrow> event \<Rightarrow> event list \<Rightarrow> bool" where
  "door_ok cd ts e t \<longleftrightarrow>
     (case e of
        WroteProfile name old new \<Rightarrow> \<exists>v. new = cd_print cd v \<and> admitted cd ts name v t
      | _ \<Rightarrow> True)"

section \<open>The plan\<close>

lemma traced_scan_identity:
  assumes "frame A E"
  shows "traced A (scan_profiles_by_identity cd i) (\<lambda>_. A) E"
  unfolding scan_profiles_by_identity_def by (intro traced_steps frame_rules observed_intros assms) auto

lemma traced_identity_target:
  assumes "frame A E"
  shows "traced A (resolve_identity_target cd i) (\<lambda>_. A) E"
proof -
  have names: "traced A (case names of [name] \<Rightarrow> give (Some name) | [] \<Rightarrow> if b then give None else refuse_text e
      | ns \<Rightarrow> refuse_text (f ns)) (\<lambda>_. A) E" for names :: "string list" and b e f
    by (cases names; cases "tl names") (auto intro!: traced_intros simp: frame_error [OF assms])
  show ?thesis
    unfolding resolve_identity_target_def
    by (intro traced_then [OF traced_scan_identity [OF assms]] names)
qed

lemma traced_find_identity:
  assumes "frame A E"
  shows "traced A (find_profile_by_identity_exact cd i) (\<lambda>_. A) E"
  unfolding find_profile_by_identity_exact_def
  by (intro traced_then [OF traced_scan_identity] traced_give assms)

lemma traced_unique_alias:
  assumes "frame A E" "\<And>t. A t \<Longrightarrow> in_lock t"
  shows "traced A (unique_alias_attempts base n k) (\<lambda>name t. A t \<and> known cd name None t) E"
proof (induction k arbitrary: n)
  case 0
  then show ?case by (auto intro!: traced_refuse_text simp: frame_error [OF assms(1)])
next
  case (Suc k)
  show ?case
    unfolding unique_alias_attempts.simps
    by (rule traced_at_path [OF assms(1)],
        rule traced_then [OF traced_know_exists [OF assms(1)]], erule assms(2), rule traced_if)
      (auto simp: known_def intro!: traced_give traced_mono [OF Suc.IH])
qed

lemma traced_plan:
  assumes "frame A E" "\<And>t. A t \<Longrightarrow> in_lock t"
  shows "traced A (plan_profile_write cd i hint)
     (\<lambda>plan t. A t \<and> (\<not> wp_updated plan \<longrightarrow> known cd (wp_alias plan) None t)) E"
proof -
  have named: "traced A (resolve_named_target cd name i) (\<lambda>_. A) E" for name
    unfolding resolve_named_target_def
    by (intro traced_post [OF traced_identity_target] traced_steps frame_rules observed_intros
        observed_ex assms(1)) auto
  have target: "traced A (case hint of Some name \<Rightarrow> resolve_named_target cd name i
      | None \<Rightarrow> resolve_identity_target cd i) (\<lambda>_. A) E"
    by (intro traced_option named traced_identity_target assms(1))
  have fresh: "traced (\<lambda>t. A t \<and> (\<not> b \<longrightarrow> None \<in> set (seen_since name t)))
      (if b then make_unique_alias name else give name) (\<lambda>n t. A t \<and> known cd n None t) E" for name b
    unfolding make_unique_alias_def
    by (intro traced_if traced_mono [OF traced_unique_alias [OF assms]] traced_give)
      (auto simp: known_def)
  have lifted: "traced (\<lambda>t. A t \<and> known cd n None t)
      (also_then (lift r) (\<lambda>_. give \<lparr>wp_alias = n, wp_updated = False, wp_requested_taken = b\<rparr>))
      (\<lambda>plan t. A t \<and> (\<not> wp_updated plan \<longrightarrow> known cd (wp_alias plan) None t)) E" for n r b
    by (intro traced_then [OF traced_lifted] traced_give frame_known assms(1)) auto
  have create: "traced A (let requested = name in
      also_then (lift (validate_alias requested)) (\<lambda>_.
      also_then (profile_path requested) (\<lambda>p.
      also_then (path_exists_checked p) (\<lambda>exists.
      also_then (if exists then make_unique_alias requested else give requested) (\<lambda>name.
      also_then (lift (validate_alias name)) (\<lambda>_.
        give \<lparr>wp_alias = name, wp_updated = False, wp_requested_taken = (name \<noteq> requested)\<rparr>))))))
      (\<lambda>plan t. A t \<and> (\<not> wp_updated plan \<longrightarrow> known cd (wp_alias plan) None t)) E" for name
    unfolding Let_def
    by (rule traced_then [OF traced_lifted [OF assms(1)]], rule traced_assume, rule traced_at_path [OF assms(1)],
        rule traced_then [OF traced_know_exists [OF assms(1)]], erule assms(2),
        rule traced_then [OF fresh lifted])
  show ?thesis
    unfolding plan_profile_write_def
    by (intro traced_then [OF target] traced_option traced_give create) auto
qed

section \<open>Saving keeps the trace consistent\<close>

definition guarded :: "codec \<Rightarrow> event list \<Rightarrow> bool" where
  "guarded cd t \<longleftrightarrow> consistent_history cd t \<and> in_lock t"

lemma guardedD: "guarded cd t \<Longrightarrow> consistent_history cd t" "guarded cd t \<Longrightarrow> in_lock t"
  by (simp_all add: guarded_def)

lemma frame_guarded: "frame (guarded cd) (\<lambda>_. consistent_history cd)"
  unfolding guarded_def [abs_def] by (intro frame_locked frame_consistent)

lemma consistent_transaction:
  assumes "traced (\<lambda>t. guarded cd t \<and> L t) m Q (\<lambda>_. consistent_history cd)"
    and "\<And>t. A t \<Longrightarrow> consistent_history cd t \<and> L t" "observed L" "\<And>x. observed (Q x)"
  shows "traced A (with_transaction m) Q (\<lambda>_. consistent_history cd)"
proof -
  have "traced (\<lambda>t. consistent_history cd t \<and> L t) (with_transaction m) Q (\<lambda>_. consistent_history cd)"
    by (intro traced_transaction traced_mono [OF assms(1)] frame_conj frame_consistent observed_intros assms(3,4))
      (auto simp: guarded_def)
  then show ?thesis by (rule traced_mono) (auto dest: assms(2))
qed

lemma consistent_plain_transaction:
  assumes "traced (guarded cd) m Q (\<lambda>_. consistent_history cd)" "\<And>x. observed (Q x)"
  shows "traced (consistent_history cd) (with_transaction m) Q (\<lambda>_. consistent_history cd)"
  by (rule consistent_transaction [where L = "\<lambda>_. True"]) (auto intro: assms)

text \<open>After the door the profile holds the credential; other evidence \<open>L\<close> lasts.\<close>

lemma consistent_door:
  assumes "frame A (\<lambda>_. consistent_history cd)" "\<And>t. A t \<Longrightarrow> guarded cd t \<and> L t" "lasting L"
  shows "traced A (write_profile_credentials cd ts name v)
     (\<lambda>_ t. (guarded cd t \<and> L t) \<and> holds cd name v t) (\<lambda>_. consistent_history cd)"
  by (rule traced_door [OF assms(1)])
    (use assms(2) in \<open>auto simp: guarded_def intro: admitted_ok wrote_holds lastingD [OF assms(3)]\<close>)

lemma consistent_fresh:
  assumes "frame A (\<lambda>_. consistent_history cd)" "\<And>t. A t \<Longrightarrow> publishable cd name v expected t"
  shows "traced A (commit_fresh_credentials_activation cd name v expected)
     (\<lambda>_. consistent_history cd) (\<lambda>_. consistent_history cd)"
  unfolding commit_fresh_credentials_activation_def
  by (rule traced_context [OF consistent_commit [OF assms]])

lemma traced_marker_check:
  assumes "frame A E"
  shows "traced A (optional_marker_check cd expected) (\<lambda>_. A) E"
  unfolding optional_marker_check_def ensure_current_marker_unchanged_def
  by (intro traced_steps assms) (auto simp: frame_error [OF assms])

definition live_value :: "codec \<Rightarrow> string \<times> json \<Rightarrow> event list \<Rightarrow> bool" where
  "live_value cd x t \<longleftrightarrow> Saw LiveAuth (Some (fst x)) \<in> set t \<and> cd_parse cd (fst x) = Inr (snd x)"

lemma lasting_live_value: "lasting (live_value cd x)"
  by (auto simp: live_value_def lasting_def)

lemma traced_required_live:
  assumes "frame A E"
  shows "traced A (required_live cd name) (\<lambda>x t. A t \<and> live_value cd x t) E"
  unfolding required_live_def
  by (intro traced_steps frame_rules observed_intros assms)
    (auto simp: frame_error [OF assms] live_value_def result_eq_Inr)

lemma live_marker_ok: "live_value cd x t \<Longrightarrow> holds cd name (snd x) t \<Longrightarrow> marker_ok cd name t"
  unfolding live_value_def by (rule tracked_marker_ok) (auto simp: tracks_def)

lemma consistent_live_update:
  "traced (\<lambda>t. guarded cd t \<and> (\<forall>x. initial = Some x \<longrightarrow> live_value cd x t))
     (live_update_attempts cd ts name expected initial updated n)
     (\<lambda>_. consistent_history cd) (\<lambda>_. consistent_history cd)"
proof (induction n arbitrary: initial updated)
  case 0
  show ?case
    unfolding live_update_attempts.simps by (rule traced_refuse_text) (simp add: guarded_def)
next
  case (Suc n)
  let ?I = "\<lambda>t. guarded cd t \<and> (\<forall>x. initial = Some x \<longrightarrow> live_value cd x t)"
  have i: "frame ?I (\<lambda>_. consistent_history cd)"
    by (intro frame_conj frame_guarded observed_every observed_imp lasting_observed lasting_live_value)
  have look: "traced ?I (case initial of Some x \<Rightarrow> give x | None \<Rightarrow> required_live cd name)
      (\<lambda>x t. guarded cd t \<and> live_value cd x t) (\<lambda>_. consistent_history cd)"
    by (intro traced_option traced_give traced_mono [OF traced_required_live [OF frame_guarded]]) auto
  have door: "traced (\<lambda>t. guarded cd t \<and> live_value cd x t)
      (if updated then in_context c (write_profile_credentials cd ts name v)
       else write_profile_credentials cd ts name v)
      (\<lambda>_ t. (guarded cd t \<and> live_value cd x t) \<and> holds cd name v t) (\<lambda>_. consistent_history cd)" for x v c
    by (intro traced_if traced_context consistent_door frame_conj frame_guarded lasting_live_value
        lasting_observed) auto
  have mark: "traced A (in_context c (write_current name)) (\<lambda>_. consistent_history cd) (\<lambda>_. consistent_history cd)"
    if "frame A (\<lambda>_. consistent_history cd)" "\<And>t. A t \<Longrightarrow> consistent_history cd t \<and> marker_ok cd name t" for A c
    by (rule traced_context [OF consistent_mark [OF that]])
  have check: "traced A (in_context c (ensure_current_marker_unchanged cd m)) (\<lambda>_. consistent_history cd)
      (\<lambda>_. consistent_history cd)"
    if "frame A (\<lambda>_. consistent_history cd)" "\<And>t. A t \<Longrightarrow> consistent_history cd t" for A c m
    using traced_marker_check [OF that(1), of cd "Some m"] that(2)
    by (auto simp: optional_marker_check_def intro!: traced_context elim!: traced_mono)
  let ?D = "\<lambda>b v t. ((guarded cd t \<and> live_value cd (b, v) t) \<and> holds cd name v t)"
  have f: "frame (?D b v) (\<lambda>_. consistent_history cd)" for b v
    by (intro frame_conj frame_guarded observed_intros lasting_observed lasting_live_value)
  have rest: "traced (?D b v) (also_then (snapshot_optional_file LiveAuth) (\<lambda>now.
       if now \<noteq> Some b then live_update_attempts cd ts name expected None True n
       else (case expected of
               Some m \<Rightarrow> in_context c (ensure_current_marker_unchanged cd m)
             | None \<Rightarrow> in_context c' (write_current name))))
      (\<lambda>_. consistent_history cd) (\<lambda>_. consistent_history cd)" for b v c c'
    by (intro traced_then [OF traced_see] traced_if traced_option check mark frame_conj f observed_intros
        traced_mono [OF Suc.IH]) (auto simp: guarded_def dest: live_marker_ok [of cd "(b, v)"])
  have step: "traced (\<lambda>t. guarded cd t \<and> live_value cd (b, v) t)
      (also_then (if updated then in_context c (write_profile_credentials cd ts name v)
                  else write_profile_credentials cd ts name v) (\<lambda>_.
       also_then (snapshot_optional_file LiveAuth) (\<lambda>now.
       if now \<noteq> Some b then live_update_attempts cd ts name expected None True n
       else (case expected of
               Some m \<Rightarrow> in_context c1 (ensure_current_marker_unchanged cd m)
             | None \<Rightarrow> in_context c2 (write_current name)))))
      (\<lambda>_. consistent_history cd) (\<lambda>_. consistent_history cd)" for b v c c1 c2
    by (rule traced_then [OF door rest])
  show ?case
    unfolding live_update_attempts.simps
    by (rule traced_then [OF traced_marker_check [OF i]], rule traced_then [OF look])
      (rule traced_prod, hypsubst, rule step)
qed

lemma consistent_update_guarded:
  "keeps cd (update_profile_from_live_guarded cd ts name expected mode)"
proof -
  have start: "traced A (if b then also_then (required_live cd name) (\<lambda>x. give (Some x)) else give None)
      (\<lambda>initial t. A t \<and> (\<forall>x. initial = Some x \<longrightarrow> live_value cd x t)) E" if "frame A E" for A b E
    by (intro traced_if traced_then [OF traced_required_live] traced_give that) auto
  have loop: "traced (\<lambda>t. A t \<and> (\<forall>x. initial = Some x \<longrightarrow> live_value cd x t))
      (case initial of
         Some (bytes, live) \<Rightarrow>
           if profile = live then give ()
           else live_update_attempts cd ts name expected initial False n
       | None \<Rightarrow> live_update_attempts cd ts name expected None False n)
      (\<lambda>_. consistent_history cd) (\<lambda>_. consistent_history cd)"
    if "\<And>t. A t \<Longrightarrow> guarded cd t" for A initial and profile :: json and n
  proof -
    have again: "traced (\<lambda>t. A t \<and> (\<forall>x. initial = Some x \<longrightarrow> live_value cd x t))
        (live_update_attempts cd ts name expected initial False n)
        (\<lambda>_. consistent_history cd) (\<lambda>_. consistent_history cd)"
      by (rule traced_mono [OF consistent_live_update]) (auto dest: that)
    then show ?thesis
      using that by (cases initial) (auto intro!: traced_give split: prod.split dest: guardedD)
  qed
  show ?thesis
    unfolding update_profile_from_live_guarded_def
    by (intro traced_then [OF traced_lifted] traced_assume consistent_plain_transaction
        traced_then [OF traced_marker_check] traced_then [OF start] loop
        traced_steps frame_rules observed_intros frame_guarded frame_consistent) (auto dest: guardedD)
qed

lemma consistent_update [traced_intros]:
  "keeps cd (update_profile_from_live cd ts name)"
  "keeps cd (update_profile_from_live_if_current_marker cd ts name m)"
  "keeps cd (synchronize_profile_from_live_for_switch_leased cd ts name)"
  unfolding update_profile_from_live_def update_profile_from_live_if_current_marker_def
    synchronize_profile_from_live_for_switch_leased_def
  by (intro traced_with_lease consistent_update_guarded traced_steps frame_rules observed_intros
      frame_consistent; simp)+

text \<open>The plan of a new alias is known under the transaction; other evidence lasts.\<close>

lemma consistent_save_locked:
  "traced (guarded cd) (save_locked cd ts hint name) (\<lambda>_. consistent_history cd) (\<lambda>_. consistent_history cd)"
proof -
  have plan: "traced A (plan_profile_write cd i hint) (\<lambda>_. A) E"
    if "frame A E" "\<And>t. A t \<Longrightarrow> in_lock t" for A E i
    by (rule traced_post [OF traced_plan [OF that]]) auto
  have door: "traced A (write_profile_credentials cd ts n v)
      (\<lambda>_ t. (guarded cd t \<and> live_value cd (l, v) t) \<and> holds cd n v t) (\<lambda>_. consistent_history cd)"
    if "frame A (\<lambda>_. consistent_history cd)" "\<And>t. A t \<Longrightarrow> guarded cd t \<and> live_value cd (l, v) t" for A n v l
    by (intro consistent_door that lasting_live_value)
  have fresh: "traced (\<lambda>t. (guarded cd t \<and> live_value cd (l, v) t) \<and> holds cd n v t)
      (commit_fresh_credentials_activation cd n v (Some l))
      (\<lambda>_. consistent_history cd) (\<lambda>_. consistent_history cd)" for n v l
    by (intro consistent_fresh frame_conj frame_guarded observed_intros lasting_observed lasting_live_value)
      (auto simp: guarded_def publishable_def replaceable_def live_value_def dest: held_copy)
  have store: "traced A (also_then (write_profile_credentials cd ts n v) (\<lambda>_.
       also_then (commit_fresh_credentials_activation cd n v (Some l)) (\<lambda>_. give x)))
      (\<lambda>_. consistent_history cd) (\<lambda>_. consistent_history cd)"
    if "frame A (\<lambda>_. consistent_history cd)" "\<And>t. A t \<Longrightarrow> guarded cd t \<and> live_value cd (l, v) t"
    for A n v l and x :: "string + save_action"
    by (rule traced_then [OF door [where l = l]], rule that(1), rule that(2), assumption,
        rule traced_then [OF fresh traced_give])
  show ?thesis
    unfolding save_locked_def
    by (intro traced_then [OF plan] store traced_steps
        frame_rules observed_intros frame_guarded) (auto simp: live_value_def result_eq_Inr dest: guardedD)
qed

lemma consistent_destination:
  assumes "\<And>t. A t \<Longrightarrow> consistent_history cd t" and "\<And>name. traced (\<lambda>t. A t \<and> in_lock t) (locked name)
      (\<lambda>_. A) (\<lambda>_. consistent_history cd)"
    and "frame A (\<lambda>_. consistent_history cd)" "observed A"
  shows "traced A (destination_attempts locked message planned n) (\<lambda>_. A) (\<lambda>_. consistent_history cd)"
proof (induction n arbitrary: planned)
  case 0
  then show ?case by (auto intro!: traced_refuse_text assms(1))
next
  case (Suc n)
  have under: "traced A (with_lease planned (with_transaction (locked planned)))
      (\<lambda>_. A) (\<lambda>_. consistent_history cd)"
    by (intro traced_with_lease traced_transaction assms observed_intros observed_every)
  show ?case
    unfolding destination_attempts.simps
    by (rule traced_then [OF under], rule traced_sum) (auto intro: traced_mono [OF Suc.IH] traced_give)
qed

text \<open>The plan of a destination, made before the locks, is only a guess.\<close>

lemma traced_plan_guess:
  assumes "frame A E"
  shows "traced A (plan_profile_write cd i hint) (\<lambda>_. A) E"
proof -
  have named: "traced A (resolve_named_target cd name i) (\<lambda>_. A) E" for name
    unfolding resolve_named_target_def
    by (intro traced_post [OF traced_identity_target] traced_steps frame_rules observed_intros
        observed_ex assms) auto
  have target: "traced A (case hint of Some name \<Rightarrow> resolve_named_target cd name i
      | None \<Rightarrow> resolve_identity_target cd i) (\<lambda>_. A) E"
    by (intro traced_option named traced_identity_target assms)
  have attempts: "traced A (unique_alias_attempts base n k) (\<lambda>_. A) E" for base n k
  proof (induction k arbitrary: n)
    case 0
    then show ?case by (auto intro!: traced_refuse_text simp: frame_error [OF assms])
  next
    case (Suc k)
    show ?case
      unfolding unique_alias_attempts.simps
      by (intro traced_at_path traced_then [OF traced_exists] traced_if traced_give
          traced_mono [OF Suc.IH] assms) auto
  qed
  have fresh: "traced B (if b then make_unique_alias name else give name) (\<lambda>_. A) E"
    if "\<And>t. B t \<Longrightarrow> A t" for b name B
    unfolding make_unique_alias_def by (intro traced_if traced_mono [OF attempts] traced_give) (auto dest: that)
  show ?thesis
    unfolding plan_profile_write_def Let_def
    by (intro traced_then [OF target] traced_option traced_then [OF traced_lifted] traced_assume
        traced_at_path traced_then [OF traced_exists] traced_then [OF fresh] traced_give assms) auto
qed

lemma consistent_save [traced_intros]: "keeps cd (cmd_save cd ts hint)"
proof -
  have locked: "traced (\<lambda>t. consistent_history cd t \<and> in_lock t) (save_locked cd ts hint name)
      (\<lambda>_. consistent_history cd) (\<lambda>_. consistent_history cd)" for name
    by (rule traced_mono [OF consistent_save_locked]) (auto simp: guarded_def)
  have attempts: "traced A (destination_attempts (save_locked cd ts hint) m planned n)
      (\<lambda>_. consistent_history cd) (\<lambda>_. consistent_history cd)"
    if "\<And>t. A t \<Longrightarrow> consistent_history cd t" for A m planned n
    by (rule traced_mono [OF consistent_destination [OF _ locked]])
      (auto intro: that frame_consistent observed_consistent)
  show ?thesis
    unfolding cmd_save_def
    by (intro traced_then [OF traced_live_path] traced_then [OF traced_read_auth]
        traced_then [OF traced_plan_guess] attempts frame_conj frame_consistent observed_intros) auto
qed

lemma consistent_auto_track [traced_intros]: "keeps cd (auto_track_current cd ts)"
proof -
  have saved: "traced A (also_then (cmd_save cd ts None) (\<lambda>a. give (f a)))
      (\<lambda>_. consistent_history cd) (\<lambda>_. consistent_history cd)"
    if "\<And>t. A t \<Longrightarrow> consistent_history cd t" for A and f :: "save_action \<Rightarrow> bool"
    by (rule traced_mono, rule traced_then [OF consistent_save traced_give]) (auto dest: that)
  have synced: "traced A (also_then (sync_current_from_live cd) (\<lambda>_. give False))
      (\<lambda>_. consistent_history cd) (\<lambda>_. consistent_history cd)"
    if "\<And>t. A t \<Longrightarrow> consistent_history cd t" for A
    by (rule traced_mono, rule traced_then [OF consistent_sync(2) traced_give]) (auto dest: that)
  show ?thesis
    unfolding auto_track_current_def
    by (intro traced_then [OF traced_live_path] traced_then [OF traced_scan] traced_live_scan traced_see
        traced_then [OF traced_find_identity] traced_if saved synced traced_give frame_consistent
        frame_conj lasting_scan_ok [THEN lasting_observed]) auto
qed

text \<open>A login may replace any live credential, and any credential of its account.\<close>

definition entitled :: "codec \<Rightarrow> string \<Rightarrow> json \<Rightarrow> event list \<Rightarrow> bool" where
  "entitled cd name v t \<longleftrightarrow>
     known cd name None t \<or> (\<exists>old. known cd name (Some old) t \<and> same_account cd old v)"

lemma looked_entitled: "looked (entitled cd name v)"
  using looked_known unfolding looked_def entitled_def by blast

lemma entitled_ok: "entitled cd name v t \<Longrightarrow> profile_ok cd name (cd_print cd v) t"
  by (auto simp: entitled_def intro: created_ok replaced_ok)

lemma consistent_written:
  assumes f: "frame A (\<lambda>_. consistent_history cd)"
    and a: "\<And>t. A t \<Longrightarrow> guarded cd t \<and> profile_ok cd name (cd_print cd v) t \<and> L t" and l: "lasting L"
  shows "traced A (write_profile_auth_durably cd name v)
     (\<lambda>_ t. (guarded cd t \<and> L t) \<and> holds cd name v t) (\<lambda>_. consistent_history cd)"
  by (rule traced_write_durably [OF f])
    (use a in \<open>auto simp: guarded_def intro: wrote_holds lastingD [OF l]\<close>)

abbreviation logged :: "codec \<Rightarrow> event list \<Rightarrow> bool" where
  "logged cd t \<equiv> guarded cd t \<and> LoggedIn \<in> set t"

lemma frame_logged: "frame (logged cd) (\<lambda>_. consistent_history cd)"
  by (intro frame_conj frame_guarded observed_intros)

lemma lasting_fresh:
  "lasting B \<Longrightarrow> traced B (commit_fresh_credentials_activation cd name v expected) (\<lambda>_. B) (\<lambda>_. B)"
  unfolding commit_fresh_credentials_activation_def by (rule traced_context [OF lasting_commit])

lemma consistent_login_write:
  "traced (\<lambda>t. logged cd t \<and> entitled cd n v t)
     (also_then (ensure_profile_parent n) (\<lambda>_.
      also_then (write_profile_auth_durably cd n v) (\<lambda>_.
      also_then (commit_fresh_credentials_activation cd n v live) (\<lambda>_. give x))))
     (\<lambda>_ t. consistent_history cd t \<and> LoggedIn \<in> set t) (\<lambda>_. consistent_history cd)"
proof -
  let ?A = "\<lambda>t. logged cd t \<and> entitled cd n v t"
  have f: "frame ?A (\<lambda>_. consistent_history cd)" by (intro frame_looked frame_logged looked_entitled)
  have wrote: "traced ?A (write_profile_auth_durably cd n v)
      (\<lambda>_ t. (guarded cd t \<and> LoggedIn \<in> set t) \<and> holds cd n v t) (\<lambda>_. consistent_history cd)"
    by (rule consistent_written [OF f]) (auto intro: entitled_ok lasting_member)
  have "traced (\<lambda>t. logged cd t \<and> holds cd n v t) (commit_fresh_credentials_activation cd n v live)
      (\<lambda>_. consistent_history cd) (\<lambda>_. consistent_history cd)"
    by (intro consistent_fresh frame_conj frame_logged observed_intros)
      (auto simp: publishable_def replaceable_def guarded_def split: option.split)
  from traced_conj [OF this lasting_fresh [OF lasting_member [of LoggedIn]]]
  have fresh: "traced (\<lambda>t. logged cd t \<and> holds cd n v t) (commit_fresh_credentials_activation cd n v live)
      (\<lambda>_ t. consistent_history cd t \<and> LoggedIn \<in> set t) (\<lambda>_. consistent_history cd)"
    by (rule traced_mono) auto
  show ?thesis
    by (intro traced_then [OF traced_parent [OF f]] traced_then [OF wrote] traced_then [OF fresh] traced_give)
qed

lemma consistent_login_locked:
  "traced (\<lambda>t. (consistent_history cd t \<and> LoggedIn \<in> set t) \<and> in_lock t) (login_locked cd v hint name)
     (\<lambda>_ t. consistent_history cd t \<and> LoggedIn \<in> set t) (\<lambda>_. consistent_history cd)"
proof -
  have read: "traced A (read_existing_auth cd (ProfileAuth n)) (\<lambda>w t. logged cd t \<and> known cd n w t)
      (\<lambda>_. consistent_history cd)" if "\<And>t. A t \<Longrightarrow> logged cd t" for A n
    by (rule traced_mono [OF traced_know_existing [OF frame_logged]]) (auto dest: guardedD that)
  have check: "traced (\<lambda>t. A t \<and> (\<not> b \<longrightarrow> known cd n None t))
      (if b then also_then (read_existing_auth cd (ProfileAuth n)) (\<lambda>existing.
              case existing of
                None \<Rightarrow> refuse_text e
              | Some old \<Rightarrow> lift (ensure_same_account_identity cd n old v))
       else give ())
      (\<lambda>_ t. logged cd t \<and> entitled cd n v t) (\<lambda>_. consistent_history cd)"
    if "\<And>t. A t \<Longrightarrow> logged cd t" for A b n e
    by (intro traced_if traced_then [OF read] traced_give traced_option traced_refuse_text traced_lift)
      (auto dest: guardedD that simp: same_account_iff entitled_def)
  have known: "frame (\<lambda>t. A t \<and> (b \<longrightarrow> known cd n None t)) E" if "frame A E" for A b n E
    using looked_known by (intro frame_looked that) (auto simp: looked_def)
  have path: "traced (\<lambda>t. A t \<and> (\<not> wp_updated plan \<longrightarrow> known cd (wp_alias plan) None t))
      (also_then (profile_path (wp_alias plan)) f) Q E"
    if "frame A E" "traced (\<lambda>t. A t \<and> (\<not> wp_updated plan \<longrightarrow> known cd (wp_alias plan) None t))
      (f (ProfileAuth (wp_alias plan))) Q E"
    for A plan and f :: "path \<Rightarrow> 'b action" and Q E
    by (rule traced_at_path, rule known [OF that(1)], rule that(2))
  have "traced (logged cd) (login_locked cd v hint name)
     (\<lambda>_ t. consistent_history cd t \<and> LoggedIn \<in> set t) (\<lambda>_. consistent_history cd)"
    unfolding login_locked_def
    by (intro traced_then [OF traced_live_path] traced_then [OF traced_see] traced_then [OF traced_plan]
        traced_if path traced_then [OF check] consistent_login_write traced_give frame_conj observed_intros frame_guarded)
      (auto dest: guardedD)
  then show ?thesis by (rule traced_mono) (auto simp: guarded_def)
qed

lemma consistent_login [traced_intros]: "keeps cd (save_auth_value cd v hint)"
proof -
  let ?A = "\<lambda>t. consistent_history cd t \<and> LoggedIn \<in> set t"
  have f: "frame ?A (\<lambda>_. consistent_history cd)" by (intro frame_conj frame_consistent observed_intros)
  have start: "traced (consistent_history cd) logged_in (\<lambda>_. ?A) (\<lambda>_. consistent_history cd)"
    unfolding logged_in_def by (rule tracedI) auto
  have attempts: "traced ?A (destination_attempts (login_locked cd v hint) m planned n)
      (\<lambda>_. consistent_history cd) (\<lambda>_. consistent_history cd)" for m planned n
    by (rule traced_post, rule consistent_destination [OF _ consistent_login_locked f])
      (auto intro: observed_intros)
  show ?thesis
    unfolding save_auth_value_def Let_def
    by (intro traced_then [OF start] traced_if traced_then [OF traced_managed] traced_then [OF traced_plan_guess]
        attempts traced_refuse_text f) auto
qed

lemma traced_auth_change:
  assumes "r = NoLiveAuth \<Longrightarrow> traced A m1 Q E" "r = NewAccount \<Longrightarrow> traced A m2 Q E"
    "r = UnidentifiedAccount \<Longrightarrow> traced A m3 Q E" "\<And>n. r = TokensUpdated n \<Longrightarrow> traced A (f n) Q E"
    "\<And>ns. r = UnresolvedIdentity ns \<Longrightarrow> traced A (g ns) Q E" "r = NoChange \<Longrightarrow> traced A m4 Q E"
  shows "traced A (case r of NoLiveAuth \<Rightarrow> m1 | NewAccount \<Rightarrow> m2 | UnidentifiedAccount \<Rightarrow> m3
     | TokensUpdated n \<Rightarrow> f n | UnresolvedIdentity ns \<Rightarrow> g ns | NoChange \<Rightarrow> m4) Q E"
  using assms by (cases r) auto

lemma consistent_reconcile [traced_intros]: "keeps cd (reconcile_live_auth_for_tui cd ts)"
  unfolding reconcile_live_auth_for_tui_def
  by (intro traced_then [OF consistent_detect] traced_auth_change traced_then [OF traced_context [OF consistent_update(1)]]
      traced_at_path traced_then [OF traced_context [OF traced_read_auth]] traced_give frame_consistent) auto

section \<open>Saving keeps the trace true\<close>

lemma truthful_door [truthful_intros]: "truthful (write_profile_credentials cd ts name v)"
  unfolding write_profile_credentials_def not_older_checked_def by (intro truthful_intros)

lemma truthful_unique_alias [truthful_intros]: "truthful (unique_alias_attempts base n k)"
  by (induction k arbitrary: n) (auto intro!: truthful_intros)

lemma truthful_identity [truthful_intros]:
  "truthful (resolve_identity_target cd i)" "truthful (find_profile_by_identity_exact cd i)"
  unfolding resolve_identity_target_def find_profile_by_identity_exact_def scan_profiles_by_identity_def
  by (auto intro!: truthful_intros split: list.splits)

lemma truthful_plan [truthful_intros]: "truthful (plan_profile_write cd i hint)"
  unfolding plan_profile_write_def make_unique_alias_def resolve_named_target_def Let_def
  by (intro truthful_intros)

lemma truthful_marker_check [truthful_intros]:
  "truthful (optional_marker_check cd m)" "truthful (ensure_current_marker_unchanged cd n)"
  unfolding optional_marker_check_def ensure_current_marker_unchanged_def by (intro truthful_intros)+

lemma truthful_live_update [truthful_intros]:
  "truthful (live_update_attempts cd ts name expected initial updated n)"
proof (induction n arbitrary: initial updated)
  case (Suc n)
  show ?case
    unfolding live_update_attempts.simps required_live_def by (intro truthful_intros Suc.IH)
qed (simp add: truthful_intros)

lemma truthful_update [truthful_intros]:
  "truthful (update_profile_from_live_guarded cd ts name expected mode)"
  unfolding update_profile_from_live_guarded_def required_live_def by (intro truthful_intros)

lemma truthful_updates [truthful_intros]:
  "truthful (update_profile_from_live cd ts name)"
  "truthful (update_profile_from_live_if_current_marker cd ts name m)"
  "truthful (synchronize_profile_from_live_for_switch_leased cd ts name)"
  unfolding update_profile_from_live_def update_profile_from_live_if_current_marker_def
    synchronize_profile_from_live_for_switch_leased_def
  by (intro truthful_intros)+

lemma truthful_destination [truthful_intros]:
  "(\<And>name. truthful (locked name)) \<Longrightarrow> truthful (destination_attempts locked message planned n)"
  by (induction n arbitrary: planned) (auto intro!: truthful_intros)

lemma truthful_save [truthful_intros]: "truthful (cmd_save cd ts hint)"
  unfolding cmd_save_def save_locked_def by (intro truthful_intros)

lemma truthful_auto_track [truthful_intros]: "truthful (auto_track_current cd ts)"
  unfolding auto_track_current_def by (intro truthful_intros truthful_scan)

lemma truthful_login [truthful_intros]: "truthful (save_auth_value cd v hint)"
proof -
  have "truthful logged_in" unfolding logged_in_def truthful_def by (auto intro: over_event)
  then show ?thesis
    unfolding save_auth_value_def login_locked_def Let_def by (intro truthful_intros)
qed

lemma truthful_reconcile [truthful_intros]: "truthful (reconcile_live_auth_for_tui cd ts)"
  unfolding reconcile_live_auth_for_tui_def
  by (rule truthful_then [OF truthful_detect]) (auto intro!: truthful_intros split: auth_change.splits)

section \<open>What the door does to the saved credentials\<close>

text \<open>Nothing is replaced but by a credential of the same account that is not the older one.\<close>

definition may_replace :: "codec \<Rightarrow> timestamps \<Rightarrow> string option \<Rightarrow> json \<Rightarrow> bool" where
  "may_replace cd ts c v \<longleftrightarrow>
     (case c of
        None \<Rightarrow> True
      | Some b \<Rightarrow> \<exists>old. cd_parse cd b = Inr old \<and> same_account cd old v \<and> not_older ts old v)"

lemma run_admit:
  assumes "\<And>s. P s \<Longrightarrow> E s"
  shows "run (\<lambda>s. P s \<and> parsed_as cd c existing)
     (case existing of
        None \<Rightarrow> give ()
      | Some old \<Rightarrow> also_then (lift (ensure_same_account_identity cd name old v)) (\<lambda>_.
                      not_older_checked ts name old v))
     (\<lambda>_ s. P s \<and> may_replace cd ts c v) E"
proof -
  have age: "run (\<lambda>s. P s \<and> parsed_as cd c (Some old) \<and> same_account cd old v) (not_older_checked ts name old v)
      (\<lambda>_ s. P s \<and> may_replace cd ts c v) E" for old
    unfolding not_older_checked_def
    by (auto split: sum.split intro!: run_intros simp: not_older_checked_Inr parsed_as_def may_replace_def assms)
  have same: "run (\<lambda>s. P s \<and> parsed_as cd c (Some old)) (lift (ensure_same_account_identity cd name old v))
      (\<lambda>_ s. P s \<and> parsed_as cd c (Some old) \<and> same_account cd old v) E" for old
    by (rule run_lift) (auto simp: same_account_iff assms)
  show ?thesis
  proof (cases existing)
    case (Some old)
    show ?thesis unfolding Some option.case by (rule run_then [OF same age])
  qed (auto intro!: run_give simp: parsed_as_def may_replace_def)
qed

lemma run_door:
  "run (saved_are c) (write_profile_credentials cd ts name v)
     (\<lambda>_ s. saved_are (c(name \<mapsto> cd_print cd v)) s \<and> may_replace cd ts (c name) v)
     (\<lambda>s. saved_are c s \<or> (saved_are (c(name \<mapsto> cd_print cd v)) s \<and> may_replace cd ts (c name) v))"
proof -
  let ?E = "\<lambda>s. saved_are c s \<or> (saved_are (c(name \<mapsto> cd_print cd v)) s \<and> may_replace cd ts (c name) v)"
  have store: "run (\<lambda>s. saved_are c s \<and> may_replace cd ts (c name) v)
     (also_then (ensure_profile_parent name) (\<lambda>_. write_profile_auth_durably cd name v))
     (\<lambda>_ s. saved_are (c(name \<mapsto> cd_print cd v)) s \<and> may_replace cd ts (c name) v) ?E"
    by (intro run_then [OF run_parent] run_write_durably settled_conj settled_const settled_saved) auto
  have read: "run (saved_are c) (read_existing_auth cd (ProfileAuth name))
      (\<lambda>w s. saved_are c s \<and> parsed_as cd (c name) w) ?E"
    by (rule run_read_existing [OF settled_saved]) auto
  have here: "run (saved_are c) (also_then (profile_path name) (\<lambda>dst.
     also_then (read_existing_auth cd dst) (\<lambda>existing.
     also_then (case existing of
                  None \<Rightarrow> give ()
                | Some old \<Rightarrow>
                    also_then (lift (ensure_same_account_identity cd name old v)) (\<lambda>_.
                      not_older_checked ts name old v)) (\<lambda>_.
     also_then (ensure_profile_parent name) (\<lambda>_. write_profile_auth_durably cd name v)))))
     (\<lambda>_ s. saved_are (c(name \<mapsto> cd_print cd v)) s \<and> may_replace cd ts (c name) v) ?E"
    by (rule run_path, simp, rule run_then [OF read], rule run_then [OF run_admit store]) simp
  show ?thesis
    unfolding write_profile_credentials_def
    by (rule run_then [OF run_named run_then [OF run_managed(1) here]]) (auto intro: settled_saved)
qed

end
