(* ===== verification/Profile_Refresh.thy ===== *)
theory Profile_Refresh
  imports Profile_Save
begin

text \<open>
  Committing a refreshed credential (\<open>src/src/profile.rs\<close>). The server has already revoked the
  old refresh token, so the new tokens are written to a recovery file before anything else, and
  removed from it only when the profile durably holds them.

  The exact replacement of a recovery file is one access here, with the outcomes that
  \<open>RotationRecoveryStage::persist\<close> distinguishes. The hooks of the source are left out; the two clock
  readings of the transformations are parameters.
\<close>

section \<open>Recovery files\<close>

text \<open>A recovery file is named by its position in the order of creation.\<close>

definition stage_rotation_recovery :: "json \<Rightarrow> nat action" where
  "stage_rotation_recovery v = access (\<lambda>reply s.
     let s' = s\<lparr>st_stages := st_stages s @ [Some v]\<rparr>
     in case reply of
          Fine \<Rightarrow> (Inr (length (st_stages s)), s')
        | Unconfirmed e \<Rightarrow>
            (Inl (plain (''the exact rotated credentials are visible and file-synchronized, but creation of that recovery name is not durably confirmed'' # e)), s')
        | Refused e \<Rightarrow> (Inl (plain e), s)
        | Unclear m _ \<Rightarrow> (Inl (plain [m]), s))"

definition stage_refresh_rotation :: "string \<Rightarrow> json \<Rightarrow> nat action" where
  "stage_refresh_rotation name v =
     also_then (lift (validate_alias name)) (\<lambda>_. stage_rotation_recovery v)"

text \<open>The new path of the stage and the result of the replacement.\<close>

definition persist_stage :: "nat \<Rightarrow> json \<Rightarrow> (nat \<times> unit result) action" where
  "persist_stage i v = access (\<lambda>reply s.
     case reply of
       Fine \<Rightarrow> (Inr (i, Inr ()), s\<lparr>st_stages := (st_stages s)[i := Some v]\<rparr>)
     | Unconfirmed e \<Rightarrow> (Inr (i, Inl e), s\<lparr>st_stages := (st_stages s)[i := Some v]\<rparr>)
     | Refused e \<Rightarrow> (Inr (i, Inl e), s)
     | Unclear m _ \<Rightarrow> (Inr (length (st_stages s), Inl [m]), s\<lparr>st_stages := st_stages s @ [Some v]\<rparr>))"

definition stage_content :: "nat \<Rightarrow> store \<Rightarrow> json option" where
  "stage_content i s = (if i < length (st_stages s) then st_stages s ! i else None)"

definition stage_contains :: "nat \<Rightarrow> json \<Rightarrow> bool action" where
  "stage_contains i v = access (\<lambda>reply s.
     case reply of
       Refused e \<Rightarrow> (Inl (plain e), s)
     | _ \<Rightarrow> (case stage_content i s of
               None \<Rightarrow> (Inl (plain [''rotated credential stage no longer matches its owned file token'']), s)
             | Some w \<Rightarrow> (Inr (w = v), s)))"

definition remove_stage :: "nat \<Rightarrow> unit action" where
  "remove_stage i = access (\<lambda>reply s.
     let s' = s\<lparr>st_stages := (st_stages s)[i := None]\<rparr>
     in case reply of
          Fine \<Rightarrow> (Inr (), s')
        | Unconfirmed e \<Rightarrow> (Inl (plain e), s')
        | Refused e \<Rightarrow> (Inl (plain e), s)
        | Unclear m _ \<Rightarrow> (Inl (plain [m]), s))"

definition stage_present :: "nat \<Rightarrow> bool action" where
  "stage_present i = access (\<lambda>reply s.
     case reply of
       Refused e \<Rightarrow> (Inl (plain e), s)
     | _ \<Rightarrow> (Inr (stage_content i s \<noteq> None), s))"

definition exact_recovery_path_after_cleanup_failure ::
  "nat \<Rightarrow> anyhow \<Rightarrow> (nat option \<times> anyhow) action" where
  "exact_recovery_path_after_cleanup_failure i cleanup =
     also_then (tried (stage_present i)) (\<lambda>r.
       give (case r of
               Inr present \<Rightarrow> (if present then Some i else None, cleanup)
             | Inl f \<Rightarrow> (None, [''exact recovery-stage cleanup failed ('' @ show_chain cleanup
                 @ '') and the path could not be rebound to its original file identity (''
                 @ show_chain (fl_chain f) @ '')''])))"

definition raw_refresh_rotation_material :: "string \<Rightarrow> string \<Rightarrow> string \<Rightarrow> string \<Rightarrow> json" where
  "raw_refresh_rotation_material name id_token access_token refresh_tok =
     JObject [(''recovery_kind'', JString ''validated_token_refresh_response''),
              (''profile_alias'', JString name), (''id_token'', JString id_token),
              (''access_token'', JString access_token), (''refresh_token'', JString refresh_tok)]"

section \<open>Authorisation before the request\<close>

record fresh_authorization =
  fa_alias :: string
  fa_live :: "string option"
  fa_marker :: "string option"
  fa_activate :: bool
  fa_identity :: account_identity
  fa_profile :: json

definition authorize_fresh_credentials_activation :: "codec \<Rightarrow> string \<Rightarrow> fresh_authorization action" where
  "authorize_fresh_credentials_activation cd name =
     also_then (lift (validate_alias name)) (\<lambda>_.
     with_transaction (
       also_then (profile_path name) (\<lambda>p.
       also_then (read_auth cd p) (\<lambda>profile.
       let identity = extract_identity cd profile in
       also_then (lift (with_context
           (''profile '' @ quoted name @ '' cannot safely authorize a single-use token refresh'')
           (require_complete_account_identity name identity))) (\<lambda>_.
       also_then codex_auth_path (\<lambda>_.
       also_then (snapshot_optional_file LiveAuth) (\<lambda>live.
       also_then (read_current_checked cd) (\<lambda>marker.
       also_then (case live of
                    None \<Rightarrow> give False
                  | Some snapshot \<Rightarrow> live_snapshot_belongs_to_auth_value cd name profile snapshot)
         (\<lambda>activate.
            give \<lparr>fa_alias = name, fa_live = live, fa_marker = marker, fa_activate = activate,
                  fa_identity = identity, fa_profile = profile\<rparr>)))))))))"

section \<open>Whether the live credential is replaced too\<close>

datatype fresh_plan = SkipLive | ActivateLive "string option" | IncompleteLive anyhow

definition plan_fresh_live_activation ::
  "codec \<Rightarrow> string \<Rightarrow> fresh_authorization \<Rightarrow> json \<Rightarrow> fresh_plan action" where
  "plan_fresh_live_activation cd name authorization pre_refresh_profile =
     also_then (tried (read_current_checked cd)) (\<lambda>current.
     case current of
       Inl f \<Rightarrow> give (IncompleteLive ((''refreshed profile '' @ quoted name
           @ '' can be made durable, but its active marker could not be revalidated before live-auth activation'')
           # fl_chain f))
     | Inr marker \<Rightarrow>
         if fa_activate authorization \<and> marker = fa_marker authorization
         then give (ActivateLive (fa_live authorization))
         else if marker \<noteq> Some name then give SkipLive
         else
         also_then (tried codex_auth_path) (\<lambda>path.
         case path of
           Inl f \<Rightarrow> give (IncompleteLive (fl_chain f))
         | Inr _ \<Rightarrow>
             also_then (tried (snapshot_optional_file LiveAuth)) (\<lambda>live.
             case live of
               Inl f \<Rightarrow> give (IncompleteLive ((''profile '' @ quoted name
                   @ '' became active while its refresh was in flight, but its exact live-auth snapshot could not be read'')
                   # fl_chain f))
             | Inr None \<Rightarrow> give (IncompleteLive [''profile '' @ quoted name
                   @ '' became active while its refresh was in flight, but live auth is absent; the refreshed profile will be saved without recreating live auth''])
             | Inr (Some current_live) \<Rightarrow>
                 (case cd_parse cd current_live of
                    Inl e \<Rightarrow> give (IncompleteLive ((''profile '' @ quoted name
                        @ '' became active while its refresh was in flight, but live auth is not valid JSON'') # e))
                  | Inr live_json \<Rightarrow>
                      if live_json \<noteq> pre_refresh_profile
                      then give (IncompleteLive [''profile '' @ quoted name
                        @ '' became active while its refresh was in flight, but live auth is not the exact pre-refresh credential; the foreign or newer live credential was not overwritten''])
                      else give (ActivateLive (Some current_live))))))"

section \<open>The commit\<close>

datatype token_update =
    RefreshSaved
  | Superseded nat
  | SavedCommitIncomplete "nat option" anyhow
  | SavedCleanupIncomplete "nat option" anyhow
  | RecoveryPreserved nat anyhow
  | Quarantined nat anyhow

text \<open>After the profile durably holds the tokens: the live credential, then the recovery file.\<close>

definition activate_refreshed :: "codec \<Rightarrow> string \<Rightarrow> json \<Rightarrow> fresh_plan \<Rightarrow> anyhow option action" where
  "activate_refreshed cd name updated plan =
     (case plan of
        SkipLive \<Rightarrow> give None
      | ActivateLive expected_live \<Rightarrow>
          also_then (tried (commit_fresh_credentials_activation cd name updated expected_live)) (\<lambda>r.
            give (case r of Inl f \<Rightarrow> Some (fl_chain f) | Inr _ \<Rightarrow> None))
      | IncompleteLive cause \<Rightarrow> give (Some cause))"

definition clean_stage :: "nat \<Rightarrow> (nat option \<times> anyhow) option action" where
  "clean_stage i =
     also_then (tried (remove_stage i)) (\<lambda>r.
       case r of
         Inr _ \<Rightarrow> give None
       | Inl f \<Rightarrow> also_then (exact_recovery_path_after_cleanup_failure i (fl_chain f)) (\<lambda>x. give (Some x)))"

definition finish_refresh :: "codec \<Rightarrow> string \<Rightarrow> json \<Rightarrow> fresh_plan \<Rightarrow> nat \<Rightarrow> token_update action" where
  "finish_refresh cd name updated plan stage =
     also_then (activate_refreshed cd name updated plan) (\<lambda>activation_error.
     also_then (clean_stage stage) (\<lambda>cleanup_error.
       give (case (activation_error, cleanup_error) of
               (None, None) \<Rightarrow> RefreshSaved
             | (Some cause, None) \<Rightarrow> SavedCommitIncomplete None cause
             | (None, Some (recovery_path, cause)) \<Rightarrow>
                 SavedCleanupIncomplete recovery_path
                   (''the refreshed credential commit completed, but its exact recovery stage could not be removed''
                      # cause)
             | (Some activation, Some (recovery_path, cleanup)) \<Rightarrow>
                 SavedCommitIncomplete recovery_path
                   [''live-auth activation failed ('' @ show_chain activation
                      @ '') and exact recovery-stage cleanup also failed ('' @ show_chain cleanup @ '')''])))"

definition store_refreshed ::
  "codec \<Rightarrow> string \<Rightarrow> json \<Rightarrow> fresh_plan \<Rightarrow> nat \<Rightarrow> token_update action" where
  "store_refreshed cd name updated plan stage =
     also_then (tried (write_auth cd name updated)) (\<lambda>written.
     case written of
       Inl f \<Rightarrow> give (RecoveryPreserved stage (fl_chain f))
     | Inr outcome \<Rightarrow>
         also_then (tried (require_durable_private_write ''refreshed profile credentials'' outcome)) (\<lambda>d.
           case d of
             Inl f \<Rightarrow> give (SavedCommitIncomplete (Some stage) (fl_chain f))
           | Inr _ \<Rightarrow> finish_refresh cd name updated plan stage))"

definition restage_refreshed ::
  "codec \<Rightarrow> string \<Rightarrow> json \<Rightarrow> json \<Rightarrow> fresh_plan \<Rightarrow> nat \<Rightarrow> token_update action" where
  "restage_refreshed cd name staged_value updated plan stage =
     also_then (if updated \<noteq> staged_value then persist_stage stage updated else give (stage, Inr ()))
       (\<lambda>(stage, persisted).
          case persisted of
            Inl cause \<Rightarrow> give (RecoveryPreserved stage
              (''updating the recovery stage with the final profile credential'' # cause))
          | Inr _ \<Rightarrow> store_refreshed cd name updated plan stage)"

text \<open>The saved credential still has the token that was presented: it is brought up to date.\<close>

definition update_refreshed ::
  "codec \<Rightarrow> string \<Rightarrow> fresh_authorization \<Rightarrow> json result \<Rightarrow> json \<Rightarrow> json \<Rightarrow> nat \<Rightarrow> token_update action" where
  "update_refreshed cd name authorization applied staged_value profile stage =
     (case ensure_account_identity_matches name (fa_identity authorization) (extract_identity cd profile) of
        Inl cause \<Rightarrow> give (Quarantined stage
          (''the profile changed account identity while its token refresh was in flight'' # cause))
      | Inr _ \<Rightarrow>
     (case applied of
        Inl cause \<Rightarrow> give (RecoveryPreserved stage cause)
      | Inr updated \<Rightarrow>
     (case ensure_account_identity_matches name (fa_identity authorization) (extract_identity cd updated) of
        Inl cause \<Rightarrow> give (Quarantined stage
          (''the refresh endpoint returned credentials for another account'' # cause))
      | Inr _ \<Rightarrow>
          also_then (tried (validate_managed cd updated)) (\<lambda>managed.
          case managed of
            Inl f \<Rightarrow> give (Quarantined stage
              (''the refreshed credentials violate the managed account policy'' # fl_chain f))
          | Inr _ \<Rightarrow>
              also_then (plan_fresh_live_activation cd name authorization profile) (\<lambda>plan.
                restage_refreshed cd name staged_value updated plan stage)))))"

definition commit_staged_refresh ::
  "codec \<Rightarrow> string \<Rightarrow> fresh_authorization \<Rightarrow> string \<Rightarrow> (json \<Rightarrow> json result) \<Rightarrow> json \<Rightarrow> nat
     \<Rightarrow> token_update action" where
  "commit_staged_refresh cd name authorization presented applied staged_value stage =
     (if refresh_token (fa_profile authorization) \<noteq> Some presented
      then give (Quarantined stage
        [''the pre-request authorization did not contain the refresh token presented to the server''])
      else
     (case ensure_account_identity_matches name (fa_identity authorization) (extract_identity cd staged_value) of
        Inl cause \<Rightarrow> give (Quarantined stage
          (''the refresh endpoint returned credentials for another account'' # cause))
      | Inr _ \<Rightarrow>
          also_then (tried (validate_managed cd staged_value)) (\<lambda>managed.
          case managed of
            Inl f \<Rightarrow> give (Quarantined stage
              (''the refreshed credentials violate the managed account policy'' # fl_chain f))
          | Inr _ \<Rightarrow>
              also_then (tried (also_then (profile_path name) (read_auth cd))) (\<lambda>read.
              case read of
                Inl f \<Rightarrow> give (RecoveryPreserved stage (fl_chain f))
              | Inr profile \<Rightarrow>
                  if refresh_token profile \<noteq> Some presented then give (Superseded stage)
                  else update_refreshed cd name authorization (applied profile) staged_value profile stage))))"

definition commit_under_transaction :: "string \<Rightarrow> nat \<Rightarrow> token_update action \<Rightarrow> token_update action" where
  "commit_under_transaction name stage body =
     also_then (tried (with_transaction body)) (\<lambda>r.
       give (case r of
               Inl f \<Rightarrow> RecoveryPreserved stage
                 ((''refreshed credentials for profile '' @ quoted name
                     @ '' were preserved, but the legacy-compatible auth transaction could not be acquired before profile commit'')
                  # fl_chain f)
             | Inr update \<Rightarrow> update))"

text \<open>\<open>stamp\<close> and \<open>stamp'\<close> are the clock readings of the two transformations.\<close>

definition update_profile_tokens_if_refresh_matches ::
  "codec \<Rightarrow> string result \<Rightarrow> string result \<Rightarrow> string \<Rightarrow> fresh_authorization \<Rightarrow> string
     \<Rightarrow> string \<Rightarrow> string \<Rightarrow> string \<Rightarrow> token_update action" where
  "update_profile_tokens_if_refresh_matches cd stamp stamp' name authorization presented
       id_token access_token new_refresh_token =
     also_then (lift (validate_alias name)) (\<lambda>_.
     if fa_alias authorization \<noteq> name
     then refuse_text (''fresh-credential activation authorization belongs to ''
            @ quoted (fa_alias authorization) @ '', not '' @ quoted name)
     else
     also_then (lift (validate_complete_oauth_tokens id_token access_token new_refresh_token)) (\<lambda>_.
     also_then (in_context (''refreshed credentials for profile '' @ quoted name
           @ '' could not be preserved before local credential transformation'')
         (stage_refresh_rotation name
            (raw_refresh_rotation_material name id_token access_token new_refresh_token))) (\<lambda>stage.
     case apply_tokens stamp (fa_profile authorization) id_token access_token new_refresh_token of
       Inl cause \<Rightarrow> give (RecoveryPreserved stage
         ((''refreshed credentials for profile '' @ quoted name
             @ '' were preserved, but local credential transformation failed'') # cause))
     | Inr staged_value \<Rightarrow>
         also_then (persist_stage stage staged_value) (\<lambda>(stage, persisted).
         case persisted of
           Inl cause \<Rightarrow> give (RecoveryPreserved stage
             ((''refreshed credentials for profile '' @ quoted name
                 @ '' were preserved, but the complete local credential could not replace their raw recovery material'')
              # cause))
         | Inr _ \<Rightarrow>
             commit_under_transaction name stage
               (commit_staged_refresh cd name authorization presented
                  (\<lambda>profile. apply_tokens stamp' profile id_token access_token new_refresh_token)
                  staged_value stage)))))"

text \<open>A response that failed validation is preserved, and installed nowhere.\<close>

definition quarantine_refreshed_credentials :: "string \<Rightarrow> json \<Rightarrow> anyhow \<Rightarrow> token_update action" where
  "quarantine_refreshed_credentials name v cause =
     also_then (in_context (''refreshed credentials for profile '' @ quoted name
           @ '' were rejected, but their recovery copy could not be preserved'')
         (stage_refresh_rotation name v)) (\<lambda>stage.
       give (Quarantined stage cause))"

definition quarantine_invalid_refresh_response ::
  "string \<Rightarrow> fresh_authorization \<Rightarrow> string \<Rightarrow> json \<Rightarrow> anyhow \<Rightarrow> token_update action" where
  "quarantine_invalid_refresh_response name authorization presented recovery cause =
     also_then (lift (validate_alias name)) (\<lambda>_.
       quarantine_refreshed_credentials name recovery
         (if fa_alias authorization \<noteq> name
          then (''refresh-response authorization belongs to '' @ quoted (fa_alias authorization)
                  @ '', not leased profile '' @ quoted name) # cause
          else if refresh_token (fa_profile authorization) \<noteq> Some presented
          then ''the pre-request authorization did not contain the refresh token presented to the server''
                 # cause
          else cause))"

section \<open>Rotated tokens are never lost\<close>

text \<open>A value that contains the new refresh token, and a recovery file or a profile that does.\<close>

definition carries :: "string \<Rightarrow> json \<Rightarrow> bool" where
  "carries r v \<longleftrightarrow> refresh_token v = Some r \<or> jget v ''refresh_token'' = Some (JString r)"

definition kept :: "string \<Rightarrow> nat \<Rightarrow> store \<Rightarrow> bool" where
  "kept r i s \<longleftrightarrow> (\<exists>v. stage_content i s = Some v \<and> carries r v)"

definition installed :: "codec \<Rightarrow> string \<Rightarrow> string \<Rightarrow> store \<Rightarrow> bool" where
  "installed cd name r s \<longleftrightarrow> (\<exists>v. st_auth s name = Some (cd_print cd v) \<and> refresh_token v = Some r)"

definition rotation_safe :: "codec \<Rightarrow> string \<Rightarrow> string \<Rightarrow> token_update \<Rightarrow> store \<Rightarrow> bool" where
  "rotation_safe cd name r u s \<longleftrightarrow>
     (case u of
        RefreshSaved \<Rightarrow> installed cd name r s
      | Superseded i \<Rightarrow> kept r i s
      | SavedCommitIncomplete p _ \<Rightarrow> installed cd name r s \<and> (\<forall>i. p = Some i \<longrightarrow> kept r i s)
      | SavedCleanupIncomplete p _ \<Rightarrow> installed cd name r s \<and> (\<forall>i. p = Some i \<longrightarrow> kept r i s)
      | RecoveryPreserved i _ \<Rightarrow> kept r i s
      | Quarantined i _ \<Rightarrow> kept r i s)"

lemma carries_raw: "carries r (raw_refresh_rotation_material name i a r)"
  by (simp add: carries_def raw_refresh_rotation_material_def jget_def)

lemma carries_applied: "apply_tokens stamp v i a r = Inr v' \<Longrightarrow> carries r v'"
  by (simp add: carries_def refresh_token_apply_tokens)

lemma foreign_stages [simp]: "st_stages (foreign_turn c s) = st_stages s"
  by (cases c) (auto simp: foreign_turn_def)

lemma stage_content_simps [simp]:
  "stage_content i (record_event e s) = stage_content i s" "stage_content i (foreign_turn c s) = stage_content i s"
  "stage_content i (s\<lparr>st_script := x\<rparr>) = stage_content i s" "stage_content i (s\<lparr>st_marker := b\<rparr>) = stage_content i s"
  "stage_content i (s\<lparr>st_locked := l\<rparr>) = stage_content i s"
  "stage_content i (wrote_auth cd name v s) = stage_content i s"
  by (simp_all add: stage_content_def record_event_def wrote_auth_def)

lemma settled_kept: "settled (kept r i)"
  by (auto simp: settled_def kept_def)

lemma kept_release [simp]: "kept r i (record_event e (s\<lparr>st_locked := l\<rparr>)) \<longleftrightarrow> kept r i s"
  "kept r i (wrote_auth cd name v s) \<longleftrightarrow> kept r i s" "kept r i (s\<lparr>st_locked := l\<rparr>) \<longleftrightarrow> kept r i s"
  by (simp_all add: kept_def)

definition held :: "codec \<Rightarrow> string \<Rightarrow> string \<Rightarrow> store \<Rightarrow> bool" where
  "held cd name r s \<longleftrightarrow> st_locked s \<and> installed cd name r s"

lemma heldD: "held cd name r s \<Longrightarrow> installed cd name r s"
  by (simp add: held_def)

lemma settled_held: "settled (held cd name r)"
  by (auto simp: settled_def held_def installed_def record_event_def)

definition locked_kept :: "string \<Rightarrow> nat \<Rightarrow> store \<Rightarrow> bool" where
  "locked_kept r i s \<longleftrightarrow> st_locked s \<and> kept r i s"

lemma settled_locked_kept: "settled (locked_kept r i)"
  using settled_kept [of r i] by (auto simp: settled_def locked_kept_def record_event_def)

lemma locked_keptD: "locked_kept r i s \<Longrightarrow> kept r i s"
  by (simp add: locked_kept_def)

text \<open>The accesses to recovery files.\<close>

lemma run_stage:
  assumes "carries r v"
  shows "run (\<lambda>s. True) (stage_refresh_rotation name v) (\<lambda>i. kept r i) (\<lambda>s. True)"
  unfolding stage_refresh_rotation_def stage_rotation_recovery_def Let_def
  by (intro run_then [where R = "\<lambda>_ s. True"] run_lift run_access)
    (use assms in \<open>auto simp: settled_def kept_def stage_content_def nth_append split: reply.splits\<close>)

lemma run_persist:
  assumes "carries r v"
  shows "run (kept r i) (persist_stage i v) (\<lambda>(j, _). kept r j) (kept r i)"
    "run (locked_kept r i) (persist_stage i v) (\<lambda>(j, _). locked_kept r j) (locked_kept r i)"
  unfolding persist_stage_def
  by (rule run_access; use assms in \<open>auto simp: settled_kept settled_locked_kept locked_kept_def kept_def
      stage_content_def nth_append split: reply.splits if_splits\<close>)+

lemma run_remove:
  "run (\<lambda>s. held cd name r s \<and> kept r i s) (remove_stage i) (\<lambda>_. held cd name r) (held cd name r)"
  unfolding remove_stage_def Let_def
  by (rule run_access [OF settled_conj [OF settled_held settled_kept]])
    (auto simp: held_def installed_def split: reply.splits)

lemma modest_activation [modest_intros]:
  "modest (activation_is_already_exact cd name v expected)"
  "modest (commit_activation_if_live_unchanged cd name v expected)"
  "modest (commit_fresh_credentials_activation cd name v expected)"
  unfolding activation_is_already_exact_def commit_fresh_credentials_activation_def
    commit_activation_if_live_unchanged_def Let_def
  by (intro modest_intros)+

lemma modest_plan [modest_intros]: "modest (plan_fresh_live_activation cd name fa profile)"
  unfolding plan_fresh_live_activation_def by (intro modest_intros)

lemma modest_activate [modest_intros]: "modest (activate_refreshed cd name v plan)"
  unfolding activate_refreshed_def by (cases plan) (simp_all add: modest_intros)

lemma run_clean:
  "run (\<lambda>s. held cd name r s \<and> kept r i s) (clean_stage i)
     (\<lambda>x s. held cd name r s \<and> (\<forall>p c j. x = Some (p, c) \<longrightarrow> p = Some j \<longrightarrow> kept r j s)) (held cd name r)"
proof -
  let ?A = "\<lambda>s. held cd name r s \<and> (kept r i s \<or> stage_content i s = None)"
  have settled: "settled ?A"
    using settled_held [of cd name r] settled_kept [of r i] by (auto simp: settled_def)
  have remove: "run (\<lambda>s. held cd name r s \<and> kept r i s) (tried (remove_stage i)) (\<lambda>_. ?A) (held cd name r)"
  proof (rule run_tried)
    show "run (\<lambda>s. held cd name r s \<and> kept r i s) (remove_stage i) (\<lambda>_. ?A) ?A"
      unfolding remove_stage_def Let_def
      by (rule run_access [OF settled_conj [OF settled_held settled_kept]])
        (auto simp: held_def installed_def stage_content_def split: reply.splits)
  qed
  have present: "run ?A (tried (stage_present i)) (\<lambda>b s. held cd name r s \<and> (b = Inr True \<longrightarrow> kept r i s))
      (held cd name r)"
    unfolding stage_present_def
    by (rule run_tried, rule run_access [OF settled, where E = "held cd name r"])
      (auto split: reply.splits)
  have path: "run ?A (exact_recovery_path_after_cleanup_failure i c)
      (\<lambda>(p, _) s. held cd name r s \<and> (\<forall>j. p = Some j \<longrightarrow> kept r j s)) (held cd name r)" for c
    unfolding exact_recovery_path_after_cleanup_failure_def
    by (rule run_then [OF present]) (auto intro!: run_give split: sum.splits)
  show ?thesis
    unfolding clean_stage_def
    by (rule run_then [OF remove]) (auto intro!: run_sum run_give run_then [OF path])
qed

lemma run_finish:
  "run (\<lambda>s. held cd name r s \<and> kept r i s) (finish_refresh cd name v plan i)
     (rotation_safe cd name r) (\<lambda>s. True)"
proof -
  have activate: "run (\<lambda>s. held cd name r s \<and> kept r i s) (activate_refreshed cd name v plan)
      (\<lambda>_ s. held cd name r s \<and> kept r i s) (\<lambda>s. True)"
    by (rule run_modest [OF modest_activate]) (intro settled_conj settled_held settled_kept, simp)
  have clean: "run (\<lambda>s. held cd name r s \<and> kept r i s) (clean_stage i)
     (\<lambda>x s. installed cd name r s \<and> (\<forall>p c j. x = Some (p, c) \<longrightarrow> p = Some j \<longrightarrow> kept r j s)) (\<lambda>s. True)"
    by (rule run_mono [OF run_clean]) (auto simp: held_def)
  show ?thesis
    unfolding finish_refresh_def
    by (rule run_then [OF activate run_then [OF clean]])
      (auto intro!: run_give simp: rotation_safe_def split: option.splits prod.splits token_update.splits)
qed

lemma sure_activate [sure_intros]: "sure (activate_refreshed cd name v plan)"
  unfolding activate_refreshed_def by (cases plan) (simp_all add: sure_intros)

lemma sure_finish [sure_intros]: "sure (finish_refresh cd name v plan i)"
  unfolding finish_refresh_def clean_stage_def exact_recovery_path_after_cleanup_failure_def
  by (intro sure_intros)

lemma sure_persist [sure_intros]: "sure (persist_stage i v)"
  unfolding persist_stage_def by (rule sure_access) (auto split: reply.split)

lemma sure_plan [sure_intros]: "sure (plan_fresh_live_activation cd name fa profile)"
  unfolding plan_fresh_live_activation_def by (intro sure_intros)

lemma sure_commit [sure_intros]: "sure (commit_staged_refresh cd name fa presented applied v i)"
  unfolding commit_staged_refresh_def update_refreshed_def restage_refreshed_def store_refreshed_def
  by (intro sure_intros)

lemma held_wrote: "refresh_token v = Some r \<Longrightarrow> st_locked s \<Longrightarrow> held cd name r (wrote_auth cd name v s)"
  by (auto simp: held_def installed_def wrote_auth_def record_event_def)

lemma run_store:
  assumes "refresh_token v = Some r"
  shows "run (locked_kept r i) (store_refreshed cd name v plan i) (rotation_safe cd name r) (\<lambda>s. True)"
proof -
  let ?W = "\<lambda>x s. (is_ok x \<longrightarrow> held cd name r s \<and> kept r i s) \<and> (\<not> is_ok x \<longrightarrow> kept r i s)"
  have wrote: "run (locked_kept r i) (tried (write_auth cd name v)) ?W (\<lambda>s. True)"
  proof (rule run_tried)
    show "run (locked_kept r i) (write_auth cd name v) (\<lambda>x. ?W (Inr x)) (kept r i)"
      using assms
      by (intro run_mono [OF run_write_auth [OF settled_locked_kept]])
        (auto simp: locked_kept_def held_wrote)
  qed simp
  have durable: "run (\<lambda>s. held cd name r s \<and> kept r i s) (tried (require_durable_private_write d x))
      (\<lambda>_ s. held cd name r s \<and> kept r i s) (\<lambda>s. True)" for d x
    by (rule run_tried [where E = "\<lambda>s. held cd name r s \<and> kept r i s"]) (auto intro: run_durable)
  show ?thesis
    unfolding store_refreshed_def
  proof (rule run_then [OF wrote], rule run_sum)
    fix written :: "failure + anyhow option" and e
    assume "written = Inl e"
    then show "run (?W written) (give (RecoveryPreserved i (fl_chain e))) (rotation_safe cd name r) (\<lambda>s. True)"
      by (auto intro: run_give simp: rotation_safe_def)
  next
    fix written :: "failure + anyhow option" and outcome
    assume "written = Inr outcome"
    moreover have "run (\<lambda>s. held cd name r s \<and> kept r i s)
      (also_then (tried (require_durable_private_write ''refreshed profile credentials'' outcome)) (\<lambda>d.
           case d of
             Inl f \<Rightarrow> give (SavedCommitIncomplete (Some i) (fl_chain f))
           | Inr _ \<Rightarrow> finish_refresh cd name v plan i)) (rotation_safe cd name r) (\<lambda>s. True)"
      by (rule run_then [OF durable]) (auto intro!: run_sum run_give run_finish simp: rotation_safe_def dest: heldD)
    ultimately show "run (?W written)
      (also_then (tried (require_durable_private_write ''refreshed profile credentials'' outcome)) (\<lambda>d.
           case d of
             Inl f \<Rightarrow> give (SavedCommitIncomplete (Some i) (fl_chain f))
           | Inr _ \<Rightarrow> finish_refresh cd name v plan i)) (rotation_safe cd name r) (\<lambda>s. True)"
      by (elim run_mono) auto
  qed
qed

lemma safe_stage: "kept r i s \<Longrightarrow> rotation_safe cd name r (Quarantined i c) s"
  "kept r i s \<Longrightarrow> rotation_safe cd name r (RecoveryPreserved i c) s"
  "kept r i s \<Longrightarrow> rotation_safe cd name r (Superseded i) s"
  by (simp_all add: rotation_safe_def)

lemma run_restage:
  assumes "refresh_token v = Some r"
  shows "run (locked_kept r i) (restage_refreshed cd name w v plan i) (rotation_safe cd name r) (\<lambda>s. True)"
proof -
  have "run (locked_kept r i) (if v \<noteq> w then persist_stage i v else give (i, Inr ()))
      (\<lambda>(j, _). locked_kept r j) (\<lambda>s. True)"
    using assms by (auto intro!: run_give run_mono [OF run_persist(2)] simp: carries_def)
  then show ?thesis
    unfolding restage_refreshed_def
    by (rule run_then)
      (auto intro!: run_prod run_sum run_give run_store [OF assms] safe_stage dest: locked_keptD)
qed

lemma run_commit:
  assumes "\<And>profile v. applied profile = Inr v \<Longrightarrow> refresh_token v = Some r"
  shows "run (locked_kept r i) (commit_staged_refresh cd name fa presented applied w i)
     (rotation_safe cd name r) (kept r i)"
proof -
  have quiet: "modest m \<Longrightarrow> run (locked_kept r i) m (\<lambda>_. locked_kept r i) (\<lambda>s. True)" for m :: "'a action"
    by (rule run_modest [OF _ settled_locked_kept]) simp_all
  have update: "run (locked_kept r i) (update_refreshed cd name fa (applied profile) w profile i)
      (rotation_safe cd name r) (\<lambda>s. True)" for profile
    unfolding update_refreshed_def
    by (intro run_sum run_give run_then [OF quiet] run_restage modest_intros)
      (auto intro: safe_stage assms dest: locked_keptD)
  have "run (locked_kept r i) (commit_staged_refresh cd name fa presented applied w i)
     (rotation_safe cd name r) (\<lambda>s. True)"
    unfolding commit_staged_refresh_def
    by (intro run_if run_sum run_give run_then [OF quiet] update modest_intros)
      (auto intro: safe_stage dest: locked_keptD)
  then show ?thesis by (rule run_sure [OF sure_commit])
qed

lemma rotation_safe_release [simp]:
  "rotation_safe cd name r u (record_event e (s\<lparr>st_locked := l\<rparr>)) \<longleftrightarrow> rotation_safe cd name r u s"
  by (cases u) (simp_all add: rotation_safe_def installed_def record_event_def, simp_all add: kept_def stage_content_def)

lemma run_commit_transaction:
  assumes "\<And>profile v. applied profile = Inr v \<Longrightarrow> refresh_token v = Some r"
  shows "run (kept r i) (commit_under_transaction name i (commit_staged_refresh cd name fa presented applied w i))
     (rotation_safe cd name r) E"
proof -
  have "run (kept r i) (tried (with_transaction (commit_staged_refresh cd name fa presented applied w i)))
      (\<lambda>x s. case x of Inl _ \<Rightarrow> kept r i s | Inr u \<Rightarrow> rotation_safe cd name r u s) E"
  proof (rule run_tried)
    show "run (kept r i) (with_transaction (commit_staged_refresh cd name fa presented applied w i))
      (\<lambda>u s. case Inr u of Inl _ \<Rightarrow> kept r i s | Inr u \<Rightarrow> rotation_safe cd name r u s) (kept r i)"
      by (rule run_transaction [OF settled_kept]; simp?)
        (rule run_mono [OF run_commit [OF assms]], auto simp: locked_kept_def)
  qed simp
  then show ?thesis
    unfolding commit_under_transaction_def
    by (rule run_then) (auto intro!: run_give simp: rotation_safe_def split: sum.splits)
qed

lemma run_update_tokens:
  "run (\<lambda>s. True)
     (update_profile_tokens_if_refresh_matches cd stamp stamp' name fa presented i a r)
     (rotation_safe cd name r) (\<lambda>s. True)"
proof -
  have stage: "run (\<lambda>s. True) (in_context c (stage_refresh_rotation name (raw_refresh_rotation_material name i a r)))
      (\<lambda>j. kept r j) (\<lambda>s. True)" for c
    by (rule run_context [OF run_stage [OF carries_raw]])
  have persist: "run (kept r j) (persist_stage j v) (\<lambda>(k, _). kept r k) (\<lambda>s. True)"
    if "apply_tokens stamp v' i a r = Inr v" for j v v'
    by (rule run_mono [OF run_persist(1) [OF carries_applied [OF that]]]) auto
  have lift: "run (\<lambda>s. True) (lift x) (\<lambda>_ s. True) (\<lambda>s. True)" for x :: "'x result"
    by (rule run_lift) auto
  show ?thesis
    unfolding update_profile_tokens_if_refresh_matches_def
    by (intro run_then [OF lift] run_if run_refuse run_then [OF stage] run_sum run_give
        run_then [OF persist] run_prod run_commit_transaction)
      (auto intro: safe_stage intro!: run_commit_transaction refresh_token_apply_tokens)
qed

section \<open>Refreshing keeps the trace consistent\<close>

definition authorization_ok :: "codec \<Rightarrow> fresh_authorization \<Rightarrow> event list \<Rightarrow> bool" where
  "authorization_ok cd fa t \<longleftrightarrow> (fa_activate fa \<longrightarrow> replaceable cd (fa_live fa) t)"

lemma lasting_authorization: "lasting (authorization_ok cd fa)"
  using lastingD [OF lasting_replaceable] by (auto simp: authorization_ok_def lasting_def)

lemma owned_live_replaceable:
  "saw_value cd (ProfileAuth name) w t \<Longrightarrow> owned_by cd name w live t \<Longrightarrow> replaceable cd (Some live) t"
  by (auto simp: replaceable_def dest: owned_replaceable)

lemma authorize_ok:
  "traced (consistent_history cd) (authorize_fresh_credentials_activation cd name)
     (\<lambda>fa t. consistent_history cd t \<and> authorization_ok cd fa t) (\<lambda>_. consistent_history cd)"
proof -
  have belongs: "traced A (case live of None \<Rightarrow> give False | Some l \<Rightarrow> live_snapshot_belongs_to_auth_value cd name v l)
      (\<lambda>b t. A t \<and> (b \<longrightarrow> replaceable cd live t)) E"
    if "frame A E" "\<And>t. A t \<Longrightarrow> saw_value cd (ProfileAuth name) v t" for A E v live
    by (intro traced_option traced_give traced_post [OF traced_belongs] that(1))
      (auto dest: owned_live_replaceable that(2))
  show ?thesis
    unfolding authorize_fresh_credentials_activation_def Let_def
    by (intro traced_then [OF traced_lifted] traced_assume consistent_plain_transaction traced_at_path
        traced_then [OF belongs] traced_steps frame_rules frame_consistent frame_guarded observed_intros
        lasting_observed lasting_authorization)
      (auto simp: authorization_ok_def dest: guardedD)
qed

definition plan_ok :: "codec \<Rightarrow> fresh_plan \<Rightarrow> event list \<Rightarrow> bool" where
  "plan_ok cd plan t \<longleftrightarrow> (\<forall>e. plan = ActivateLive e \<longrightarrow> replaceable cd e t)"

lemma lasting_plan: "lasting (plan_ok cd plan)"
  using lastingD [OF lasting_replaceable] by (auto simp: plan_ok_def lasting_def)

lemma traced_quietly:
  assumes "traced A m (\<lambda>x t. A t \<and> Q x t) (\<lambda>_. A)"
  shows "traced A (tried m) (\<lambda>r t. A t \<and> (\<forall>x. r = Inr x \<longrightarrow> Q x t)) E"
  by (rule traced_tried, rule traced_mono [OF assms]) auto

lemma traced_quiet_steps:
  assumes "frame A E"
  shows "traced A (tried (read_current_checked cd)) (\<lambda>_. A) E"
    "traced A (tried codex_auth_path) (\<lambda>_. A) E" "traced A (tried (validate_managed cd v)) (\<lambda>_. A) E"
    "traced A (tried (snapshot_optional_file p)) (\<lambda>r t. A t \<and> (\<forall>c. r = Inr c \<longrightarrow> Saw p c \<in> set t)) E"
proof -
  note f = frame_self [OF assms]
  show "traced A (tried (read_current_checked cd)) (\<lambda>_. A) E"
    by (rule traced_tried_weak, rule traced_mono [OF traced_marker [OF f]]) auto
  show "traced A (tried codex_auth_path) (\<lambda>_. A) E" "traced A (tried (validate_managed cd v)) (\<lambda>_. A) E"
    by (rule traced_tried_weak, rule traced_live_path [OF f])
      (rule traced_tried_weak, rule traced_managed [OF f])
  show "traced A (tried (snapshot_optional_file p)) (\<lambda>r t. A t \<and> (\<forall>c. r = Inr c \<longrightarrow> Saw p c \<in> set t)) E"
    by (rule traced_quietly [OF traced_see [OF f]])
qed

lemma traced_fresh_plan:
  assumes "frame A E" "\<And>t. A t \<Longrightarrow> authorization_ok cd fa t \<and> saved_value cd name profile t"
  shows "traced A (plan_fresh_live_activation cd name fa profile) (\<lambda>plan t. A t \<and> plan_ok cd plan t) E"
  unfolding plan_fresh_live_activation_def
  by (intro traced_then [OF traced_quiet_steps(1)] traced_then [OF traced_quiet_steps(2)]
      traced_then [OF traced_quiet_steps(4)] traced_intros assms(1))
    (auto simp: plan_ok_def authorization_ok_def replaceable_def dest: assms(2) intro: saved_copyI)

lemma traced_stage_accesses:
  assumes "frame A E"
  shows "traced A (stage_refresh_rotation name v) (\<lambda>_. A) E" "traced A (persist_stage i v) (\<lambda>_. A) E"
    "traced A (remove_stage i) (\<lambda>_. A) E" "traced A (stage_present i) (\<lambda>_. A) E"
proof -
  have "traced A (stage_rotation_recovery v) (\<lambda>_. A) E"
    unfolding stage_rotation_recovery_def Let_def
    by (rule traced_access) (auto simp: frame_error [OF assms] split: reply.splits)
  then show "traced A (stage_refresh_rotation name v) (\<lambda>_. A) E"
    unfolding stage_refresh_rotation_def
    by (intro traced_then [OF traced_lifted [OF assms]] traced_assume)
  show "traced A (persist_stage i v) (\<lambda>_. A) E"
    unfolding persist_stage_def by (rule traced_access) (auto split: reply.splits)
  show "traced A (remove_stage i) (\<lambda>_. A) E" "traced A (stage_present i) (\<lambda>_. A) E"
    unfolding remove_stage_def stage_present_def Let_def
    by (rule traced_access, auto simp: frame_error [OF assms] split: reply.splits)+
qed

lemma traced_clean:
  assumes "frame A E"
  shows "traced A (clean_stage i) (\<lambda>_. A) E"
proof -
  note f = frame_self [OF assms]
  have "traced A (exact_recovery_path_after_cleanup_failure i c) (\<lambda>_. A) E" for c
    unfolding exact_recovery_path_after_cleanup_failure_def
    by (intro traced_then [OF traced_tried_weak [OF traced_stage_accesses(4) [OF f]]] traced_give)
  then show ?thesis
    unfolding clean_stage_def
    by (intro traced_then [OF traced_tried_weak [OF traced_stage_accesses(3) [OF f]]] traced_sum traced_give)
      (auto intro: traced_then traced_give)
qed

definition ready :: "codec \<Rightarrow> string \<Rightarrow> json \<Rightarrow> fresh_plan \<Rightarrow> event list \<Rightarrow> bool" where
  "ready cd name v plan t \<longleftrightarrow> guarded cd t \<and> plan_ok cd plan t \<and> profile_ok cd name (cd_print cd v) t"

definition stored :: "codec \<Rightarrow> string \<Rightarrow> json \<Rightarrow> fresh_plan \<Rightarrow> event list \<Rightarrow> bool" where
  "stored cd name v plan t \<longleftrightarrow> consistent_history cd t \<and> plan_ok cd plan t \<and> holds cd name v t"

lemma frame_stored: "frame (stored cd name v plan) (\<lambda>_. consistent_history cd)"
  unfolding stored_def [abs_def]
  by (intro frame_conj frame_consistent observed_conj observed_intros lasting_observed lasting_plan)

lemma consistent_finish:
  "traced (stored cd name v plan) (finish_refresh cd name v plan i) (\<lambda>_. consistent_history cd)
     (\<lambda>_. consistent_history cd)"
proof -
  have activate: "traced (stored cd name v plan) (activate_refreshed cd name v plan)
      (\<lambda>_. consistent_history cd) (\<lambda>_. consistent_history cd)"
  proof (cases plan)
    case (ActivateLive e)
    have "traced (stored cd name v plan) (tried (commit_fresh_credentials_activation cd name v e))
        (\<lambda>_. consistent_history cd) (\<lambda>_. consistent_history cd)"
      by (rule traced_tried_weak, rule consistent_fresh [OF frame_stored])
        (simp add: stored_def publishable_def plan_ok_def ActivateLive)
    then show ?thesis
      unfolding ActivateLive activate_refreshed_def fresh_plan.case by (rule traced_then) (rule traced_give)
  qed (auto simp: activate_refreshed_def stored_def intro: traced_give)
  show ?thesis
    unfolding finish_refresh_def
    by (intro traced_then [OF activate] traced_then [OF traced_clean] traced_give frame_consistent)
qed

lemma looked_profile_ok: "looked (profile_ok cd name new)"
  unfolding looked_def
proof (intro allI impI)
  fix e t
  assume "look_event e" "profile_ok cd name new t"
  then obtain c where "c \<in> set (seen_since name t)" and
    "case c of None \<Rightarrow> True
     | Some b \<Rightarrow> (\<exists>v w. cd_parse cd b = Inr v \<and> new = cd_print cd w \<and> same_account cd v w) \<or> ArchivedCopy name b \<in> set t"
    unfolding profile_ok_def by blast
  then show "profile_ok cd name new (e # t)"
    using seen_since_look [OF \<open>look_event e\<close>, of name t] unfolding profile_ok_def
    by (intro bexI [of _ c]) (auto split: option.splits)
qed

lemma frame_ready: "frame (ready cd name v plan) (\<lambda>_. consistent_history cd)"
proof -
  have "frame (\<lambda>t. (guarded cd t \<and> plan_ok cd plan t) \<and> profile_ok cd name (cd_print cd v) t) (\<lambda>_. consistent_history cd)"
    by (intro frame_looked [OF _ looked_profile_ok] frame_conj frame_guarded lasting_observed lasting_plan)
  then show ?thesis by (simp add: ready_def [abs_def] conj_assoc)
qed

lemma consistent_store:
  "traced (ready cd name v plan) (store_refreshed cd name v plan i) (\<lambda>_. consistent_history cd)
     (\<lambda>_. consistent_history cd)"
proof -
  have f: "frame (ready cd name v plan) (\<lambda>_. ready cd name v plan)" by (rule frame_self [OF frame_ready])
  have wrote: "traced (ready cd name v plan) (tried (write_auth cd name v))
      (\<lambda>r t. consistent_history cd t \<and> (\<forall>x. r = Inr x \<longrightarrow> stored cd name v plan t)) (\<lambda>_. consistent_history cd)"
  proof (rule traced_tried)
    have "traced (ready cd name v plan) (write_auth cd name v) (\<lambda>_. stored cd name v plan) (\<lambda>_. ready cd name v plan)"
      by (rule traced_write_auth [OF f])
        (auto simp: ready_def stored_def guarded_def intro: wrote_holds lastingD [OF lasting_plan])
    then show "traced (ready cd name v plan) (write_auth cd name v)
        (\<lambda>y t. consistent_history cd t \<and> (\<forall>x. Inr y = (Inr x :: failure + _) \<longrightarrow> stored cd name v plan t))
        (\<lambda>e t. consistent_history cd t \<and> (\<forall>x. Inl e = (Inr x :: failure + anyhow option) \<longrightarrow> stored cd name v plan t))"
      by (rule traced_mono) (auto simp: ready_def stored_def guarded_def)
  qed
  have durable: "traced (stored cd name v plan) (tried (require_durable_private_write d x))
      (\<lambda>_. stored cd name v plan) (\<lambda>_. consistent_history cd)" for d x
    by (rule traced_tried_weak) (auto intro: traced_durable)
  have rest: "traced (stored cd name v plan)
     (also_then (tried (require_durable_private_write d x)) (\<lambda>d.
           case d of
             Inl f \<Rightarrow> give (SavedCommitIncomplete (Some i) (fl_chain f))
           | Inr _ \<Rightarrow> finish_refresh cd name v plan i)) (\<lambda>_. consistent_history cd)
      (\<lambda>_. consistent_history cd)" for d x
    by (intro traced_then [OF durable] traced_sum traced_give consistent_finish) (simp add: stored_def)
  show ?thesis
    unfolding store_refreshed_def
    by (rule traced_then [OF wrote], rule traced_sum) (auto intro!: traced_give traced_mono [OF rest])
qed

lemma consistent_restage:
  "traced (ready cd name v plan) (restage_refreshed cd name w v plan i) (\<lambda>_. consistent_history cd)
     (\<lambda>_. consistent_history cd)"
proof -
  have "traced (ready cd name v plan) (if v \<noteq> w then persist_stage i v else give (i, Inr ()))
      (\<lambda>_. ready cd name v plan) (\<lambda>_. consistent_history cd)"
    by (intro traced_if traced_stage_accesses(2) traced_give frame_ready)
  then show ?thesis
    unfolding restage_refreshed_def
    by (rule traced_then) (intro traced_prod traced_sum traced_give consistent_store, simp add: ready_def guarded_def)
qed

lemma refreshed_ready:
  assumes "guarded cd t" "known cd name (Some profile) t" "plan_ok cd plan t"
    "ensure_account_identity_matches name i (extract_identity cd profile) = Inr ()"
    "ensure_account_identity_matches name i (extract_identity cd v) = Inr ()"
  shows "ready cd name v plan t"
proof -
  have "same_account cd profile v"
    using assms(4,5) by (auto simp: exact_identity_matches_iff same_account_def)
  with assms(1-3) show ?thesis by (auto simp: ready_def intro: replaced_ok)
qed

lemma consistent_update_refreshed:
  "traced (\<lambda>t. (guarded cd t \<and> authorization_ok cd fa t \<and> saved_value cd name profile t) \<and> known cd name (Some profile) t)
     (update_refreshed cd name fa applied w profile i) (\<lambda>_. consistent_history cd) (\<lambda>_. consistent_history cd)"
proof -
  let ?A = "\<lambda>t. (guarded cd t \<and> authorization_ok cd fa t \<and> saved_value cd name profile t) \<and> known cd name (Some profile) t"
  have f: "frame ?A (\<lambda>_. consistent_history cd)"
    by (intro frame_known frame_conj frame_guarded observed_conj observed_intros lasting_observed lasting_authorization)
  have plan: "traced ?A (plan_fresh_live_activation cd name fa profile) (\<lambda>plan t. ?A t \<and> plan_ok cd plan t)
      (\<lambda>_. consistent_history cd)"
    by (rule traced_fresh_plan [OF f]) auto
  have rest: "traced ?A (also_then (plan_fresh_live_activation cd name fa profile) (\<lambda>plan.
       restage_refreshed cd name w v plan i)) (\<lambda>_. consistent_history cd) (\<lambda>_. consistent_history cd)"
    if "ensure_account_identity_matches name (fa_identity fa) (extract_identity cd profile) = Inr ()"
      "ensure_account_identity_matches name (fa_identity fa) (extract_identity cd v) = Inr ()" for v
    by (rule traced_then [OF plan], rule traced_mono [OF consistent_restage])
      (auto intro: refreshed_ready [OF _ _ _ that])
  show ?thesis
    unfolding update_refreshed_def
    by (intro traced_sum traced_give traced_then [OF traced_quiet_steps(3)] rest f) (auto dest: guardedD)
qed

lemma consistent_commit_staged:
  "traced (\<lambda>t. guarded cd t \<and> authorization_ok cd fa t)
     (commit_staged_refresh cd name fa presented applied w i) (\<lambda>_. consistent_history cd) (\<lambda>_. consistent_history cd)"
proof -
  let ?A = "\<lambda>t. guarded cd t \<and> authorization_ok cd fa t"
  have f: "frame ?A (\<lambda>_. consistent_history cd)"
    by (intro frame_conj frame_guarded lasting_observed lasting_authorization)
  have read: "traced ?A (tried (also_then (profile_path name) (read_auth cd)))
      (\<lambda>r t. ?A t \<and> (\<forall>v. r = Inr v \<longrightarrow> saved_value cd name v t \<and> known cd name (Some v) t)) (\<lambda>_. consistent_history cd)"
    by (rule traced_quietly, rule traced_at_path [OF frame_self [OF f]],
        rule traced_know_auth [OF frame_self [OF f]]) (auto dest: guardedD)
  have update: "traced A (update_refreshed cd name fa ap w profile i) (\<lambda>_. consistent_history cd) (\<lambda>_. consistent_history cd)"
    if "\<And>t. A t \<Longrightarrow> ?A t \<and> saved_value cd name profile t \<and> known cd name (Some profile) t" for A ap profile
    by (rule traced_mono [OF consistent_update_refreshed]) (use that in auto)
  show ?thesis
    unfolding commit_staged_refresh_def
    by (intro traced_if traced_sum traced_give traced_then [OF traced_quiet_steps(3)] traced_then [OF read] update f)
      (auto dest: guardedD)
qed

lemma consistent_commit_transaction:
  "traced (\<lambda>t. consistent_history cd t \<and> authorization_ok cd fa t)
     (commit_under_transaction name i (commit_staged_refresh cd name fa presented applied w i))
     (\<lambda>_. consistent_history cd) E"
proof -
  have "traced (\<lambda>t. consistent_history cd t \<and> authorization_ok cd fa t)
      (with_transaction (commit_staged_refresh cd name fa presented applied w i))
      (\<lambda>_. consistent_history cd) (\<lambda>_. consistent_history cd)"
    by (rule consistent_transaction [OF consistent_commit_staged])
      (auto intro: lasting_observed lasting_authorization observed_consistent)
  then show ?thesis
    unfolding commit_under_transaction_def by (intro traced_then [OF traced_tried_weak] traced_give)
qed

lemma consistent_update_tokens:
  "traced (\<lambda>t. consistent_history cd t \<and> authorization_ok cd fa t)
     (update_profile_tokens_if_refresh_matches cd stamp stamp' name fa presented i a r)
     (\<lambda>_. consistent_history cd) (\<lambda>_. consistent_history cd)"
proof -
  let ?A = "\<lambda>t. consistent_history cd t \<and> authorization_ok cd fa t"
  have f: "frame ?A (\<lambda>_. consistent_history cd)"
    by (intro frame_conj frame_consistent lasting_observed lasting_authorization)
  show ?thesis
    unfolding update_profile_tokens_if_refresh_matches_def
    by (intro traced_then [OF traced_lifted] traced_assume traced_if traced_refuse_text traced_sum traced_give
        traced_then [OF traced_context [OF traced_stage_accesses(1)]] traced_then [OF traced_stage_accesses(2)]
        traced_prod consistent_commit_transaction f) auto
qed

text \<open>A refresh: the authorisation, the answer of the server, and the commit, under one lease.\<close>

lemma consistent_quarantine: "keeps cd (quarantine_invalid_refresh_response name fa presented v cause)"
  unfolding quarantine_invalid_refresh_response_def quarantine_refreshed_credentials_def
  by (intro traced_then [OF traced_lifted] traced_assume traced_then [OF traced_context [OF traced_stage_accesses(1)]]
      traced_give frame_consistent)

lemma truthful_stages [truthful_intros]:
  "truthful (stage_rotation_recovery v)" "truthful (stage_refresh_rotation name v)" "truthful (persist_stage i v)"
  "truthful (remove_stage i)" "truthful (stage_present i)" "truthful (stage_contains i v)"
  unfolding stage_refresh_rotation_def stage_rotation_recovery_def persist_stage_def remove_stage_def
    stage_present_def stage_contains_def Let_def
  by (intro truthful_intros truthful_access; auto split: reply.splits option.splits)+

lemma truthful_authorize [truthful_intros]: "truthful (authorize_fresh_credentials_activation cd name)"
  unfolding authorize_fresh_credentials_activation_def Let_def by (intro truthful_intros)

lemma truthful_fresh_plan [truthful_intros]: "truthful (plan_fresh_live_activation cd name fa profile)"
  unfolding plan_fresh_live_activation_def by (intro truthful_intros)

lemma truthful_finish [truthful_intros]: "truthful (finish_refresh cd name v plan i)"
proof -
  have "truthful (activate_refreshed cd name v plan)"
    unfolding activate_refreshed_def by (cases plan; simp; intro truthful_intros)
  then show ?thesis
    unfolding finish_refresh_def clean_stage_def exact_recovery_path_after_cleanup_failure_def
    by (intro truthful_intros)
qed

lemma truthful_commit_staged [truthful_intros]:
  "truthful (commit_staged_refresh cd name fa presented applied w i)"
  unfolding commit_staged_refresh_def update_refreshed_def restage_refreshed_def store_refreshed_def
  by (intro truthful_intros)

lemma truthful_update_tokens [truthful_intros]:
  "truthful (update_profile_tokens_if_refresh_matches cd stamp stamp' name fa presented i a r)"
  unfolding update_profile_tokens_if_refresh_matches_def commit_under_transaction_def
  by (intro truthful_intros)

lemma truthful_quarantine [truthful_intros]:
  "truthful (quarantine_invalid_refresh_response name fa presented v cause)"
  unfolding quarantine_invalid_refresh_response_def quarantine_refreshed_credentials_def
  by (intro truthful_intros)

end
