(* ===== verification/Profile_Admin.thy ===== *)
theory Profile_Admin
  imports Profile_Refresh
begin

text \<open>
  Deleting, renaming and re-authorising a profile (\<open>src/src/profile.rs\<close>).

  The revision of a file is represented by its bytes. Purging and renaming the cached entries of
  a profile are calls into the cache (Cache_Store); a directory rename is one access.
\<close>

section \<open>Directories\<close>

definition move_profile :: "string \<Rightarrow> string \<Rightarrow> store \<Rightarrow> store" where
  "move_profile a b s =
     record_event (MovedProfile a b)
       (s\<lparr>st_auth := (st_auth s)(b := st_auth s a, a := None),
         st_names := add_name b (removeAll a (st_names s))\<rparr>)"

definition archive_profile :: "string \<Rightarrow> store \<Rightarrow> store" where
  "archive_profile a s =
     record_event (ArchivedProfile a)
       (s\<lparr>st_auth := (st_auth s)(a := None), st_names := removeAll a (st_names s)\<rparr>)"

text \<open>A rename without replacement; the warning is that its durability is unconfirmed.\<close>

definition rename_directory :: "string \<Rightarrow> (store \<Rightarrow> bool) \<Rightarrow> (store \<Rightarrow> store) \<Rightarrow> anyhow option action" where
  "rename_directory c free f = access (\<lambda>reply s.
     case reply of
       Refused e \<Rightarrow> (Inl (plain (c # e)), s)
     | Unclear m _ \<Rightarrow> (Inl (plain [c, m]), s)
     | Fine \<Rightarrow> if free s then (Inr None, f s) else (Inl (plain [c, ''File exists'']), s)
     | Unconfirmed e \<Rightarrow> if free s then (Inr (Some e), f s) else (Inl (plain [c, ''File exists'']), s))"

definition rename_profile_directory :: "string \<Rightarrow> string \<Rightarrow> anyhow option action" where
  "rename_profile_directory a b =
     rename_directory (''renaming profile '' @ a @ '' -> '' @ b)
       (\<lambda>s. b \<notin> set (st_names s)) (move_profile a b)"

definition archive_profile_directory :: "string \<Rightarrow> anyhow option action" where
  "archive_profile_directory a =
     rename_directory (''archiving profile directory '' @ a) (\<lambda>_. True) (archive_profile a)"

definition restore_marker :: "string option \<Rightarrow> unit action" where
  "restore_marker snapshot =
     (case snapshot of
        None \<Rightarrow> clear_current
      | Some bytes \<Rightarrow> write_marker_bytes ''current profile marker'' bytes)"

text \<open>A call into the cache that fails or works.\<close>

definition purge_cached_profile :: "string \<Rightarrow> unit action" where
  "purge_cached_profile name = also_then cache_call (\<lambda>_. give ())"

definition rename_cached_profile :: "string \<Rightarrow> string \<Rightarrow> anyhow option action" where
  "rename_cached_profile a b = cache_call"

text \<open>The warning of a committed mutation.\<close>

definition committed_with_warnings :: "anyhow list \<Rightarrow> anyhow option" where
  "committed_with_warnings warnings =
     (case warnings of
        [] \<Rightarrow> None
      | [w] \<Rightarrow> Some w
      | ws \<Rightarrow> Some [''multiple durability confirmations failed: '' @ join ''; '' (map show_chain ws)])"

section \<open>Deleting\<close>

definition active_delete_error :: "string \<Rightarrow> failure" where
  "active_delete_error name =
     \<lparr>fl_kind = ActiveDeleteError name, fl_chain = [''cannot delete active profile '' @ quoted name]\<rparr>"

definition delete_locked :: "codec \<Rightarrow> string \<Rightarrow> anyhow option action" where
  "delete_locked cd name =
     also_then (directory_exists name) (\<lambda>exists.
     if \<not> exists then refuse (not_found name)
     else
     also_then (profile_path name) (\<lambda>p.
     also_then (read_auth cd p) (\<lambda>_.
     also_then (live_belongs_to_profile cd name) (\<lambda>active.
     if active then refuse (active_delete_error name)
     else
     also_then (snapshot_optional_file MarkerFile) (\<lambda>snapshot.
     also_then (read_current_checked cd) (\<lambda>current.
     let stale_marker = (current = Some name) in
     also_then (purge_cached_profile name) (\<lambda>_.
     also_then (if stale_marker then repair_stale_current_marker cd name else give ()) (\<lambda>_.
     also_then (tried (archive_profile_directory name)) (\<lambda>archived.
     case archived of
       Inr None \<Rightarrow> give None
     | Inr (Some cause) \<Rightarrow>
         give (committed_with_warnings
           [[''profile '' @ quoted name @ '' is visibly archived, but the directory rename durability could not be confirmed: ''
               @ show_chain cause]])
     | Inl f \<Rightarrow>
         if stale_marker
         then also_then (tried (restore_marker snapshot)) (\<lambda>r.
                case r of
                  Inl rollback \<Rightarrow> refuse_text (''deleting profile failed ('' @ show_chain (fl_chain f)
                    @ '') and restoring its current marker failed ('' @ show_chain (fl_chain rollback) @ '')'')
                | Inr _ \<Rightarrow> refuse f)
         else refuse f)))))))))"

definition cmd_delete :: "codec \<Rightarrow> string \<Rightarrow> anyhow option action" where
  "cmd_delete cd name =
     also_then (lift (validate_alias name)) (\<lambda>_.
       with_lease name (with_transaction (delete_locked cd name)))"

section \<open>Renaming\<close>

text \<open>The message of a failed rollback, or the error of the rename that was rolled back.\<close>

definition rename_rolled_back :: "failure \<Rightarrow> string list \<Rightarrow> string list \<Rightarrow> 'a action" where
  "rename_rolled_back error errors uncertainties =
     (if errors = [] \<and> uncertainties = []
      then refuse (error\<lparr>fl_chain := ''updating current marker after profile rename; rename rolled back''
                                     # fl_chain error\<rparr>)
      else if errors = []
      then refuse_text (''updating current marker after profile rename failed ('' @ show_chain (fl_chain error)
             @ ''); the rename was visibly rolled back, but rollback durability could not be confirmed: ''
             @ join ''; '' uncertainties)
      else refuse_text (''updating current marker after profile rename failed ('' @ show_chain (fl_chain error)
             @ ''); rollback also failed: '' @ join ''; '' (errors @ uncertainties)))"

definition rollback_entry :: "string \<Rightarrow> string \<Rightarrow> failure + anyhow option \<Rightarrow> string list \<times> string list" where
  "rollback_entry failed unsure r =
     (case r of
        Inr None \<Rightarrow> ([], [])
      | Inr (Some cause) \<Rightarrow> ([], [unsure @ show_chain cause])
      | Inl f \<Rightarrow> ([failed @ show_chain (fl_chain f)], []))"

definition roll_rename_back :: "string \<Rightarrow> string \<Rightarrow> string option \<Rightarrow> failure \<Rightarrow> 'a action" where
  "roll_rename_back old_alias new_alias snapshot error =
     also_then (tried (rename_cached_profile new_alias old_alias)) (\<lambda>cache.
     also_then (tried (rename_profile_directory new_alias old_alias)) (\<lambda>directory.
     also_then (tried (restore_marker snapshot)) (\<lambda>marker.
     let (cache_errors, cache_unsure) = rollback_entry ''cache: '' ''cache directory durability: '' cache;
         (dir_errors, dir_unsure) =
           rollback_entry ''profile directory: '' ''profile directory durability: '' directory;
         marker_errors = (case marker of Inl f \<Rightarrow> [''current marker: '' @ show_chain (fl_chain f)] | Inr _ \<Rightarrow> [])
     in rename_rolled_back error (cache_errors @ dir_errors @ marker_errors) (cache_unsure @ dir_unsure))))"

definition rename_cache_or_restore :: "string \<Rightarrow> string \<Rightarrow> anyhow option action" where
  "rename_cache_or_restore old_alias new_alias =
     also_then (tried (rename_cached_profile old_alias new_alias)) (\<lambda>r.
       case r of
         Inr warning \<Rightarrow> give warning
       | Inl f \<Rightarrow>
           also_then (tried (rename_profile_directory new_alias old_alias)) (\<lambda>back.
             case back of
               Inr None \<Rightarrow> refuse (f\<lparr>fl_chain :=
                 ''renaming profile cache state; profile directory rename rolled back'' # fl_chain f\<rparr>)
             | Inr (Some cause) \<Rightarrow> refuse_text (''renaming profile cache failed ('' @ show_chain (fl_chain f)
                 @ ''); the profile directory was visibly restored, but rollback durability could not be confirmed (''
                 @ show_chain cause @ '')'')
             | Inl rollback \<Rightarrow> refuse_text (''renaming profile cache failed ('' @ show_chain (fl_chain f)
                 @ '') and restoring the profile directory failed ('' @ show_chain (fl_chain rollback) @ '')'')))"

definition rename_warnings :: "string \<Rightarrow> string \<Rightarrow> anyhow option \<Rightarrow> anyhow option \<Rightarrow> anyhow list" where
  "rename_warnings old_alias new_alias cache directory =
     (case cache of
        None \<Rightarrow> []
      | Some c \<Rightarrow> [[''profile cache was renamed from '' @ quoted old_alias @ '' to '' @ quoted new_alias
                    @ '', but directory durability could not be confirmed: '' @ show_chain c]])
     @ (case directory of
          None \<Rightarrow> []
        | Some c \<Rightarrow> [[''profile was visibly renamed from '' @ quoted old_alias @ '' to '' @ quoted new_alias
                      @ '', but directory durability could not be confirmed: '' @ show_chain c]])"

definition rename_locked :: "codec \<Rightarrow> string \<Rightarrow> string \<Rightarrow> anyhow option action" where
  "rename_locked cd old_alias new_alias =
     also_then (directory_exists old_alias) (\<lambda>exists.
     if \<not> exists then refuse (not_found old_alias)
     else
     also_then (directory_exists new_alias) (\<lambda>taken.
     if taken then refuse_text (''profile '' @ quoted new_alias @ '' already exists'')
     else
     also_then (profile_path old_alias) (\<lambda>p.
     also_then (read_auth cd p) (\<lambda>_.
     also_then (live_belongs_to_profile cd old_alias) (\<lambda>live_was_old.
     also_then (snapshot_optional_file MarkerFile) (\<lambda>snapshot.
     also_then (read_current_checked cd) (\<lambda>current.
     also_then (rename_profile_directory old_alias new_alias) (\<lambda>directory_warning.
     also_then (rename_cache_or_restore old_alias new_alias) (\<lambda>cache_warning.
     also_then (tried (if live_was_old then write_current new_alias
                       else if current = Some old_alias then repair_stale_current_marker cd old_alias
                       else give ())) (\<lambda>marker.
     case marker of
       Inl error \<Rightarrow> roll_rename_back old_alias new_alias snapshot error
     | Inr _ \<Rightarrow>
         give (committed_with_warnings
                 (rename_warnings old_alias new_alias cache_warning directory_warning))))))))))))"

definition profile_rename :: "codec \<Rightarrow> string \<Rightarrow> string \<Rightarrow> anyhow option action" where
  "profile_rename cd old_alias new_alias =
     also_then (lift (validate_alias old_alias)) (\<lambda>_.
     also_then (lift (validate_alias new_alias)) (\<lambda>_.
     if old_alias = new_alias then refuse_text ''old and new profile aliases are identical''
     else with_leases [old_alias, new_alias] (with_transaction (rename_locked cd old_alias new_alias))))"

section \<open>Re-authorising\<close>

datatype reauth_proof = StrictProof strict_account_binding | IncompleteProof account_identity string

record prepared_reauth =
  pr_alias :: string
  pr_proof :: reauth_proof

definition prepare_profile_reauth_with_lease :: "codec \<Rightarrow> string \<Rightarrow> prepared_reauth action" where
  "prepare_profile_reauth_with_lease cd name =
     also_then (profile_path name) (\<lambda>p.
     also_then (read_existing_auth cd p) (\<lambda>existing.
     case existing of
       None \<Rightarrow> refuse (not_found name)
     | Some v \<Rightarrow>
         (case strict_binding (account_info_from_auth_value cd v) of
            Some binding \<Rightarrow> give \<lparr>pr_alias = name, pr_proof = StrictProof binding\<rparr>
          | None \<Rightarrow>
              also_then (in_context (''binding incomplete profile '' @ quoted name @ '' before re-login'')
                           (required_bytes p)) (\<lambda>revision.
                give \<lparr>pr_alias = name, pr_proof = IncompleteProof (extract_identity cd v) revision\<rparr>))))"

text \<open>After the new credential is in the profile: the live credential or a stale marker follows.\<close>

definition follow_replacement ::
  "codec \<Rightarrow> string \<Rightarrow> json \<Rightarrow> string option \<Rightarrow> bool \<Rightarrow> unit action" where
  "follow_replacement cd name v live_snapshot was_active =
     (if was_active then commit_fresh_credentials_activation cd name v live_snapshot
      else
      also_then (in_context (''new credentials are preserved in profile '' @ quoted name
                     @ '', but reading the current marker failed'') (read_current_checked cd)) (\<lambda>current.
        if current = Some name
        then in_context (''new credentials are preserved in profile '' @ quoted name
               @ '', but repairing its stale current marker failed'')
               (repair_stale_current_marker cd name)
        else give ()))"

definition live_was_active :: "codec \<Rightarrow> string \<Rightarrow> json \<Rightarrow> string option \<Rightarrow> bool action" where
  "live_was_active cd name existing live =
     (case live of
        None \<Rightarrow> give False
      | Some snapshot \<Rightarrow> live_snapshot_belongs_to_auth_value cd name existing snapshot)"

definition replace_strict_locked ::
  "codec \<Rightarrow> string \<Rightarrow> strict_account_binding \<Rightarrow> json \<Rightarrow> unit action" where
  "replace_strict_locked cd name expected v =
     also_then (profile_path name) (\<lambda>p.
     also_then (read_existing_auth cd p) (\<lambda>existing.
     case existing of
       None \<Rightarrow> refuse (not_found name)
     | Some old \<Rightarrow>
         (case strict_binding (account_info_from_auth_value cd old) of
            None \<Rightarrow> refuse_text (''profile '' @ quoted name
              @ '' no longer contains the complete account identity authorized before re-login'')
          | Some binding \<Rightarrow>
              if binding \<noteq> expected
              then refuse_text (''profile '' @ quoted name
                     @ '' changed account identity while re-login was in progress'')
              else
              also_then (lift (ensure_same_account_identity cd name old v)) (\<lambda>_.
              also_then codex_auth_path (\<lambda>_.
              also_then (snapshot_optional_file LiveAuth) (\<lambda>live.
              also_then (in_context (''determining whether live auth also needs replacement failed before profile ''
                             @ quoted name @ '' was changed'') (live_was_active cd name old live)) (\<lambda>was_active.
              also_then (write_profile_auth_durably cd name v) (\<lambda>_.
                follow_replacement cd name v live was_active))))))))"

definition archive_profile_credentials_exact :: "string \<Rightarrow> string \<Rightarrow> unit action" where
  "archive_profile_credentials_exact name expected = access (\<lambda>reply s.
     let refusal = (Inl (plain [''archiving the exact previous credentials for profile '' @ quoted name]), s);
         s' = record_event (ArchivedCopy name expected) s
     in case reply of
          Refused e \<Rightarrow> (Inl (plain e), s)
        | Unclear m _ \<Rightarrow> (Inl (plain [m]), s)
        | Fine \<Rightarrow> if st_auth s name = Some expected then (Inr (), s') else refusal
        | Unconfirmed e \<Rightarrow> if st_auth s name = Some expected then (Inl (plain e), s') else refusal)"

datatype reauth_outcome = Reauthorized | RecoveredIncomplete

definition replace_incomplete_locked ::
  "codec \<Rightarrow> string \<Rightarrow> account_identity \<Rightarrow> string \<Rightarrow> json \<Rightarrow> unit action" where
  "replace_incomplete_locked cd name identity revision v =
     also_then (profile_path name) (\<lambda>p.
     also_then (snapshot_optional_file p) (\<lambda>bytes.
     if bytes \<noteq> Some revision
     then refuse_text (''profile '' @ quoted name
            @ '' changed while re-login was in progress; its previous credentials were not archived or replaced'')
     else
     also_then (read_auth cd p) (\<lambda>existing.
     if extract_identity cd existing \<noteq> identity
     then refuse_text (''profile '' @ quoted name
            @ '' changed identity while re-login was in progress; its previous credentials were not archived or replaced'')
     else
     also_then (scan_profiles_by_identity cd (extract_identity cd v)) (\<lambda>m.
     let duplicates = filter (\<lambda>n. n \<noteq> name) (im_exact m) in
     if duplicates \<noteq> []
     then refuse_text (''authenticated account already belongs to profile(s) '' @ join '', '' duplicates
            @ ''; legacy profile '' @ quoted name @ '' was not replaced'')
     else
     also_then codex_auth_path (\<lambda>_.
     also_then (snapshot_optional_file LiveAuth) (\<lambda>live.
     also_then (live_was_active cd name existing live) (\<lambda>was_active.
     also_then (archive_profile_credentials_exact name revision) (\<lambda>_.
     also_then (in_context (''the previous credentials remain recoverable; profile '' @ quoted name
                    @ '' replacement did not complete'') (write_profile_auth_durably cd name v)) (\<lambda>_.
       in_context (''profile '' @ quoted name @ '' was replaced and its previous credentials remain archived'')
         (follow_replacement cd name v live was_active)))))))))) "

definition commit_prepared_profile_reauth_with_lease ::
  "codec \<Rightarrow> prepared_reauth \<Rightarrow> string \<Rightarrow> json \<Rightarrow> bool \<Rightarrow> reauth_outcome action" where
  "commit_prepared_profile_reauth_with_lease cd prepared name v allow_recoverable_replacement =
     (if name \<noteq> pr_alias prepared
      then refuse_text (''re-login for '' @ quoted (pr_alias prepared) @ '' received profile lease for '' @ quoted name)
      else
      (case pr_proof prepared of
         StrictProof binding \<Rightarrow>
           also_then (validate_managed cd v) (\<lambda>_.
           also_then (with_transaction (replace_strict_locked cd name binding v)) (\<lambda>_.
             give Reauthorized))
       | IncompleteProof identity revision \<Rightarrow>
           if \<not> allow_recoverable_replacement
           then refuse_text (''profile '' @ quoted name
                  @ '' has incomplete account identity; explicit confirmation is required before its previous credentials can be archived and replaced'')
           else
           also_then (validate_managed cd v) (\<lambda>_.
           also_then (lift (ensure_known_identity_components_match name identity (extract_identity cd v))) (\<lambda>_.
           also_then (with_transaction (replace_incomplete_locked cd name identity revision v)) (\<lambda>_.
             give RecoveredIncomplete)))))"

section \<open>Whose the live credential is\<close>

definition owner :: "codec \<Rightarrow> string \<Rightarrow> event list \<Rightarrow> bool" where
  "owner cd name t \<longleftrightarrow>
     (\<exists>live w. Saw LiveAuth (Some live) \<in> set t \<and> saw_value cd (ProfileAuth name) w t
        \<and> owned_by cd name w live t)"

lemma lasting_owned: "lasting (owned_by cd name w live)"
  using lastingD [OF lasting_saw_marker] by (fastforce simp: owned_by_def lasting_def)

lemma lasting_owner: "lasting (owner cd name)"
  unfolding owner_def by (intro lasting_intros lasting_saw_value lasting_owned)

lemma disowned_marker:
  "cd_parse cd live = Inr v \<Longrightarrow> saw_marker cd m t \<Longrightarrow> m \<noteq> Some name \<Longrightarrow> disowned cd name profile live t"
  unfolding disowned_def by blast

lemma disowned_other:
  "cd_parse cd live = Inr v \<Longrightarrow> saw_marker cd m t \<Longrightarrow> m = Some name \<longrightarrow> profile \<noteq> v \<Longrightarrow>
     Saw (ProfileAuth other) (Some live) \<in> set t \<Longrightarrow> other \<noteq> name \<Longrightarrow> disowned cd name profile live t"
  unfolding disowned_def by blast

lemma disowned_account:
  "cd_parse cd live = Inr v \<Longrightarrow> saw_marker cd m t \<Longrightarrow> profile \<noteq> v \<Longrightarrow> \<not> same_account cd profile v \<Longrightarrow>
     disowned cd name profile live t"
  unfolding disowned_def by blast

lemma differing_account:
  "conflicting (id_email (extract_identity cd w)) (id_email (extract_identity cd v)) \<Longrightarrow> \<not> same_account cd w v"
  "conflicting (id_account (extract_identity cd w)) (id_account (extract_identity cd v)) \<Longrightarrow> \<not> same_account cd w v"
  "id_account (extract_identity cd w) \<noteq> id_account (extract_identity cd v) \<Longrightarrow> \<not> same_account cd w v"
  "id_email (extract_identity cd w) \<noteq> id_email (extract_identity cd v) \<Longrightarrow> \<not> same_account cd w v"
  by (auto simp: conflicting_def same_account_def split: option.splits)

lemmas disowned_differing =
  disowned_account [OF _ _ _ differing_account(1)] disowned_account [OF _ _ _ differing_account(2)]
  disowned_account [OF _ _ _ differing_account(3)] disowned_account [OF _ _ _ differing_account(4)]

lemma traced_disowned:
  assumes "frame A E"
  shows "traced A (live_snapshot_belongs_to_auth_value cd name profile live)
           (\<lambda>b t. A t \<and> (\<not> b \<longrightarrow> disowned cd name profile live t)) E"
  unfolding live_snapshot_belongs_to_auth_value_def Let_def
  by (intro traced_steps traced_then [OF traced_matching] frame_rules observed_intros assms)
    (auto simp: result_eq_Inr frame_error [OF assms] select_binding_Some
      intro: disowned_marker disowned_other disowned_differing)

lemma traced_ownership:
  assumes "frame A E"
  shows "traced A (live_snapshot_belongs_to_auth_value cd name profile live)
           (\<lambda>b t. A t \<and> (b \<longrightarrow> owned_by cd name profile live t) \<and> (\<not> b \<longrightarrow> disowned cd name profile live t)) E"
  by (rule traced_mono [OF traced_conj [OF traced_belongs [OF assms] traced_disowned [OF assms]]]) auto

lemma traced_live_owner:
  assumes "frame A E"
  shows "traced A (live_belongs_to_profile cd name)
           (\<lambda>b t. A t \<and> (b \<longrightarrow> owner cd name t) \<and> (\<not> b \<longrightarrow> inactive cd name t)) E"
  unfolding live_belongs_to_profile_def
  by (intro traced_at_path traced_steps traced_post [OF traced_ownership] frame_rules observed_intros assms)
    (auto simp: frame_error [OF assms] saw_existing_def owner_def inactive_def)

section \<open>Consistency\<close>

lemma lasting_conj: "lasting A \<Longrightarrow> lasting B \<Longrightarrow> lasting (\<lambda>t. A t \<and> B t)"
  by (rule lasting_structure)

lemma traced_rename_directory:
  assumes "frame A E" "\<And>s. A (st_trace s) \<Longrightarrow> B (st_trace (f s))"
  shows "traced A (rename_directory c free f) (\<lambda>_. B) E"
  unfolding rename_directory_def
  by (rule traced_access) (auto simp: assms(2) frame_error [OF assms(1)] split: reply.splits)

lemma traced_move:
  assumes "frame A E" "\<And>t. A t \<Longrightarrow> B (MovedProfile a b # t)"
  shows "traced A (rename_profile_directory a b) (\<lambda>_. B) E"
  unfolding rename_profile_directory_def
  by (rule traced_rename_directory [OF assms(1)]) (simp add: move_profile_def assms(2))

lemma traced_archive:
  assumes "frame A E" "\<And>t. A t \<Longrightarrow> B (ArchivedProfile a # t)"
  shows "traced A (archive_profile_directory a) (\<lambda>_. B) E"
  unfolding archive_profile_directory_def
  by (rule traced_rename_directory [OF assms(1)]) (simp add: archive_profile_def assms(2))

lemma traced_marker_bytes:
  assumes "frame A E" "\<And>t. A t \<Longrightarrow> B (WroteMarker b # t)" "\<And>e t. minor e \<Longrightarrow> B t \<Longrightarrow> E e t"
  shows "traced A (write_marker_bytes d b) (\<lambda>_. B) E"
  unfolding write_marker_bytes_def
  by (rule traced_then [OF traced_private_write [where B = B, OF assms(1)]])
    (auto intro: assms traced_durable)

lemmas observed_owner [observed_intros] = lasting_owner [THEN lasting_observed]

lemma traced_cache_admin:
  "frame A E \<Longrightarrow> traced A (purge_cached_profile name) (\<lambda>_. A) E"
  "frame A E \<Longrightarrow> traced A (rename_cached_profile a b) (\<lambda>_. A) E"
  unfolding purge_cached_profile_def rename_cached_profile_def
  by (auto intro: traced_then [OF traced_cache] traced_cache traced_give)

text \<open>The evidence \<open>L\<close> lasts while the marker is repaired, or put back as it was seen.\<close>

definition retained :: "codec \<Rightarrow> (event list \<Rightarrow> bool) \<Rightarrow> event list \<Rightarrow> bool" where
  "retained cd L t \<longleftrightarrow> consistent_history cd t \<and> L t"

lemma frame_retained: "lasting L \<Longrightarrow> frame (retained cd L) (\<lambda>_. consistent_history cd)"
  unfolding retained_def [abs_def] by (intro frame_conj frame_consistent lasting_observed)

lemma frame_retained_to:
  "lasting L \<Longrightarrow> (\<And>t. retained cd L t \<Longrightarrow> B t) \<Longrightarrow> frame (retained cd L) (\<lambda>_. B)"
  using frame_retained [of L cd] by (simp add: frame_def)

lemma retainedD: "retained cd L t \<Longrightarrow> consistent_history cd t" "retained cd L t \<Longrightarrow> L t"
  by (simp_all add: retained_def)

lemma retained_event: "lasting L \<Longrightarrow> retained cd L t \<Longrightarrow> event_ok cd e t \<Longrightarrow> retained cd L (e # t)"
  by (simp add: retained_def lastingD)

lemma traced_mark_retained:
  assumes "lasting L" "\<And>t. A t \<Longrightarrow> retained cd L t \<and> marker_ok cd b t"
    "frame A E" "\<And>e t. retained cd L t \<Longrightarrow> E e t"
  shows "traced A (write_marker_bytes d b) (\<lambda>_. retained cd L) E"
  by (rule traced_marker_bytes [OF assms(3)])
    (use assms(2) in \<open>auto intro: retained_event assms(1,4) retainedD\<close>)

lemma traced_clear_retained:
  assumes "lasting L" "\<And>t. A t \<Longrightarrow> retained cd L t" "frame A E" 
  shows "traced A clear_current (\<lambda>_. retained cd L) E"
  by (rule traced_clear_current [OF assms(3)]) (use assms(2) in \<open>auto intro: retained_event assms(1)\<close>)

lemma traced_match_checked:
  assumes "frame A E"
  shows "traced A (find_matching_profile_checked cd LiveAuth)
     (\<lambda>r t. A t \<and> (\<forall>name. r = Some name \<longrightarrow> marker_ok cd name t)) E"
proof -
  let ?both = "\<lambda>names t. \<forall>name\<in>set names. marker_ok cd name t"
  have both: "observed (?both names)" for names
    by (auto simp: observed_def intro: lastingD [OF lasting_marker_ok])
  have m: "traced (\<lambda>t. A t \<and> Saw LiveAuth target \<in> set t)
      (case target of None \<Rightarrow> give [] | Some bytes \<Rightarrow> find_matching_profiles_for_bytes bytes)
      (\<lambda>names t. A t \<and> ?both names t) E" for target
    by (intro traced_steps traced_post [OF traced_matching] frame_rules observed_intros assms)
      (auto intro: exact_marker_ok)
  have c: "traced (\<lambda>t. A t \<and> ?both names t) (if b then read_current_checked cd else give None)
      (\<lambda>_ t. A t \<and> ?both names t) E" for names b
    by (intro traced_steps traced_post [OF traced_marker] frame_rules both assms) auto
  show ?thesis
    unfolding find_matching_profile_checked_def
    by (intro traced_then [OF m] traced_then [OF c] traced_steps frame_rules observed_intros assms)
      (auto simp: select_binding_Some frame_error [OF assms])
qed

lemma traced_repair_stale:
  assumes "lasting L" "\<And>t. A t \<Longrightarrow> retained cd L t" "frame A E" "\<And>e t. retained cd L t \<Longrightarrow> E e t"
  shows "traced A (repair_stale_current_marker cd name) (\<lambda>_. retained cd L) E"
  unfolding repair_stale_current_marker_def write_current_def
  by (intro traced_steps traced_then [OF traced_match_checked] traced_mark_retained traced_clear_retained
      frame_rules observed_intros assms(1,3,4)) (auto dest: assms(2))

lemma traced_restore:
  assumes "lasting L" "\<And>t. A t \<Longrightarrow> retained cd L t \<and> Saw MarkerFile snapshot \<in> set t"
    "frame A E" "\<And>e t. retained cd L t \<Longrightarrow> E e t"
  shows "traced A (restore_marker snapshot) (\<lambda>_. retained cd L) E"
  unfolding restore_marker_def
  by (intro traced_option traced_mark_retained traced_clear_retained assms(1,3,4))
    (auto simp: marker_ok_def dest: assms(2))

lemma traced_retry_restore:
  assumes "frame A (\<lambda>_. consistent_history cd)"
    "\<And>t. A t \<Longrightarrow> consistent_history cd t \<and> Saw MarkerFile snapshot \<in> set t"
  shows "traced A (tried (restore_marker snapshot)) (\<lambda>_. consistent_history cd) E"
proof (rule traced_tried_weak)
  have "traced A (restore_marker snapshot) (\<lambda>_. retained cd (\<lambda>t. True)) (\<lambda>_. consistent_history cd)"
    by (rule traced_restore) (use assms in \<open>auto simp: retained_def lasting_def\<close>)
  then show "traced A (restore_marker snapshot) (\<lambda>_. consistent_history cd) (\<lambda>_. consistent_history cd)"
    by (rule traced_mono) (auto simp: retained_def)
qed

lemma consistent_delete_locked:
  "traced (guarded cd) (delete_locked cd name) (\<lambda>_. consistent_history cd) (\<lambda>_. consistent_history cd)"
proof -
  let ?kept = "\<lambda>snapshot t. inactive cd name t \<and> Saw MarkerFile snapshot \<in> set t"
  have kept: "lasting (?kept snapshot)" for snapshot
    by (intro lasting_conj lasting_inactive lasting_member)
  have repair: "traced A (if stale then repair_stale_current_marker cd name else give ())
      (\<lambda>_. retained cd (?kept snapshot)) (\<lambda>_. consistent_history cd)"
    if "frame A (\<lambda>_. consistent_history cd)" "\<And>t. A t \<Longrightarrow> retained cd (?kept snapshot) t" for A stale snapshot
    by (intro traced_if traced_repair_stale traced_give kept that) (auto simp: retained_def)
  have archive: "traced (retained cd (?kept snapshot)) (tried (archive_profile_directory name))
      (\<lambda>_ t. consistent_history cd t \<and> Saw MarkerFile snapshot \<in> set t) E" for snapshot E
    by (rule traced_tried_weak, rule traced_archive, rule frame_retained_to) (auto simp: retained_def kept)
  show ?thesis
    unfolding delete_locked_def Let_def
    by (intro traced_steps traced_then [OF traced_cache_admin(1)] traced_then [OF traced_live_owner] traced_then [OF repair]
        traced_then [OF archive] traced_then [OF traced_retry_restore] frame_rules observed_intros frame_guarded
        frame_consistent)
      (auto simp: retained_def intro!: frame_consistent observed_intros dest: guardedD)
qed

lemma consistent_delete [traced_intros]: "keeps cd (cmd_delete cd name)"
  unfolding cmd_delete_def
  by (rule traced_then [OF traced_lifted [OF frame_consistent]], rule traced_assume,
      rule traced_with_lease [OF frame_consistent], rule consistent_plain_transaction [OF consistent_delete_locked])
    (intro observed_intros)

text \<open>After the rename, the profile holds under its new name what it held before.\<close>

lemma moved_owner:
  assumes "owner cd a t" "MovedProfile a b \<in> set t"
  shows "marker_ok cd b t"
proof -
  obtain l w v where l: "Saw LiveAuth (Some l) \<in> set t" "cd_parse cd l = Inr v"
    and w: "saw_value cd (ProfileAuth a) w t"
    and own: "w = v \<or> Saw (ProfileAuth a) (Some l) \<in> set t \<or> same_account cd w v"
    using assms(1) by (auto simp: owner_def owned_by_def)
  have "holds cd b w t"
    using saw_value_saved [OF w] assms(2) by (auto simp: holds_def called_def)
  with own l(2) assms(2) have "tracks cd b l t"
    unfolding tracks_def called_def by blast
  with l(1) show ?thesis by (rule tracked_marker_ok)
qed

definition renaming :: "codec \<Rightarrow> string \<Rightarrow> bool \<Rightarrow> string option \<Rightarrow> event list \<Rightarrow> bool" where
  "renaming cd a live_was_old snapshot t \<longleftrightarrow>
     Saw MarkerFile snapshot \<in> set t \<and> (live_was_old \<longrightarrow> owner cd a t)"

lemma lasting_renaming: "lasting (renaming cd a live_was_old snapshot)"
  unfolding renaming_def by (intro lasting_intros lasting_owner)

definition renamed :: "codec \<Rightarrow> string \<Rightarrow> string \<Rightarrow> bool \<Rightarrow> string option \<Rightarrow> event list \<Rightarrow> bool" where
  "renamed cd a b live_was_old snapshot t \<longleftrightarrow> renaming cd a live_was_old snapshot t \<and> MovedProfile a b \<in> set t"

lemma lasting_renamed: "lasting (renamed cd a b live_was_old snapshot)"
  unfolding renamed_def by (intro lasting_intros lasting_renaming)

lemma traced_move_retained:
  assumes "lasting L"
  shows "traced (retained cd L) (rename_profile_directory a b)
     (\<lambda>_. retained cd (\<lambda>t. L t \<and> MovedProfile a b \<in> set t)) (\<lambda>_. consistent_history cd)"
  by (rule traced_move [OF frame_retained [OF assms]]) (auto simp: retained_def lastingD [OF assms])

lemma traced_move_back:
  assumes "lasting L"
  shows "traced (retained cd L) (tried (rename_profile_directory a b)) (\<lambda>_. retained cd L) E"
  by (rule traced_tried_weak, rule traced_move, rule frame_retained_to)
    (auto simp: retained_def lastingD [OF assms] assms)

lemma traced_cache_quiet:
  assumes "lasting L"
  shows "traced (retained cd L) (tried (rename_cached_profile a b)) (\<lambda>_. retained cd L) E"
  by (rule traced_tried_weak, rule traced_cache_admin, rule frame_retained_to) (auto simp: assms)

lemma traced_cache_or_restore:
  assumes "lasting L"
  shows "traced (retained cd L) (rename_cache_or_restore a b) (\<lambda>_. retained cd L) (\<lambda>_. consistent_history cd)"
  unfolding rename_cache_or_restore_def
  by (intro traced_then [OF traced_cache_quiet] traced_then [OF traced_move_back] traced_intros assms)
    (auto simp: retained_def)

lemma consistent_roll_back:
  assumes "lasting L" "\<And>t. L t \<Longrightarrow> Saw MarkerFile snapshot \<in> set t"
  shows "traced (retained cd L) (roll_rename_back a b snapshot error)
     (\<lambda>_. consistent_history cd) (\<lambda>_. consistent_history cd)"
  unfolding roll_rename_back_def Let_def rename_rolled_back_def
  by (intro traced_then [OF traced_cache_quiet] traced_then [OF traced_move_back]
      traced_then [OF traced_retry_restore] traced_intros assms(1))
    (auto simp: retainedD frame_retained [OF assms(1)] dest: retainedD(2) assms(2))

lemma traced_follow_marker:
  "traced (retained cd (renamed cd a b live snapshot))
     (tried (if live then write_current b else if stale then repair_stale_current_marker cd a else give ()))
     (\<lambda>_. retained cd (renamed cd a b live snapshot)) E"
  unfolding write_current_def
  by (intro traced_tried_weak traced_if traced_mark_retained traced_repair_stale traced_give lasting_renamed
      frame_retained_to) (auto simp: retained_def renamed_def renaming_def intro: moved_owner)

lemma consistent_rename_locked:
  "traced (guarded cd) (rename_locked cd a b) (\<lambda>_. consistent_history cd) (\<lambda>_. consistent_history cd)"
proof -
  have move: "traced A (rename_profile_directory a b) (\<lambda>_. retained cd (renamed cd a b live snapshot))
      (\<lambda>_. consistent_history cd)"
    if "\<And>t. A t \<Longrightarrow> guarded cd t \<and> (live \<longrightarrow> owner cd a t) \<and> Saw MarkerFile snapshot \<in> set t"
    for A live snapshot
    by (rule traced_mono [OF traced_move_retained [OF lasting_renaming]])
      (use that in \<open>auto simp: retained_def renaming_def renamed_def guarded_def\<close>)
  have "traced (\<lambda>t. guarded cd t \<and> (live \<longrightarrow> owner cd a t) \<and> Saw MarkerFile snapshot \<in> set t)
      (also_then (rename_profile_directory a b) (\<lambda>directory_warning.
       also_then (rename_cache_or_restore a b) (\<lambda>cache_warning.
       also_then (tried (if live then write_current b
                         else if stale then repair_stale_current_marker cd a else give ()))
         (\<lambda>marker. case marker of
           Inl error \<Rightarrow> roll_rename_back a b snapshot error
         | Inr _ \<Rightarrow> give (f cache_warning directory_warning)))))
      (\<lambda>_. consistent_history cd) (\<lambda>_. consistent_history cd)" for live snapshot stale f
    by (intro traced_then [OF move [of _ live snapshot]] traced_then [OF traced_cache_or_restore]
        traced_then [OF traced_follow_marker] consistent_roll_back traced_intros lasting_renamed)
      (auto simp: retained_def renamed_def renaming_def)
  note rest = traced_mono [OF this]
  show ?thesis
    unfolding rename_locked_def
    by (intro traced_steps traced_then [OF traced_live_owner] rest frame_rules observed_intros frame_guarded)
      (auto dest: guardedD)
qed

lemma consistent_rename [traced_intros]: "keeps cd (profile_rename cd a b)"
  unfolding profile_rename_def
  by (rule traced_then [OF traced_lifted [OF frame_consistent]], rule traced_assume,
      rule traced_then [OF traced_lifted [OF frame_consistent]], rule traced_assume, rule traced_if,
      rule traced_refuse_text, assumption,
      rule traced_with_leases [OF frame_consistent], rule consistent_plain_transaction [OF consistent_rename_locked])
    (intro observed_intros)

section \<open>Re-authorising keeps the trace consistent\<close>

text \<open>What is known, under the transaction, of the credential that is about to be replaced.\<close>

definition known_value :: "codec \<Rightarrow> string \<Rightarrow> json \<Rightarrow> event list \<Rightarrow> bool" where
  "known_value cd name v t \<longleftrightarrow>
     guarded cd t \<and> known cd name (Some v) t \<and> saw_value cd (ProfileAuth name) v t"

definition known_bytes :: "codec \<Rightarrow> string \<Rightarrow> string \<Rightarrow> event list \<Rightarrow> bool" where
  "known_bytes cd name b t \<longleftrightarrow> guarded cd t \<and> Some b \<in> set (seen_since name t)"

lemma frame_known_value: "frame (known_value cd name v) (\<lambda>_. consistent_history cd)"
proof -
  have "frame (\<lambda>t. (guarded cd t \<and> known cd name (Some v) t) \<and> saw_value cd (ProfileAuth name) v t)
      (\<lambda>_. consistent_history cd)"
    by (intro frame_conj frame_known frame_guarded observed_intros)
  then show ?thesis by (simp add: known_value_def [abs_def] conj_assoc)
qed

lemma frame_known_bytes: "frame (known_bytes cd name b) (\<lambda>_. consistent_history cd)"
  unfolding known_bytes_def [abs_def] by (intro frame_seen frame_guarded)

lemma traced_known_existing:
  "traced (guarded cd) (read_existing_auth cd (ProfileAuth name))
     (\<lambda>v t. guarded cd t \<and> (\<forall>w. v = Some w \<longrightarrow> known_value cd name w t)) (\<lambda>_. consistent_history cd)"
  by (rule traced_mono [OF traced_conj [OF traced_know_existing [OF frame_guarded] traced_read_existing [OF frame_guarded]]])
    (auto simp: known_value_def saw_existing_def dest: guardedD)

lemma traced_known_bytes:
  "traced (guarded cd) (snapshot_optional_file (ProfileAuth name))
     (\<lambda>c t. guarded cd t \<and> (\<forall>b. c = Some b \<longrightarrow> known_bytes cd name b t)) (\<lambda>_. consistent_history cd)"
  by (rule traced_mono [OF traced_know_bytes [OF frame_guarded]]) (auto simp: known_bytes_def dest: guardedD)

lemma traced_was_active:
  assumes "frame A E" "\<And>t. A t \<Longrightarrow> saw_value cd (ProfileAuth name) v t"
  shows "traced A (live_was_active cd name v live) (\<lambda>b t. A t \<and> (b \<longrightarrow> replaceable cd live t)) E"
  unfolding live_was_active_def
  by (intro traced_option traced_give traced_post [OF traced_belongs] assms(1))
    (auto dest: owned_live_replaceable assms(2))

text \<open>After the replacement the profile holds the new credential.\<close>

definition replaced :: "codec \<Rightarrow> string \<Rightarrow> json \<Rightarrow> string option \<Rightarrow> bool \<Rightarrow> event list \<Rightarrow> bool" where
  "replaced cd name v live was_active t \<longleftrightarrow>
     (was_active \<longrightarrow> replaceable cd live t) \<and> holds cd name v t"

lemma lasting_replaced: "lasting (replaced cd name v live was_active)"
  unfolding replaced_def by (intro lasting_structure lasting_replaceable lasting_holds)

lemma consistent_context:
  "traced A m Q (\<lambda>_. consistent_history cd) \<Longrightarrow> traced A (in_context c m) Q (\<lambda>_. consistent_history cd)"
  by (rule traced_context)

lemma traced_replace:
  assumes "frame A (\<lambda>_. consistent_history cd)"
    "\<And>t. A t \<Longrightarrow> guarded cd t \<and> profile_ok cd name (cd_print cd v) t \<and> (was_active \<longrightarrow> replaceable cd live t)"
  shows "traced A (write_profile_auth_durably cd name v) (\<lambda>_. retained cd (replaced cd name v live was_active))
     (\<lambda>_. consistent_history cd)"
proof (rule traced_write_durably [OF assms(1)])
  fix t old
  assume "A t"
  from assms(2) [OF this] show "retained cd (replaced cd name v live was_active) (WroteProfile name old (cd_print cd v) # t)"
    by (auto simp: retained_def replaced_def guarded_def intro: lastingD [OF lasting_replaceable] wrote_holds)
qed (auto simp: retained_def)

lemma consistent_follow:
  "traced (retained cd (replaced cd name v live was_active)) (follow_replacement cd name v live was_active)
     (\<lambda>_. consistent_history cd) (\<lambda>_. consistent_history cd)"
proof -
  note f = frame_retained [OF lasting_replaced [of cd name v live was_active]]
  have repair: "traced A (in_context c (repair_stale_current_marker cd name))
      (\<lambda>_. consistent_history cd) (\<lambda>_. consistent_history cd)"
    if "frame A (\<lambda>_. consistent_history cd)" "\<And>t. A t \<Longrightarrow> consistent_history cd t" for A c
    by (rule consistent_context, rule traced_post [OF traced_repair_stale [where L = "\<lambda>t. True"]])
      (auto simp: retained_def lasting_def intro: that)
  show ?thesis
    unfolding follow_replacement_def
    by (intro traced_if consistent_fresh f traced_then [OF consistent_context [OF traced_marker]] repair
        traced_give frame_rules observed_intros)
      (auto simp: retained_def replaced_def publishable_def)
qed

lemma consistent_replace_strict:
  "traced (guarded cd) (replace_strict_locked cd name binding v) (\<lambda>_. consistent_history cd) (\<lambda>_. consistent_history cd)"
proof -
  have "traced (known_value cd name old)
      (also_then (lift (ensure_same_account_identity cd name old v)) (\<lambda>_.
       also_then codex_auth_path (\<lambda>_.
       also_then (snapshot_optional_file LiveAuth) (\<lambda>live.
       also_then (in_context (c live) (live_was_active cd name old live)) (\<lambda>was_active.
       also_then (write_profile_auth_durably cd name v) (\<lambda>_.
         follow_replacement cd name v live was_active))))))
      (\<lambda>_. consistent_history cd) (\<lambda>_. consistent_history cd)" for old c
    by (intro traced_steps traced_then [OF consistent_context [OF traced_was_active]]
        traced_then [OF traced_replace] frame_rules frame_known_value observed_intros)
      (auto simp: known_value_def same_account_iff intro: replaced_ok consistent_follow)
  note rest = traced_mono [OF this]
  show ?thesis
    unfolding replace_strict_locked_def
    by (intro traced_at_path traced_then [OF traced_known_existing] traced_intros frame_guarded rest)
      (auto dest: guardedD)
qed

text \<open>The profile may be overwritten, and, if it is the active one, the live credential too.\<close>

definition overwritable :: "codec \<Rightarrow> string \<Rightarrow> json \<Rightarrow> string option \<Rightarrow> bool \<Rightarrow> event list \<Rightarrow> bool" where
  "overwritable cd name v live was_active t \<longleftrightarrow>
     guarded cd t \<and> profile_ok cd name (cd_print cd v) t \<and> (was_active \<longrightarrow> replaceable cd live t)"

lemma frame_overwritable: "frame (overwritable cd name v live was_active) (\<lambda>_. consistent_history cd)"
proof -
  have "frame (\<lambda>t. (guarded cd t \<and> profile_ok cd name (cd_print cd v) t) \<and> (was_active \<longrightarrow> replaceable cd live t))
      (\<lambda>_. consistent_history cd)"
    by (intro frame_conj frame_looked [OF _ looked_profile_ok] frame_guarded observed_intros)
  then show ?thesis by (simp add: overwritable_def [abs_def] conj_assoc)
qed

lemma archived_profile_ok:
  "Some b \<in> set (seen_since name t) \<Longrightarrow> profile_ok cd name new (ArchivedCopy name b # t)"
  by (rule archived_ok [where b = b]) simp_all

lemma traced_archive_copy:
  assumes "frame A (\<lambda>_. consistent_history cd)"
    "\<And>t. A t \<Longrightarrow> known_bytes cd name b t \<and> (was_active \<longrightarrow> replaceable cd live t)"
  shows "traced A (archive_profile_credentials_exact name b)
     (\<lambda>_. overwritable cd name v live was_active) (\<lambda>_. consistent_history cd)"
proof -
  have event: "consistent_history cd t \<and> overwritable cd name v live was_active (ArchivedCopy name b # t)"
    if "A t" for t
    using assms(2) [OF that]
    by (auto simp: overwritable_def known_bytes_def guarded_def
        intro: archived_profile_ok lastingD [OF lasting_replaceable])
  show ?thesis
    unfolding archive_profile_credentials_exact_def Let_def
    by (rule traced_access) (auto dest: event simp: frame_error [OF assms(1)] split: reply.splits)
qed

lemma traced_replace_archived:
  "traced (overwritable cd name v live was_active) (in_context c (write_profile_auth_durably cd name v))
     (\<lambda>_. retained cd (replaced cd name v live was_active)) (\<lambda>_. consistent_history cd)"
  by (rule consistent_context, rule traced_replace [OF frame_overwritable]) (auto simp: overwritable_def)

lemma consistent_archive_replace:
  assumes "frame A (\<lambda>_. consistent_history cd)"
    "\<And>t. A t \<Longrightarrow> known_bytes cd name b t \<and> (was_active \<longrightarrow> replaceable cd live t)"
  shows "traced A
     (also_then (archive_profile_credentials_exact name b) (\<lambda>_.
      also_then (in_context c (write_profile_auth_durably cd name v)) (\<lambda>_.
        in_context c' (follow_replacement cd name v live was_active))))
     (\<lambda>_. consistent_history cd) (\<lambda>_. consistent_history cd)"
proof (rule traced_then)
  show "traced A (archive_profile_credentials_exact name b)
      (\<lambda>_. overwritable cd name v live was_active) (\<lambda>_. consistent_history cd)"
    by (rule traced_archive_copy [OF assms(1)]) (use assms(2) in auto)
qed (intro traced_then [OF traced_replace_archived] consistent_context consistent_follow)

lemma consistent_replace_incomplete:
  "traced (guarded cd) (replace_incomplete_locked cd name identity revision v)
     (\<lambda>_. consistent_history cd) (\<lambda>_. consistent_history cd)"
proof -
  have "traced (known_bytes cd name revision)
      (also_then (read_auth cd (ProfileAuth name)) (\<lambda>old.
       if g old then refuse_text c
       else
       also_then (scan_profiles_by_identity cd i) (\<lambda>m.
       if f m then refuse_text (c1 m)
       else
       also_then codex_auth_path (\<lambda>_.
       also_then (snapshot_optional_file LiveAuth) (\<lambda>live.
       also_then (live_was_active cd name old live) (\<lambda>was_active.
       also_then (archive_profile_credentials_exact name revision) (\<lambda>_.
       also_then (in_context c2 (write_profile_auth_durably cd name v)) (\<lambda>_.
         in_context c3 (follow_replacement cd name v live was_active)))))))))
      (\<lambda>_. consistent_history cd) (\<lambda>_. consistent_history cd)" for g i f c c1 c2 c3
    by (intro traced_steps traced_then [OF traced_scan_identity] traced_then [OF traced_was_active]
        consistent_archive_replace frame_rules frame_known_bytes observed_intros)
      (auto simp: known_bytes_def guarded_def)
  note rest = traced_mono [OF this]
  show ?thesis
    unfolding replace_incomplete_locked_def Let_def
    by (intro traced_at_path traced_then [OF traced_known_bytes] traced_if frame_guarded rest traced_refuse_text)
      (auto dest: guardedD)
qed

lemma consistent_reauth [traced_intros]:
  "keeps cd (commit_prepared_profile_reauth_with_lease cd prepared name v allow)"
proof (cases "pr_proof prepared")
  case (StrictProof binding)
  have "keeps cd (also_then (validate_managed cd v) (\<lambda>_.
      also_then (with_transaction (replace_strict_locked cd name binding v)) (\<lambda>_. give Reauthorized)))"
    by (intro traced_then [OF traced_managed] frame_consistent traced_give
        traced_then [OF consistent_plain_transaction [OF consistent_replace_strict]] observed_intros)
  then show ?thesis
    unfolding commit_prepared_profile_reauth_with_lease_def StrictProof reauth_proof.case
    by (intro traced_if traced_refuse_text)
next
  case (IncompleteProof identity revision)
  have "keeps cd (also_then (validate_managed cd v) (\<lambda>_.
      also_then (lift r) (\<lambda>_.
      also_then (with_transaction (replace_incomplete_locked cd name identity revision v)) (\<lambda>_.
        give RecoveredIncomplete))))" for r :: "unit result"
    by (intro traced_then [OF traced_managed] traced_then [OF traced_lifted] frame_consistent traced_give
        traced_assume traced_then [OF consistent_plain_transaction [OF consistent_replace_incomplete]]
        observed_intros)
  then show ?thesis
    unfolding commit_prepared_profile_reauth_with_lease_def IncompleteProof reauth_proof.case
    by (intro traced_if traced_refuse_text)
qed

lemma consistent_prepare_reauth [traced_intros]: "keeps cd (prepare_profile_reauth_with_lease cd name)"
  unfolding prepare_profile_reauth_with_lease_def
  by (intro traced_then [OF consistent_context [OF traced_required]] traced_steps
      frame_rules frame_consistent observed_intros)
    auto

section \<open>The trace stays true\<close>

lemma over_moved: "coherent_over base s \<Longrightarrow> coherent_over base (move_profile a b s)"
  by (auto simp: coherent_over_def later_event coherent_def move_profile_def record_event_def truth_ok_def list_all_iff)

lemma over_archived: "coherent_over base s \<Longrightarrow> coherent_over base (archive_profile a s)"
  by (auto simp: coherent_over_def later_event coherent_def archive_profile_def record_event_def truth_ok_def list_all_iff)

lemma truthful_directories [truthful_intros]:
  "truthful (rename_profile_directory a b)" "truthful (archive_profile_directory a)"
  "truthful (restore_marker snapshot)" "truthful (purge_cached_profile a)" "truthful (rename_cached_profile a b)"
  "truthful (archive_profile_credentials_exact a bytes)"
proof -
  show "truthful (rename_profile_directory a b)" "truthful (archive_profile_directory a)"
    unfolding rename_profile_directory_def archive_profile_directory_def rename_directory_def
    by (rule truthful_access; auto intro: over_moved over_archived split: reply.splits)+
  have bytes: "truthful (write_marker_bytes d x)" for d x
    using truthful_writes(1) [of x] unfolding write_current_def write_marker_bytes_def private_write_def
    by (intro truthful_intros truthful_access) (auto intro: over_event split: reply.splits)
  show "truthful (restore_marker snapshot)" "truthful (purge_cached_profile a)" "truthful (rename_cached_profile a b)"
    unfolding restore_marker_def purge_cached_profile_def rename_cached_profile_def
    by (intro truthful_intros bytes)+
  show "truthful (archive_profile_credentials_exact a bytes)"
    unfolding archive_profile_credentials_exact_def Let_def
    by (rule truthful_access) (auto intro: over_event split: reply.splits)
qed

lemma truthful_delete [truthful_intros]: "truthful (cmd_delete cd name)"
  unfolding cmd_delete_def delete_locked_def Let_def by (intro truthful_intros)

lemma truthful_rename [truthful_intros]: "truthful (profile_rename cd a b)"
  unfolding profile_rename_def rename_locked_def roll_rename_back_def rename_rolled_back_def
    rename_cache_or_restore_def Let_def
  by (intro truthful_intros)

lemma truthful_follow [truthful_intros]:
  "truthful (follow_replacement cd name v live was_active)" "truthful (live_was_active cd name v live)"
  unfolding follow_replacement_def live_was_active_def by (intro truthful_intros)+

lemma truthful_required [truthful_intros]: "truthful (required_bytes p)"
  unfolding required_bytes_def by (intro truthful_intros)

lemma truthful_reauth [truthful_intros]:
  "truthful (prepare_profile_reauth_with_lease cd name)"
  "truthful (commit_prepared_profile_reauth_with_lease cd prepared name v allow)"
proof -
  show "truthful (prepare_profile_reauth_with_lease cd name)"
    unfolding prepare_profile_reauth_with_lease_def by (intro truthful_intros)
  have "truthful (replace_strict_locked cd name binding v)"
    "truthful (replace_incomplete_locked cd name identity revision v)" for binding identity revision
    unfolding replace_strict_locked_def replace_incomplete_locked_def scan_profiles_by_identity_def Let_def
    by (intro truthful_intros)+
  then show "truthful (commit_prepared_profile_reauth_with_lease cd prepared name v allow)"
    unfolding commit_prepared_profile_reauth_with_lease_def
    by (cases "pr_proof prepared") (auto intro!: truthful_intros)
qed

section \<open>What deleting and renaming do to the saved credentials\<close>

lemma run_rename_directory:
  assumes "settled P" "\<And>s. P s \<Longrightarrow> E s" "\<And>s. P s \<Longrightarrow> Q (f s)"
  shows "run P (rename_directory c free f) (\<lambda>_. Q) E"
  unfolding rename_directory_def
  by (rule run_access [OF assms(1)]) (auto simp: assms(2,3) split: reply.splits)

lemma saved_moved: "saved_are c s \<Longrightarrow> saved_are (c(b := c a, a := None)) (move_profile a b s)"
  by (auto simp: saved_are_def move_profile_def record_event_def)

lemma saved_archived: "saved_are c s \<Longrightarrow> saved_are (c(a := None)) (archive_profile a s)"
  by (auto simp: saved_are_def archive_profile_def record_event_def)

lemma modest_restore [modest_intros]:
  "modest (restore_marker snapshot)" "modest (purge_cached_profile a)" "modest (rename_cached_profile a b)"
proof -
  have bytes: "modest (write_marker_bytes d x)" for d x
    unfolding write_marker_bytes_def
    by (intro modest_intros modest_private_write) (auto intro: settledD)
  show "modest (restore_marker snapshot)" "modest (purge_cached_profile a)" "modest (rename_cached_profile a b)"
    unfolding restore_marker_def purge_cached_profile_def rename_cached_profile_def
    by (intro modest_intros bytes)+
qed

lemma modest_ownership [modest_intros]:
  "modest (live_belongs_to_profile cd name)" "modest (repair_stale_current_marker cd name)"
  unfolding live_belongs_to_profile_def live_snapshot_belongs_to_auth_value_def Let_def
    repair_stale_current_marker_def find_matching_profile_checked_def find_matching_profiles_for_bytes_def
  by (intro modest_intros)+

lemma run_tried_cases:
  "run P m (\<lambda>_. Q) E \<Longrightarrow> run P (tried m) (\<lambda>r s. case r of Inr _ \<Rightarrow> Q s | Inl _ \<Rightarrow> E s) F"
  by (rule run_tried, erule run_mono) auto

text \<open>
  Deleting removes the credential of this profile and no other, or none at all when it fails.
\<close>

lemma delete_locked_effect:
  "run (saved_are c) (delete_locked cd name) (\<lambda>_. saved_are (c(name := None))) (saved_are c)"
proof -
  note m = run_then [OF run_modest [OF _ settled_saved]]
  have archive: "run (saved_are c) (tried (archive_profile_directory name))
      (\<lambda>r s. case r of Inr _ \<Rightarrow> saved_are (c(name := None)) s | Inl _ \<Rightarrow> saved_are c s) E" for E
    unfolding archive_profile_directory_def
    by (rule run_tried_cases, rule run_rename_directory [OF settled_saved]) (auto intro: saved_archived)
  have rest: "run (saved_are c) (also_then (tried (archive_profile_directory name)) (\<lambda>archived.
     case archived of Inr None \<Rightarrow> give None | Inr (Some cause) \<Rightarrow> give (f cause)
     | Inl e \<Rightarrow> if b then also_then (tried (restore_marker snapshot)) (\<lambda>r. case r of
           Inl rollback \<Rightarrow> refuse_text (g e rollback) | Inr _ \<Rightarrow> refuse e) else refuse e))
     (\<lambda>_. saved_are (c(name := None))) (saved_are c)" for f g b snapshot
    by (rule run_then [OF archive], rule run_sum)
      (auto intro!: run_intros m modest_intros split: option.split)
  show ?thesis
    unfolding delete_locked_def Let_def
    by (intro m run_if run_refuse rest modest_intros) auto
qed

text \<open>
  A rename moves the credential, or leaves all of them as they were; when its rollback fails,
  the credential is still there under its new name.
\<close>

definition moved :: "string \<Rightarrow> string \<Rightarrow> (string \<Rightarrow> string option) \<Rightarrow> string \<Rightarrow> string option" where
  "moved a b c = c(b := c a, a := None)"

lemma moved_back: "a \<noteq> b \<Longrightarrow> c b = None \<Longrightarrow> moved b a (moved a b c) = c"
  by (auto simp: moved_def fun_eq_iff)

definition either_way :: "string \<Rightarrow> string \<Rightarrow> (string \<Rightarrow> string option) \<Rightarrow> store \<Rightarrow> bool" where
  "either_way a b c s \<longleftrightarrow> saved_are c s \<or> saved_are (moved a b c) s"

lemma settled_either: "settled (either_way a b c)"
  using settled_saved [of c] settled_saved [of "moved a b c"] by (auto simp: settled_def either_way_def)

lemma run_move:
  "run (saved_are c) (rename_profile_directory a b) (\<lambda>_. saved_are (moved a b c)) (saved_are c)"
  unfolding rename_profile_directory_def moved_def
  by (rule run_rename_directory [OF settled_saved]) (auto intro: saved_moved)

lemma run_back:
  assumes "a \<noteq> b" "c b = None"
  shows "run (saved_are (moved a b c)) (tried (rename_profile_directory b a)) (\<lambda>_. either_way a b c) E"
  by (rule run_tried, rule run_mono [OF run_move [of "moved a b c"]]) (simp_all add: either_way_def moved_back assms)

lemma run_cache_or_restore:
  assumes "a \<noteq> b" "c b = None"
  shows "run (saved_are (moved a b c)) (rename_cache_or_restore a b) (\<lambda>_. saved_are (moved a b c)) (either_way a b c)"
proof -
  have cache: "run (saved_are (moved a b c)) (tried (rename_cached_profile a b)) (\<lambda>_. saved_are (moved a b c)) E" for E
    by (rule run_tried, rule run_modest [OF modest_restore(3) settled_saved]) auto
  show ?thesis
    unfolding rename_cache_or_restore_def
    by (intro run_then [OF cache] run_sum run_give run_then [OF run_back] run_option run_refuse assms)
qed

lemma rename_locked_effect:
  assumes "a \<noteq> b" "c b = None"
  shows "run (saved_are c) (rename_locked cd a b) (\<lambda>_. saved_are (moved a b c)) (either_way a b c)"
proof -
  have m: "run (saved_are c) (also_then m f) Q (either_way a b c)"
    if "modest m" "\<And>x. run (saved_are c) (f x) Q (either_way a b c)" for m :: "'x action" and f :: "'x \<Rightarrow> 'y action" and Q
    by (rule run_then [OF run_modest [OF that(1) settled_saved] that(2)]) (simp add: either_way_def)
  have move: "run (saved_are c) (rename_profile_directory a b) (\<lambda>_. saved_are (moved a b c)) (either_way a b c)"
    by (rule run_mono [OF run_move]) (auto simp: either_way_def)
  have follow: "run (saved_are (moved a b c)) (tried m) (\<lambda>_. saved_are (moved a b c)) E"
    if "modest m" for m :: "unit action" and E
    by (rule run_tried, rule run_modest [OF that settled_saved]) auto
  have rolled: "run (either_way a b c) (rename_rolled_back e x y) Q (either_way a b c)"
    for e x y and Q :: "anyhow option \<Rightarrow> store \<Rightarrow> bool"
    unfolding rename_rolled_back_def by (intro run_if run_refuse)
  have undo: "run (saved_are (moved a b c)) (roll_rename_back a b snapshot e) Q (either_way a b c)"
    for snapshot e and Q :: "anyhow option \<Rightarrow> store \<Rightarrow> bool"
  proof -
    have quiet: "run P (tried m) (\<lambda>_. P) E" if "modest m" "settled P" for P and m :: "'z action" and E
      by (rule run_tried, rule run_modest [OF that]) auto
    show ?thesis
      unfolding roll_rename_back_def Let_def
      by (intro run_then [OF quiet [OF modest_restore(3) settled_saved]] run_then [OF run_back]
          run_then [OF quiet [OF modest_restore(1) settled_either]] run_prod rolled assms)
  qed
  show ?thesis
    unfolding rename_locked_def
    by (intro m run_if run_refuse run_then [OF move] run_then [OF run_cache_or_restore] run_then [OF follow]
        run_sum run_give undo modest_intros assms) (auto simp: either_way_def)
qed

end
