(* ===== verification/Profile_Import.thy ===== *)
theory Profile_Import
  imports Profile_Admin
begin

text \<open>
  Importing credentials as new profiles (\<open>src/src/profile.rs\<close>).

  An import reserves every profile and the transaction while the credential is validated; the
  reservation is the scope of a continuation, which gets the parsed registry. Only a new profile
  is created: from the durable stage of a credential that validation rotated, by a copy that
  replaces nothing, or else by the common door.
\<close>

section \<open>The reservation\<close>

definition refuse_owned_credential :: "codec \<Rightarrow> json \<Rightarrow> string list \<Rightarrow> parsed_registry action" where
  "refuse_owned_credential cd incoming aliases =
     also_then codex_auth_path (\<lambda>_.
     also_then (read_existing_auth cd LiveAuth) (\<lambda>live.
     if is_some_and (same_import_credential incoming) live
     then refuse_text ''refusing duplicate import: live Codex auth already owns this credential or refresh_token''
     else
     also_then (snapshot_aliases aliases) (\<lambda>snapshot.
     also_then (lift (parse_registry cd snapshot)) (\<lambda>profiles.
       case find (\<lambda>(_, saved). same_import_credential incoming saved) profiles of
         Some (name, _) \<Rightarrow> refuse_text (''refusing duplicate import: profile '' @ quoted name
           @ '' already owns this credential or refresh_token'')
       | None \<Rightarrow> give profiles))))"

fun reserve_attempts :: "codec \<Rightarrow> json \<Rightarrow> (parsed_registry \<Rightarrow> 'a action) \<Rightarrow> nat \<Rightarrow> 'a action" where
  "reserve_attempts cd incoming body 0 =
     refuse_text ''profile registry kept changing while reserving imported credentials; retry the command''"
| "reserve_attempts cd incoming body (Suc n) =
     also_then list_profiles (\<lambda>aliases.
     also_then (with_leases aliases (with_transaction (
       also_then list_profiles (\<lambda>again.
       if again \<noteq> aliases then give None
       else
       also_then (refuse_owned_credential cd incoming aliases) (\<lambda>profiles.
       also_then (body profiles) (\<lambda>x. give (Some x))))))) (\<lambda>r.
     case r of Some x \<Rightarrow> give x | None \<Rightarrow> reserve_attempts cd incoming body n))"

definition reserve_import_credential_for_validation ::
  "codec \<Rightarrow> json \<Rightarrow> (parsed_registry \<Rightarrow> 'a action) \<Rightarrow> 'a action" where
  "reserve_import_credential_for_validation cd incoming body =
     reserve_attempts cd incoming body profile_concurrency_retry_limit"

section \<open>Creating the profile\<close>

record incomplete_import =
  ii_recovery :: "nat option"
  ii_cause :: anyhow

record import_outcome =
  io_alias :: string
  io_commit :: "incomplete_import option"
  io_cleanup :: "incomplete_import option"

definition classify_import_recovery_after_failure :: "nat \<Rightarrow> anyhow \<Rightarrow> (nat option \<times> anyhow) action" where
  "classify_import_recovery_after_failure stage cause =
     also_then (tried (stage_present stage)) (\<lambda>r.
       give (case r of
               Inr True \<Rightarrow> (Some stage, cause)
             | Inr False \<Rightarrow> (None, cause)
             | Inl f \<Rightarrow> (None,
                 (''the original recovery stage could not be revalidated ('' @ show_chain (fl_chain f)
                   @ '')'') # cause)))"

text \<open>
  The copy replaces nothing. It reports whether the new name is durable; when it fails and cannot
  remove what it had begun, a residue stays.
\<close>

definition create_exclusive_copy :: "codec \<Rightarrow> string \<Rightarrow> json \<Rightarrow> bool action" where
  "create_exclusive_copy cd name v = access (\<lambda>reply s.
     let created = (\<lambda>bytes. record_event (WroteProfile name None bytes)
           (s\<lparr>st_auth := (st_auth s)(name \<mapsto> bytes), st_names := add_name name (st_names s)\<rparr>));
         exists = (Inl (plain [''File exists'']), s)
     in case reply of
          Refused e \<Rightarrow> (Inl (plain e), s)
        | Fine \<Rightarrow> if st_auth s name = None then (Inr True, created (cd_print cd v)) else exists
        | Unconfirmed e \<Rightarrow> if st_auth s name = None then (Inr False, created (cd_print cd v)) else exists
        | Unclear m residue \<Rightarrow>
            if st_auth s name = None \<and> residue then (Inl (plain [m]), created m) else (Inl (plain [m]), s))"

definition confirm_namespace_durability :: "unit action" where
  "confirm_namespace_durability = access (\<lambda>reply s.
     case reply of Refused e \<Rightarrow> (Inl (plain e), s) | _ \<Rightarrow> (Inr (), s))"

text \<open>The incomplete commit of a profile that is visible, or the incomplete removal of the stage.\<close>

definition finish_promotion ::
  "string \<Rightarrow> nat \<Rightarrow> (incomplete_import option \<times> incomplete_import option) action" where
  "finish_promotion name stage =
     also_then (tried (remove_stage stage)) (\<lambda>r.
       case r of
         Inr _ \<Rightarrow> give (None, None)
       | Inl cleanup \<Rightarrow>
           also_then (exact_recovery_path_after_cleanup_failure stage (fl_chain cleanup)) (\<lambda>(path, cause).
             give (None, Some \<lparr>ii_recovery = path,
               ii_cause = (''profile '' @ quoted name
                 @ '' was durably published, but exact cleanup of its recovery stage is incomplete'') # cause\<rparr>)))"

definition promote_import_stage ::
  "codec \<Rightarrow> string \<Rightarrow> json \<Rightarrow> nat \<Rightarrow> (incomplete_import option \<times> incomplete_import option) action" where
  "promote_import_stage cd name v stage =
     also_then (lift (validate_alias name)) (\<lambda>_.
     also_then (validate_managed cd v) (\<lambda>_.
     also_then (stage_contains stage v) (\<lambda>same.
     if \<not> same then refuse_text ''staged rotated credentials do not match the validated import''
     else
     also_then (profile_path name) (\<lambda>_.
     also_then (ensure_profile_parent name) (\<lambda>_.
     also_then (in_context (''publishing staged credentials to new profile '' @ quoted name
                    @ '' without replacement'') (create_exclusive_copy cd name v)) (\<lambda>durable.
     also_then (if durable then give (Inr ()) else tried confirm_namespace_durability) (\<lambda>confirmed.
       case confirmed of
         Inr _ \<Rightarrow> finish_promotion name stage
       | Inl durability \<Rightarrow>
           also_then (classify_import_recovery_after_failure stage
                        [''profile '' @ quoted name
                          @ '' is visible, but its no-clobber publication is not durably confirmed (''
                          @ show_chain (fl_chain durability) @ '')'']) (\<lambda>(path, cause).
             give (Some \<lparr>ii_recovery = path, ii_cause = cause\<rparr>, None)))))))))"

definition import_alias :: "account_identity \<Rightarrow> string option \<Rightarrow> string option \<Rightarrow> string" where
  "import_alias i hint suggested =
     the_or ''account'' (or_else hint (or_else (map_option alias_from_email (id_email i)) suggested))"

definition create_import_profile ::
  "codec \<Rightarrow> timestamps \<Rightarrow> json \<Rightarrow> string option \<Rightarrow> string option \<Rightarrow> nat option \<Rightarrow> import_outcome action" where
  "create_import_profile cd ts v hint suggested stage =
     (let requested = import_alias (extract_identity cd v) hint suggested in
     also_then (lift (validate_alias requested)) (\<lambda>_.
     also_then (profile_path requested) (\<lambda>p.
     also_then (path_exists_checked p) (\<lambda>exists.
     also_then (if exists then make_unique_alias requested else give requested) (\<lambda>name.
     also_then (lift (validate_alias name)) (\<lambda>_.
     also_then (case stage of
                  Some i \<Rightarrow> promote_import_stage cd name v i
                | None \<Rightarrow> also_then (write_profile_credentials cd ts name v) (\<lambda>_. give (None, None)))
       (\<lambda>(commit, cleanup). give \<lparr>io_alias = name, io_commit = commit, io_cleanup = cleanup\<rparr>)))))))"

section \<open>Saving a validated import\<close>

definition refuse_duplicate_import_identity_matches :: "string list \<Rightarrow> unit action" where
  "refuse_duplicate_import_identity_matches existing =
     (case existing of
        [] \<Rightarrow> give ()
      | [name] \<Rightarrow> refuse_text (''refusing duplicate import: profile '' @ quoted name
          @ '' already has the same account_id and email'')
      | names \<Rightarrow> refuse_text (''refusing duplicate import: profile(s) '' @ quoted (join '', '' names)
          @ '' already have the same account_id and email''))"

definition refuse_duplicate_import_identity :: "codec \<Rightarrow> account_identity \<Rightarrow> unit action" where
  "refuse_duplicate_import_identity cd i =
     also_then (scan_profiles_by_identity cd i) (\<lambda>m. refuse_duplicate_import_identity_matches (im_exact m))"

definition save_imported_locked ::
  "codec \<Rightarrow> timestamps \<Rightarrow> json \<Rightarrow> string option \<Rightarrow> string \<Rightarrow> string option \<Rightarrow> nat option
     \<Rightarrow> parsed_registry option \<Rightarrow> import_outcome action" where
  "save_imported_locked cd ts v hint validated suggested stage reserved =
     (let i = extract_identity cd v in
      case id_account i of
        None \<Rightarrow> refuse_text ''imported auth must contain a non-empty account_id''
      | Some account \<Rightarrow>
          if account = [] then refuse_text ''imported auth must contain a non-empty account_id''
          else if account \<noteq> validated
          then refuse_text (''imported account_id '' @ quoted account
                 @ '' does not match Usage API validated account_id '' @ quoted validated)
          else
          also_then (validate_managed cd v) (\<lambda>_.
          also_then (case reserved of
                       Some profiles \<Rightarrow>
                         refuse_duplicate_import_identity_matches (im_exact (collect_identity_matches cd i profiles))
                     | None \<Rightarrow> refuse_duplicate_import_identity cd i) (\<lambda>_.
            create_import_profile cd ts v hint suggested stage)))"

datatype import_commit = ImportedProfile import_outcome | ImportPreserved "nat option" anyhow

definition classify_validated_import_commit ::
  "nat option \<Rightarrow> failure + import_outcome \<Rightarrow> import_commit action" where
  "classify_validated_import_commit stage r =
     (case r of
        Inr outcome \<Rightarrow> give (ImportedProfile outcome)
      | Inl f \<Rightarrow>
          (case stage of
             None \<Rightarrow> refuse f
           | Some i \<Rightarrow> also_then (classify_import_recovery_after_failure i (fl_chain f)) (\<lambda>(path, cause).
               give (ImportPreserved path cause))))"

definition save_imported_auth_value_with_stage ::
  "codec \<Rightarrow> timestamps \<Rightarrow> json \<Rightarrow> string option \<Rightarrow> string \<Rightarrow> string option \<Rightarrow> nat option
     \<Rightarrow> import_commit action" where
  "save_imported_auth_value_with_stage cd ts v hint validated suggested stage =
     also_then (tried (with_transaction (save_imported_locked cd ts v hint validated suggested stage None)))
       (classify_validated_import_commit stage)"

text \<open>Within a reservation; its locks are released by the scope that took them.\<close>

definition save_reserved_imported_auth_value_with_stage ::
  "codec \<Rightarrow> timestamps \<Rightarrow> json \<Rightarrow> string option \<Rightarrow> string \<Rightarrow> string option \<Rightarrow> nat option
     \<Rightarrow> parsed_registry \<Rightarrow> import_commit action" where
  "save_reserved_imported_auth_value_with_stage cd ts v hint validated suggested stage profiles =
     also_then (tried (save_imported_locked cd ts v hint validated suggested stage (Some profiles)))
       (classify_validated_import_commit stage)"

section \<open>Recovering a rotated credential\<close>

text \<open>The stage to use, if it holds the latest value, and the one to remove, with the reason.\<close>

definition sort_stage :: "nat option \<Rightarrow> json \<Rightarrow> (nat option \<times> (nat \<times> string) option) action" where
  "sort_stage stage v =
     (case stage of
        None \<Rightarrow> give (None, None)
      | Some i \<Rightarrow> also_then (tried (stage_contains i v)) (\<lambda>r.
          give (case r of
                  Inr True \<Rightarrow> (Some i, None)
                | Inr False \<Rightarrow> (None, Some (i, ''the earlier recovery stage contains a superseded refresh token''))
                | Inl f \<Rightarrow> (None, Some (i, ''the earlier recovery stage could not be verified: ''
                                          @ show_chain (fl_chain f))))))"

definition remove_stale_import_stage :: "(nat \<times> string) option \<Rightarrow> unit action" where
  "remove_stale_import_stage stale =
     (case stale of
        None \<Rightarrow> give ()
      | Some (i, _) \<Rightarrow> also_then (tried (remove_stage i)) (\<lambda>_. give ()))"

definition recover_locked ::
  "codec \<Rightarrow> timestamps \<Rightarrow> json \<Rightarrow> string option \<Rightarrow> string option \<Rightarrow> nat \<Rightarrow> import_outcome action" where
  "recover_locked cd ts v hint suggested stage =
     (case id_account (extract_identity cd v) of
        None \<Rightarrow> refuse_text ''rotated credentials have no authenticated account_id''
      | Some account \<Rightarrow>
          if account = [] then refuse_text ''rotated credentials have no authenticated account_id''
          else
          also_then (validate_managed cd v) (\<lambda>_.
          also_then (refuse_duplicate_import_identity cd (extract_identity cd v)) (\<lambda>_.
            create_import_profile cd ts v hint suggested (Some stage))))"

definition recover_under_transaction ::
  "codec \<Rightarrow> timestamps \<Rightarrow> json \<Rightarrow> string option \<Rightarrow> string option \<Rightarrow> nat \<Rightarrow> import_commit action" where
  "recover_under_transaction cd ts v hint suggested i =
     also_then (tried (recover_locked cd ts v hint suggested i)) (\<lambda>r.
       case r of
         Inr outcome \<Rightarrow> give (ImportedProfile outcome)
       | Inl f \<Rightarrow> also_then (classify_import_recovery_after_failure i (fl_chain f)) (\<lambda>(path, cause).
           give (ImportPreserved path cause)))"

definition save_recovered_import_auth_value_with_stage ::
  "codec \<Rightarrow> timestamps \<Rightarrow> json \<Rightarrow> string option \<Rightarrow> string option \<Rightarrow> nat option \<Rightarrow> import_commit action" where
  "save_recovered_import_auth_value_with_stage cd ts v hint suggested stage =
     also_then (sort_stage stage v) (\<lambda>(current, stale).
     also_then (case current of
                  Some i \<Rightarrow> give i
                | None \<Rightarrow> in_context (''saving the latest rotated credentials before profile recovery''
                    @ (case stale of None \<Rightarrow> [] | Some (_, detail) \<Rightarrow> ''; '' @ detail))
                    (stage_rotation_recovery v)) (\<lambda>i.
     also_then (remove_stale_import_stage stale) (\<lambda>_.
     also_then (tried (with_transaction (recover_under_transaction cd ts v hint suggested i))) (\<lambda>r.
       case r of
         Inr commit \<Rightarrow> give commit
       | Inl f \<Rightarrow> also_then (classify_import_recovery_after_failure i (fl_chain f)) (\<lambda>(path, cause).
           give (ImportPreserved path
             (''profile recovery could not acquire the profile-registry transaction'' # cause)))))))"

section \<open>Consistency\<close>

lemma looked_conj: "looked A \<Longrightarrow> looked B \<Longrightarrow> looked (\<lambda>t. A t \<and> B t)"
  by (simp add: looked_def)

text \<open>Under the transaction, and this profile was seen not to exist.\<close>

definition vacant :: "codec \<Rightarrow> string \<Rightarrow> event list \<Rightarrow> bool" where
  "vacant cd name t \<longleftrightarrow> guarded cd t \<and> known cd name None t"

lemma frame_vacant: "frame (vacant cd name) (\<lambda>_. consistent_history cd)"
  unfolding vacant_def [abs_def] by (intro frame_known frame_guarded)

lemma vacant_consistent: "vacant cd name t \<Longrightarrow> consistent_history cd t"
  by (auto simp: vacant_def dest: guardedD)

lemma guarded_written:
  "vacant cd name t \<Longrightarrow> guarded cd (WroteProfile name old new # t)"
  by (auto simp: vacant_def guarded_def intro: created_ok)

lemma traced_copy:
  "traced (vacant cd name) (create_exclusive_copy cd name v) (\<lambda>_. guarded cd) (\<lambda>_. consistent_history cd)"
  unfolding create_exclusive_copy_def Let_def
  by (rule traced_access)
    (auto intro: guarded_written vacant_consistent created_ok simp: vacant_def guarded_def split: reply.splits)

lemma traced_confirm_durability: "frame A E \<Longrightarrow> traced A confirm_namespace_durability (\<lambda>_. A) E"
  unfolding confirm_namespace_durability_def
  by (rule traced_access) (auto simp: frame_error split: reply.splits)

lemma traced_contains: "frame A E \<Longrightarrow> traced A (stage_contains i v) (\<lambda>_. A) E"
  unfolding stage_contains_def
  by (rule traced_access) (auto simp: frame_error split: reply.splits option.splits)

lemma traced_stage: "frame A E \<Longrightarrow> traced A (stage_rotation_recovery v) (\<lambda>_. A) E"
  unfolding stage_rotation_recovery_def Let_def
  by (rule traced_access) (auto simp: frame_error split: reply.splits)

lemma traced_quiet:
  assumes "frame A E" "\<And>F. frame A F \<Longrightarrow> traced A m (\<lambda>_. A) F"
  shows "traced A (tried m) (\<lambda>_. A) E"
  by (rule traced_tried_weak) (rule assms(2) [OF frame_self [OF assms(1)]])

lemmas traced_stage_quiet =
  traced_quiet [OF _ traced_stage_accesses(3)] traced_quiet [OF _ traced_stage_accesses(4)]
  traced_quiet [OF _ traced_contains] traced_quiet [OF _ traced_confirm_durability]

lemma traced_classify_recovery: "frame A E \<Longrightarrow> traced A (classify_import_recovery_after_failure i c) (\<lambda>_. A) E"
  unfolding classify_import_recovery_after_failure_def
  by (intro traced_then [OF traced_stage_quiet(2)] traced_give)

lemma traced_finish_promotion: "frame A E \<Longrightarrow> traced A (finish_promotion name i) (\<lambda>_. A) E"
  unfolding finish_promotion_def exact_recovery_path_after_cleanup_failure_def
  by (intro traced_then [OF traced_stage_quiet(1)] traced_sum traced_give traced_prod
      traced_then [OF traced_then [OF traced_stage_quiet(2)]])

lemma consistent_promote:
  "traced (vacant cd name) (promote_import_stage cd name v i) (\<lambda>_. consistent_history cd) (\<lambda>_. consistent_history cd)"
proof -
  have confirm: "traced (guarded cd) (if b then give (Inr ()) else tried confirm_namespace_durability)
      (\<lambda>_. guarded cd) (\<lambda>_. consistent_history cd)" for b
    by (intro traced_if traced_give traced_stage_quiet(4) frame_guarded)
  have rest: "traced (guarded cd) (case r of
       Inr x \<Rightarrow> finish_promotion name i
     | Inl e \<Rightarrow> also_then (classify_import_recovery_after_failure i (f e)) (\<lambda>(path, cause). give (g path cause)))
     (\<lambda>_. consistent_history cd) (\<lambda>_. consistent_history cd)" for r :: "failure + unit" and f g
    by (intro traced_sum traced_then [OF traced_classify_recovery] traced_prod traced_give
        traced_mono [OF traced_finish_promotion [OF frame_consistent]] frame_guarded) (auto dest: guardedD)
  show ?thesis
    unfolding promote_import_stage_def
    by (intro traced_then [OF traced_lifted] traced_then [OF traced_managed] traced_then [OF traced_contains]
        traced_assume traced_if traced_refuse_text traced_at_path traced_then [OF traced_parent]
        traced_then [OF consistent_context [OF traced_copy]] traced_then [OF confirm] rest frame_vacant)
      (auto dest: vacant_consistent)
qed

lemma consistent_create:
  "traced (guarded cd) (create_import_profile cd ts v hint suggested stage)
     (\<lambda>_. consistent_history cd) (\<lambda>_. consistent_history cd)"
proof -
  have fresh: "traced (\<lambda>t. guarded cd t \<and> (\<not> b \<longrightarrow> None \<in> set (seen_since name t)))
      (if b then make_unique_alias name else give name) (\<lambda>n. vacant cd n) (\<lambda>_. consistent_history cd)" for name b
    unfolding make_unique_alias_def vacant_def
    by (intro traced_if traced_mono [OF traced_unique_alias [OF frame_guarded]] traced_give)
      (auto simp: known_def dest: guardedD)
  have door: "traced (vacant cd n) (also_then (write_profile_credentials cd ts n v) (\<lambda>_. give x))
      (\<lambda>_. consistent_history cd) (\<lambda>_. consistent_history cd)" for n and x :: "'x \<times> 'y"
    by (rule traced_then [OF consistent_door [OF frame_vacant, where L = "\<lambda>_. True"]])
      (auto simp: vacant_def lasting_def intro!: traced_give dest: guardedD)
  have body: "traced (vacant cd n) (case stage of
        Some i \<Rightarrow> promote_import_stage cd n v i
      | None \<Rightarrow> also_then (write_profile_credentials cd ts n v) (\<lambda>_. give (None, None)))
      (\<lambda>_. consistent_history cd) (\<lambda>_. consistent_history cd)" for n
    by (intro traced_option door consistent_promote)
  show ?thesis
    unfolding create_import_profile_def Let_def
    by (rule traced_then [OF traced_lifted [OF frame_guarded]], rule traced_assume,
        rule traced_at_path [OF frame_guarded], rule traced_then [OF traced_know_exists [OF frame_guarded]],
        erule guardedD(2), rule traced_then [OF fresh], rule traced_then [OF traced_lifted [OF frame_vacant]],
        rule traced_assume, rule traced_then [OF body], rule traced_prod, rule traced_give)
qed

lemma consistent_refuse_duplicate:
  assumes "frame A E"
  shows "traced A (refuse_duplicate_import_identity_matches names) (\<lambda>_. A) E"
    "traced A (refuse_duplicate_import_identity cd i) (\<lambda>_. A) E"
proof -
  show m: "traced A (refuse_duplicate_import_identity_matches names) (\<lambda>_. A) E" for names
    unfolding refuse_duplicate_import_identity_matches_def
    by (cases names; cases "tl names") (auto intro!: traced_intros simp: frame_error [OF assms])
  show "traced A (refuse_duplicate_import_identity cd i) (\<lambda>_. A) E"
    unfolding refuse_duplicate_import_identity_def by (intro traced_then [OF traced_scan_identity] m assms)
qed

lemma consistent_import_locked:
  "traced (guarded cd) (save_imported_locked cd ts v hint validated suggested stage reserved)
     (\<lambda>_. consistent_history cd) (\<lambda>_. consistent_history cd)"
proof -
  have refuse: "traced (guarded cd) (case reserved of
        Some profiles \<Rightarrow> refuse_duplicate_import_identity_matches (f profiles)
      | None \<Rightarrow> refuse_duplicate_import_identity cd i) (\<lambda>_. guarded cd) (\<lambda>_. consistent_history cd)" for f i
    by (intro traced_option consistent_refuse_duplicate frame_guarded)
  show ?thesis
    unfolding save_imported_locked_def Let_def
    by (intro traced_option traced_if traced_refuse_text traced_then [OF traced_managed [OF frame_guarded]]
        traced_then [OF refuse] consistent_create) (auto dest: guardedD)
qed

lemma consistent_classify: "keeps cd (classify_validated_import_commit stage r)"
  unfolding classify_validated_import_commit_def
  by (intro traced_sum traced_option traced_give traced_refuse traced_prod
      traced_then [OF traced_classify_recovery] frame_consistent)

lemma consistent_import [traced_intros]:
  "keeps cd (save_imported_auth_value_with_stage cd ts v hint validated suggested stage)"
  unfolding save_imported_auth_value_with_stage_def
  by (rule traced_then [OF traced_tried_weak consistent_classify],
      rule consistent_plain_transaction [OF consistent_import_locked]) (intro observed_intros)

lemma consistent_reserved_import:
  "traced (guarded cd) (save_reserved_imported_auth_value_with_stage cd ts v hint validated suggested stage profiles)
     (\<lambda>_. consistent_history cd) (\<lambda>_. consistent_history cd)"
  unfolding save_reserved_imported_auth_value_with_stage_def
  by (rule traced_then [OF traced_tried_weak consistent_classify], rule consistent_import_locked)

lemma consistent_recover_locked:
  "traced (guarded cd) (recover_under_transaction cd ts v hint suggested i)
     (\<lambda>_. consistent_history cd) (\<lambda>_. consistent_history cd)"
proof -
  have locked: "traced (guarded cd) (recover_locked cd ts v hint suggested i)
      (\<lambda>_. consistent_history cd) (\<lambda>_. consistent_history cd)"
    unfolding recover_locked_def
    by (intro traced_option traced_if traced_refuse_text traced_then [OF traced_managed [OF frame_guarded]]
        traced_then [OF consistent_refuse_duplicate(2) [OF frame_guarded]] consistent_create)
      (auto dest: guardedD)
  show ?thesis
    unfolding recover_under_transaction_def
    by (intro traced_then [OF traced_tried_weak [OF locked]] traced_sum traced_give traced_prod
        traced_then [OF traced_classify_recovery] frame_consistent)
qed

lemma consistent_recovery [traced_intros]:
  "keeps cd (save_recovered_import_auth_value_with_stage cd ts v hint suggested stage)"
proof -
  note f = frame_consistent [of cd]
  have sorted: "keeps cd (sort_stage stage v)"
    unfolding sort_stage_def
    by (intro traced_option traced_give traced_then [OF traced_stage_quiet(3)] f)
  have stale: "keeps cd (remove_stale_import_stage stale)" for stale
    unfolding remove_stale_import_stage_def
    by (intro traced_option traced_give traced_prod traced_then [OF traced_stage_quiet(1)] f)
  have staged: "keeps cd (case current of Some i \<Rightarrow> give i | None \<Rightarrow> in_context c (stage_rotation_recovery v))"
    for current c
    by (intro traced_option traced_give consistent_context traced_stage f)
  have locked: "keeps cd (with_transaction (recover_under_transaction cd ts v hint suggested i))" for i
    by (rule consistent_plain_transaction [OF consistent_recover_locked]) (intro observed_intros)
  show ?thesis
    unfolding save_recovered_import_auth_value_with_stage_def
    by (intro traced_then [OF sorted] traced_then [OF staged] traced_then [OF stale]
        traced_then [OF traced_tried_weak [OF locked]] traced_sum traced_give traced_prod
        traced_then [OF traced_classify_recovery] f)
qed

text \<open>A reservation around a body that keeps the trace consistent under the transaction.\<close>

lemma consistent_reservation:
  assumes "\<And>profiles. traced (guarded cd) (body profiles) (\<lambda>_. consistent_history cd) (\<lambda>_. consistent_history cd)"
  shows "keeps cd (reserve_import_credential_for_validation cd incoming body)"
proof -
  have owned: "traced (guarded cd) (refuse_owned_credential cd incoming names) (\<lambda>_. guarded cd)
      (\<lambda>_. consistent_history cd)" for names
    unfolding refuse_owned_credential_def
    by (rule traced_mono [where A = "guarded cd" and E = "\<lambda>_. consistent_history cd"])
      (intro traced_steps frame_rules observed_intros frame_guarded, auto split: prod.splits dest: guardedD intro!: traced_prod traced_steps)
  have locked: "keeps cd (with_leases names (with_transaction (
       also_then list_profiles (\<lambda>again.
       if again \<noteq> names then give None
       else
       also_then (refuse_owned_credential cd incoming names) (\<lambda>profiles.
       also_then (body profiles) (\<lambda>x. give (Some x)))))))" for names
    by (intro traced_with_leases frame_consistent consistent_plain_transaction observed_intros
        traced_then [OF traced_list [OF frame_guarded]] traced_if traced_then [OF owned]
        traced_then [OF assms] traced_give) (auto dest: guardedD)
  have "keeps cd (reserve_attempts cd incoming body n)" for n
    by (induction n) (auto intro!: traced_refuse_text traced_then [OF traced_list [OF frame_consistent]]
        traced_then [OF locked] traced_option traced_give)
  then show ?thesis by (simp add: reserve_import_credential_for_validation_def)
qed

section \<open>The trace stays true\<close>

lemma truthful_stage_accesses [truthful_intros]:
  "truthful (stage_contains i v)" "truthful confirm_namespace_durability"
  unfolding stage_contains_def confirm_namespace_durability_def
  by (rule truthful_access; auto split: reply.splits option.splits)+

lemma truthful_copy [truthful_intros]: "truthful (create_exclusive_copy cd name v)"
proof -
  have created: "coherent_over base (record_event (WroteProfile name None bytes)
     (s\<lparr>st_auth := (st_auth s)(name \<mapsto> bytes), st_names := ns\<rparr>))"
    if "coherent_over base s" "st_auth s name = None" for base s bytes ns
    using over_wrote [OF that(1), of name bytes ns] that(2) by simp
  show ?thesis
    unfolding create_exclusive_copy_def Let_def
    by (rule truthful_access) (auto intro: created split: reply.splits)
qed

lemma truthful_recovery_state [truthful_intros]:
  "truthful (classify_import_recovery_after_failure i c)" "truthful (finish_promotion name i)"
  "truthful (exact_recovery_path_after_cleanup_failure i c)"
  unfolding classify_import_recovery_after_failure_def finish_promotion_def
    exact_recovery_path_after_cleanup_failure_def
  by (intro truthful_intros)+

lemma truthful_create [truthful_intros]:
  "truthful (create_import_profile cd ts v hint suggested stage)"
  unfolding create_import_profile_def promote_import_stage_def make_unique_alias_def Let_def
  by (intro truthful_intros)

lemma truthful_refuse [truthful_intros]:
  "truthful (refuse_duplicate_import_identity_matches names)" "truthful (refuse_duplicate_import_identity cd i)"
proof -
  show "truthful (refuse_duplicate_import_identity_matches names)" for names
    unfolding refuse_duplicate_import_identity_matches_def
    by (cases names; cases "tl names") (simp_all add: truthful_intros)
  then show "truthful (refuse_duplicate_import_identity cd i)"
    unfolding refuse_duplicate_import_identity_def scan_profiles_by_identity_def by (intro truthful_intros)
qed

lemma truthful_import [truthful_intros]:
  "truthful (save_imported_locked cd ts v hint validated suggested stage reserved)"
  "truthful (classify_validated_import_commit stage' r)"
  unfolding save_imported_locked_def classify_validated_import_commit_def Let_def
  by (intro truthful_intros)+

lemma truthful_imports [truthful_intros]:
  "truthful (save_imported_auth_value_with_stage cd ts v hint validated suggested stage)"
  "truthful (save_reserved_imported_auth_value_with_stage cd ts v hint validated suggested stage profiles)"
  "truthful (save_recovered_import_auth_value_with_stage cd ts v hint suggested stage)"
  unfolding save_imported_auth_value_with_stage_def save_reserved_imported_auth_value_with_stage_def
    save_recovered_import_auth_value_with_stage_def sort_stage_def remove_stale_import_stage_def
    recover_under_transaction_def recover_locked_def
  by (intro truthful_intros)+

lemma truthful_reservation:
  assumes "\<And>profiles. truthful (body profiles)"
  shows "truthful (reserve_import_credential_for_validation cd incoming body)"
proof -
  have "truthful (reserve_attempts cd incoming body n)" for n
    by (induction n) (auto intro!: truthful_intros assms simp: refuse_owned_credential_def)
  then show ?thesis by (simp add: reserve_import_credential_for_validation_def)
qed

section \<open>What an import does to the saved credentials\<close>

text \<open>
  One profile is new, with this credential; nothing else has changed. A failed import leaves the
  saved credentials as they were, or a new profile beside them.
\<close>

definition imported_as :: "codec \<Rightarrow> (string \<Rightarrow> string option) \<Rightarrow> json \<Rightarrow> string \<Rightarrow> store \<Rightarrow> bool" where
  "imported_as cd c v name s \<longleftrightarrow> c name = None \<and> saved_are (c(name \<mapsto> cd_print cd v)) s"

definition only_added :: "(string \<Rightarrow> string option) \<Rightarrow> store \<Rightarrow> bool" where
  "only_added c s \<longleftrightarrow> saved_are c s \<or> (\<exists>name bytes. c name = None \<and> saved_are (c(name \<mapsto> bytes)) s)"

lemma only_addedI:
  "saved_are c s \<Longrightarrow> only_added c s"
  "c name = None \<Longrightarrow> saved_are (c(name \<mapsto> bytes)) s \<Longrightarrow> only_added c s"
  "imported_as cd c v name s \<Longrightarrow> only_added c s"
  by (auto simp: only_added_def imported_as_def)

lemma settled_imported: "settled (imported_as cd c v name)"
  unfolding imported_as_def [abs_def] by (intro settled_conj settled_const settled_saved)

lemma modest_stage [modest_intros]:
  "modest (stage_contains i v)" "modest (stage_present i)" "modest confirm_namespace_durability"
  unfolding stage_contains_def stage_present_def confirm_namespace_durability_def
  by (rule modest_access; auto split: reply.splits option.splits)+

lemma modest_classify [modest_intros]:
  "modest (classify_import_recovery_after_failure i c)" "modest (exact_recovery_path_after_cleanup_failure i c)"
  unfolding classify_import_recovery_after_failure_def exact_recovery_path_after_cleanup_failure_def
  by (intro modest_intros)+

lemma imported_stages [simp]: "imported_as cd c v name (s\<lparr>st_stages := g\<rparr>) \<longleftrightarrow> imported_as cd c v name s"
  by (simp add: imported_as_def saved_are_def)

lemma run_finish_promotion:
  assumes "\<And>s. imported_as cd c v name s \<Longrightarrow> E s"
  shows "run (imported_as cd c v name) (finish_promotion name i) (\<lambda>_. imported_as cd c v name) E"
proof -
  have remove: "run (imported_as cd c v name) (tried (remove_stage i)) (\<lambda>_. imported_as cd c v name) E"
    unfolding remove_stage_def Let_def
    by (rule run_tried, rule run_access [OF settled_imported, where E = "imported_as cd c v name"])
      (auto split: reply.splits)
  show ?thesis
    unfolding finish_promotion_def
    by (intro run_then [OF remove] run_sum run_give run_then [OF run_modest] run_prod modest_intros
        settled_imported assms)
qed

lemma only_added_new: "c name = None \<Longrightarrow> st_locked s \<Longrightarrow> st_auth s = c(name \<mapsto> bytes) \<Longrightarrow> only_added c s"
  by (auto simp: only_added_def saved_are_def)

lemma run_copy:
  assumes "c name = None"
  shows "run (saved_are c) (create_exclusive_copy cd name v) (\<lambda>_. imported_as cd c v name) (only_added c)"
  unfolding create_exclusive_copy_def Let_def
  by (rule run_access [OF settled_saved])
    (use assms in \<open>auto simp: imported_as_def saved_are_def record_event_def
      intro: only_addedI(1) only_added_new split: reply.splits\<close>)

lemma run_promote:
  assumes "c name = None"
  shows "run (saved_are c) (promote_import_stage cd name v i) (\<lambda>_. imported_as cd c v name) (only_added c)"
proof -
  have quiet: "run (saved_are c) m (\<lambda>_. saved_are c) (only_added c)" if "modest m" for m :: "'x action"
    by (rule run_modest [OF that settled_saved]) (rule only_addedI)
  have confirm: "run (imported_as cd c v name) (if b then give (Inr ()) else tried confirm_namespace_durability)
      (\<lambda>_. imported_as cd c v name) (only_added c)" for b
    by (intro run_modest modest_intros settled_imported) (rule only_addedI)
  have classify: "run (imported_as cd c v name) (classify_import_recovery_after_failure i x)
      (\<lambda>_. imported_as cd c v name) (only_added c)" for x
    by (intro run_modest modest_intros settled_imported) (rule only_addedI)
  have parent: "run (saved_are c) (ensure_profile_parent name) (\<lambda>_. saved_are c) (only_added c)"
    by (rule run_parent [OF settled_saved]) (auto intro: only_addedI)
  show ?thesis
    unfolding promote_import_stage_def
    by (intro run_then [OF quiet] run_if run_refuse run_then [OF parent] run_then [OF run_context [OF run_copy]]
        run_then [OF confirm] run_sum run_then [OF classify] run_prod run_give run_finish_promotion modest_intros assms)
      (auto intro: only_addedI)
qed

lemma run_unique_alias:
  "run (saved_are c) (unique_alias_attempts base n k) (\<lambda>name s. saved_are c s \<and> c name = None) (saved_are c)"
proof (induction k arbitrary: n)
  case 0
  then show ?case by (auto intro: run_refuse)
next
  case (Suc k)
  show ?case
    unfolding unique_alias_attempts.simps
    by (rule run_path, assumption, rule run_then [OF run_exists [OF settled_saved]], assumption, rule run_if)
      (auto intro: run_mono [OF Suc.IH] run_give)
qed

lemma create_import_effect:
  "run (saved_are c) (create_import_profile cd ts v hint suggested stage)
     (\<lambda>r. imported_as cd c v (io_alias r)) (only_added c)"
proof -
  have E: "\<And>s. saved_are c s \<Longrightarrow> only_added c s" by (rule only_addedI)
  have fresh: "run (\<lambda>s. saved_are c s \<and> b = (content (ProfileAuth name) s \<noteq> None))
      (if b then make_unique_alias name else give name)
      (\<lambda>n s. saved_are c s \<and> c n = None) (only_added c)" for name b
    unfolding make_unique_alias_def
    by (intro run_if run_mono [OF run_unique_alias] run_give) (auto intro: E)
  have door: "run (saved_are c) (also_then (write_profile_credentials cd ts n v) (\<lambda>_. give x))
      (\<lambda>_. imported_as cd c v n) (only_added c)" if "c n = None" for n and x :: "'x \<times> 'y"
    by (rule run_then [OF run_mono [OF run_door, where S = "\<lambda>_. imported_as cd c v n" and F = "only_added c"]])
      (auto simp: imported_as_def that intro: run_give only_addedI(1) only_addedI(2) [where c = c and name = n, OF that])
  have body: "run (\<lambda>s. saved_are c s \<and> c n = None) (case stage of
        Some i \<Rightarrow> promote_import_stage cd n v i
      | None \<Rightarrow> also_then (write_profile_credentials cd ts n v) (\<lambda>_. give (None, None)))
      (\<lambda>_. imported_as cd c v n) (only_added c)" for n
    by (rule run_assume, intro run_option door run_promote)
  have named: "run (\<lambda>s. saved_are c s \<and> c n = None) (lift (validate_alias n))
      (\<lambda>_ s. saved_are c s \<and> c n = None) (only_added c)" for n
    by (rule run_named) (auto intro: E)
  show ?thesis
    unfolding create_import_profile_def Let_def
    by (rule run_then [OF run_named [OF E]], assumption, rule run_path, erule E,
        rule run_then [OF run_exists [OF settled_saved E]], assumption, rule run_then [OF fresh],
        rule run_then [OF named], rule run_then [OF body], rule run_prod, rule run_give, simp)
qed

end
