(* ===== verification/Token_Refresh.thy ===== *)
theory Token_Refresh
  imports Profile_Import Reset_Enrichment Usage_Parse Race_Control
begin

text \<open>
  Refreshing a token (\<open>src/src/usage/api.rs\<close>): the answers of the token endpoint, what is made of
  them, and how the result is committed to the profile of the lease.

  The answer of the endpoint arrives decoded, as the derived deserialiser gives it, or as the
  reason why it could not be read. \<open>status_text\<close> writes an HTTP status, \<open>stage_path\<close> the path of a
  recovery file. Where the source writes a dash outside Latin-1, a hyphen is written.
\<close>

section \<open>Errors of requests\<close>

datatype request_failure_kind = TransportFailure | DeterministicRequest | HttpFailure nat

text \<open>
  The typed error beneath the contexts of an error, which is what its callers look at; \<open>LocalStop\<close>
  is the error of a commit that was captured beside the request.
\<close>

datatype fetch_cause =
    UsageReadCancelled
  | NetworkWaitCancelled
  | NetworkLimiterClosed
  | RefreshOutcomeUnknown
  | TerminalAuthError string
  | UsageRequestFailure request_failure_kind
  | InvalidUsageResponse
  | LocalStop usage_error
  | OtherCause

record fetch_error =
  fe_cause :: fetch_cause
  fe_chain :: anyhow

definition other_error :: "anyhow \<Rightarrow> fetch_error" where
  "other_error e = \<lparr>fe_cause = OtherCause, fe_chain = e\<rparr>"

definition add_fetch_context :: "string \<Rightarrow> fetch_error \<Rightarrow> fetch_error" where
  "add_fetch_context c e = e\<lparr>fe_chain := c # fe_chain e\<rparr>"

definition is_retryable :: "request_failure_kind \<Rightarrow> bool" where
  "is_retryable kind =
     (case kind of
        TransportFailure \<Rightarrow> True
      | DeterministicRequest \<Rightarrow> False
      | HttpFailure status \<Rightarrow> status = 408 \<or> status = 429 \<or> is_server_error status)"

definition http_failure :: "nat \<Rightarrow> string \<Rightarrow> fetch_error" where
  "http_failure status detail = \<lparr>fe_cause = UsageRequestFailure (HttpFailure status), fe_chain = [detail]\<rparr>"

definition outcome_unknown :: "anyhow \<Rightarrow> fetch_error" where
  "outcome_unknown cause = \<lparr>fe_cause = RefreshOutcomeUnknown, fe_chain =
     ''token refresh outcome is unknown after the request may have reached the server; do not retry this credential before inspecting the profile''
       # cause\<rparr>"

section \<open>The answer of the token endpoint\<close>

datatype refresh_error =
    ErrorCode string
  | ErrorDetail "string option" "string option" "string option"

record refresh_response =
  rr_id_token :: "string option"
  rr_access_token :: "string option"
  rr_refresh_token :: "string option"
  rr_error :: "refresh_error option"
  rr_error_description :: "string option"

record refreshed_tokens =
  rt_id_token :: string
  rt_access_token :: string
  rt_refresh_token :: string

datatype refresh_resolution = Validated refreshed_tokens | RotatedButInvalid json anyhow

definition nonempty_error_code :: "string \<Rightarrow> string option" where
  "nonempty_error_code code = (let code = trim code in if code = [] then None else Some code)"

definition error_parts :: "refresh_response \<Rightarrow> (string \<times> string option) option" where
  "error_parts r =
     (case rr_error r of
        None \<Rightarrow> None
      | Some (ErrorCode code) \<Rightarrow>
          map_option (\<lambda>code. (code, rr_error_description r)) (nonempty_error_code code)
      | Some (ErrorDetail code message kind) \<Rightarrow>
          map_option (\<lambda>code. (code, or_else message (rr_error_description r)))
            (or_else (Option.bind code nonempty_error_code) (Option.bind kind nonempty_error_code)))"

definition terminal_auth_codes :: "string list" where
  "terminal_auth_codes =
     [''refresh_token_reused'', ''refresh_token_invalidated'', ''invalid_grant'', ''invalid_client'',
      ''unauthorized_client'', ''access_denied'']"

definition is_terminal_auth_failure :: "string \<Rightarrow> nat \<Rightarrow> bool" where
  "is_terminal_auth_failure code status =
     (if status = 429 \<or> status = 408 then False
      else code \<in> set terminal_auth_codes \<or> is_client_error status)"

definition format_refresh_error :: "string \<Rightarrow> string option \<Rightarrow> string" where
  "format_refresh_error code message =
     (case message of Some message \<Rightarrow> code @ '': '' @ message | None \<Rightarrow> code)"

definition terminal_auth_error :: "string \<Rightarrow> string option \<Rightarrow> fetch_error" where
  "terminal_auth_error code message = \<lparr>fe_cause = TerminalAuthError code, fe_chain =
     [''token refresh rejected, sign in again - '' @ format_refresh_error code message]\<rparr>"

definition opt_text :: "string option \<Rightarrow> json" where
  "opt_text x = (case x of None \<Rightarrow> JNull | Some s \<Rightarrow> JString s)"

definition invalid_refresh_material :: "refresh_response \<Rightarrow> json" where
  "invalid_refresh_material r =
     JObject [(''id_token'', opt_text (rr_id_token r)),
              (''access_token'', opt_text (rr_access_token r)),
              (''refresh_token'', opt_text (rr_refresh_token r)),
              (''recovery_kind'', JString ''invalid_token_refresh_response'')]"

definition resolved_tokens :: "refresh_response \<Rightarrow> string option \<Rightarrow> string \<Rightarrow> refreshed_tokens result" where
  "resolved_tokens r current_id_token current_refresh_token =
     and_then (ok_or [''token refresh response omitted id_token and no existing id_token is available'']
                 (or_else (rr_id_token r) current_id_token)) (\<lambda>id_token.
     and_then (ok_or [''token refresh success response omitted access_token'']
                 (rr_access_token r)) (\<lambda>access_token.
     let refresh_tok = the_or current_refresh_token (rr_refresh_token r) in
     and_then (with_context ''invalid token refresh response''
                 (validate_complete_oauth_tokens id_token access_token refresh_tok)) (\<lambda>_.
       Inr \<lparr>rt_id_token = id_token, rt_access_token = access_token, rt_refresh_token = refresh_tok\<rparr>)))"

definition resolve_refreshed_tokens ::
  "(nat \<Rightarrow> string) \<Rightarrow> refresh_response \<Rightarrow> nat \<Rightarrow> string option \<Rightarrow> string \<Rightarrow> fetch_error + refresh_resolution" where
  "resolve_refreshed_tokens status_text r status current_id_token current_refresh_token =
     (case error_parts r of
        Some (code, message) \<Rightarrow>
          if is_terminal_auth_failure code status then Inl (terminal_auth_error code message)
          else Inl (http_failure status (''token refresh failed: '' @ format_refresh_error code message))
      | None \<Rightarrow>
          if \<not> is_success status
          then Inl (outcome_unknown [''token refresh returned HTTP '' @ status_text status
                      @ '' without a recognizable OAuth error''])
          else
            let returned_nonempty_refresh = is_some_and (\<lambda>t. trim t \<noteq> []) (rr_refresh_token r) in
            case resolved_tokens r current_id_token current_refresh_token of
              Inr tokens \<Rightarrow> Inr (Validated tokens)
            | Inl cause \<Rightarrow>
                if returned_nonempty_refresh then Inr (RotatedButInvalid (invalid_refresh_material r) cause)
                else Inl (outcome_unknown (''invalid token refresh success response'' # cause)))"

text \<open>The exchange once it was sent: no answer, an unreadable answer, or a decoded one.\<close>

datatype refresh_answer =
    NoAnswer string anyhow
  | AnswerCut nat anyhow
  | AnswerUnreadable nat anyhow
  | Answer nat refresh_response

definition execute_refresh_request_with_permit ::
  "(nat \<Rightarrow> string) \<Rightarrow> string \<Rightarrow> refresh_answer \<Rightarrow> string option \<Rightarrow> string \<Rightarrow> fetch_error + refresh_resolution" where
  "execute_refresh_request_with_permit status_text name answer current_id_token offered =
     (case answer of
        NoAnswer detail cause \<Rightarrow>
          Inl (outcome_unknown ((''token refresh request transport failed after submission began: ''
                 @ detail) # cause))
      | AnswerCut status cause \<Rightarrow>
          Inl (outcome_unknown ((''failed to read token refresh response body (HTTP ''
                 @ status_text status @ '')'') # cause))
      | AnswerUnreadable status cause \<Rightarrow>
          Inl (outcome_unknown ((''failed to parse token refresh response (HTTP ''
                 @ status_text status @ '')'') # cause))
      | Answer status r \<Rightarrow>
          map_err (add_fetch_context (in_brackets name @ '' token refresh HTTP '' @ status_text status))
            (resolve_refreshed_tokens status_text r status current_id_token offered))"

section \<open>The errors of a commit\<close>

definition token_persist_failed :: "string \<Rightarrow> anyhow \<Rightarrow> usage_error" where
  "token_persist_failed name cause =
     \<lparr>ue_summary = ''refreshed token not saved'',
      ue_detail = in_brackets name
        @ '' token refresh succeeded but the rotated credentials could not be saved: '' @ show_chain cause
        @ ''. The auth server has already invalidated the previous refresh token, so this profile may need to sign in again once the write problem is fixed.''\<rparr>"

definition credential_commit_incomplete :: "string \<Rightarrow> string option \<Rightarrow> anyhow \<Rightarrow> usage_error" where
  "credential_commit_incomplete name recovery_path cause =
     (let recovery = (case recovery_path of
            None \<Rightarrow> []
          | Some path \<Rightarrow> '' The exact rotated credentials remain privately preserved at '' @ path @ ''.'')
      in \<lparr>ue_summary = ''credential commit incomplete'',
          ue_detail = in_brackets name
            @ '' refreshed credentials are visible in the profile, but their durable commit or live Codex auth synchronization could not be confirmed safely: ''
            @ show_chain cause @ ''.'' @ recovery
            @ '' The refresh was stopped without spending another token. Fix the reported local path problem, then inspect the profile before retrying.''\<rparr>)"

definition recovery_cleanup_incomplete :: "string \<Rightarrow> string option \<Rightarrow> anyhow \<Rightarrow> usage_error" where
  "recovery_cleanup_incomplete name recovery_path cause =
     (let recovery = (case recovery_path of
            None \<Rightarrow> '' The original recovery file could not be rebound to its exact file identity, so no path is claimed for it.''
          | Some path \<Rightarrow> '' The exact redundant recovery file is still present at '' @ path @ ''.'')
      in \<lparr>ue_summary = ''recovery cleanup incomplete'',
          ue_detail = in_brackets name
            @ '' refreshed credentials were durably committed to the profile and any required live Codex auth update completed, but exact cleanup of the write-ahead recovery stage failed: ''
            @ show_chain cause @ ''.'' @ recovery
            @ '' No additional token was spent. Resolve the reported local path problem before deleting any recovery file manually.''\<rparr>)"

definition refreshed_credentials_quarantined :: "string \<Rightarrow> string \<Rightarrow> anyhow \<Rightarrow> usage_error" where
  "refreshed_credentials_quarantined name path cause =
     \<lparr>ue_summary = ''refreshed credentials quarantined'',
      ue_detail = in_brackets name
        @ '' token refresh succeeded, but its credentials were not installed: '' @ show_chain cause
        @ ''. The exact rotated credentials were preserved privately at '' @ path
        @ ''. The existing profile and live Codex auth were left unchanged; inspect the account mismatch before recovering or retrying.''\<rparr>"

definition rotated_credentials_recovery_preserved :: "string \<Rightarrow> string \<Rightarrow> anyhow \<Rightarrow> usage_error" where
  "rotated_credentials_recovery_preserved name path cause =
     \<lparr>ue_summary = ''rotated credentials preserved for recovery'',
      ue_detail = in_brackets name
        @ '' token refresh succeeded and the exact rotated credentials were preserved privately at '' @ path
        @ '', but the profile commit was stopped before replacement: '' @ show_chain cause
        @ ''. The existing profile and live Codex auth were left unchanged; fix the reported local problem and inspect the named recovery file before retrying.''\<rparr>"

definition invalid_refresh_recovery_failed :: "string \<Rightarrow> anyhow \<Rightarrow> usage_error" where
  "invalid_refresh_recovery_failed name cause =
     \<lparr>ue_summary = ''rotated credential recovery failed'',
      ue_detail = in_brackets name
        @ '' token refresh issued a non-empty successor refresh token, but the response was invalid and its private recovery copy could not be committed: ''
        @ show_chain cause
        @ ''. The existing profile and live Codex auth were left unchanged, but the previous refresh token may already be invalid; do not retry it and sign in again if the recovery artifact cannot be located.''\<rparr>"

definition token_update_superseded :: "string \<Rightarrow> string \<Rightarrow> usage_error" where
  "token_update_superseded name recovery_path =
     \<lparr>ue_summary = ''refreshed token superseded'',
      ue_detail = in_brackets name
        @ '' the saved credential changed while token refresh was in progress. The refreshed response was not installed because overwriting the newer credential would be unsafe. The exact rotated response was preserved privately at ''
        @ recovery_path @ ''; this request was stopped.''\<rparr>"

section \<open>The commit under the lease\<close>

text \<open>
  What the commit depends on beside the files: the clock of its two transformations, and the
  paths of recovery files.
\<close>

record commit_world =
  cw_stamp :: "refreshed_tokens \<Rightarrow> string result"
  cw_profile_stamp :: "refreshed_tokens \<Rightarrow> string result"
  cw_stage_path :: "nat \<Rightarrow> string"

definition persisted_update :: "commit_world \<Rightarrow> string \<Rightarrow> token_update \<Rightarrow> usage_error + unit" where
  "persisted_update w name update =
     (case update of
        RefreshSaved \<Rightarrow> Inr ()
      | Superseded i \<Rightarrow> Inl (token_update_superseded name (cw_stage_path w i))
      | SavedCommitIncomplete i cause \<Rightarrow>
          Inl (credential_commit_incomplete name (map_option (cw_stage_path w) i) cause)
      | SavedCleanupIncomplete i cause \<Rightarrow>
          Inl (recovery_cleanup_incomplete name (map_option (cw_stage_path w) i) cause)
      | RecoveryPreserved i cause \<Rightarrow>
          Inl (rotated_credentials_recovery_preserved name (cw_stage_path w i) cause)
      | Quarantined i cause \<Rightarrow> Inl (refreshed_credentials_quarantined name (cw_stage_path w i) cause))"

definition persist_refreshed_tokens ::
  "codec \<Rightarrow> commit_world \<Rightarrow> string \<Rightarrow> fresh_authorization \<Rightarrow> string \<Rightarrow> refreshed_tokens
     \<Rightarrow> (usage_error + unit) action" where
  "persist_refreshed_tokens cd w name authorization offered new_tokens =
     also_then (tried (update_profile_tokens_if_refresh_matches cd (cw_stamp w new_tokens)
         (cw_profile_stamp w new_tokens) name authorization offered (rt_id_token new_tokens)
         (rt_access_token new_tokens) (rt_refresh_token new_tokens))) (\<lambda>r.
       give (case r of
               Inl f \<Rightarrow> Inl (token_persist_failed name (fl_chain f))
             | Inr update \<Rightarrow> persisted_update w name update))"

definition persist_refresh_resolution ::
  "codec \<Rightarrow> commit_world \<Rightarrow> string \<Rightarrow> fresh_authorization \<Rightarrow> string \<Rightarrow> refresh_resolution
     \<Rightarrow> (usage_error + refreshed_tokens) action" where
  "persist_refresh_resolution cd w name authorization offered resolution =
     (case resolution of
        Validated tokens \<Rightarrow>
          also_then (persist_refreshed_tokens cd w name authorization offered tokens) (\<lambda>r.
            give (map_ok (\<lambda>_. tokens) r))
      | RotatedButInvalid recovery cause \<Rightarrow>
          also_then (tried (quarantine_invalid_refresh_response name authorization offered recovery cause)) (\<lambda>r.
            give (case r of
                    Inl f \<Rightarrow> Inl (invalid_refresh_recovery_failed name (fl_chain f))
                  | Inr (Quarantined i cause) \<Rightarrow>
                      Inl (refreshed_credentials_quarantined name (cw_stage_path w i) cause)
                  | Inr _ \<Rightarrow> Inl (invalid_refresh_recovery_failed name
                      [''invalid refresh response did not produce a quarantine outcome'']))))"

text \<open>The credentials of the profile, read again after its refresh token was rejected.\<close>

record reloaded_credentials =
  rl_id_token :: "string option"
  rl_access_token :: string
  rl_refresh_token :: string

definition reload_rotated_credentials ::
  "codec \<Rightarrow> string \<Rightarrow> string option \<Rightarrow> reloaded_credentials option action" where
  "reload_rotated_credentials cd name offered =
     also_then (tried (read_auth cd (ProfileAuth name))) (\<lambda>r.
       give (Option.bind (ok_opt r) (\<lambda>val.
         case extract_tokens val of (access_tok, refresh_tok) \<Rightarrow>
           Option.bind refresh_tok (\<lambda>new.
             if Some new = offered then None
             else map_option (\<lambda>bearer.
               \<lparr>rl_id_token = extract_id_token val, rl_access_token = bearer, rl_refresh_token = new\<rparr>)
               access_tok))))"

definition profile_still_holds_refresh_token :: "codec \<Rightarrow> string \<Rightarrow> string \<Rightarrow> bool action" where
  "profile_still_holds_refresh_token cd name offered =
     also_then (tried (read_auth cd (ProfileAuth name))) (\<lambda>r.
       give (Option.bind (ok_opt r) (\<lambda>val. snd (extract_tokens val)) = Some offered))"

section \<open>What the endpoint returned is not dropped\<close>

lemma carries_material: "rr_refresh_token r = Some t \<Longrightarrow> carries t (invalid_refresh_material r)"
  by (simp add: carries_def invalid_refresh_material_def opt_text_def)

lemma resolved_tokens_Inr:
  "resolved_tokens r i p = Inr t \<longleftrightarrow>
     or_else (rr_id_token r) i = Some (rt_id_token t) \<and> rr_access_token r = Some (rt_access_token t)
     \<and> rt_refresh_token t = the_or p (rr_refresh_token r)
     \<and> \<not> blank (rt_id_token t) \<and> \<not> blank (rt_access_token t) \<and> \<not> blank (rt_refresh_token t)"
  by (cases t) (auto simp: resolved_tokens_def result_eq_Inr Let_def validate_complete_oauth_tokens_Inr)

text \<open>The tokens of a resolution are complete.\<close>

fun complete_resolution :: "refresh_resolution \<Rightarrow> bool" where
  "complete_resolution (Validated t) \<longleftrightarrow>
     \<not> blank (rt_id_token t) \<and> \<not> blank (rt_access_token t) \<and> \<not> blank (rt_refresh_token t)"
| "complete_resolution (RotatedButInvalid _ _) \<longleftrightarrow> True"

lemma resolved_complete:
  "execute_refresh_request_with_permit st name answer i p = Inr resolution \<Longrightarrow> complete_resolution resolution"
  by (cases resolution)
    (auto simp: execute_refresh_request_with_permit_def resolve_refreshed_tokens_def Let_def result_eq_Inr
      resolved_tokens_Inr split: refresh_answer.splits option.splits sum.splits if_splits)

text \<open>Which token a resolution brings, if the server rotated.\<close>

definition successor :: "refresh_response \<Rightarrow> string option" where
  "successor r = filter_opt (\<lambda>t. trim t \<noteq> []) (rr_refresh_token r)"

lemma resolved_successor:
  assumes "successor r = Some t" "error_parts r = None" "is_success status"
  shows "(\<exists>tokens. resolve_refreshed_tokens st r status i p = Inr (Validated tokens) \<and> rt_refresh_token tokens = t)
    \<or> (\<exists>v cause. resolve_refreshed_tokens st r status i p = Inr (RotatedButInvalid v cause) \<and> carries t v)"
proof -
  have t: "rr_refresh_token r = Some t" "trim t \<noteq> []"
    using assms(1) by (auto simp: successor_def filter_opt_eq_Some)
  show ?thesis
  proof (cases "resolved_tokens r i p")
    case (Inl cause)
    with t assms(2,3) carries_material [OF t(1)] show ?thesis
      by (intro disjI2) (simp add: resolve_refreshed_tokens_def)
  next
    case (Inr tokens)
    with t have "rt_refresh_token tokens = t" by (simp add: resolved_tokens_Inr)
    with Inr assms(2,3) show ?thesis
      by (intro disjI1) (simp add: resolve_refreshed_tokens_def Let_def)
  qed
qed

text \<open>A validated set of tokens came from a success response that issued the access token.\<close>

lemma validated_tokens:
  "resolve_refreshed_tokens st r status i p = Inr (Validated t) \<longleftrightarrow>
     error_parts r = None \<and> is_success status \<and> resolved_tokens r i p = Inr t"
  by (auto simp: resolve_refreshed_tokens_def Let_def split: option.splits sum.splits if_splits)

section \<open>The commit keeps the tokens and the history\<close>

definition safe_somewhere :: "codec \<Rightarrow> string \<Rightarrow> string \<Rightarrow> store \<Rightarrow> bool" where
  "safe_somewhere cd name r s \<longleftrightarrow> installed cd name r s \<or> (\<exists>i. kept r i s)"

lemma rotation_somewhere: "rotation_safe cd name r u s \<Longrightarrow> safe_somewhere cd name r s"
  by (auto simp: rotation_safe_def safe_somewhere_def split: token_update.splits option.splits)

definition commit_outcome ::
  "codec \<Rightarrow> string \<Rightarrow> string \<Rightarrow> usage_error + refreshed_tokens \<Rightarrow> store \<Rightarrow> bool" where
  "commit_outcome cd name r result s \<longleftrightarrow>
     (case result of
        Inr t \<Rightarrow> rt_refresh_token t = r \<and> installed cd name r s
      | Inl e \<Rightarrow> safe_somewhere cd name r s
          \<or> (\<exists>cause. e = token_persist_failed name cause \<or> e = invalid_refresh_recovery_failed name cause))"

lemma persisted_commit:
  "rotation_safe cd name (rt_refresh_token t) u s \<Longrightarrow>
     commit_outcome cd name (rt_refresh_token t) (map_ok (\<lambda>_. t) (persisted_update w name u)) s"
  using rotation_somewhere [of cd name "rt_refresh_token t" u s]
  by (cases u) (simp_all add: commit_outcome_def persisted_update_def rotation_safe_def)

lemma run_persist_tokens:
  "run (\<lambda>s. True) (persist_refreshed_tokens cd w name fa p t)
     (\<lambda>r s. commit_outcome cd name (rt_refresh_token t) (map_ok (\<lambda>_. t) r) s) (\<lambda>s. False)"
  unfolding persist_refreshed_tokens_def
  by (rule run_then [OF run_tried [OF run_mono [OF run_update_tokens]], where R =
        "\<lambda>r s. case r of Inl f \<Rightarrow> True | Inr u \<Rightarrow> rotation_safe cd name (rt_refresh_token t) u s"])
    (auto intro!: run_give persisted_commit simp: commit_outcome_def [of _ _ _ "Inl _"] split: sum.splits)

lemma run_quarantine:
  assumes "carries r v"
  shows "run (\<lambda>s. True) (quarantine_invalid_refresh_response name fa p v cause)
     (\<lambda>u s. \<exists>i c. u = Quarantined i c \<and> kept r i s) (\<lambda>s. True)"
  unfolding quarantine_invalid_refresh_response_def quarantine_refreshed_credentials_def
  by (rule run_then [OF run_lift [where Q = "\<lambda>_ s. True"]],
      simp, simp, rule run_then [OF run_context [OF run_stage [OF assms]]], rule run_give, auto)

lemma run_persist_resolution:
  assumes "case resolution of Validated t \<Rightarrow> rt_refresh_token t = r | RotatedButInvalid v _ \<Rightarrow> carries r v"
  shows "run (\<lambda>s. True) (persist_refresh_resolution cd w name fa p resolution)
     (commit_outcome cd name r) (\<lambda>s. False)"
proof (cases resolution)
  case (Validated t)
  with assms show ?thesis
    unfolding persist_refresh_resolution_def
    by (auto intro!: run_then [OF run_persist_tokens] run_give)
next
  case (RotatedButInvalid v cause)
  with assms have "carries r v" by simp
  then show ?thesis
    unfolding persist_refresh_resolution_def RotatedButInvalid
    by (auto intro!: run_then [OF run_tried [OF run_mono [OF run_quarantine]], where R =
          "\<lambda>x s. case x of Inl f \<Rightarrow> True | Inr u \<Rightarrow> \<exists>i c. u = Quarantined i c \<and> kept r i s"] run_give
        simp: commit_outcome_def safe_somewhere_def split: sum.splits)
qed

lemma consistent_persist:
  "traced (\<lambda>t. consistent_history cd t \<and> authorization_ok cd fa t)
     (persist_refresh_resolution cd w name fa p resolution)
     (\<lambda>_. consistent_history cd) (\<lambda>_. consistent_history cd)"
proof (cases resolution)
  case (Validated t)
  then show ?thesis
    unfolding persist_refresh_resolution_def persist_refreshed_tokens_def
    by (simp, intro traced_then [OF traced_then [OF traced_tried_weak [OF consistent_update_tokens]]] traced_give)
next
  case (RotatedButInvalid v cause)
  have "traced (\<lambda>t. consistent_history cd t \<and> authorization_ok cd fa t)
      (quarantine_invalid_refresh_response name fa p v cause) (\<lambda>_. consistent_history cd) (\<lambda>_. consistent_history cd)"
    by (rule traced_mono [OF consistent_quarantine]) auto
  from traced_tried_weak [OF this] RotatedButInvalid show ?thesis
    unfolding persist_refresh_resolution_def by (simp, intro traced_then traced_give)
qed

lemma consistent_reload: "keeps cd (reload_rotated_credentials cd name p)"
  "keeps cd (profile_still_holds_refresh_token cd name q)"
  unfolding reload_rotated_credentials_def profile_still_holds_refresh_token_def
  by (intro traced_then [OF traced_tried_weak [OF traced_post [OF traced_read_auth [OF frame_consistent]]]]
      traced_give; simp)+

lemma truthful_token_commit [truthful_intros]:
  "truthful (persist_refresh_resolution cd w name fa p resolution)"
  "truthful (reload_rotated_credentials cd name q)" "truthful (profile_still_holds_refresh_token cd name p)"
  unfolding persist_refresh_resolution_def persist_refreshed_tokens_def reload_rotated_credentials_def
    profile_still_holds_refresh_token_def
  by (cases resolution; simp; intro truthful_intros) (intro truthful_intros)+

end
