(* ===== verification/Usage_Fetch.thy ===== *)
theory Usage_Fetch
  imports Token_Refresh
begin

text \<open>
  One usage read with the refreshes it may need (\<open>src/src/usage/api.rs\<close>): the permits of its
  exchanges, the points at which it can be cancelled, the proactive and the reactive refresh, and
  the discipline with which refresh tokens are spent.

  The network is a script: permits, answers and cancellation requests, in the order in which they
  come. What is sent, answered and stored is recorded in a log, newest first, for the statements.
  How a refresh is authorised and its tokens persisted are parameters, as in the source.
\<close>

section \<open>Permits\<close>

datatype permit_turn = PermitGranted | PermitWithheld | PermitFailed anyhow

record permit_budget =
  pb_first :: bool
  pb_limited :: bool
  pb_unlimited :: bool
  pb_first_wait_cancelled :: bool

definition unlimited_budget :: permit_budget where
  "unlimited_budget = \<lparr>pb_first = False, pb_limited = False, pb_unlimited = True, pb_first_wait_cancelled = False\<rparr>"

definition first_budget :: permit_budget where
  "first_budget = \<lparr>pb_first = True, pb_limited = False, pb_unlimited = False, pb_first_wait_cancelled = False\<rparr>"

definition network_wait_cancelled :: fetch_error where
  "network_wait_cancelled = \<lparr>fe_cause = NetworkWaitCancelled,
     fe_chain = [''network wait cancelled before the first request'']\<rparr>"

definition acquire_permit :: "permit_turn \<Rightarrow> permit_budget \<Rightarrow> (fetch_error + unit) \<times> permit_budget" where
  "acquire_permit turn b =
     (if pb_unlimited b then (Inr (), b)
      else if pb_first_wait_cancelled b then (Inl network_wait_cancelled, b)
      else if pb_first b then
        (let b' = b\<lparr>pb_first := False\<rparr> in
         case turn of
           PermitFailed e \<Rightarrow> (Inl (other_error e), b')
         | PermitWithheld \<Rightarrow> (Inl network_wait_cancelled, b'\<lparr>pb_first_wait_cancelled := True\<rparr>)
         | PermitGranted \<Rightarrow> (Inr (), b'\<lparr>pb_limited := True\<rparr>))
      else if pb_limited b then
        (case turn of
           PermitGranted \<Rightarrow> (Inr (), b)
         | _ \<Rightarrow> (Inl \<lparr>fe_cause = NetworkLimiterClosed, fe_chain = [''network limiter closed'']\<rparr>, b))
      else (Inl (other_error [''network budget was used before its first permit'']), b))"

section \<open>The network\<close>

datatype net_event =
    NetCleared
  | NetPosted string
  | NetRotated
  | NetRefused
  | NetUnknown
  | NetStored refreshed_tokens
  | NetLost
  | NetGot string
  | NetVerdict string string

text \<open>The answer of a read: none, or a status with the body or why the body could not be read.\<close>

datatype read_answer = ReadFailed request_failure_kind string | ReadReply nat "bool \<times> string + json"

record 's link =
  ln_local :: 's
  ln_budget :: permit_budget
  ln_phase :: "usage_phase option"
  ln_asks :: "bool list"
  ln_permits :: "permit_turn list"
  ln_reads :: "read_answer list"
  ln_refreshes :: "refresh_answer list"
  ln_lookups :: "lookup_event list"
  ln_log :: "net_event list"

type_synonym ('s, 'a) net = "'s link \<Rightarrow> (fetch_error + 'a) \<times> 's link"

text \<open>Without a budget of permits and without a canceller.\<close>

definition unlimited :: "'s link \<Rightarrow> 's link" where
  "unlimited l = l\<lparr>ln_budget := unlimited_budget, ln_phase := None\<rparr>"

definition net_give :: "'a \<Rightarrow> ('s, 'a) net" where
  "net_give x l = (Inr x, l)"

definition net_fail :: "fetch_error \<Rightarrow> ('s, 'a) net" where
  "net_fail e l = (Inl e, l)"

definition net_lift :: "fetch_error + 'a \<Rightarrow> ('s, 'a) net" where
  "net_lift r l = (r, l)"

definition net_then :: "('s, 'a) net \<Rightarrow> ('a \<Rightarrow> ('s, 'b) net) \<Rightarrow> ('s, 'b) net" where
  "net_then m f l = (case m l of (Inl e, l') \<Rightarrow> (Inl e, l') | (Inr x, l') \<Rightarrow> f x l')"

definition net_tried :: "('s, 'a) net \<Rightarrow> ('s, fetch_error + 'a) net" where
  "net_tried m l = (case m l of (r, l') \<Rightarrow> (Inr r, l'))"

definition net_note :: "net_event \<Rightarrow> ('s, unit) net" where
  "net_note e l = (Inr (), l\<lparr>ln_log := e # ln_log l\<rparr>)"

definition net_local :: "('s \<Rightarrow> (fetch_error + 'a) \<times> 's) \<Rightarrow> ('s, 'a) net" where
  "net_local f l = (case f (ln_local l) of (r, s) \<Rightarrow> (r, l\<lparr>ln_local := s\<rparr>))"

definition read_cancelled :: fetch_error where
  "read_cancelled = \<lparr>fe_cause = UsageReadCancelled,
     fe_chain = [''usage read cancelled before credential work'']\<rparr>"

text \<open>
  At each point where a wait can be cancelled, the canceller may ask; the wait then ends. Between
  the permit and the request the read claims the credential work.
\<close>

definition ask_phase :: "bool list \<Rightarrow> usage_phase \<Rightarrow> usage_phase" where
  "ask_phase asks p = (case asks of ask # _ \<Rightarrow> if ask then snd (usage_request p) else p | [] \<Rightarrow> p)"

definition await_cancellable_usage_read :: "('s, unit) net" where
  "await_cancellable_usage_read l =
     (case ln_phase l of
        None \<Rightarrow> (Inr (), l)
      | Some p \<Rightarrow>
          let p' = ask_phase (ln_asks l) p in
          (if p' = ReadCancelled then Inl read_cancelled else Inr (),
           l\<lparr>ln_phase := Some p', ln_asks := tl (ln_asks l)\<rparr>))"

definition claim_credential_work :: "('s, unit) net" where
  "claim_credential_work l =
     (case ln_phase l of
        None \<Rightarrow> (Inr (), l)
      | Some p \<Rightarrow>
          (case begin_credential_work (ask_phase (ln_asks l) p) of
             (won, p') \<Rightarrow> (if won then Inr () else Inl read_cancelled,
                           l\<lparr>ln_phase := Some p', ln_asks := tl (ln_asks l)\<rparr>)))"

definition net_permit :: "('s, unit) net" where
  "net_permit l =
     (case acquire_permit (case ln_permits l of [] \<Rightarrow> PermitGranted | t # _ \<Rightarrow> t) (ln_budget l) of
        (r, b) \<Rightarrow> (r, l\<lparr>ln_budget := b, ln_permits := tl (ln_permits l)\<rparr>))"

definition next_read :: "('s, read_answer) net" where
  "next_read l =
     (Inr (case ln_reads l of [] \<Rightarrow> ReadFailed TransportFailure [] | a # _ \<Rightarrow> a),
      l\<lparr>ln_reads := tl (ln_reads l)\<rparr>)"

definition next_refresh :: "('s, refresh_answer) net" where
  "next_refresh l =
     (Inr (case ln_refreshes l of [] \<Rightarrow> NoAnswer [] [] | a # _ \<Rightarrow> a),
      l\<lparr>ln_refreshes := tl (ln_refreshes l)\<rparr>)"

definition next_lookup :: "('s, lookup_event) net" where
  "next_lookup l =
     (Inr (case ln_lookups l of
             [] \<Rightarrow> \<lparr>le_permit = Inl LimiterClosed, le_exchange = NoResponse []\<rparr> | a # _ \<Rightarrow> a),
      l\<lparr>ln_lookups := tl (ln_lookups l)\<rparr>)"

section \<open>Exchanges\<close>

record fetch_world =
  fw_usage_url :: "unit result"
  fw_token_url :: "unit result"
  fw_status_text :: "nat \<Rightarrow> string"
  fw_b64 :: "string \<Rightarrow> string option"
  fw_from_json :: "string \<Rightarrow> json option"
  fw_render :: "json \<Rightarrow> string"
  fw_show_f64 :: "f64 \<Rightarrow> string"
  fw_clock :: "i64 result"
  fw_inline :: bool

definition send_usage_request ::
  "fetch_world \<Rightarrow> string \<Rightarrow> string \<Rightarrow> string \<Rightarrow> ('s, nat \<times> json option) net" where
  "send_usage_request w bearer request_context body_context =
     net_then await_cancellable_usage_read (\<lambda>_.
     net_then net_permit (\<lambda>_.
     net_then (net_note (NetGot bearer)) (\<lambda>_.
     net_then await_cancellable_usage_read (\<lambda>_.
     net_then next_read (\<lambda>answer.
       case answer of
         ReadFailed kind detail \<Rightarrow>
           net_fail \<lparr>fe_cause = UsageRequestFailure kind, fe_chain = [request_context @ '': '' @ detail]\<rparr>
       | ReadReply status body \<Rightarrow>
           if \<not> is_success status then net_give (status, None)
           else
             net_then await_cancellable_usage_read (\<lambda>_.
               case body of
                 Inr v \<Rightarrow> net_give (status, Some v)
               | Inl (undecodable, detail) \<Rightarrow>
                   net_fail
                     \<lparr>fe_cause = (if undecodable then InvalidUsageResponse
                                  else UsageRequestFailure TransportFailure),
                      fe_chain = [body_context @ '' (HTTP '' @ fw_status_text w status @ ''): '' @ detail]\<rparr>))))))"

definition parse_checked_usage_response :: "fetch_world \<Rightarrow> json \<Rightarrow> fetch_error + usage_info" where
  "parse_checked_usage_response w body =
     map_err (\<lambda>e. \<lparr>fe_cause = InvalidUsageResponse, fe_chain = [show_chain e]\<rparr>)
       (parse_usage_checked (fw_render w) (fw_show_f64 w) (fw_clock w) body)"

definition finish_usage_fetch :: "fetch_world \<Rightarrow> string \<Rightarrow> usage_info \<Rightarrow> ('s, usage_info) net" where
  "finish_usage_fetch w bearer usage =
     (if fw_inline w
      then net_then next_lookup (\<lambda>ev. net_give (enrich_reset_credits (fw_status_text w) ev bearer usage))
      else net_give usage)"

definition do_refresh_token_for_usage ::
  "fetch_world \<Rightarrow> string \<Rightarrow> string option \<Rightarrow> string \<Rightarrow> ('s, refresh_resolution) net" where
  "do_refresh_token_for_usage w name current_id_token refresh_tok =
     net_then (net_lift (map_err other_error (fw_token_url w))) (\<lambda>_.
     net_then await_cancellable_usage_read (\<lambda>_.
     net_then net_permit (\<lambda>_.
     net_then claim_credential_work (\<lambda>_.
     net_then (net_note (NetPosted refresh_tok)) (\<lambda>_.
     net_then next_refresh (\<lambda>answer.
       case execute_refresh_request_with_permit (fw_status_text w) name answer current_id_token refresh_tok of
         Inr resolution \<Rightarrow> net_then (net_note NetRotated) (\<lambda>_. net_give resolution)
       | Inl e \<Rightarrow> net_then (net_note (if fe_cause e = RefreshOutcomeUnknown then NetUnknown else NetRefused))
                    (\<lambda>_. net_fail e)))))))"

section \<open>The read\<close>

definition access_token_needs_refresh :: "fetch_world \<Rightarrow> string \<Rightarrow> int \<Rightarrow> bool result" where
  "access_token_needs_refresh w token margin =
     map_ok (\<lambda>x. x = Some True) (is_token_expiring (fw_b64 w) (fw_from_json w) (fw_clock w) token margin)"

definition authorized_rotation :: "('s \<Rightarrow> (fetch_error + 't) \<times> 's) \<Rightarrow> ('s, 't) net" where
  "authorized_rotation authorize =
     net_then (net_local authorize) (\<lambda>a. net_then (net_note NetCleared) (\<lambda>_. net_give a))"

definition persisted_rotation ::
  "('t \<Rightarrow> string \<Rightarrow> refresh_resolution \<Rightarrow> 's \<Rightarrow> (fetch_error + refreshed_tokens) \<times> 's) \<Rightarrow> 't \<Rightarrow> string
     \<Rightarrow> refresh_resolution \<Rightarrow> ('s, refreshed_tokens) net" where
  "persisted_rotation persist a offered resolution =
     net_then (net_tried (net_local (persist a offered resolution))) (\<lambda>r.
       case r of
         Inr tokens \<Rightarrow> net_then (net_note (NetStored tokens)) (\<lambda>_. net_give tokens)
       | Inl e \<Rightarrow> net_then (net_note NetLost) (\<lambda>_. net_fail e))"

text \<open>After a refresh: the tokens are persisted before the usage is read with them.\<close>

definition read_refreshed ::
  "fetch_world \<Rightarrow> ('t \<Rightarrow> string \<Rightarrow> refresh_resolution \<Rightarrow> 's \<Rightarrow> (fetch_error + refreshed_tokens) \<times> 's)
     \<Rightarrow> 't \<Rightarrow> string \<Rightarrow> refresh_resolution \<Rightarrow> string \<Rightarrow> string \<Rightarrow> string \<times> string \<Rightarrow> ('s, usage_info) net" where
  "read_refreshed w persist a offered resolution request_context body_context failed =
     net_then (persisted_rotation persist a offered resolution) (\<lambda>new_tokens.
     net_then (send_usage_request w (rt_access_token new_tokens) request_context body_context)
       (\<lambda>(status, body).
          case body of
            Some body \<Rightarrow>
              net_then (net_lift (parse_checked_usage_response w body))
                (finish_usage_fetch w (rt_access_token new_tokens))
          | None \<Rightarrow> net_fail (http_failure status
              (fst failed @ '' (HTTP '' @ fw_status_text w status @ '')'' @ snd failed))))"

datatype proactive = ProactiveDone usage_info | ProactiveGone "fetch_error option" "fetch_error option"

definition proactive_refresh ::
  "fetch_world \<Rightarrow> ('s \<Rightarrow> (fetch_error + 't) \<times> 's)
     \<Rightarrow> ('t \<Rightarrow> string \<Rightarrow> refresh_resolution \<Rightarrow> 's \<Rightarrow> (fetch_error + refreshed_tokens) \<times> 's)
     \<Rightarrow> string \<Rightarrow> string option \<Rightarrow> string \<Rightarrow> ('s, proactive) net" where
  "proactive_refresh w authorize persist name id_token offered =
     net_then (authorized_rotation authorize) (\<lambda>a.
     net_then (net_tried (do_refresh_token_for_usage w name id_token offered)) (\<lambda>r.
       case r of
         Inr resolution \<Rightarrow>
           net_then (read_refreshed w persist a offered resolution
             ''Usage API request failed'' ''failed to parse usage response''
             (''Usage API failed'', '' after proactive token refresh''))
             (\<lambda>usage. net_give (ProactiveDone usage))
       | Inl e \<Rightarrow>
           (case fe_cause e of
              UsageReadCancelled \<Rightarrow> net_fail e
            | RefreshOutcomeUnknown \<Rightarrow> net_fail e
            | TerminalAuthError _ \<Rightarrow> net_give (ProactiveGone (Some e) None)
            | UsageRequestFailure kind \<Rightarrow>
                net_give (ProactiveGone None (if is_retryable kind then Some e else None))
            | _ \<Rightarrow> net_give (ProactiveGone None None))))"

definition reactive_refresh ::
  "fetch_world \<Rightarrow> ('s \<Rightarrow> (fetch_error + 't) \<times> 's)
     \<Rightarrow> ('t \<Rightarrow> string \<Rightarrow> refresh_resolution \<Rightarrow> 's \<Rightarrow> (fetch_error + refreshed_tokens) \<times> 's)
     \<Rightarrow> string \<Rightarrow> string option \<Rightarrow> string \<Rightarrow> nat \<Rightarrow> ('s, usage_info) net" where
  "reactive_refresh w authorize persist name id_token offered status =
     net_then (authorized_rotation authorize) (\<lambda>a.
     net_then (net_tried (do_refresh_token_for_usage w name id_token offered)) (\<lambda>r.
       case r of
         Inr resolution \<Rightarrow>
           read_refreshed w persist a offered resolution
             ''Usage API retry request failed'' ''failed to parse usage response after refresh''
             (''Usage API still failed'', '' after token refresh'')
       | Inl e \<Rightarrow> net_fail (add_fetch_context (''Usage API failed (HTTP '' @ fw_status_text w status
             @ ''), token refresh also failed'') e)))"

definition fetch_usage_with_refresh ::
  "fetch_world \<Rightarrow> ('s \<Rightarrow> (fetch_error + 't) \<times> 's)
     \<Rightarrow> ('t \<Rightarrow> string \<Rightarrow> refresh_resolution \<Rightarrow> 's \<Rightarrow> (fetch_error + refreshed_tokens) \<times> 's)
     \<Rightarrow> string \<Rightarrow> string \<Rightarrow> string option \<Rightarrow> string option \<Rightarrow> ('s, usage_info) net" where
  "fetch_usage_with_refresh w authorize persist name access_tok id_token refresh_tok =
     net_then (net_lift (map_err other_error (fw_usage_url w))) (\<lambda>_.
     net_then (case refresh_tok of
                 None \<Rightarrow> net_give (ProactiveGone None None)
               | Some offered \<Rightarrow>
                   net_then (net_lift (map_err other_error (access_token_needs_refresh w access_tok 60)))
                     (\<lambda>needed. if needed then proactive_refresh w authorize persist name id_token offered
                               else net_give (ProactiveGone None None))) (\<lambda>before.
     case before of
       ProactiveDone usage \<Rightarrow> net_give usage
     | ProactiveGone rejected retryable \<Rightarrow>
         net_then (send_usage_request w access_tok ''Usage API request failed''
                     ''failed to parse usage response'') (\<lambda>(status, body).
         case body of
           Some body \<Rightarrow>
             net_then (net_lift (parse_checked_usage_response w body)) (finish_usage_fetch w access_tok)
         | None \<Rightarrow>
             let failed = ''Usage API failed (HTTP '' @ fw_status_text w status @ '')'' in
             (case rejected of
                Some e \<Rightarrow> net_fail (add_fetch_context failed e)
              | None \<Rightarrow>
                  if (status = 401 \<or> status = 403) \<and> retryable \<noteq> None
                  then net_fail (add_fetch_context
                         (failed @ '' after a transient proactive token refresh failure'') (the retryable))
                  else if (status = 401 \<or> status = 403) \<and> refresh_tok \<noteq> None
                  then reactive_refresh w authorize persist name id_token (the refresh_tok) status
                  else net_fail (http_failure status (failed @ '', no refresh_token available''))))))"

section \<open>The discipline of refresh tokens\<close>

text \<open>
  A refresh token is sent only right after its use was authorised. When the answer brings new
  tokens, storing them is the next thing that happens; once they could not be stored, or the
  outcome of the request is unknown, nothing more is sent.
\<close>

definition open_end :: "net_event list \<Rightarrow> bool" where
  "open_end events \<longleftrightarrow>
     (case events of
        [] \<Rightarrow> True
      | e # _ \<Rightarrow> (case e of NetPosted _ \<Rightarrow> False | NetRotated \<Rightarrow> False | NetUnknown \<Rightarrow> False
                  | NetLost \<Rightarrow> False | _ \<Rightarrow> True))"

fun event_allowed :: "net_event \<Rightarrow> net_event list \<Rightarrow> bool" where
  "event_allowed (NetPosted _) events \<longleftrightarrow> (\<exists>rest. events = NetCleared # rest)"
| "event_allowed NetRotated events \<longleftrightarrow> (\<exists>t rest. events = NetPosted t # rest)"
| "event_allowed NetRefused events \<longleftrightarrow> (\<exists>t rest. events = NetPosted t # rest)"
| "event_allowed NetUnknown events \<longleftrightarrow> (\<exists>t rest. events = NetPosted t # rest)"
| "event_allowed (NetStored _) events \<longleftrightarrow> (\<exists>rest. events = NetRotated # rest)"
| "event_allowed NetLost events \<longleftrightarrow> (\<exists>rest. events = NetRotated # rest)"
| "event_allowed _ events \<longleftrightarrow> open_end events"

fun disciplined :: "net_event list \<Rightarrow> bool" where
  "disciplined [] \<longleftrightarrow> True"
| "disciplined (e # events) \<longleftrightarrow> event_allowed e events \<and> disciplined events"

text \<open>Once a refresh token was sent, the read can no longer be cancelled.\<close>

definition drained :: "'s link \<Rightarrow> bool" where
  "drained l \<longleftrightarrow> (\<forall>t p. NetPosted t \<in> set (ln_log l) \<longrightarrow> ln_phase l = Some p \<longrightarrow> p \<in> {CredentialWork, ReadFinished})"

definition lawful :: "'s link \<Rightarrow> bool" where
  "lawful l \<longleftrightarrow> disciplined (ln_log l) \<and> drained l"

definition calm :: "'s link \<Rightarrow> bool" where
  "calm l \<longleftrightarrow> lawful l \<and> open_end (ln_log l)"

definition right_after :: "net_event \<Rightarrow> 's link \<Rightarrow> bool" where
  "right_after e l \<longleftrightarrow> lawful l \<and> (\<exists>rest. ln_log l = e # rest)"

text \<open>The errors after which a caller may go on.\<close>

definition may_continue :: "fetch_error \<Rightarrow> bool" where
  "may_continue e \<longleftrightarrow>
     (case fe_cause e of TerminalAuthError _ \<Rightarrow> True | UsageRequestFailure _ \<Rightarrow> True | _ \<Rightarrow> False)"

lemma disciplined_suffix: "disciplined (xs @ ys) \<Longrightarrow> disciplined ys"
  by (induction xs) auto

lemma calm_lawful: "calm l \<Longrightarrow> lawful l" "right_after e l \<Longrightarrow> lawful l"
  by (simp_all add: calm_def right_after_def)

lemma right_after_calm: "right_after NetCleared l \<Longrightarrow> calm l" "right_after NetRefused l \<Longrightarrow> calm l"
  "right_after (NetStored t) l \<Longrightarrow> calm l"
  by (auto simp: calm_def right_after_def open_end_def)

section \<open>Pre- and postconditions of exchanges\<close>

definition net_run ::
  "('s link \<Rightarrow> bool) \<Rightarrow> ('s, 'a) net \<Rightarrow> ('a \<Rightarrow> 's link \<Rightarrow> bool) \<Rightarrow> (fetch_error \<Rightarrow> 's link \<Rightarrow> bool) \<Rightarrow> bool" where
  "net_run P m Q E \<longleftrightarrow> (\<forall>l. P l \<longrightarrow> (case fst (m l) of Inr x \<Rightarrow> Q x (snd (m l)) | Inl e \<Rightarrow> E e (snd (m l))))"

lemma net_run_mono:
  assumes "net_run P m Q E" "\<And>l. R l \<Longrightarrow> P l" "\<And>x l. Q x l \<Longrightarrow> S x l" "\<And>e l. E e l \<Longrightarrow> F e l"
  shows "net_run R m S F"
  using assms unfolding net_run_def by (fastforce split: sum.splits)

lemma net_runD:
  "net_run P m Q E \<Longrightarrow> P l \<Longrightarrow> m l = (Inr x, l') \<Longrightarrow> Q x l'"
  "net_run P m Q E \<Longrightarrow> P l \<Longrightarrow> m l = (Inl e, l') \<Longrightarrow> E e l'"
  by (auto simp: net_run_def dest!: spec [of _ l])

lemma net_run_then:
  assumes "net_run P m R E" "\<And>x. net_run (R x) (f x) Q E"
  shows "net_run P (net_then m f) Q E"
  using assms unfolding net_run_def net_then_def by (fastforce split: prod.splits sum.splits)

lemma net_run_give: "(\<And>l. P l \<Longrightarrow> Q x l) \<Longrightarrow> net_run P (net_give x) Q E"
  by (simp add: net_run_def net_give_def)

lemma net_run_fail: "(\<And>l. P l \<Longrightarrow> E e l) \<Longrightarrow> net_run P (net_fail e) Q E"
  by (simp add: net_run_def net_fail_def)

lemma net_run_lift:
  "(\<And>x l. r = Inr x \<Longrightarrow> P l \<Longrightarrow> Q x l) \<Longrightarrow> (\<And>e l. r = Inl e \<Longrightarrow> P l \<Longrightarrow> E e l) \<Longrightarrow>
     net_run P (net_lift r) Q E"
  by (cases r) (simp_all add: net_run_def net_lift_def)

lemma net_run_tried:
  assumes "net_run P m (\<lambda>x. Q (Inr x)) (\<lambda>e. Q (Inl e))"
  shows "net_run P (net_tried m) Q E"
  using assms unfolding net_run_def net_tried_def by (fastforce split: prod.splits sum.splits)

lemma net_run_if:
  "(b \<Longrightarrow> net_run P m Q E) \<Longrightarrow> (\<not> b \<Longrightarrow> net_run P n Q E) \<Longrightarrow> net_run P (if b then m else n) Q E"
  by simp

lemma net_run_sum:
  "(\<And>y. x = Inl y \<Longrightarrow> net_run P (f y) Q E) \<Longrightarrow> (\<And>y. x = Inr y \<Longrightarrow> net_run P (g y) Q E) \<Longrightarrow>
     net_run P (case x of Inl y \<Rightarrow> f y | Inr y \<Rightarrow> g y) Q E"
  by (cases x) auto

lemma net_run_option:
  "(x = None \<Longrightarrow> net_run P m Q E) \<Longrightarrow> (\<And>y. x = Some y \<Longrightarrow> net_run P (f y) Q E) \<Longrightarrow>
     net_run P (case x of None \<Rightarrow> m | Some y \<Rightarrow> f y) Q E"
  by (cases x) auto

lemma net_run_assume: "(b \<Longrightarrow> net_run P m Q E) \<Longrightarrow> net_run (\<lambda>l. P l \<and> b) m Q E"
  by (auto simp: net_run_def)

lemma net_run_prod:
  "(\<And>a b. x = (a, b) \<Longrightarrow> net_run P (f a b) Q E) \<Longrightarrow> net_run P (case x of (a, b) \<Rightarrow> f a b) Q E"
  by (cases x) auto

section \<open>The exchanges keep the discipline\<close>

text \<open>An assertion that the script, the permits and the canceller cannot falsify.\<close>

definition passes :: "'s link \<Rightarrow> 's link \<Rightarrow> bool" where
  "passes l l' \<longleftrightarrow> ln_local l' = ln_local l \<and> ln_log l' = ln_log l
     \<and> (\<forall>p'. ln_phase l' = Some p' \<longrightarrow>
          (\<exists>p. ln_phase l = Some p \<and> (p \<in> {CredentialWork, ReadFinished} \<longrightarrow> p' \<in> {CredentialWork, ReadFinished})))"

definition steady :: "('s link \<Rightarrow> bool) \<Rightarrow> bool" where
  "steady P \<longleftrightarrow> (\<forall>l l'. P l \<longrightarrow> passes l l' \<longrightarrow> P l')"

lemma phases_kept:
  "p \<in> {CredentialWork, ReadFinished} \<Longrightarrow> ask_phase asks p \<in> {CredentialWork, ReadFinished}"
  "p \<in> {CredentialWork, ReadFinished} \<Longrightarrow> snd (begin_credential_work p) \<in> {CredentialWork, ReadFinished}"
  by (auto simp: ask_phase_def usage_request_def begin_credential_work_def split: list.splits)

lemma passes_steps:
  "passes l (snd (await_cancellable_usage_read l))" "passes l (snd (claim_credential_work l))"
  "passes l (snd (net_permit l))" "passes l (snd (next_read l))" "passes l (snd (next_refresh l))"
  "passes l (snd (next_lookup l))"
  using phases_kept
  unfolding passes_def await_cancellable_usage_read_def claim_credential_work_def net_permit_def
    next_read_def next_refresh_def next_lookup_def Let_def
  by (simp_all split: option.splits prod.splits) (metis snd_conv)+

lemma steadyD: "steady P \<Longrightarrow> P l \<Longrightarrow> passes l l' \<Longrightarrow> P l'"
  by (auto simp: steady_def)

lemma steady_lawful: "steady lawful"
  unfolding steady_def lawful_def drained_def passes_def by (metis (no_types, lifting))

lemma steady_conj: "steady P \<Longrightarrow> steady Q \<Longrightarrow> steady (\<lambda>l. P l \<and> Q l)"
  unfolding steady_def by blast

lemma steady_plain: "steady (\<lambda>l. X (ln_local l) (ln_log l))"
  unfolding steady_def passes_def by simp

lemma steady_states:
  "steady calm" "steady (right_after e)" "steady (\<lambda>l. I (ln_local l))"
  unfolding calm_def [abs_def] right_after_def [abs_def]
  by (intro steady_conj steady_lawful steady_plain)+

lemma steady_run:
  assumes "steady P" "\<And>l. passes l (snd (m l))" "\<And>l e l'. m l = (Inl e, l') \<Longrightarrow> X e"
  shows "net_run P m (\<lambda>_. P) (\<lambda>e l. P l \<and> X e)"
  unfolding net_run_def
proof (intro allI impI)
  fix l :: "'a link"
  assume "P l"
  with assms(1,2) have "P (snd (m l))" by (blast dest: steadyD)
  then show "case fst (m l) of Inl e \<Rightarrow> P (snd (m l)) \<and> X e | Inr x \<Rightarrow> P (snd (m l))"
    using assms(3) [of l _ "snd (m l)"] by (cases "fst (m l)") (metis prod.collapse sum.simps(5,6))+
qed

text \<open>Errors that end the read: not those of an exchange, and not an unknown outcome.\<close>

definition minor_error :: "fetch_error \<Rightarrow> bool" where
  "minor_error e \<longleftrightarrow> \<not> may_continue e \<and> fe_cause e \<noteq> RefreshOutcomeUnknown"

lemma minor_errors: "minor_error read_cancelled" "minor_error (other_error x)" "minor_error network_wait_cancelled"
  by (simp_all add: minor_error_def may_continue_def read_cancelled_def other_error_def network_wait_cancelled_def)

lemma steady_await:
  "steady P \<Longrightarrow> net_run P await_cancellable_usage_read (\<lambda>_. P) (\<lambda>e l. P l \<and> minor_error e)"
  by (erule steady_run [OF _ passes_steps(1)])
    (auto simp: await_cancellable_usage_read_def Let_def minor_errors split: option.splits if_splits)

lemma steady_permit: "steady P \<Longrightarrow> net_run P net_permit (\<lambda>_. P) (\<lambda>e l. P l \<and> minor_error e)"
  by (erule steady_run [OF _ passes_steps(3)])
    (auto simp: net_permit_def acquire_permit_def minor_error_def may_continue_def
      network_wait_cancelled_def other_error_def Let_def split: if_splits permit_turn.splits prod.splits)

lemma steady_next:
  assumes "steady P"
  shows "net_run P next_read (\<lambda>_. P) E" "net_run P next_refresh (\<lambda>_. P) E" "net_run P next_lookup (\<lambda>_. P) E"
proof -
  have "P (snd (next_read l))" "P (snd (next_refresh l))" "P (snd (next_lookup l))" if "P l" for l
    by (rule steadyD [OF assms that], rule passes_steps)+
  then show "net_run P next_read (\<lambda>_. P) E" "net_run P next_refresh (\<lambda>_. P) E" "net_run P next_lookup (\<lambda>_. P) E"
    by (simp_all add: net_run_def next_read_def next_refresh_def next_lookup_def)
qed

definition within_law :: "('s \<Rightarrow> bool) \<Rightarrow> ('s link \<Rightarrow> bool) \<Rightarrow> 's link \<Rightarrow> bool" where
  "within_law X P l \<longleftrightarrow> P l \<and> X (ln_local l)"

text \<open>A read that ended in an error; after some errors another may follow.\<close>

definition ended :: "('s \<Rightarrow> bool) \<Rightarrow> fetch_error \<Rightarrow> 's link \<Rightarrow> bool" where
  "ended X e l \<longleftrightarrow> lawful l \<and> X (ln_local l) \<and> (may_continue e \<longrightarrow> calm l)"

lemma steady_within: "steady P \<Longrightarrow> steady (within_law X P)"
  unfolding within_law_def [abs_def] by (intro steady_conj steady_states)

lemma within_ended: "within_law X calm l \<Longrightarrow> ended X e l"
  "within_law X (right_after v) l \<Longrightarrow> \<not> may_continue e \<Longrightarrow> ended X e l"
  by (auto simp: within_law_def ended_def calm_lawful)

lemma ended_context: "ended X (add_fetch_context c e) l \<longleftrightarrow> ended X e l"
  by (simp add: ended_def may_continue_def add_fetch_context_def)

lemma note_run:
  assumes "\<And>l. P l \<Longrightarrow> Q (l\<lparr>ln_log := e # ln_log l\<rparr>)"
  shows "net_run P (net_note e) (\<lambda>_. Q) E"
  using assms by (simp add: net_run_def net_note_def)

lemma calm_note:
  assumes "event_allowed e (ln_log l)" "\<And>t. e \<noteq> NetPosted t" "lawful l"
  shows "right_after e (l\<lparr>ln_log := e # ln_log l\<rparr>)"
  using assms by (auto simp: right_after_def lawful_def drained_def)

lemma note_got:
  "net_run (within_law X calm) (net_note (NetGot b)) (\<lambda>_. within_law X calm) E"
  by (rule note_run) (auto simp: within_law_def calm_def lawful_def drained_def open_end_def)

lemma run_send:
  "net_run (within_law X calm) (send_usage_request w bearer c1 c2) (\<lambda>_. within_law X calm)
     (\<lambda>e. within_law X calm)"
proof -
  have steady: "steady (within_law X calm)" by (intro steady_within steady_states)
  have await: "net_run (within_law X calm) await_cancellable_usage_read (\<lambda>_. within_law X calm)
      (\<lambda>e. within_law X calm)"
    by (rule net_run_mono [OF steady_await [OF steady]]) auto
  have permit: "net_run (within_law X calm) net_permit (\<lambda>_. within_law X calm) (\<lambda>e. within_law X calm)"
    by (rule net_run_mono [OF steady_permit [OF steady]]) auto
  have body: "net_run (within_law X calm) (net_then await_cancellable_usage_read (\<lambda>_. f)) (\<lambda>_. within_law X calm)
      (\<lambda>e. within_law X calm)"
    if "net_run (within_law X calm) f (\<lambda>_. within_law X calm) (\<lambda>e. within_law X calm)" for f :: "('a, nat \<times> json option) net"
    by (rule net_run_then [OF await that])
  show ?thesis
    unfolding send_usage_request_def
    by (intro net_run_then [OF await] net_run_then [OF permit] net_run_then [OF note_got]
        net_run_then [OF steady_next(1) [OF steady]])
      (auto split: read_answer.splits sum.splits intro!: net_run_fail net_run_give body)
qed

lemma run_fetch_end: "net_run (within_law X calm) (finish_usage_fetch w b u) (\<lambda>_. within_law X calm) E"
  unfolding finish_usage_fetch_def
  by (intro net_run_if net_run_then [OF steady_next(3)] net_run_give steady_within steady_states)

lemma run_parsed:
  "net_run (within_law X calm)
     (net_then (net_lift (parse_checked_usage_response w body)) (finish_usage_fetch w b))
     (\<lambda>_. within_law X calm) (\<lambda>e. within_law X calm)"
  by (intro net_run_then [OF net_run_lift, where R = "\<lambda>_. within_law X calm"] run_fetch_end)

text \<open>The exchange of a refresh: from its authorisation to the answer.\<close>

lemma run_claim:
  "net_run (within_law X (right_after NetCleared)) claim_credential_work
     (\<lambda>_ l. within_law X (right_after NetCleared) l \<and> (\<forall>p. ln_phase l = Some p \<longrightarrow> p = CredentialWork))
     (\<lambda>e l. within_law X (right_after NetCleared) l \<and> minor_error e)"
proof -
  have kept: "within_law X (right_after NetCleared) (snd (claim_credential_work l))"
    if "within_law X (right_after NetCleared) l" for l
    by (rule steadyD [OF steady_within [OF steady_states(2)] that passes_steps(2)])
  have won: "p' = CredentialWork" if "begin_credential_work p = (True, p')" for p p'
    using that by (auto simp: begin_credential_work_def split: if_splits)
  show ?thesis
    unfolding net_run_def
  proof (intro allI impI)
    fix l :: "'a link"
    assume l: "within_law X (right_after NetCleared) l"
    show "case fst (claim_credential_work l) of
        Inl e \<Rightarrow> within_law X (right_after NetCleared) (snd (claim_credential_work l)) \<and> minor_error e
      | Inr _ \<Rightarrow> within_law X (right_after NetCleared) (snd (claim_credential_work l))
          \<and> (\<forall>p. ln_phase (snd (claim_credential_work l)) = Some p \<longrightarrow> p = CredentialWork)"
      using kept [OF l] by (auto simp: claim_credential_work_def minor_errors won split: option.splits prod.splits)
  qed
qed

lemma note_posted:
  "net_run (\<lambda>l. within_law X (right_after NetCleared) l \<and> (\<forall>p. ln_phase l = Some p \<longrightarrow> p = CredentialWork))
     (net_note (NetPosted t)) (\<lambda>_. within_law X (right_after (NetPosted t))) E"
  by (rule note_run) (auto simp: within_law_def right_after_def lawful_def drained_def)

lemma note_answered:
  assumes "e \<in> {NetRotated, NetRefused, NetUnknown}"
  shows "net_run (within_law X (right_after (NetPosted t))) (net_note e) (\<lambda>_. within_law X (right_after e)) E"
  by (rule note_run) (use assms in \<open>auto simp: within_law_def right_after_def lawful_def drained_def\<close>)

lemma run_refresh:
  "net_run (within_law X (right_after NetCleared)) (do_refresh_token_for_usage w name i offered)
     (\<lambda>resolution l. within_law X (right_after NetRotated) l \<and> complete_resolution resolution)
     (\<lambda>e l. within_law X lawful l \<and> (fe_cause e \<noteq> RefreshOutcomeUnknown \<longrightarrow> calm l))"
proof -
  let ?C = "within_law X (right_after NetCleared)"
  let ?E = "\<lambda>e l. within_law X lawful l \<and> (fe_cause e \<noteq> RefreshOutcomeUnknown \<longrightarrow> calm l)"
  have steady: "steady (within_law X (right_after e))" for e by (intro steady_within steady_states)
  have minor: "?E e l" if "?C l \<and> minor_error e" for e l
    using that by (auto simp: within_law_def calm_lawful right_after_calm)
  have url: "net_run ?C (net_lift (map_err other_error r)) (\<lambda>_. ?C) ?E" for r :: "unit result"
    by (rule net_run_lift) (auto simp: map_err_def minor_errors split: sum.splits intro!: minor)
  have await: "net_run ?C await_cancellable_usage_read (\<lambda>_. ?C) ?E"
    by (rule net_run_mono [OF steady_await [OF steady]]) (auto simp: within_law_def calm_lawful right_after_calm)
  have permit: "net_run ?C net_permit (\<lambda>_. ?C) ?E"
    by (rule net_run_mono [OF steady_permit [OF steady]]) (auto simp: within_law_def calm_lawful right_after_calm)
  have claim: "net_run ?C claim_credential_work
      (\<lambda>_ l. ?C l \<and> (\<forall>p. ln_phase l = Some p \<longrightarrow> p = CredentialWork)) ?E"
    by (rule net_run_mono [OF run_claim]) (auto simp: within_law_def calm_lawful right_after_calm)
  have refused: "net_run (within_law X (right_after v)) (net_fail e)
      (\<lambda>resolution l. within_law X (right_after NetRotated) l \<and> complete_resolution resolution) ?E"
    if "v = (if fe_cause e = RefreshOutcomeUnknown then NetUnknown else NetRefused)" for e v
    by (rule net_run_fail) (use that in \<open>auto simp: within_law_def calm_lawful right_after_calm split: if_splits\<close>)
  show ?thesis
    unfolding do_refresh_token_for_usage_def
    by (intro net_run_then [OF url] net_run_then [OF await] net_run_then [OF permit] net_run_then [OF claim]
        net_run_then [OF note_posted] net_run_then [OF steady_next(2) [OF steady]] net_run_sum
        net_run_then [OF note_answered] refused net_run_give) (auto dest: resolved_complete)
qed

section \<open>Any authorisation and any commit\<close>

text \<open>
  What the read relies on: authorising and persisting keep an invariant of the local state, what
  an authorisation grants is what persisting asks for, and their errors end the read.
\<close>

locale rotation_commit =
  fixes authorize :: "'s \<Rightarrow> (fetch_error + 't) \<times> 's"
    and persist :: "'t \<Rightarrow> string \<Rightarrow> refresh_resolution \<Rightarrow> 's \<Rightarrow> (fetch_error + refreshed_tokens) \<times> 's"
    and I :: "'s \<Rightarrow> bool"
    and J :: "'t \<Rightarrow> 's \<Rightarrow> bool"
  assumes authorize_keeps: "I s \<Longrightarrow> I (snd (authorize s))"
    and authorize_grants: "I s \<Longrightarrow> fst (authorize s) = Inr a \<Longrightarrow> J a (snd (authorize s))"
    and persist_keeps: "I s \<Longrightarrow> J a s \<Longrightarrow> complete_resolution resolution \<Longrightarrow>
      I (snd (persist a offered resolution s))"
    and authorize_stops: "fst (authorize s) = Inl e \<Longrightarrow> \<not> may_continue e"
    and persist_stops: "fst (persist a offered resolution s) = Inl e \<Longrightarrow> \<not> may_continue e"
begin

lemma run_authorized:
  "net_run (within_law I calm) (authorized_rotation authorize)
     (\<lambda>a. within_law (\<lambda>s. I s \<and> J a s) (right_after NetCleared)) (ended I)"
proof -
  have "net_run (within_law I calm) (net_local authorize) (\<lambda>a. within_law (\<lambda>s. I s \<and> J a s) calm) (ended I)"
    unfolding net_run_def net_local_def within_law_def ended_def calm_def lawful_def drained_def
    using authorize_keeps authorize_grants authorize_stops
    by (auto split: prod.splits sum.splits) (metis fst_conv snd_conv)+
  moreover have "net_run (within_law (\<lambda>s. I s \<and> J a s) calm) (net_note NetCleared)
      (\<lambda>_. within_law (\<lambda>s. I s \<and> J a s) (right_after NetCleared)) (ended I)" for a
    by (rule note_run) (auto simp: within_law_def calm_def right_after_def lawful_def drained_def)
  ultimately show ?thesis
    unfolding authorized_rotation_def by (intro net_run_then net_run_give) auto
qed

lemma run_persisted:
  assumes "complete_resolution resolution"
  shows "net_run (within_law (\<lambda>s. I s \<and> J a s) (right_after NetRotated)) (persisted_rotation persist a offered resolution)
     (\<lambda>_. within_law I calm) (ended I)"
proof -
  have commit: "net_run (within_law (\<lambda>s. I s \<and> J a s) (right_after NetRotated))
      (net_tried (net_local (persist a offered resolution)))
      (\<lambda>r l. within_law I (right_after NetRotated) l \<and> (\<forall>e. r = Inl e \<longrightarrow> \<not> may_continue e)) (ended I)"
    unfolding net_run_def net_tried_def net_local_def within_law_def right_after_def lawful_def drained_def
    using persist_keeps [OF _ _ assms, of _ a offered] persist_stops [of a offered resolution]
    by (auto split: prod.splits) (metis fst_conv snd_conv)+
  have stored: "net_run (within_law I (right_after NetRotated)) (net_note (NetStored t))
      (\<lambda>_. within_law I calm) (ended I)" for t
    by (rule note_run) (auto simp: within_law_def calm_def right_after_def lawful_def drained_def open_end_def)
  have lost: "net_run (\<lambda>l. within_law I (right_after NetRotated) l \<and> \<not> may_continue e)
      (net_then (net_note NetLost) (\<lambda>_. net_fail e)) (\<lambda>_. within_law I calm) (ended I)" for e
    by (rule net_run_then [OF note_run [where Q = "\<lambda>l. within_law I lawful l \<and> \<not> may_continue e"]])
      (auto simp: within_law_def right_after_def lawful_def drained_def ended_def intro!: net_run_fail)
  show ?thesis
    unfolding persisted_rotation_def
    by (rule net_run_then [OF commit], rule net_run_sum)
      (simp_all add: lost net_run_then [OF stored] net_run_give)
qed

lemma run_read_refreshed:
  assumes "complete_resolution resolution"
  shows "net_run (within_law (\<lambda>s. I s \<and> J a s) (right_after NetRotated))
     (read_refreshed w persist a offered resolution c1 c2 failed) (\<lambda>_. within_law I calm) (ended I)"
proof -
  have read: "net_run (within_law I calm) (send_usage_request w b c1 c2) (\<lambda>_. within_law I calm) (ended I)" for b
    by (rule net_run_mono [OF run_send]) (auto intro: within_ended)
  have parsed: "net_run (within_law I calm)
      (net_then (net_lift (parse_checked_usage_response w body)) (finish_usage_fetch w b))
      (\<lambda>_. within_law I calm) (ended I)" for b body
    by (rule net_run_mono [OF run_parsed]) (auto intro: within_ended)
  show ?thesis
    unfolding read_refreshed_def
    by (intro net_run_then [OF run_persisted [OF assms]] net_run_then [OF read] net_run_prod net_run_option parsed net_run_fail)
      (auto intro: within_ended)
qed

text \<open>A refresh within the read: the authorisation reaches the commit, whatever is answered.\<close>

lemma run_rotation:
  assumes "\<And>resolution. complete_resolution resolution \<Longrightarrow>
      net_run (within_law (\<lambda>s. I s \<and> J a s) (right_after NetRotated)) (f resolution) Q (ended I)"
    and "\<And>e. net_run (\<lambda>l. within_law I lawful l \<and> (fe_cause e \<noteq> RefreshOutcomeUnknown \<longrightarrow> calm l)) (g e) Q (ended I)"
  shows "net_run (within_law (\<lambda>s. I s \<and> J a s) (right_after NetCleared))
     (net_then (net_tried (do_refresh_token_for_usage w name i offered)) (\<lambda>r.
        case r of Inr resolution \<Rightarrow> f resolution | Inl e \<Rightarrow> g e)) Q (ended I)"
proof -
  have "net_run (within_law (\<lambda>s. I s \<and> J a s) (right_after NetCleared))
      (net_tried (do_refresh_token_for_usage w name i offered))
      (\<lambda>r l. case r of Inr resolution \<Rightarrow>
             within_law (\<lambda>s. I s \<and> J a s) (right_after NetRotated) l \<and> complete_resolution resolution
         | Inl e \<Rightarrow> within_law I lawful l \<and> (fe_cause e \<noteq> RefreshOutcomeUnknown \<longrightarrow> calm l)) (ended I)"
    by (rule net_run_tried, rule net_run_mono [OF run_refresh [where X = "\<lambda>s. I s \<and> J a s"]]) (auto simp: within_law_def)
  then show ?thesis
    by (rule net_run_then, intro net_run_sum) (auto intro: net_run_assume assms)
qed

lemma run_proactive:
  "net_run (within_law I calm) (proactive_refresh w authorize persist name i offered)
     (\<lambda>_. within_law I calm) (ended I)"
  unfolding proactive_refresh_def
proof (rule net_run_then [OF run_authorized], rule run_rotation)
  fix a resolution
  assume complete: "complete_resolution resolution"
  show "net_run (within_law (\<lambda>s. I s \<and> J a s) (right_after NetRotated))
      (net_then (read_refreshed w persist a offered resolution c1 c2 failed) (\<lambda>usage. net_give (ProactiveDone usage)))
      (\<lambda>_. within_law I calm) (ended I)" for c1 c2 failed
    by (intro net_run_then [OF run_read_refreshed [OF complete]] net_run_give)
next
  fix e
  show "net_run (\<lambda>l. within_law I lawful l \<and> (fe_cause e \<noteq> RefreshOutcomeUnknown \<longrightarrow> calm l))
      (case fe_cause e of UsageReadCancelled \<Rightarrow> net_fail e | RefreshOutcomeUnknown \<Rightarrow> net_fail e
       | TerminalAuthError x \<Rightarrow> net_give (ProactiveGone (Some e) None)
       | UsageRequestFailure kind \<Rightarrow> net_give (ProactiveGone None (if is_retryable kind then Some e else None))
       | _ \<Rightarrow> net_give (ProactiveGone None None))
      (\<lambda>_. within_law I calm) (ended I)"
    by (cases "fe_cause e")
      (auto intro!: net_run_give net_run_fail simp: within_law_def ended_def may_continue_def calm_lawful)
qed

lemma run_reactive:
  "net_run (within_law I calm) (reactive_refresh w authorize persist name i offered status)
     (\<lambda>_. within_law I calm) (ended I)"
  unfolding reactive_refresh_def
  by (rule net_run_then [OF run_authorized], rule run_rotation, erule run_read_refreshed, rule net_run_fail)
    (auto simp: within_law_def ended_def may_continue_def add_fetch_context_def split: fetch_cause.splits)

lemma run_fetch:
  "net_run (within_law I calm) (fetch_usage_with_refresh w authorize persist name access_tok i refresh_tok)
     (\<lambda>_. within_law I calm) (ended I)"
proof -
  have read: "net_run (within_law I calm) (send_usage_request w b c1 c2) (\<lambda>_. within_law I calm) (ended I)" for b c1 c2
    by (rule net_run_mono [OF run_send]) (auto intro: within_ended)
  have parsed: "net_run (within_law I calm)
      (net_then (net_lift (parse_checked_usage_response w body)) (finish_usage_fetch w b))
      (\<lambda>_. within_law I calm) (ended I)" for b body
    by (rule net_run_mono [OF run_parsed]) (auto intro: within_ended)
  have lift: "net_run (within_law I calm) (net_lift (map_err other_error r)) (\<lambda>_. within_law I calm) (ended I)"
    for r :: "'x result"
    by (rule net_run_lift) (auto simp: within_law_def ended_def calm_lawful)
  have before: "net_run (within_law I calm) (case refresh_tok of
        None \<Rightarrow> net_give (ProactiveGone None None)
      | Some offered \<Rightarrow>
          net_then (net_lift (map_err other_error (access_token_needs_refresh w access_tok 60)))
            (\<lambda>needed. if needed then proactive_refresh w authorize persist name i offered
                      else net_give (ProactiveGone None None)))
      (\<lambda>_. within_law I calm) (ended I)"
    by (intro net_run_option net_run_give net_run_then [OF lift] net_run_if run_proactive)
  have failed: "net_run (within_law I calm) (net_fail e) (\<lambda>_. within_law I calm) (ended I)" for e :: fetch_error
    by (rule net_run_fail) (rule within_ended)
  have after: "net_run (within_law I calm) (case p of ProactiveDone u \<Rightarrow> net_give u | ProactiveGone x y \<Rightarrow> f x y)
      (\<lambda>_. within_law I calm) (ended I)"
    if "\<And>x y. net_run (within_law I calm) (f x y) (\<lambda>_. within_law I calm) (ended I)" for p f
    using that by (cases p) (auto intro: net_run_give)
  show ?thesis
    unfolding fetch_usage_with_refresh_def Let_def
    by (intro net_run_then [OF lift] net_run_then [OF before] after net_run_then [OF read] net_run_prod
        net_run_option parsed failed net_run_if run_reactive)
qed

end

end
