(* ===== verification/Usage_Request.thy ===== *)
theory Usage_Request
  imports Usage_Fetch
begin

text \<open>
  The usage of a profile under its lease (\<open>src/src/usage/api.rs\<close>): the request is prepared from
  the saved credential, and sent with retries. A rejected refresh token buys one more round, with
  the credential that another process may have saved in the meantime.

  The cache is a parameter: what it holds for a binding, which refresh tokens it knows to be
  rejected, and how it stamps what is stored. Remembering a verdict is an entry of the log.
\<close>

section \<open>What the request works on\<close>

record desk =
  dk_store :: store
  dk_rotated :: "refreshed_tokens option"

definition at_desk :: "'a action \<Rightarrow> desk \<Rightarrow> (failure + 'a) \<times> desk" where
  "at_desk m d = (case m (dk_store d) of (r, s) \<Rightarrow> (r, d\<lparr>dk_store := s\<rparr>))"

definition local_stop :: "usage_error \<Rightarrow> fetch_error" where
  "local_stop e = \<lparr>fe_cause = LocalStop e, fe_chain = [ue_detail e]\<rparr>"

definition authorize_rotation :: "codec \<Rightarrow> string \<Rightarrow> desk \<Rightarrow> (fetch_error + fresh_authorization) \<times> desk" where
  "authorize_rotation cd name d =
     (case at_desk (authorize_fresh_credentials_activation cd name) d of
        (Inl f, d') \<Rightarrow> (Inl (local_stop (refresh_authorization_failed name (fl_chain f))), d')
      | (Inr a, d') \<Rightarrow> (Inr a, d'))"

definition persist_before_follow_up ::
  "codec \<Rightarrow> commit_world \<Rightarrow> string \<Rightarrow> fresh_authorization \<Rightarrow> string \<Rightarrow> refresh_resolution \<Rightarrow> desk
     \<Rightarrow> (fetch_error + refreshed_tokens) \<times> desk" where
  "persist_before_follow_up cd cw name authorization offered resolution d =
     (case at_desk (persist_refresh_resolution cd cw name authorization offered resolution) d of
        (Inr (Inr tokens), d') \<Rightarrow> (Inr tokens, d'\<lparr>dk_rotated := Some tokens\<rparr>)
      | (Inr (Inl e), d') \<Rightarrow> (Inl (local_stop e), d')
      | (Inl f, d') \<Rightarrow> (Inl (other_error (fl_chain f)), d'))"

record request_world =
  rw_fetch :: "nat \<Rightarrow> fetch_world"
  rw_commit :: commit_world
  rw_configured :: "unit result"
  rw_client :: "unit result"
  rw_endpoints :: "unit result"
  rw_cached :: "strict_account_binding \<Rightarrow> usage_info option result"
  rw_verdict :: "string \<Rightarrow> usage_error option result"
  rw_stored :: "usage_info \<Rightarrow> usage_info result"

section \<open>Preparing\<close>

record prepared_usage_request =
  pu_alias :: string
  pu_binding :: strict_account_binding
  pu_id_token :: "string option"
  pu_access_token :: string
  pu_refresh_token :: "string option"

type_synonym 'a reply_of = "(usage_error + 'a) \<times> desk link"

definition usage_refusal :: "string \<Rightarrow> string \<Rightarrow> usage_error" where
  "usage_refusal summary detail = \<lparr>ue_summary = summary, ue_detail = detail\<rparr>"

definition read_at_link :: "codec \<Rightarrow> string \<Rightarrow> desk link \<Rightarrow> (failure + json) \<times> desk link" where
  "read_at_link cd name l =
     (case at_desk (read_auth cd (ProfileAuth name)) (ln_local l) of (r, d) \<Rightarrow> (r, l\<lparr>ln_local := d\<rparr>))"

definition binding_expected ::
  "string \<Rightarrow> string \<Rightarrow> codec \<Rightarrow> strict_account_binding option \<Rightarrow> json \<Rightarrow> usage_error + strict_account_binding" where
  "binding_expected name needs cd expected val =
     (case strict_binding (account_info_from_auth_value cd val) of
        None \<Rightarrow> Inl (usage_refusal ''account identity incomplete'' (in_brackets name @ '' '' @ needs))
      | Some binding \<Rightarrow>
          if expected \<noteq> None \<and> expected \<noteq> Some binding
          then Inl (usage_refusal ''profile identity changed'' (in_brackets name
                 @ '' profile identity changed while the usage request was queued''))
          else Inr binding)"

definition usage_cache_hit ::
  "codec \<Rightarrow> request_world \<Rightarrow> string \<Rightarrow> refresh \<Rightarrow> strict_account_binding option \<Rightarrow> desk link
     \<Rightarrow> usage_info option reply_of" where
  "usage_cache_hit cd w name mode expected l =
     (if skips_usage_cache mode then (Inr None, l)
      else
        case read_at_link cd name l of (r, l') \<Rightarrow>
        (case r of
           Inl f \<Rightarrow> Inl (usage_refusal ''auth file unreadable'' (in_brackets name
                      @ '' could not verify identity before reading usage cache: '' @ show_chain (fl_chain f)))
         | Inr val \<Rightarrow>
             and_then (binding_expected name
                ''usage cache requires a verified account id and email identity'' cd expected val) (\<lambda>binding.
             map_err (\<lambda>e. usage_refusal ''usage cache unreadable''
                (in_brackets name @ '' failed to read usage cache: '' @ show_chain e)) (rw_cached w binding)),
         l'))"

definition cached_terminal_auth_verdict ::
  "request_world \<Rightarrow> string \<Rightarrow> string \<Rightarrow> usage_error + usage_error option" where
  "cached_terminal_auth_verdict w name token =
     map_err (\<lambda>e. usage_refusal ''auth cache unreadable'' (in_brackets name
        @ '' could not safely decide whether this credential was already rejected: '' @ show_chain e))
       (rw_verdict w token)"

definition prepare_usage_request ::
  "codec \<Rightarrow> request_world \<Rightarrow> string \<Rightarrow> string \<Rightarrow> refresh \<Rightarrow> strict_account_binding option \<Rightarrow> desk link
     \<Rightarrow> prepared_usage_request reply_of" where
  "prepare_usage_request cd w name lease mode expected l =
     (if lease \<noteq> name
      then (Inl (usage_refusal ''profile lock mismatch'' (''usage request for '' @ quoted name
              @ '' received lease for '' @ quoted lease)), l)
      else
        case read_at_link cd name l of (r, l') \<Rightarrow>
        (case r of
           Inl f \<Rightarrow> Inl (usage_refusal ''auth file unreadable''
                      (''failed to read auth file '' @ name @ '': '' @ hd (fl_chain f)))
         | Inr val \<Rightarrow>
             and_then (binding_expected name
                ''usage refresh requires a verified account id and email'' cd expected val) (\<lambda>binding.
             case extract_tokens val of (access_tok, refresh_tok) \<Rightarrow>
             and_then (case refresh_tok of
                         Some token \<Rightarrow>
                           if may_re_present_a_rejected_credential mode then Inr None
                           else cached_terminal_auth_verdict w name token
                       | None \<Rightarrow> Inr None) (\<lambda>known.
             case known of
               Some e \<Rightarrow> Inl e
             | None \<Rightarrow>
                 (case access_tok of
                    None \<Rightarrow> Inl (usage_refusal ''no access_token'' ''no access_token in auth file'')
                  | Some bearer \<Rightarrow>
                      map_ok (\<lambda>_. \<lparr>pu_alias = name, pu_binding = binding,
                          pu_id_token = extract_id_token val, pu_access_token = bearer,
                          pu_refresh_token = refresh_tok\<rparr>)
                        (map_err (\<lambda>e. usage_refusal ''service endpoint policy invalid'' (in_brackets name
                           @ '' could not resolve service endpoints: '' @ show_chain e)) (rw_endpoints w))))),
         l'))"

section \<open>One round\<close>

record round_state =
  rs_id_token :: "string option"
  rs_access_token :: string
  rs_refresh_token :: "string option"
  rs_pending :: "(usage_error \<times> string) option"
  rs_last :: usage_error

datatype round_end =
    RoundDone "usage_error + usage_info"
  | RoundRejected usage_error string round_state
  | RoundRetry round_state

definition usage_cancellation_error :: "string \<Rightarrow> fetch_error \<Rightarrow> usage_error" where
  "usage_cancellation_error name e =
     usage_refusal ''usage read cancelled'' (in_brackets name @ '' '' @ show_chain (fe_chain e))"

definition remember_verdict :: "string \<Rightarrow> string option \<Rightarrow> 's link \<Rightarrow> 's link" where
  "remember_verdict code token l =
     (case token of
        None \<Rightarrow> l
      | Some t \<Rightarrow>
          if is_memorable_auth_verdict code then l\<lparr>ln_log := NetVerdict code t # ln_log l\<rparr> else l)"

definition settle_pending ::
  "codec \<Rightarrow> string \<Rightarrow> round_state \<Rightarrow> desk link \<Rightarrow> round_state reply_of" where
  "settle_pending cd name st l =
     (case rs_pending st of
        None \<Rightarrow> (Inr st, l)
      | Some (terminal, code) \<Rightarrow>
          (case at_desk (reload_rotated_credentials cd name (rs_refresh_token st)) (ln_local l) of (r, d) \<Rightarrow>
             let l' = l\<lparr>ln_local := d\<rparr> in
             (case Option.bind (ok_opt r) id of
                None \<Rightarrow> (Inl terminal, remember_verdict code (rs_refresh_token st) l')
              | Some fresh \<Rightarrow>
                  (Inr (st\<lparr>rs_pending := None, rs_id_token := rl_id_token fresh,
                           rs_access_token := rl_access_token fresh,
                           rs_refresh_token := Some (rl_refresh_token fresh)\<rparr>), l'))))"

definition round_after_error :: "string \<Rightarrow> round_state \<Rightarrow> fetch_error \<Rightarrow> round_end" where
  "round_after_error name st e =
     (let msg = show_chain (fe_chain e);
          summarised = usage_refusal (extract_error_summary msg) msg
      in case fe_cause e of
           LocalStop err \<Rightarrow> RoundDone (Inl err)
         | UsageReadCancelled \<Rightarrow> RoundDone (Inl (usage_cancellation_error name e))
         | InvalidUsageResponse \<Rightarrow> RoundDone (Inl summarised)
         | TerminalAuthError code \<Rightarrow> RoundRejected (usage_refusal (terminal_summary code) msg) code st
         | RefreshOutcomeUnknown \<Rightarrow> RoundDone (Inl (refresh_outcome_unknown name (fe_chain e)))
         | NetworkLimiterClosed \<Rightarrow> RoundDone (Inl (usage_refusal ''usage limiter closed''
             (in_brackets name @ '' usage retry could not reserve network capacity'')))
         | UsageRequestFailure kind \<Rightarrow>
             if is_retryable kind then RoundRetry (st\<lparr>rs_last := summarised\<rparr>) else RoundDone (Inl summarised)
         | _ \<Rightarrow> RoundDone (Inl summarised))"

definition usage_round ::
  "codec \<Rightarrow> request_world \<Rightarrow> string \<Rightarrow> nat \<Rightarrow> round_state \<Rightarrow> desk link \<Rightarrow> round_end \<times> desk link" where
  "usage_round cd w name attempt st l =
     (case (if 0 < attempt then await_cancellable_usage_read l else (Inr (), l)) of
        (Inl e, l) \<Rightarrow> (RoundDone (Inl (usage_cancellation_error name e)), l)
      | (Inr _, l) \<Rightarrow>
     (case settle_pending cd name st l of
        (Inl e, l) \<Rightarrow> (RoundDone (Inl e), l)
      | (Inr st, l) \<Rightarrow>
     (case fetch_usage_with_refresh (rw_fetch w attempt) (authorize_rotation cd name)
             (persist_before_follow_up cd (rw_commit w) name) name (rs_access_token st) (rs_id_token st)
             (rs_refresh_token st) (l\<lparr>ln_local := (ln_local l)\<lparr>dk_rotated := None\<rparr>\<rparr>) of (r, l) \<Rightarrow>
        let st' = (case dk_rotated (ln_local l) of
                     None \<Rightarrow> st
                   | Some tokens \<Rightarrow> st\<lparr>rs_access_token := rt_access_token tokens,
                       rs_id_token := Some (rt_id_token tokens), rs_refresh_token := Some (rt_refresh_token tokens)\<rparr>)
        in (case r of
              Inr usage \<Rightarrow> RoundDone (Inr usage)
            | Inl e \<Rightarrow> round_after_error name st' e, l))))"

section \<open>The rounds\<close>

text \<open>
  \<open>left\<close> is how many rounds remain; a first rejection adds the round in which the stored
  credential is tried.
\<close>

function usage_rounds ::
  "codec \<Rightarrow> request_world \<Rightarrow> string \<Rightarrow> bool \<Rightarrow> nat \<Rightarrow> nat \<Rightarrow> round_state \<Rightarrow> desk link \<Rightarrow> usage_info reply_of" where
  "usage_rounds cd w name recovery_used left attempt st l =
     (if left = 0 then (Inl (rs_last st), l)
      else
        case usage_round cd w name attempt st l of
          (RoundDone r, l) \<Rightarrow> (r, l)
        | (RoundRetry st, l) \<Rightarrow> usage_rounds cd w name recovery_used (left - 1) (attempt + 1) st l
        | (RoundRejected e code st, l) \<Rightarrow>
            if recovery_used then (Inl e, remember_verdict code (rs_refresh_token st) l)
            else usage_rounds cd w name True left (attempt + 1) (st\<lparr>rs_pending := Some (e, code)\<rparr>) l)"
  by pat_completeness auto

termination
  by (relation "measure (\<lambda>(_, _, _, used, left, _). 2 * left + (if used then 0 else 1))") auto

record usage_observation =
  ob_usage :: usage_info
  ob_binding :: strict_account_binding

text \<open>Whether the request looks up the reset cards, and whether its result enters the cache.\<close>

record usage_observation_policy =
  op_inline :: bool
  op_store :: bool

definition complete_usage_policy :: usage_observation_policy where
  "complete_usage_policy = \<lparr>op_inline = True, op_store = True\<rparr>"

definition core_probe_policy :: usage_observation_policy where
  "core_probe_policy = \<lparr>op_inline = False, op_store = False\<rparr>"

definition enriching :: "bool \<Rightarrow> request_world \<Rightarrow> request_world" where
  "enriching inline w = w\<lparr>rw_fetch := \<lambda>n. (rw_fetch w n)\<lparr>fw_inline := inline\<rparr>\<rparr>"

definition execute_prepared_usage_request ::
  "codec \<Rightarrow> request_world \<Rightarrow> prepared_usage_request \<Rightarrow> string \<Rightarrow> usage_observation_policy \<Rightarrow> desk link
     \<Rightarrow> usage_observation reply_of" where
  "execute_prepared_usage_request cd w prepared lease policy l =
     (if lease \<noteq> pu_alias prepared
      then (Inl (usage_refusal ''profile lock mismatch'' (''prepared usage request for '' @ quoted (pu_alias prepared)
              @ '' received lease for '' @ quoted lease)), l)
      else
        case usage_rounds cd (enriching (op_inline policy) w) (pu_alias prepared) False max_retries 0
               \<lparr>rs_id_token = pu_id_token prepared, rs_access_token = pu_access_token prepared,
                rs_refresh_token = pu_refresh_token prepared, rs_pending = None,
                rs_last = usage_refusal [] []\<rparr> l of (r, l') \<Rightarrow>
          (map_ok (\<lambda>usage. \<lparr>ob_usage = (if op_store policy then the_or usage (ok_opt (rw_stored w usage)) else usage),
                           ob_binding = pu_binding prepared\<rparr>) r, l'))"

definition fetch_usage_observation_with_lease_and_client ::
  "codec \<Rightarrow> request_world \<Rightarrow> string \<Rightarrow> string \<Rightarrow> refresh \<Rightarrow> strict_account_binding option
     \<Rightarrow> usage_observation_policy \<Rightarrow> desk link \<Rightarrow> usage_observation reply_of" where
  "fetch_usage_observation_with_lease_and_client cd w name lease mode expected policy l =
     (case prepare_usage_request cd w name lease mode expected l of
        (Inl e, l') \<Rightarrow> (Inl e, l')
      | (Inr prepared, l') \<Rightarrow> execute_prepared_usage_request cd w prepared lease policy (unlimited l'))"

definition ensure_usage_configuration :: "request_world \<Rightarrow> usage_error + unit" where
  "ensure_usage_configuration w =
     map_err (\<lambda>e. usage_refusal ''configuration unavailable'' (''usage request cannot start: '' @ show_chain e))
       (rw_configured w)"

text \<open>The entry points for a caller that holds the lease.\<close>

definition configured :: "request_world \<Rightarrow> (desk link \<Rightarrow> 'a reply_of) \<Rightarrow> desk link \<Rightarrow> 'a reply_of" where
  "configured w m l = (case ensure_usage_configuration w of Inl e \<Rightarrow> (Inl e, l) | Inr _ \<Rightarrow> m l)"

definition replying :: "('a \<Rightarrow> 'b) \<Rightarrow> 'a reply_of \<Rightarrow> 'b reply_of" where
  "replying f x = (map_ok f (fst x), snd x)"

definition fetch_usage_observation_force_with_existing_lease_and_client ::
  "codec \<Rightarrow> request_world \<Rightarrow> string \<Rightarrow> string \<Rightarrow> strict_account_binding option \<Rightarrow> desk link \<Rightarrow> usage_observation reply_of" where
  "fetch_usage_observation_force_with_existing_lease_and_client cd w name lease expected =
     configured w (fetch_usage_observation_with_lease_and_client cd w name lease Forced expected complete_usage_policy)"

definition fetch_usage_retried_with_existing_lease_and_client ::
  "codec \<Rightarrow> request_world \<Rightarrow> string \<Rightarrow> string \<Rightarrow> refresh \<Rightarrow> strict_account_binding \<Rightarrow> desk link \<Rightarrow> usage_info reply_of" where
  "fetch_usage_retried_with_existing_lease_and_client cd w name lease mode expected =
     configured w (\<lambda>l.
       case usage_cache_hit cd w name mode (Some expected) l of
         (Inl e, l) \<Rightarrow> (Inl e, l)
       | (Inr (Some cached), l) \<Rightarrow> (Inr cached, l)
       | (Inr None, l) \<Rightarrow>
           replying ob_usage (fetch_usage_observation_with_lease_and_client cd w name lease mode (Some expected)
             complete_usage_policy l))"

definition probe_core_usage_unattended_with_existing_lease_and_client ::
  "codec \<Rightarrow> request_world \<Rightarrow> string \<Rightarrow> string \<Rightarrow> strict_account_binding option \<Rightarrow> desk link \<Rightarrow> usage_info reply_of" where
  "probe_core_usage_unattended_with_existing_lease_and_client cd w name lease expected =
     configured w (\<lambda>l. replying ob_usage
       (fetch_usage_observation_with_lease_and_client cd w name lease Unattended expected core_probe_policy l))"

datatype prepared_core_usage = CoreCached usage_info | CoreNetwork prepared_usage_request

definition prepare_core_usage_unattended_with_existing_lease ::
  "codec \<Rightarrow> request_world \<Rightarrow> string \<Rightarrow> string \<Rightarrow> strict_account_binding \<Rightarrow> desk link \<Rightarrow> prepared_core_usage reply_of" where
  "prepare_core_usage_unattended_with_existing_lease cd w name lease expected =
     configured w (\<lambda>l. replying CoreNetwork (prepare_usage_request cd w name lease Unattended (Some expected) l))"

definition prepare_core_usage_with_existing_lease ::
  "codec \<Rightarrow> request_world \<Rightarrow> string \<Rightarrow> string \<Rightarrow> refresh \<Rightarrow> strict_account_binding \<Rightarrow> desk link
     \<Rightarrow> prepared_core_usage reply_of" where
  "prepare_core_usage_with_existing_lease cd w name lease mode expected =
     configured w (\<lambda>l.
       case usage_cache_hit cd w name mode (Some expected) l of
         (Inl e, l) \<Rightarrow> (Inl e, l)
       | (Inr (Some cached), l) \<Rightarrow> (Inr (CoreCached cached), l)
       | (Inr None, l) \<Rightarrow> replying CoreNetwork (prepare_usage_request cd w name lease mode (Some expected) l))"

definition execute_prepared_core_usage_cancellable_with_existing_lease_and_client ::
  "codec \<Rightarrow> request_world \<Rightarrow> prepared_core_usage \<Rightarrow> string \<Rightarrow> desk link \<Rightarrow> usage_info reply_of" where
  "execute_prepared_core_usage_cancellable_with_existing_lease_and_client cd w prepared lease l =
     (case prepared of
        CoreCached usage \<Rightarrow> (Inr usage, l)
      | CoreNetwork inner \<Rightarrow> replying ob_usage (execute_prepared_usage_request cd w inner lease core_probe_policy l))"

definition execute_prepared_core_usage_with_existing_lease_and_client ::
  "codec \<Rightarrow> request_world \<Rightarrow> prepared_core_usage \<Rightarrow> string \<Rightarrow> desk link \<Rightarrow> usage_info reply_of" where
  "execute_prepared_core_usage_with_existing_lease_and_client cd w prepared lease l =
     (case prepared of
        CoreCached usage \<Rightarrow> (Inr usage, l)
      | CoreNetwork inner \<Rightarrow>
          replying ob_usage (execute_prepared_usage_request cd w inner lease core_probe_policy (l\<lparr>ln_phase := None\<rparr>)))"

definition prepare_full_usage_with_existing_lease ::
  "codec \<Rightarrow> request_world \<Rightarrow> string \<Rightarrow> string \<Rightarrow> refresh \<Rightarrow> strict_account_binding option \<Rightarrow> desk link
     \<Rightarrow> prepared_usage_request reply_of" where
  "prepare_full_usage_with_existing_lease cd w name lease mode expected =
     configured w (prepare_usage_request cd w name lease mode expected)"

definition execute_prepared_full_usage_with_existing_lease_and_client ::
  "codec \<Rightarrow> request_world \<Rightarrow> prepared_usage_request \<Rightarrow> string \<Rightarrow> desk link \<Rightarrow> usage_observation reply_of" where
  "execute_prepared_full_usage_with_existing_lease_and_client cd w prepared lease l =
     execute_prepared_usage_request cd w prepared lease complete_usage_policy (l\<lparr>ln_phase := None\<rparr>)"

text \<open>The usage with a lease that is taken for the request.\<close>

definition release_lease :: "string \<Rightarrow> desk link \<Rightarrow> desk link" where
  "release_lease name l =
     (let d = ln_local l; s = dk_store d
      in l\<lparr>ln_local := d\<lparr>dk_store := s\<lparr>st_leased := removeAll name (st_leased s)\<rparr>\<rparr>\<rparr>)"

definition fetch_usage_retried_inner ::
  "codec \<Rightarrow> request_world \<Rightarrow> string \<Rightarrow> refresh \<Rightarrow> desk link \<Rightarrow> usage_info reply_of" where
  "fetch_usage_retried_inner cd w name mode l =
     (case ensure_usage_configuration w of
        Inl e \<Rightarrow> (Inl e, l)
      | Inr _ \<Rightarrow>
     (case at_desk (acquire_profile_lease name) (ln_local l) of
        (Inl f, d) \<Rightarrow> (Inl (usage_refusal ''profile lock failed'' (in_brackets name
            @ '' could not lock profile for usage refresh: '' @ show_chain (fl_chain f))), l\<lparr>ln_local := d\<rparr>)
      | (Inr _, d) \<Rightarrow>
     (case usage_cache_hit cd w name mode None (l\<lparr>ln_local := d\<rparr>) of
        (Inl e, l) \<Rightarrow> (Inl e, release_lease name l)
      | (Inr (Some cached), l) \<Rightarrow> (Inr cached, release_lease name l)
      | (Inr None, l) \<Rightarrow>
     (case rw_client w of
        Inl e \<Rightarrow> (Inl (usage_refusal ''HTTP client unavailable''
            (in_brackets name @ '' could not build HTTP client: '' @ show_chain e)), release_lease name l)
      | Inr _ \<Rightarrow>
     (case fetch_usage_observation_with_lease_and_client cd w name name mode None complete_usage_policy l of
        (r, l) \<Rightarrow> (map_ok ob_usage r, release_lease name l))))))"

section \<open>Every request is disciplined\<close>

definition sound_store :: "codec \<Rightarrow> store \<Rightarrow> bool" where
  "sound_store cd s \<longleftrightarrow> consistent_history cd (st_trace s) \<and> coherent s"

text \<open>The same from some moment on.\<close>

definition sound_over :: "codec \<Rightarrow> event list \<Rightarrow> store \<Rightarrow> bool" where
  "sound_over cd base s \<longleftrightarrow> consistent_history cd (st_trace s) \<and> coherent_over base s"

lemma sound_over_now: "sound_store cd s \<longleftrightarrow> sound_over cd (st_trace s) s"
  by (simp add: sound_store_def sound_over_def coherent_over_def)

lemma sound_over_store: "sound_over cd base s \<Longrightarrow> sound_store cd s"
  by (simp add: sound_store_def sound_over_def coherent_over_def)

lemma sound_action:
  assumes "keeps cd m" "truthful m" "sound_over cd base s"
  shows "sound_over cd base (snd (m s))"
  using traced_final [OF assms(1)] assms(2,3) by (auto simp: sound_over_def truthful_def)

lemma at_desk_simps [simp]:
  "fst (at_desk m d) = fst (m (dk_store d))" "dk_store (snd (at_desk m d)) = snd (m (dk_store d))"
  by (simp_all add: at_desk_def split: prod.splits)

abbreviation sound_desk :: "codec \<Rightarrow> event list \<Rightarrow> desk \<Rightarrow> bool" where
  "sound_desk cd tb d \<equiv> sound_over cd tb (dk_store d)"

lemma sound_at_desk:
  "keeps cd m \<Longrightarrow> truthful m \<Longrightarrow> sound_desk cd tb d \<Longrightarrow> at_desk m d = (r, d') \<Longrightarrow> sound_desk cd tb d'"
  using sound_action [of cd m tb "dk_store d"] at_desk_simps(2) [of m d] by simp

definition permitted :: "codec \<Rightarrow> fresh_authorization \<Rightarrow> desk \<Rightarrow> bool" where
  "permitted cd fa d \<longleftrightarrow> authorization_ok cd fa (st_trace (dk_store d))"

lemma authorize_rotation_sound:
  assumes "sound_desk cd tb d"
  shows "sound_desk cd tb (snd (authorize_rotation cd name d))"
    and "fst (authorize_rotation cd name d) = Inr a \<Longrightarrow> permitted cd a (snd (authorize_rotation cd name d))"
proof -
  let ?m = "authorize_fresh_credentials_activation cd name"
  obtain r d' where m: "at_desk ?m d = (r, d')" by (cases "at_desk ?m d")
  have "keeps cd ?m" by (rule traced_post [OF traced_mono [OF authorize_ok]]) auto
  from sound_at_desk [OF this _ assms m] have sound: "sound_desk cd tb d'" by (simp add: truthful_authorize)
  from sound m show "sound_desk cd tb (snd (authorize_rotation cd name d))"
    by (auto simp: authorize_rotation_def split: sum.splits)
  assume "fst (authorize_rotation cd name d) = Inr a"
  with m have "r = Inr a" "snd (authorize_rotation cd name d) = d'"
    by (auto simp: authorize_rotation_def split: sum.splits)
  with m have "?m (dk_store d) = (Inr a, dk_store d')" by (metis at_desk_simps prod.collapse fst_conv snd_conv)
  from tracedD(1) [OF authorize_ok _ this] assms \<open>snd _ = d'\<close>
  show "permitted cd a (snd (authorize_rotation cd name d))" by (simp add: sound_over_def permitted_def)
qed

lemma persist_sound:
  assumes "sound_desk cd tb d" "permitted cd a d"
  shows "sound_desk cd tb (snd (persist_before_follow_up cd cw name a offered resolution d))"
proof -
  let ?m = "persist_refresh_resolution cd cw name a offered resolution"
  obtain r d' where m: "at_desk ?m d = (r, d')" by (cases "at_desk ?m d")
  then have s': "dk_store d' = snd (?m (dk_store d))" by (metis at_desk_simps(2) snd_conv)
  have "traced (\<lambda>t. t = st_trace (dk_store d)) ?m (\<lambda>_. consistent_history cd) (\<lambda>_. consistent_history cd)"
    by (rule traced_mono [OF consistent_persist]) (use assms in \<open>auto simp: sound_over_def permitted_def\<close>)
  from traced_final [OF this, of "dk_store d"] have "sound_desk cd tb d'"
    using truthful_token_commit(1) assms(1) by (auto simp: sound_over_def truthful_def s')
  with m show ?thesis
    by (auto simp: persist_before_follow_up_def split: sum.splits)
qed

lemma stops:
  "fst (authorize_rotation cd name d) = Inl e \<Longrightarrow> \<not> may_continue e"
  "fst (persist_before_follow_up cd cw name a offered resolution d) = Inl e \<Longrightarrow> \<not> may_continue e"
  by (auto simp: authorize_rotation_def persist_before_follow_up_def local_stop_def other_error_def may_continue_def
      split: prod.splits sum.splits)

interpretation leased: rotation_commit "authorize_rotation cd name" "persist_before_follow_up cd cw name"
  "sound_desk cd tb" "permitted cd" for cd tb cw name
  by unfold_locales (auto intro: authorize_rotation_sound persist_sound dest: stops)

abbreviation sound_link :: "codec \<Rightarrow> event list \<Rightarrow> desk link \<Rightarrow> bool" where
  "sound_link cd tb \<equiv> within_law (sound_desk cd tb) calm"

definition ends_sound :: "codec \<Rightarrow> event list \<Rightarrow> (usage_error + 'a) \<Rightarrow> desk link \<Rightarrow> bool" where
  "ends_sound cd tb r l \<longleftrightarrow> within_law (sound_desk cd tb) lawful l \<and> (is_ok r \<longrightarrow> calm l)"

lemma sound_ends: "sound_link cd tb l \<Longrightarrow> ends_sound cd tb r l"
  by (auto simp: ends_sound_def within_law_def calm_lawful)

lemma remembered_sound: "sound_link cd tb l \<Longrightarrow> sound_link cd tb (remember_verdict code t l)"
  by (auto simp: remember_verdict_def within_law_def calm_def lawful_def drained_def open_end_def split: option.splits)

lemma sound_moved: "sound_link cd tb l \<Longrightarrow> sound_desk cd tb d \<Longrightarrow> sound_link cd tb (l\<lparr>ln_local := d\<rparr>)"
  by (simp add: within_law_def calm_def lawful_def drained_def)

lemma settled_sound:
  assumes "sound_link cd tb l" "settle_pending cd name st l = (r, l')"
  shows "sound_link cd tb l'"
proof (cases "rs_pending st")
  case (Some p)
  obtain x d where m: "at_desk (reload_rotated_credentials cd name (rs_refresh_token st)) (ln_local l) = (x, d)"
    by fastforce
  have "sound_desk cd tb d"
    by (rule sound_at_desk [OF consistent_reload(1) truthful_token_commit(2) _ m])
      (use assms(1) in \<open>simp add: within_law_def\<close>)
  from remembered_sound [OF sound_moved [OF assms(1) this]] sound_moved [OF assms(1) this] assms(2) m Some
  show ?thesis by (auto simp: settle_pending_def Let_def split: option.splits prod.splits)
qed (use assms in \<open>simp add: settle_pending_def\<close>)

text \<open>A round ends with a result, or may be followed by another one.\<close>

definition round_sound :: "codec \<Rightarrow> event list \<Rightarrow> round_end \<Rightarrow> desk link \<Rightarrow> bool" where
  "round_sound cd tb r l \<longleftrightarrow> (case r of RoundDone x \<Rightarrow> ends_sound cd tb x l | _ \<Rightarrow> sound_link cd tb l)"

lemma error_sound:
  assumes "ended (sound_desk cd tb) e l"
  shows "round_sound cd tb (round_after_error name st e) l"
  using assms
  by (cases "fe_cause e")
    (auto simp: round_after_error_def Let_def round_sound_def ends_sound_def ended_def within_law_def may_continue_def)

lemma usage_round_sound:
  assumes "sound_link cd tb l" "usage_round cd w name attempt st l = (r, l')"
  shows "round_sound cd tb r l'"
proof -
  have wait: "sound_link cd tb m" if "(if 0 < attempt then await_cancellable_usage_read l else (Inr (), l)) = (x, m)" for x m
    using that assms(1) steadyD [OF steady_within [OF steady_states(1)] assms(1) passes_steps(1)]
    by (auto split: if_splits)
  have fetch: "sound_link cd tb m \<Longrightarrow> f (m\<lparr>ln_local := (ln_local m)\<lparr>dk_rotated := None\<rparr>\<rparr>) = (Inl e, n) \<Longrightarrow>
        round_sound cd tb (round_after_error name st' e) n"
      "sound_link cd tb m \<Longrightarrow> f (m\<lparr>ln_local := (ln_local m)\<lparr>dk_rotated := None\<rparr>\<rparr>) = (Inr u, n) \<Longrightarrow> sound_link cd tb n"
    if f: "net_run (within_law (sound_desk cd tb) calm) f (\<lambda>_. within_law (sound_desk cd tb) calm) (ended (sound_desk cd tb))"
    for f :: "(desk, usage_info) net" and m n st' e u
  proof -
    assume l: "sound_link cd tb m"
    have start: "sound_link cd tb (m\<lparr>ln_local := (ln_local m)\<lparr>dk_rotated := None\<rparr>\<rparr>)"
      by (rule sound_moved [OF l]) (use l in \<open>simp add: within_law_def\<close>)
    from net_runD [OF f start]
    show "f (m\<lparr>ln_local := (ln_local m)\<lparr>dk_rotated := None\<rparr>\<rparr>) = (Inl e, n) \<Longrightarrow>
        round_sound cd tb (round_after_error name st' e) n"
      "f (m\<lparr>ln_local := (ln_local m)\<lparr>dk_rotated := None\<rparr>\<rparr>) = (Inr u, n) \<Longrightarrow> sound_link cd tb n"
      by (auto intro: error_sound)
  qed
  show ?thesis
  proof (cases "if 0 < attempt then await_cancellable_usage_read l else (Inr (), l)")
    case (Pair x m)
    note m = wait [OF Pair]
    obtain y n where n: "settle_pending cd name st m = (y, n)" by fastforce
    note sound = settled_sound [OF m n]
    have fetched: "ends_sound cd tb (Inr u) k"
      if "fetch_usage_with_refresh fw (authorize_rotation cd name) (persist_before_follow_up cd cw name) name bt i rt
          (n\<lparr>ln_local := (ln_local n)\<lparr>dk_rotated := None\<rparr>\<rparr>) = (Inr u, k)" for fw cw bt i rt u k
      by (rule sound_ends, rule fetch(2) [OF leased.run_fetch sound that])
    show ?thesis
      using assms(2) Pair n sound m
      by (auto simp: usage_round_def Let_def round_sound_def [of _ _ "RoundDone _"]
          intro: sound_ends fetched fetch(1) [OF leased.run_fetch sound] split: prod.splits sum.splits)
  qed
qed

lemma usage_rounds_sound:
  "sound_link cd tb l \<Longrightarrow> usage_rounds cd w name used left attempt st l = (r, l') \<Longrightarrow> ends_sound cd tb r l'"
proof (induction cd w name used left attempt st l rule: usage_rounds.induct)
  case (1 cd w name used left attempt st l)
  show ?case
  proof (cases "left = 0")
    case True
    with "1.prems" show ?thesis by (auto intro: sound_ends)
  next
    case False
    obtain e m where m: "usage_round cd w name attempt st l = (e, m)" by fastforce
    note sound = usage_round_sound [OF "1.prems"(1) m]
    show ?thesis
    proof (cases e)
      case (RoundDone x)
      with False m "1.prems"(2) sound show ?thesis by (simp add: round_sound_def)
    next
      case (RoundRejected err code st')
      then have "sound_link cd tb m" using sound by (simp add: round_sound_def)
      with RoundRejected False m "1.prems"(2) "1.IH"(1) [OF False m [symmetric] RoundRejected] show ?thesis
        by (cases used) (auto intro: sound_ends remembered_sound)
    next
      case (RoundRetry st')
      then have "sound_link cd tb m" using sound by (simp add: round_sound_def)
      with RoundRetry False m "1.prems"(2) "1.IH"(2) [OF False m [symmetric] RoundRetry] show ?thesis
        by simp
    qed
  qed
qed

lemma read_sound:
  assumes "sound_link cd tb l" "read_at_link cd name l = (r, l')"
  shows "sound_link cd tb l'"
proof -
  obtain x d where m: "at_desk (read_auth cd (ProfileAuth name)) (ln_local l) = (x, d)" by fastforce
  have "sound_desk cd tb d"
    by (rule sound_at_desk [OF traced_post [OF traced_read_auth [OF frame_consistent]] _ _ m])
      (use assms(1) in \<open>auto simp: within_law_def intro: truthful_intros\<close>)
  from sound_moved [OF assms(1) this] assms(2) m show ?thesis by (simp add: read_at_link_def)
qed

lemma hit_sound: "sound_link cd tb l \<Longrightarrow> usage_cache_hit cd w name mode x l = (r, l') \<Longrightarrow> sound_link cd tb l'"
  by (auto simp: usage_cache_hit_def dest: read_sound split: if_splits prod.splits)

lemma prepare_sound:
  "sound_link cd tb l \<Longrightarrow> prepare_usage_request cd w name lease mode x l = (r, l') \<Longrightarrow> sound_link cd tb l'"
  by (auto simp: prepare_usage_request_def dest: read_sound split: if_splits prod.splits)

lemma ends_mapped: "ends_sound cd tb r l \<Longrightarrow> ends_sound cd tb (map_ok f r) l"
  by (simp add: ends_sound_def)

lemma budget_sound: "sound_link cd tb l \<Longrightarrow> sound_link cd tb (unlimited l)" "sound_link cd tb l \<Longrightarrow> sound_link cd tb (l\<lparr>ln_phase := None\<rparr>)"
  by (simp_all add: within_law_def calm_def lawful_def drained_def unlimited_def)

lemma execute_sound:
  "sound_link cd tb l \<Longrightarrow> execute_prepared_usage_request cd w p lease policy l = (r, l') \<Longrightarrow> ends_sound cd tb r l'"
  by (auto simp: execute_prepared_usage_request_def simp del: usage_rounds.simps split: if_splits prod.splits
      intro: sound_ends ends_mapped dest: usage_rounds_sound)

lemma observation_sound:
  assumes "sound_link cd tb l" "fetch_usage_observation_with_lease_and_client cd w name lease mode x policy l = (r, l')"
  shows "ends_sound cd tb r l'"
proof -
  obtain p m where p: "prepare_usage_request cd w name lease mode x l = (p, m)" by fastforce
  have m: "sound_link cd tb m" by (rule prepare_sound [OF assms(1) p])
  show ?thesis
  proof (cases p)
    case (Inl e)
    with assms(2) p m show ?thesis by (auto simp: fetch_usage_observation_with_lease_and_client_def intro: sound_ends)
  next
    case (Inr prepared)
    with assms(2) p have "execute_prepared_usage_request cd w prepared lease policy (unlimited m) = (r, l')"
      by (simp add: fetch_usage_observation_with_lease_and_client_def)
    from execute_sound [OF budget_sound(1) [OF m] this] show ?thesis .
  qed
qed

lemma released_sound: "ends_sound cd tb r l \<Longrightarrow> ends_sound cd tb r (release_lease name l)"
  by (simp add: ends_sound_def release_lease_def Let_def within_law_def lawful_def calm_def drained_def
      sound_over_def)

lemma acquired_sound: "keeps cd (acquire_profile_lease name)" "truthful (acquire_profile_lease name)"
  by (rule traced_acquire [OF frame_consistent, THEN traced_post], simp)
    (auto simp: acquire_profile_lease_def intro!: truthful_intros truthful_access split: reply.splits)

lemma retried_sound:
  assumes "sound_link cd tb l" "fetch_usage_retried_inner cd w name mode l = (r, l')"
  shows "ends_sound cd tb r l'"
proof -
  obtain x d where m: "at_desk (acquire_profile_lease name) (ln_local l) = (x, d)" by fastforce
  have "sound_desk cd tb d"
    by (rule sound_at_desk [OF acquired_sound _ m]) (use assms(1) in \<open>simp add: within_law_def\<close>)
  note l = sound_moved [OF assms(1) this]
  obtain h m where hit: "usage_cache_hit cd w name mode None (l\<lparr>ln_local := d\<rparr>) = (h, m)" by fastforce
  have m': "sound_link cd tb m" by (rule hit_sound [OF l hit])
  obtain o' n where o': "fetch_usage_observation_with_lease_and_client cd w name name mode None complete_usage_policy m = (o', n)" by fastforce
  have n: "ends_sound cd tb (map_ok ob_usage o') n" by (rule ends_mapped [OF observation_sound [OF m' o']])
  show ?thesis
    using assms m hit o' released_sound [OF n] released_sound [OF sound_ends [OF m']] sound_ends [OF l]
      sound_ends [OF assms(1)]
    by (simp add: fetch_usage_retried_inner_def split: sum.splits option.splits) blast+
qed

section \<open>How often a refresh token is sent\<close>

definition posts :: "net_event list \<Rightarrow> nat" where
  "posts events = length (filter (\<lambda>e. case e of NetPosted _ \<Rightarrow> True | _ \<Rightarrow> False) events)"

definition posts_within :: "nat \<Rightarrow> ('s, 'a) net \<Rightarrow> bool" where
  "posts_within n m \<longleftrightarrow> (\<forall>l. posts (ln_log (snd (m l))) \<le> posts (ln_log l) + n)"

named_theorems post_intros "how many refresh requests an exchange sends"

lemma posts_simps [simp]:
  "posts [] = 0" "posts (NetPosted t # es) = Suc (posts es)" "posts (NetCleared # es) = posts es"
  "posts (NetRotated # es) = posts es" "posts (NetRefused # es) = posts es" "posts (NetUnknown # es) = posts es"
  "posts (NetStored s # es) = posts es" "posts (NetLost # es) = posts es" "posts (NetGot b # es) = posts es"
  "posts (NetVerdict c t # es) = posts es"
  by (simp_all add: posts_def)

lemma posts_quiet [post_intros]:
  "posts_within 0 (net_give x)" "posts_within 0 (net_fail e)" "posts_within 0 (net_lift r)"
  "posts_within 0 (net_local f)" "posts_within 0 await_cancellable_usage_read"
  "posts_within 0 claim_credential_work" "posts_within 0 net_permit" "posts_within 0 next_read"
  "posts_within 0 next_refresh" "posts_within 0 next_lookup" "posts_within 1 (net_note v)"
  "posts_within 0 (net_note NetCleared)" "posts_within 0 (net_note (NetGot b))" "posts_within 0 (net_note NetLost)"
  "posts_within 0 (net_note (NetStored t))" "posts_within 0 (net_note NetRotated)"
  "posts_within 0 (net_note (if c then NetUnknown else NetRefused))"
  by (auto simp: posts_within_def net_give_def net_fail_def net_lift_def net_local_def await_cancellable_usage_read_def
      claim_credential_work_def net_permit_def next_read_def next_refresh_def next_lookup_def net_note_def Let_def
      split: option.splits prod.splits) (cases v; simp)

lemma posts_then:
  assumes "posts_within j m" "\<And>x. posts_within k (f x)" "j + k \<le> n"
  shows "posts_within n (net_then m f)"
  unfolding posts_within_def
proof
  fix l
  obtain r l' where m: "m l = (r, l')" by fastforce
  have j: "posts (ln_log l') \<le> posts (ln_log l) + j" using assms(1) m by (metis posts_within_def snd_conv)
  show "posts (ln_log (snd (net_then m f l))) \<le> posts (ln_log l) + n"
  proof (cases r)
    case (Inr x)
    have "posts (ln_log (snd (f x l'))) \<le> posts (ln_log l') + k" using assms(2) by (simp add: posts_within_def)
    with Inr m j assms(3) show ?thesis by (simp add: net_then_def)
  qed (use m j assms(3) in \<open>simp add: net_then_def\<close>)
qed

lemma posts_quietly [post_intros]:
  "posts_within 0 m \<Longrightarrow> (\<And>x. posts_within n (f x)) \<Longrightarrow> posts_within n (net_then m f)"
  "posts_within n m \<Longrightarrow> posts_within n (net_tried m)"
  by (rule posts_then, auto) (simp add: posts_within_def net_tried_def split_beta)

lemma posts_cases [post_intros]:
  "posts_within n m \<Longrightarrow> posts_within n m' \<Longrightarrow> posts_within n (if b then m else m')"
  "(\<And>y. posts_within n (f y)) \<Longrightarrow> (\<And>y. posts_within n (g y)) \<Longrightarrow> posts_within n (case x of Inl y \<Rightarrow> f y | Inr y \<Rightarrow> g y)"
  "posts_within n h \<Longrightarrow> (\<And>y. posts_within n (i y)) \<Longrightarrow> posts_within n (case z of None \<Rightarrow> h | Some y \<Rightarrow> i y)"
  "(\<And>a b. posts_within n (j a b)) \<Longrightarrow> posts_within n (case p of (a, b) \<Rightarrow> j a b)"
  "(\<And>a b. posts_within n (k a b)) \<Longrightarrow> (\<And>a b. posts_within n (k' a b)) \<Longrightarrow>
     posts_within n (case q of ReadFailed a b \<Rightarrow> k a b | ReadReply a b \<Rightarrow> k' a b)"
  by (auto split: sum.splits option.splits prod.splits read_answer.splits)

lemma posts_weaken: "posts_within 0 m \<Longrightarrow> posts_within n m"
  by (auto simp: posts_within_def intro: le_trans)

lemma posts_reads [post_intros]:
  "posts_within 0 (send_usage_request w b c1 c2)" "posts_within 0 (finish_usage_fetch w b u)"
  "posts_within 0 (authorized_rotation authorize)" "posts_within 0 (persisted_rotation persist a offered res)"
  "posts_within 0 (read_refreshed w persist a offered res c1 c2 failed)"
proof -
  show "posts_within 0 (send_usage_request w b c1 c2)"
    unfolding send_usage_request_def by (intro post_intros)
  note send = this
  show "posts_within 0 (finish_usage_fetch w b u)"
    unfolding finish_usage_fetch_def by (intro post_intros)
  note finish = this
  show "posts_within 0 (authorized_rotation authorize)" "posts_within 0 (persisted_rotation persist a offered res)"
    unfolding authorized_rotation_def persisted_rotation_def by (intro post_intros)+
  show "posts_within 0 (read_refreshed w persist a offered res c1 c2 failed)"
    unfolding read_refreshed_def persisted_rotation_def send_usage_request_def finish_usage_fetch_def
    by (intro post_intros)
qed

lemma posts_refresh [post_intros]: "posts_within 1 (do_refresh_token_for_usage w name i offered)"
  unfolding do_refresh_token_for_usage_def
  by (intro post_intros posts_then [where j = 1 and k = 0]) auto

lemma posts_once [post_intros]:
  "posts_within 1 (proactive_refresh w authorize persist name i offered)"
  "posts_within 1 (reactive_refresh w authorize persist name i offered status)"
proof -
  have gone: "posts_within 0 (case c of UsageReadCancelled \<Rightarrow> net_fail e | RefreshOutcomeUnknown \<Rightarrow> net_fail e
       | TerminalAuthError x \<Rightarrow> net_give (ProactiveGone (Some e) None)
       | UsageRequestFailure kind \<Rightarrow> net_give (ProactiveGone None (if is_retryable kind then Some e else None))
       | _ \<Rightarrow> net_give (ProactiveGone None None))" for e c
    by (cases c) (simp_all add: post_intros)
  show "posts_within 1 (proactive_refresh w authorize persist name i offered)"
    unfolding proactive_refresh_def
    by (intro post_intros posts_then [where j = 1 and k = 0] posts_quietly(2) gone) auto
  show "posts_within 1 (reactive_refresh w authorize persist name i offered status)"
    unfolding reactive_refresh_def
    by (intro post_intros posts_then [where j = 1 and k = 0] posts_quietly(2)) auto
qed

lemma posts_fetch:
  "posts_within 2 (fetch_usage_with_refresh w authorize persist name access_tok i refresh_tok)"
proof -
  have before: "posts_within 1 (case refresh_tok of
        None \<Rightarrow> net_give (ProactiveGone None None)
      | Some offered \<Rightarrow>
          net_then (net_lift (map_err other_error (access_token_needs_refresh w access_tok 60)))
            (\<lambda>needed. if needed then proactive_refresh w authorize persist name i offered
                      else net_give (ProactiveGone None None)))"
    by (intro post_intros posts_weaken)
  have after: "posts_within 1 (case p of ProactiveDone u \<Rightarrow> net_give u | ProactiveGone x y \<Rightarrow> f x y)"
    if "\<And>x y. posts_within 1 (f x y)" for p f
    using that by (cases p) (auto intro: posts_weaken post_intros)
  show ?thesis
    unfolding fetch_usage_with_refresh_def Let_def
    by (rule posts_quietly(1), rule posts_quiet(3), rule posts_then [OF before], rule after)
      (intro post_intros posts_weaken, simp)
qed

lemma posts_unchanged:
  "settle_pending cd name st l = (r, l') \<Longrightarrow> posts (ln_log l') = posts (ln_log l)"
  "posts (ln_log (remember_verdict c t l)) = posts (ln_log l)"
  "await_cancellable_usage_read m = (x, m') \<Longrightarrow> posts (ln_log m') = posts (ln_log m)"
  by (auto simp: settle_pending_def remember_verdict_def await_cancellable_usage_read_def Let_def
      split: option.splits prod.splits if_splits)

lemma posts_round:
  assumes "usage_round cd w name attempt st l = (r, l')"
  shows "posts (ln_log l') \<le> posts (ln_log l) + 2"
proof -
  obtain x m where x: "(if 0 < attempt then await_cancellable_usage_read l else (Inr (), l)) = (x, m)" by fastforce
  then have m: "posts (ln_log m) = posts (ln_log l)" by (auto simp: posts_unchanged split: if_splits)
  obtain y n where y: "settle_pending cd name st m = (y, n)" by fastforce
  then have n: "posts (ln_log n) = posts (ln_log m)" by (rule posts_unchanged)
  have fetched: "posts (ln_log k) \<le> posts (ln_log n) + 2"
    if "fetch_usage_with_refresh fw (authorize_rotation cd name) (persist_before_follow_up cd cw name) name bt i rt
          (n\<lparr>ln_local := d\<rparr>) = (z, k)" for fw cw bt i rt d z k
    using posts_fetch [of fw "authorize_rotation cd name" "persist_before_follow_up cd cw name" name bt i rt] that
    unfolding posts_within_def by (metis snd_conv link.select_convs(9) link.surjective link.update_convs(1))
  show ?thesis
    using assms x y m n
    by (auto simp: usage_round_def Let_def dest: fetched split: sum.splits prod.splits)
qed

lemma posts_rounds:
  "usage_rounds cd w name used left attempt st l = (r, l') \<Longrightarrow>
     posts (ln_log l') \<le> posts (ln_log l) + 2 * (left + (if used then 0 else 1))"
proof (induction cd w name used left attempt st l rule: usage_rounds.induct)
  case (1 cd w name used left attempt st l)
  show ?case
  proof (cases "left = 0")
    case True
    with "1.prems" show ?thesis by auto
  next
    case False
    obtain e m where m: "usage_round cd w name attempt st l = (e, m)" by fastforce
    note two = posts_round [OF m]
    show ?thesis
    proof (cases e)
      case (RoundDone x)
      with False m "1.prems" two show ?thesis by auto
    next
      case (RoundRejected err code st')
      with False m "1.prems" two "1.IH"(1) [OF False m [symmetric] RoundRejected] show ?thesis
        by (cases used) (auto simp: posts_unchanged)
    next
      case (RoundRetry st')
      with False m "1.prems" two "1.IH"(2) [OF False m [symmetric] RoundRetry] show ?thesis
        by auto
    qed
  qed
qed

text \<open>A desk with one saved profile, and a link over it before anything happened.\<close>

definition demo_desk :: desk where
  "demo_desk =
     \<lparr>dk_store = \<lparr>st_live = Some ''{}'', st_marker = Some ''a'', st_names = [''a''], st_auth = (\<lambda>name. if name = ''a'' then Some ''{}'' else None),
        st_stages = [], st_policy = Inl [], st_leased = [], st_locked = False, st_script = [], st_trace = []\<rparr>,
      dk_rotated = None\<rparr>"

definition demo_link :: "desk link" where
  "demo_link = \<lparr>ln_local = demo_desk, ln_budget = unlimited_budget, ln_phase = None, ln_asks = [], ln_permits = [],
     ln_reads = [], ln_refreshes = [], ln_lookups = [], ln_log = []\<rparr>"

lemma cancellable_sound:
  assumes "sound_link cd tb l"
    and "execute_prepared_core_usage_cancellable_with_existing_lease_and_client cd w prepared lease l = (r, l')"
  shows "ends_sound cd tb r l'"
proof (cases prepared)
  case (CoreCached usage)
  with assms show ?thesis
    by (auto simp: execute_prepared_core_usage_cancellable_with_existing_lease_and_client_def intro: sound_ends)
next
  case (CoreNetwork inner)
  obtain x m where m: "execute_prepared_usage_request cd w inner lease core_probe_policy l = (x, m)" by fastforce
  have "r = map_ok ob_usage x" "l' = m"
    using assms(2) m CoreNetwork
    by (simp_all add: execute_prepared_core_usage_cancellable_with_existing_lease_and_client_def replying_def)
  with ends_mapped [OF execute_sound [OF assms(1) m]] show ?thesis by simp
qed

text \<open>What is promised of a request that has returned.\<close>

definition sent_none :: "net_event list \<Rightarrow> bool" where
  "sent_none events \<longleftrightarrow> list_all (\<lambda>e. case e of NetPosted _ \<Rightarrow> False | _ \<Rightarrow> True) events"

definition keeps_its_discipline :: "codec \<Rightarrow> 'a reply_of \<Rightarrow> bool" where
  "keeps_its_discipline cd outcome \<longleftrightarrow>
     (case outcome of (r, l') \<Rightarrow>
        disciplined (ln_log l') \<and> drained l' \<and> sound_store cd (dk_store (ln_local l'))
        \<and> (is_ok r \<longrightarrow> open_end (ln_log l'))
        \<and> (ln_phase l' = Some ReadCancelled \<longrightarrow> sent_none (ln_log l')))"

lemma ends_disciplined:
  assumes "ends_sound cd tb r l'"
  shows "keeps_its_discipline cd (r, l')"
proof -
  have sound: "lawful l'" "sound_store cd (dk_store (ln_local l'))" "is_ok r \<longrightarrow> open_end (ln_log l')"
    using assms by (auto simp: ends_sound_def within_law_def calm_def dest: sound_over_store)
  have "sent_none (ln_log l')" if "ln_phase l' = Some ReadCancelled"
    using sound(1) that unfolding lawful_def drained_def sent_none_def list_all_iff
    by (auto split: net_event.splits)
  with sound show ?thesis by (simp add: keeps_its_discipline_def lawful_def)
qed

text \<open>
  C11. However the network answers and whatever interferes on disk, a usage request sends a refresh
  token only directly after its use was authorised; new tokens are stored before anything else is
  sent, and after an unknown outcome or a failed store nothing more is sent. Every access to the
  profiles and the live credential keeps its own discipline, and the leased profile state is what
  was read. Both ways in are covered: the request that takes the lease itself and cannot be
  cancelled, and the prepared request of a caller that holds the lease and may cancel it at any of
  its waits. Of the second it also holds that sending a refresh token and being cancelled exclude
  each other: once a token was sent the read can no longer be cancelled, and a read that was
  cancelled has sent none.
\<close>

theorem usage_read_disciplined:
  assumes "calm l" "sound_store cd (dk_store (ln_local l))"
  shows "keeps_its_discipline cd (fetch_usage_retried_inner cd w name mode l)
    \<and> keeps_its_discipline cd
        (execute_prepared_core_usage_cancellable_with_existing_lease_and_client cd w prepared lease l)"
proof -
  from assms have l: "sound_link cd (st_trace (dk_store (ln_local l))) l"
    by (simp add: within_law_def sound_over_now)
  have "keeps_its_discipline cd (r, l')" if "fetch_usage_retried_inner cd w name mode l = (r, l')" for r l'
    by (rule ends_disciplined, rule retried_sound [OF l that])
  moreover have "keeps_its_discipline cd (r, l')"
    if "execute_prepared_core_usage_cancellable_with_existing_lease_and_client cd w prepared lease l = (r, l')" for r l'
    by (rule ends_disciplined, rule cancellable_sound [OF l that])
  ultimately show ?thesis by (metis surj_pair)
qed

text \<open>A read that can be cancelled, of a profile with a refresh token.\<close>

definition demo_prepared :: prepared_core_usage where
  "demo_prepared = CoreNetwork \<lparr>pu_alias = ''a'', pu_binding = \<lparr>sb_account_id = ''1'', sb_email = ''a@x''\<rparr>,
     pu_id_token = None, pu_access_token = ''t'', pu_refresh_token = Some ''r''\<rparr>"

lemma usage_read_disciplined_witness:
  "\<forall>cd w asks. keeps_its_discipline cd
     (execute_prepared_core_usage_cancellable_with_existing_lease_and_client cd w demo_prepared ''a''
        (demo_link\<lparr>ln_phase := Some ReadCancellable, ln_asks := asks\<rparr>))"
proof (intro allI)
  fix cd w asks
  let ?l = "demo_link\<lparr>ln_phase := Some ReadCancellable, ln_asks := asks\<rparr>"
  have "calm ?l" by (simp add: calm_def lawful_def drained_def open_end_def demo_link_def)
  moreover have "sound_store cd (dk_store (ln_local ?l))"
    by (simp add: sound_store_def coherent_def demo_link_def demo_desk_def)
  ultimately show "keeps_its_discipline cd
     (execute_prepared_core_usage_cancellable_with_existing_lease_and_client cd w demo_prepared ''a'' ?l)"
    using usage_read_disciplined by blast
qed

end
