(* ===== verification/Best_Selection.thy ===== *)
theory Best_Selection
  imports Selection Cache_Store Task_Batch Reset_Credits
begin

text \<open>
  The plan of \<open>best\<close> (\<open>src/src/commands/profile.rs\<close>): the quota of every saved account is taken from
  the cache or probed, the probes are published, the accounts are scored and ranked; when nobody
  is eligible the reset cards are looked up, the pool is ranked again, and the account to revive
  is chosen. What the outside answers (snapshots, workers, clocks, the user) is a record.
\<close>

section \<open>Collecting the quota\<close>

datatype auto_select_origin = CachedComplete | CachedQuotaOnly | CoreProbe

record auto_select_usage =
  au_alias :: string
  au_usage :: usage_info
  au_origin :: auto_select_origin
  au_baseline :: "usage_cache_baseline option"

type_synonym pending_probe = "string \<times> usage_cache_baseline"

text \<open>What the cache holds, and the accounts that need a probe.\<close>

fun preflight_lookups ::
  "(string \<Rightarrow> auto_select_lookup option) \<Rightarrow> string list \<Rightarrow> (auto_select_usage list \<times> pending_probe list) result" where
  "preflight_lookups lookups [] = Inr ([], [])"
| "preflight_lookups lookups (name # names) =
     and_then (with_context (''reading cached usage during auto-select: '' @ name)
        (ok_or [''automatic-selection cache snapshot has no alias '' @ quoted name] (lookups name))) (\<lambda>lookup.
     map_ok (\<lambda>(fetched, pending).
        case lk_usage lookup of
          Some cached \<Rightarrow>
            (\<lparr>au_alias = name, au_usage = cached,
              au_origin = (if lk_reset_metadata_complete lookup then CachedComplete else CachedQuotaOnly),
              au_baseline = (if lk_reset_metadata_complete lookup then None else Some (lk_baseline lookup))\<rparr>
               # fetched, pending)
        | None \<Rightarrow> (fetched, (name, lk_baseline lookup) # pending))
       (preflight_lookups lookups names))"

text \<open>The outcomes of the batch: a probe, nothing, or the failure of a worker.\<close>

definition probed :: "pending_probe list \<Rightarrow> usage_info option result named_outcome \<Rightarrow> auto_select_usage option" where
  "probed pending outcome =
     (case outcome of
        Completed name (Inr (Some usage)) \<Rightarrow>
          Some \<lparr>au_alias = name, au_usage = usage, au_origin = CoreProbe, au_baseline = map_of pending name\<rparr>
      | _ \<Rightarrow> None)"

definition failed_worker :: "'a result named_outcome \<Rightarrow> (string \<times> string) option" where
  "failed_worker outcome =
     (case outcome of Completed name (Inl e) \<Rightarrow> Some (name, show_chain e)
      | Completed name (Inr _) \<Rightarrow> None
      | Failed name detail \<Rightarrow> Some (name, detail))"

definition collect_best_profile_usage ::
  "(string \<Rightarrow> auto_select_lookup option) \<Rightarrow> string list
     \<Rightarrow> (pending_probe list \<Rightarrow> (nat \<times> (join_error + usage_info option result)) list) \<Rightarrow> auto_select_usage list result" where
  "collect_best_profile_usage lookups names finished =
     and_then (preflight_lookups lookups names) (\<lambda>(fetched, pending).
     let outcomes = fst (drain_named_tasks (finished pending) (enumerate 0 (map fst pending)));
         failures = List.map_filter failed_worker outcomes
     in if failures \<noteq> []
        then Inl (batch_failure_error ''one or more automatic-selection usage workers failed'' failures)
        else Inr (fetched @ List.map_filter (probed pending) outcomes))"

section \<open>Publishing the probes\<close>

text \<open>
  The outcome of the cache is authoritative: where another writer came between, its observation
  replaces the probe. The revision and mutation identities of an update are drawn by \<open>draw\<close>.
\<close>

definition quota_update ::
  "(string \<Rightarrow> string \<times> string) \<Rightarrow> reset_metadata_mode \<Rightarrow> strict_account_binding \<Rightarrow> usage_cache_baseline
     \<Rightarrow> auto_select_usage \<Rightarrow> core_probe_update" where
  "quota_update draw mode binding baseline c =
     \<lparr>cu_alias = au_alias c, cu_binding = binding, cu_baseline = baseline, cu_usage = au_usage c,
      cu_reset_metadata = mode, cu_revision = fst (draw (au_alias c)), cu_fresh = snd (draw (au_alias c))\<rparr>"

fun probe_updates ::
  "(string \<Rightarrow> string \<times> string) \<Rightarrow> (string \<Rightarrow> strict_account_binding option) \<Rightarrow> auto_select_usage list
     \<Rightarrow> core_probe_update list result" where
  "probe_updates draw bindings [] = Inr []"
| "probe_updates draw bindings (c # cs) =
     (if au_origin c \<noteq> CoreProbe then probe_updates draw bindings cs
      else
        and_then (ok_or [''core probe for '' @ quoted (au_alias c) @ '' has no exact cache baseline''] (au_baseline c)) (\<lambda>baseline.
        and_then (ok_or [''profile '' @ quoted (au_alias c) @ '' has no auto-select identity snapshot'']
           (bindings (au_alias c))) (\<lambda>binding.
        map_ok (\<lambda>rest. quota_update draw PreserveExisting binding baseline c # rest)
          (probe_updates draw bindings cs))))"

definition settle_probe :: "core_probe_outcome \<Rightarrow> auto_select_usage \<Rightarrow> auto_select_usage" where
  "settle_probe outcome c =
     (if co_reset_metadata_complete outcome
      then c\<lparr>au_usage := co_usage outcome, au_origin := CachedComplete, au_baseline := None\<rparr>
      else c\<lparr>au_usage := co_usage outcome, au_origin := CachedQuotaOnly, au_baseline := Some (co_baseline outcome)\<rparr>)"

fun settle_probes ::
  "core_probe_outcome list \<Rightarrow> auto_select_usage list \<Rightarrow> auto_select_usage list result" where
  "settle_probes outcomes [] =
     (if outcomes = [] then Inr []
      else bail ''core-probe cache results did not match the automatic-selection snapshot; no reset card was requested and no profile was switched'')"
| "settle_probes outcomes (c # cs) =
     (if au_origin c \<noteq> CoreProbe then map_ok (\<lambda>rest. c # rest) (settle_probes outcomes cs)
      else
        (case find (\<lambda>x. co_alias x = au_alias c) outcomes of
           None \<Rightarrow> bail (''core-probe cache results have no profile '' @ quoted (au_alias c)
                          @ ''; no reset card was requested and no profile was switched'')
         | Some outcome \<Rightarrow>
             map_ok (\<lambda>rest. settle_probe outcome c # rest)
               (settle_probes (filter (\<lambda>x. co_alias x \<noteq> au_alias c) outcomes) cs)))"

definition publish_auto_select_core_probes ::
  "(string \<Rightarrow> string \<times> string) \<Rightarrow> (core_probe_update list \<Rightarrow> core_probe_outcome list result)
     \<Rightarrow> (string \<Rightarrow> strict_account_binding option) \<Rightarrow> auto_select_usage list \<Rightarrow> auto_select_usage list result" where
  "publish_auto_select_core_probes draw publish bindings collected =
     and_then (probe_updates draw bindings collected) (\<lambda>updates.
       if updates = [] then Inr collected
       else
         and_then (with_context
             ''conditionally publishing automatic-selection quota probes; no reset card was requested and no profile was switched''
             (publish updates)) (\<lambda>outcomes.
           if \<not> distinct (map co_alias outcomes)
           then bail ''duplicate core-probe cache result; no reset card was requested and no profile was switched''
           else settle_probes outcomes collected))"

section \<open>Ranking\<close>

definition ranks_before :: "f64 \<Rightarrow> scored_candidate \<Rightarrow> scored_candidate \<Rightarrow> bool" where
  "ranks_before safety a b =
     (let ca = s_candidate a; cb = s_candidate b;
          ea = is_candidate_eligible ca safety; eb = is_candidate_eligible cb safety;
          ba = (c_explicit_account_blocker ca \<noteq> None); bb = (c_explicit_account_blocker cb \<noteq> None)
      in if ea \<noteq> eb then ea
         else if ba \<noteq> bb then bb
         else if f64_lt (s_score b) (s_score a) then True
         else if f64_lt (s_score a) (s_score b) then False
         else if c_last_used ca \<noteq> c_last_used cb then c_last_used ca < c_last_used cb
         else c_alias ca < c_alias cb)"

fun insert_ranked :: "('a \<Rightarrow> 'a \<Rightarrow> bool) \<Rightarrow> 'a \<Rightarrow> 'a list \<Rightarrow> 'a list" where
  "insert_ranked before x [] = [x]"
| "insert_ranked before x (y # ys) = (if before y x then y # insert_ranked before x ys else x # y # ys)"

definition sort_ranked :: "('a \<Rightarrow> 'a \<Rightarrow> bool) \<Rightarrow> 'a list \<Rightarrow> 'a list" where
  "sort_ranked before xs = foldr (insert_ranked before) xs []"

definition score_profile_candidates_with_info ::
  "(string \<Rightarrow> i64 option) result \<Rightarrow> (string \<Rightarrow> account_info option) \<Rightarrow> (string \<times> usage_info) list \<Rightarrow> i64 \<Rightarrow> f64 \<Rightarrow> bool
     \<Rightarrow> scored_candidate list result" where
  "score_profile_candidates_with_info history info_of fetched now safety team =
     and_then (with_context ''loading profile-selection history for automatic ranking'' history) (\<lambda>last_used.
     and_then (collect_results (\<lambda>(name, u).
          map_ok (\<lambda>info. (name, u, info, the_or 0 (last_used name)))
            (ok_or [''profile '' @ quoted name @ '' disappeared from the auto-select snapshot''] (info_of name))) fetched) (\<lambda>items.
     let scored = filter (\<lambda>s. has_required_quota_data (s_candidate s)
                               \<or> c_explicit_account_blocker (s_candidate s) \<noteq> None)
                    (score_candidates items now safety team)
     in if scored = [] then bail ''no profile has complete authoritative quota data for automatic selection''
        else Inr (sort_ranked (ranks_before safety) scored)))"

definition auto_select_scoring_input :: "auto_select_usage list \<Rightarrow> (string \<times> usage_info) list" where
  "auto_select_scoring_input collected = map (\<lambda>c. (au_alias c, au_usage c)) collected"

section \<open>The reset cards of an exhausted pool\<close>

definition reset_detail_aliases_if_pool_exhausted :: "scored_candidate list \<Rightarrow> f64 \<Rightarrow> string list" where
  "reset_detail_aliases_if_pool_exhausted scored safety =
     (if list_ex (\<lambda>s. is_candidate_eligible (s_candidate s) safety) scored then []
      else map (c_alias \<circ> s_candidate)
             (filter (\<lambda>s. c_explicit_account_blocker (s_candidate s) = None) scored))"

definition needs_reset_card_enrichment :: "auto_select_usage \<Rightarrow> bool" where
  "needs_reset_card_enrichment c \<longleftrightarrow> au_origin c \<noteq> CachedComplete"

text \<open>
  What one card worker publishes once the cards were looked up; \<open>looked_up\<close> is the usage with the
  cards, or why they could not be had.
\<close>

definition enrich_auto_select_reset_card_details ::
  "(string \<Rightarrow> string \<times> string) \<Rightarrow> (core_probe_update list \<Rightarrow> core_probe_outcome list result)
     \<Rightarrow> strict_account_binding \<Rightarrow> usage_error + usage_info \<Rightarrow> auto_select_usage \<Rightarrow> auto_select_usage result" where
  "enrich_auto_select_reset_card_details draw publish binding looked_up candidate =
     and_then (with_context (''reset-card details for '' @ quoted (au_alias candidate)
           @ '' could not be loaded; no reset card was requested and no profile was switched'')
         (map_err (\<lambda>e. [ue_detail e]) looked_up)) (\<lambda>usage.
     let c = candidate\<lparr>au_usage := usage\<rparr> in
     if au_origin c = CachedComplete then Inr c
     else
       and_then (ok_or [''quota-only usage for '' @ quoted (au_alias c) @ '' has no exact cache baseline''] (au_baseline c)) (\<lambda>baseline.
       and_then (with_context (''conditionally publishing reset-card details for '' @ quoted (au_alias c)
             @ ''; no reset card was requested and no profile was switched'')
           (publish [quota_update draw Complete binding baseline c])) (\<lambda>outcomes.
         case rev outcomes of
           [] \<Rightarrow> bail ''single reset-card cache completion returned no result''
         | outcome # rest \<Rightarrow>
             if co_alias outcome \<noteq> au_alias c \<or> rest \<noteq> []
             then bail (''reset-card cache completion did not match profile '' @ quoted (au_alias c)
                    @ ''; no reset card was requested and no profile was switched'')
             else Inr (settle_probe outcome c))))"

definition detailed :: "auto_select_usage result named_outcome \<Rightarrow> (string \<times> string) + auto_select_usage" where
  "detailed outcome =
     (case outcome of
        Completed name (Inr c) \<Rightarrow>
          if au_alias c = name then
            (case u_reset_credits_error (au_usage c) of
               Some e \<Rightarrow> Inl (name, ''reset-card details are unavailable: '' @ e)
             | None \<Rightarrow> Inr c)
          else Inl (name, ''reset-card worker for '' @ quoted name @ '' returned data for '' @ quoted (au_alias c))
      | Completed name (Inl e) \<Rightarrow> Inl (name, show_chain e)
      | Failed name detail \<Rightarrow> Inl (name, detail))"

definition collect_reset_card_details ::
  "(nat \<times> (join_error + auto_select_usage result)) list \<Rightarrow> string list \<Rightarrow> auto_select_usage list result" where
  "collect_reset_card_details finished names =
     (let outcomes = map detailed (fst (drain_named_tasks finished (enumerate 0 names)));
          failures = List.map_filter (\<lambda>x. case x of Inl f \<Rightarrow> Some f | Inr _ \<Rightarrow> None) outcomes
      in if failures \<noteq> []
         then Inl (batch_failure_error
           ''one or more reset-card detail workers failed; no reset card was requested and no profile was switched'' failures)
         else Inr (List.map_filter ok_opt outcomes))"

definition replace_enriched :: "auto_select_usage list \<Rightarrow> auto_select_usage list \<Rightarrow> auto_select_usage list result" where
  "replace_enriched enriched collected =
     (if \<not> distinct (map au_alias enriched)
      then bail ''duplicate reset-card result; no reset card was requested and no profile was switched''
      else if \<not> set (map au_alias enriched) \<subseteq> set (map au_alias collected)
      then bail ''reset-card results did not match the automatic-selection snapshot; no reset card was requested and no profile was switched''
      else Inr (map (\<lambda>c. the_or c (find (\<lambda>e. au_alias e = au_alias c) enriched)) collected))"

section \<open>The account to revive\<close>

record revival_candidate =
  rv_alias :: string
  rv_eligible :: bool
  rv_score :: f64
  rv_credits :: "reset_credit list"

text \<open>Whether the second candidate is preferred: an earlier card, more cards, a higher score.\<close>

definition revives_before ::
  "(string \<Rightarrow> i64 option) \<Rightarrow> revival_candidate \<times> reset_credit \<Rightarrow> revival_candidate \<times> reset_credit \<Rightarrow> bool" where
  "revives_before rfc3339 a b =
     (let ka = reset_credit_expiry_sort_key rfc3339 (snd a); kb = reset_credit_expiry_sort_key rfc3339 (snd b);
          na = length (rv_credits (fst a)); nb = length (rv_credits (fst b))
      in if ka \<noteq> kb then ka < kb
         else if na \<noteq> nb then nb < na
         else f64_lt (rv_score (fst b)) (rv_score (fst a)))"

definition card_holders ::
  "(string \<Rightarrow> i64 option) \<Rightarrow> revival_candidate list \<Rightarrow> (revival_candidate \<times> reset_credit) list" where
  "card_holders rfc3339 candidates =
     List.map_filter (\<lambda>c. map_option (Pair c) (earliest_reset_credit rfc3339 (rv_credits c)))
       (filter (\<lambda>c. \<not> rv_eligible c \<and> rv_credits c \<noteq> []) candidates)"

definition pick_revival_target :: "(string \<Rightarrow> i64 option) \<Rightarrow> revival_candidate list \<Rightarrow> string option" where
  "pick_revival_target rfc3339 candidates =
     map_option (rv_alias \<circ> fst)
       (first_best (\<lambda>a b. revives_before rfc3339 b a) id (card_holders rfc3339 candidates))"

section \<open>The plan\<close>

datatype card_policy = PromptCard | PreApproved | DenyCard

record revival_hint =
  rh_alias :: string
  rh_card_count :: nat

record select_outcome =
  so_alias :: string
  so_usage :: usage_info
  so_score :: f64
  so_evaluated_at :: i64
  so_revival_hint :: "revival_hint option"

record pending_revival =
  pv_candidate :: candidate
  pv_credit :: reset_credit
  pv_binding :: strict_account_binding
  pv_safety :: f64

datatype selection_plan = PlanReady select_outcome strict_account_binding | PlanRevive pending_revival

record plan_world =
  pw_accounts :: "(string \<times> account_info) list result"
  pw_lookups :: "(string \<Rightarrow> strict_account_binding option) \<Rightarrow> (string \<Rightarrow> auto_select_lookup option) result"
  pw_client :: "unit result"
  pw_probes :: "pending_probe list \<Rightarrow> (nat \<times> (join_error + usage_info option result)) list"
  pw_draw :: "string \<Rightarrow> string \<times> string"
  pw_publish :: "core_probe_update list \<Rightarrow> core_probe_outcome list result"
  pw_first_clock :: "i64 result"
  pw_first_history :: "(string \<Rightarrow> i64 option) result"
  pw_details :: "auto_select_usage list \<Rightarrow> (nat \<times> (join_error + auto_select_usage result)) list"
  pw_second_clock :: "i64 result"
  pw_second_history :: "(string \<Rightarrow> i64 option) result"
  pw_safety :: f64
  pw_team :: bool
  pw_rfc3339 :: "string \<Rightarrow> i64 option"
  pw_answer :: bool

definition blocked_pool :: "usage_info \<Rightarrow> 'a result" where
  "blocked_pool u =
     and_then (ok_or [''exhausted automatic-selection pool has no resettable profile''] (explicit_account_blocker u))
       (\<lambda>blocker. bail (''all selectable profiles are blocked by account/workspace restrictions (''
          @ wire_reason blocker @ ''); no reset card was requested and no profile was switched''))"

text \<open>The usage of an exhausted pool, with the cards of every account that may hold one.\<close>

definition enrich_pool :: "plan_world \<Rightarrow> string list \<Rightarrow> auto_select_usage list \<Rightarrow> auto_select_usage list result" where
  "enrich_pool w names collected =
     (let matched = filter (\<lambda>c. au_alias c \<in> set names) collected;
          inputs = filter needs_reset_card_enrichment matched
      in if length matched \<noteq> card (set names)
         then bail ''reset-card candidates did not match the automatic-selection snapshot; no reset card was requested and no profile was switched''
         else
           and_then (if inputs = [] then Inr []
                     else and_then (with_context
                            ''building the shared automatic-selection reset-card HTTP client'' (pw_client w))
                       (\<lambda>_. collect_reset_card_details (pw_details w inputs) (map au_alias inputs)))
             (\<lambda>enriched. replace_enriched enriched collected))"

text \<open>The pool on which the choice is made, with the time at which it was scored.\<close>

definition selection_pool :: "plan_world \<Rightarrow> ((string \<Rightarrow> strict_account_binding option) \<times> i64 \<times> scored_candidate list) result" where
  "selection_pool w =
     and_then (pw_accounts w) (\<lambda>accounts.
     if accounts = [] then bail ''no saved profiles; run login or import first''
     else
     and_then (collect_results (\<lambda>(name, info).
        map_ok (Pair name) (ok_or [''profile '' @ quoted name @ '' needs a verified account id and email for auto-select'']
           (strict_binding info))) accounts) (\<lambda>bound.
     let bindings = map_of bound; info_of = map_of accounts; names = map fst accounts in
     and_then (pw_lookups w bindings) (\<lambda>lookups.
     and_then (if list_ex (\<lambda>n. Option.bind (lookups n) lk_usage = None) names
               then with_context ''building the shared automatic-selection HTTP client'' (pw_client w) else Inr ()) (\<lambda>_.
     and_then (collect_best_profile_usage lookups names (pw_probes w)) (\<lambda>probes.
     if probes = [] then bail ''all usage queries failed''
     else
     and_then (publish_auto_select_core_probes (pw_draw w) (pw_publish w) bindings probes) (\<lambda>collected.
     and_then (pw_first_clock w) (\<lambda>now.
     and_then (score_profile_candidates_with_info (pw_first_history w) info_of
                 (auto_select_scoring_input collected) now (pw_safety w) (pw_team w)) (\<lambda>scored.
     if is_candidate_eligible (s_candidate (hd scored)) (pw_safety w) then Inr (bindings, now, scored)
     else
     let names = reset_detail_aliases_if_pool_exhausted scored (pw_safety w) in
     if names = [] then blocked_pool (s_usage (hd scored))
     else
     and_then (enrich_pool w names collected) (\<lambda>collected.
     and_then (pw_second_clock w) (\<lambda>now.
     map_ok (\<lambda>scored. (bindings, now, scored))
       (score_profile_candidates_with_info (pw_second_history w) info_of
          (auto_select_scoring_input collected) now (pw_safety w) (pw_team w))))))))))))"

definition revival_candidates :: "f64 \<Rightarrow> scored_candidate list \<Rightarrow> revival_candidate list" where
  "revival_candidates safety scored =
     map (\<lambda>s. \<lparr>rv_alias = c_alias (s_candidate s), rv_eligible = is_candidate_eligible (s_candidate s) safety,
                rv_score = s_score s, rv_credits = u_reset_credits (s_usage s)\<rparr>)
       (filter (\<lambda>s. explicit_account_blocker (s_usage s) = None) scored)"

definition decide_plan ::
  "plan_world \<Rightarrow> card_policy \<Rightarrow> (string \<Rightarrow> strict_account_binding option) \<Rightarrow> i64 \<Rightarrow> scored_candidate list \<Rightarrow> selection_plan result" where
  "decide_plan w policy bindings now scored =
     (let top = hd scored;
          binding_for = (\<lambda>name. ok_or [''profile '' @ quoted name @ '' has no auto-select identity snapshot''] (bindings name));
          ready = (\<lambda>hint. map_ok (PlanReady \<lparr>so_alias = c_alias (s_candidate top), so_usage = s_usage top,
                     so_score = s_score top, so_evaluated_at = now, so_revival_hint = hint\<rparr>)
                   (binding_for (c_alias (s_candidate top))))
      in if is_candidate_eligible (s_candidate top) (pw_safety w) then ready None
         else
           (case pick_revival_target (pw_rfc3339 w) (revival_candidates (pw_safety w) scored) of
              None \<Rightarrow>
                (if explicit_account_blocker (s_usage top) \<noteq> None then blocked_pool (s_usage top) else ready None)
            | Some target \<Rightarrow>
                and_then (ok_or [''revival target disappeared from scored candidates'']
                   (find (\<lambda>s. c_alias (s_candidate s) = target) scored)) (\<lambda>s.
                and_then (ok_or [''revival target has no reset card'']
                   (earliest_reset_credit (pw_rfc3339 w) (u_reset_credits (s_usage s)))) (\<lambda>credit.
                let approved = (case policy of DenyCard \<Rightarrow> False | PreApproved \<Rightarrow> True | PromptCard \<Rightarrow> pw_answer w)
                in if \<not> approved
                   then ready (Some \<lparr>rh_alias = target, rh_card_count = length (u_reset_credits (s_usage s))\<rparr>)
                   else map_ok (\<lambda>binding. PlanRevive \<lparr>pv_candidate = s_candidate s, pv_credit = credit,
                                pv_binding = binding, pv_safety = pw_safety w\<rparr>)
                          (binding_for (c_alias (s_candidate s)))))))"

definition plan_best_profile :: "plan_world \<Rightarrow> card_policy \<Rightarrow> selection_plan result" where
  "plan_best_profile w policy =
     and_then (selection_pool w) (\<lambda>(bindings, now, scored). decide_plan w policy bindings now scored)"

section \<open>Every account is considered once\<close>

lemma joined_names:
  "distinct (map fst names) \<Longrightarrow> distinct (map snd names) \<Longrightarrow> join_tasks tasks names = (outcomes, left, calls) \<Longrightarrow>
     distinct (map outcome_alias (filter (\<lambda>x. \<exists>a v. x = Completed a v) outcomes))
     \<and> (\<forall>a v. Completed a v \<in> set outcomes \<longrightarrow> a \<in> snd ` set names)"
proof (induction tasks names arbitrary: outcomes left calls rule: join_tasks.induct)
  case (2 task_id joined rest names)
  show ?case
  proof (cases "map_of names task_id")
    case None
    with "2" show ?thesis by (fastforce split: prod.splits)
  next
    case (Some b)
    let ?names = "filter (\<lambda>(k, _). k \<noteq> task_id) names"
    obtain os l c where os: "join_tasks rest ?names = (os, l, c)" by (metis prod_cases3)
    have names: "distinct (map fst ?names)" "distinct (map snd ?names)"
      using "2.prems" by (simp_all add: distinct_map inj_on_def)
    have b: "(task_id, b) \<in> set names" using Some by (rule map_of_SomeD)
    have "b \<notin> snd ` set ?names"
    proof
      assume "b \<in> snd ` set ?names"
      then obtain j where j: "(j, b) \<in> set names" "j \<noteq> task_id" by auto
      have "inj_on snd (set names)" using "2.prems"(2) by (simp add: distinct_map)
      from inj_onD [OF this _ j(1) b] j(2) show False by simp
    qed
    note fresh = this
    have below: "snd ` set ?names \<subseteq> snd ` set names" by auto
    note ih = "2.IH"(2) [OF Some names os]
    have outcomes: "outcomes = (case joined of Inr x \<Rightarrow> Completed b x | Inl e \<Rightarrow> Failed b (join_failure_detail e)) # os"
      using Some os "2.prems"(3) by (simp add: Let_def)
    have "b \<in> snd ` set names" using b by force
    with ih below fresh show ?thesis
      unfolding outcomes by (cases joined) (auto, blast+)
  qed
qed simp

lemma probed_once:
  "distinct (map outcome_alias (filter (\<lambda>x. \<exists>a v. x = Completed a v) outcomes)) \<Longrightarrow>
     distinct (map au_alias (List.map_filter (probed pending) outcomes))
     \<and> (\<forall>c\<in>set (List.map_filter (probed pending) outcomes). \<exists>v. Completed (au_alias c) v \<in> set outcomes)"
proof (induction outcomes)
  case (Cons x xs)
  show ?case
  proof (cases "probed pending x")
    case None
    with Cons show ?thesis
      by (cases x) (auto simp: List.map_filter_simps)
  next
    case (Some c)
    then obtain v where x: "x = Completed (au_alias c) v"
      by (auto simp: probed_def split: named_outcome.splits sum.splits option.splits)
    with Cons Some show ?thesis
      by (fastforce simp: List.map_filter_simps image_iff)
  qed
qed (simp add: List.map_filter_simps)

lemma drained_once:
  assumes "distinct names"
  shows "distinct (map outcome_alias (filter (\<lambda>x. \<exists>a v. x = Completed a v)
      (fst (drain_named_tasks tasks (enumerate 0 names)))))"
    and "Completed a v \<in> set (fst (drain_named_tasks tasks (enumerate 0 names))) \<Longrightarrow> a \<in> set names"
proof -
  obtain os left calls where j: "join_tasks tasks (enumerate 0 names) = (os, left, calls)" by (metis prod_cases3)
  have snd: "map snd (enumerate 0 names) = names" by simp
  have names: "distinct (map fst (enumerate 0 names))" "distinct (map snd (enumerate 0 names))"
    using assms by (simp, simp only: snd)
  note joined = joined_names [OF names j]
  let ?C = "\<lambda>x. \<exists>a v. x = Completed a v"
  let ?lost = "map (\<lambda>(_, a). Failed a ''batch ended before the registered worker returned'') left"
  have lost: "filter ?C ?lost = []" unfolding filter_empty_conv by auto
  have "filter ?C (fst (drain_named_tasks tasks (enumerate 0 names))) = sort_key outcome_alias (filter ?C os)"
    unfolding drain_named_tasks_def j Let_def prod.case fst_conv filter_sort filter_append lost by simp
  with joined show "distinct (map outcome_alias (filter ?C (fst (drain_named_tasks tasks (enumerate 0 names)))))"
    by (simp add: distinct_map)
  assume "Completed a v \<in> set (fst (drain_named_tasks tasks (enumerate 0 names)))"
  then have "Completed a v \<in> set os" by (auto simp: drain_named_tasks_def j Let_def)
  with joined have "a \<in> set (map snd (enumerate 0 names))" unfolding set_map by blast
  then show "a \<in> set names" by (simp only: snd)
qed

lemma preflight_names:
  "preflight_lookups lookups names = Inr (fetched, pending) \<Longrightarrow>
     mset (map au_alias fetched) + mset (map fst pending) = mset names"
  by (induction names arbitrary: fetched pending)
    (force simp: result_eq_Inr split: option.splits)+

lemma collected_once:
  assumes "collect_best_profile_usage lookups names finished = Inr cs" "distinct names"
  shows "distinct (map au_alias cs) \<and> set (map au_alias cs) \<subseteq> set names"
proof -
  obtain fetched pending where p: "preflight_lookups lookups names = Inr (fetched, pending)"
    using assms(1) by (auto simp: collect_best_profile_usage_def result_eq_Inr)
  let ?out = "fst (drain_named_tasks (finished pending) (enumerate 0 (map fst pending)))"
  have cs: "cs = fetched @ List.map_filter (probed pending) ?out"
    using assms(1) p by (auto simp: collect_best_profile_usage_def Let_def split: if_splits)
  have "mset (map au_alias fetched @ map fst pending) = mset names" using preflight_names [OF p] by simp
  with assms(2) have "distinct (map au_alias fetched @ map fst pending)"
    and names: "set (map au_alias fetched @ map fst pending) = set names"
    by (metis mset_eq_imp_distinct_iff, metis mset_eq_setD)
  then have split: "distinct (map au_alias fetched)" "distinct (map fst pending)"
    "set (map au_alias fetched) \<inter> set (map fst pending) = {}" by simp_all
  have once: "distinct (map au_alias (List.map_filter (probed pending) ?out))"
    using probed_once [OF drained_once(1) [OF split(2)]] by blast
  have "au_alias c \<in> set (map fst pending)" if "c \<in> set (List.map_filter (probed pending) ?out)" for c
    using probed_once [OF drained_once(1) [OF split(2), of "finished pending"], of pending]
      drained_once(2) [OF split(2), of _ _ "finished pending"] that by blast
  with once split names show ?thesis unfolding cs by auto
qed

lemma settled_names: "settle_probes outcomes cs = Inr ds \<Longrightarrow> map au_alias ds = map au_alias cs"
  by (induction outcomes cs arbitrary: ds rule: settle_probes.induct)
    (auto simp: result_eq_Inr settle_probe_def split: if_splits option.splits)

lemma published_names:
  "publish_auto_select_core_probes draw publish bindings cs = Inr ds \<Longrightarrow> map au_alias ds = map au_alias cs"
  by (auto simp: publish_auto_select_core_probes_def result_eq_Inr split: if_splits dest: settled_names)

lemma replaced_names:
  assumes "replace_enriched enriched cs = Inr ds"
  shows "map au_alias ds = map au_alias cs"
proof -
  have "au_alias (the_or c (find (\<lambda>e. au_alias e = au_alias c) enriched)) = au_alias c" for c
  proof (cases "find (\<lambda>e. au_alias e = au_alias c) enriched")
    case (Some e)
    then have "au_alias e = au_alias c" by (auto simp: find_Some_iff)
    with Some show ?thesis by simp
  qed simp
  with assms show ?thesis by (auto simp: replace_enriched_def split: if_splits)
qed

lemma enriched_names: "enrich_pool w names cs = Inr ds \<Longrightarrow> map au_alias ds = map au_alias cs"
  by (auto simp: enrich_pool_def Let_def result_eq_Inr split: if_splits dest: replaced_names)

section \<open>The order of the ranking\<close>

text \<open>With finite scores the comparison is that of a key.\<close>

fun finite_value :: "f64 \<Rightarrow> rat" where
  "finite_value (Fin r) = r"
| "finite_value _ = 0"

definition rank_key :: "f64 \<Rightarrow> scored_candidate \<Rightarrow> bool \<times> bool \<times> rat \<times> int \<times> string" where
  "rank_key safety s =
     (\<not> is_candidate_eligible (s_candidate s) safety, c_explicit_account_blocker (s_candidate s) \<noteq> None,
      - finite_value (s_score s), c_last_used (s_candidate s), c_alias (s_candidate s))"

lemma finite_between: "between a b x \<Longrightarrow> \<exists>r. x = Fin r"
  by (cases x) (auto simp: between_def)

lemma ranks_before_key:
  assumes "s_score a = Fin x" "s_score b = Fin y"
  shows "ranks_before safety a b \<longleftrightarrow> rank_key safety a < rank_key safety b"
  using assms by (auto simp: ranks_before_def rank_key_def Let_def less_prod_def less_eq_prod_def)

lemma insert_ranked_key:
  fixes key :: "'a \<Rightarrow> 'k::linorder"
  assumes "\<And>y. y \<in> set ys \<Longrightarrow> before y x \<longleftrightarrow> key y < key x"
  shows "insert_ranked before x ys = insort_key key x ys"
  using assms by (induction ys) (auto simp: not_le)

lemma sort_ranked_key:
  fixes key :: "'a \<Rightarrow> 'k::linorder"
  assumes "\<And>x y. x \<in> set xs \<Longrightarrow> y \<in> set xs \<Longrightarrow> before x y \<longleftrightarrow> key x < key y"
  shows "sort_ranked before xs = sort_key key xs"
  using assms
proof (induction xs)
  case (Cons x xs)
  then have "sort_ranked before xs = sort_key key xs" by simp
  moreover have "insert_ranked before x (sort_key key xs) = insort_key key x (sort_key key xs)"
    by (rule insert_ranked_key) (use Cons.prems in simp)
  ultimately show ?case by (simp add: sort_ranked_def)
qed (simp add: sort_ranked_def)

text \<open>What ranking yields: the pool, each account with its quota or its blocker, the best first.\<close>

definition ranked_pool :: "f64 \<Rightarrow> scored_candidate list \<Rightarrow> bool" where
  "ranked_pool safety scored \<longleftrightarrow> scored \<noteq> [] \<and> sorted (map (rank_key safety) scored)
     \<and> distinct (map (c_alias \<circ> s_candidate) scored)
     \<and> (\<forall>s\<in>set scored. (\<exists>r. s_score s = Fin r)
          \<and> (has_required_quota_data (s_candidate s) \<or> c_explicit_account_blocker (s_candidate s) \<noteq> None))"

lemma scored_ranked:
  assumes "score_profile_candidates_with_info history info_of fetched now safety team = Inr scored"
    and "between 0 100 safety" "distinct (map fst fetched)"
  shows "ranked_pool safety scored"
proof -
  let ?good = "\<lambda>s. has_required_quota_data (s_candidate s) \<or> c_explicit_account_blocker (s_candidate s) \<noteq> None"
  obtain last_used items where items:
    "collect_results (\<lambda>(name, u). map_ok (\<lambda>info. (name, u, info, the_or 0 (last_used name)))
        (ok_or [''profile '' @ quoted name @ '' disappeared from the auto-select snapshot''] (info_of name))) fetched = Inr items"
    and ne: "filter ?good (score_candidates items now safety team) \<noteq> []"
    and ranked: "scored = sort_ranked (ranks_before safety) (filter ?good (score_candidates items now safety team))"
    using assms(1) by (auto simp: score_profile_candidates_with_info_def result_eq_Inr Let_def split: if_splits)
  let ?pool = "filter ?good (score_candidates items now safety team)"
  have fin: "\<exists>r. s_score s = Fin r" if "s \<in> set ?pool" for s
    using scored_between [OF assms(2), of s items now team] that finite_between by auto
  have "sort_ranked (ranks_before safety) ?pool = sort_key (rank_key safety) ?pool"
  proof (rule sort_ranked_key)
    fix a b
    assume "a \<in> set ?pool" "b \<in> set ?pool"
    with fin obtain x y where "s_score a = Fin x" "s_score b = Fin y" by metis
    then show "ranks_before safety a b \<longleftrightarrow> rank_key safety a < rank_key safety b" by (rule ranks_before_key)
  qed
  with ranked have sorted: "scored = sort_key (rank_key safety) ?pool" by simp
  have "map fst items = map fst fetched"
    using items unfolding collect_results_eq_Inr
    by (induction rule: list_all2_induct) (auto simp: result_eq_Inr)
  then have "map (c_alias \<circ> s_candidate) (score_candidates items now safety team) = map fst fetched"
    by (simp add: score_candidates_eq Let_def comp_def)
  with assms(3) have "distinct (map (c_alias \<circ> s_candidate) (score_candidates items now safety team))" by simp
  then have "distinct (map (c_alias \<circ> s_candidate) ?pool)" by (rule distinct_map_filter)
  then have names: "distinct (map (c_alias \<circ> s_candidate) scored)"
    unfolding sorted by (simp add: distinct_map)
  have all: "set scored = set ?pool" unfolding sorted by simp
  then have "scored \<noteq> []" using ne by force
  moreover have "(\<exists>r. s_score s = Fin r) \<and> ?good s" if "s \<in> set scored" for s
    using that all fin by (simp only: set_filter mem_Collect_eq)
  moreover have "List.sorted (map (rank_key safety) scored)" unfolding sorted by (rule sorted_sort_key)
  ultimately show ?thesis
    using names unfolding ranked_pool_def by blast
qed

lemma ranked_top:
  assumes "ranked_pool safety scored" "s \<in> set scored"
  shows "is_candidate_eligible (s_candidate s) safety \<Longrightarrow>
      is_candidate_eligible (s_candidate (hd scored)) safety \<and> \<not> f64_lt (s_score (hd scored)) (s_score s)"
proof -
  obtain t rest where scored: "scored = t # rest" using assms(1) by (cases scored) (auto simp: ranked_pool_def)
  have le: "rank_key safety t \<le> rank_key safety s"
    using assms scored by (auto simp: ranked_pool_def)
  obtain x y where fin: "s_score t = Fin x" "s_score s = Fin y"
    using assms scored unfolding ranked_pool_def by (metis list.set_intros(1))
  assume "is_candidate_eligible (s_candidate s) safety"
  with le have t: "is_candidate_eligible (s_candidate t) safety"
    by (auto simp: rank_key_def)
  have unblocked: "c_explicit_account_blocker c = None" if "is_candidate_eligible c safety" for c
    using that by (simp add: eligible_iff account_limit_active_def)
  from le fin unblocked [OF t] unblocked [OF \<open>is_candidate_eligible (s_candidate s) safety\<close>] t
    \<open>is_candidate_eligible (s_candidate s) safety\<close>
  have "y \<le> x" by (auto simp: rank_key_def)
  with t fin scored show ?thesis by simp
qed

section \<open>The choice\<close>

lemma plan_pool:
  assumes "selection_pool w = Inr (bindings, now, scored)"
    and "between 0 100 (pw_safety w)"
    and names: "\<And>accounts. pw_accounts w = Inr accounts \<Longrightarrow> distinct (map fst accounts)"
  shows "ranked_pool (pw_safety w) scored"
proof -
  obtain accounts where accounts: "pw_accounts w = Inr accounts"
    using assms(1) by (auto simp: selection_pool_def result_eq_Inr split: if_splits)
  obtain lookups probes bound collected now' first where
    collect: "collect_best_profile_usage lookups (map fst accounts) (pw_probes w) = Inr probes"
    and publish: "publish_auto_select_core_probes (pw_draw w) (pw_publish w) (map_of bound) probes = Inr collected"
    and scored: "score_profile_candidates_with_info (pw_first_history w) (map_of accounts)
          (auto_select_scoring_input collected) now' (pw_safety w) (pw_team w) = Inr first"
    and rest: "first = scored \<or> (\<exists>ns enriched now''. enrich_pool w ns collected = Inr enriched
        \<and> score_profile_candidates_with_info (pw_second_history w) (map_of accounts)
          (auto_select_scoring_input enriched) now'' (pw_safety w) (pw_team w) = Inr scored)"
    using assms(1) accounts
    by (auto simp: selection_pool_def result_eq_Inr Let_def blocked_pool_def split: if_splits) blast+
  have "distinct (map au_alias collected)"
    using collected_once [OF collect names [OF accounts]] published_names [OF publish] by simp
  then have one: "distinct (map fst (auto_select_scoring_input collected))"
    by (simp add: auto_select_scoring_input_def comp_def)
  from rest show ?thesis
  proof
    assume "first = scored"
    with scored_ranked [OF scored assms(2) one] show ?thesis by simp
  next
    assume "\<exists>ns enriched now''. enrich_pool w ns collected = Inr enriched
        \<and> score_profile_candidates_with_info (pw_second_history w) (map_of accounts)
          (auto_select_scoring_input enriched) now'' (pw_safety w) (pw_team w) = Inr scored"
    then obtain ns enriched now'' where enriched: "enrich_pool w ns collected = Inr enriched"
      and again: "score_profile_candidates_with_info (pw_second_history w) (map_of accounts)
          (auto_select_scoring_input enriched) now'' (pw_safety w) (pw_team w) = Inr scored" by blast
    have "distinct (map fst (auto_select_scoring_input enriched))"
      using \<open>distinct (map au_alias collected)\<close> enriched_names [OF enriched]
      by (simp add: auto_select_scoring_input_def comp_def)
    with again assms(2) show ?thesis by (rule scored_ranked)
  qed
qed

text \<open>Preferring one card holder is a strict order, whatever the scores.\<close>

interpretation revival_rank: ranking "\<lambda>a b. revives_before rfc3339 b a" for rfc3339
proof unfold_locales
  show "\<not> revives_before rfc3339 k k" for k
    by (simp add: revives_before_def f64_rank.lt_irrefl)
  show "revives_before rfc3339 c a" if "revives_before rfc3339 b a" "revives_before rfc3339 c b" for a b c
    using that f64_rank.lt_trans by (auto simp: revives_before_def Let_def split: if_splits)
qed

lemma member_map_filter: "y \<in> set (List.map_filter f xs) \<longleftrightarrow> (\<exists>x\<in>set xs. f x = Some y)"
  by (induction xs) (auto simp: List.map_filter_simps split: option.splits)

lemma card_holders_iff:
  "(d, other) \<in> set (card_holders rfc3339 candidates) \<longleftrightarrow>
     d \<in> set candidates \<and> \<not> rv_eligible d \<and> earliest_reset_credit rfc3339 (rv_credits d) = Some other"
  by (cases "rv_credits d") (auto simp: card_holders_def member_map_filter earliest_reset_credit_def)

lemma revival_target:
  assumes "pick_revival_target rfc3339 candidates = Some target"
  obtains c credit where "c \<in> set candidates" "rv_alias c = target" "\<not> rv_eligible c"
    "earliest_reset_credit rfc3339 (rv_credits c) = Some credit"
    "\<And>d other. d \<in> set candidates \<Longrightarrow> \<not> rv_eligible d
       \<Longrightarrow> earliest_reset_credit rfc3339 (rv_credits d) = Some other
       \<Longrightarrow> \<not> revives_before rfc3339 (d, other) (c, credit)"
proof -
  obtain m where m: "first_best (\<lambda>a b. revives_before rfc3339 b a) id (card_holders rfc3339 candidates) = Some m"
    and target: "rv_alias (fst m) = target"
    using assms by (auto simp: pick_revival_target_def)
  obtain c credit where c: "m = (c, credit)" by (cases m)
  note best = revival_rank.first_best_spec [OF m, unfolded c id_apply]
  show ?thesis
  proof (rule that [of c credit])
    show "c \<in> set candidates" "\<not> rv_eligible c" "earliest_reset_credit rfc3339 (rv_credits c) = Some credit"
      using best card_holders_iff by blast+
    show "rv_alias c = target" using target c by simp
    fix d other
    assume "d \<in> set candidates" "\<not> rv_eligible d" "earliest_reset_credit rfc3339 (rv_credits d) = Some other"
    then show "\<not> revives_before rfc3339 (d, other) (c, credit)" using best card_holders_iff by blast
  qed
qed

lemma no_revival_target:
  assumes "pick_revival_target rfc3339 candidates = None" "d \<in> set candidates" "\<not> rv_eligible d"
  shows "earliest_reset_credit rfc3339 (rv_credits d) = None"
proof (rule ccontr)
  assume "earliest_reset_credit rfc3339 (rv_credits d) \<noteq> None"
  then obtain other where "(d, other) \<in> set (card_holders rfc3339 candidates)"
    using assms(2,3) card_holders_iff by blast
  then have "card_holders rfc3339 candidates \<noteq> []" by auto
  then show False using assms(1) by (simp add: pick_revival_target_def first_best_None)
qed

text \<open>
  What a plan owes its pool. An account to use is one of the pool under its snapshot binding, and
  is the top of the ranking: eligible accounts first, then those without a blocker, then the higher
  score, the less recently used and the smaller alias. So it is the best of the eligible accounts
  if there is any, and otherwise the top-ranked fallback; the plan then carries a hint exactly
  when an account could be revived but the card was not allowed, and the hint names that account
  with the number of its cards. An account to revive is planned only when nobody is eligible and
  the card was allowed.
\<close>

definition card_allowed :: "plan_world \<Rightarrow> card_policy \<Rightarrow> bool" where
  "card_allowed w policy \<longleftrightarrow> policy = PreApproved \<or> policy = PromptCard \<and> pw_answer w"

text \<open>
  The account to revive and its card: not blocked, and of all the unblocked accounts with a card
  the one whose card expires first, with the most cards and then the highest score on a tie.
\<close>

definition chosen_card :: "plan_world \<Rightarrow> scored_candidate list \<Rightarrow> scored_candidate \<Rightarrow> reset_credit \<Rightarrow> bool" where
  "chosen_card w scored s credit \<longleftrightarrow>
     s \<in> set scored \<and> explicit_account_blocker (s_usage s) = None
     \<and> earliest_reset_credit (pw_rfc3339 w) (u_reset_credits (s_usage s)) = Some credit
     \<and> (\<forall>t\<in>set scored. explicit_account_blocker (s_usage t) = None \<longrightarrow>
          (\<forall>other. earliest_reset_credit (pw_rfc3339 w) (u_reset_credits (s_usage t)) = Some other \<longrightarrow>
             (let ks = reset_credit_expiry_sort_key (pw_rfc3339 w) credit;
                  kt = reset_credit_expiry_sort_key (pw_rfc3339 w) other;
                  ns = length (u_reset_credits (s_usage s)); nt = length (u_reset_credits (s_usage t))
              in ks < kt \<or> ks = kt \<and> (nt < ns \<or> nt = ns \<and> \<not> f64_lt (s_score s) (s_score t)))))"

definition admissible_plan ::
  "plan_world \<Rightarrow> card_policy \<Rightarrow> (string \<Rightarrow> strict_account_binding option) \<Rightarrow> i64 \<Rightarrow> scored_candidate list \<Rightarrow> selection_plan \<Rightarrow> bool" where
  "admissible_plan w policy bindings now scored plan =
     (case plan of
        PlanReady outcome binding \<Rightarrow>
          so_evaluated_at outcome = now \<and> bindings (so_alias outcome) = Some binding
          \<and> (\<exists>s\<in>set scored. c_alias (s_candidate s) = so_alias outcome \<and> s_usage s = so_usage outcome
               \<and> s_score s = so_score outcome
               \<and> (\<forall>t\<in>set scored. rank_key (pw_safety w) s \<le> rank_key (pw_safety w) t)
               \<and> (\<forall>t\<in>set scored. is_candidate_eligible (s_candidate t) (pw_safety w) \<longrightarrow>
                    is_candidate_eligible (s_candidate s) (pw_safety w) \<and> \<not> f64_lt (s_score s) (s_score t)))
          \<and> (case so_revival_hint outcome of
               None \<Rightarrow>
                 (\<exists>t\<in>set scored. is_candidate_eligible (s_candidate t) (pw_safety w))
                 \<or> explicit_account_blocker (so_usage outcome) = None \<and> (\<nexists>s credit. chosen_card w scored s credit)
             | Some hint \<Rightarrow>
                 (\<forall>t\<in>set scored. \<not> is_candidate_eligible (s_candidate t) (pw_safety w))
                 \<and> \<not> card_allowed w policy
                 \<and> (\<exists>s credit. chosen_card w scored s credit \<and> rh_alias hint = c_alias (s_candidate s)
                      \<and> rh_card_count hint = length (u_reset_credits (s_usage s))))
      | PlanRevive p \<Rightarrow>
          (\<forall>t\<in>set scored. \<not> is_candidate_eligible (s_candidate t) (pw_safety w))
          \<and> card_allowed w policy
          \<and> bindings (c_alias (pv_candidate p)) = Some (pv_binding p) \<and> pv_safety p = pw_safety w
          \<and> (\<exists>s. chosen_card w scored s (pv_credit p) \<and> s_candidate s = pv_candidate p))"

lemma find_by_alias:
  "distinct (map (c_alias \<circ> s_candidate) scored) \<Longrightarrow> s \<in> set scored
     \<Longrightarrow> find (\<lambda>t. c_alias (s_candidate t) = c_alias (s_candidate s)) scored = Some s"
  by (induction scored) (auto simp: image_iff)

lemma ranked_first:
  assumes "ranked_pool safety scored" "t \<in> set scored"
  shows "rank_key safety (hd scored) \<le> rank_key safety t"
  using assms by (cases scored) (auto simp: ranked_pool_def)

lemma decide_ready:
  assumes "ranked_pool (pw_safety w) scored" "bindings (c_alias (s_candidate (hd scored))) = Some binding"
    and "so_alias outcome = c_alias (s_candidate (hd scored))" "so_usage outcome = s_usage (hd scored)"
      "so_score outcome = s_score (hd scored)" "so_evaluated_at outcome = now"
    and "case so_revival_hint outcome of
           None \<Rightarrow>
             (\<exists>t\<in>set scored. is_candidate_eligible (s_candidate t) (pw_safety w))
             \<or> explicit_account_blocker (so_usage outcome) = None \<and> (\<nexists>s credit. chosen_card w scored s credit)
         | Some hint \<Rightarrow>
             (\<forall>t\<in>set scored. \<not> is_candidate_eligible (s_candidate t) (pw_safety w))
             \<and> \<not> card_allowed w policy
             \<and> (\<exists>s credit. chosen_card w scored s credit \<and> rh_alias hint = c_alias (s_candidate s)
                  \<and> rh_card_count hint = length (u_reset_credits (s_usage s)))"
  shows "admissible_plan w policy bindings now scored (PlanReady outcome binding)"
proof -
  have "hd scored \<in> set scored" using assms(1) by (simp add: ranked_pool_def)
  moreover have "is_candidate_eligible (s_candidate (hd scored)) (pw_safety w) \<and> \<not> f64_lt (s_score (hd scored)) (s_score t)"
    if "t \<in> set scored" "is_candidate_eligible (s_candidate t) (pw_safety w)" for t
    using ranked_top [OF assms(1) that] .
  moreover note ranked_first [OF assms(1)]
  ultimately have "\<exists>s\<in>set scored. c_alias (s_candidate s) = so_alias outcome \<and> s_usage s = so_usage outcome
     \<and> s_score s = so_score outcome
     \<and> (\<forall>t\<in>set scored. rank_key (pw_safety w) s \<le> rank_key (pw_safety w) t)
     \<and> (\<forall>t\<in>set scored. is_candidate_eligible (s_candidate t) (pw_safety w) \<longrightarrow>
          is_candidate_eligible (s_candidate s) (pw_safety w) \<and> \<not> f64_lt (s_score s) (s_score t))"
    using assms(3-5) by (intro bexI [of _ "hd scored"]) simp_all
  then show ?thesis
    unfolding admissible_plan_def selection_plan.case using assms(2,3,6,7) by simp
qed

lemma nobody_eligible:
  assumes "ranked_pool safety scored" "\<not> is_candidate_eligible (s_candidate (hd scored)) safety" "t \<in> set scored"
  shows "\<not> is_candidate_eligible (s_candidate t) safety"
  using ranked_top [OF assms(1,3)] assms(2) by blast

lemma not_revives_before:
  "\<not> revives_before rfc3339 (d, other) (c, credit) \<Longrightarrow>
     (let ks = reset_credit_expiry_sort_key rfc3339 credit; kt = reset_credit_expiry_sort_key rfc3339 other;
          ns = length (rv_credits c); nt = length (rv_credits d)
      in ks < kt \<or> ks = kt \<and> (nt < ns \<or> nt = ns \<and> \<not> f64_lt (rv_score c) (rv_score d)))"
  by (auto simp: revives_before_def Let_def split: if_splits)

text \<open>The account that \<open>pick_revival_target\<close> names is the chosen one, and without a name there is none.\<close>

lemma picked_card:
  assumes ranked: "ranked_pool (pw_safety w) scored"
    and nobody: "\<not> is_candidate_eligible (s_candidate (hd scored)) (pw_safety w)"
    and target: "pick_revival_target (pw_rfc3339 w) (revival_candidates (pw_safety w) scored) = Some target"
    and found: "find (\<lambda>s. c_alias (s_candidate s) = target) scored = Some s"
    and credit: "earliest_reset_credit (pw_rfc3339 w) (u_reset_credits (s_usage s)) = Some credit"
  shows "chosen_card w scored s credit \<and> c_alias (s_candidate s) = target"
proof -
  let ?all = "revival_candidates (pw_safety w) scored"
  from target obtain c chosen where c: "c \<in> set ?all" "rv_alias c = target"
    "earliest_reset_credit (pw_rfc3339 w) (rv_credits c) = Some chosen"
    and least: "\<And>d other. d \<in> set ?all \<Longrightarrow> \<not> rv_eligible d
       \<Longrightarrow> earliest_reset_credit (pw_rfc3339 w) (rv_credits d) = Some other
       \<Longrightarrow> \<not> revives_before (pw_rfc3339 w) (d, other) (c, chosen)"
    by (rule revival_target) blast
  from c(1) obtain t where t: "t \<in> set scored" "explicit_account_blocker (s_usage t) = None"
    "rv_alias c = c_alias (s_candidate t)" "rv_credits c = u_reset_credits (s_usage t)" "rv_score c = s_score t"
    by (auto simp: revival_candidates_def)
  have "find (\<lambda>s. c_alias (s_candidate s) = target) scored = Some t"
    using find_by_alias [OF _ t(1)] ranked t(3) c(2) by (simp add: ranked_pool_def)
  with found have s: "s = t" by simp
  with c(3) credit t(4) have chosen: "chosen = credit" by simp
  have "\<not> revives_before (pw_rfc3339 w) (\<lparr>rv_alias = c_alias (s_candidate e), rv_eligible = False,
        rv_score = s_score e, rv_credits = u_reset_credits (s_usage e)\<rparr>, other) (c, credit)"
    if "e \<in> set scored" "explicit_account_blocker (s_usage e) = None"
      "earliest_reset_credit (pw_rfc3339 w) (u_reset_credits (s_usage e)) = Some other" for e other
    using least [of "\<lparr>rv_alias = c_alias (s_candidate e), rv_eligible = False, rv_score = s_score e,
        rv_credits = u_reset_credits (s_usage e)\<rparr>" other] that nobody_eligible [OF ranked nobody that(1)] chosen
    by (auto simp: revival_candidates_def image_iff)
  from not_revives_before [OF this] show ?thesis
    unfolding chosen_card_def using s t credit c(2) by simp
qed

lemma unpicked_card:
  assumes "ranked_pool (pw_safety w) scored"
    and "\<not> is_candidate_eligible (s_candidate (hd scored)) (pw_safety w)"
    and "pick_revival_target (pw_rfc3339 w) (revival_candidates (pw_safety w) scored) = None"
  shows "\<nexists>s credit. chosen_card w scored s credit"
proof clarify
  fix s credit
  assume s: "chosen_card w scored s credit"
  let ?c = "\<lparr>rv_alias = c_alias (s_candidate s), rv_eligible = is_candidate_eligible (s_candidate s) (pw_safety w),
      rv_score = s_score s, rv_credits = u_reset_credits (s_usage s)\<rparr>"
  have "?c \<in> set (revival_candidates (pw_safety w) scored)"
    using s by (auto simp: chosen_card_def revival_candidates_def)
  from no_revival_target [OF assms(3) this] nobody_eligible [OF assms(1,2)] s show False
    by (simp add: chosen_card_def)
qed

lemma decided_admissible:
  assumes ranked: "ranked_pool (pw_safety w) scored"
    and plan: "decide_plan w policy bindings now scored = Inr plan"
  shows "admissible_plan w policy bindings now scored plan"
proof (cases "is_candidate_eligible (s_candidate (hd scored)) (pw_safety w)")
  case True
  have "hd scored \<in> set scored" using ranked by (simp add: ranked_pool_def)
  with plan True obtain binding where "bindings (c_alias (s_candidate (hd scored))) = Some binding"
    "plan = PlanReady \<lparr>so_alias = c_alias (s_candidate (hd scored)), so_usage = s_usage (hd scored),
       so_score = s_score (hd scored), so_evaluated_at = now, so_revival_hint = None\<rparr> binding"
    by (auto simp: decide_plan_def Let_def result_eq_Inr)
  with ranked True \<open>hd scored \<in> set scored\<close> show ?thesis
    by (auto intro!: decide_ready)
next
  case nobody: False
  show ?thesis
  proof (cases "pick_revival_target (pw_rfc3339 w) (revival_candidates (pw_safety w) scored)")
    case None
    with plan nobody obtain binding where "bindings (c_alias (s_candidate (hd scored))) = Some binding"
      "explicit_account_blocker (s_usage (hd scored)) = None"
      "plan = PlanReady \<lparr>so_alias = c_alias (s_candidate (hd scored)), so_usage = s_usage (hd scored),
         so_score = s_score (hd scored), so_evaluated_at = now, so_revival_hint = None\<rparr> binding"
      by (auto simp: decide_plan_def Let_def blocked_pool_def result_eq_Inr split: if_splits)
    with ranked unpicked_card [OF ranked nobody None] show ?thesis by (auto intro!: decide_ready)
  next
    case (Some target)
    with plan nobody obtain s credit where s: "find (\<lambda>s. c_alias (s_candidate s) = target) scored = Some s"
      "earliest_reset_credit (pw_rfc3339 w) (u_reset_credits (s_usage s)) = Some credit"
      by (auto simp: decide_plan_def Let_def result_eq_Inr)
    note card = picked_card [OF ranked nobody Some s]
    show ?thesis
    proof (cases "card_allowed w policy")
      case True
      then have "(case policy of DenyCard \<Rightarrow> False | PreApproved \<Rightarrow> True | PromptCard \<Rightarrow> pw_answer w)"
        by (auto simp: card_allowed_def)
      with plan nobody Some s obtain binding where "bindings (c_alias (s_candidate s)) = Some binding"
        "plan = PlanRevive \<lparr>pv_candidate = s_candidate s, pv_credit = credit, pv_binding = binding,
           pv_safety = pw_safety w\<rparr>"
        by (auto simp: decide_plan_def Let_def result_eq_Inr)
      with card True nobody_eligible [OF ranked nobody] show ?thesis
        by (auto simp: admissible_plan_def)
    next
      case False
      then have "\<not> (case policy of DenyCard \<Rightarrow> False | PreApproved \<Rightarrow> True | PromptCard \<Rightarrow> pw_answer w)"
        by (auto simp: card_allowed_def split: card_policy.splits)
      with plan nobody Some s obtain binding where "bindings (c_alias (s_candidate (hd scored))) = Some binding"
        "plan = PlanReady \<lparr>so_alias = c_alias (s_candidate (hd scored)), so_usage = s_usage (hd scored),
           so_score = s_score (hd scored), so_evaluated_at = now,
           so_revival_hint = Some \<lparr>rh_alias = target, rh_card_count = length (u_reset_credits (s_usage s))\<rparr>\<rparr> binding"
        by (auto simp: decide_plan_def Let_def result_eq_Inr)
      with ranked card False nobody_eligible [OF ranked nobody] show ?thesis
        by (auto intro!: decide_ready exI [of _ s] exI [of _ credit])
    qed
  qed
qed

lemma set_insert_ranked: "set (insert_ranked earlier x ys) = insert x (set ys)"
  by (induction ys) auto

lemma set_sort_ranked: "set (sort_ranked earlier xs) = set xs"
  by (induction xs) (auto simp: sort_ranked_def set_insert_ranked)

definition demo_world :: plan_world where
  "demo_world =
     \<lparr>pw_accounts = Inr [(''a'', demo_account\<lparr>ai_email := Some ''a@x'', ai_account_id := Some ''1''\<rparr>),
                        (''b'', demo_account\<lparr>ai_email := Some ''b@x'', ai_account_id := Some ''2''\<rparr>)],
      pw_lookups = (\<lambda>_. Inr (\<lambda>name. Some
        \<lparr>lk_usage = Some (demo_usage (if name = ''a'' then 100 else 20)), lk_reset_metadata_complete = True,
         lk_baseline = \<lparr>bl_alias = name, bl_serialized_entry = None, bl_mutation = None\<rparr>\<rparr>)),
      pw_client = Inr (), pw_probes = (\<lambda>_. []), pw_draw = (\<lambda>_. (''r'', ''m'')), pw_publish = (\<lambda>_. Inr []),
      pw_first_clock = Inr 1000, pw_first_history = Inr (\<lambda>_. None), pw_details = (\<lambda>_. []),
      pw_second_clock = Inr 1000, pw_second_history = Inr (\<lambda>_. None), pw_safety = Fin 20, pw_team = False,
      pw_rfc3339 = (\<lambda>_. None), pw_answer = False\<rparr>"

text \<open>
  C13. The plan of \<open>best\<close> is admissible for the pool it ranked. The account it names comes with the
  identity of the snapshot and the time of the ranking and is the top of the ranking: the best of
  the eligible accounts if there is one, else the fallback that \<open>best\<close> reports, the unblocked
  account with the highest score. A fallback carries a hint exactly when some account could be
  revived and the card was not allowed, naming that account and its number of cards. A card is
  planned only for an exhausted pool and with consent, on the unblocked account whose card expires
  first (the most cards and then the highest score deciding a tie).
\<close>

theorem plan_is_admissible:
  assumes "plan_best_profile w policy = Inr plan" and "between 0 100 (pw_safety w)"
    and "\<And>accounts. pw_accounts w = Inr accounts \<Longrightarrow> distinct (map fst accounts)"
  shows "\<exists>bindings now scored. selection_pool w = Inr (bindings, now, scored)
    \<and> admissible_plan w policy bindings now scored plan"
proof -
  obtain bindings now scored where pool: "selection_pool w = Inr (bindings, now, scored)"
    and plan: "decide_plan w policy bindings now scored = Inr plan"
    using assms(1) by (auto simp: plan_best_profile_def result_eq_Inr)
  from decided_admissible [OF plan_pool [OF pool assms(2,3)] plan] pool show ?thesis by blast
qed

lemma plan_is_admissible_witness:
  "\<exists>outcome binding bindings now scored.
     plan_best_profile demo_world PromptCard = Inr (PlanReady outcome binding)
     \<and> selection_pool demo_world = Inr (bindings, now, scored)
     \<and> admissible_plan demo_world PromptCard bindings now scored (PlanReady outcome binding)"
proof -
  let ?a = "demo_account\<lparr>ai_email := Some ''a@x'', ai_account_id := Some ''1''\<rparr>"
  let ?b = "demo_account\<lparr>ai_email := Some ''b@x'', ai_account_id := Some ''2''\<rparr>"
  let ?fetched = "[(''a'', demo_usage 100), (''b'', demo_usage 20)]"
  define pool where "pool = filter (\<lambda>s. has_required_quota_data (s_candidate s)
      \<or> c_explicit_account_blocker (s_candidate s) \<noteq> None)
    (score_candidates [(''a'', demo_usage 100, ?a, 0), (''b'', demo_usage 20, ?b, 0)] 1000 (Fin 20) False)"
  define scored where "scored = sort_ranked (ranks_before (Fin 20)) pool"
  have "list_ex (\<lambda>s. is_candidate_eligible (s_candidate s) (Fin 20)) pool"
    unfolding pool_def by code_simp
  then obtain s where s: "s \<in> set pool" "is_candidate_eligible (s_candidate s) (Fin 20)"
    by (auto simp: list_ex_iff)
  then have ne: "pool \<noteq> []" by auto
  have "score_profile_candidates_with_info (Inr (\<lambda>_. None)) (map_of [(''a'', ?a), (''b'', ?b)]) ?fetched 1000 (Fin 20) False
      = (if pool = [] then bail ''no profile has complete authoritative quota data for automatic selection'' else Inr scored)"
    unfolding score_profile_candidates_with_info_def pool_def scored_def by (simp add: Let_def)
  with ne have ranking: "score_profile_candidates_with_info (Inr (\<lambda>_. None)) (map_of [(''a'', ?a), (''b'', ?b)])
      ?fetched 1000 (Fin 20) False = Inr scored" by simp
  have ranked: "ranked_pool (Fin 20) scored"
    using scored_ranked [OF ranking] by (simp add: between_def)
  have "s \<in> set scored" unfolding scored_def set_sort_ranked using s(1) .
  with ranked_top [OF ranked _ s(2)] have top: "is_candidate_eligible (s_candidate (hd scored)) (Fin 20)" by blast
  have bound: "strict_binding ?a = Some \<lparr>sb_account_id = ''1'', sb_email = ''a@x''\<rparr>"
    "strict_binding ?b = Some \<lparr>sb_account_id = ''2'', sb_email = ''b@x''\<rparr>" by code_simp+
  let ?bindings = "map_of [(''a'', \<lparr>sb_account_id = ''1'', sb_email = ''a@x''\<rparr>),
      (''b'', \<lparr>sb_account_id = ''2'', sb_email = ''b@x''\<rparr>)]"
  have chosen: "selection_pool demo_world = Inr (?bindings, 1000, scored)"
    using ranking top by (simp add: selection_pool_def demo_world_def bound Let_def
        collect_best_profile_usage_def drain_named_tasks_def publish_auto_select_core_probes_def
        auto_select_scoring_input_def)
  have "hd scored \<in> set pool"
    using hd_in_set [of scored] ne set_sort_ranked [of "ranks_before (Fin 20)" pool]
    unfolding scored_def by force
  then have "c_alias (s_candidate (hd scored)) \<in> {''a'', ''b''}"
    unfolding pool_def by (auto dest: scored_item)
  then have bound_top: "\<exists>binding. ?bindings (c_alias (s_candidate (hd scored))) = Some binding" by auto
  obtain outcome binding where plan: "plan_best_profile demo_world PromptCard = Inr (PlanReady outcome binding)"
    using chosen top bound_top
    by (auto simp: plan_best_profile_def decide_plan_def Let_def demo_world_def simp del: map_of.simps)
  with plan_is_admissible [OF plan] show ?thesis
    by (auto simp: demo_world_def between_def)
qed

end
