(* ===== verification/Best_Command.thy ===== *)
theory Best_Command
  imports Best_Selection Usage_Request
begin

text \<open>
  Carrying out the plan of \<open>best\<close> (\<open>src/src/commands/profile.rs\<close>): the switch to the planned
  account, and the revival of an exhausted one with a reset card, from the last look at its quota
  to the activation (\<open>src/src/usage/reset_credits.rs\<close> for the card itself).

  The state is the link of the usage requests, with the profiles and the live credential behind
  it, and the card requests that were sent. What the planning did to the profiles came before.
  Whether a value is printed as JSON or as text is not modelled.
\<close>

section \<open>Errands\<close>

record till =
  ti_link :: "desk link"
  ti_cards :: "consume_request list"

datatype best_error =
    Failing failure
  | ConsumedUnconfirmed string string
  | CardOutcomeUnknown string string
  | ConsumedNotActivated string best_error

type_synonym 'a errand = "till \<Rightarrow> (best_error + 'a) \<times> till"

definition errand_give :: "'a \<Rightarrow> 'a errand" where
  "errand_give x t = (Inr x, t)"

definition errand_fail :: "best_error \<Rightarrow> 'a errand" where
  "errand_fail e t = (Inl e, t)"

definition errand_bail :: "string \<Rightarrow> 'a errand" where
  "errand_bail m = errand_fail (Failing (plain [m]))"

definition errand_lift :: "'a result \<Rightarrow> 'a errand" where
  "errand_lift r = (case r of Inl e \<Rightarrow> errand_fail (Failing (plain e)) | Inr x \<Rightarrow> errand_give x)"

definition errand_then :: "'a errand \<Rightarrow> ('a \<Rightarrow> 'b errand) \<Rightarrow> 'b errand" where
  "errand_then m f t = (case m t of (Inl e, t') \<Rightarrow> (Inl e, t') | (Inr x, t') \<Rightarrow> f x t')"

definition errand_tried :: "'a errand \<Rightarrow> (best_error + 'a) errand" where
  "errand_tried m t = (case m t of (r, t') \<Rightarrow> (Inr r, t'))"

text \<open>An action on the profiles, and a request of the usage module.\<close>

definition at_profiles :: "'a action \<Rightarrow> 'a errand" where
  "at_profiles m t =
     (case at_desk m (ln_local (ti_link t)) of
        (r, d) \<Rightarrow> (map_err Failing r, t\<lparr>ti_link := (ti_link t)\<lparr>ln_local := d\<rparr>\<rparr>))"

definition asking_usage :: "string \<Rightarrow> (desk link \<Rightarrow> 'a reply_of) \<Rightarrow> 'a errand" where
  "asking_usage c m t =
     (case m (ti_link t) of (r, l) \<Rightarrow> (map_err (\<lambda>e. Failing (plain [c, ue_detail e])) r, t\<lparr>ti_link := l\<rparr>))"

definition holding_lease :: "string \<Rightarrow> 'a errand \<Rightarrow> 'a errand" where
  "holding_lease name m =
     errand_then (at_profiles (acquire_profile_lease name)) (\<lambda>_ t.
       case m t of (r, t') \<Rightarrow> (r, t'\<lparr>ti_link := release_lease name (ti_link t')\<rparr>))"

section \<open>Consuming the card\<close>

record prepared_consume =
  pc_alias :: string
  pc_access_token :: string
  pc_account_id :: "string option"
  pc_is_fedramp :: bool
  pc_credit :: reset_credit

text \<open>What the outside contributes to a revival.\<close>

record revival_world =
  vw_named_first :: "account_info \<Rightarrow> account_info result"
  vw_client :: "unit result"
  vw_before :: request_world
  vw_named :: "account_info \<Rightarrow> account_info result"
  vw_clock :: "i64 result"
  vw_endpoints :: "unit result"
  vw_consume_url :: "unit result"
  vw_status_text :: "nat \<Rightarrow> string"
  vw_random :: "8 word list"
  vw_attempts :: "nat \<Rightarrow> attempt_event"
  vw_after :: request_world
  vw_named_after :: "account_info \<Rightarrow> account_info result"
  vw_clock_after :: "i64 result"

definition load_consume_context :: "codec \<Rightarrow> string \<Rightarrow> (string \<times> string option \<times> bool) action" where
  "load_consume_context cd name =
     also_then (read_auth cd (ProfileAuth name)) (\<lambda>v.
     case fst (extract_tokens v) of
       None \<Rightarrow> refuse_text (name @ '': auth.json missing access_token'')
     | Some token \<Rightarrow>
         if blank token then refuse_text (name @ '': auth.json missing access_token'')
         else let info = account_info_from_auth_value cd v
              in give (token, ai_account_id info, ai_is_fedramp info))"

definition prepare_reset_credit_consume_with_existing_lease ::
  "codec \<Rightarrow> revival_world \<Rightarrow> string \<Rightarrow> reset_credit \<Rightarrow> string \<Rightarrow> prepared_consume action" where
  "prepare_reset_credit_consume_with_existing_lease cd w name credit lease =
     also_then (lift (validate_consume_request name credit lease)) (\<lambda>_.
     also_then (load_consume_context cd name) (\<lambda>(token, account_id, fedramp).
     also_then (lift (vw_endpoints w)) (\<lambda>_.
       give \<lparr>pc_alias = name, pc_access_token = token, pc_account_id = account_id,
             pc_is_fedramp = fedramp, pc_credit = credit\<rparr>)))"

text \<open>The end of the loop that the source calls unreachable is an error here; \<open>redemption_ends\<close> shows it does not occur.\<close>

definition execute_prepared_reset_credit_consume_request ::
  "revival_world \<Rightarrow> prepared_consume \<Rightarrow> string \<Rightarrow> (consume_error + consumed_reset_credit) errand" where
  "execute_prepared_reset_credit_consume_request w prepared lease t =
     (if lease \<noteq> pc_alias prepared
      then (Inr (Inl (NotConsumed [''prepared reset-card use for '' @ quoted (pc_alias prepared)
              @ '' received profile lease for '' @ quoted lease])), t)
      else
        case vw_consume_url w of
          Inl e \<Rightarrow> (Inr (Inl (NotConsumed e)), t)
        | Inr _ \<Rightarrow>
            (case consume_reset_credit_at_url_with_network (vw_status_text w) (vw_random w) (vw_attempts w) (pc_credit prepared) of
               (sent, end') \<Rightarrow>
                 (case end' of
                    Ended r \<Rightarrow> (Inr r, t\<lparr>ti_cards := ti_cards t @ sent\<rparr>)
                  | RetryLoopFellThrough \<Rightarrow>
                      (Inl (Failing (plain [''reset credit retry loop always returns on its final attempt''])),
                       t\<lparr>ti_cards := ti_cards t @ sent\<rparr>))))"

definition consume_reset_credit_by_id_leased_with_client ::
  "codec \<Rightarrow> revival_world \<Rightarrow> string \<Rightarrow> reset_credit \<Rightarrow> string \<Rightarrow> (consume_error + consumed_reset_credit) errand" where
  "consume_reset_credit_by_id_leased_with_client cd w name credit lease =
     errand_then (errand_tried (at_profiles (prepare_reset_credit_consume_with_existing_lease cd w name credit lease))) (\<lambda>r.
       case r of
         Inl (Failing f) \<Rightarrow> errand_give (Inl (NotConsumed (fl_chain f)))
       | Inl e \<Rightarrow> errand_fail e
       | Inr prepared \<Rightarrow> execute_prepared_reset_credit_consume_request w prepared lease)"

text \<open>The entry point that takes the lease itself.\<close>

definition consume_reset_credit_by_id ::
  "codec \<Rightarrow> revival_world \<Rightarrow> string \<Rightarrow> reset_credit \<Rightarrow> (consume_error + consumed_reset_credit) errand" where
  "consume_reset_credit_by_id cd w name credit =
     (case validate_alias name of
        Inl e \<Rightarrow> errand_give (Inl (NotConsumed e))
      | Inr _ \<Rightarrow>
     if blank (rc_id credit) then errand_give (Inl (NotConsumed [name @ '': reset card is missing its id'']))
     else
     (case vw_client w of
        Inl e \<Rightarrow> errand_give (Inl (NotConsumed e))
      | Inr _ \<Rightarrow>
     errand_then (errand_tried (at_profiles (acquire_profile_lease name))) (\<lambda>r t.
       case r of
         Inl (Failing f) \<Rightarrow> (Inr (Inl (NotConsumed (fl_chain f))), t)
       | Inl e \<Rightarrow> (Inl e, t)
       | Inr _ \<Rightarrow>
           (case consume_reset_credit_by_id_leased_with_client cd w name credit name t of
              (r', t') \<Rightarrow> (r', t'\<lparr>ti_link := release_lease name (ti_link t')\<rparr>)))))"

section \<open>The revival\<close>

definition same_reset_credit :: "reset_credit \<Rightarrow> reset_credit \<Rightarrow> bool" where
  "same_reset_credit left right \<longleftrightarrow>
     rc_id left = rc_id right \<and> rc_granted_at left = rc_granted_at right
       \<and> rc_expires_at left = rc_expires_at right"

definition candidate_from_revival_usage ::
  "candidate \<Rightarrow> usage_info \<Rightarrow> account_info \<Rightarrow> i64 \<Rightarrow> bool \<Rightarrow> candidate" where
  "candidate_from_revival_usage base u info now released_one =
     (candidate_from_usage (c_alias base) u (normalized_plan_kind u info) (c_last_used base) now)
       \<lparr>c_pool_size := c_pool_size base, c_team_priority := c_team_priority base,
        c_pool_exhausted := (if released_one then c_pool_exhausted base - 1 else c_pool_exhausted base)\<rparr>"

datatype side_effect = NoCard | CardConsumed string

record revival_execution =
  re_outcome :: select_outcome
  re_side_effect :: side_effect
  re_info :: account_info

definition commit_result :: "side_effect \<Rightarrow> 'a errand \<Rightarrow> 'a errand" where
  "commit_result side m t =
     (case m t of
        (Inr x, t') \<Rightarrow> (Inr x, t')
      | (Inl e, t') \<Rightarrow>
          (case side of NoCard \<Rightarrow> (Inl e, t') | CardConsumed name \<Rightarrow> (Inl (ConsumedNotActivated name e), t')))"

definition read_account_info_checked ::
  "codec \<Rightarrow> (account_info \<Rightarrow> account_info result) \<Rightarrow> string \<Rightarrow> account_info action" where
  "read_account_info_checked cd named name =
     also_then (profile_path name) (\<lambda>p.
     also_then (read_auth cd p) (\<lambda>v. lift (named (account_info_from_auth_value cd v))))"

definition ensure_expected_profile_binding ::
  "string \<Rightarrow> strict_account_binding \<Rightarrow> strict_account_binding option \<Rightarrow> unit result" where
  "ensure_expected_profile_binding name expected actual =
     (if actual \<noteq> Some expected
      then bail (''profile '' @ quoted name
             @ '' changed account identity during automatic selection; no reset card was requested and no profile was switched'')
      else Inr ())"

definition verify_selected_profile_binding ::
  "codec \<Rightarrow> (account_info \<Rightarrow> account_info result) \<Rightarrow> string \<Rightarrow> strict_account_binding \<Rightarrow> account_info action" where
  "verify_selected_profile_binding cd named lease expected =
     also_then (in_context (''revalidating automatic-selection target '' @ quoted lease)
       (read_account_info_checked cd named lease)) (\<lambda>info.
     also_then (lift (ensure_expected_profile_binding lease expected (strict_binding info))) (\<lambda>_. give info))"

definition outcome_for :: "string \<Rightarrow> usage_info \<Rightarrow> f64 \<Rightarrow> i64 \<Rightarrow> select_outcome" where
  "outcome_for name u score now =
     \<lparr>so_alias = name, so_usage = u, so_score = score, so_evaluated_at = now, so_revival_hint = None\<rparr>"

text \<open>After the card was consumed: the account must now be eligible.\<close>

definition confirm_revival ::
  "codec \<Rightarrow> revival_world \<Rightarrow> pending_revival \<Rightarrow> string \<Rightarrow> revival_execution errand" where
  "confirm_revival cd w plan lease =
     (let target = pv_candidate plan; name = c_alias target;
          unconfirmed = (\<lambda>why. errand_fail (ConsumedUnconfirmed name why))
      in
      errand_then (errand_tried (at_profiles cache_call)) (\<lambda>_.
      errand_then (errand_tried (asking_usage []
         (fetch_usage_retried_with_existing_lease_and_client cd (vw_after w) name lease Forced (pv_binding plan)))) (\<lambda>r.
      case r of
        Inl _ \<Rightarrow> unconfirmed ''usage refresh failed''
      | Inr u \<Rightarrow>
          errand_then (errand_tried (errand_then (at_profiles (read_account_info_checked cd (vw_named_after w) name))
             (\<lambda>info. errand_then (errand_lift (vw_clock_after w)) (\<lambda>now. errand_give (info, now))))) (\<lambda>metadata.
          case metadata of
            Inl _ \<Rightarrow> unconfirmed ''current profile metadata could not be revalidated''
          | Inr (info, now) \<Rightarrow>
              let revived = candidate_from_revival_usage target u info now True
              in if is_candidate_eligible revived (pv_safety plan)
                 then errand_give \<lparr>re_outcome = outcome_for name u (score_unified revived (pv_safety plan)) now,
                        re_side_effect = CardConsumed name, re_info = info\<rparr>
                 else unconfirmed ''quota remained exhausted after refresh''))))"

text \<open>With the card approved and found again.\<close>

definition spend_card ::
  "codec \<Rightarrow> revival_world \<Rightarrow> pending_revival \<Rightarrow> authorized_switch \<Rightarrow> revival_execution errand" where
  "spend_card cd w plan authorized =
     (let name = c_alias (pv_candidate plan) in
      errand_then (at_profiles (in_context (''reset-card target '' @ quoted name
            @ '' no longer matches its authorization; no card was requested and no profile was switched'')
          (revalidate_authorized_profile_switch cd authorized))) (\<lambda>_.
      errand_then (consume_reset_credit_by_id_leased_with_client cd w name (pv_credit plan) (az_alias authorized)) (\<lambda>r.
      case r of
        Inr _ \<Rightarrow> confirm_revival cd w plan (az_alias authorized)
      | Inl e \<Rightarrow>
          if outcome_unknown_after_request e
          then errand_then (errand_tried (at_profiles cache_call)) (\<lambda>_.
                 errand_fail (CardOutcomeUnknown name (user_facing_unknown_message name)))
          else errand_bail (''reset card for '' @ quoted name @ '' was not consumed; no profile was switched''))))"

text \<open>The decision on the last look: the account is used as it is, refused, or a card is spent.\<close>

definition preflight_revival ::
  "codec \<Rightarrow> revival_world \<Rightarrow> pending_revival \<Rightarrow> authorized_switch \<Rightarrow> usage_info \<Rightarrow> account_info \<Rightarrow> i64 \<Rightarrow> revival_execution errand" where
  "preflight_revival cd w plan authorized u info now =
     (let target = pv_candidate plan; name = c_alias target;
          current = candidate_from_revival_usage target u info now False
      in case explicit_account_blocker u of
           Some blocker \<Rightarrow> errand_bail (quoted name @ '' became blocked by an account/workspace restriction (''
             @ wire_reason blocker @ ''); no reset card was requested and no profile was switched'')
         | None \<Rightarrow>
             if \<not> has_required_quota_data current
             then errand_bail (quoted name @ '' returned incomplete authoritative quota data during reset-card preflight; no reset card was requested and no profile was switched'')
             else if is_candidate_eligible current (pv_safety plan)
             then errand_give \<lparr>re_outcome = outcome_for name u (score_unified current (pv_safety plan)) now,
                    re_side_effect = NoCard, re_info = info\<rparr>
             else
               (case u_reset_credits_error u of
                  Some e \<Rightarrow> errand_bail (''reset-card ownership could not be revalidated for '' @ quoted name @ '' ('' @ e
                    @ ''); no card was requested and no profile was switched'')
                | None \<Rightarrow>
                    if length (filter (\<lambda>c. same_reset_credit c (pv_credit plan)) (u_reset_credits u)) \<noteq> 1
                    then errand_bail (''the exact reset card approved for '' @ quoted name
                      @ '' changed or disappeared before redemption; no card was requested and no profile was switched'')
                    else spend_card cd w plan authorized))"

definition execute_revival ::
  "codec \<Rightarrow> revival_world \<Rightarrow> pending_revival \<Rightarrow> authorized_switch \<Rightarrow> revival_execution errand" where
  "execute_revival cd w plan authorized =
     (let name = c_alias (pv_candidate plan) in
      errand_then (errand_lift (with_context ''building the reset-card revival HTTP client'' (vw_client w))) (\<lambda>_.
      if az_alias authorized \<noteq> name
      then errand_bail (''reset-card authorization was prepared for '' @ quoted (az_alias authorized)
             @ '' instead of '' @ quoted name @ ''; no card was requested'')
      else
      errand_then (errand_lift (validate_alias name)) (\<lambda>_.
      errand_then (asking_usage ''reset-card preflight failed; no card was requested and no profile was switched''
         (fetch_usage_retried_with_existing_lease_and_client cd (vw_before w) name (az_alias authorized) Forced (pv_binding plan))) (\<lambda>u.
      errand_then (at_profiles (in_context (''reading current profile metadata for reset-card preflight: '' @ name
            @ ''; no card was requested and no profile was switched'') (read_account_info_checked cd (vw_named w) name))) (\<lambda>info.
      errand_then (errand_lift (vw_clock w)) (\<lambda>now.
        preflight_revival cd w plan authorized u info now))))))"

section \<open>The command\<close>

definition card_policy_for :: "bool \<Rightarrow> bool \<Rightarrow> bool \<Rightarrow> card_policy" where
  "card_policy_for json terminal consume_card =
     (if consume_card then PreApproved else if \<not> json \<and> terminal then PromptCard else DenyCard)"

record best_done =
  bd_outcome :: select_outcome
  bd_history :: "anyhow option"
  bd_info :: account_info

definition carry_out ::
  "codec \<Rightarrow> revival_world \<Rightarrow> string result \<Rightarrow> bool \<Rightarrow> selection_plan \<Rightarrow> best_done errand" where
  "carry_out cd w input allow_prompt plan =
     (case plan of
        PlanReady outcome expected \<Rightarrow>
          errand_then (at_profiles (prepare_and_confirm_profile_switch cd input (so_alias outcome) allow_prompt)) (\<lambda>confirmed.
          holding_lease (so_alias outcome) (
            errand_then (at_profiles (verify_selected_profile_binding cd (vw_named_first w) (so_alias outcome) expected)) (\<lambda>info.
            errand_then (at_profiles (commit_confirmed_profile_switch_with_lease cd confirmed (so_alias outcome))) (\<lambda>history.
              errand_give \<lparr>bd_outcome = outcome, bd_history = history, bd_info = info\<rparr>))))
      | PlanRevive p \<Rightarrow>
          let name = c_alias (pv_candidate p) in
          errand_then (at_profiles (prepare_and_confirm_profile_switch cd input name allow_prompt)) (\<lambda>confirmed.
          holding_lease name (
            errand_then (at_profiles (verify_selected_profile_binding cd (vw_named_first w) name (pv_binding p))) (\<lambda>_.
            errand_then (at_profiles (authorize_confirmed_profile_switch_before_side_effect cd confirmed name)) (\<lambda>authorized.
            errand_then (execute_revival cd w p authorized) (\<lambda>done_so_far.
            errand_then (commit_result (re_side_effect done_so_far)
               (at_profiles (commit_authorized_profile_switch cd authorized))) (\<lambda>history.
              errand_give \<lparr>bd_outcome = re_outcome done_so_far, bd_history = history, bd_info = re_info done_so_far\<rparr>)))))))"

definition best_cmd ::
  "codec \<Rightarrow> plan_world \<Rightarrow> revival_world \<Rightarrow> string result \<Rightarrow> bool \<Rightarrow> bool \<Rightarrow> bool \<Rightarrow> best_done errand" where
  "best_cmd cd pw w input json terminal consume_card =
     errand_then (errand_lift (plan_best_profile pw (card_policy_for json terminal consume_card)))
       (carry_out cd w input (\<not> json \<and> terminal))"

section \<open>The cards that are requested\<close>

lemma errand_simps [simp]:
  "errand_give x t = (Inr x, t)" "errand_fail e t = (Inl e, t)" "errand_bail m t = (Inl (Failing (plain [m])), t)"
  "errand_lift (Inr x) t = (Inr x, t)" "errand_lift (Inl a) t = (Inl (Failing (plain a)), t)"
  by (simp_all add: errand_give_def errand_fail_def errand_bail_def errand_lift_def)

lemma errand_lift_eq: "errand_lift r t = (map_err (Failing \<circ> plain) r, t)"
  by (cases r) simp_all

lemma errand_then_cases:
  assumes "errand_then m f t = (r, t')"
  obtains (stopped) e where "m t = (Inl e, t')" "r = Inl e"
  | (went_on) x s where "m t = (Inr x, s)" "f x s = (r, t')"
  using assms by (auto simp: errand_then_def split: prod.splits sum.splits)

text \<open>Everything but the card request itself leaves the cards alone and fails plainly.\<close>

definition keeps_cards :: "'a errand \<Rightarrow> bool" where
  "keeps_cards m \<longleftrightarrow> (\<forall>t. ti_cards (snd (m t)) = ti_cards t \<and> (\<forall>e. fst (m t) = Inl e \<longrightarrow> (\<exists>f. e = Failing f)))"

lemma keeps_cardsD: "keeps_cards m \<Longrightarrow> m t = (r, t') \<Longrightarrow> ti_cards t' = ti_cards t \<and> (\<forall>e. r = Inl e \<longrightarrow> (\<exists>f. e = Failing f))"
  unfolding keeps_cards_def by (metis fst_conv snd_conv)

lemma keeps_cards_steps:
  "keeps_cards (errand_lift r)" "keeps_cards (errand_bail m)" "keeps_cards (errand_give x)"
  "keeps_cards (at_profiles a)" "keeps_cards (asking_usage c q)"
  by (auto simp: keeps_cards_def errand_lift_eq map_err_def at_profiles_def asking_usage_def split: prod.splits sum.splits)

lemma keeps_cards_then:
  assumes "keeps_cards m" "\<And>x. keeps_cards (f x)"
  shows "keeps_cards (errand_then m f)"
  unfolding keeps_cards_def
proof (intro allI)
  fix t
  obtain r t' where run: "errand_then m f t = (r, t')" by fastforce
  from run have "ti_cards t' = ti_cards t \<and> (\<forall>e. r = Inl e \<longrightarrow> (\<exists>f. e = Failing f))"
    by (rule errand_then_cases) (use keeps_cardsD [OF assms(1)] keeps_cardsD [OF assms(2)] in fastforce)+
  with run show "ti_cards (snd (errand_then m f t)) = ti_cards t
      \<and> (\<forall>e. fst (errand_then m f t) = Inl e \<longrightarrow> (\<exists>f. e = Failing f))" by simp
qed

text \<open>
  What a run did with the card: it sent some requests, all of one redemption of one card, and an
  ordinary failure means that the service may have acted on none of them.
\<close>

definition asked_for :: "revival_world \<Rightarrow> reset_credit \<Rightarrow> nat \<Rightarrow> till \<Rightarrow> till \<Rightarrow> bool" where
  "asked_for w credit k t t' \<longleftrightarrow>
     k \<le> max_retries \<and> ti_cards t' = ti_cards t @ replicate k (request_of credit (redeem_request_id (vw_random w)))"

definition untouched :: "revival_world \<Rightarrow> nat \<Rightarrow> bool" where
  "untouched w k \<longleftrightarrow> (\<forall>i<k. \<not> may_have_redeemed (ev_exchange (vw_attempts w i)))"

definition card_run :: "revival_world \<Rightarrow> reset_credit \<Rightarrow> nat \<Rightarrow> till \<Rightarrow> (best_error + 'a) \<Rightarrow> till \<Rightarrow> bool" where
  "card_run w credit k t r t' \<longleftrightarrow> asked_for w credit k t t' \<and> (\<forall>f. r = Inl (Failing f) \<longrightarrow> untouched w k)"

lemma card_run_0: "ti_cards t' = ti_cards t \<Longrightarrow> card_run w credit 0 t r t'"
  by (simp add: card_run_def asked_for_def untouched_def)

lemma redemption_ends:
  assumes "execute_prepared_reset_credit_consume_request w p lease t = (x, t')"
  obtains r k where "x = Inr r" "asked_for w (pc_credit p) k t t'"
    "\<And>e. r = Inl (NotConsumed e) \<Longrightarrow> untouched w k" "\<And>c. r = Inr c \<Longrightarrow> 0 < k"
proof -
  obtain n end' where run: "consume_reset_credit_at_url_with_network (vw_status_text w) (vw_random w) (vw_attempts w) (pc_credit p)
       = (replicate n (request_of (pc_credit p) (redeem_request_id (vw_random w))), end')"
    and n: "n \<le> max_retries" and ok: "redemption_ok (vw_attempts w) (pc_credit p) 0 False n end'"
    by (rule consume_run)
  from ok obtain r where r: "end' = Ended r" by (cases end') (auto simp: redemption_ok_def)
  show ?thesis
  proof (cases "lease \<noteq> pc_alias p \<or> (\<exists>e. vw_consume_url w = Inl e)")
    case True
    then show ?thesis
      using assms by (intro that [of "projr x" 0])
        (auto simp: execute_prepared_reset_credit_consume_request_def asked_for_def untouched_def
          split: if_splits sum.splits)
  next
    case False
    then have "x = Inr r" "t' = t\<lparr>ti_cards := ti_cards t @ replicate n (request_of (pc_credit p) (redeem_request_id (vw_random w)))\<rparr>"
      using assms run r
      by (auto simp: execute_prepared_reset_credit_consume_request_def split: if_splits sum.splits)
    with n ok r show ?thesis
      by (intro that [of r n]) (auto simp: asked_for_def redemption_ok_def untouched_def split: sum.splits)
  qed
qed

lemma succeeded_then:
  assumes "also_then m f s = (Inr y, s')"
  obtains x u where "m s = (Inr x, u)" "f x u = (Inr y, s')"
  using assms by (auto simp: also_then_def split: prod.splits sum.splits)

lemma prepared_credit:
  "prepare_reset_credit_consume_with_existing_lease cd w name credit lease s = (Inr p, s') \<Longrightarrow> pc_credit p = credit"
  unfolding prepare_reset_credit_consume_with_existing_lease_def
  by (auto elim!: succeeded_then simp: give_def)

lemma consumed_run:
  assumes "consume_reset_credit_by_id_leased_with_client cd w name credit lease t = (x, t')"
  obtains r k where "x = Inr r" "asked_for w credit k t t'"
    "\<And>e. r = Inl (NotConsumed e) \<Longrightarrow> untouched w k" "\<And>c. r = Inr c \<Longrightarrow> 0 < k"
proof -
  let ?m = "prepare_reset_credit_consume_with_existing_lease cd w name credit lease"
  obtain y u where y: "at_profiles ?m t = (y, u)" by fastforce
  have u: "ti_cards u = ti_cards t" using keeps_cardsD [OF keeps_cards_steps(4) y] by simp
  show ?thesis
  proof (cases y)
    case (Inl e)
    with y obtain f where "e = Failing f" using keeps_cardsD [OF keeps_cards_steps(4) y] by auto
    with assms y Inl u show ?thesis
      by (intro that [of "Inl (NotConsumed (fl_chain f))" 0])
        (auto simp: consume_reset_credit_by_id_leased_with_client_def errand_then_def errand_tried_def asked_for_def untouched_def)
  next
    case (Inr p)
    with y have "pc_credit p = credit"
      by (auto simp: at_profiles_def at_desk_def result_eq_Inr dest: prepared_credit split: prod.splits)
    moreover from assms y Inr have "execute_prepared_reset_credit_consume_request w p lease u = (x, t')"
      by (simp add: consume_reset_credit_by_id_leased_with_client_def errand_then_def errand_tried_def)
    ultimately show ?thesis
      by (metis redemption_ends that asked_for_def u)
  qed
qed

text \<open>What a revival that succeeds returns: the account as it was last seen, and it is eligible.\<close>

definition revived :: "pending_revival \<Rightarrow> revival_execution \<Rightarrow> bool" where
  "revived plan ex \<longleftrightarrow>
     (\<exists>u info now one.
        let name = c_alias (pv_candidate plan);
            c = candidate_from_revival_usage (pv_candidate plan) u info now one
        in is_candidate_eligible c (pv_safety plan)
           \<and> re_outcome ex = outcome_for name u (score_unified c (pv_safety plan)) now \<and> re_info ex = info
           \<and> re_side_effect ex = (if one then CardConsumed name else NoCard))"

lemma revived_with:
  "is_candidate_eligible (candidate_from_revival_usage (pv_candidate plan) u info now True) (pv_safety plan) \<Longrightarrow>
     revived plan \<lparr>re_outcome = outcome_for (c_alias (pv_candidate plan)) u
       (score_unified (candidate_from_revival_usage (pv_candidate plan) u info now True) (pv_safety plan)) now,
       re_side_effect = CardConsumed (c_alias (pv_candidate plan)), re_info = info\<rparr>"
  "is_candidate_eligible (candidate_from_revival_usage (pv_candidate plan) u info now False) (pv_safety plan) \<Longrightarrow>
     revived plan \<lparr>re_outcome = outcome_for (c_alias (pv_candidate plan)) u
       (score_unified (candidate_from_revival_usage (pv_candidate plan) u info now False) (pv_safety plan)) now,
       re_side_effect = NoCard, re_info = info\<rparr>"
  unfolding revived_def Let_def by (intro exI [of _ u] exI [of _ info] exI [of _ now] exI [of _ True], simp)
    (intro exI [of _ u] exI [of _ info] exI [of _ now] exI [of _ False], simp)

lemma confirmed_revival:
  assumes "confirm_revival cd w plan lease t = (r, t')"
  shows "ti_cards t' = ti_cards t"
    and "r = Inl e \<Longrightarrow> e \<noteq> Failing f"
    and "r = Inr ex \<Longrightarrow> revived plan ex \<and> re_side_effect ex \<noteq> NoCard"
proof -
  have tried: "ti_cards v = ti_cards u \<and> (\<exists>y. x = Inr y)"
    if "errand_tried m u = (x, v)" "keeps_cards m" for m :: "'b errand" and u v x
    using that keeps_cardsD [OF that(2)] by (auto simp: errand_tried_def split: prod.splits)
  have meta: "keeps_cards (errand_then (at_profiles (read_account_info_checked cd (vw_named_after w) name))
      (\<lambda>info. errand_then (errand_lift (vw_clock_after w)) (\<lambda>now. errand_give (info, now))))" for name
    by (intro keeps_cards_then keeps_cards_steps)
  have "ti_cards t' = ti_cards t \<and> (\<forall>e f. r = Inl e \<longrightarrow> e \<noteq> Failing f)
      \<and> (\<forall>ex. r = Inr ex \<longrightarrow> revived plan ex \<and> re_side_effect ex \<noteq> NoCard)"
    using assms unfolding confirm_revival_def Let_def
    by (elim errand_then_cases)
      (auto dest!: tried [OF _ keeps_cards_steps(4)] tried [OF _ keeps_cards_steps(5)] tried [OF _ meta]
        elim!: errand_then_cases split: sum.splits if_splits prod.splits intro: revived_with)
  then show "ti_cards t' = ti_cards t" "r = Inl e \<Longrightarrow> e \<noteq> Failing f"
    "r = Inr ex \<Longrightarrow> revived plan ex \<and> re_side_effect ex \<noteq> NoCard" by auto
qed

lemma asked_for_cards: "asked_for w credit k s t' \<Longrightarrow> ti_cards s = ti_cards t \<Longrightarrow> ti_cards t'' = ti_cards t' \<Longrightarrow> asked_for w credit k t t''"
  by (simp add: asked_for_def)

lemma spent_card:
  assumes "spend_card cd w plan authorized t = (r, t')"
  obtains k where "card_run w (pv_credit plan) k t r t'"
    "\<And>ex. r = Inr ex \<Longrightarrow> 0 < k \<and> revived plan ex \<and> re_side_effect ex \<noteq> NoCard"
proof -
  let ?name = "c_alias (pv_candidate plan)"
  obtain x u where check: "at_profiles (in_context (''reset-card target '' @ quoted ?name
            @ '' no longer matches its authorization; no card was requested and no profile was switched'')
          (revalidate_authorized_profile_switch cd authorized)) t = (x, u)" by fastforce
  note kept_cards = keeps_cardsD [OF keeps_cards_steps(4) check]
  show ?thesis
  proof (cases x)
    case (Inl e)
    with assms check kept_cards show ?thesis
      by (intro that [of 0]) (auto simp: spend_card_def Let_def errand_then_def intro: card_run_0)
  next
    case (Inr _)
    obtain y v where consume: "consume_reset_credit_by_id_leased_with_client cd w ?name (pv_credit plan) (az_alias authorized) u = (y, v)"
      by fastforce
    obtain c k where y: "y = Inr c" and k: "asked_for w (pv_credit plan) k u v"
      "\<And>e. c = Inl (NotConsumed e) \<Longrightarrow> untouched w k" "\<And>z. c = Inr z \<Longrightarrow> 0 < k"
      by (rule consumed_run [OF consume]) blast
    have spent: "asked_for w (pv_credit plan) k t t'" if "ti_cards t' = ti_cards v"
      by (rule asked_for_cards [OF k(1) _ that]) (use kept_cards in simp)
    note run = assms [unfolded spend_card_def Let_def errand_then_def check Inr sum.case prod.case consume y]
    show ?thesis
    proof (cases c)
      case (Inr z)
      with run have "confirm_revival cd w plan (az_alias authorized) v = (r, t')" by simp
      with confirmed_revival [OF this] spent k(3) [OF Inr] show ?thesis
        by (intro that [of k]) (auto simp: card_run_def)
    next
      case (Inl e)
      show ?thesis
      proof (cases e)
        case (NotConsumed m)
        with Inl run k(2) [of m] spent show ?thesis
          by (intro that [of k]) (auto simp: card_run_def)
      next
        case (OutcomeUnknown m)
        obtain z u' where cache: "at_profiles cache_call v = (z, u')" by fastforce
        with Inl OutcomeUnknown run have "r = Inl (CardOutcomeUnknown ?name (user_facing_unknown_message ?name))" "t' = u'"
          by (auto simp: errand_tried_def)
        with spent keeps_cardsD [OF keeps_cards_steps(4) cache] show ?thesis
          by (intro that [of k]) (auto simp: card_run_def)
      qed
    qed
  qed
qed

text \<open>The last look before a card is spent.\<close>

definition card_justified :: "pending_revival \<Rightarrow> usage_info \<Rightarrow> account_info \<Rightarrow> i64 \<Rightarrow> bool" where
  "card_justified plan u info now \<longleftrightarrow>
     (let c = candidate_from_revival_usage (pv_candidate plan) u info now False
      in explicit_account_blocker u = None \<and> u_reset_credits_error u = None
         \<and> has_required_quota_data c \<and> \<not> is_candidate_eligible c (pv_safety plan)
         \<and> length (filter (\<lambda>x. same_reset_credit x (pv_credit plan)) (u_reset_credits u)) = 1)"

lemma preflight_run:
  assumes "preflight_revival cd w plan authorized u info now t = (r, t')"
  obtains k where "card_run w (pv_credit plan) k t r t'" "0 < k \<Longrightarrow> card_justified plan u info now"
    "\<And>ex. r = Inr ex \<Longrightarrow> revived plan ex \<and> (re_side_effect ex = NoCard \<longleftrightarrow> k = 0)"
proof (cases "card_justified plan u info now")
  case True
  with assms have "spend_card cd w plan authorized t = (r, t')"
    by (simp add: preflight_revival_def card_justified_def Let_def)
  then obtain k where "card_run w (pv_credit plan) k t r t'"
    "\<And>ex. r = Inr ex \<Longrightarrow> 0 < k \<and> revived plan ex \<and> re_side_effect ex \<noteq> NoCard" by (rule spent_card) blast
  with True show ?thesis by (intro that [of k]) auto
next
  case False
  have "t' = t \<and> (\<forall>ex. r = Inr ex \<longrightarrow> revived plan ex \<and> re_side_effect ex = NoCard)"
    using assms False
    by (auto simp: preflight_revival_def card_justified_def Let_def intro: revived_with
        split: option.splits if_splits)
  then show ?thesis by (intro that [of 0]) (auto intro: card_run_0)
qed

definition last_look :: "codec \<Rightarrow> revival_world \<Rightarrow> pending_revival \<Rightarrow> string \<Rightarrow> desk link \<Rightarrow> bool" where
  "last_look cd w plan lease l \<longleftrightarrow>
     (\<exists>u l' info now.
        fetch_usage_retried_with_existing_lease_and_client cd (vw_before w) (c_alias (pv_candidate plan)) lease Forced (pv_binding plan) l
          = (Inr u, l') \<and> vw_clock w = Inr now \<and> card_justified plan u info now)"

definition carded :: "revival_world \<Rightarrow> reset_credit \<Rightarrow> bool \<Rightarrow> (nat \<Rightarrow> 'a \<Rightarrow> bool) \<Rightarrow> 'a errand \<Rightarrow> till \<Rightarrow> bool" where
  "carded w credit why R m t \<longleftrightarrow>
     (\<exists>k. card_run w credit k t (fst (m t)) (snd (m t)) \<and> (0 < k \<longrightarrow> why) \<and> (\<forall>x. fst (m t) = Inr x \<longrightarrow> R k x))"

lemma carded_then:
  assumes "keeps_cards m" "\<And>x s. m t = (Inr x, s) \<Longrightarrow> ti_cards s = ti_cards t \<Longrightarrow> carded w credit why R (f x) s"
  shows "carded w credit why R (errand_then m f) t"
proof -
  obtain y s where m: "m t = (y, s)" by fastforce
  note s = keeps_cardsD [OF assms(1) m]
  show ?thesis
  proof (cases y)
    case (Inl e)
    with m s show ?thesis
      by (auto simp: carded_def errand_then_def intro!: exI [of _ 0] card_run_0)
  next
    case (Inr x)
    with assms(2) m s show ?thesis
      by (auto simp: carded_def errand_then_def card_run_def asked_for_def)
  qed
qed

lemma carded_steps:
  "carded w credit why R (errand_bail m) t"
  "(b \<Longrightarrow> carded w credit why R m1 t) \<Longrightarrow> (\<not> b \<Longrightarrow> carded w credit why R m2 t) \<Longrightarrow> carded w credit why R (if b then m1 else m2) t"
  by (auto simp: carded_def intro!: exI [of _ 0] card_run_0)

lemma carded_preflight:
  "(card_justified plan u info now \<Longrightarrow> why) \<Longrightarrow> carded w (pv_credit plan) why
     (\<lambda>k ex. revived plan ex \<and> (re_side_effect ex = NoCard \<longleftrightarrow> k = 0)) (preflight_revival cd w plan authorized u info now) t"
  unfolding carded_def
  by (cases "preflight_revival cd w plan authorized u info now t", rule preflight_run) (assumption, auto)

lemma revival_run:
  "carded w (pv_credit plan) (last_look cd w plan (az_alias authorized) (ti_link t))
     (\<lambda>k ex. revived plan ex \<and> (re_side_effect ex = NoCard \<longleftrightarrow> k = 0)) (execute_revival cd w plan authorized) t"
proof -
  have look: "last_look cd w plan (az_alias authorized) (ti_link t)"
    if "asking_usage c (fetch_usage_retried_with_existing_lease_and_client cd (vw_before w) (c_alias (pv_candidate plan))
          (az_alias authorized) Forced (pv_binding plan)) t = (Inr u, s)"
      "errand_lift (vw_clock w) v = (Inr now, v')" "card_justified plan u info now" for c u s v v' now info
    using that unfolding last_look_def asking_usage_def errand_lift_eq
    by (auto simp: result_eq_Inr split: prod.splits)
  show ?thesis
    unfolding execute_revival_def Let_def
  proof (intro carded_then keeps_cards_steps carded_steps carded_preflight, goal_cases)
    case (1 _ s _ s1 u s2 info s3 now s4)
    then have "s1 = t" by (auto simp: errand_lift_eq)
    with 1 look show ?case by blast
  qed
qed

lemma carded_finish:
  assumes m: "carded w credit why (\<lambda>k ex. Q ex \<and> (side ex = NoCard \<longleftrightarrow> k = 0)) m t"
    and c: "keeps_cards c" and R: "\<And>ex h. Q ex \<Longrightarrow> R (g ex h)"
  shows "carded w credit why (\<lambda>_. R) (errand_then m (\<lambda>ex. errand_then (commit_result (side ex) c) (\<lambda>h. errand_give (g ex h)))) t"
proof -
  obtain y s where run: "m t = (y, s)" by fastforce
  from m run obtain k where k: "card_run w credit k t y s" "0 < k \<longrightarrow> why"
    "\<And>ex. y = Inr ex \<Longrightarrow> Q ex \<and> (side ex = NoCard \<longleftrightarrow> k = 0)" by (auto simp: carded_def)
  show ?thesis
  proof (cases y)
    case (Inl e)
    with run k show ?thesis by (auto simp: carded_def errand_then_def card_run_def intro!: exI [of _ k])
  next
    case (Inr ex)
    obtain z u where z: "c s = (z, u)" by fastforce
    have u: "ti_cards u = ti_cards s" using keeps_cardsD [OF c z] by simp
    have "asked_for w credit k t u" using k(1) u by (simp add: card_run_def asked_for_def)
    with Inr run k z u R [of ex] show ?thesis
      by (cases z; cases "side ex")
        (auto simp: carded_def errand_then_def commit_result_def card_run_def untouched_def intro!: exI [of _ k])
  qed
qed

lemma carded_lease:
  assumes "\<And>s. carded w credit why R m s"
  shows "carded w credit why R (holding_lease name m) t"
  unfolding holding_lease_def
proof (rule carded_then [OF keeps_cards_steps(4)])
  fix x s
  show "carded w credit why R (\<lambda>t. case m t of (r, t') \<Rightarrow> (r, t'\<lparr>ti_link := release_lease name (ti_link t')\<rparr>)) s"
    using assms [of s] by (auto simp: carded_def card_run_def asked_for_def split: prod.splits)
qed

definition delivered :: "selection_plan \<Rightarrow> best_done \<Rightarrow> bool" where
  "delivered plan d \<longleftrightarrow>
     (case plan of PlanReady outcome _ \<Rightarrow> bd_outcome d = outcome
      | PlanRevive p \<Rightarrow> (\<exists>ex. revived p ex \<and> bd_outcome d = re_outcome ex \<and> bd_info d = re_info ex))"

definition last_looked :: "codec \<Rightarrow> revival_world \<Rightarrow> pending_revival \<Rightarrow> bool" where
  "last_looked cd w p \<longleftrightarrow> (\<exists>lease l. last_look cd w p lease l)"

lemma carded_ready: "(\<And>x s. carded w credit why R (f x) s) \<Longrightarrow> carded w credit why R (errand_then (at_profiles a) f) t"
  by (rule carded_then [OF keeps_cards_steps(4)])

lemma carded_give: "R 0 x \<Longrightarrow> carded w credit why R (errand_give x) t"
  by (auto simp: carded_def intro!: exI [of _ 0] card_run_0)

lemma carry_out_ready:
  "carded w credit False (\<lambda>_. delivered (PlanReady outcome b)) (carry_out cd w input allow (PlanReady outcome b)) t"
  unfolding carry_out_def selection_plan.case
  by (intro carded_ready carded_lease carded_give) (simp add: delivered_def)

lemma carry_out_revival:
  "carded w (pv_credit p) (last_looked cd w p) (\<lambda>_. delivered (PlanRevive p)) (carry_out cd w input allow (PlanRevive p)) t"
proof -
  have "carded w (pv_credit p) (last_looked cd w p) (\<lambda>k ex. revived p ex \<and> (re_side_effect ex = NoCard \<longleftrightarrow> k = 0))
      (execute_revival cd w p authorized) s" for authorized s
    using revival_run [of w p cd authorized s] unfolding carded_def last_looked_def by blast
  note revival = this
  show ?thesis
    unfolding carry_out_def selection_plan.case Let_def
    by (intro carded_ready carded_lease carded_finish [OF revival] keeps_cards_steps)
      (auto simp: delivered_def)
qed

text \<open>
  C9. Whatever the network and the other processes do, a run of \<open>best\<close> sends at most three card
  requests, all of one redemption of the one card that was planned and allowed, and only after a last
  look at the account found it unblocked, with complete quota, still exhausted, and holding exactly
  that card once. When the run ends in an ordinary error, the service may have acted on none of the
  requests; every other ending names the card. A run that succeeds reports the planned account, or
  the revived one with the quota on which it was found eligible.
\<close>

theorem card_accounted:
  "let (r, t') = best_cmd cd pw w input json terminal consume_card t;
       planned = plan_best_profile pw (card_policy_for json terminal consume_card)
   in \<exists>credit k. ti_cards t' = ti_cards t @ replicate k (request_of credit (redeem_request_id (vw_random w)))
        \<and> k \<le> (if \<exists>p. planned = Inr (PlanRevive p) \<and> pv_credit p = credit \<and> last_looked cd w p then 3 else 0)
        \<and> (case r of
              Inl (Failing f) \<Rightarrow> untouched w k
            | Inl _ \<Rightarrow> True
            | Inr d \<Rightarrow> \<exists>plan. planned = Inr plan \<and> delivered plan d)"
proof -
  let ?policy = "card_policy_for json terminal consume_card"
  obtain r t' where run: "best_cmd cd pw w input json terminal consume_card t = (r, t')" by fastforce
  show ?thesis
  proof (cases "plan_best_profile pw ?policy")
    case (Inl e)
    with run have "ti_cards t' = ti_cards t" "r = Inl (Failing (plain e))"
      by (auto simp: best_cmd_def errand_then_def)
    with run Inl show ?thesis by (auto simp: untouched_def intro!: exI [of _ "0 :: nat"])
  next
    case (Inr plan)
    with run have out: "carry_out cd w input (\<not> json \<and> terminal) plan t = (r, t')"
      by (simp add: best_cmd_def errand_then_def)
    obtain credit where c: "carded w credit (\<exists>p. plan = PlanRevive p \<and> pv_credit p = credit \<and> last_looked cd w p)
        (\<lambda>_. delivered plan) (carry_out cd w input (\<not> json \<and> terminal) plan) t"
    proof (cases plan)
      case (PlanReady outcome b)
      with that carry_out_ready [of w undefined outcome b cd input "\<not> json \<and> terminal" t] show thesis
        unfolding carded_def by blast
    next
      case (PlanRevive p)
      with that [of "pv_credit p"] carry_out_revival [of w p cd input "\<not> json \<and> terminal" t] show thesis
        unfolding carded_def by blast
    qed
    from c obtain k where k: "card_run w credit k t r t'"
      "0 < k \<longrightarrow> (\<exists>p. plan = PlanRevive p \<and> pv_credit p = credit \<and> last_looked cd w p)"
      "\<forall>d. r = Inr d \<longrightarrow> delivered plan d" unfolding carded_def out by auto
    then have "k \<le> (if \<exists>p. Inr plan = Inr (PlanRevive p) \<and> pv_credit p = credit \<and> last_looked cd w p then 3 else 0)"
      by (auto simp: card_run_def asked_for_def max_retries_def)
    moreover have "case r of Inl (Failing f) \<Rightarrow> untouched w k | Inl _ \<Rightarrow> True
        | Inr d \<Rightarrow> \<exists>plan'. Inr plan = Inr plan' \<and> delivered plan' d"
      using k by (auto simp: card_run_def split: sum.split best_error.split)
    moreover have "ti_cards t' = ti_cards t @ replicate k (request_of credit (redeem_request_id (vw_random w)))"
      using k by (simp add: card_run_def asked_for_def)
    ultimately show ?thesis unfolding Let_def run prod.case Inr by blast
  qed
qed

end
