(* ===== verification/Best_Discipline.thy ===== *)
theory Best_Discipline
  imports Best_Command
begin

text \<open>
  The command \<open>best\<close> keeps the discipline of the profiles and of the network from its first
  access to the activation. What was confirmed or authorised before the requests is still true of
  the later trace: a trace only grows, and the facts that allow an activation are lasting.
\<close>

section \<open>Errands and the trace\<close>

abbreviation link_trace :: "desk link \<Rightarrow> event list" where
  "link_trace l \<equiv> st_trace (dk_store (ln_local l))"

definition sound_now :: "codec \<Rightarrow> desk link \<Rightarrow> bool" where
  "sound_now cd l \<longleftrightarrow> calm l \<and> sound_store cd (dk_store (ln_local l))"

definition ended_now :: "codec \<Rightarrow> desk link \<Rightarrow> bool" where
  "ended_now cd l \<longleftrightarrow> lawful l \<and> sound_store cd (dk_store (ln_local l))"

lemma sound_now_link: "sound_now cd l \<longleftrightarrow> sound_link cd (link_trace l) l"
  by (auto simp: sound_now_def within_law_def sound_over_now)

lemma sound_linkD:
  "sound_link cd tb l \<Longrightarrow> sound_now cd l \<and> later tb (link_trace l)"
  by (auto simp: sound_now_def within_law_def sound_over_def sound_store_def coherent_over_def)

lemma ends_soundD:
  "ends_sound cd tb r l \<Longrightarrow> ended_now cd l \<and> later tb (link_trace l) \<and> (is_ok r \<longrightarrow> sound_now cd l)"
  by (auto simp: ends_sound_def sound_now_def ended_now_def within_law_def sound_over_def sound_store_def coherent_over_def)

lemma sound_ended: "sound_now cd l \<Longrightarrow> ended_now cd l"
  by (simp add: sound_now_def ended_now_def calm_def)

text \<open>
  From a sound moment at which \<open>A\<close> holds of the trace the errand ends lawfully; when it succeeds,
  or in any case if \<open>F\<close> holds, more may follow.
\<close>

definition fine :: "codec \<Rightarrow> bool \<Rightarrow> (event list \<Rightarrow> bool) \<Rightarrow> 'a errand \<Rightarrow> ('a \<Rightarrow> event list \<Rightarrow> bool) \<Rightarrow> bool" where
  "fine cd F A m B \<longleftrightarrow>
     (\<forall>t r t'. sound_now cd (ti_link t) \<longrightarrow> A (link_trace (ti_link t)) \<longrightarrow> m t = (r, t') \<longrightarrow>
        ended_now cd (ti_link t') \<and> later (link_trace (ti_link t)) (link_trace (ti_link t'))
        \<and> (F \<longrightarrow> sound_now cd (ti_link t'))
        \<and> (\<forall>x. r = Inr x \<longrightarrow> sound_now cd (ti_link t') \<and> B x (link_trace (ti_link t'))))"

lemma fineD:
  assumes "fine cd F A m B" "sound_now cd (ti_link t)" "A (link_trace (ti_link t))" "m t = (r, t')"
  shows "ended_now cd (ti_link t')" "later (link_trace (ti_link t)) (link_trace (ti_link t'))"
    "F \<Longrightarrow> sound_now cd (ti_link t')" "r = Inr x \<Longrightarrow> sound_now cd (ti_link t') \<and> B x (link_trace (ti_link t'))"
  using assms unfolding fine_def by blast+

lemma later_trans: "later a b \<Longrightarrow> later b c \<Longrightarrow> later a c"
  by (auto simp: later_def)

lemma fine_then:
  assumes m: "fine cd F A m B" and f: "\<And>x. fine cd F (\<lambda>t. A t \<and> B x t) (f x) C" and A: "lasting A"
  shows "fine cd F A (errand_then m f) C"
  unfolding fine_def
proof (intro allI impI)
  fix t r t'
  assume t: "sound_now cd (ti_link t)" "A (link_trace (ti_link t))" and run: "errand_then m f t = (r, t')"
  from run show "ended_now cd (ti_link t') \<and> later (link_trace (ti_link t)) (link_trace (ti_link t'))
        \<and> (F \<longrightarrow> sound_now cd (ti_link t'))
        \<and> (\<forall>x. r = Inr x \<longrightarrow> sound_now cd (ti_link t') \<and> C x (link_trace (ti_link t')))"
  proof (cases rule: errand_then_cases)
    case (stopped e)
    with fineD [OF m t stopped(1)] show ?thesis by blast
  next
    case (went_on x s)
    note s = fineD [OF m t went_on(1)]
    have "A (link_trace (ti_link s)) \<and> B x (link_trace (ti_link s))"
      using later_lasting [OF A s(2) t(2)] s(4) by blast
    from fineD [OF f _ this went_on(2)] s show ?thesis by (blast intro: later_trans)
  qed
qed

named_theorems fine_intros "errands that keep the discipline"

lemma fine_steps [fine_intros]:
  "fine cd F A (errand_bail m) B" "fine cd F A (errand_fail e) B" "fine cd F A (errand_lift r) (\<lambda>_ _. True)"
  by (auto simp: fine_def errand_lift_eq intro: sound_ended)

lemma fine_give: "(\<And>t. A t \<Longrightarrow> B x t) \<Longrightarrow> fine cd F A (errand_give x) B"
  by (auto simp: fine_def intro: sound_ended)

lemma fine_if [fine_intros]:
  "fine cd F A m B \<Longrightarrow> fine cd F A m' B \<Longrightarrow> fine cd F A (if b then m else m') B"
  by simp

lemma fine_weaken: "fine cd F A m B \<Longrightarrow> (\<And>t. A' t \<Longrightarrow> A t) \<Longrightarrow> (\<And>x t. B x t \<Longrightarrow> B' x t) \<Longrightarrow> (F' \<Longrightarrow> F) \<Longrightarrow> fine cd F' A' m B'"
  unfolding fine_def by blast

lemma fine_profiles:
  assumes m: "traced (\<lambda>t. consistent_history cd t \<and> A t) m (\<lambda>x t. consistent_history cd t \<and> B x t) (\<lambda>_. consistent_history cd)"
    and true: "truthful m"
  shows "fine cd F A (at_profiles m) B"
  unfolding fine_def
proof (intro allI impI)
  fix t r t'
  assume t: "sound_now cd (ti_link t)" "A (link_trace (ti_link t))" and run: "at_profiles m t = (r, t')"
  let ?s = "dk_store (ln_local (ti_link t))"
  obtain x s' where x: "m ?s = (x, s')" by fastforce
  have t': "t' = t\<lparr>ti_link := (ti_link t)\<lparr>ln_local := (ln_local (ti_link t))\<lparr>dk_store := s'\<rparr>\<rparr>\<rparr>" "r = map_err Failing x"
    using run x by (simp_all add: at_profiles_def at_desk_def)
  have s: "consistent_history cd (st_trace ?s) \<and> A (st_trace ?s)" "coherent ?s"
    using t by (simp_all add: sound_now_def sound_store_def)
  have "coherent s'" "later (st_trace ?s) (st_trace s')"
    using truthfulD [OF true s(2)] x by simp_all
  moreover have "consistent_history cd (st_trace s') \<and> (\<forall>y. x = Inr y \<longrightarrow> B y (st_trace s'))"
    using tracedD [OF m s(1)] x by (cases x) auto
  ultimately show "ended_now cd (ti_link t') \<and> later (link_trace (ti_link t)) (link_trace (ti_link t'))
        \<and> (F \<longrightarrow> sound_now cd (ti_link t'))
        \<and> (\<forall>x. r = Inr x \<longrightarrow> sound_now cd (ti_link t') \<and> B x (link_trace (ti_link t')))"
    using t(1) by (auto simp: t' result_eq_Inr sound_now_def ended_now_def sound_store_def calm_def lawful_def drained_def)
qed

text \<open>An action without a condition of its own.\<close>

lemma fine_action [fine_intros]: "keeps cd m \<Longrightarrow> truthful m \<Longrightarrow> fine cd F A (at_profiles m) (\<lambda>_ _. True)"
  by (rule fine_profiles) (rule traced_mono, assumption, auto)

lemma fine_usage:
  "fine cd False A (asking_usage c (fetch_usage_retried_with_existing_lease_and_client cd w name lease mode expected)) (\<lambda>_ _. True)"
  unfolding fine_def
proof (intro allI impI)
  fix t r t'
  assume t: "sound_now cd (ti_link t)"
    and run: "asking_usage c (fetch_usage_retried_with_existing_lease_and_client cd w name lease mode expected) t = (r, t')"
  let ?l = "ti_link t"
  have l: "sound_link cd (link_trace ?l) ?l" using t by (simp add: sound_now_link)
  obtain x l' where x: "fetch_usage_retried_with_existing_lease_and_client cd w name lease mode expected ?l = (x, l')" by fastforce
  have "ends_sound cd (link_trace ?l) x l'"
  proof (cases "ensure_usage_configuration w")
    case (Inl e)
    with x l show ?thesis
      by (auto simp: fetch_usage_retried_with_existing_lease_and_client_def configured_def intro: sound_ends)
  next
    case (Inr _)
    obtain h m where hit: "usage_cache_hit cd w name mode (Some expected) ?l = (h, m)" by fastforce
    have m: "sound_link cd (link_trace ?l) m" by (rule hit_sound [OF l hit])
    obtain y n where y: "fetch_usage_observation_with_lease_and_client cd w name lease mode (Some expected)
        complete_usage_policy m = (y, n)" by fastforce
    note run = x [unfolded fetch_usage_retried_with_existing_lease_and_client_def configured_def Inr sum.case hit prod.case y replying_def fst_conv snd_conv]
    show ?thesis
    proof (cases h)
      case (Inl e)
      with run sound_ends [OF m, of "Inl e"] show ?thesis by auto
    next
      case (Inr c)
      with run sound_ends [OF m, of "Inr (the c)"] ends_mapped [OF observation_sound [OF m y], of ob_usage] show ?thesis
        by (cases c) auto
    qed
  qed
  from ends_soundD [OF this] run x
  show "ended_now cd (ti_link t') \<and> later (link_trace (ti_link t)) (link_trace (ti_link t'))
        \<and> (False \<longrightarrow> sound_now cd (ti_link t'))
        \<and> (\<forall>x. r = Inr x \<longrightarrow> sound_now cd (ti_link t') \<and> True)"
    by (auto simp: asking_usage_def result_eq_Inr)
qed

text \<open>After a failure that leaves everything sound one may go on; after another one only fail.\<close>

lemma fine_tried: "fine cd True A m B \<Longrightarrow> fine cd F A (errand_tried m) (\<lambda>_ _. True)"
  unfolding fine_def [of cd F]
proof (intro allI impI)
  fix t r t'
  assume m: "fine cd True A m B" and t: "sound_now cd (ti_link t)" "A (link_trace (ti_link t))"
    and run: "errand_tried m t = (r, t')"
  obtain y where "m t = (y, t')" using run by (auto simp: errand_tried_def split: prod.splits)
  from fineD [OF m t this]
  show "ended_now cd (ti_link t') \<and> later (link_trace (ti_link t)) (link_trace (ti_link t'))
        \<and> (F \<longrightarrow> sound_now cd (ti_link t')) \<and> (\<forall>x. r = Inr x \<longrightarrow> sound_now cd (ti_link t') \<and> True)" by simp
qed

lemma fine_tried_then:
  assumes m: "fine cd F A m B" and f: "\<And>x. fine cd F A (f (Inr x)) C" "\<And>e. \<exists>e'. f (Inl e) = errand_fail e'"
    and A: "lasting A"
  shows "fine cd F A (errand_then (errand_tried m) f) C"
  unfolding fine_def
proof (intro allI impI)
  fix t r t'
  assume t: "sound_now cd (ti_link t)" "A (link_trace (ti_link t))" and run: "errand_then (errand_tried m) f t = (r, t')"
  obtain y s where y: "m t = (y, s)" by fastforce
  note s = fineD [OF m t y]
  have A': "A (link_trace (ti_link s))" by (rule later_lasting [OF A s(2) t(2)])
  from run y have go: "f y s = (r, t')" by (simp add: errand_then_def errand_tried_def)
  show "ended_now cd (ti_link t') \<and> later (link_trace (ti_link t)) (link_trace (ti_link t'))
        \<and> (F \<longrightarrow> sound_now cd (ti_link t'))
        \<and> (\<forall>x. r = Inr x \<longrightarrow> sound_now cd (ti_link t') \<and> C x (link_trace (ti_link t')))"
  proof (cases y)
    case (Inl e)
    with go f(2) [of e] s show ?thesis by (auto dest: sym)
  next
    case (Inr x)
    have now: "sound_now cd (ti_link s)" using s(4) [OF Inr] by blast
    note u = fineD [OF f(1) now A' go [unfolded Inr]]
    from u(1,3,4) later_trans [OF s(2) u(2)] show ?thesis by simp
  qed
qed

lemma fine_lease:
  assumes "fine cd F A m B" "lasting A"
  shows "fine cd F A (holding_lease name m) (\<lambda>_ _. True)"
  unfolding holding_lease_def
proof (rule fine_then [OF fine_action [OF acquired_sound] _ assms(2)])
  fix x
  have released: "sound_now cd (release_lease name l) = sound_now cd l" "ended_now cd (release_lease name l) = ended_now cd l"
    "link_trace (release_lease name l) = link_trace l" for l
    by (simp_all add: sound_now_def ended_now_def release_lease_def Let_def calm_def lawful_def drained_def sound_store_def)
  show "fine cd F (\<lambda>t. A t \<and> True) (\<lambda>t. case m t of (r, t') \<Rightarrow> (r, t'\<lparr>ti_link := release_lease name (ti_link t')\<rparr>)) (\<lambda>_ _. True)"
    unfolding fine_def
  proof (intro allI impI)
    fix t r t'
    assume t: "sound_now cd (ti_link t)" "A (link_trace (ti_link t)) \<and> True"
      and run: "(case m t of (r, t') \<Rightarrow> (r, t'\<lparr>ti_link := release_lease name (ti_link t')\<rparr>)) = (r, t')"
    obtain s where s: "m t = (r, s)" "ti_link t' = release_lease name (ti_link s)"
      using run by (auto split: prod.splits)
    from fineD [OF assms(1) t(1) _ s(1)] t(2)
    show "ended_now cd (ti_link t') \<and> later (link_trace (ti_link t)) (link_trace (ti_link t'))
        \<and> (F \<longrightarrow> sound_now cd (ti_link t')) \<and> (\<forall>x. r = Inr x \<longrightarrow> sound_now cd (ti_link t') \<and> True)"
      by (simp add: s(2) released)
  qed
qed

lemma fine_after:
  "fine cd F A m (\<lambda>_ _. True) \<Longrightarrow> (\<And>x. fine cd F A (f x) C) \<Longrightarrow> lasting A \<Longrightarrow> fine cd F A (errand_then m f) C"
  by (erule fine_then) (auto elim: fine_weaken)

section \<open>The steps of the command\<close>

lemma lifted_kept: "keeps cd (lift r)"
  by (rule traced_post [OF traced_lifted [OF frame_consistent]]) simp

lemma reads_kept: "keeps cd (profile_path name)" "keeps cd (read_auth cd p)"
  by (rule traced_post [OF traced_profile_path [OF frame_consistent]], simp)
    (rule traced_post [OF traced_read_auth [OF frame_consistent]], simp)

lemma account_info_kept:
  "keeps cd (read_account_info_checked cd named name)" "truthful (read_account_info_checked cd named name)"
proof -
  show "keeps cd (read_account_info_checked cd named name)"
    unfolding read_account_info_checked_def
    by (intro traced_then [OF reads_kept(1)] traced_then [OF reads_kept(2)] lifted_kept)
  show "truthful (read_account_info_checked cd named name)"
    unfolding read_account_info_checked_def by (intro truthful_intros)
qed

lemma context_kept: "keeps cd m \<Longrightarrow> keeps cd (in_context c m)"
  by (rule consistent_context)

lemma verify_kept:
  "keeps cd (verify_selected_profile_binding cd named lease expected)"
  "truthful (verify_selected_profile_binding cd named lease expected)"
proof -
  show "keeps cd (verify_selected_profile_binding cd named lease expected)"
    unfolding verify_selected_profile_binding_def
    by (rule traced_then [OF context_kept [OF account_info_kept(1)]], rule traced_then [OF lifted_kept], rule traced_give) simp
  show "truthful (verify_selected_profile_binding cd named lease expected)"
    unfolding verify_selected_profile_binding_def by (intro truthful_intros account_info_kept)
qed

lemma prepare_consume_kept:
  "keeps cd (prepare_reset_credit_consume_with_existing_lease cd w name credit lease)"
  "truthful (prepare_reset_credit_consume_with_existing_lease cd w name credit lease)"
proof -
  have refused: "keeps cd (refuse_text m)" for m by (rule traced_refuse_text) simp
  have loading: "keeps cd (load_consume_context cd name)"
    unfolding load_consume_context_def Let_def
    by (intro traced_then [OF reads_kept(2)] traced_option refused traced_if traced_give)
  show "keeps cd (prepare_reset_credit_consume_with_existing_lease cd w name credit lease)"
    unfolding prepare_reset_credit_consume_with_existing_lease_def
    by (intro traced_then [OF lifted_kept] traced_then [OF loading] traced_prod traced_give) simp
  show "truthful (prepare_reset_credit_consume_with_existing_lease cd w name credit lease)"
    unfolding prepare_reset_credit_consume_with_existing_lease_def load_consume_context_def Let_def
    by (intro truthful_intros)
qed

text \<open>Sending the card touches neither the link nor the profiles.\<close>

lemma fine_redemption:
  "fine cd F A (execute_prepared_reset_credit_consume_request w p lease) (\<lambda>_ _. True)"
  unfolding fine_def
proof (intro allI impI)
  fix t r t'
  assume t: "sound_now cd (ti_link t)" and run: "execute_prepared_reset_credit_consume_request w p lease t = (r, t')"
  have "ti_link t' = ti_link t"
    using run by (auto simp: execute_prepared_reset_credit_consume_request_def
        split: if_splits sum.splits prod.splits consume_end.splits)
  with t show "ended_now cd (ti_link t') \<and> later (link_trace (ti_link t)) (link_trace (ti_link t'))
        \<and> (F \<longrightarrow> sound_now cd (ti_link t')) \<and> (\<forall>x. r = Inr x \<longrightarrow> sound_now cd (ti_link t') \<and> True)"
    by (simp add: sound_ended)
qed

lemma fine_consume:
  assumes "lasting A"
  shows "fine cd F A (consume_reset_credit_by_id_leased_with_client cd w name credit lease) (\<lambda>_ _. True)"
  unfolding consume_reset_credit_by_id_leased_with_client_def
proof (rule fine_after [OF fine_tried [OF fine_action [OF prepare_consume_kept]] _ assms])
  fix r :: "best_error + prepared_consume"
  show "fine cd F A (case r of Inl (Failing f) \<Rightarrow> errand_give (Inl (NotConsumed (fl_chain f))) | Inl e \<Rightarrow> errand_fail e
      | Inr prepared \<Rightarrow> execute_prepared_reset_credit_consume_request w prepared lease) (\<lambda>_ _. True)"
    by (auto intro: fine_give fine_redemption fine_steps split: sum.split best_error.split)
qed

lemma cache_kept: "keeps cd cache_call" "truthful cache_call"
  by (rule traced_post [OF traced_cache [OF frame_consistent]], simp) (rule truthful_writes)

lemma fine_confirm:
  assumes A: "lasting A"
  shows "fine cd False A (confirm_revival cd w plan lease) (\<lambda>_ _. True)"
proof -
  have metadata: "fine cd True A (errand_then (at_profiles (read_account_info_checked cd named name))
      (\<lambda>info. errand_then (errand_lift r) (\<lambda>now. errand_give (info, now)))) (\<lambda>_ _. True)" for named name r
    by (intro fine_after fine_action account_info_kept fine_steps fine_give A) simp
  have settle: "fine cd False A (case m of Inl _ \<Rightarrow> errand_fail e | Inr (info, now) \<Rightarrow>
        (if is_candidate_eligible (c info now) safety then errand_give (g info now) else errand_fail e')) (\<lambda>_ _. True)"
    for m :: "best_error + account_info \<times> i64" and e e' c g safety
    by (cases m) (auto intro!: fine_steps fine_give split: prod.split)
  show ?thesis
    unfolding confirm_revival_def Let_def
  proof (rule fine_after [OF fine_tried [OF fine_action [OF cache_kept]] _ A], rule fine_tried_then [OF fine_usage _ _ A], goal_cases)
    case (1 _ u)
    show ?case unfolding sum.case by (intro fine_after [OF fine_tried [OF metadata] settle A])
  next
    case (2 _ e)
    show ?case unfolding sum.case by (rule exI, rule refl)
  qed
qed

text \<open>The spending of the card, with the authorisation still true before and after.\<close>

lemma fine_spend:
  assumes A: "lasting A"
  shows "fine cd False (\<lambda>t. A t \<and> replaceable cd (az_live a) t) (spend_card cd w plan a) (\<lambda>_ _. True)"
proof -
  have A': "lasting (\<lambda>t. A t \<and> replaceable cd (az_live a) t)" by (intro lasting_conj A lasting_replaceable)
  have valid: "traced (\<lambda>t. consistent_history cd t \<and> replaceable cd (az_live a) t) (validate_authorized_profile_switch cd a)
      (\<lambda>_. consistent_history cd) (\<lambda>_. consistent_history cd)"
    by (rule traced_post [OF traced_validate_authorized [OF frame_consistent]]) auto
  have check: "traced (\<lambda>t. consistent_history cd t \<and> A t \<and> replaceable cd (az_live a) t)
      (in_context c (revalidate_authorized_profile_switch cd a))
      (\<lambda>_ t. consistent_history cd t \<and> True) (\<lambda>_. consistent_history cd)" for c
  proof (rule consistent_context)
    have "traced (\<lambda>t. consistent_history cd t \<and> replaceable cd (az_live a) t) (revalidate_authorized_profile_switch cd a)
        (\<lambda>_. consistent_history cd) (\<lambda>_. consistent_history cd)"
      unfolding revalidate_authorized_profile_switch_def
      by (intro traced_with_transaction traced_then [OF valid] traced_give frame_rules frame_consistent observed_intros)
    then show "traced (\<lambda>t. consistent_history cd t \<and> A t \<and> replaceable cd (az_live a) t)
        (revalidate_authorized_profile_switch cd a) (\<lambda>_ t. consistent_history cd t \<and> True) (\<lambda>_. consistent_history cd)"
      by (rule traced_mono) auto
  qed
  have after: "fine cd False (\<lambda>t. A t \<and> replaceable cd (az_live a) t) (case r of
        Inr _ \<Rightarrow> confirm_revival cd w plan (az_alias a)
      | Inl e \<Rightarrow>
          if outcome_unknown_after_request e
          then errand_then (errand_tried (at_profiles cache_call)) (\<lambda>_.
                 errand_fail (CardOutcomeUnknown name (user_facing_unknown_message name)))
          else errand_bail (m name)) (\<lambda>_ _. True)" for r :: "consume_error + consumed_reset_credit" and name m
    by (cases r) (auto intro!: fine_steps fine_confirm [OF A'] fine_after [OF fine_tried [OF fine_action [OF cache_kept]] _ A'])
  show ?thesis
    unfolding spend_card_def Let_def
    by (rule fine_after [OF fine_profiles [OF check] _ A'])
      (intro truthful_intros, rule fine_after [OF fine_consume [OF A'] after A'])
qed

lemma fine_revival:
  assumes A: "lasting A"
  shows "fine cd False (\<lambda>t. A t \<and> replaceable cd (az_live a) t) (execute_revival cd w plan a) (\<lambda>_ _. True)"
proof -
  let ?A = "\<lambda>t. A t \<and> replaceable cd (az_live a) t"
  have A': "lasting ?A" by (intro lasting_conj A lasting_replaceable)
  have pre: "fine cd False ?A (preflight_revival cd w plan a u info now) (\<lambda>_ _. True)" for u info now
    unfolding preflight_revival_def Let_def
    by (auto intro!: fine_steps fine_give fine_spend A split: option.split)
  show ?thesis
    unfolding execute_revival_def Let_def
    by (intro fine_after fine_steps fine_if fine_usage fine_action context_kept account_info_kept truthful_intros pre A')
qed

lemma lasting_confirmed: "lasting (confirmed_ok cd c)"
  using lastingD [OF lasting_replaceable] by (auto simp: confirmed_ok_def lasting_def split: confirmed_switch.splits)

lemma lasting_true: "lasting (\<lambda>_. True)"
  by (simp add: lasting_def)

lemma fine_confirmed:
  "fine cd F (\<lambda>_. True) (at_profiles (prepare_and_confirm_profile_switch cd input name allow)) (confirmed_ok cd)"
proof (rule fine_profiles)
  show "traced (\<lambda>t. consistent_history cd t \<and> True) (prepare_and_confirm_profile_switch cd input name allow)
      (\<lambda>c t. consistent_history cd t \<and> confirmed_ok cd c t) (\<lambda>_. consistent_history cd)"
    by (rule traced_mono [OF traced_confirm [OF frame_consistent observed_consistent observed_consistent]]) auto
qed (rule truthful_confirm)

lemma fine_commit:
  "fine cd F (confirmed_ok cd c) (at_profiles (commit_confirmed_profile_switch_with_lease cd c lease)) (\<lambda>_ _. True)"
proof (rule fine_profiles)
  show "traced (\<lambda>t. consistent_history cd t \<and> confirmed_ok cd c t) (commit_confirmed_profile_switch_with_lease cd c lease)
      (\<lambda>_ t. consistent_history cd t \<and> True) (\<lambda>_. consistent_history cd)"
    by (rule traced_post [OF consistent_commit_leased]) simp
  show "truthful (commit_confirmed_profile_switch_with_lease cd c lease)"
    unfolding commit_confirmed_profile_switch_with_lease_def by (intro truthful_intros)
qed

lemma fine_authorize:
  "fine cd F (confirmed_ok cd c) (at_profiles (authorize_confirmed_profile_switch_before_side_effect cd c lease))
     (\<lambda>a. replaceable cd (az_live a))"
proof (rule fine_profiles)
  show "traced (\<lambda>t. consistent_history cd t \<and> confirmed_ok cd c t)
      (authorize_confirmed_profile_switch_before_side_effect cd c lease)
      (\<lambda>a t. consistent_history cd t \<and> replaceable cd (az_live a) t) (\<lambda>_. consistent_history cd)"
    by (rule traced_authorize [OF frame_consistent observed_consistent observed_consistent])
qed (rule truthful_authorized)

lemma fine_activate:
  "fine cd F (\<lambda>t. A t \<and> replaceable cd (az_live a) t)
     (commit_result side (at_profiles (commit_authorized_profile_switch cd a))) (\<lambda>_ _. True)"
proof -
  have "fine cd F (\<lambda>t. A t \<and> replaceable cd (az_live a) t) (at_profiles (commit_authorized_profile_switch cd a)) (\<lambda>_ _. True)"
  proof (rule fine_profiles)
    show "traced (\<lambda>t. consistent_history cd t \<and> A t \<and> replaceable cd (az_live a) t) (commit_authorized_profile_switch cd a)
        (\<lambda>_ t. consistent_history cd t \<and> True) (\<lambda>_. consistent_history cd)"
      by (rule traced_mono [OF consistent_commit_authorized]) auto
  qed (rule truthful_authorized)
  note base = this
  show ?thesis
    unfolding fine_def
  proof (intro allI impI)
    fix t r t'
    assume t: "sound_now cd (ti_link t)" "A (link_trace (ti_link t)) \<and> replaceable cd (az_live a) (link_trace (ti_link t))"
      and run: "commit_result side (at_profiles (commit_authorized_profile_switch cd a)) t = (r, t')"
    obtain y where y: "at_profiles (commit_authorized_profile_switch cd a) t = (y, t')" "\<And>x. r = Inr x \<Longrightarrow> y = Inr x"
      using run by (auto simp: commit_result_def split: prod.splits sum.splits side_effect.splits)
    from fineD [OF base t y(1)] y(2)
    show "ended_now cd (ti_link t') \<and> later (link_trace (ti_link t)) (link_trace (ti_link t'))
        \<and> (F \<longrightarrow> sound_now cd (ti_link t')) \<and> (\<forall>x. r = Inr x \<longrightarrow> sound_now cd (ti_link t') \<and> True)"
      by blast
  qed
qed

lemma fine_carry_out: "fine cd False (\<lambda>_. True) (carry_out cd w input allow plan) (\<lambda>_ _. True)"
proof (cases plan)
  case (PlanReady outcome expected)
  have "fine cd False (confirmed_ok cd c) (holding_lease name (
      errand_then (at_profiles (verify_selected_profile_binding cd named name expected)) (\<lambda>info.
      errand_then (at_profiles (commit_confirmed_profile_switch_with_lease cd c name)) (\<lambda>history.
        errand_give (g info history))))) (\<lambda>_ _. True)" for c name named and g :: "account_info \<Rightarrow> anyhow option \<Rightarrow> best_done"
    by (intro fine_lease fine_after fine_action verify_kept fine_commit fine_give lasting_confirmed) simp
  then show ?thesis
    unfolding carry_out_def PlanReady selection_plan.case
    by (intro fine_then [OF fine_confirmed] lasting_true) simp
next
  case (PlanRevive p)
  have inner: "fine cd False (\<lambda>t. confirmed_ok cd c t \<and> replaceable cd (az_live a) t) (errand_then (execute_revival cd w p a) (\<lambda>ex.
      errand_then (commit_result (re_side_effect ex) (at_profiles (commit_authorized_profile_switch cd a))) (\<lambda>history.
        errand_give (g ex history)))) (\<lambda>_ _. True)"
    for c a and g :: "revival_execution \<Rightarrow> anyhow option \<Rightarrow> best_done"
    by (intro fine_after fine_revival fine_activate fine_give lasting_conj lasting_confirmed lasting_replaceable) simp
  have "fine cd False (confirmed_ok cd c) (holding_lease name (
      errand_then (at_profiles (verify_selected_profile_binding cd named name expected)) (\<lambda>_.
      errand_then (at_profiles (authorize_confirmed_profile_switch_before_side_effect cd c name)) (\<lambda>a.
      errand_then (execute_revival cd w p a) (\<lambda>ex.
      errand_then (commit_result (re_side_effect ex) (at_profiles (commit_authorized_profile_switch cd a))) (\<lambda>history.
        errand_give (g ex history))))))) (\<lambda>_ _. True)"
    for c name named expected and g :: "revival_execution \<Rightarrow> anyhow option \<Rightarrow> best_done"
    by (rule fine_lease [OF fine_after [OF fine_action [OF verify_kept] fine_then [OF fine_authorize inner]]])
      (rule lasting_confirmed)+
  then show ?thesis
    unfolding carry_out_def PlanRevive selection_plan.case Let_def
    by (intro fine_then [OF fine_confirmed] lasting_true) simp
qed



end
