(* ===== verification/Import_Command.thy ===== *)
theory Import_Command
  imports Usage_Request
begin

text \<open>
  Importing a credential file (\<open>src/src/commands/import.rs\<close>, and the validation of
  \<open>src/src/usage/api.rs\<close>): the credential is reserved, validated by a usage read that may rotate
  it, and saved as a new profile. Every rotation is written to a recovery file before anything
  else is sent; when the import fails after one, the recovery file is promoted or kept.

  \<open>persist_unbound_refresh_resolution\<close> is followed by the adoption of the tokens in each of its
  uses; the two are one function here.
\<close>

section \<open>The validation\<close>

record import_desk =
  im_store :: store
  im_value :: json
  im_refreshed :: "refreshed_tokens option"
  im_stage :: "nat option"

text \<open>The rotation callback of the import: the first rotation creates the recovery file.\<close>

definition stage_rotated :: "json \<Rightarrow> import_desk \<Rightarrow> unit result \<times> import_desk" where
  "stage_rotated v d =
     (case im_stage d of
        Some i \<Rightarrow>
          (case persist_stage i v (im_store d) of
             (Inr (j, r), s) \<Rightarrow> (r, d\<lparr>im_store := s, im_stage := Some j\<rparr>)
           | (Inl f, s) \<Rightarrow> (Inl (fl_chain f), d\<lparr>im_store := s\<rparr>))
      | None \<Rightarrow>
          (case stage_rotation_recovery v (im_store d) of
             (Inr i, s) \<Rightarrow> (Inr (), d\<lparr>im_store := s, im_stage := Some i\<rparr>)
           | (Inl f, s) \<Rightarrow> (Inl (fl_chain f), d\<lparr>im_store := s\<rparr>)))"

definition adopt_refreshed_tokens ::
  "(refreshed_tokens \<Rightarrow> string result) \<Rightarrow> refreshed_tokens \<Rightarrow> import_desk \<Rightarrow> unit result \<times> import_desk" where
  "adopt_refreshed_tokens stamp tokens d =
     (let d = d\<lparr>im_refreshed := Some tokens\<rparr> in
      case apply_tokens (stamp tokens) (im_value d) (rt_id_token tokens) (rt_access_token tokens)
             (rt_refresh_token tokens) of
        Inl e \<Rightarrow> (Inl e, d)
      | Inr v \<Rightarrow>
          (case stage_rotated v (d\<lparr>im_value := v\<rparr>) of
             (r, d) \<Rightarrow> (with_context ''persisting rotated import credentials'' r, d)))"

definition persist_unbound_refresh_resolution ::
  "(refreshed_tokens \<Rightarrow> string result) \<Rightarrow> (nat \<Rightarrow> string) \<Rightarrow> string \<Rightarrow> unit \<Rightarrow> string \<Rightarrow> refresh_resolution
     \<Rightarrow> import_desk \<Rightarrow> (fetch_error + refreshed_tokens) \<times> import_desk" where
  "persist_unbound_refresh_resolution stamp stage_path name u offered resolution d =
     (case resolution of
        Validated tokens \<Rightarrow>
          (case adopt_refreshed_tokens stamp tokens d of
             (r, d) \<Rightarrow> (map_err other_error (map_ok (\<lambda>_. tokens) r), d))
      | RotatedButInvalid recovery cause \<Rightarrow>
          (case stage_rotation_recovery recovery (im_store d) of
             (Inr i, s) \<Rightarrow>
               (Inl (other_error ((in_brackets name
                  @ '' token refresh returned an invalid token set; its non-empty successor refresh token was preserved privately at ''
                  @ stage_path i @ '' and was not installed'') # cause)), d\<lparr>im_store := s\<rparr>)
           | (Inl f, s) \<Rightarrow>
               (Inl (other_error [in_brackets name @ '' token refresh returned an invalid token set ('' @ show_chain cause
                  @ '') after issuing a non-empty successor refresh token, and its private recovery copy failed (''
                  @ show_chain (fl_chain f) @ ''); the previous refresh token may already be invalid'']),
                d\<lparr>im_store := s\<rparr>)))"

definition authorize_freely :: "'s \<Rightarrow> (fetch_error + unit) \<times> 's" where
  "authorize_freely s = (Inr (), s)"

record import_world =
  iw_endpoints :: "unit result"
  iw_fetch :: fetch_world
  iw_stamp :: "refreshed_tokens \<Rightarrow> string result"
  iw_stage_path :: "nat \<Rightarrow> string"

definition nonempty_account :: "account_info \<Rightarrow> string option" where
  "nonempty_account info = filter_opt (\<lambda>a. a \<noteq> []) (ai_account_id info)"

definition fetch_import_usage ::
  "import_world \<Rightarrow> string \<Rightarrow> string option \<Rightarrow> string option \<Rightarrow> string
     \<Rightarrow> (import_desk, usage_info \<times> string) net" where
  "fetch_import_usage w access_tok id_token refresh_tok account =
     net_then (fetch_usage_with_refresh (iw_fetch w) authorize_freely
         (persist_unbound_refresh_resolution (iw_stamp w) (iw_stage_path w) ''import'') ''import''
         access_tok id_token refresh_tok) (\<lambda>usage. net_give (usage, account))"

definition validate_import_auth_capturing_refresh ::
  "codec \<Rightarrow> import_world \<Rightarrow> (import_desk, usage_info \<times> string) net" where
  "validate_import_auth_capturing_refresh cd w l =
     (let val = im_value (ln_local l); id_token = extract_id_token val in
      case extract_tokens val of
        (Some access_tok, refresh_tok) \<Rightarrow>
          net_then (net_lift (ok_or (other_error [''imported auth must contain an account_id''])
              (nonempty_account (account_info_from_auth_value cd val))))
            (fetch_import_usage w access_tok id_token refresh_tok) l
      | (None, Some offered) \<Rightarrow>
          net_then (authorized_rotation authorize_freely) (\<lambda>u.
          net_then (do_refresh_token_for_usage (iw_fetch w) ''import'' id_token offered) (\<lambda>resolution.
          net_then (persisted_rotation
              (persist_unbound_refresh_resolution (iw_stamp w) (iw_stage_path w) ''import'') u offered resolution)
            (\<lambda>first l.
               net_then (net_lift (ok_or (other_error [''refreshed auth must contain an account_id''])
                   (nonempty_account (account_info_from_auth_value cd (im_value (ln_local l))))))
                 (fetch_import_usage w (rt_access_token first) (Some (rt_id_token first))
                    (Some (rt_refresh_token first))) l))) l
      | (None, None) \<Rightarrow>
          (Inl (other_error [''auth.json missing access_token and refresh_token'']), l))"

definition validate_import_auth_with_client ::
  "codec \<Rightarrow> import_world \<Rightarrow> (import_desk, usage_info \<times> string) net" where
  "validate_import_auth_with_client cd w =
     net_then (net_lift (map_err other_error (iw_endpoints w))) (\<lambda>_. validate_import_auth_capturing_refresh cd w)"

section \<open>The import of one file\<close>

record import_failure =
  if_stage :: string
  if_error :: string

record import_success =
  is_alias :: string
  is_account :: account_info
  is_usage :: usage_info
  is_recovery :: "nat option"
  is_warning :: "string option"

datatype import_step =
    ImportDone "import_failure + import_success"
  | ImportRescue json "nat option" anyhow

definition import_failed :: "string \<Rightarrow> string \<Rightarrow> import_failure" where
  "import_failed stage e = \<lparr>if_stage = stage, if_error = e\<rparr>"

definition stage_remains :: "(nat \<Rightarrow> string) \<Rightarrow> string \<Rightarrow> nat option \<Rightarrow> string" where
  "stage_remains stage_path found i =
     (case i of
        Some i \<Rightarrow> found @ '' at '' @ stage_path i @ ''.''
      | None \<Rightarrow> ''No recovery path is claimed because the original stage is no longer proven there.'')"

definition import_cleanup_projection ::
  "(nat \<Rightarrow> string) \<Rightarrow> incomplete_import option \<Rightarrow> nat option \<times> string option" where
  "import_cleanup_projection stage_path cleanup =
     (case cleanup of
        None \<Rightarrow> (None, None)
      | Some c \<Rightarrow>
          (ii_recovery c, Some (show_chain (ii_cause c) @ ''; '' @ (case ii_recovery c of
             Some i \<Rightarrow> ''exact recovery stage: '' @ stage_path i
           | None \<Rightarrow> ''no recovery path is claimed because the original stage is no longer proven there''))))"

definition validated_import_profile_commit_failure ::
  "(nat \<Rightarrow> string) \<Rightarrow> string \<Rightarrow> incomplete_import \<Rightarrow> import_failure" where
  "validated_import_profile_commit_failure stage_path name incomplete =
     import_failed ''token_rotated'' (''validated import profile '' @ quoted name
       @ '' became visible, but its commit is incomplete ('' @ show_chain (ii_cause incomplete) @ ''). ''
       @ stage_remains stage_path ''The exact recovery stage remains'' (ii_recovery incomplete)
       @ '' Do not retry the consumed source or use the partial profile until its state is inspected.'')"

definition import_outcome_report ::
  "(nat \<Rightarrow> string) \<Rightarrow> account_info \<Rightarrow> usage_info \<Rightarrow> import_outcome \<Rightarrow> import_failure + import_success" where
  "import_outcome_report stage_path account usage outcome =
     (case io_commit outcome of
        Some incomplete \<Rightarrow> Inl (validated_import_profile_commit_failure stage_path (io_alias outcome) incomplete)
      | None \<Rightarrow>
          (case import_cleanup_projection stage_path (io_cleanup outcome) of (path, warning) \<Rightarrow>
             Inr \<lparr>is_alias = io_alias outcome, is_account = account, is_usage = usage,
                  is_recovery = path, is_warning = warning\<rparr>))"

definition import_commit_report ::
  "(nat \<Rightarrow> string) \<Rightarrow> account_info \<Rightarrow> usage_info \<Rightarrow> nat option \<Rightarrow> failure + import_commit
     \<Rightarrow> import_failure + import_success" where
  "import_commit_report stage_path account usage staged r =
     (case r of
        Inr (ImportedProfile outcome) \<Rightarrow> import_outcome_report stage_path account usage outcome
      | Inr (ImportPreserved i cause) \<Rightarrow>
          Inl (import_failed ''token_rotated'' (''validated import could not be safely committed (''
            @ show_chain cause @ ''). '' @ stage_remains stage_path ''The exact usable recovery stage remains'' i
            @ '' No activatable profile is assumed. Do not retry the consumed source; inspect the reported state first.''))
      | Inl f \<Rightarrow>
          (case staged of
             Some i \<Rightarrow>
               Inl (import_failed ''token_rotated'' (''validated import could not be safely committed (''
                 @ show_chain (fl_chain f) @ ''). The recovery stage was originally observed at '' @ stage_path i
                 @ '', but this wrapper does not claim that path still owns it or that no profile became visible. Do not retry the consumed source; inspect the reported filesystem state first.''))
           | None \<Rightarrow> Inl (import_failed ''save'' (hd (fl_chain f)))))"

text \<open>
  Within the reservation: the validation over the network script \<open>net\<close>, then the commit. A failure
  after a rotation is handed out of the reservation, whose locks are released first.
\<close>

definition import_step_of ::
  "codec \<Rightarrow> timestamps \<Rightarrow> import_world \<Rightarrow> string option \<Rightarrow> string option \<Rightarrow> parsed_registry
     \<Rightarrow> import_desk \<Rightarrow> fetch_error + usage_info \<times> string \<Rightarrow> import_step action" where
  "import_step_of cd ts w hint suggested profiles d validation =
     (let rotated = (im_refreshed d \<noteq> None);
          failed = (\<lambda>stage e. give (if rotated then ImportRescue (im_value d) (im_stage d) e
                                else ImportDone (Inl (import_failed stage (hd e)))))
      in case validation of
           Inl e \<Rightarrow> failed ''usage_validation'' (fe_chain e)
         | Inr (usage, account_id) \<Rightarrow>
             (case validate_auth_value cd (im_value d) of
                Inl e \<Rightarrow> failed ''structure'' e
              | Inr account \<Rightarrow>
                  if rotated \<and> im_stage d = None
                  then give (ImportDone (Inl (import_failed ''token_rotation_lost''
                         ''usage validation completed with rotated credentials but no durable import stage'')))
                  else
                    also_then (tried (save_reserved_imported_auth_value_with_stage cd ts (im_value d) hint
                        account_id suggested (im_stage d) profiles)) (\<lambda>r.
                      give (ImportDone (import_commit_report (iw_stage_path w) account usage
                        (if rotated then im_stage d else None) r)))))"

text \<open>The validation of an import starts with an empty log.\<close>

definition fresh_link :: "import_desk link \<Rightarrow> import_desk \<Rightarrow> import_desk link" where
  "fresh_link net d = unlimited (net\<lparr>ln_log := [], ln_local := d\<rparr>)"

definition import_body ::
  "codec \<Rightarrow> timestamps \<Rightarrow> import_world \<Rightarrow> import_desk link \<Rightarrow> json \<Rightarrow> string option \<Rightarrow> string option
     \<Rightarrow> parsed_registry \<Rightarrow> import_step action" where
  "import_body cd ts w net v hint suggested profiles s =
     (case validate_import_auth_with_client cd w
             (fresh_link net \<lparr>im_store = s, im_value = v, im_refreshed = None, im_stage = None\<rparr>) of
        (validation, l) \<Rightarrow>
          import_step_of cd ts w hint suggested profiles (ln_local l) validation (im_store (ln_local l)))"

definition rescue_rotated_credentials ::
  "codec \<Rightarrow> timestamps \<Rightarrow> import_world \<Rightarrow> string option \<Rightarrow> string option \<Rightarrow> json \<Rightarrow> nat option \<Rightarrow> anyhow
     \<Rightarrow> import_failure action" where
  "rescue_rotated_credentials cd ts w hint suggested v stage cause =
     also_then (case stage of
                  None \<Rightarrow> give None
                | Some i \<Rightarrow> also_then (tried (stage_contains i v)) (\<lambda>r.
                    give (if r = Inr True then Some i else None))) (\<lambda>staged.
     also_then (tried (save_recovered_import_auth_value_with_stage cd ts v hint suggested stage)) (\<lambda>r.
       give (case r of
               Inr (ImportedProfile outcome) \<Rightarrow>
                 (case io_commit outcome of
                    Some incomplete \<Rightarrow>
                      import_failed ''token_rotated'' (''import failed after credential rotation (''
                        @ hd cause @ ''). Profile '' @ quoted (io_alias outcome)
                        @ '' became visible, but its commit is incomplete ('' @ show_chain (ii_cause incomplete)
                        @ ''). '' @ stage_remains (iw_stage_path w) ''The exact recovery stage remains'' (ii_recovery incomplete))
                  | None \<Rightarrow>
                      import_failed ''token_rotated'' (''import failed after credential rotation (''
                        @ hd cause @ ''), so the usable credentials were created as profile ''
                        @ quoted (io_alias outcome)))
             | Inr (ImportPreserved i reason) \<Rightarrow>
                 import_failed ''token_rotated'' (''import failed after credential rotation (''
                   @ hd cause @ ''). Profile recovery did not complete ('' @ hd reason @ ''). ''
                   @ stage_remains (iw_stage_path w) ''The exact usable recovery stage remains'' i)
             | Inl f \<Rightarrow>
                 (case staged of
                    Some i \<Rightarrow>
                      import_failed ''token_rotated'' (''import failed after credential rotation (''
                        @ hd cause @ ''), and promoting the staged credentials also failed (''
                        @ show_chain (fl_chain f) @ ''). A matching stage was observed at '' @ iw_stage_path w i
                        @ '' before that attempt'')
                  | None \<Rightarrow>
                      import_failed ''token_rotation_lost''
                        (''import failed after the auth server rotated the credentials of this account (''
                          @ hd cause @ ''), and saving them failed ('' @ show_chain (fl_chain f) @ '')'')))))"

definition import_one_file ::
  "codec \<Rightarrow> timestamps \<Rightarrow> import_world \<Rightarrow> import_desk link \<Rightarrow> json result \<Rightarrow> string option
     \<Rightarrow> (import_failure + import_success) action" where
  "import_one_file cd ts w net source name =
     (case source of
        Inl e \<Rightarrow> give (Inl (import_failed ''file_format'' (hd e)))
      | Inr v \<Rightarrow>
     (case validate_auth_value cd v of
        Inl e \<Rightarrow> give (Inl (import_failed ''structure'' (hd e)))
      | Inr account \<Rightarrow>
     (case (case name of None \<Rightarrow> Inr () | Some a \<Rightarrow> validate_alias a) of
        Inl e \<Rightarrow> give (Inl (import_failed ''alias'' (hd e)))
      | Inr _ \<Rightarrow>
          also_then (tried (validate_managed cd v)) (\<lambda>managed.
          case managed of
            Inl f \<Rightarrow> give (Inl (import_failed ''managed_policy'' (hd (fl_chain f))))
          | Inr _ \<Rightarrow>
              let suggested = map_option alias_from_email (ai_email account) in
              also_then (tried (reserve_import_credential_for_validation cd v
                  (import_body cd ts w net v name suggested))) (\<lambda>r.
              case r of
                Inl f \<Rightarrow> give (Inl (import_failed ''duplicate_credential'' (hd (fl_chain f))))
              | Inr (ImportDone result) \<Rightarrow> give result
              | Inr (ImportRescue value stage cause) \<Rightarrow>
                  also_then (rescue_rotated_credentials cd ts w name suggested value stage cause) (\<lambda>failure.
                    give (Inl failure)))))))"

section \<open>The tokens of a rotation reach the recovery file\<close>

definition with_tokens :: "json \<Rightarrow> bool" where
  "with_tokens v \<longleftrightarrow> (\<exists>obj tokens. v = JObject obj \<and> map_of obj ''tokens'' = Some (JObject tokens))"

lemma validated_with_tokens: "validate_auth_value cd v = Inr a \<Longrightarrow> with_tokens v"
  by (auto simp: validate_auth_value_def result_eq_Inr bind_eq_Some_conv jget_Some with_tokens_def)

lemma applied_with_tokens: "apply_tokens st v i a r = Inr v' \<Longrightarrow> with_tokens v'"
  by (auto simp: apply_tokens_Inr with_tokens_def)

lemma applied_complete:
  "with_tokens v \<Longrightarrow> is_ok st \<Longrightarrow> complete_resolution (Validated t) \<Longrightarrow>
     is_ok (apply_tokens st v (rt_id_token t) (rt_access_token t) (rt_refresh_token t))"
  by (auto simp: is_ok_iff apply_tokens_Inr with_tokens_def)

text \<open>What holds between the steps of a validation, if the clock works.\<close>

definition adopted :: "import_desk \<Rightarrow> bool" where
  "adopted d \<longleftrightarrow> with_tokens (im_value d)
     \<and> (\<forall>i. im_stage d = Some i \<longrightarrow> i < length (st_stages (im_store d)))
     \<and> (\<forall>t. im_refreshed d = Some t \<longrightarrow> refresh_token (im_value d) = Some (rt_refresh_token t))"

definition import_sound :: "codec \<Rightarrow> import_world \<Rightarrow> import_desk \<Rightarrow> bool" where
  "import_sound cd w d \<longleftrightarrow> guarded cd (st_trace (im_store d)) \<and> coherent (im_store d)
     \<and> ((\<forall>t. is_ok (iw_stamp w t)) \<longrightarrow> adopted d)"

text \<open>The accesses to recovery files.\<close>

lemma stage_indices:
  "run (\<lambda>s. True) (stage_rotation_recovery v) (\<lambda>i s. i < length (st_stages s)) (\<lambda>s. True)"
  "run (\<lambda>s. i < length (st_stages s)) (persist_stage i v) (\<lambda>(j, _) s. j < length (st_stages s))
     (\<lambda>s. i < length (st_stages s))"
proof -
  have settled: "settled (\<lambda>s. i < length (st_stages s))" by (simp add: settled_def record_event_def)
  show "run (\<lambda>s. True) (stage_rotation_recovery v) (\<lambda>i s. i < length (st_stages s)) (\<lambda>s. True)"
    unfolding stage_rotation_recovery_def Let_def
    by (rule run_access [OF settled_const]) (auto split: reply.splits)
  show "run (\<lambda>s. i < length (st_stages s)) (persist_stage i v) (\<lambda>(j, _) s. j < length (st_stages s))
     (\<lambda>s. i < length (st_stages s))"
    unfolding persist_stage_def by (rule run_access [OF settled]) (auto split: reply.splits)
qed

lemma stage_guarded:
  "guarded cd (st_trace s) \<Longrightarrow> guarded cd (st_trace (snd (stage_rotation_recovery v s)))"
  "guarded cd (st_trace s) \<Longrightarrow> guarded cd (st_trace (snd (persist_stage i v s)))"
proof -
  note f = frame_self [OF frame_guarded]
  show "guarded cd (st_trace s) \<Longrightarrow> guarded cd (st_trace (snd (stage_rotation_recovery v s)))"
    "guarded cd (st_trace s) \<Longrightarrow> guarded cd (st_trace (snd (persist_stage i v s)))"
    by (rule traced_final [OF traced_stage [OF f]] traced_final [OF traced_stage_accesses(2) [OF f]]; assumption)+
qed

lemma stage_coherent:
  "coherent_over base s \<Longrightarrow> coherent_over base (snd (stage_rotation_recovery v s))"
  "coherent_over base s \<Longrightarrow> coherent_over base (snd (persist_stage i v s))"
  by (rule truthful_over [OF truthful_stages(1) _ prod.collapse [symmetric]], assumption)
    (rule truthful_over [OF truthful_stages(3) _ prod.collapse [symmetric]], assumption)

lemma stage_true:
  "coherent s \<Longrightarrow> coherent (snd (stage_rotation_recovery v s))"
  "coherent s \<Longrightarrow> coherent (snd (persist_stage i v s))"
  using truthfulD(1) [OF truthful_stages(1)] truthfulD(1) [OF truthful_stages(3)] by auto

lemma run_cases: "run P m Q E \<Longrightarrow> P s \<Longrightarrow> m s = (r, s') \<Longrightarrow> (case r of Inl _ \<Rightarrow> E s' | Inr x \<Rightarrow> Q x s')"
  by (auto split: sum.split dest: runD)

lemma stage_rotated_sound:
  assumes "guarded cd (st_trace (im_store d))" "coherent (im_store d)" "stage_rotated v d = (r, d')"
  shows "guarded cd (st_trace (im_store d')) \<and> coherent (im_store d') \<and> im_value d' = im_value d
     \<and> im_refreshed d' = im_refreshed d
     \<and> ((\<forall>i. im_stage d = Some i \<longrightarrow> i < length (st_stages (im_store d)))
          \<longrightarrow> (\<forall>i. im_stage d' = Some i \<longrightarrow> i < length (st_stages (im_store d'))))"
proof (cases "im_stage d")
  case None
  obtain x s where x: "stage_rotation_recovery v (im_store d) = (x, s)" by fastforce
  with stage_guarded(1) [OF assms(1), of v] stage_true(1) [OF assms(2), of v] run_cases [OF stage_indices(1) TrueI x] None assms(3) show ?thesis
    by (auto simp: stage_rotated_def split: sum.splits)
next
  case (Some i)
  obtain x s where x: "persist_stage i v (im_store d) = (x, s)" by fastforce
  with stage_guarded(2) [OF assms(1), of i v] stage_true(2) [OF assms(2), of i v] run_cases [OF stage_indices(2) _ x] Some assms(3) x show ?thesis
    by (auto simp: stage_rotated_def split: prod.splits sum.splits)
qed

lemma persist_import_sound:
  assumes "import_sound cd w d" "complete_resolution resolution"
  shows "import_sound cd w (snd (persist_unbound_refresh_resolution (iw_stamp w) path name u offered resolution d))"
proof (cases resolution)
  case (RotatedButInvalid v cause)
  obtain x s where x: "stage_rotation_recovery v (im_store d) = (x, s)" by fastforce
  have "run (\<lambda>s. \<forall>i. im_stage d = Some i \<longrightarrow> i < length (st_stages s)) (stage_rotation_recovery v)
      (\<lambda>_ s. \<forall>i. im_stage d = Some i \<longrightarrow> i < length (st_stages s)) (\<lambda>s. \<forall>i. im_stage d = Some i \<longrightarrow> i < length (st_stages s))"
    unfolding stage_rotation_recovery_def Let_def
    by (rule run_access) (auto simp: settled_def record_event_def split: reply.splits)
  from run_cases [OF this _ x] stage_guarded(1) [of cd "im_store d" v] stage_true(1) [of "im_store d" v] assms(1) x RotatedButInvalid show ?thesis
    by (auto simp: persist_unbound_refresh_resolution_def import_sound_def adopted_def split: sum.splits)
next
  case (Validated t)
  let ?d = "d\<lparr>im_refreshed := Some t\<rparr>"
  show ?thesis
  proof (cases "apply_tokens (iw_stamp w t) (im_value d) (rt_id_token t) (rt_access_token t) (rt_refresh_token t)")
    case (Inl e)
    have "\<not> (\<forall>t. is_ok (iw_stamp w t)) \<or> \<not> with_tokens (im_value d)"
      using applied_complete [of "im_value d" "iw_stamp w t" t] Inl assms(2) Validated by auto
    with Inl Validated assms(1) show ?thesis
      by (auto simp: persist_unbound_refresh_resolution_def adopt_refreshed_tokens_def import_sound_def adopted_def)
  next
    case (Inr v)
    obtain r d' where s: "stage_rotated v (?d\<lparr>im_value := v\<rparr>) = (r, d')" by fastforce
    from stage_rotated_sound [OF _ _ s] assms(1) applied_with_tokens [OF Inr] refresh_token_apply_tokens [OF Inr]
      Inr Validated s show ?thesis
      by (auto simp: persist_unbound_refresh_resolution_def adopt_refreshed_tokens_def import_sound_def adopted_def)
  qed
qed

lemma persist_import_stops:
  "fst (persist_unbound_refresh_resolution stamp path name u offered resolution d) = Inl e \<Longrightarrow> \<not> may_continue e"
  by (auto simp: persist_unbound_refresh_resolution_def other_error_def may_continue_def map_err_def
      split: refresh_resolution.splits prod.splits sum.splits)

text \<open>On disk, a rotation does nothing but write a recovery file.\<close>

lemma stage_rotated_store:
  "im_store (snd (stage_rotated v d)) = (case im_stage d of
     Some i \<Rightarrow> snd (persist_stage i v (im_store d)) | None \<Rightarrow> snd (stage_rotation_recovery v (im_store d)))"
  by (cases "im_stage d") (simp_all add: stage_rotated_def split: prod.splits sum.splits)

lemma persist_import_store:
  "im_store (snd (persist_unbound_refresh_resolution stamp path name u offered resolution d))
     = (case resolution of
          RotatedButInvalid v _ \<Rightarrow> snd (stage_rotation_recovery v (im_store d))
        | Validated t \<Rightarrow>
            (case apply_tokens (stamp t) (im_value d) (rt_id_token t) (rt_access_token t) (rt_refresh_token t) of
               Inl _ \<Rightarrow> im_store d
             | Inr v \<Rightarrow> im_store (snd (stage_rotated v (d\<lparr>im_refreshed := Some t, im_value := v\<rparr>)))))"
  by (cases resolution)
    (simp_all add: persist_unbound_refresh_resolution_def adopt_refreshed_tokens_def
      split: prod.splits sum.splits)

lemma persist_import_keeps:
  assumes "K (im_store d)"
    and "\<And>v s. K s \<Longrightarrow> K (snd (stage_rotation_recovery v s))" "\<And>i v s. K s \<Longrightarrow> K (snd (persist_stage i v s))"
  shows "K (im_store (snd (persist_unbound_refresh_resolution stamp path name u offered resolution d)))"
  unfolding persist_import_store stage_rotated_store
  using assms by (simp split: refresh_resolution.split sum.split option.split)

interpretation unbound: rotation_commit authorize_freely
  "persist_unbound_refresh_resolution (iw_stamp w) (iw_stage_path w) ''import''" "import_sound cd w" "\<lambda>_ _. True"
  for cd w
  by unfold_locales (simp_all add: authorize_freely_def persist_import_sound persist_import_stops)

interpretation unbound_guarded: rotation_commit authorize_freely
  "persist_unbound_refresh_resolution (iw_stamp w) (iw_stage_path w) ''import''"
  "\<lambda>d. guarded cd (st_trace (im_store d))" "\<lambda>_ _. True"
  for cd w
proof unfold_locales
  fix d :: import_desk and a :: unit and resolution offered
  assume "guarded cd (st_trace (im_store d))"
  then show "guarded cd (st_trace (im_store (snd (persist_unbound_refresh_resolution (iw_stamp w) (iw_stage_path w)
      ''import'' a offered resolution d))))"
    by (rule persist_import_keeps [where K = "\<lambda>s. guarded cd (st_trace s)"])
      (rule stage_guarded; assumption)+
qed (simp_all add: authorize_freely_def persist_import_stops)

interpretation unbound_true: rotation_commit authorize_freely
  "persist_unbound_refresh_resolution (iw_stamp w) (iw_stage_path w) ''import''"
  "\<lambda>d. coherent_over base (im_store d)" "\<lambda>_ _. True"
  for base w
proof unfold_locales
  fix d :: import_desk and a :: unit and resolution offered
  assume "coherent_over base (im_store d)"
  then show "coherent_over base (im_store (snd (persist_unbound_refresh_resolution (iw_stamp w) (iw_stage_path w)
      ''import'' a offered resolution d)))"
    by (rule persist_import_keeps [where K = "coherent_over base"]) (rule stage_coherent; assumption)+
qed (simp_all add: authorize_freely_def persist_import_stops)

section \<open>The validation keeps the discipline\<close>

lemma net_run_at:
  assumes "\<And>l. P l \<Longrightarrow> \<exists>m'. m l = m' l \<and> net_run P m' Q E"
  shows "net_run P m Q E"
  unfolding net_run_def
proof (intro allI impI)
  fix l
  assume "P l"
  with assms obtain m' where eq: "m l = m' l" and m': "net_run P m' Q E" by blast
  from m' \<open>P l\<close> show "case fst (m l) of Inl e \<Rightarrow> E e (snd (m l)) | Inr x \<Rightarrow> Q x (snd (m l))"
    unfolding eq net_run_def by blast
qed

abbreviation unbound_commit :: "import_world \<Rightarrow> (import_desk \<Rightarrow> bool) \<Rightarrow> bool" where
  "unbound_commit w I \<equiv> rotation_commit authorize_freely
     (persist_unbound_refresh_resolution (iw_stamp w) (iw_stage_path w) ''import'') I (\<lambda>_ _. True)"

lemma run_import_usage:
  assumes "unbound_commit w I"
  shows "net_run (within_law I calm)
    (net_then (net_lift (ok_or (other_error e) a)) (fetch_import_usage w bearer i refresh_tok))
    (\<lambda>_. within_law I calm) (ended I)"
proof -
  have lift: "net_run (within_law I calm) (net_lift (ok_or (other_error e) a)) (\<lambda>_. within_law I calm) (ended I)"
    by (rule net_run_lift) (auto intro: within_ended)
  show ?thesis
    unfolding fetch_import_usage_def
    by (intro net_run_then [OF lift] net_run_then [OF rotation_commit.run_fetch [OF assms]] net_run_give)
qed

lemma run_import_refresh:
  assumes "unbound_commit w I"
    and f: "\<And>first. net_run (within_law I calm) (f first) (\<lambda>_. within_law I calm) (ended I)"
  shows "net_run (within_law I calm)
    (net_then (authorized_rotation authorize_freely) (\<lambda>u.
     net_then (do_refresh_token_for_usage (iw_fetch w) ''import'' i offered) (\<lambda>resolution.
     net_then (persisted_rotation
         (persist_unbound_refresh_resolution (iw_stamp w) (iw_stage_path w) ''import'') u offered resolution) f)))
    (\<lambda>_. within_law I calm) (ended I)"
proof -
  have refresh: "net_run (within_law (\<lambda>s. I s \<and> True) (right_after NetCleared))
      (do_refresh_token_for_usage (iw_fetch w) ''import'' i offered)
      (\<lambda>r l. within_law (\<lambda>s. I s \<and> True) (right_after NetRotated) l \<and> complete_resolution r) (ended I)"
    by (rule net_run_mono [OF run_refresh [where X = "\<lambda>s. I s \<and> True"]])
      (auto simp: within_law_def ended_def may_continue_def)
  have persisted: "net_run (\<lambda>l. within_law (\<lambda>s. I s \<and> True) (right_after NetRotated) l \<and> complete_resolution r)
      (net_then (persisted_rotation
         (persist_unbound_refresh_resolution (iw_stamp w) (iw_stage_path w) ''import'') u offered r) f)
      (\<lambda>_. within_law I calm) (ended I)" for r u
    by (rule net_run_assume, rule net_run_then [OF rotation_commit.run_persisted [OF assms(1)] f])
  show ?thesis
    by (intro net_run_then [OF rotation_commit.run_authorized [OF assms(1)]] net_run_then [OF refresh] persisted)
qed

lemma run_validation:
  assumes "unbound_commit w I"
  shows "net_run (within_law I calm) (validate_import_auth_with_client cd w) (\<lambda>_. within_law I calm) (ended I)"
proof -
  note usage = run_import_usage [OF assms]
  have lift: "net_run (within_law I calm) (net_lift (map_err other_error r)) (\<lambda>_. within_law I calm) (ended I)"
    for r :: "unit result"
    by (rule net_run_lift) (auto intro: within_ended)
  have inner: "net_run (within_law I calm) (validate_import_auth_capturing_refresh cd w)
      (\<lambda>_. within_law I calm) (ended I)"
  proof (rule net_run_at)
    fix l :: "import_desk link"
    let ?val = "im_value (ln_local l)"
    obtain a r where tokens: "extract_tokens ?val = (a, r)" by fastforce
    show "\<exists>m'. validate_import_auth_capturing_refresh cd w l = m' l
        \<and> net_run (within_law I calm) m' (\<lambda>_. within_law I calm) (ended I)"
    proof (cases a)
      case (Some bearer)
      with tokens usage show ?thesis
        unfolding validate_import_auth_capturing_refresh_def Let_def by auto
    next
      case None
      show ?thesis
      proof (cases r)
        case (Some offered)
        have follow: "net_run (within_law I calm) (\<lambda>l. net_then (net_lift (ok_or (other_error e) (h l)))
            (fetch_import_usage w b i t) l) (\<lambda>_. within_law I calm) (ended I)" for e h b i t
          by (rule net_run_at) (use usage in blast)
        from None Some tokens run_import_refresh [OF assms follow] show ?thesis
          unfolding validate_import_auth_capturing_refresh_def Let_def by auto
      next
        case None
        with \<open>a = None\<close> tokens show ?thesis
          unfolding validate_import_auth_capturing_refresh_def Let_def
          by (intro exI [of _ "net_fail (other_error [''auth.json missing access_token and refresh_token''])"])
            (auto simp: net_fail_def net_run_def intro: within_ended)
      qed
    qed
  qed
  show ?thesis
    unfolding validate_import_auth_with_client_def by (intro net_run_then [OF lift] inner)
qed

lemma fresh_calm: "calm (fresh_link net d)" "ln_local (fresh_link net d) = d"
  by (simp_all add: fresh_link_def unlimited_def calm_def lawful_def drained_def open_end_def)

lemma validation_keeps:
  assumes "unbound_commit w I" "validate_import_auth_with_client cd w (fresh_link net d) = (r, l)" "I d"
  shows "I (ln_local l) \<and> lawful l"
proof -
  have "within_law I calm (fresh_link net d)" using assms(3) by (simp add: within_law_def fresh_calm)
  from net_runD [OF run_validation [OF assms(1)] this] assms(2) show ?thesis
    by (cases r) (auto simp: within_law_def ended_def calm_lawful)
qed

section \<open>The import keeps the trace\<close>

lemma consistent_import_step:
  "traced (guarded cd) (import_step_of cd ts w hint suggested profiles d validation)
     (\<lambda>_. consistent_history cd) (\<lambda>_. consistent_history cd)"
  unfolding import_step_of_def Let_def
  by (intro traced_sum traced_prod traced_if traced_give traced_then [OF traced_tried_weak [OF consistent_reserved_import]])
    (auto dest: guardedD)

lemma import_body_step:
  "\<exists>validation d. import_body cd ts w net v hint suggested profiles s
       = import_step_of cd ts w hint suggested profiles d validation (im_store d)
     \<and> (guarded cd (st_trace s) \<longrightarrow> guarded cd (st_trace (im_store d))) \<and> (\<forall>base. coherent_over base s \<longrightarrow> coherent_over base (im_store d))"
proof -
  let ?d = "\<lparr>im_store = s, im_value = v, im_refreshed = None, im_stage = None\<rparr>"
  obtain r l where v: "validate_import_auth_with_client cd w (fresh_link net ?d) = (r, l)" by fastforce
  note keeps = validation_keeps [OF unbound_guarded.rotation_commit_axioms v, of cd]
    validation_keeps [OF unbound_true.rotation_commit_axioms v]
  show ?thesis
    by (intro exI [of _ r] exI [of _ "ln_local l"]) (use v keeps in \<open>auto simp: import_body_def\<close>)
qed

lemma consistent_import_body:
  "traced (guarded cd) (import_body cd ts w net v hint suggested profiles)
     (\<lambda>_. consistent_history cd) (\<lambda>_. consistent_history cd)"
  unfolding traced_def
proof (intro allI impI)
  fix s :: store
  assume s: "guarded cd (st_trace s)"
  obtain validation d where body: "import_body cd ts w net v hint suggested profiles s
       = import_step_of cd ts w hint suggested profiles d validation (im_store d)"
    and d: "guarded cd (st_trace (im_store d))" using import_body_step s by metis
  have "consistent_history cd (st_trace (snd (import_step_of cd ts w hint suggested profiles d validation (im_store d))))"
    by (rule traced_final [OF consistent_import_step d])
  then show "case fst (import_body cd ts w net v hint suggested profiles s) of
       Inl e \<Rightarrow> consistent_history cd (st_trace (snd (import_body cd ts w net v hint suggested profiles s)))
     | Inr x \<Rightarrow> consistent_history cd (st_trace (snd (import_body cd ts w net v hint suggested profiles s)))"
    by (simp add: body split: sum.split)
qed

lemma truthful_import_body:
  "truthful (import_body cd ts w net v hint suggested profiles)"
  unfolding truthful_def
proof (intro allI impI)
  fix base and s :: store
  assume s: "coherent_over base s"
  obtain validation d where body: "import_body cd ts w net v hint suggested profiles s
       = import_step_of cd ts w hint suggested profiles d validation (im_store d)"
    and d: "coherent_over base (im_store d)" using import_body_step s by metis
  have "truthful (import_step_of cd ts w hint suggested profiles d validation)"
    unfolding import_step_of_def Let_def by (intro truthful_intros)
  with d show "coherent_over base (snd (import_body cd ts w net v hint suggested profiles s))"
    by (simp add: body truthful_def)
qed

lemma consistent_rescue: "keeps cd (rescue_rotated_credentials cd ts w hint suggested v stage cause)"
proof -
  note f = frame_consistent [of cd]
  have staged: "keeps cd (case stage of None \<Rightarrow> give None
       | Some i \<Rightarrow> also_then (tried (stage_contains i v)) (\<lambda>r. give (if r = Inr True then Some i else None)))"
    by (intro traced_option traced_give traced_then [OF traced_stage_quiet(3)] f)
  show ?thesis
    unfolding rescue_rotated_credentials_def
    by (intro traced_then [OF staged] traced_then [OF traced_tried_weak [OF consistent_recovery]] traced_give)
qed

lemma consistent_import_file [traced_intros]: "keeps cd (import_one_file cd ts w net source name)"
proof -
  have managed: "keeps cd (tried (validate_managed cd v))" for v
    by (rule traced_tried_weak) (rule traced_managed [OF frame_consistent])
  have reserved: "keeps cd (tried (reserve_import_credential_for_validation cd v (import_body cd ts w net v name sg)))" for v sg
    by (rule traced_tried_weak) (rule consistent_reservation [OF consistent_import_body])
  have step: "keeps cd (case x of ImportDone result \<Rightarrow> give result
      | ImportRescue value stage cause \<Rightarrow>
          also_then (rescue_rotated_credentials cd ts w name sg value stage cause) (\<lambda>failure. give (Inl failure)))" for x sg
    by (cases x) (auto intro: traced_give traced_then [OF consistent_rescue])
  show ?thesis
    unfolding import_one_file_def Let_def
    by (intro traced_sum traced_give traced_then [OF managed] traced_then [OF reserved] step)
qed

lemma truthful_import_file [truthful_intros]: "truthful (import_one_file cd ts w net source name)"
proof -
  have step: "truthful (case x of ImportDone result \<Rightarrow> give result
      | ImportRescue value stage cause \<Rightarrow>
          also_then (rescue_rotated_credentials cd ts w name sg value stage cause) (\<lambda>failure. give (Inl failure)))" for x sg
    unfolding rescue_rotated_credentials_def by (cases x) (auto intro!: truthful_intros)
  show ?thesis
    unfolding import_one_file_def Let_def
    by (intro truthful_intros truthful_reservation truthful_import_body step)
qed

end
