(* ===== verification/Profile_System.thy ===== *)
theory Profile_System
  imports Best_Discipline Import_Command
begin

text \<open>
  The commands of the program on one set of profiles, one after the other and against everything
  other processes do meanwhile: what holds of the files after any number of commands.
\<close>

section \<open>Commands and sessions\<close>

datatype command =
    SwitchTo string "string result" bool
  | SwitchQuietly string
  | SwitchIfCurrent string string
  | SyncCurrent
  | RepairExact string
  | RepairEquivalent string
  | DetectChange
  | SaveCurrent "string option"
  | AutoTrack
  | SaveLogin json "string option"
  | UpdateFromLive string
  | Reconcile
  | DeleteProfile string
  | RenameProfile string string
  | Reauthenticate string json bool
  | ImportFile import_world "import_desk link" "json result" "string option"
  | ReadUsage request_world "desk link" string refresh
  | UseBest plan_world revival_world "desk link" "string result" bool bool bool

text \<open>The requests of a command begin with an empty log.\<close>

definition over_network :: "'s link \<Rightarrow> 't \<Rightarrow> 't link" where
  "over_network net s =
     \<lparr>ln_local = s, ln_budget = ln_budget net, ln_phase = ln_phase net, ln_asks = ln_asks net, ln_permits = ln_permits net,
      ln_reads = ln_reads net, ln_refreshes = ln_refreshes net, ln_lookups = ln_lookups net, ln_log = []\<rparr>"

text \<open>Replacing the credential of a profile after a new login, under its lease.\<close>

definition reauthenticate :: "codec \<Rightarrow> string \<Rightarrow> json \<Rightarrow> bool \<Rightarrow> reauth_outcome action" where
  "reauthenticate cd name v allow =
     with_lease name (also_then (prepare_profile_reauth_with_lease cd name) (\<lambda>prepared.
       commit_prepared_profile_reauth_with_lease cd prepared name v allow))"

fun perform :: "codec \<Rightarrow> timestamps \<Rightarrow> command \<Rightarrow> store \<Rightarrow> store" where
  "perform cd ts (SwitchTo name input allow) s = snd (switch_profile_with_prompt cd input name allow s)"
| "perform cd ts (SwitchQuietly name) s = snd (switch_profile cd name s)"
| "perform cd ts (SwitchIfCurrent expected target) s = snd (switch_profile_if_current cd expected target s)"
| "perform cd ts SyncCurrent s = snd (sync_current_from_live cd s)"
| "perform cd ts (RepairExact name) s = snd (repair_current_for_exact_live_match cd name s)"
| "perform cd ts (RepairEquivalent name) s = snd (repair_current_for_equivalent_live_match cd name s)"
| "perform cd ts DetectChange s = snd (detect_auth_change cd s)"
| "perform cd ts (SaveCurrent hint) s = snd (cmd_save cd ts hint s)"
| "perform cd ts AutoTrack s = snd (auto_track_current cd ts s)"
| "perform cd ts (SaveLogin v hint) s = snd (save_auth_value cd v hint s)"
| "perform cd ts (UpdateFromLive name) s = snd (update_profile_from_live cd ts name s)"
| "perform cd ts Reconcile s = snd (reconcile_live_auth_for_tui cd ts s)"
| "perform cd ts (DeleteProfile name) s = snd (cmd_delete cd name s)"
| "perform cd ts (RenameProfile old new) s = snd (profile_rename cd old new s)"
| "perform cd ts (Reauthenticate name v allow) s = snd (reauthenticate cd name v allow s)"
| "perform cd ts (ImportFile w net source hint) s = snd (import_one_file cd ts w net source hint s)"
| "perform cd ts (ReadUsage w net name mode) s =
     dk_store (ln_local (snd (fetch_usage_retried_inner cd w name mode
       (over_network net \<lparr>dk_store = s, dk_rotated = None\<rparr>))))"
| "perform cd ts (UseBest pw w net input json terminal consume_card) s =
     dk_store (ln_local (ti_link (snd (best_cmd cd pw w input json terminal consume_card
       \<lparr>ti_link = over_network net \<lparr>dk_store = s, dk_rotated = None\<rparr>, ti_cards = []\<rparr>))))"

text \<open>
  Each command is a process of its own: it meets its own environment, holds no lock at first, and
  what it does is justified by what it has seen itself, so its trace begins empty.
\<close>

definition process_start :: "turn list \<Rightarrow> store \<Rightarrow> store" where
  "process_start script s = s\<lparr>st_leased := [], st_locked := False, st_script := script, st_trace := []\<rparr>"

fun session :: "codec \<Rightarrow> timestamps \<Rightarrow> (turn list \<times> command) list \<Rightarrow> store \<Rightarrow> event list list \<times> store" where
  "session cd ts [] s = ([], s)"
| "session cd ts ((script, c) # rest) s =
     (let s' = perform cd ts c (process_start script s); (traces, s'') = session cd ts rest s'
      in (st_trace s' # traces, s''))"

section \<open>Every session keeps the discipline\<close>

lemma over_network_calm: "calm (over_network net s)"
  by (simp add: calm_def lawful_def drained_def open_end_def over_network_def)

lemma reauthenticate_kept: "keeps cd (reauthenticate cd name v allow)" "truthful (reauthenticate cd name v allow)"
proof -
  show "keeps cd (reauthenticate cd name v allow)"
    unfolding reauthenticate_def
    by (intro traced_with_lease traced_then [OF consistent_prepare_reauth] consistent_reauth frame_rules frame_consistent)
  show "truthful (reauthenticate cd name v allow)"
    unfolding reauthenticate_def by (intro truthful_intros)
qed

lemma sound_store_action:
  "keeps cd m \<Longrightarrow> truthful m \<Longrightarrow> sound_store cd s \<Longrightarrow> sound_store cd (snd (m s))"
  unfolding sound_over_now [of cd s] by (rule sound_over_store [OF sound_action])

lemma performed:
  assumes "sound_store cd s"
  shows "sound_store cd (perform cd ts c s)"
proof (cases c)
  case (ReadUsage w net name mode)
  have "sound_store cd (dk_store (ln_local (over_network net \<lparr>dk_store = s, dk_rotated = None\<rparr>)))"
    using assms by (simp add: over_network_def)
  with over_network_calm have "sound_link cd s0 l" if "l = over_network net \<lparr>dk_store = s, dk_rotated = None\<rparr>" "s0 = st_trace s" for l s0
    using that by (simp add: within_law_def sound_over_now over_network_def)
  then show ?thesis
    using retried_sound [of cd "st_trace s" "over_network net \<lparr>dk_store = s, dk_rotated = None\<rparr>" w name mode]
    unfolding ReadUsage
    by (cases "fetch_usage_retried_inner cd w name mode (over_network net \<lparr>dk_store = s, dk_rotated = None\<rparr>)")
      (auto dest!: ends_soundD simp: ended_now_def)
next
  case (UseBest pw w net input json terminal consume_card)
  let ?t = "\<lparr>ti_link = over_network net \<lparr>dk_store = s, dk_rotated = None\<rparr>, ti_cards = []\<rparr>"
  have "fine cd False (\<lambda>_. True) (best_cmd cd pw w input json terminal consume_card) (\<lambda>_ _. True)"
    unfolding best_cmd_def by (intro fine_after fine_steps fine_carry_out lasting_true)
  moreover have "sound_now cd (ti_link ?t)"
    using assms over_network_calm [of net] by (simp add: sound_now_def over_network_def)
  moreover obtain r t' where run: "best_cmd cd pw w input json terminal consume_card ?t = (r, t')" by fastforce
  ultimately have "ended_now cd (ti_link t')" by (rule fineD(1) [OF _ _ TrueI])
  with run show ?thesis by (simp add: UseBest ended_now_def)
qed (simp_all add: sound_store_action [OF _ _ assms] consistent_switch_with_prompt consistent_switch_quiet
    consistent_switch_if_current consistent_sync consistent_repair_exact consistent_repair_equivalent consistent_detect
    consistent_save consistent_auto_track consistent_login consistent_update consistent_reconcile consistent_delete
    consistent_rename consistent_import_file reauthenticate_kept truthful_intros)

lemma session_trace:
  "t \<in> set (fst (session cd ts commands s)) \<Longrightarrow> history (event_ok cd) t \<and> history truth_ok t"
proof (induction commands arbitrary: s)
  case (Cons x commands)
  obtain script c where x: "x = (script, c)" by fastforce
  let ?s = "perform cd ts c (process_start script s)"
  obtain traces s' where rest: "session cd ts commands ?s = (traces, s')" by fastforce
  have "sound_store cd (process_start script s)"
    by (simp add: sound_store_def process_start_def coherent_def)
  from performed [OF this, of ts c] have now: "history (event_ok cd) (st_trace ?s) \<and> history truth_ok (st_trace ?s)"
    by (simp add: sound_store_def coherent_def)
  from Cons.prems have "t = st_trace ?s \<or> t \<in> set traces" by (simp add: x rest Let_def)
  with now Cons.IH [of ?s] rest show ?case by auto
qed simp



text \<open>
  C3. In every session a saved credential is overwritten only by one of the same account, or
  after the same command has archived an exact copy of it.
\<close>

theorem profiles_keep_their_account:
  assumes "pre @ WroteProfile name (Some old) new # post \<in> set (fst (session cd ts commands s))"
  shows "(\<exists>v w. cd_parse cd old = Inr v \<and> new = cd_print cd w \<and> same_account cd v w) \<or> ArchivedCopy name old \<in> set post"
  by (rule overwritten_account [OF conjunct1 [OF session_trace [OF assms]] conjunct2 [OF session_trace [OF assms]] refl])

section \<open>What single operations do\<close>

text \<open>An operation that starts under the transaction starts with the saved credentials as they are.\<close>

lemma starts_locked: "saved_are (st_auth s) (s\<lparr>st_locked := True\<rparr>)"
  by (simp add: saved_are_def)



text \<open>
  C6. Under the transaction a rename moves exactly one saved credential to the new name; when
  it fails it was rolled back, or the credential is still there under its new name.
\<close>

theorem rename_moves_one:
  assumes "a \<noteq> b" and "st_auth s b = None"
  shows "case rename_locked cd a b (s\<lparr>st_locked := True\<rparr>) of
     (Inr _, s') \<Rightarrow> st_auth s' = (st_auth s)(b := st_auth s a, a := None)
   | (Inl _, s') \<Rightarrow> st_auth s' \<in> {st_auth s, (st_auth s)(b := st_auth s a, a := None)}"
  using runD [OF rename_locked_effect [where c = "st_auth s", OF assms] starts_locked]
  by (fastforce simp: saved_are_def either_way_def moved_def split: prod.splits sum.splits)

text \<open>
  C7. Under the transaction an import adds the credential under a name that was free; when it
  fails, nothing else than one new profile can have appeared.
\<close>

theorem import_adds_one:
  "case create_import_profile cd ts v hint suggested stage (s\<lparr>st_locked := True\<rparr>) of
     (Inr r, s') \<Rightarrow> st_auth s (io_alias r) = None \<and> st_auth s' = (st_auth s)(io_alias r \<mapsto> cd_print cd v)
   | (Inl _, s') \<Rightarrow> st_auth s' = st_auth s
       \<or> (\<exists>name bytes. st_auth s name = None \<and> st_auth s' = (st_auth s)(name \<mapsto> bytes))"
proof -
  obtain r s' where run: "create_import_profile cd ts v hint suggested stage (s\<lparr>st_locked := True\<rparr>) = (r, s')" by fastforce
  show ?thesis
  proof (cases r)
    case (Inl e)
    from runD(2) [OF create_import_effect starts_locked run [unfolded Inl]] show ?thesis
      by (auto simp: run Inl only_added_def saved_are_def)
  next
    case (Inr x)
    from runD(1) [OF create_import_effect starts_locked run [unfolded Inr]] show ?thesis
      by (simp add: run Inr imported_as_def saved_are_def)
  qed
qed

text \<open>
  C4. When the service answers a refresh with a new token, then after the answer was persisted,
  whatever happens meanwhile, the profile holds the new token, or a recovery file does, or the
  error is the one that says that it could not be stored.
\<close>

theorem rotated_token_survives:
  assumes "successor response = Some new" and "error_parts response = None" and "is_success status"
    and "resolve_refreshed_tokens st response status id_token offered = Inr resolution"
  shows "case persist_refresh_resolution cd w name fa offered resolution s of
     (Inr r, s') \<Rightarrow> commit_outcome cd name new r s'
   | (Inl _, _) \<Rightarrow> False"
proof -
  have "case resolution of Validated t \<Rightarrow> rt_refresh_token t = new | RotatedButInvalid v _ \<Rightarrow> carries new v"
    using resolved_successor [OF assms(1-3), of st id_token offered] assms(4) by auto
  from runD [OF run_persist_resolution [OF this, of cd w name fa offered], of s] show ?thesis
    by (auto split: prod.splits sum.splits)
qed

section \<open>Two sessions\<close>

text \<open>
  One profile holds a credential without an account and is the current one; the user switches to
  the other profile, or logs in anew and agrees that the old credential is archived.
\<close>

definition demo_login :: json where
  "demo_login =
     JObject [(''tokens'', JObject [(''account_id'', JString ''n''), (''id_token'', JString ''h.c''),
                                    (''refresh_token'', JString ''N'')])]"

definition demo_codec :: codec where
  "demo_codec =
     \<lparr>cd_parse = (\<lambda>b. if b = ''A'' then Inr (demo_credential ''A'' ''1'')
                     else if b = ''C'' then Inr (JObject [(''email'', JString ''e'')])
                     else if b = ''N'' then Inr demo_login
                     else Inr (demo_credential ''B'' ''2'')),
      cd_print = (\<lambda>v. if v = demo_credential ''A'' ''1'' then ''A'' else if v = demo_login then ''N'' else ''B''),
      cd_utf8 = (\<lambda>_. Inr ()), cd_b64 = (\<lambda>b. if b = ''c'' then Some ''C'' else None)\<rparr>"

definition demo_store :: store where
  "demo_store = \<lparr>st_live = Some ''A'', st_marker = Some ''a'', st_names = [''a'', ''b''],
     st_auth = (\<lambda>name. if name = ''a'' then Some ''A'' else if name = ''b'' then Some ''B'' else None),
     st_stages = [], st_policy = Inr None, st_leased = [], st_locked = False, st_script = [], st_trace = []\<rparr>"

lemma demo_switched:
  "st_trace (snd (switch_profile demo_codec ''b'' (process_start [] demo_store))) =
     [CacheChanged, Unlocked, WroteMarker ''b''] @ PublishedLive (Some ''A'') ''B'' #
       [Saw LiveAuth (Some ''A''), Saw (ProfileAuth ''b'') (Some ''B''), Locked, Unlocked,
        Saw (ProfileAuth ''a'') (Some ''A''), Saw MarkerFile (Some ''a''), Saw LiveAuth (Some ''A''),
        Saw (ProfileAuth ''b'') (Some ''B''), Locked]"
  by code_simp

lemma demo_reauthenticated:
  "st_trace (snd (reauthenticate demo_codec ''a'' demo_login True (process_start [] demo_store))) =
     [Unlocked, WroteMarker ''a'', PublishedLive (Some ''A'') ''N'', Saw LiveAuth (Some ''A'')]
       @ WroteProfile ''a'' (Some ''A'') ''N'' #
       [ArchivedCopy ''a'' ''A'', Saw MarkerFile (Some ''a''), Saw LiveAuth (Some ''A''),
        Saw (ProfileAuth ''b'') (Some ''B''), Saw (ProfileAuth ''a'') (Some ''A''), Listed [''a'', ''b''],
        Saw (ProfileAuth ''a'') (Some ''A''), Saw (ProfileAuth ''a'') (Some ''A''), Locked,
        Saw (ProfileAuth ''a'') (Some ''A''), Saw (ProfileAuth ''a'') (Some ''A''),
        SawFile (ProfileAuth ''a'')]"
  by code_simp

lemma session_single:
  "fst (session cd ts [(script, c)] s) = [st_trace (perform cd ts c (process_start script s))]"
  by (simp add: Let_def)


theorem profiles_keep_their_account_witness:
  "(\<exists>v w. cd_parse demo_codec ''A'' = Inr v \<and> ''N'' = cd_print demo_codec w \<and> same_account demo_codec v w)
   \<or> ArchivedCopy ''a'' ''A'' \<in> set [ArchivedCopy ''a'' ''A'', Saw MarkerFile (Some ''a''), Saw LiveAuth (Some ''A''),
        Saw (ProfileAuth ''b'') (Some ''B''), Saw (ProfileAuth ''a'') (Some ''A''), Listed [''a'', ''b''],
        Saw (ProfileAuth ''a'') (Some ''A''), Saw (ProfileAuth ''a'') (Some ''A''), Locked,
        Saw (ProfileAuth ''a'') (Some ''A''), Saw (ProfileAuth ''a'') (Some ''A''),
        SawFile (ProfileAuth ''a'')]"
  by (rule profiles_keep_their_account [where cd = demo_codec and ts = "\<lambda>_. None" and s = demo_store
        and commands = "[([], Reauthenticate ''a'' demo_login True)]"
        and pre = "[Unlocked, WroteMarker ''a'', PublishedLive (Some ''A'') ''N'', Saw LiveAuth (Some ''A'')]",
        unfolded session_single perform.simps demo_reauthenticated]) simp


lemma demo_names: "st_auth demo_store ''c'' = None"
  by (simp add: demo_store_def)

theorem rename_moves_one_witness:
  "case rename_locked demo_codec ''b'' ''c'' (demo_store\<lparr>st_locked := True\<rparr>) of
     (Inr _, s') \<Rightarrow> st_auth s' = (st_auth demo_store)(''c'' := Some ''B'', ''b'' := None)
   | (Inl _, s') \<Rightarrow> st_auth s' \<in> {st_auth demo_store, (st_auth demo_store)(''c'' := Some ''B'', ''b'' := None)}"
proof -
  have "st_auth demo_store ''b'' = Some ''B''" by (simp add: demo_store_def)
  from rename_moves_one [of "''b''" "''c''" demo_store demo_codec, unfolded this] demo_names show ?thesis by simp
qed

definition demo_response :: refresh_response where
  "demo_response =
     \<lparr>rr_id_token = None, rr_access_token = Some ''x'', rr_refresh_token = Some ''R'', rr_error = None,
      rr_error_description = None\<rparr>"

definition demo_tokens :: refreshed_tokens where
  "demo_tokens = \<lparr>rt_id_token = ''h.c'', rt_access_token = ''x'', rt_refresh_token = ''R''\<rparr>"

definition demo_world_of_commits :: commit_world where
  "demo_world_of_commits =
     \<lparr>cw_stamp = (\<lambda>_. Inr ''3''), cw_profile_stamp = (\<lambda>_. Inr ''3''), cw_stage_path = (\<lambda>_. ''f'')\<rparr>"

definition demo_authorization :: fresh_authorization where
  "demo_authorization =
     \<lparr>fa_alias = ''a'', fa_live = Some ''N'', fa_marker = Some ''a'', fa_activate = True,
      fa_identity = extract_identity demo_codec demo_login, fa_profile = demo_login\<rparr>"

theorem rotated_token_survives_witness:
  "case persist_refresh_resolution demo_codec demo_world_of_commits ''a'' demo_authorization ''N'' (Validated demo_tokens)
    (process_start [] (demo_store\<lparr>st_auth := [''a'' \<mapsto> ''N''], st_live := Some ''N''\<rparr>)) of
     (Inr r, s') \<Rightarrow> commit_outcome demo_codec ''a'' ''R'' r s'
   | (Inl _, _) \<Rightarrow> False"
  by (rule rotated_token_survives [where response = demo_response and status = 200 and id_token = "Some ''h.c''"
        and st = "\<lambda>_. []"]) code_simp+

lemma demo_rotation:
  "fst (persist_refresh_resolution demo_codec demo_world_of_commits ''a'' demo_authorization ''N'' (Validated demo_tokens)
    (process_start [] (demo_store\<lparr>st_auth := [''a'' \<mapsto> ''N''], st_live := Some ''N''\<rparr>))) = Inr (Inr demo_tokens)"
  by code_simp

end
