(* ===== verification/Spec2Isabelle.thy ===== *)
theory Spec2Isabelle
  imports Selection Global_Pace Reset_Enrichment Usage_Parse Cache_Store Lock_Wait Codex_Activity
    Config Task_Batch Daemon_Loop Auth_Publication Usage_Request
    Profile_System
begin

text \<open>
  A verification library for codex-switch (src/src, Rust). The program keeps several Codex
  accounts as profiles and switches the live credential file between them. It reads each
  account's quota from the service, scores the accounts, redeems and looks up reset cards, caches
  what it reads, and runs a daemon that switches on its own.

  How the parts interact. The daemon polls: it reads the profiles and the cache's ranking
  metadata, drains a batch of candidate workers, scores what they observed, selects a target, asks
  the process check for permission, and activates the target by a conditional publication of the
  live credential. A usage read fetches and parses a response and completes a probe, which the
  cache accepts only over the baseline the read started from; a deferred reset-card lookup merges
  only into the observation it belongs to. All of them act under profile leases and the cache
  lock. The commands read and change the profiles themselves: they follow the live credential,
  save it, switch, import, rename and delete, log in anew, store tokens that a request rotated,
  and best redeems a card for an exhausted account before it switches to it.

  Theories and the code they model.

  \<^item> Prelude: results, fixed-width arithmetic, lists and maps that the components share.
  \<^item> Float64: IEEE binary64 with its comparison, rounding, NaN and infinities, in which the
    program scores; Json_Value: JSON values and their accessors (serde_json).
  \<^item> Account_Info (jwt.rs): claims, plans, strict identity bindings, token expiry.
  \<^item> Usage_Types (usage/mod.rs): the usage sample, its windows and blockers, the candidate.
  \<^item> Usage_Parse (usage/parse.rs): the lenient and the checked reading of a usage response.
  \<^item> Scoring and Selection (usage/scoring.rs): eligibility, every score term, the pool, and the
    choice of the switch target.
  \<^item> Global_Pace (usage/global_pace.rs): weekly pace per account and pooled.
  \<^item> Reset_Credits (usage/reset_credits.rs): parsing of cards, the check before a card is spent, and
    the redemption loop; Reset_Enrichment (also auth.rs, usage/api.rs): the deferred lookup
    with its single token rotation.
  \<^item> Safe_Text (safe_text.rs): what may reach the terminal.
  \<^item> Cache and Cache_Store (cache.rs): the cache file and every mutation of it; the public
    operations as transactions of lock, load, mutate and publish.
  \<^item> Race_Control (usage/api.rs): the cancellation boundary of a usage read; Lock_Wait (cache.rs,
    profile.rs): the two cancellable waits as step relations and their common contract.
  \<^item> Codex_Activity (daemon/codex_process.rs): which processes forbid a switch.
  \<^item> Config (config.rs), Task_Batch (task_batch.rs): configuration; batches of named workers.
  \<^item> Daemon_Loop (daemon/loop_runner.rs, daemon/state.rs): one poll, the cache refresh, the loop.
  \<^item> Auth_Publication (auth.rs): the conditional, recoverable write of the live credential.
  \<^item> Auth_Value (auth.rs, profile.rs): credential values: reading, validation, the managed policy,
    tokens, redaction.
  \<^item> Profile_Store (profile.rs, auth.rs): the files of the profiles, the live credential and the
    marker, and the accesses to them; Profile_Registry: listing, identities, matching, the order
    of refreshed credentials; Profile_Effects and Profile_History hold what the operations leave
    in the files and in the trace, and have no code of their own.
  \<^item> Profile_Sync, Profile_Switch, Profile_Consent, Profile_Save, Profile_Refresh, Profile_Admin and
    Profile_Import (profile.rs): following the live credential, the switches, saving and logging
    in, storing rotated tokens, deletion, renaming and logging in anew, importing.
  \<^item> Token_Refresh, Usage_Fetch and Usage_Request (usage/api.rs): the refresh of a token, one
    reading of the quota, and the rounds of a usage request on a profile.
  \<^item> Import_Command (commands/import.rs): the import of one file.
  \<^item> Best_Selection and Best_Command (commands/profile.rs, usage/reset_credits.rs): the plan of best
    and its execution; Best_Discipline: Hoare triples for it.
  \<^item> Profile_System: sessions of all these commands on one store.

  Correspondence. A struct is a record with a prefix per type (u_primary is UsageInfo.primary), an
  enum a datatype, a function a definition of the same name. A Result is a sum with the error on
  the left; an anyhow error is the list of its contexts, outermost first. Integers are int or nat
  with the range checks, saturation and wrap-around of the source written out; floats are
  binary64. A HashMap is a map, a Vec a list. A panic or an abort does not occur on the paths
  modelled; where the source indexes it has checked the bound. A transaction on a file is a
  function on the file's state with the failures of the outside as arguments. Concurrency is an
  explicit step relation (Race_Control, Lock_Wait), an arbitrary completion order (Task_Batch,
  Daemon_Loop) or an arbitrary script of foreign actions, failures and crashes before each call
  of the file system (Auth_Publication).

  An operation on the profiles is an action: a function from a store to a result and a store. The
  store holds the files, the locks of the process, the script of its environment and a trace of
  events, newest first. Before each access the script lets other processes change whatever the
  locks held permit, and decides how the access ends: done, refused, done without confirmation,
  or unclear. The trace records what was seen, written, archived, moved and asked. A request runs
  on a link, which adds the answers of the network, permits and a log of what was sent; best runs
  on a till, which adds the card requests. A revision of a file is its bytes. Error texts are
  abbreviated where nothing depends on them; a dash outside Latin-1 is a hyphen.

  Parameters. Network answers, the clock, random bytes, process lists, file contents, lock
  outcomes, the readers of TOML, URLs and base64, hashes and the text of JSON numbers are
  arguments of the definitions. Nothing is assumed of them beyond what a theorem states.

  What the groups of lemmas show.

  \<^item> Publication: the original credential is never lost; no foreign file is removed, but for what is
    written in place between the check and the unlink of a removal; recovery completes after any
    crash; an undisturbed write does what it says.
  \<^item> Daemon: a switch is justified and permitted, the order of workers is irrelevant, failures back
    off within bounds, the state stays typed, a pending switch keeps its time, a refresh accounts
    for every profile.
  \<^item> Selection: the target is the first best of a definite list and never a blocked account;
    eligibility is monotone; scores are finite, with their exact bounds under rounding.
  \<^item> Parsing: a response that is not understood never yields an eligible account; both readings
    agree; the windows of a parsed response are usable.
  \<^item> Cards: one logical redemption, certainty that a card was not spent, the check binds the card;
    a lookup rotates the token at most once.
  \<^item> Cache: bound writes are read back by their owner only; probes publish only over their
    baseline and in batches atomically; an enrichment joins its own observation; renames move one
    generation. These are invariants over arbitrary sequences of operations.
  \<^item> Waits and cancellation: cancelled work never starts, started work is never cancelled; both waits
    implement one contract on where the worker stands, what was cancelled and who has the lock;
    deadlines are met; the completion loop ends.
  \<^item> Profiles: every action keeps two histories, one of reasons (event_ok: each write, move and
    activation was justified by what had been seen) and one of truth (truth_ok: what was seen
    under a transaction is what was overwritten). Both hold in every session of all commands;
    from them follow why a live credential was overwritten and that saved ones keep their
    account. Replaced tokens never return.
  \<^item> Requests: a token is presented only when authorised, its successor is stored before anything
    else is sent, nothing is sent after an unknown outcome, and a request that was cancelled has
    presented none.
  \<^item> Best: the plan names the top of the ranking or revives the account with the earliest card, and
    every card request is accounted for.
  \<^item> Processes: the classification of command lines is exact, a switch is permitted exactly when
    every process was shown harmless, and Windows quoting round-trips.

  Interfaces are locales, each interpreted on the model's own definitions: an order in which to
  rank (ranking in Prelude, for binary64 in Float64), the race for one claim (claim_race in
  Race_Control, for the usage read and for both waits of Lock_Wait), a program that refines the
  contract of a wait (cancellable_wait in Lock_Wait), a store whose entries
  are stamped (stamped_store in Cache_Store), and assertions that survive interference
  (environment_assertion, stable_assertion and frame_assertion in Auth_Publication). The revival of
  best ranks its candidates by the first of these (Best_Selection). The commit of rotated tokens that a
  request relies on is rotation_commit (Usage_Fetch), which the profile store provides.

  Bounds and fuel. Recursion is structural or has a measure; no definition runs on fuel. The redemption
  loop ends after three requests, the completion loop after three iterations; both are theorems.

  Not modelled. Rendering and the terminal interface, command dispatch, logging, installers,
  self-update, service managers and pid files, login flows and HTTP itself are input and output
  around the modelled decisions. Warm-up and the opportunistic refresh of a whole batch of
  profiles (usage/api.rs) are core logic that is not modelled. The file system primitives of
  fs_ops.rs appear only through the effects that Auth_Publication and Profile_Store state for
  them (of a removal the check and the unlink, without the quarantine name around them); the Windows variant of the publication, name collisions, the pruning of backups and
  archives, hooks of tests and the modes of private directories are left out. A decoded response
  is what the derived deserialiser gives. The cache is a parameter of a request. What the
  workers of a planning best did to the profiles precedes its starting store.
\<close>

end
